(* ===== verification/Prelude.thy ===== *)
theory Prelude
  imports Main "HOL-Library.Sublist" "HOL-Library.Char_ord"
begin

text \<open>
  Shared ground of the development: Rust's string operations, the collections of
  rewrite rules the components' proofs use, and the generic contracts (locales) several
  components satisfy.

  A Rust \<open>str\<close> is the list of its UTF-8 bytes. HOL's \<^typ>\<open>char\<close> is an 8-bit
  value, so \<^typ>\<open>string\<close> is exactly a byte sequence: \<open>len()\<close> is
  \<^const>\<open>length\<close>, and every comparison of the sources with an ASCII literal is a
  comparison of bytes (a byte below 128 never occurs inside a multi-byte character).
\<close>

type_synonym rstr = string

named_theorems str_simps \<open>rewrite rules for the string operations\<close>

section \<open>Characters and bytes\<close>

definition byte :: "char \<Rightarrow> nat" where
  "byte c = of_char c"

definition is_ascii_digit :: "char \<Rightarrow> bool" where
  "is_ascii_digit c = (48 \<le> byte c \<and> byte c \<le> 57)"

text \<open>\<open>u8::is_ascii_whitespace\<close>: space, tab, line feed, form feed, carriage return.\<close>

definition is_ascii_ws :: "char \<Rightarrow> bool" where
  "is_ascii_ws c = (byte c \<in> {32, 9, 10, 12, 13})"

text \<open>A UTF-8 continuation byte; a character boundary is any other byte, or the end.\<close>

definition is_continuation :: "char \<Rightarrow> bool" where
  "is_continuation c = (128 \<le> byte c \<and> byte c < 192)"

definition to_ascii_lower_char :: "char \<Rightarrow> char" where
  "to_ascii_lower_char c =
     (if 65 \<le> byte c \<and> byte c \<le> 90 then char_of (byte c + 32) else c)"

definition to_ascii_lowercase :: "rstr \<Rightarrow> rstr" where
  "to_ascii_lowercase s = map to_ascii_lower_char s"

definition eq_ignore_ascii_case :: "rstr \<Rightarrow> rstr \<Rightarrow> bool" where
  "eq_ignore_ascii_case a b = (to_ascii_lowercase a = to_ascii_lowercase b)"

text \<open>
  \<open>str::to_lowercase\<close>, as far as a comparison with ASCII words can see it: the ASCII
  letters, U+212A (Kelvin sign, to \<open>k\<close>) and U+0130 (to \<open>i\<close> and U+0307) are the only
  characters whose lowercase mapping contains an ASCII character; every other character
  stays or maps to characters that are not ASCII, and is left as it is here.
\<close>

fun to_lowercase :: "rstr \<Rightarrow> rstr" where
  "to_lowercase (a # b # c # s) =
     (if byte a = 226 \<and> byte b = 132 \<and> byte c = 170 then CHR ''k'' # to_lowercase s
      else if byte a = 196 \<and> byte b = 176
      then CHR ''i'' # char_of (204 :: nat) # char_of (135 :: nat) # to_lowercase (c # s)
      else to_ascii_lower_char a # to_lowercase (b # c # s))"
| "to_lowercase [a, b] =
     (if byte a = 196 \<and> byte b = 176
      then [CHR ''i'', char_of (204 :: nat), char_of (135 :: nat)]
      else [to_ascii_lower_char a, to_ascii_lower_char b])"
| "to_lowercase [a] = [to_ascii_lower_char a]"
| "to_lowercase [] = []"

section \<open>Searching and splitting\<close>

fun starts_with :: "rstr \<Rightarrow> rstr \<Rightarrow> bool" where
  "starts_with s [] = True"
| "starts_with [] (p # ps) = False"
| "starts_with (c # s) (p # ps) = (c = p \<and> starts_with s ps)"

definition ends_with :: "rstr \<Rightarrow> rstr \<Rightarrow> bool" where
  "ends_with s p = starts_with (rev s) (rev p)"

definition strip_prefix :: "rstr \<Rightarrow> rstr \<Rightarrow> rstr option" where
  "strip_prefix s p = (if starts_with s p then Some (drop (length p) s) else None)"

definition strip_suffix :: "rstr \<Rightarrow> rstr \<Rightarrow> rstr option" where
  "strip_suffix s p =
     (if ends_with s p then Some (take (length s - length p) s) else None)"

fun contains :: "rstr \<Rightarrow> rstr \<Rightarrow> bool" where
  "contains [] n = (n = [])"
| "contains (c # s) n = (starts_with (c # s) n \<or> contains s n)"

text \<open>\<open>str::find(p)\<close>: the index of the first match.\<close>

fun find_sub :: "rstr \<Rightarrow> rstr \<Rightarrow> nat option" where
  "find_sub [] p = (if p = [] then Some 0 else None)"
| "find_sub (c # s) p =
     (if starts_with (c # s) p then Some 0 else map_option Suc (find_sub s p))"

text \<open>\<open>str::split(c)\<close>: always at least one piece.\<close>

fun split_on :: "char \<Rightarrow> rstr \<Rightarrow> rstr list" where
  "split_on d [] = [[]]"
| "split_on d (c # s) =
     (if c = d then [] # split_on d s
      else (case split_on d s of [] \<Rightarrow> [[c]] | w # ws \<Rightarrow> (c # w) # ws))"

text \<open>\<open>str::split_inclusive(c)\<close>: the separator stays at the end of its piece.\<close>

fun split_inclusive :: "char \<Rightarrow> rstr \<Rightarrow> rstr list" where
  "split_inclusive d [] = []"
| "split_inclusive d (c # s) =
     (if c = d then [c] # split_inclusive d s
      else (case split_inclusive d s of
              [] \<Rightarrow> [[c]]
            | w # ws \<Rightarrow> (c # w) # ws))"

text \<open>\<open>str::split_once(c)\<close>: at the first occurrence.\<close>

fun split_once :: "char \<Rightarrow> rstr \<Rightarrow> (rstr \<times> rstr) option" where
  "split_once d [] = None"
| "split_once d (c # s) =
     (if c = d then Some ([], s)
      else map_option (\<lambda>(a, b). (c # a, b)) (split_once d s))"

text \<open>\<open>str::rsplit(c).next()\<close>: what follows the last occurrence.\<close>

definition last_segment :: "char \<Rightarrow> rstr \<Rightarrow> rstr" where
  "last_segment d s = rev (takeWhile (\<lambda>c. c \<noteq> d) (rev s))"

definition trim_start_chars :: "char set \<Rightarrow> rstr \<Rightarrow> rstr" where
  "trim_start_chars A s = dropWhile (\<lambda>c. c \<in> A) s"

definition trim_end_chars :: "char set \<Rightarrow> rstr \<Rightarrow> rstr" where
  "trim_end_chars A s = rev (dropWhile (\<lambda>c. c \<in> A) (rev s))"

fun join :: "rstr \<Rightarrow> rstr list \<Rightarrow> rstr" where
  "join sep [] = []"
| "join sep [w] = w"
| "join sep (w # v # ws) = w @ sep @ join sep (v # ws)"

section \<open>Unicode white space\<close>

text \<open>
  \<open>str::trim\<close> and \<open>split_whitespace\<close> use Unicode's \<open>White_Space\<close> property.
  \<open>ws_width s\<close> is the number of bytes of the white-space character \<open>s\<close> starts
  with, 0 when it starts with none: the six ASCII ones, U+0085, U+00A0, U+1680,
  U+2000 to U+200A, U+2028, U+2029, U+202F, U+205F and U+3000 in UTF-8.
\<close>

definition ws3 :: "nat \<Rightarrow> nat \<Rightarrow> nat \<Rightarrow> bool" where
  "ws3 a b c =
     (a = 225 \<and> b = 154 \<and> c = 128
      \<or> a = 226 \<and> b = 128 \<and> (128 \<le> c \<and> c \<le> 138 \<or> c = 168 \<or> c = 169 \<or> c = 175)
      \<or> a = 226 \<and> b = 129 \<and> c = 159
      \<or> a = 227 \<and> b = 128 \<and> c = 128)"

definition ws2 :: "nat \<Rightarrow> nat \<Rightarrow> bool" where
  "ws2 a b = (a = 194 \<and> (b = 133 \<or> b = 160))"

definition ws1 :: "nat \<Rightarrow> bool" where
  "ws1 a = (9 \<le> a \<and> a \<le> 13 \<or> a = 32)"

fun ws_width :: "rstr \<Rightarrow> nat" where
  "ws_width [] = 0"
| "ws_width [a] = (if ws1 (byte a) then 1 else 0)"
| "ws_width [a, b] =
     (if ws1 (byte a) then 1 else if ws2 (byte a) (byte b) then 2 else 0)"
| "ws_width (a # b # c # s) =
     (if ws1 (byte a) then 1
      else if ws2 (byte a) (byte b) then 2
      else if ws3 (byte a) (byte b) (byte c) then 3 else 0)"

text \<open>The same, read from the end of the string (the argument is reversed).\<close>

fun ws_width_rev :: "rstr \<Rightarrow> nat" where
  "ws_width_rev [] = 0"
| "ws_width_rev [a] = (if ws1 (byte a) then 1 else 0)"
| "ws_width_rev [b, a] =
     (if ws1 (byte b) then 1 else if ws2 (byte a) (byte b) then 2 else 0)"
| "ws_width_rev (c # b # a # s) =
     (if ws1 (byte c) then 1
      else if ws2 (byte b) (byte c) then 2
      else if ws3 (byte a) (byte b) (byte c) then 3 else 0)"

function trim_start :: "rstr \<Rightarrow> rstr" where
  "trim_start s = (if ws_width s = 0 then s else trim_start (drop (ws_width s) s))"
  by pat_completeness auto
termination
proof (relation "measure length")
  fix s :: rstr
  assume "ws_width s \<noteq> 0"
  moreover from this have "s \<noteq> []" by auto
  ultimately show "(drop (ws_width s) s, s) \<in> measure length" by simp
qed auto

function trim_rev :: "rstr \<Rightarrow> rstr" where
  "trim_rev s = (if ws_width_rev s = 0 then s else trim_rev (drop (ws_width_rev s) s))"
  by pat_completeness auto
termination
proof (relation "measure length")
  fix s :: rstr
  assume "ws_width_rev s \<noteq> 0"
  moreover from this have "s \<noteq> []" by auto
  ultimately show "(drop (ws_width_rev s) s, s) \<in> measure length" by simp
qed auto

declare trim_start.simps [simp del] trim_rev.simps [simp del]

definition trim_end :: "rstr \<Rightarrow> rstr" where
  "trim_end s = rev (trim_rev (rev s))"

definition trim :: "rstr \<Rightarrow> rstr" where
  "trim s = trim_end (trim_start s)"

text \<open>\<open>str::split_whitespace\<close>; \<open>w\<close> is the word read so far, reversed.\<close>

function words_from :: "rstr \<Rightarrow> rstr \<Rightarrow> rstr list" where
  "words_from w s =
     (if s = [] then (if w = [] then [] else [rev w])
      else if ws_width s = 0 then words_from (hd s # w) (tl s)
      else (if w = [] then [] else [rev w]) @ words_from [] (drop (ws_width s) s))"
  by pat_completeness auto
termination
  by (relation "measure (\<lambda>(w, s). length s)") auto

declare words_from.simps [simp del]

definition split_whitespace :: "rstr \<Rightarrow> rstr list" where
  "split_whitespace s = words_from [] s"

text \<open>An ASCII character that is not white space.\<close>

definition plain_char :: "char \<Rightarrow> bool" where
  "plain_char c = (byte c < 128 \<and> \<not> ws1 (byte c))"

lemma ws_width_plain [simp]: "plain_char c \<Longrightarrow> ws_width (c # s) = 0"
  by (cases "c # s" rule: ws_width.cases) (auto simp: plain_char_def ws2_def ws3_def)

lemma words_from_plain: "list_all plain_char u \<Longrightarrow> words_from w (u @ s) = words_from (rev u @ w) s"
proof (induction u arbitrary: w)
  case (Cons c u)
  then show ?case by (subst words_from.simps) simp
qed simp

lemma words_from_space: "w \<noteq> [] \<Longrightarrow> words_from w (CHR '' '' # s) = rev w # words_from [] s"
proof -
  have "ws_width (CHR '' '' # s) = 1"
    by (cases "CHR '' '' # s" rule: ws_width.cases) (auto simp: byte_def ws1_def)
  then show "w \<noteq> [] \<Longrightarrow> ?thesis" by (subst words_from.simps) simp
qed

lemma split_whitespace_join:
  "list_all (\<lambda>w. w \<noteq> [] \<and> list_all plain_char w) ws \<Longrightarrow> split_whitespace (join '' '' ws) = ws"
proof (induction "'' '' :: rstr" ws rule: join.induct)
  case 1
  then show ?case by (simp add: split_whitespace_def words_from.simps)
next
  case (2 w)
  then show ?case
    using words_from_plain [of w "[]" "[]"] by (simp add: split_whitespace_def words_from.simps [of _ "[]"])
next
  case (3 w v ws)
  then show ?case
    by (simp add: split_whitespace_def words_from_plain words_from_space)
qed

lemma ws_width_rev_plain [simp]: "plain_char c \<Longrightarrow> ws_width_rev (c # s) = 0"
  by (cases "c # s" rule: ws_width_rev.cases) (auto simp: plain_char_def ws2_def ws3_def)

lemma trim_start_plain [simp]: "plain_char c \<Longrightarrow> trim_start (c # s) = c # s"
  by (simp add: trim_start.simps [of "c # s"])

lemma trim_end_plain: "s \<noteq> [] \<Longrightarrow> plain_char (last s) \<Longrightarrow> trim_end s = s"
proof -
  assume s: "s \<noteq> []" "plain_char (last s)"
  then obtain c r where r: "rev s = c # r" "plain_char c"
    by (cases "rev s") (auto simp: last_rev hd_rev dest: arg_cong [of _ _ rev])
  have "trim_rev (rev s) = rev s" using r by (simp add: trim_rev.simps [of "c # r"])
  then show "trim_end s = s" by (simp add: trim_end_def)
qed

lemma trim_end_prefix: "\<exists>w. s = trim_end s @ w"
proof -
  have "\<exists>w. r = w @ trim_rev r" for r
  proof (induction r rule: trim_rev.induct)
    case (1 s)
    show ?case
    proof (cases "ws_width_rev s = 0")
      case True
      then show ?thesis by (simp add: trim_rev.simps [of s])
    next
      case False
      then obtain w where "drop (ws_width_rev s) s = w @ trim_rev (drop (ws_width_rev s) s)"
        using 1 by blast
      then have "s = (take (ws_width_rev s) s @ w) @ trim_rev s"
        using False by (metis append.assoc append_take_drop_id trim_rev.simps)
      then show ?thesis by blast
    qed
  qed
  then obtain w where "rev s = w @ trim_rev (rev s)" by blast
  then have "s = trim_end s @ rev w" unfolding trim_end_def by (metis rev_append rev_rev_ident)
  then show ?thesis by blast
qed

lemma ws_width_rev_le: "plain_char c \<Longrightarrow> ws_width_rev (x @ c # s) \<le> length x"
proof (induction x rule: induct_list012)
  case (2 u)
  then show ?case by (cases s) (auto simp: plain_char_def ws2_def ws3_def)
next
  case (3 u v y)
  then show ?case by (cases y) (auto simp: plain_char_def ws3_def)
qed simp

lemma trim_rev_stops: "plain_char c \<Longrightarrow> \<exists>x'. trim_rev (x @ c # s) = x' @ c # s"
proof (induction "x @ c # s" arbitrary: x rule: trim_rev.induct)
  case 1
  let ?w = "ws_width_rev (x @ c # s)"
  show ?case
  proof (cases "?w = 0")
    case True
    then show ?thesis by (subst trim_rev.simps) auto
  next
    case False
    have "?w \<le> length x" using 1(2) by (rule ws_width_rev_le)
    then have "drop ?w (x @ c # s) = drop ?w x @ c # s" by simp
    with 1 False show ?thesis by (subst trim_rev.simps) auto
  qed
qed

lemma trim_keeps_plain:
  assumes "list_all plain_char w" and "w \<noteq> []"
  shows "\<exists>r'. trim (w @ r) = w @ r'"
proof -
  obtain v c where w: "w = v @ [c]" using assms(2) by (meson rev_exhaust)
  with assms(1) have c: "plain_char c" by simp
  have "trim_start (w @ r) = w @ r" using assms by (cases w) simp_all
  moreover obtain x' where "trim_rev (rev r @ c # rev v) = x' @ c # rev v"
    using trim_rev_stops [OF c] by blast
  ultimately have "trim (w @ r) = w @ rev x'" using w by (simp add: trim_def trim_end_def)
  then show ?thesis by blast
qed

lemma trim_Nil [simp]: "trim [] = []"
  by (simp add: trim_def trim_end_def trim_start.simps [of "[]"] trim_rev.simps [of "[]"])

section \<open>Letter case\<close>

lemma lower_char_byte:
  "byte (to_ascii_lower_char c) = (if 65 \<le> byte c \<and> byte c \<le> 90 then byte c + 32 else byte c)"
  by (simp add: to_ascii_lower_char_def byte_def)

lemma lower_char_idem [simp]: "to_ascii_lower_char (to_ascii_lower_char c) = to_ascii_lower_char c"
  using lower_char_byte [of c] by (auto simp: to_ascii_lower_char_def)

lemma lowercase_idem [simp]: "to_ascii_lowercase (to_ascii_lowercase s) = to_ascii_lowercase s"
  by (simp add: to_ascii_lowercase_def)

lemma lower_char_ws [simp]:
  "ws1 (byte (to_ascii_lower_char a)) = ws1 (byte a)"
  "ws2 (byte (to_ascii_lower_char a)) (byte (to_ascii_lower_char b)) = ws2 (byte a) (byte b)"
  "ws3 (byte (to_ascii_lower_char a)) (byte (to_ascii_lower_char b)) (byte (to_ascii_lower_char c))
    = ws3 (byte a) (byte b) (byte c)"
  by (auto simp: lower_char_byte ws1_def ws2_def ws3_def)

lemma ws_width_lower [simp]:
  "ws_width (map to_ascii_lower_char s) = ws_width s"
  "ws_width_rev (map to_ascii_lower_char s) = ws_width_rev s"
  by (cases s rule: ws_width.cases; simp) (cases s rule: ws_width_rev.cases; simp)

lemma trim_lowercase: "trim (to_ascii_lowercase s) = to_ascii_lowercase (trim s)"
proof -
  have start: "trim_start (map to_ascii_lower_char s) = map to_ascii_lower_char (trim_start s)" for s
    by (induction s rule: trim_start.induct) (subst (1 2) trim_start.simps, simp add: drop_map)
  have "trim_rev (map to_ascii_lower_char s) = map to_ascii_lower_char (trim_rev s)" for s
    by (induction s rule: trim_rev.induct) (subst (1 2) trim_rev.simps, simp add: drop_map)
  then show ?thesis using start by (simp add: trim_def trim_end_def to_ascii_lowercase_def rev_map)
qed

section \<open>Splitting\<close>

lemma starts_with_iff: "starts_with s p \<longleftrightarrow> prefix p s"
  by (induction s p rule: starts_with.induct) auto

lemma starts_with_split: "starts_with s p \<longleftrightarrow> (\<exists>r. s = p @ r)"
  by (simp add: starts_with_iff prefix_def)

lemma contains_iff: "contains s n \<longleftrightarrow> sublist n s"
proof (induction s n rule: contains.induct)
  case (2 c s n)
  then show ?case by (simp only: contains.simps starts_with_iff sublist_Cons_right)
qed simp

lemma split_on_not_Nil [simp]: "split_on d s \<noteq> []"
  by (induction s) (auto split: list.splits)

lemma split_on_no_sep: "d \<notin> set s \<Longrightarrow> split_on d s = [s]"
  by (induction s) auto

lemma split_on_append: "split_on d (a @ d # b) = split_on d a @ split_on d b"
proof (induction a)
  case (Cons c a)
  then show ?case by (cases "split_on d a") auto
qed simp

lemma split_on_parts: "w \<in> set (split_on d s) \<Longrightarrow> d \<notin> set w"
proof (induction s arbitrary: w)
  case (Cons c s)
  obtain v vs where "split_on d s = v # vs" by (cases "split_on d s") auto
  with Cons show ?case by (auto split: if_splits)
qed simp

lemma split_on_join:
  assumes "ns \<noteq> []" and "\<forall>n \<in> set ns. d \<notin> set n"
  shows "split_on d (join [d] ns) = ns"
  using assms
proof (induction "[d]" ns rule: join.induct)
  case (3 w v ws)
  then show ?case by (simp add: split_on_append split_on_no_sep)
qed (simp_all add: split_on_no_sep)

section \<open>Lines\<close>

text \<open>
  \<open>str::lines\<close> cuts at newlines and drops one carriage return before each; a newline at
  the end opens no further line.
\<close>

definition strip_cr :: "rstr \<Rightarrow> rstr" where
  "strip_cr l = (if l \<noteq> [] \<and> last l = CHR 0x0D then butlast l else l)"

definition str_lines :: "rstr \<Rightarrow> rstr list" where
  "str_lines s =
     (let pieces = split_on (CHR 0x0A) s
      in map strip_cr (butlast pieces) @ (if last pieces = [] then [] else [last pieces]))"

definition unlines :: "rstr list \<Rightarrow> rstr" where
  "unlines ls = concat (map (\<lambda>l. l @ [CHR 0x0A]) ls)"

definition plain_line :: "rstr \<Rightarrow> bool" where
  "plain_line l = (CHR 0x0A \<notin> set l \<and> (l = [] \<or> last l \<noteq> CHR 0x0D))"

lemma unlines_simps [simp]: "unlines [] = []" "unlines (l # ls) = l @ CHR 0x0A # unlines ls"
  by (simp_all add: unlines_def)

lemma split_on_unlines:
  "\<forall>l \<in> set ls. CHR 0x0A \<notin> set l \<Longrightarrow> split_on (CHR 0x0A) (unlines ls) = ls @ [[]]"
  by (induction ls) (simp_all add: split_on_append split_on_no_sep)

lemma str_lines_unlines: "list_all plain_line ls \<Longrightarrow> str_lines (unlines ls) = ls"
  by (auto simp: str_lines_def split_on_unlines list_all_iff plain_line_def strip_cr_def butlast_append
      intro!: map_idI)

lemma join_unlines: "ls \<noteq> [] \<Longrightarrow> join [CHR 0x0A] ls @ [CHR 0x0A] = unlines ls"
  by (induction "[CHR 0x0A]" ls rule: join.induct) simp_all

lemma join_blank_end: "join [CHR 0x0A] (ls @ [[]]) = unlines ls"
  by (induction ls rule: induct_list012) simp_all

text \<open>\<open>str::chars\<close>: a character is a byte and the continuation bytes after it.\<close>

function utf8_chars :: "rstr \<Rightarrow> rstr list" where
  "utf8_chars [] = []"
| "utf8_chars (c # s) =
     (c # takeWhile is_continuation s) # utf8_chars (dropWhile is_continuation s)"
  by pat_completeness auto
termination
  by (relation "measure length") (auto simp: length_dropWhile_le less_Suc_eq_le)

section \<open>JSON values and numbers\<close>

text \<open>\<open>serde_json::Value\<close>; a number is kept as its text.\<close>

datatype json =
  JNull | JBool bool | JNumber rstr | JString rstr | JArray "json list"
| JObject "(rstr \<times> json) list"

text \<open>An unsigned number as \<open>format!\<close> prints it.\<close>

fun decimal :: "nat \<Rightarrow> rstr" where
  "decimal n =
     (if n < 10 then [char_of (48 + n)] else decimal (n div 10) @ [char_of (48 + n mod 10)])"

declare decimal.simps [simp del]

lemma decimal_length: "n < 10 ^ Suc k \<Longrightarrow> length (decimal n) \<le> Suc k"
proof (induction k arbitrary: n)
  case 0
  then show ?case by (simp add: decimal.simps)
next
  case (Suc k)
  have "n div 10 < 10 ^ Suc k" using Suc.prems by (simp add: less_mult_imp_div_less mult.commute)
  then have "length (decimal (n div 10)) \<le> Suc k" by (rule Suc.IH)
  then show ?case by (subst decimal.simps) simp
qed

fun digits_value :: "nat \<Rightarrow> rstr \<Rightarrow> nat" where
  "digits_value n [] = n"
| "digits_value n (c # cs) = digits_value (10 * n + (byte c - 48)) cs"

text \<open>\<open>str::parse::<usize>\<close>: digits after an optional plus sign, below \<open>2 ^ 64\<close>.\<close>

definition parse_usize :: "rstr \<Rightarrow> nat option" where
  "parse_usize s =
     (let d = (case s of c # cs \<Rightarrow> if c = CHR ''+'' then cs else s | [] \<Rightarrow> s)
      in if d \<noteq> [] \<and> list_all is_ascii_digit d \<and> digits_value 0 d < 2 ^ 64
         then Some (digits_value 0 d) else None)"

lemma digit_byte [simp]: "n < 10 \<Longrightarrow> byte (char_of (48 + n :: nat)) = 48 + n"
  by (simp add: byte_def)

lemma decimal_not_Nil [simp]: "decimal n \<noteq> []"
  by (subst decimal.simps) simp

lemma decimal_digits [simp]: "list_all is_ascii_digit (decimal n)"
proof (induction n rule: decimal.induct)
  case (1 n)
  have digit: "m < 10 \<Longrightarrow> is_ascii_digit (char_of (48 + m :: nat))" for m
    by (simp add: is_ascii_digit_def)
  show ?case using 1 by (subst decimal.simps) (simp add: digit)
qed

lemma digits_value_append: "digits_value n (a @ b) = digits_value (digits_value n a) b"
  by (induction a arbitrary: n) auto

lemma digits_value_decimal [simp]: "digits_value 0 (decimal n) = n"
proof (induction n rule: decimal.induct)
  case (1 n)
  then show ?case by (subst decimal.simps) (simp add: digits_value_append)
qed

lemma parse_usize_decimal: "n < 2 ^ 64 \<Longrightarrow> parse_usize (decimal n) = Some n"
proof -
  have "hd (decimal n) \<noteq> CHR ''+''"
    using decimal_digits [of n] by (cases "decimal n") (auto simp: is_ascii_digit_def byte_def)
  moreover obtain c cs where "decimal n = c # cs" by (cases "decimal n") auto
  moreover have "list_all is_ascii_digit (decimal n)" "digits_value 0 (decimal n) = n" by simp_all
  ultimately show "n < 2 ^ 64 \<Longrightarrow> ?thesis" by (simp add: parse_usize_def)
qed

section \<open>Contracts shared by components\<close>

text \<open>
  A machine: operations that may be refused, and an invariant every accepted operation
  keeps. A refused operation leaves the state as it was, so a run of any operations keeps
  the invariant.
\<close>

fun run_ops :: "('op \<Rightarrow> 's \<Rightarrow> 's option) \<Rightarrow> 'op list \<Rightarrow> 's \<Rightarrow> 's" where
  "run_ops step [] s = s"
| "run_ops step (op # ops) s =
     run_ops step ops (case step op s of None \<Rightarrow> s | Some s' \<Rightarrow> s')"

lemma run_ops_append: "run_ops step (as @ bs) s = run_ops step bs (run_ops step as s)"
  by (induction as arbitrary: s) auto

locale machine =
  fixes step :: "'op \<Rightarrow> 's \<Rightarrow> 's option" and inv :: "'s \<Rightarrow> bool"
  assumes step_inv: "inv s \<Longrightarrow> step op s = Some s' \<Longrightarrow> inv s'"
begin

lemma run_inv: "inv s \<Longrightarrow> inv (run_ops step ops s)"
  by (induction ops arbitrary: s) (auto split: option.split intro: step_inv)

end

text \<open>
  A machine with a measure no accepted operation lowers: counters, queues of released
  text, sets of seen ids.
\<close>

locale monotone_machine = machine step inv
  for step :: "'op \<Rightarrow> 's \<Rightarrow> 's option" and inv :: "'s \<Rightarrow> bool" +
  fixes above :: "'s \<Rightarrow> 's \<Rightarrow> bool"
  assumes above_refl: "above s s"
    and above_trans: "above s t \<Longrightarrow> above t u \<Longrightarrow> above s u"
    and step_above: "inv s \<Longrightarrow> step op s = Some s' \<Longrightarrow> above s s'"
begin

lemma run_above: "inv s \<Longrightarrow> above s (run_ops step ops s)"
proof (induction ops arbitrary: s)
  case (Cons op ops)
  show ?case
  proof (cases "step op s")
    case None
    then show ?thesis using Cons by simp
  next
    case (Some s')
    then have "above s' (run_ops step ops s')" using Cons step_inv by blast
    then show ?thesis using Some Cons.prems step_above above_trans by fastforce
  qed
qed (simp add: above_refl)

end

text \<open>A vocabulary: every value has a word, and the parser reads the word back.\<close>

locale vocabulary =
  fixes word_of :: "'a \<Rightarrow> rstr" and parse :: "rstr \<Rightarrow> 'a option"
  assumes parse_word [simp]: "parse (word_of x) = Some x"
begin

lemma word_inj: "word_of x = word_of y \<Longrightarrow> x = y"
  by (metis option.inject parse_word)

lemma words_distinct: "distinct xs \<Longrightarrow> distinct (map word_of xs)"
  by (simp add: distinct_map inj_on_def word_inj)

end

end
