(* ===== verification/Risk_Tokenize.thy ===== *)
theory Risk_Tokenize
  imports Prelude
begin

text \<open>
  The shell tokenizer of \<open>crates/kcode-command-risk/src/tokenize.rs\<close>: heredoc bodies
  are removed (\<open>without_heredoc_bodies\<close>), the rest is cut into tokens
  (\<open>tokenize\<close>), and the tokens are grouped into command segments
  (\<open>split_segments\<close>). The source's character loops are recursions on the unread
  suffix; the local variables of \<open>tokenize\<close> are the record \<open>lexer\<close>.
\<close>

section \<open>Tokens\<close>

record token =
  tok_text :: rstr
  receives_pipe :: bool
  is_truncating_redirect_target :: bool
  is_operator :: bool

abbreviation SQUOTE :: char where "SQUOTE \<equiv> CHR 0x27"
abbreviation DQUOTE :: char where "DQUOTE \<equiv> CHR 0x22"
abbreviation BACKSLASH :: char where "BACKSLASH \<equiv> CHR 0x5C"
abbreviation BACKTICK :: char where "BACKTICK \<equiv> CHR 0x60"
abbreviation NL :: char where "NL \<equiv> CHR 0x0A"
abbreviation CR :: char where "CR \<equiv> CHR 0x0D"
abbreviation TAB :: char where "TAB \<equiv> CHR 0x09"

definition token_word :: "rstr \<Rightarrow> token" where
  "token_word t = \<lparr>tok_text = t, receives_pipe = False,
     is_truncating_redirect_target = False, is_operator = False\<rparr>"

definition basename :: "token \<Rightarrow> rstr" where
  "basename t = last_segment (CHR ''/'') (tok_text t)"

definition is_flag :: "token \<Rightarrow> bool" where
  "is_flag t = (starts_with (tok_text t) ''-'' \<and> 1 < length (tok_text t))"

definition is_recursive_flag :: "token \<Rightarrow> bool" where
  "is_recursive_flag t =
     (if \<not> is_flag t then False
      else if starts_with (tok_text t) ''--'' then tok_text t = ''--recursive''
      else CHR ''r'' \<in> set (tok_text t) \<or> CHR ''R'' \<in> set (tok_text t))"

section \<open>Heredoc bodies\<close>

text \<open>
  \<open>byte as char\<close> reads a byte as a Latin-1 character; pushing it onto a \<open>String\<close>
  stores its UTF-8 encoding, two bytes from 128 on.
\<close>

definition push_byte_as_char :: "char \<Rightarrow> rstr" where
  "push_byte_as_char b =
     (if byte b < 128 then [b]
      else [char_of (192 + byte b div 64), char_of (128 + byte b mod 64)])"

text \<open>
  One iteration of the inner loop, which reads the delimiter word: the new
  \<open>delimiter_quote\<close>, what is pushed onto \<open>delimiter\<close> and the unread rest;
  \<^const>\<open>None\<close> is the \<open>break\<close>.
\<close>

definition heredoc_word_step ::
  "char option \<Rightarrow> char \<Rightarrow> rstr \<Rightarrow> (char option \<times> rstr \<times> rstr) option" where
  "heredoc_word_step q b r =
     (case q of
        Some e \<Rightarrow>
          if b = e then Some (None, [], r)
          else if b = BACKSLASH \<and> e = DQUOTE \<and> r \<noteq> []
          then Some (q, push_byte_as_char (hd r), tl r)
          else Some (q, push_byte_as_char b, r)
      | None \<Rightarrow>
          if b = SQUOTE \<or> b = DQUOTE then Some (Some b, [], r)
          else if b = BACKSLASH \<and> r \<noteq> [] then Some (None, push_byte_as_char (hd r), tl r)
          else if is_ascii_ws b \<or> b = CHR '';'' \<or> b = CHR ''&'' \<or> b = CHR ''|'' then None
          else Some (None, push_byte_as_char b, r))"

lemma heredoc_word_step_length:
  "heredoc_word_step q b r = Some (q', d, r') \<Longrightarrow> length r' \<le> length r"
  by (auto simp: heredoc_word_step_def split: option.splits if_splits)

text \<open>The delimiter word, unquoted, and the unread rest.\<close>

function heredoc_word :: "char option \<Rightarrow> rstr \<Rightarrow> rstr \<times> rstr" where
  "heredoc_word q [] = ([], [])"
| "heredoc_word q (b # r) =
     (case heredoc_word_step q b r of
        None \<Rightarrow> ([], b # r)
      | Some (q', d, r') \<Rightarrow> (d @ fst (heredoc_word q' r'), snd (heredoc_word q' r')))"
  by pat_completeness auto
termination
  by (relation "measure (\<lambda>(q, s). length s)") (auto dest!: heredoc_word_step_length)

lemma heredoc_word_rest_length: "length (snd (heredoc_word q s)) \<le> length s"
proof (induction q s rule: heredoc_word.induct)
  case (2 q b r)
  show ?case
  proof (cases "heredoc_word_step q b r")
    case (Some x)
    obtain q' d r' where x: "x = (q', d, r')" by (cases x)
    have "length (snd (heredoc_word q' r')) \<le> length r'"
      using "2.IH" [OF Some] x by simp
    then show ?thesis
      using heredoc_word_step_length [of q b r q' d r'] Some x by simp
  qed simp
qed simp

text \<open>
  One iteration of the outer loop of \<open>heredoc_delimiters\<close> on at least two unread bytes
  \<open>b # c # r\<close>: the new \<open>quote\<close>, what is pushed onto \<open>found\<close> and the unread rest.
\<close>

definition heredoc_declaration :: "rstr \<Rightarrow> (rstr \<times> bool) list \<times> rstr" where
  "heredoc_declaration r =
     (if starts_with r ''<'' then ([], tl r)
      else
        (let strip_tabs = starts_with r ''-'';
             r1 = (if strip_tabs then tl r else r);
             (delimiter, rest) = heredoc_word None (dropWhile is_ascii_ws r1)
         in (if delimiter \<noteq> [] then [(delimiter, strip_tabs)] else [], rest)))"

definition heredoc_step ::
  "char option \<Rightarrow> char \<Rightarrow> char \<Rightarrow> rstr \<Rightarrow> char option \<times> (rstr \<times> bool) list \<times> rstr" where
  "heredoc_step q b c r =
     (case q of
        Some e \<Rightarrow>
          if b = BACKSLASH \<and> e = DQUOTE then (q, [], r)
          else if b = e then (None, [], c # r)
          else (q, [], c # r)
      | None \<Rightarrow>
          if b = SQUOTE \<or> b = DQUOTE then (Some b, [], c # r)
          else if b = BACKSLASH then (None, [], r)
          else if b \<noteq> CHR ''<'' \<or> c \<noteq> CHR ''<'' then (None, [], c # r)
          else (None, heredoc_declaration r))"

lemma heredoc_declaration_length: "length (snd (heredoc_declaration r)) \<le> length r"
proof -
  have *: "length (snd (heredoc_word None (dropWhile is_ascii_ws s))) \<le> length s" for s
    using heredoc_word_rest_length [of None "dropWhile is_ascii_ws s"]
      length_dropWhile_le [of is_ascii_ws s] by linarith
  show ?thesis
    using * [of r] * [of "tl r"]
    by (auto simp: heredoc_declaration_def Let_def case_prod_beta)
qed

lemma heredoc_step_length:
  "heredoc_step q b c r = (q', f, r') \<Longrightarrow> length r' \<le> Suc (length r)"
  using heredoc_declaration_length [of r]
  by (auto simp: heredoc_step_def prod_eq_iff split: option.splits if_splits)

function heredoc_scan :: "char option \<Rightarrow> rstr \<Rightarrow> (rstr \<times> bool) list" where
  "heredoc_scan q [] = []"
| "heredoc_scan q [b] = []"
| "heredoc_scan q (b # c # r) =
     (case heredoc_step q b c r of (q', found, rest) \<Rightarrow> found @ heredoc_scan q' rest)"
  by pat_completeness auto
termination
  by (relation "measure (\<lambda>(q, s). length s)")
     (auto dest!: sym [THEN heredoc_step_length] heredoc_step_length)

definition heredoc_delimiters :: "rstr \<Rightarrow> (rstr \<times> bool) list" where
  "heredoc_delimiters line = heredoc_scan None line"

text \<open>Skip one body: the terminator line becomes a newline, the rest is unread.\<close>

definition heredoc_candidate :: "bool \<Rightarrow> rstr \<Rightarrow> rstr" where
  "heredoc_candidate strip_tabs l =
     (let candidate = trim_end_chars {CR, NL} l
      in if strip_tabs then trim_start_chars {TAB} candidate else candidate)"

fun skip_body :: "rstr \<times> bool \<Rightarrow> rstr list \<Rightarrow> rstr \<times> rstr list" where
  "skip_body d [] = ([], [])"
| "skip_body d (l # ls) =
     (if heredoc_candidate (snd d) l = fst d then ([NL], ls) else skip_body d ls)"

fun skip_bodies :: "(rstr \<times> bool) list \<Rightarrow> rstr list \<Rightarrow> rstr \<times> rstr list" where
  "skip_bodies [] ls = ([], ls)"
| "skip_bodies (d # ds) ls =
     (let (o1, r1) = skip_body d ls; (o2, r2) = skip_bodies ds r1 in (o1 @ o2, r2))"

lemma skip_body_length: "length (snd (skip_body d ls)) \<le> length ls"
  by (induction ls) auto

lemma skip_bodies_length: "length (snd (skip_bodies ds ls)) \<le> length ls"
proof (induction ds arbitrary: ls)
  case (Cons d ds)
  show ?case
    using Cons.IH [of "snd (skip_body d ls)"] skip_body_length [of d ls]
    by (simp add: Let_def case_prod_beta)
qed simp

function heredoc_lines :: "rstr list \<Rightarrow> rstr" where
  "heredoc_lines [] = []"
| "heredoc_lines (l # ls) =
     (case skip_bodies (heredoc_delimiters (trim_end_chars {NL} l)) ls of
        (out, rest) \<Rightarrow> l @ out @ heredoc_lines rest)"
  by pat_completeness auto
termination
  by (relation "measure length")
     (auto simp: prod_eq_iff less_Suc_eq_le intro: skip_bodies_length)

definition without_heredoc_bodies :: "rstr \<Rightarrow> rstr" where
  "without_heredoc_bodies command = heredoc_lines (split_inclusive NL command)"

section \<open>The tokenizer\<close>

record lexer =
  current :: rstr
  has_content :: bool
  pending_redirect :: bool
  tokens :: "token list"

definition lexer_init :: lexer where
  "lexer_init = \<lparr>current = [], has_content = False, pending_redirect = False, tokens = []\<rparr>"

text \<open>The macro \<open>flush!\<close>.\<close>

definition flush :: "lexer \<Rightarrow> lexer" where
  "flush st =
     (if has_content st then
        st\<lparr>current := [], has_content := False, pending_redirect := False,
           tokens := tokens st @
             [(token_word (current st))\<lparr>is_truncating_redirect_target := pending_redirect st\<rparr>]\<rparr>
      else st)"

definition push_text :: "rstr \<Rightarrow> lexer \<Rightarrow> lexer" where
  "push_text t st = st\<lparr>current := current st @ t, has_content := True\<rparr>"

definition push_operator :: "rstr \<Rightarrow> lexer \<Rightarrow> lexer" where
  "push_operator t st = st\<lparr>tokens := tokens st @ [(token_word t)\<lparr>is_operator := True\<rparr>]\<rparr>"

text \<open>The inner loops of the quote cases: the quoted text and the unread rest.\<close>

fun single_quoted :: "rstr \<Rightarrow> rstr \<times> rstr" where
  "single_quoted [] = ([], [])"
| "single_quoted (q # cs) =
     (if q = SQUOTE then ([], cs) else (let (t, r) = single_quoted cs in (q # t, r)))"

fun double_quoted :: "rstr \<Rightarrow> rstr \<times> rstr" where
  "double_quoted [] = ([], [])"
| "double_quoted [q] = (if q = DQUOTE then ([], []) else ([q], []))"
| "double_quoted (q # n # cs) =
     (if q = DQUOTE then ([], n # cs)
      else if q = BACKSLASH \<and> (n = DQUOTE \<or> n = BACKSLASH \<or> n = CHR ''$'' \<or> n = BACKTICK)
      then (let (t, r) = double_quoted cs in (n # t, r))
      else (let (t, r) = double_quoted (n # cs) in (q # t, r)))"

lemma single_quoted_length:
  "length (fst (single_quoted s)) + length (snd (single_quoted s)) \<le> length s"
  by (induction s) (simp_all add: Let_def case_prod_beta)

lemma double_quoted_length:
  "length (fst (double_quoted s)) + length (snd (double_quoted s)) \<le> length s"
  by (induction s rule: double_quoted.induct) (auto simp: Let_def case_prod_beta)

text \<open>One iteration of the \<open>while let Some(c) = chars.next()\<close> loop.\<close>

definition lex_step :: "lexer \<Rightarrow> char \<Rightarrow> rstr \<Rightarrow> lexer \<times> rstr" where
  "lex_step st c cs =
     (if c = SQUOTE then
        (let (t, rest) = single_quoted cs in (push_text t st, rest))
      else if c = DQUOTE then
        (let (t, rest) = double_quoted cs in (push_text t st, rest))
      else if c = BACKSLASH then
        (case cs of [] \<Rightarrow> (st, []) | n # rest \<Rightarrow> (push_text [n] st, rest))
      else if c = CHR '' '' \<or> c = TAB then (flush st, cs)
      else if c = NL \<or> c = CHR '';'' then (push_operator [c] (flush st), cs)
      else if c = CHR ''&'' \<or> c = CHR ''|'' then
        (if starts_with cs [c]
         then (push_operator [c, c] (flush st), tl cs)
         else (push_operator [c] (flush st), cs))
      else if c = CHR ''('' \<or> c = CHR '')'' then (push_operator [c] (flush st), cs)
      else if c = CHR ''>'' then
        (if starts_with cs ''>'' then (flush st, tl cs)
         else ((flush st)\<lparr>pending_redirect := True\<rparr>,
               if starts_with cs ''|'' then tl cs else cs))
      else if c = CHR ''<'' then (flush st, cs)
      else (push_text [c] st, cs))"

lemma lex_step_length: "length (snd (lex_step st c cs)) \<le> length cs"
  using single_quoted_length [of cs] double_quoted_length [of cs]
  by (simp add: lex_step_def Let_def case_prod_beta split: list.split)

function lex_loop :: "lexer \<Rightarrow> rstr \<Rightarrow> lexer" where
  "lex_loop st [] = flush st"
| "lex_loop st (c # cs) = (case lex_step st c cs of (st', rest) \<Rightarrow> lex_loop st' rest)"
  by pat_completeness auto
termination
  by (relation "measure (\<lambda>(st, s). length s)")
     (auto simp: prod_eq_iff less_Suc_eq_le case_prod_beta intro: lex_step_length)

definition tokenize :: "rstr \<Rightarrow> token list" where
  "tokenize command = tokens (lex_loop lexer_init (without_heredoc_bodies command))"

section \<open>Segments\<close>

definition SEGMENT_SEPARATORS :: "rstr list" where
  "SEGMENT_SEPARATORS = [''&&'', ''||'', '';'', ''|'', [NL], ''('', '')'']"

text \<open>The loop of \<open>split_segments\<close>: \<open>cur\<close> and \<open>next_pipe\<close> are its locals.\<close>

fun segment_loop :: "token list \<Rightarrow> bool \<Rightarrow> token list \<Rightarrow> token list list" where
  "segment_loop cur next_pipe [] = (if cur = [] then [] else [cur])"
| "segment_loop cur next_pipe (t # ts) =
     (if is_operator t \<and> tok_text t \<in> set SEGMENT_SEPARATORS
      then (if cur = [] then segment_loop [] (tok_text t = ''|'') ts
            else cur # segment_loop [] (tok_text t = ''|'') ts)
      else segment_loop (cur @ [t\<lparr>receives_pipe := next_pipe\<rparr>]) next_pipe ts)"

definition split_segments :: "rstr \<Rightarrow> token list list" where
  "split_segments command = segment_loop [] False (tokenize command)"

end
