(* ===== verification/Risk_Lexing.thy ===== *)
theory Risk_Lexing
  imports Risk_Tokenize
begin

text \<open>
  What the tokenizer does with a command line, stated on the words a shell user means:
  quoting styles and how they are rendered, the tokens of a rendered line, command
  separators, and the size of what the tokenizer returns.
\<close>

section \<open>Lines without heredocs\<close>

lemma heredoc_word_step_chars:
  assumes "heredoc_word_step q b r = Some (q', d, r')"
  shows "set r' \<subseteq> set r"
  using assms
  by (auto simp: heredoc_word_step_def split: option.splits if_splits dest: list.set_sel(2))

lemma heredoc_scan_none: "CHR ''<'' \<notin> set s \<Longrightarrow> heredoc_scan q s = []"
proof (induction q s rule: heredoc_scan.induct)
  case (3 q b c r)
  obtain q' f rest where step: "heredoc_step q b c r = (q', f, rest)"
    by (cases "heredoc_step q b c r")
  have "f = [] \<and> (rest = c # r \<or> rest = r)"
    using step "3.prems" by (auto simp: heredoc_step_def split: option.splits if_splits)
  with 3 step show ?case by auto
qed auto

lemma split_inclusive_concat: "concat (split_inclusive d s) = s"
  by (induction d s rule: split_inclusive.induct) (auto split: list.splits)

lemma split_inclusive_set: "w \<in> set (split_inclusive d s) \<Longrightarrow> set w \<subseteq> set s"
  using split_inclusive_concat [of d s] by (metis UN_upper set_concat)

lemma trim_end_chars_set: "set (trim_end_chars A s) \<subseteq> set s"
  by (auto simp: trim_end_chars_def dest: set_dropWhileD)

lemma heredoc_lines_none:
  "\<forall>l \<in> set ls. CHR ''<'' \<notin> set l \<Longrightarrow> heredoc_lines ls = concat ls"
proof (induction ls)
  case (Cons l ls)
  have "CHR ''<'' \<notin> set (trim_end_chars {NL} l)"
    using Cons.prems trim_end_chars_set [of "{NL}" l] by auto
  with Cons show ?case by (simp add: heredoc_delimiters_def heredoc_scan_none)
qed simp

lemma no_heredoc:
  assumes "CHR ''<'' \<notin> set s"
  shows "without_heredoc_bodies s = s"
proof -
  have "\<forall>l \<in> set (split_inclusive NL s). CHR ''<'' \<notin> set l"
    using split_inclusive_set [of _ NL s] assms by blast
  then show ?thesis
    by (simp add: without_heredoc_bodies_def heredoc_lines_none split_inclusive_concat)
qed

section \<open>Quoted words\<close>

text \<open>
  A word is written as a sequence of fragments, each bare, in single quotes, in double
  quotes (with the four escapes) or with every character escaped by a backslash.
\<close>

datatype quoting = Bare | Single | Double | Escaped

type_synonym quoted_word = "(quoting \<times> rstr) list"

definition special_chars :: "char set" where
  "special_chars =
     {SQUOTE, DQUOTE, BACKSLASH, CHR '' '', TAB, NL, CHR '';'', CHR ''&'', CHR ''|'', CHR ''('',
      CHR '')'', CHR ''>'', CHR ''<''}"

definition double_escape :: "char \<Rightarrow> rstr" where
  "double_escape c =
     (if c = DQUOTE \<or> c = BACKSLASH \<or> c = CHR ''$'' \<or> c = BACKTICK then [BACKSLASH, c] else [c])"

fun render_fragment :: "quoting \<times> rstr \<Rightarrow> rstr" where
  "render_fragment (Bare, w) = w"
| "render_fragment (Single, w) = [SQUOTE] @ w @ [SQUOTE]"
| "render_fragment (Double, w) = [DQUOTE] @ concat (map double_escape w) @ [DQUOTE]"
| "render_fragment (Escaped, w) = concat (map (\<lambda>c. [BACKSLASH, c]) w)"

fun fragment_ok :: "quoting \<times> rstr \<Rightarrow> bool" where
  "fragment_ok (Bare, w) = (w \<noteq> [] \<and> set w \<inter> special_chars = {})"
| "fragment_ok (Single, w) = (SQUOTE \<notin> set w)"
| "fragment_ok (Double, w) = True"
| "fragment_ok (Escaped, w) = (w \<noteq> [])"

definition word_ok :: "quoted_word \<Rightarrow> bool" where
  "word_ok w = (w \<noteq> [] \<and> list_all fragment_ok w \<and> CHR ''<'' \<notin> set (concat (map snd w)))"

definition word_text :: "quoted_word \<Rightarrow> rstr" where
  "word_text w = concat (map snd w)"

definition render_word :: "quoted_word \<Rightarrow> rstr" where
  "render_word w = concat (map render_fragment w)"

definition shell_line :: "quoted_word list \<Rightarrow> rstr" where
  "shell_line ws = join '' '' (map render_word ws)"

section \<open>Lexing a fragment, a word, a line\<close>

declare lex_loop.simps(2) [simp del]

lemma lex_loop_Cons:
  "lex_loop st (c # cs) = lex_loop (fst (lex_step st c cs)) (snd (lex_step st c cs))"
  by (simp add: lex_loop.simps(2) case_prod_beta)

lemma single_quoted_render: "SQUOTE \<notin> set w \<Longrightarrow> single_quoted (w @ SQUOTE # r) = (w, r)"
  by (induction w) auto

lemma double_quoted_plain:
  "q \<noteq> DQUOTE \<Longrightarrow> q \<noteq> BACKSLASH \<Longrightarrow>
     double_quoted (q # s) = (q # fst (double_quoted s), snd (double_quoted s))"
  by (cases s) (auto simp: case_prod_beta)

lemma double_quoted_render:
  "double_quoted (concat (map double_escape w) @ DQUOTE # r) = (w, r)"
proof (induction w)
  case Nil
  then show ?case by (cases r) auto
next
  case (Cons c w)
  then show ?case
    by (cases "c = DQUOTE \<or> c = BACKSLASH \<or> c = CHR ''$'' \<or> c = BACKTICK")
       (auto simp: double_escape_def double_quoted_plain)
qed

lemma push_text_push_text [simp]: "push_text b (push_text a st) = push_text (a @ b) st"
  by (simp add: push_text_def)

lemma lex_ordinary:
  "c \<notin> special_chars \<Longrightarrow> lex_loop st (c # cs) = lex_loop (push_text [c] st) cs"
  by (simp add: special_chars_def lex_step_def lex_loop_Cons)

lemma lex_escaped: "lex_loop st (BACKSLASH # c # cs) = lex_loop (push_text [c] st) cs"
  by (simp add: lex_step_def lex_loop_Cons)

lemma lex_bare:
  "set w \<inter> special_chars = {} \<Longrightarrow> w \<noteq> [] \<Longrightarrow> lex_loop st (w @ r) = lex_loop (push_text w st) r"
proof (induction w arbitrary: st)
  case (Cons c w)
  then show ?case by (cases "w = []") (auto simp: lex_ordinary)
qed simp

lemma lex_escapes:
  "w \<noteq> [] \<Longrightarrow> lex_loop st (concat (map (\<lambda>c. [BACKSLASH, c]) w) @ r) = lex_loop (push_text w st) r"
proof (induction w arbitrary: st)
  case (Cons c w)
  then show ?case by (cases "w = []") (auto simp: lex_escaped)
qed simp

lemma lex_fragment:
  "fragment_ok f \<Longrightarrow> lex_loop st (render_fragment f @ r) = lex_loop (push_text (snd f) st) r"
  by (cases f rule: render_fragment.cases)
     (simp_all add: lex_bare lex_escapes lex_loop_Cons lex_step_def
        single_quoted_render double_quoted_render)

lemma lex_word:
  assumes "w \<noteq> []" and "list_all fragment_ok w"
  shows "lex_loop st (render_word w @ r) = lex_loop (push_text (word_text w) st) r"
  using assms
proof (induction w arbitrary: st)
  case (Cons f w)
  then show ?case
    by (cases "w = []") (auto simp: render_word_def word_text_def lex_fragment)
qed simp

lemma flush_push_text:
  "flush (push_text t st) =
     st\<lparr>current := [], has_content := False, pending_redirect := False,
        tokens := tokens st @ [(token_word (current st @ t))\<lparr>is_truncating_redirect_target := pending_redirect st\<rparr>]\<rparr>"
  by (simp add: flush_def push_text_def)

definition between :: "token list \<Rightarrow> lexer" where
  "between ts = \<lparr>current = [], has_content = False, pending_redirect = False, tokens = ts\<rparr>"

lemma flush_between [simp]: "flush (between ts) = between ts"
  by (simp add: between_def flush_def)

lemma tokens_between [simp]: "tokens (between ts) = ts"
  by (simp add: between_def)

lemma push_operator_between [simp]:
  "push_operator t (between ts) = between (ts @ [(token_word t)\<lparr>is_operator := True\<rparr>])"
  by (simp add: between_def push_operator_def)

lemma flush_word [simp]: "flush (push_text t (between ts)) = between (ts @ [token_word t])"
  by (simp add: flush_push_text between_def token_word_def)

lemma lex_space: "lex_loop st (CHR '' '' # r) = lex_loop (flush st) r"
  by (simp add: lex_step_def lex_loop_Cons)

text \<open>After a line of words the lexer holds the last word; what follows decides when it is flushed.\<close>

lemma lex_words:
  assumes "\<forall>w \<in> set (ws @ [w]). word_ok w"
  shows "lex_loop (between ts) (shell_line (ws @ [w]) @ r) =
           lex_loop (push_text (word_text w) (between (ts @ map (token_word \<circ> word_text) ws))) r"
  using assms
proof (induction ws arbitrary: ts)
  case Nil
  then show ?case by (simp add: shell_line_def word_ok_def lex_word)
next
  case (Cons v ws)
  have line: "shell_line (v # ws @ [w]) = render_word v @ CHR '' '' # shell_line (ws @ [w])"
    by (cases ws) (simp_all add: shell_line_def)
  show ?case
    using Cons by (simp add: line lex_word word_ok_def lex_space)
qed

lemma special_in_render:
  "x \<in> set (render_fragment f) \<Longrightarrow> x \<in> set (snd f) \<union> {SQUOTE, DQUOTE, BACKSLASH}"
  by (cases f rule: render_fragment.cases) (auto simp: double_escape_def split: if_splits)

lemma render_word_no_heredoc: "word_ok w \<Longrightarrow> CHR ''<'' \<notin> set (render_word w)"
  by (force simp: word_ok_def render_word_def dest: special_in_render)

lemma join_set: "set (join sep ws) \<subseteq> set sep \<union> \<Union> (set (map set ws))"
  by (induction sep ws rule: join.induct) auto

lemma shell_line_no_heredoc: "\<forall>w \<in> set ws. word_ok w \<Longrightarrow> CHR ''<'' \<notin> set (shell_line ws)"
  using join_set [of "'' ''" "map render_word ws"] render_word_no_heredoc
  by (auto simp: shell_line_def)

lemma lexer_init_between: "lexer_init = between []"
  by (simp add: lexer_init_def between_def)

lemma tokenize_words:
  assumes "\<forall>w \<in> set ws. word_ok w"
  shows "tokenize (shell_line ws) = map (token_word \<circ> word_text) ws"
proof (cases ws rule: rev_cases)
  case Nil
  then show ?thesis
    by (simp add: tokenize_def shell_line_def lexer_init_between no_heredoc)
next
  case (snoc us u)
  then show ?thesis
    using assms lex_words [of us u "[]" "[]"]
    by (simp add: tokenize_def no_heredoc shell_line_no_heredoc lexer_init_between)
qed

section \<open>Segments of a line and of a chain\<close>

lemma token_word_fields [simp]:
  "tok_text (token_word t) = t" "receives_pipe (token_word t) = False"
  "is_truncating_redirect_target (token_word t) = False" "is_operator (token_word t) = False"
  "(token_word t)\<lparr>receives_pipe := False\<rparr> = token_word t"
  by (simp_all add: token_word_def)

lemma token_word_inject [simp]: "token_word a = token_word b \<longleftrightarrow> a = b"
  by (simp add: token_word_def)

lemma segment_words:
  "segment_loop cur False (map token_word ts @ us) = segment_loop (cur @ map token_word ts) False us"
  by (induction ts arbitrary: cur) auto

lemma segments_words:
  assumes "\<forall>w \<in> set ws. word_ok w" and "ws \<noteq> []"
  shows "split_segments (shell_line ws) = [map (token_word \<circ> word_text) ws]"
  using segment_words [of "[]" "map word_text ws" "[]"] assms
  by (simp add: split_segments_def tokenize_words)

text \<open>The separators after which the next command runs whatever the first one did to its input.\<close>

definition sequencers :: "rstr list" where
  "sequencers = ['';'', [NL], '' && '', '' || '', '' ; '']"

lemma lex_sequencer:
  assumes "sep \<in> set sequencers"
  shows "\<exists>op \<in> {'';'', [NL], ''&&'', ''||''}. \<forall>st r.
           lex_loop st (sep @ r) = lex_loop (push_operator op (flush st)) r"
proof -
  have [simp]: "flush (push_operator t (flush st)) = push_operator t (flush st)"
    "flush (flush st) = flush st" for t st
    by (simp_all add: flush_def push_operator_def)
  show ?thesis
    using assms by (auto simp: sequencers_def lex_step_def lex_loop_Cons)
qed

definition grow_tokens :: "token list \<Rightarrow> lexer \<Rightarrow> lexer" where
  "grow_tokens p st = st\<lparr>tokens := p @ tokens st\<rparr>"

lemma lex_step_grow:
  "lex_step (grow_tokens p st) c cs = (grow_tokens p (fst (lex_step st c cs)), snd (lex_step st c cs))"
  by (simp add: lex_step_def grow_tokens_def flush_def push_text_def push_operator_def
      case_prod_beta split: list.splits)

lemma flush_grow: "flush (grow_tokens p st) = grow_tokens p (flush st)"
  by (simp add: grow_tokens_def flush_def)

lemma lex_loop_grow: "lex_loop (grow_tokens p st) s = grow_tokens p (lex_loop st s)"
proof (induction st s rule: lex_loop.induct)
  case (2 st c cs)
  show ?case
    using "2.IH" [of "fst (lex_step st c cs)" "snd (lex_step st c cs)"]
    by (simp add: lex_step_grow lex_loop_Cons)
qed (simp add: flush_grow)

lemma lex_between: "tokens (lex_loop (between ts) s) = ts @ tokens (lex_loop lexer_init s)"
proof -
  have "between ts = grow_tokens ts lexer_init"
    by (simp add: between_def grow_tokens_def lexer_init_def)
  then show ?thesis by (simp add: lex_loop_grow) (simp add: grow_tokens_def)
qed

lemma segments_chain:
  assumes ws: "\<forall>w \<in> set ws. word_ok w" "ws \<noteq> []"
    and sep: "sep \<in> set sequencers" and rest: "CHR ''<'' \<notin> set c"
  shows "split_segments (shell_line ws @ sep @ c) =
           split_segments (shell_line ws) @ split_segments c"
proof -
  obtain op where op: "op \<in> {'';'', [NL], ''&&'', ''||''}"
    "\<And>st r. lex_loop st (sep @ r) = lex_loop (push_operator op (flush st)) r"
    using lex_sequencer [OF sep] by auto
  obtain us u where snoc: "ws = us @ [u]" using ws(2) by (cases ws rule: rev_cases) auto
  have "CHR ''<'' \<notin> set sep" using sep by (auto simp: sequencers_def)
  then have "CHR ''<'' \<notin> set (shell_line ws @ sep @ c)"
    using shell_line_no_heredoc [OF ws(1)] rest by simp
  then have "tokenize (shell_line ws @ sep @ c) =
      tokens (lex_loop (between []) (shell_line ws @ sep @ c))"
    by (simp add: tokenize_def no_heredoc lexer_init_between)
  also have "\<dots> = tokens (lex_loop (between (map (token_word \<circ> word_text) ws
      @ [(token_word op)\<lparr>is_operator := True\<rparr>])) c)"
    using lex_words [of us u "[]" "sep @ c"] ws(1) by (simp add: snoc op(2))
  also have "\<dots> = map (token_word \<circ> word_text) ws
      @ (token_word op)\<lparr>is_operator := True\<rparr> # tokenize c"
    using rest by (simp add: lex_between tokenize_def no_heredoc)
  finally have "tokenize (shell_line ws @ sep @ c) =
      map token_word (map word_text ws) @ (token_word op)\<lparr>is_operator := True\<rparr> # tokenize c"
    by simp
  moreover have "tok_text ((token_word op)\<lparr>is_operator := True\<rparr>) \<in> set SEGMENT_SEPARATORS"
    "tok_text ((token_word op)\<lparr>is_operator := True\<rparr>) \<noteq> ''|''"
    using op(1) by (auto simp: SEGMENT_SEPARATORS_def)
  ultimately show ?thesis
    using segment_words [of "[]" "map word_text ws"] segments_words [OF ws] ws(2)
    by (simp add: split_segments_def)
qed

section \<open>Sizes and characters\<close>

text \<open>The tokenizer never returns more text than it read, nor a character it did not read.\<close>

definition text_size :: "token list \<Rightarrow> nat" where
  "text_size ts = sum_list (map (length \<circ> tok_text) ts)"

definition text_chars :: "token list \<Rightarrow> char set" where
  "text_chars ts = \<Union> (set (map (set \<circ> tok_text) ts))"

lemma text_size_simps [simp]:
  "text_size [] = 0"
  "text_size (t # ts) = length (tok_text t) + text_size ts"
  "text_size (ts @ us) = text_size ts + text_size us"
  by (simp_all add: text_size_def)

lemma text_chars_simps [simp]:
  "text_chars [] = {}"
  "text_chars (t # ts) = set (tok_text t) \<union> text_chars ts"
  "text_chars (ts @ us) = text_chars ts \<union> text_chars us"
  by (simp_all add: text_chars_def)

lemma text_size_member: "t \<in> set ts \<Longrightarrow> length (tok_text t) \<le> text_size ts"
  by (induction ts) auto

lemma text_chars_member: "t \<in> set ts \<Longrightarrow> set (tok_text t) \<subseteq> text_chars ts"
  by (induction ts) auto

lemma text_size_suffix: "text_size (drop n ts) \<le> text_size ts"
  by (metis append_take_drop_id le_add2 text_size_simps(3))

lemma text_size_takeWhile: "text_size (takeWhile P ts) \<le> text_size ts"
  by (metis le_add1 takeWhile_dropWhile_id text_size_simps(3))

lemma text_chars_mono: "set us \<subseteq> set ts \<Longrightarrow> text_chars us \<subseteq> text_chars ts"
  by (auto simp: text_chars_def)

definition lexer_size :: "lexer \<Rightarrow> nat" where
  "lexer_size st = length (current st) + text_size (tokens st)"

definition lexer_chars :: "lexer \<Rightarrow> char set" where
  "lexer_chars st = set (current st) \<union> text_chars (tokens st)"

lemma lexer_size_ops [simp]:
  "lexer_size (flush st) = lexer_size st"
  "lexer_size (push_text t st) = lexer_size st + length t"
  "lexer_size (push_operator t st) = lexer_size st + length t"
  "lexer_size (st\<lparr>pending_redirect := b\<rparr>) = lexer_size st"
  by (auto simp: lexer_size_def flush_def push_text_def push_operator_def)

lemma lexer_chars_ops [simp]:
  "lexer_chars (flush st) = lexer_chars st"
  "lexer_chars (push_text t st) = lexer_chars st \<union> set t"
  "lexer_chars (push_operator t st) = lexer_chars st \<union> set t"
  "lexer_chars (st\<lparr>pending_redirect := b\<rparr>) = lexer_chars st"
  by (auto simp: lexer_chars_def flush_def push_text_def push_operator_def)

lemma single_quoted_set:
  "set (fst (single_quoted s)) \<subseteq> set s" "set (snd (single_quoted s)) \<subseteq> set s"
  by (induction s) (auto simp: case_prod_beta)

lemma double_quoted_set:
  "set (fst (double_quoted s)) \<subseteq> set s" "set (snd (double_quoted s)) \<subseteq> set s"
  by (induction s rule: double_quoted.induct) (auto simp: case_prod_beta)

lemma starts_with_length: "starts_with s p \<Longrightarrow> length p \<le> length s"
  by (induction s p rule: starts_with.induct) auto

lemma lex_step_size:
  "lexer_size (fst (lex_step st c cs)) + length (snd (lex_step st c cs)) \<le> Suc (lexer_size st + length cs)"
  using single_quoted_length [of cs] double_quoted_length [of cs]
    starts_with_length [of cs "[c]"]
  by (auto simp: lex_step_def case_prod_beta split: list.split)

lemma lex_step_set: "set (snd (lex_step st c cs)) \<subseteq> set cs"
  using single_quoted_set [of cs] double_quoted_set [of cs]
  by (auto simp: lex_step_def case_prod_beta dest: list.set_sel(2) split: list.split)

lemma lex_step_chars:
  assumes "lexer_chars st \<subseteq> U" and "c \<in> U" and "set cs \<subseteq> U"
  shows "lexer_chars (fst (lex_step st c cs)) \<subseteq> U"
proof -
  have "set (fst (single_quoted cs)) \<subseteq> U" "set (fst (double_quoted cs)) \<subseteq> U"
    using single_quoted_set(1) [of cs] double_quoted_set(1) [of cs] assms(3) by blast+
  then show ?thesis
    using assms by (cases cs; simp add: lex_step_def case_prod_beta) fast
qed

lemma lex_loop_size: "text_size (tokens (lex_loop st s)) \<le> lexer_size st + length s"
proof (induction st s rule: lex_loop.induct)
  case (1 st)
  have "text_size (tokens (flush st)) \<le> lexer_size (flush st)"
    by (simp only: lexer_size_def le_add2)
  then show ?case by simp
next
  case (2 st c cs)
  show ?case
    using "2.IH" [of "fst (lex_step st c cs)" "snd (lex_step st c cs)"] lex_step_size [of st c cs]
    by (simp add: lex_loop_Cons)
qed

lemma lex_loop_chars:
  "lexer_chars st \<subseteq> U \<Longrightarrow> set s \<subseteq> U \<Longrightarrow> text_chars (tokens (lex_loop st s)) \<subseteq> U"
proof (induction st s rule: lex_loop.induct)
  case (1 st)
  have "text_chars (tokens (flush st)) \<subseteq> lexer_chars (flush st)"
    by (simp only: lexer_chars_def Un_upper2)
  with 1 show ?case by simp
next
  case (2 st c cs)
  have "set (snd (lex_step st c cs)) \<subseteq> U"
    using lex_step_set [of st c cs] "2.prems" by auto
  then show ?case
    using "2.IH" [of "fst (lex_step st c cs)" "snd (lex_step st c cs)"] "2.prems"
      lex_step_chars [of st U c cs] by (simp add: lex_loop_Cons)
qed

lemma skip_body_size:
  "\<forall>l \<in> set ls. l \<noteq> [] \<Longrightarrow>
     length (fst (skip_body d ls)) + length (concat (snd (skip_body d ls))) \<le> length (concat ls)"
proof (induction ls)
  case (Cons l ls)
  moreover have "1 \<le> length l" using Cons.prems by (cases l) auto
  ultimately show ?case by auto
qed simp

lemma skip_body_set:
  "set (snd (skip_body d ls)) \<subseteq> set ls" "set (fst (skip_body d ls)) \<subseteq> {NL}"
  by (induction ls) auto

lemma skip_bodies_set:
  "set (snd (skip_bodies ds ls)) \<subseteq> set ls \<and> set (fst (skip_bodies ds ls)) \<subseteq> {NL}"
proof (induction ds arbitrary: ls)
  case (Cons d ds)
  show ?case
    using Cons.IH [of "snd (skip_body d ls)"] skip_body_set [of d ls] by (auto simp: case_prod_beta)
qed simp

lemma skip_bodies_size:
  "\<forall>l \<in> set ls. l \<noteq> [] \<Longrightarrow>
     length (fst (skip_bodies ds ls)) + length (concat (snd (skip_bodies ds ls))) \<le> length (concat ls)"
proof (induction ds arbitrary: ls)
  case (Cons d ds)
  have "\<forall>l \<in> set (snd (skip_body d ls)). l \<noteq> []"
    using Cons.prems skip_body_set(1) [of d ls] by auto
  from Cons.IH [OF this] skip_body_size [OF Cons.prems, of d]
  show ?case by (simp add: case_prod_beta)
qed simp

lemma heredoc_lines_size:
  "\<forall>l \<in> set ls. l \<noteq> [] \<Longrightarrow> length (heredoc_lines ls) \<le> length (concat ls)"
proof (induction ls rule: heredoc_lines.induct)
  case (2 l ls)
  let ?s = "skip_bodies (heredoc_delimiters (trim_end_chars {NL} l)) ls"
  have "\<forall>l \<in> set (snd ?s). l \<noteq> []"
    using "2.prems" skip_bodies_set [of "heredoc_delimiters (trim_end_chars {NL} l)" ls] by auto
  then have "length (heredoc_lines (snd ?s)) \<le> length (concat (snd ?s))"
    using "2.IH" [of "fst ?s" "snd ?s"] by simp
  then show ?case
    using skip_bodies_size [of ls "heredoc_delimiters (trim_end_chars {NL} l)"] "2.prems"
    by (simp add: case_prod_beta)
qed simp

lemma heredoc_lines_set: "set (heredoc_lines ls) \<subseteq> set (concat ls) \<union> {NL}"
proof (induction ls rule: heredoc_lines.induct)
  case (2 l ls)
  let ?s = "skip_bodies (heredoc_delimiters (trim_end_chars {NL} l)) ls"
  have "set (heredoc_lines (snd ?s)) \<subseteq> set (concat (snd ?s)) \<union> {NL}"
    using "2.IH" [of "fst ?s" "snd ?s"] by simp
  moreover have "set (concat (snd ?s)) \<subseteq> set (concat ls)" "set (fst ?s) \<subseteq> {NL}"
    using skip_bodies_set [of "heredoc_delimiters (trim_end_chars {NL} l)" ls] by auto
  ultimately show ?case by (simp add: case_prod_beta) blast
qed simp

lemma split_inclusive_nonempty: "\<forall>l \<in> set (split_inclusive d s). l \<noteq> []"
  by (induction d s rule: split_inclusive.induct) (auto split: list.splits)

lemma tokenize_size: "text_size (tokenize s) \<le> length s"
  using lex_loop_size [of lexer_init "without_heredoc_bodies s"]
    heredoc_lines_size [OF split_inclusive_nonempty, of NL s]
  by (simp add: tokenize_def without_heredoc_bodies_def split_inclusive_concat lexer_size_def
      lexer_init_def)

lemma tokenize_chars: "text_chars (tokenize s) \<subseteq> set s \<union> {NL}"
  unfolding tokenize_def
proof (rule lex_loop_chars)
  show "lexer_chars lexer_init \<subseteq> set s \<union> {NL}"
    by (simp add: lexer_chars_def lexer_init_def)
  show "set (without_heredoc_bodies s) \<subseteq> set s \<union> {NL}"
    using heredoc_lines_set [of "split_inclusive NL s"]
    by (simp add: without_heredoc_bodies_def split_inclusive_concat)
qed

lemma segment_loop_size:
  "seg \<in> set (segment_loop cur np ts) \<Longrightarrow> text_size seg \<le> text_size cur + text_size ts"
  by (induction cur np ts rule: segment_loop.induct) (force split: if_splits)+

lemma segment_loop_chars:
  "seg \<in> set (segment_loop cur np ts) \<Longrightarrow> text_chars seg \<subseteq> text_chars cur \<union> text_chars ts"
  by (induction cur np ts rule: segment_loop.induct) (force split: if_splits)+

lemma segment_size: "seg \<in> set (split_segments s) \<Longrightarrow> text_size seg \<le> length s"
  using segment_loop_size [of seg "[]" False "tokenize s"] tokenize_size [of s]
  by (simp add: split_segments_def)

lemma segment_chars: "seg \<in> set (split_segments s) \<Longrightarrow> text_chars seg \<subseteq> set s \<union> {NL}"
  using segment_loop_chars [of seg "[]" False "tokenize s"] tokenize_chars [of s]
  by (auto simp: split_segments_def)

text \<open>Segments are never empty and hold no separator.\<close>

lemma segment_loop_nonempty: "seg \<in> set (segment_loop cur np ts) \<Longrightarrow> seg \<noteq> []"
  by (induction cur np ts rule: segment_loop.induct) (auto split: if_splits)

lemma segment_loop_separator:
  assumes "seg \<in> set (segment_loop cur np ts)" and "t \<in> set seg"
    and "\<forall>t \<in> set cur. \<not> (is_operator t \<and> tok_text t \<in> set SEGMENT_SEPARATORS)"
  shows "\<not> (is_operator t \<and> tok_text t \<in> set SEGMENT_SEPARATORS)"
  using assms
  by (induction cur np ts rule: segment_loop.induct) (fastforce split: if_splits)+

end
