(* ===== verification/Risk_Types.thy ===== *)
theory Risk_Types
  imports Prelude
begin

text \<open>
  The vocabulary of \<open>crates/kcode-command-risk/src/lib.rs\<close>: risk levels with their
  derived order, findings, the assessment of a command and its context. A \<open>PathBuf\<close> is
  its byte string; what the sources read of it is modelled in the theory of paths.
\<close>

datatype risk_level = Safe | Low | Confirm | Catastrophic

text \<open>\<open>derive(PartialOrd, Ord)\<close> orders the variants as they are declared.\<close>

fun level_rank :: "risk_level \<Rightarrow> nat" where
  "level_rank Safe = 0"
| "level_rank Low = 1"
| "level_rank Confirm = 2"
| "level_rank Catastrophic = 3"

lemma level_rank_inj: "level_rank a = level_rank b \<Longrightarrow> a = b"
  by (cases a; cases b) auto

instantiation risk_level :: linorder
begin

definition less_eq_risk_level :: "risk_level \<Rightarrow> risk_level \<Rightarrow> bool" where
  "a \<le> b \<longleftrightarrow> level_rank a \<le> level_rank b"

definition less_risk_level :: "risk_level \<Rightarrow> risk_level \<Rightarrow> bool" where
  "a < b \<longleftrightarrow> level_rank a < level_rank b"

instance
  by standard (auto simp: less_eq_risk_level_def less_risk_level_def level_rank_inj)

end

lemmas risk_level_order = less_eq_risk_level_def less_risk_level_def

lemma Safe_le [simp]: "Safe \<le> l"
  by (simp add: less_eq_risk_level_def)

lemma le_Catastrophic [simp]: "l \<le> Catastrophic"
  by (cases l) (simp_all add: less_eq_risk_level_def)

lemma le_Safe_iff [simp]: "l \<le> Safe \<longleftrightarrow> l = Safe"
  by (cases l) (simp_all add: less_eq_risk_level_def)

lemma Catastrophic_le_iff [simp]: "Catastrophic \<le> l \<longleftrightarrow> l = Catastrophic"
  by (cases l) (simp_all add: less_eq_risk_level_def)

definition runs_immediately :: "risk_level \<Rightarrow> bool" where
  "runs_immediately l = (l = Safe \<or> l = Low)"

definition is_absolute_deny :: "risk_level \<Rightarrow> bool" where
  "is_absolute_deny l = (l = Catastrophic)"

lemma runs_immediately_iff_le: "runs_immediately l \<longleftrightarrow> l \<le> Low"
  by (cases l) (simp_all add: runs_immediately_def less_eq_risk_level_def)

record risk_finding =
  level :: risk_level
  reason :: rstr
  target :: "rstr option"

record risk_assessment =
  overall :: risk_level
  findings :: "risk_finding list"

definition assessment_safe :: risk_assessment where
  "assessment_safe = \<lparr>overall = Safe, findings = []\<rparr>"

text \<open>\<open>iter().map(|f| f.level).max().unwrap_or(Safe)\<close>.\<close>

definition max_level :: "risk_finding list \<Rightarrow> risk_level" where
  "max_level fs = foldr (\<lambda>f l. max (level f) l) fs Safe"

definition from_findings :: "risk_finding list \<Rightarrow> risk_assessment" where
  "from_findings fs = \<lparr>overall = max_level fs, findings = fs\<rparr>"

lemma max_level_simps [simp]:
  "max_level [] = Safe"
  "max_level (f # fs) = max (level f) (max_level fs)"
  by (simp_all add: max_level_def)

lemma max_level_append [simp]: "max_level (fs @ gs) = max (max_level fs) (max_level gs)"
  by (induction fs) (auto simp: max.assoc max_def)

lemma max_level_ge: "f \<in> set fs \<Longrightarrow> level f \<le> max_level fs"
  by (induction fs) (auto simp: le_max_iff_disj)

lemma max_level_le_iff: "max_level fs \<le> l \<longleftrightarrow> (\<forall>f \<in> set fs. level f \<le> l)"
  by (induction fs) auto

lemma max_level_attained: "fs \<noteq> [] \<Longrightarrow> \<exists>f \<in> set fs. level f = max_level fs"
proof (induction fs)
  case (Cons f fs)
  show ?case
  proof (cases "fs = []")
    case True
    then show ?thesis by (simp add: max_def)
  next
    case False
    with Cons.IH show ?thesis by (auto simp: max_def)
  qed
qed simp

lemma max_level_Catastrophic: "max_level fs = Catastrophic \<longleftrightarrow> (\<exists>f \<in> set fs. level f = Catastrophic)"
  by (induction fs) (auto simp: max_def Catastrophic_le_iff)

text \<open>\<open>explanation\<close>: one line per finding.\<close>

definition explanation_line :: "risk_finding \<Rightarrow> rstr" where
  "explanation_line f =
     ''- '' @ reason f
       @ (case target f of None \<Rightarrow> [] | Some t \<Rightarrow> '' (target: '' @ t @ '')'')
       @ [CHR 0x0A]"

definition explanation :: "risk_assessment \<Rightarrow> rstr" where
  "explanation a = concat (map explanation_line (findings a))"

record risk_context =
  working_dir :: "rstr option"
  home_dir :: "rstr option"
  scratch_dir :: "rstr option"

end
