(* ===== verification/Risk_Paths.thy ===== *)
theory Risk_Paths
  imports Risk_Types
begin

text \<open>
  Path classification, \<open>crates/kcode-command-risk/src/paths.rs\<close>, over the part of
  \<open>std::path\<close> it uses (Unix): \<open>components\<close>, \<open>join\<close>, \<open>parent\<close>,
  \<open>file_name\<close>, \<open>starts_with\<close> and equality, which compare components.
\<close>

section \<open>The fragment of \<open>std::path\<close>\<close>

datatype component = RootDir | CurDir | ParentDir | Normal rstr

text \<open>
  \<open>Path::components\<close>: repeated separators and inner \<open>.\<close> disappear; a leading
  \<open>.\<close> of a relative path stays.
\<close>

definition part_component :: "rstr \<Rightarrow> component list" where
  "part_component part =
     (if part = '''' \<or> part = ''.'' then []
      else if part = ''..'' then [ParentDir] else [Normal part])"

definition components :: "rstr \<Rightarrow> component list" where
  "components p =
     (let parts = split_on (CHR ''/'') p
      in (if starts_with p ''/'' then [RootDir]
          else if hd parts = ''.'' then [CurDir] else [])
         @ concat (map part_component parts))"

definition is_absolute :: "rstr \<Rightarrow> bool" where
  "is_absolute p = starts_with p ''/''"

text \<open>\<open>Path::join\<close> (\<open>PathBuf::push\<close> on a copy).\<close>

definition path_join :: "rstr \<Rightarrow> rstr \<Rightarrow> rstr" where
  "path_join base p =
     (if is_absolute p then p
      else if base = [] \<or> last base = CHR ''/'' then base @ p
      else base @ ''/'' @ p)"

definition path_starts_with :: "rstr \<Rightarrow> rstr \<Rightarrow> bool" where
  "path_starts_with p base = prefix (components base) (components p)"

definition path_eq :: "rstr \<Rightarrow> rstr \<Rightarrow> bool" where
  "path_eq p q = (components p = components q)"

fun component_str :: "component \<Rightarrow> rstr" where
  "component_str RootDir = []"
| "component_str CurDir = ''.''"
| "component_str ParentDir = ''..''"
| "component_str (Normal n) = n"

text \<open>A path with given components, \<open>Components::as_path\<close>.\<close>

definition path_of :: "component list \<Rightarrow> rstr" where
  "path_of cs =
     (if cs = [RootDir] then ''/'' else join ''/'' (map component_str cs))"

definition parent :: "rstr \<Rightarrow> rstr option" where
  "parent p =
     (let cs = components p
      in if cs = [] \<or> last cs = RootDir then None else Some (path_of (butlast cs)))"

definition file_name :: "rstr \<Rightarrow> rstr option" where
  "file_name p =
     (let cs = components p
      in if cs = [] then None
         else (case last cs of Normal n \<Rightarrow> Some n | _ \<Rightarrow> None))"

section \<open>Protected paths\<close>

definition PROTECTED_CREDENTIAL_SUBPATHS :: "rstr list" where
  "PROTECTED_CREDENTIAL_SUBPATHS = [''.ssh'', ''.gnupg'', ''.aws'', ''.kube'', ''.docker'']"

definition PROTECTED_HOME_SUBPATHS :: "rstr list" where
  "PROTECTED_HOME_SUBPATHS =
     [''.config'', ''.kcode'', ''.claude'', ''.local'', ''.local/share'', ''Documents'', ''Desktop'']"

definition PROTECTED_SYSTEM_PATHS :: "rstr list" where
  "PROTECTED_SYSTEM_PATHS =
     [''/'', ''/bin'', ''/boot'', ''/dev'', ''/etc'', ''/lib'', ''/lib64'', ''/opt'', ''/proc'',
      ''/root'', ''/sbin'', ''/srv'', ''/sys'', ''/usr'', ''/var'', ''/Applications'', ''/System'',
      ''/Library'', ''/Users'', ''/home'']"

definition SYSTEM_PATHS_PROTECTED_RECURSIVELY :: "rstr list" where
  "SYSTEM_PATHS_PROTECTED_RECURSIVELY =
     [''/bin'', ''/boot'', ''/dev'', ''/etc'', ''/lib'', ''/lib64'', ''/proc'', ''/sbin'', ''/sys'',
      ''/usr'', ''/var/lib'', ''/System'', ''/Library'']"

section \<open>Normalization\<close>

text \<open>
  \<open>normalize\<close>: \<open>out\<close> is built by \<open>pop\<close> and \<open>push\<close> only, so it is
  its root flag and the stack of its names; \<open>pop\<close> of a root or of an empty path does
  nothing.
\<close>

fun normalize_step :: "bool \<times> rstr list \<Rightarrow> component \<Rightarrow> bool \<times> rstr list" where
  "normalize_step (r, ns) ParentDir = (r, butlast ns)"
| "normalize_step (r, ns) CurDir = (r, ns)"
| "normalize_step (r, ns) RootDir = (True, [])"
| "normalize_step (r, ns) (Normal n) = (r, ns @ [n])"

definition path_of_names :: "bool \<Rightarrow> rstr list \<Rightarrow> rstr" where
  "path_of_names r ns = (if r then ''/'' @ join ''/'' ns else join ''/'' ns)"

definition normalize :: "rstr \<Rightarrow> rstr" where
  "normalize p =
     (let (r, ns) = foldl normalize_step (False, []) (components p)
      in if \<not> r \<and> ns = [] then ''/'' else path_of_names r ns)"

section \<open>Expansion\<close>

definition has_substitution :: "rstr \<Rightarrow> bool" where
  "has_substitution s = (CHR ''$'' \<in> set s \<or> CHR 0x60 \<in> set s)"

text \<open>The body of the inner loop over the two spellings \<open>$NAME\<close> and \<open>${NAME}\<close>.\<close>

definition expand_variable :: "rstr \<Rightarrow> rstr \<Rightarrow> rstr \<Rightarrow> rstr option" where
  "expand_variable raw spelling value =
     (case strip_prefix raw spelling of
        None \<Rightarrow> None
      | Some rest \<Rightarrow>
          if rest = [] \<or> starts_with rest ''/'' then Some (value @ rest) else None)"

definition expand_variables :: "rstr \<Rightarrow> rstr \<Rightarrow> rstr option \<Rightarrow> rstr option" where
  "expand_variables raw name value =
     (case value of
        None \<Rightarrow> None
      | Some v \<Rightarrow>
          (case expand_variable raw (''$'' @ name) v of
             Some t \<Rightarrow> Some t
           | None \<Rightarrow> expand_variable raw (''${'' @ name @ ''}'') v))"

definition expand_tilde :: "rstr \<Rightarrow> rstr option \<Rightarrow> rstr" where
  "expand_tilde raw home =
     (case home of
        None \<Rightarrow> raw
      | Some h \<Rightarrow>
          if raw = ''~'' then h
          else (case strip_prefix raw ''~/'' of
                  Some rest \<Rightarrow> h @ ''/'' @ rest
                | None \<Rightarrow> raw))"

definition expand_known_prefix :: "rstr \<Rightarrow> risk_context \<Rightarrow> rstr" where
  "expand_known_prefix raw ctx =
     (case expand_variables raw ''HOME'' (home_dir ctx) of
        Some t \<Rightarrow> t
      | None \<Rightarrow>
          (case expand_variables raw ''KCODE_SCRATCH_DIR'' (scratch_dir ctx) of
             Some t \<Rightarrow> t
           | None \<Rightarrow> expand_tilde raw (home_dir ctx)))"

definition expand :: "rstr \<Rightarrow> risk_context \<Rightarrow> rstr" where
  "expand raw ctx =
     (let text' = expand_known_prefix raw ctx
      in if has_substitution text' then text'
         else if is_absolute text' then normalize text'
         else (case working_dir ctx of
                 Some cwd \<Rightarrow> normalize (path_join cwd text')
               | None \<Rightarrow> text'))"

section \<open>Classification\<close>

definition is_catastrophic_target :: "rstr \<Rightarrow> risk_context \<Rightarrow> bool" where
  "is_catastrophic_target path ctx =
     (let path = normalize path
      in if (\<exists>p \<in> set PROTECTED_SYSTEM_PATHS. path_eq path p) then True
         else if (\<exists>p \<in> set SYSTEM_PATHS_PROTECTED_RECURSIVELY. path_starts_with path p) then True
         else (case home_dir ctx of
                 None \<Rightarrow> False
               | Some home \<Rightarrow>
                   (let home = normalize home
                    in if path_eq path home then True
                       else if (\<exists>sub \<in> set PROTECTED_CREDENTIAL_SUBPATHS.
                                  path_starts_with path (path_join home sub)) then True
                       else (\<exists>sub \<in> set PROTECTED_HOME_SUBPATHS.
                                  path_eq path (path_join home sub)))))"

definition is_temp_path :: "rstr \<Rightarrow> bool" where
  "is_temp_path p =
     (\<exists>pre \<in> set [''/tmp'', ''/var/tmp'', ''/private/tmp'']. path_starts_with p pre)"

definition has_glob :: "rstr \<Rightarrow> bool" where
  "has_glob s = (CHR ''*'' \<in> set s \<or> CHR ''?'' \<in> set s)"

definition inside_cwd :: "rstr \<Rightarrow> risk_context \<Rightarrow> bool" where
  "inside_cwd p ctx =
     (case working_dir ctx of None \<Rightarrow> False | Some cwd \<Rightarrow> path_starts_with p (normalize cwd))"

text \<open>The glob branch of \<open>classify_target\<close>.\<close>

definition classify_glob :: "rstr \<Rightarrow> rstr \<Rightarrow> risk_context \<Rightarrow> risk_finding" where
  "classify_glob expanded raw ctx =
     (case parent expanded of
        Some par \<Rightarrow>
          if is_catastrophic_target par ctx \<and> file_name expanded = Some ''*'' then
            \<lparr>level = Catastrophic,
             reason = ''would destroy the entire contents of a protected directory'',
             target = Some raw\<rparr>
          else if \<not> has_glob par \<and> (inside_cwd par ctx \<or> is_temp_path par) then
            \<lparr>level = Low,
             reason = ''glob is bounded to the working or temporary directory'',
             target = Some raw\<rparr>
          else
            \<lparr>level = Confirm,
             reason = ''target contains a glob, so the exact set of affected files is not known before execution'',
             target = Some raw\<rparr>
      | None \<Rightarrow>
          \<lparr>level = Confirm,
           reason = ''target contains a glob, so the exact set of affected files is not known before execution'',
           target = Some raw\<rparr>)"

definition classify_target ::
  "rstr \<Rightarrow> rstr \<Rightarrow> bool \<Rightarrow> risk_context \<Rightarrow> risk_finding option" where
  "classify_target expanded raw recursive ctx =
     (if has_glob raw \<and> \<not> has_substitution (expand_known_prefix raw ctx)
      then Some (classify_glob expanded raw ctx)
      else if is_catastrophic_target expanded ctx then
        Some \<lparr>level = Catastrophic,
              reason = ''targets a protected system or home path that must never be destroyed'',
              target = Some expanded\<rparr>
      else if has_substitution (expand_known_prefix raw ctx) then
        Some \<lparr>level = Confirm,
              reason = ''target is computed at runtime (variable or command substitution), so its value cannot be checked in advance'',
              target = Some raw\<rparr>
      else if path_starts_with expanded ''/dev''
              \<and> \<not> path_starts_with expanded ''/dev/null''
              \<and> \<not> path_starts_with expanded ''/dev/stdout''
              \<and> \<not> path_starts_with expanded ''/dev/stderr'' then
        Some \<lparr>level = Catastrophic,
              reason = ''writes directly to a device node, which can destroy a filesystem or disk'',
              target = Some expanded\<rparr>
      else if inside_cwd expanded ctx then
        (if recursive then
           Some \<lparr>level = Low,
                 reason = ''recursive delete inside the working directory'',
                 target = Some expanded\<rparr>
         else None)
      else if is_temp_path expanded then None
      else
        Some \<lparr>level = Low,
              reason = ''destructive operation targets a concrete path outside the working directory'',
              target = Some expanded\<rparr>)"

section \<open>Canonical paths\<close>

text \<open>
  The reference the string code is compared with: a path is a root flag and the names
  left after \<open>.\<close> and \<open>..\<close> are resolved. A clean name is one component.
\<close>

definition clean_name :: "rstr \<Rightarrow> bool" where
  "clean_name n = (n \<noteq> '''' \<and> n \<noteq> ''.'' \<and> n \<noteq> ''..'' \<and> CHR ''/'' \<notin> set n)"

definition names_of :: "bool \<Rightarrow> rstr \<Rightarrow> bool \<times> rstr list" where
  "names_of r p =
     foldl normalize_step (r, []) (concat (map part_component (split_on (CHR ''/'') p)))"

definition canon :: "rstr \<Rightarrow> bool \<times> rstr list" where
  "canon p =
     (let (r, ns) = names_of (is_absolute p) p
      in if \<not> r \<and> ns = [] then (True, []) else (r, ns))"

definition canon_components :: "bool \<times> rstr list \<Rightarrow> component list" where
  "canon_components c = (if fst c then [RootDir] else []) @ map Normal (snd c)"

lemma part_component_clean: "clean_name n \<Longrightarrow> part_component n = [Normal n]"
  by (simp add: clean_name_def part_component_def)

lemma concat_part_component_clean:
  "\<forall>n \<in> set ns. clean_name n \<Longrightarrow> concat (map part_component ns) = map Normal ns"
  by (induction ns) (simp_all add: part_component_clean)

lemma components_path_of_names:
  assumes clean: "\<forall>n \<in> set ns. clean_name n"
  shows "components (path_of_names r ns) = canon_components (r, ns)"
proof (cases "ns = []")
  case True
  then show ?thesis
    by (simp add: path_of_names_def components_def canon_components_def part_component_def)
next
  case False
  have no_slash: "\<forall>n \<in> set ns. CHR ''/'' \<notin> set n"
    using clean by (simp add: clean_name_def)
  have parts: "split_on (CHR ''/'') (join ''/'' ns) = ns"
    by (rule split_on_join [OF False no_slash])
  obtain n ms where ns: "ns = n # ms" using False by (cases ns) auto
  have n: "clean_name n" using clean ns by simp
  then obtain c n' where c: "n = c # n'" "c \<noteq> CHR ''/''"
    by (cases n) (auto simp: clean_name_def)
  have rel: "\<not> starts_with (join ''/'' ns) ''/''"
    using c by (cases ms) (simp_all add: ns)
  have "hd ns \<noteq> ''.''" using n ns by (simp add: clean_name_def)
  then show ?thesis
    using parts rel concat_part_component_clean [OF clean]
    by (auto simp: path_of_names_def components_def canon_components_def part_component_def Let_def)
qed

lemma normalize_step_clean:
  assumes "\<forall>n \<in> set (snd s). clean_name n" and "\<And>n. c = Normal n \<Longrightarrow> clean_name n"
  shows "\<forall>n \<in> set (snd (normalize_step s c)). clean_name n"
  using assms by (cases s; cases c) (auto dest: in_set_butlastD)

lemma foldl_normalize_clean:
  assumes "\<forall>n \<in> set (snd s). clean_name n" and "\<forall>n. Normal n \<in> set cs \<longrightarrow> clean_name n"
  shows "\<forall>n \<in> set (snd (foldl normalize_step s cs)). clean_name n"
  using assms
proof (induction cs arbitrary: s)
  case (Cons c cs)
  have "\<forall>n \<in> set (snd (normalize_step s c)). clean_name n"
    using normalize_step_clean [of s c] Cons.prems by simp
  then show ?case using Cons.IH Cons.prems(2) by simp
qed simp

lemma part_component_Normal:
  "Normal n \<in> set (concat (map part_component (split_on (CHR ''/'') p))) \<Longrightarrow> clean_name n"
  by (auto simp: part_component_def clean_name_def dest: split_on_parts split: if_splits)

lemma names_of_clean: "\<forall>n \<in> set (snd (names_of r p)). clean_name n"
  unfolding names_of_def using part_component_Normal
  by (intro foldl_normalize_clean) auto

lemma canon_clean: "\<forall>n \<in> set (snd (canon p)). clean_name n"
  using names_of_clean [of "is_absolute p" p] by (auto simp: canon_def Let_def case_prod_beta)

lemma normalize_fold_components:
  "foldl normalize_step (False, []) (components p) = names_of (is_absolute p) p"
  by (simp add: components_def names_of_def is_absolute_def Let_def)

lemma normalize_canon: "normalize p = path_of_names (fst (canon p)) (snd (canon p))"
  by (auto simp: normalize_def normalize_fold_components canon_def path_of_names_def Let_def
        case_prod_beta)

lemma components_normalize: "components (normalize p) = canon_components (canon p)"
  using components_path_of_names [OF canon_clean] by (simp add: normalize_canon)

lemma canon_components_inj: "canon_components a = canon_components b \<Longrightarrow> a = b"
  by (cases a; cases b) (auto simp: canon_components_def inj_map_eq_map inj_def split: if_splits)

lemma foldl_normalize_Normal: "foldl normalize_step (r, ns) (map Normal ms) = (r, ns @ ms)"
  by (induction ms arbitrary: ns) auto

lemma canon_of_components:
  assumes "components p = canon_components c" and "fst c \<or> snd c \<noteq> []"
  shows "canon p = c"
proof -
  obtain r ns where c: "c = (r, ns)" by (cases c)
  have "names_of (is_absolute p) p = (r, ns)"
    using assms(1) foldl_normalize_Normal [of r "[]" ns] foldl_normalize_Normal [of False "[]" ns]
    by (auto simp: normalize_fold_components [symmetric] canon_components_def c split: if_splits)
  with assms(2) show ?thesis by (auto simp: canon_def c)
qed

lemma canon_nonempty: "fst (canon p) \<or> snd (canon p) \<noteq> []"
  by (auto simp: canon_def Let_def case_prod_beta)

lemma canon_normalize [simp]: "canon (normalize p) = canon p"
  by (rule canon_of_components [OF components_normalize canon_nonempty])

lemma normalize_idem [simp]: "normalize (normalize p) = normalize p"
  by (metis canon_normalize normalize_canon)

text \<open>\<open>canon\<close> of a path spelled with its names, and how it reads a separator.\<close>

lemma names_of_append:
  "names_of r (a @ CHR ''/'' # b) =
     foldl normalize_step (names_of r a) (concat (map part_component (split_on (CHR ''/'') b)))"
  by (simp add: names_of_def split_on_append)

lemma is_absolute_append: "is_absolute (a @ CHR ''/'' # b) \<longleftrightarrow> a = [] \<or> is_absolute a"
  by (cases a) (auto simp: is_absolute_def)

text \<open>The three ways to respell a path: \<open>//\<close>, \<open>/./\<close> and \<open>/name/../\<close>.\<close>

lemma canon_double_slash: "canon (a @ ''//'' @ b) = canon (a @ ''/'' @ b)"
proof -
  have "names_of r (a @ ''//'' @ b) = names_of r (a @ ''/'' @ b)" for r
    using names_of_append [of r a "CHR ''/'' # b"] names_of_append [of r a b]
      split_on_append [of "CHR ''/''" "[]" b]
    by (simp add: part_component_def)
  then show ?thesis by (simp add: canon_def is_absolute_append)
qed

lemma canon_dot: "canon (a @ ''/./'' @ b) = canon (a @ ''/'' @ b)"
proof -
  have "names_of r (a @ ''/./'' @ b) = names_of r (a @ ''/'' @ b)" for r
    using names_of_append [of r a "''./'' @ b"] names_of_append [of r a b]
      split_on_append [of "CHR ''/''" "''.''" b]
    by (simp add: part_component_def)
  then show ?thesis by (simp add: canon_def is_absolute_append)
qed

lemma canon_dotdot:
  assumes "clean_name x"
  shows "canon (a @ ''/'' @ x @ ''/../'' @ b) = canon (a @ ''/'' @ b)"
proof -
  have parts: "split_on (CHR ''/'') (x @ ''/../'' @ b) = [x, ''..''] @ split_on (CHR ''/'') b"
    using assms split_on_append [of "CHR ''/''" x "''../'' @ b"]
      split_on_append [of "CHR ''/''" "''..''" b]
    by (simp add: split_on_no_sep clean_name_def)
  have undo: "normalize_step (normalize_step s (Normal x)) ParentDir = s" for s
    by (cases s) simp
  have "names_of r (a @ ''/'' @ x @ ''/../'' @ b) = names_of r (a @ ''/'' @ b)" for r
  proof -
    have "names_of r (a @ ''/'' @ x @ ''/../'' @ b) =
        foldl normalize_step (names_of r a)
          (concat (map part_component (split_on (CHR ''/'') (x @ ''/../'' @ b))))"
      using names_of_append [of r a "x @ ''/../'' @ b"] by simp
    also have "\<dots> = foldl normalize_step (names_of r a)
        (Normal x # ParentDir # concat (map part_component (split_on (CHR ''/'') b)))"
      unfolding parts using part_component_clean [OF assms]
      by (simp add: part_component_def [of "''..''"])
    also have "\<dots> = names_of r (a @ ''/'' @ b)"
      using names_of_append [of r a b] by (simp add: undo)
    finally show ?thesis .
  qed
  then show ?thesis by (simp add: canon_def is_absolute_append)
qed

end
