(* ===== verification/Risk_Protection.thy ===== *)
theory Risk_Protection
  imports Risk_Paths
begin

text \<open>
  What \<open>is_catastrophic_target\<close> promises, stated on canonical paths (a root flag and
  resolved names) instead of path strings, and the lemmas that the string code implements
  it. A canonical path is protected when it is one of the listed system roots, lies in a
  recursively protected system tree, is the home directory, lies in a credential
  directory, or is one of the listed directories of the home.
\<close>

section \<open>The abstract specification\<close>

definition system_roots :: "rstr list list" where
  "system_roots =
     [[], [''bin''], [''boot''], [''dev''], [''etc''], [''lib''], [''lib64''], [''opt''], [''proc''],
      [''root''], [''sbin''], [''srv''], [''sys''], [''usr''], [''var''], [''Applications''],
      [''System''], [''Library''], [''Users''], [''home'']]"

definition system_trees :: "rstr list list" where
  "system_trees =
     [[''bin''], [''boot''], [''dev''], [''etc''], [''lib''], [''lib64''], [''proc''], [''sbin''],
      [''sys''], [''usr''], [''var'', ''lib''], [''System''], [''Library'']]"

definition credential_dirs :: "rstr list list" where
  "credential_dirs = [[''.ssh''], [''.gnupg''], [''.aws''], [''.kube''], [''.docker'']]"

definition home_dirs :: "rstr list list" where
  "home_dirs =
     [[''.config''], [''.kcode''], [''.claude''], [''.local''], [''.local'', ''share''],
      [''Documents''], [''Desktop'']]"

definition under_home :: "bool \<times> rstr list \<Rightarrow> bool \<times> rstr list \<Rightarrow> bool" where
  "under_home h c =
     (fst c = fst h
      \<and> (snd c = snd h
         \<or> (\<exists>s \<in> set credential_dirs. prefix (snd h @ s) (snd c))
         \<or> (\<exists>s \<in> set home_dirs. snd c = snd h @ s)))"

definition protected_canon :: "risk_context \<Rightarrow> bool \<times> rstr list \<Rightarrow> bool" where
  "protected_canon ctx c =
     (fst c \<and> snd c \<in> set system_roots
      \<or> fst c \<and> (\<exists>d \<in> set system_trees. prefix d (snd c))
      \<or> (\<exists>h. home_dir ctx = Some h \<and> under_home (canon h) c))"

section \<open>Components of the literal paths\<close>

lemma join_append:
  "as \<noteq> [] \<Longrightarrow> bs \<noteq> [] \<Longrightarrow> join sep (as @ bs) = join sep as @ sep @ join sep bs"
proof (induction sep as rule: join.induct)
  case (2 sep w)
  then show ?case by (cases bs) auto
qed auto

lemma join_clean_ends:
  assumes "ns \<noteq> []" and "\<forall>n \<in> set ns. clean_name n"
  shows "join ''/'' ns \<noteq> [] \<and> last (join ''/'' ns) \<noteq> CHR ''/'' \<and> \<not> starts_with (join ''/'' ns) ''/''"
  using assms
proof (induction "''/''" ns rule: join.induct)
  case (2 w)
  then have "w \<noteq> []" "CHR ''/'' \<notin> set w" by (auto simp: clean_name_def)
  then show ?case by (cases w) (auto dest: last_in_set)
next
  case (3 w v ws)
  then have "w \<noteq> []" "CHR ''/'' \<notin> set w" by (auto simp: clean_name_def)
  with 3 show ?case by (cases w) auto
qed simp

lemma path_join_names:
  assumes "\<forall>n \<in> set ns. clean_name n" and "ms \<noteq> []" and "\<forall>n \<in> set ms. clean_name n"
  shows "path_join (path_of_names r ns) (join ''/'' ms) = path_of_names r (ns @ ms)"
proof (cases "ns = []")
  case True
  then show ?thesis
    using join_clean_ends [OF assms(2,3)] by (simp add: path_join_def path_of_names_def is_absolute_def)
next
  case False
  then show ?thesis
    using join_clean_ends [OF assms(2,3)] join_clean_ends [OF False assms(1)]
      join_append [OF False assms(2), of "''/''"]
    by (simp add: path_join_def path_of_names_def is_absolute_def)
qed

lemma components_home_sub:
  assumes "ms \<noteq> []" and "\<forall>n \<in> set ms. clean_name n"
  shows "components (path_join (normalize h) (join ''/'' ms)) = canon_components (fst (canon h), snd (canon h) @ ms)"
  using components_path_of_names [of "snd (canon h) @ ms" "fst (canon h)"] canon_clean [of h] assms
    path_join_names [OF canon_clean [of h] assms]
  by (auto simp: normalize_canon)

lemma components_root:
  assumes "\<forall>n \<in> set ns. clean_name n"
  shows "components (path_of_names True ns) = canon_components (True, ns)"
  by (rule components_path_of_names [OF assms])

lemma canon_components_eq [simp]: "canon_components a = canon_components b \<longleftrightarrow> a = b"
  by (auto dest: canon_components_inj)

lemma prefix_canon_components:
  assumes "fst a \<or> snd a \<noteq> []"
  shows "prefix (canon_components a) (canon_components b) \<longleftrightarrow> fst a = fst b \<and> prefix (snd a) (snd b)"
proof -
  have map: "prefix (map Normal xs) (map Normal ys) \<longleftrightarrow> prefix xs ys" for xs ys
    by (metis component.inject inj_onI prefix_map_rightE map_injective map_mono_prefix inj_def)
  show ?thesis
    using assms by (cases "snd a"; cases "snd b") (auto simp: canon_components_def map [symmetric])
qed

lemma system_root_paths: "PROTECTED_SYSTEM_PATHS = map (path_of_names True) system_roots"
  by (simp add: PROTECTED_SYSTEM_PATHS_def system_roots_def path_of_names_def)

lemma system_tree_paths:
  "SYSTEM_PATHS_PROTECTED_RECURSIVELY = map (path_of_names True) system_trees"
  by (simp add: SYSTEM_PATHS_PROTECTED_RECURSIVELY_def system_trees_def path_of_names_def)

lemma credential_paths: "PROTECTED_CREDENTIAL_SUBPATHS = map (join ''/'') credential_dirs"
  by (simp add: PROTECTED_CREDENTIAL_SUBPATHS_def credential_dirs_def)

lemma home_paths: "PROTECTED_HOME_SUBPATHS = map (join ''/'') home_dirs"
  by (simp add: PROTECTED_HOME_SUBPATHS_def home_dirs_def)

lemma protected_names_clean:
  "\<forall>d \<in> set system_roots \<union> set system_trees \<union> set credential_dirs \<union> set home_dirs.
     \<forall>n \<in> set d. clean_name n"
  by (simp add: system_roots_def system_trees_def credential_dirs_def home_dirs_def clean_name_def)

lemma home_names_nonempty: "\<forall>d \<in> set credential_dirs \<union> set home_dirs. d \<noteq> []"
  by (simp add: credential_dirs_def home_dirs_def)

section \<open>Refinement\<close>

lemma path_eq_normalize: "path_eq (normalize p) q \<longleftrightarrow> canon_components (canon p) = components q"
  by (simp add: path_eq_def components_normalize)

lemma path_starts_with_normalize:
  "path_starts_with (normalize p) q \<longleftrightarrow> prefix (components q) (canon_components (canon p))"
  by (simp add: path_starts_with_def components_normalize)

lemma is_root_match:
  "(\<exists>q \<in> set PROTECTED_SYSTEM_PATHS. path_eq (normalize p) q) \<longleftrightarrow>
     fst (canon p) \<and> snd (canon p) \<in> set system_roots"
proof -
  have "components (path_of_names True d) = canon_components (True, d)" if "d \<in> set system_roots" for d
    using that protected_names_clean components_root by blast
  then show ?thesis
    by (cases "canon p") (auto simp: system_root_paths path_eq_normalize)
qed

lemma is_tree_match:
  "(\<exists>q \<in> set SYSTEM_PATHS_PROTECTED_RECURSIVELY. path_starts_with (normalize p) q) \<longleftrightarrow>
     fst (canon p) \<and> (\<exists>d \<in> set system_trees. prefix d (snd (canon p)))"
proof -
  have "components (path_of_names True d) = canon_components (True, d)" if "d \<in> set system_trees" for d
    using that protected_names_clean components_root by blast
  then show ?thesis
    by (auto simp: system_tree_paths path_starts_with_normalize prefix_canon_components)
qed

lemma is_credential_match:
  "(\<exists>s \<in> set PROTECTED_CREDENTIAL_SUBPATHS. path_starts_with (normalize p) (path_join (normalize h) s)) \<longleftrightarrow>
     fst (canon p) = fst (canon h) \<and> (\<exists>d \<in> set credential_dirs. prefix (snd (canon h) @ d) (snd (canon p)))"
proof -
  have "components (path_join (normalize h) (join ''/'' d)) = canon_components (fst (canon h), snd (canon h) @ d)"
    if "d \<in> set credential_dirs" for d
    using that protected_names_clean home_names_nonempty by (intro components_home_sub) blast+
  then show ?thesis
    using home_names_nonempty
    by (auto simp: credential_paths path_starts_with_normalize prefix_canon_components)
qed

lemma is_home_dir_match:
  "(\<exists>s \<in> set PROTECTED_HOME_SUBPATHS. path_eq (normalize p) (path_join (normalize h) s)) \<longleftrightarrow>
     fst (canon p) = fst (canon h) \<and> (\<exists>d \<in> set home_dirs. snd (canon p) = snd (canon h) @ d)"
proof -
  have "components (path_join (normalize h) (join ''/'' d)) = canon_components (fst (canon h), snd (canon h) @ d)"
    if "d \<in> set home_dirs" for d
    using that protected_names_clean home_names_nonempty by (intro components_home_sub) blast+
  then show ?thesis
    by (cases "canon p") (auto simp: home_paths path_eq_normalize)
qed

lemma catastrophic_canon: "is_catastrophic_target p ctx = protected_canon ctx (canon p)"
proof (cases "home_dir ctx")
  case None
  then show ?thesis
    by (simp add: is_catastrophic_target_def protected_canon_def is_root_match is_tree_match Let_def)
next
  case (Some h)
  have "path_eq (normalize p) (normalize h) \<longleftrightarrow> canon p = canon h"
    by (simp add: path_eq_normalize components_normalize)
  then show ?thesis
    using Some
    by (auto simp: is_catastrophic_target_def protected_canon_def is_root_match is_tree_match
          is_credential_match is_home_dir_match under_home_def Let_def prod_eq_iff)
qed

end
