(* ===== verification/Risk_Assess.thy ===== *)
theory Risk_Assess
  imports Risk_Tokenize Risk_Paths
begin

text \<open>
  The assessor, \<open>crates/kcode-command-risk/src/lib.rs\<close>: \<open>assess\<close> and what it
  calls. The \<open>&mut Vec<RiskFinding>\<close> every function pushes onto becomes the list of the
  findings it adds, in order.

  \<open>assess_segment\<close> and \<open>assess_find\<close> call each other on text they build
  (\<open>sh -c\<close> scripts, \<open>find -exec\<close> payloads with \<open>{}\<close> replaced), so the
  model carries fuel, one unit per nested call of \<open>assess_segment\<close>; \<^const>\<open>None\<close>
  is running out of it. \<open>assess_find\<close> takes the recursive call as an argument.
\<close>

section \<open>Vocabulary\<close>

definition DESTRUCTIVE_COMMANDS :: "rstr list" where
  "DESTRUCTIVE_COMMANDS =
     [''rm'', ''rmdir'', ''shred'', ''unlink'', ''truncate'', ''dd'', ''mkfs'', ''fdisk'',
      ''parted'', ''wipefs'', ''srm'']"

definition WRAPPER_COMMANDS :: "rstr list" where
  "WRAPPER_COMMANDS =
     [''sudo'', ''doas'', ''env'', ''nice'', ''ionice'', ''time'', ''timeout'', ''nohup'',
      ''xargs'', ''command'', ''builtin'', ''exec'', ''setsid'', ''stdbuf'', ''chroot'', ''su'',
      ''watch'', ''eval'']"

definition SHELL_CONTROL_PREFIXES :: "rstr list" where
  "SHELL_CONTROL_PREFIXES =
     [''then'', ''do'', ''else'', ''elif'', ''if'', ''while'', ''until'', ''case'', ''in'',
      ''select'']"

definition wrapper_flag_takes_value :: "rstr \<Rightarrow> rstr \<Rightarrow> bool" where
  "wrapper_flag_takes_value wrapper flag =
     (if wrapper = ''sudo'' \<or> wrapper = ''doas''
      then flag \<in> set [''-u'', ''--user'', ''-g'', ''--group'', ''-C'']
      else if wrapper = ''env'' then flag \<in> set [''-u'', ''--unset'', ''-C'', ''--chdir'']
      else if wrapper = ''nice'' then flag \<in> set [''-n'', ''--adjustment'']
      else if wrapper = ''ionice''
      then flag \<in> set [''-c'', ''--class'', ''-n'', ''--classdata'', ''-p'', ''--pid'']
      else if wrapper = ''timeout''
      then flag \<in> set [''-s'', ''--signal'', ''-k'', ''--kill-after'']
      else if wrapper = ''xargs''
      then flag \<in> set [''-n'', ''--max-args'', ''-P'', ''--max-procs'', ''-s'', ''--max-chars'']
      else if wrapper = ''chroot'' then flag \<in> set [''--userspec'', ''--groups'']
      else False)"

definition SHELL_COMMANDS :: "rstr list" where
  "SHELL_COMMANDS = [''sh'', ''bash'', ''zsh'', ''dash'', ''ksh'', ''fish'']"

definition CONDITIONALLY_DESTRUCTIVE :: "(rstr \<times> rstr list) list" where
  "CONDITIONALLY_DESTRUCTIVE =
     [(''git'', [''clean'']), (''chmod'', [''-R'']), (''chown'', [''-R''])]"

definition is_safe_redirect_sink :: "rstr \<Rightarrow> bool" where
  "is_safe_redirect_sink raw =
     (raw \<in> set [''/dev/null'', ''/dev/stdout'', ''/dev/stderr'', ''NUL''])"

definition confirm_finding :: "rstr \<Rightarrow> risk_finding" where
  "confirm_finding r = \<lparr>level = Confirm, reason = r, target = None\<rparr>"

text \<open>\<open>expand\<close> then \<open>classify_target\<close>, the pair every caller runs on an operand.\<close>

definition classify_operand :: "rstr \<Rightarrow> bool \<Rightarrow> risk_context \<Rightarrow> risk_finding list" where
  "classify_operand raw recursive ctx =
     (case classify_target (expand raw ctx) raw recursive ctx of
        None \<Rightarrow> [] | Some f \<Rightarrow> [f])"

section \<open>Redirects, control words, wrappers\<close>

definition assess_redirects :: "token list \<Rightarrow> risk_context \<Rightarrow> risk_finding list" where
  "assess_redirects ts ctx =
     concat (map (\<lambda>t. if is_safe_redirect_sink (tok_text t) then []
                       else classify_operand (tok_text t) False ctx)
                 (filter is_truncating_redirect_target ts))"

fun strip_control_prefixes :: "token list \<Rightarrow> token list" where
  "strip_control_prefixes (t # u # ts) =
     (if tok_text t \<in> set SHELL_CONTROL_PREFIXES
      then strip_control_prefixes (u # ts) else t # u # ts)"
| "strip_control_prefixes ts = ts"

text \<open>\<open>command -v\<close> and \<open>-V\<close>: only the option prefix is inspected.\<close>

definition describes_names :: "token list \<Rightarrow> bool" where
  "describes_names rest =
     (\<exists>t \<in> set (takeWhile (\<lambda>t. is_flag t \<and> tok_text t \<noteq> ''--'') rest).
        \<not> starts_with (tok_text t) ''--''
        \<and> (CHR ''v'' \<in> set (tl (tok_text t)) \<or> CHR ''V'' \<in> set (tl (tok_text t))))"

definition is_split_string_option :: "token \<Rightarrow> bool" where
  "is_split_string_option t =
     (starts_with (tok_text t) ''--split-string''
      \<or> starts_with (tok_text t) ''-'' \<and> \<not> starts_with (tok_text t) ''--''
         \<and> CHR ''S'' \<in> set (tok_text t))"

text \<open>
  The loop over \<open>idx\<close>: the wrapper's own options, assignments and numbers are skipped;
  \<^const>\<open>None\<close> is the early return at an \<open>env\<close> split-string option.
\<close>

fun skip_wrapper_operands :: "rstr \<Rightarrow> token list \<Rightarrow> token list option" where
  "skip_wrapper_operands name [] = Some []"
| "skip_wrapper_operands name (t # ts) =
     (if name = ''env'' \<and> is_split_string_option t then None
      else if is_operator t \<or> CHR ''='' \<in> set (tok_text t) then skip_wrapper_operands name ts
      else if is_flag t then
        (if wrapper_flag_takes_value name (tok_text t) \<and> ts \<noteq> []
         then skip_wrapper_operands name (tl ts) else skip_wrapper_operands name ts)
      else if list_all (\<lambda>c. is_ascii_digit c \<or> c = CHR ''.'') (tok_text t)
      then skip_wrapper_operands name ts
      else Some (t # ts))"

lemma skip_wrapper_operands_length:
  "skip_wrapper_operands name ts = Some us \<Longrightarrow> length us \<le> length ts"
proof (induction name ts rule: skip_wrapper_operands.induct)
  case (2 name t ts)
  have "length (tl ts) \<le> length ts" by simp
  then show ?case
    using "2.prems" "2.IH" by (simp split: if_splits) (linarith | force)+
qed simp

text \<open>
  The unwrapping loop: \<open>Unwrapped\<close> is its \<open>break\<close> at the program to classify,
  \<open>Stopped\<close> a \<open>return\<close> with what was pushed before it.
\<close>

datatype unwrapping = Unwrapped "token list" | Stopped "risk_finding list"

definition unidentified_payload :: "rstr \<Rightarrow> risk_finding" where
  "unidentified_payload wrapper =
     confirm_finding (''`'' @ wrapper @ ''` runs another command that could not be identified statically'')"

definition split_string_finding :: risk_finding where
  "split_string_finding = confirm_finding ''`env` split-string payload cannot be identified statically''"

function unwrap :: "rstr option \<Rightarrow> token list \<Rightarrow> unwrapping" where
  "unwrap wrapped_by [] =
     Stopped (case wrapped_by of None \<Rightarrow> [] | Some wrapper \<Rightarrow> [unidentified_payload wrapper])"
| "unwrap wrapped_by (t # rest) =
     (if basename t \<notin> set WRAPPER_COMMANDS then Unwrapped (t # rest)
      else if basename t = ''command'' \<and> describes_names rest then Stopped []
      else (case skip_wrapper_operands (basename t) rest of
              None \<Rightarrow> Stopped [split_string_finding]
            | Some payload \<Rightarrow>
                if basename t = ''env'' \<and> payload = [] then Stopped []
                else unwrap (Some (basename t)) payload))"
  by pat_completeness auto
termination
  by (relation "measure (\<lambda>(w, ts). length ts)")
     (auto dest!: skip_wrapper_operands_length)

section \<open>Destructive programs\<close>

definition triggers :: "rstr \<Rightarrow> token list \<Rightarrow> bool" where
  "triggers program ts =
     (if program \<in> set DESTRUCTIVE_COMMANDS then True
      else (case map_of CONDITIONALLY_DESTRUCTIVE program of
              Some flags \<Rightarrow> (\<exists>t \<in> set ts. tok_text t \<in> set flags)
            | None \<Rightarrow> False))"

definition is_target :: "token \<Rightarrow> bool" where
  "is_target t = (\<not> is_flag t \<and> \<not> is_operator t \<and> \<not> is_truncating_redirect_target t)"

text \<open>\<open>dd\<close>-style \<open>key=value\<close> operands.\<close>

definition operand_path :: "rstr \<Rightarrow> rstr" where
  "operand_path s =
     (case split_once (CHR ''='') s of
        Some (key, value) \<Rightarrow> if key \<in> set [''of'', ''if'', ''seek'', ''conv''] then value else s
      | None \<Rightarrow> s)"

definition assess_destructive ::
  "rstr \<Rightarrow> token list \<Rightarrow> risk_context \<Rightarrow> risk_finding list" where
  "assess_destructive program ts ctx =
     (let targets = filter is_target (tl ts);
          piped = (if receives_pipe (hd ts)
                   then [confirm_finding (''`'' @ program @ ''` deletes paths supplied by a pipe, so the set of affected files cannot be checked before it runs'')]
                   else []);
          recursive = (\<exists>t \<in> set ts. is_recursive_flag t)
      in piped @
         (if targets = []
          then [confirm_finding (''`'' @ program @ ''` is destructive but its target could not be determined statically, so its blast radius is unknown'')]
          else concat (map (\<lambda>t. classify_operand (operand_path (tok_text t)) recursive ctx) targets)))"

section \<open>\<open>find\<close>\<close>

definition read_only_find_payload :: "token list \<Rightarrow> bool" where
  "read_only_find_payload ts =
     (case ts of
        [] \<Rightarrow> False
      | program # rest \<Rightarrow>
          if basename program = ''cat'' \<or> basename program = ''readlink'' then True
          else if basename program = ''sed'' then
            (let args = map tok_text rest;
                 args = (if args \<noteq> [] \<and> hd args = ''-n'' then tl args else args)
             in (case args of
                   [] \<Rightarrow> False
                 | script # files \<Rightarrow>
                     ends_with script ''p''
                     \<and> list_all (\<lambda>c. is_ascii_digit c \<or> c = CHR '','' \<or> c = CHR ''$'') (butlast script)
                     \<and> list_all (\<lambda>arg. \<not> starts_with arg ''-'') files))
          else False)"

fun replace_braces :: "rstr \<Rightarrow> rstr \<Rightarrow> rstr" where
  "replace_braces root (a # b # s) =
     (if a = CHR ''{'' \<and> b = CHR ''}'' then root @ replace_braces root s
      else a # replace_braces root (b # s))"
| "replace_braces root s = s"

definition find_roots :: "token list \<Rightarrow> rstr list" where
  "find_roots ts =
     (let roots = filter (\<lambda>t. \<not> is_truncating_redirect_target t)
            (takeWhile (\<lambda>t. \<not> is_flag t \<and> \<not> is_operator t \<and> tok_text t \<noteq> ''!'' \<and> tok_text t \<noteq> ''('')
              (dropWhile (\<lambda>t. tok_text t \<in> set [''-H'', ''-L'', ''-P'', ''--'']) (tl ts)))
      in if roots = [] then [''.''] else map tok_text roots)"

text \<open>Run a fallible producer over a list and join what it produces.\<close>

fun collect :: "('a \<Rightarrow> 'b list option) \<Rightarrow> 'a list \<Rightarrow> 'b list option" where
  "collect f [] = Some []"
| "collect f (x # xs) =
     (case f x of
        None \<Rightarrow> None
      | Some a \<Rightarrow> (case collect f xs of None \<Rightarrow> None | Some b \<Rightarrow> Some (a @ b)))"

definition find_action_finding :: risk_finding where
  "find_action_finding = confirm_finding ''`find` action may modify files and its full effects cannot be determined statically''"

text \<open>The \<open>-exec\<close> arm: \<open>terminated\<close> is \<open>end != tokens.len()\<close>.\<close>

definition assess_find_action ::
  "(token list \<Rightarrow> risk_finding list option) \<Rightarrow> rstr list \<Rightarrow> token list \<Rightarrow> bool
     \<Rightarrow> risk_finding list option" where
  "assess_find_action rec roots payload terminated =
     (if read_only_find_payload payload \<and> terminated then Some []
      else
        (let segments =
           payload #
             (if \<exists>t \<in> set payload. contains (tok_text t) ''{}''
              then map (\<lambda>root. map (\<lambda>t. t\<lparr>tok_text := replace_braces root (tok_text t)\<rparr>) payload) roots
              else [])
         in map_option (\<lambda>nested. nested @
              [find_action_finding])
              (collect rec segments)))"

definition find_output_findings :: "token list \<Rightarrow> risk_context \<Rightarrow> risk_finding list" where
  "find_output_findings ts ctx =
     (case ts of
        t # _ \<Rightarrow> if is_safe_redirect_sink (tok_text t) then []
                 else classify_operand (tok_text t) False ctx
      | [] \<Rightarrow> [confirm_finding ''`find` output target cannot be identified statically''])"

text \<open>The three groups of predicates the loop matches on.\<close>

definition FIND_OUTPUTS :: "rstr list" where
  "FIND_OUTPUTS = [''-fprint'', ''-fprint0'', ''-fprintf'', ''-fls'']"

definition FIND_PATTERNS :: "rstr list" where
  "FIND_PATTERNS =
     [''-name'', ''-iname'', ''-path'', ''-ipath'', ''-wholename'', ''-iwholename'', ''-regex'',
      ''-iregex'', ''-lname'', ''-ilname'', ''-printf'']"

definition FIND_EXECS :: "rstr list" where
  "FIND_EXECS = [''-exec'', ''-execdir'', ''-ok'', ''-okdir'']"

definition exec_payload :: "token list \<Rightarrow> token list" where
  "exec_payload ts = takeWhile (\<lambda>u. tok_text u \<noteq> '';'' \<and> tok_text u \<noteq> ''+'') ts"

text \<open>The \<open>while index < tokens.len()\<close> loop, on the unread tokens.\<close>

function find_loop ::
  "(token list \<Rightarrow> risk_finding list option) \<Rightarrow> rstr list \<Rightarrow> risk_context \<Rightarrow> token list
     \<Rightarrow> risk_finding list option" where
  "find_loop rec roots ctx [] = Some []"
| "find_loop rec roots ctx (t # ts) =
     (if tok_text t = ''-delete'' then
        map_option (\<lambda>later. concat (map (\<lambda>raw. classify_operand raw True ctx) roots) @ later)
          (find_loop rec roots ctx ts)
      else if tok_text t \<in> set FIND_OUTPUTS then
        map_option (\<lambda>later. find_output_findings ts ctx @ later)
          (find_loop rec roots ctx (drop (if tok_text t = ''-fprintf'' then 2 else 1) ts))
      else if tok_text t \<in> set FIND_PATTERNS then find_loop rec roots ctx (drop 1 ts)
      else if tok_text t \<in> set FIND_EXECS then
        (case assess_find_action rec roots (exec_payload ts) (length (exec_payload ts) < length ts) of
           None \<Rightarrow> None
         | Some nested \<Rightarrow>
             map_option (\<lambda>later. nested @ later)
               (find_loop rec roots ctx (drop (length (exec_payload ts) + 1) ts)))
      else find_loop rec roots ctx ts)"
  by pat_completeness auto
termination
  by (relation "measure (\<lambda>(rec, roots, ctx, ts). length ts)") auto

definition assess_find ::
  "(token list \<Rightarrow> risk_finding list option) \<Rightarrow> token list \<Rightarrow> risk_context
     \<Rightarrow> risk_finding list option" where
  "assess_find rec ts ctx = find_loop rec (find_roots ts) ctx (tl ts)"

section \<open>Segments and commands\<close>

text \<open>What follows the unwrapping loop; \<open>ts\<close> starts with the program.\<close>

definition assess_program ::
  "(token list \<Rightarrow> risk_finding list option) \<Rightarrow> token list \<Rightarrow> risk_context
     \<Rightarrow> risk_finding list option" where
  "assess_program rec ts ctx =
     (let program = basename (hd ts)
      in if program = ''find'' then assess_find rec ts ctx
         else if program \<in> set SHELL_COMMANDS then
           collect (\<lambda>t. collect rec (split_segments (tok_text t)))
             (filter (\<lambda>t. \<not> is_flag t) (tl ts))
         else if triggers program ts then Some (assess_destructive program ts ctx)
         else Some [])"

fun assess_segment :: "nat \<Rightarrow> risk_context \<Rightarrow> token list \<Rightarrow> risk_finding list option" where
  "assess_segment 0 ctx ts = None"
| "assess_segment (Suc fuel) ctx ts =
     map_option (\<lambda>later. assess_redirects ts ctx @ later)
       (case unwrap None (strip_control_prefixes ts) of
          Stopped fs \<Rightarrow> Some fs
        | Unwrapped us \<Rightarrow> assess_program (assess_segment fuel ctx) us ctx)"

definition reassignment_findings :: "rstr \<Rightarrow> risk_finding list" where
  "reassignment_findings command =
     (if contains command ''HOME='' \<or> contains command ''KCODE_SCRATCH_DIR=''
      then [confirm_finding ''command reassigns a path variable used by risk assessment'']
      else [])"

definition assess :: "nat \<Rightarrow> rstr \<Rightarrow> risk_context \<Rightarrow> risk_assessment option" where
  "assess fuel command ctx =
     map_option
       (\<lambda>fs. let all = reassignment_findings command @ fs
              in if all = [] then assessment_safe else from_findings all)
       (collect (assess_segment fuel ctx) (split_segments command))"

end
