(* ===== verification/Risk_Gate.thy ===== *)
theory Risk_Gate
  imports Risk_Assess
begin

text \<open>
  The reflection gate, \<open>crates/kcode-command-risk/src/gate.rs\<close>, and its caller in the
  \<open>bash\<close> tool, \<open>destructive_command_refusal\<close> of
  \<open>crates/kcode-app-core/src/tool/bash_destructive_gate.rs\<close>.
\<close>

datatype gate_outcome = Allow | Reflect rstr | Deny rstr

definition MIN_JUSTIFICATION_LEN :: nat where
  "MIN_JUSTIFICATION_LEN = 25"

definition EMPTY_AFFIRMATIONS :: "rstr list" where
  "EMPTY_AFFIRMATIONS =
     [''yes'', ''ok'', ''okay'', ''sure'', ''confirmed'', ''proceed'', ''do it'', ''continue'',
      ''y'', ''approved'', ''go ahead'']"

text \<open>The justification is the struct's only field, \<open>text: Option<String>\<close>.\<close>

definition is_substantive :: "rstr option \<Rightarrow> bool" where
  "is_substantive justification =
     (case justification of
        None \<Rightarrow> False
      | Some t \<Rightarrow>
          (let t = trim t
           in if length t < MIN_JUSTIFICATION_LEN then False
              else (let stripped = trim (trim_end_chars {CHR ''.'', CHR ''!'', CHR ''?''} (to_lowercase t))
                    in stripped \<notin> set EMPTY_AFFIRMATIONS)))"

definition reflection_prompt :: "risk_assessment \<Rightarrow> rstr" where
  "reflection_prompt a =
     ''This command was not run. It is irreversible:'' @ [NL, NL] @ explanation a @ [NL]
     @ ''Before it can proceed, stop and check it against the user's actual request:'' @ [NL]
     @ ''- Which specific thing the user asked for requires deleting this?'' @ [NL]
     @ ''- Did the user name this path, or did you infer it?'' @ [NL]
     @ ''- If you inferred it, is a narrower target enough?'' @ [NL]
     @ ''- If this is wrong, nothing here can be recovered.'' @ [NL, NL]
     @ ''If it is genuinely what the user asked for, re-issue the same call with a `justification` field explaining which request it serves. If you are not sure, ask the user instead: that costs one message, and being wrong costs their data.''"

definition deny_reason :: "risk_assessment \<Rightarrow> rstr" where
  "deny_reason a =
     ''This command is blocked and cannot be confirmed.'' @ [NL, NL] @ explanation a @ [NL]
     @ ''If the user genuinely wants this, they must run it themselves outside the agent.''"

definition gate :: "risk_assessment \<Rightarrow> rstr option \<Rightarrow> gate_outcome" where
  "gate a justification =
     (case overall a of
        Safe \<Rightarrow> Allow
      | Low \<Rightarrow> Allow
      | Catastrophic \<Rightarrow> Deny (deny_reason a)
      | Confirm \<Rightarrow>
          if is_substantive justification then Allow else Reflect (reflection_prompt a))"

text \<open>
  \<open>RiskContext::from_env\<close> with the two environment variables it reads as arguments;
  an empty value counts as unset.
\<close>

definition nonempty_var :: "rstr option \<Rightarrow> rstr option" where
  "nonempty_var v = (case v of Some [] \<Rightarrow> None | _ \<Rightarrow> v)"

definition context_from_env ::
  "rstr option \<Rightarrow> rstr option \<Rightarrow> rstr option \<Rightarrow> risk_context" where
  "context_from_env cwd home_var scratch_var =
     \<lparr>working_dir = cwd, home_dir = nonempty_var home_var, scratch_dir = nonempty_var scratch_var\<rparr>"

text \<open>
  The tool's check: \<^term>\<open>Some None\<close> runs the command, \<^term>\<open>Some (Some t)\<close> refuses
  it with text \<open>t\<close>. \<open>tool_scratch\<close> is what \<open>tool_scratch_dir()\<close> returns,
  which replaces the scratch directory of the environment.
\<close>

definition destructive_command_refusal ::
  "nat \<Rightarrow> rstr \<Rightarrow> rstr option \<Rightarrow> rstr option \<Rightarrow> rstr option \<Rightarrow> rstr option \<Rightarrow> rstr option
     \<Rightarrow> rstr option option" where
  "destructive_command_refusal fuel command justification cwd home_var scratch_var tool_scratch =
     (let ctx = (context_from_env cwd home_var scratch_var)\<lparr>scratch_dir := tool_scratch\<rparr>
      in case assess fuel command ctx of
           None \<Rightarrow> None
         | Some a \<Rightarrow>
             if runs_immediately (overall a) then Some None
             else (case gate a justification of
                     Allow \<Rightarrow> Some None
                   | Deny r \<Rightarrow> Some (Some r)
                   | Reflect p \<Rightarrow> Some (Some p)))"

end
