(* ===== verification/Risk_Facts.thy ===== *)
theory Risk_Facts
  imports Risk_Lexing Risk_Protection Risk_Gate
begin

text \<open>
  Lemmas about the assessor that its properties share: the fuel it needs, how a chain of
  commands is assessed, what wrappers and flags in front of a destructive program change,
  and how the gate turns the overall level into an outcome.
\<close>

section \<open>Fuel\<close>

lemma collect_mono:
  assumes "\<And>x y. x \<in> set xs \<Longrightarrow> f x = Some y \<Longrightarrow> g x = Some y" and "collect f xs = Some ys"
  shows "collect g xs = Some ys"
  using assms by (induction xs arbitrary: ys) (auto split: option.splits)

lemma collect_total:
  "(\<And>x. x \<in> set xs \<Longrightarrow> \<exists>y. f x = Some y) \<Longrightarrow> \<exists>ys. collect f xs = Some ys"
proof (induction xs)
  case (Cons x xs)
  obtain y where "f x = Some y" using Cons.prems [of x] by auto
  moreover obtain ys where "collect f xs = Some ys" using Cons by force
  ultimately show ?case by simp
qed simp

lemma collect_append:
  "collect f (xs @ ys) =
     (case collect f xs of
        None \<Rightarrow> None
      | Some a \<Rightarrow> (case collect f ys of None \<Rightarrow> None | Some b \<Rightarrow> Some (a @ b)))"
  by (induction xs) (auto split: option.splits)

lemma assess_find_action_mono:
  assumes "\<And>ts fs. f ts = Some fs \<Longrightarrow> g ts = Some fs"
    and "assess_find_action f roots payload b = Some fs"
  shows "assess_find_action g roots payload b = Some fs"
proof -
  have "collect g xs = Some ys" if "collect f xs = Some ys" for xs ys
    by (rule collect_mono [OF assms(1) that])
  then show ?thesis
    using assms by (auto simp: assess_find_action_def Let_def split: if_splits option.splits)
qed

declare find_loop.simps(2) [simp del]

lemma find_loop_mono:
  assumes fg: "\<And>ts fs. f ts = Some fs \<Longrightarrow> g ts = Some fs"
  shows "find_loop f roots ctx ts = Some fs \<Longrightarrow> find_loop g roots ctx ts = Some fs"
proof (induction "length ts" arbitrary: ts fs rule: less_induct)
  case less
  have act: "assess_find_action g roots p b = Some x"
    if "assess_find_action f roots p b = Some x" for p b x
    by (rule assess_find_action_mono [OF fg that])
  show ?case
  proof (cases ts)
    case (Cons t us)
    have later: "find_loop g roots ctx (drop k us) = Some gs"
      if "find_loop f roots ctx (drop k us) = Some gs" for k gs
      by (rule less.hyps [OF _ that]) (simp add: Cons)
    show ?thesis
      using less.prems later [of 0] later
      by (auto simp: Cons find_loop.simps(2) split: if_split_asm option.split_asm dest: act)
  qed (use less.prems in simp)
qed

lemma assess_program_mono:
  assumes "\<And>ts fs. f ts = Some fs \<Longrightarrow> g ts = Some fs" and "assess_program f ts ctx = Some fs"
  shows "assess_program g ts ctx = Some fs"
proof -
  have inner: "collect g xs = Some ys" if "collect f xs = Some ys" for xs ys
    by (rule collect_mono [OF assms(1) that])
  have "collect (\<lambda>t. collect g (split_segments (tok_text t))) xs = Some ys"
    if "collect (\<lambda>t. collect f (split_segments (tok_text t))) xs = Some ys" for xs ys
    by (rule collect_mono [OF inner that])
  then show ?thesis
    using assms(2) find_loop_mono [of f g "find_roots ts" ctx "tl ts" fs, OF assms(1)]
    by (auto simp: assess_program_def assess_find_def Let_def split: if_splits)
qed

lemma assess_segment_Suc:
  "assess_segment n ctx ts = Some fs \<Longrightarrow> assess_segment (Suc n) ctx ts = Some fs"
proof (induction n arbitrary: ts fs)
  case (Suc n)
  have "assess_program (assess_segment (Suc n) ctx) us ctx = Some gs"
    if "assess_program (assess_segment n ctx) us ctx = Some gs" for us gs
    by (rule assess_program_mono [OF Suc.IH that])
  then show ?case
    using Suc.prems by (auto split: unwrapping.splits)
qed simp

lemma assess_segment_fuel_mono:
  assumes "assess_segment n ctx ts = Some fs" and "n \<le> m"
  shows "assess_segment m ctx ts = Some fs"
  using assms(2,1) by (induction m rule: dec_induct) (auto simp del: assess_segment.simps intro: assess_segment_Suc)

lemma from_findings_Nil [simp]: "from_findings [] = assessment_safe"
  by (simp add: from_findings_def assessment_safe_def)

lemma assess_eq:
  "assess n c ctx =
     map_option (\<lambda>fs. from_findings (reassignment_findings c @ fs))
       (collect (assess_segment n ctx) (split_segments c))"
  by (cases "collect (assess_segment n ctx) (split_segments c)") (auto simp: assess_def Let_def)

lemma assess_fuel_mono:
  assumes "assess n c ctx = Some a" and "n \<le> m"
  shows "assess m c ctx = Some a"
proof -
  obtain fs where fs: "collect (assess_segment n ctx) (split_segments c) = Some fs"
    and a: "a = from_findings (reassignment_findings c @ fs)"
    using assms(1) by (auto simp: assess_eq)
  have "collect (assess_segment m ctx) (split_segments c) = Some fs"
    by (rule collect_mono [OF assess_segment_fuel_mono [OF _ assms(2)] fs])
  then show ?thesis by (simp add: assess_eq a)
qed

text \<open>
  Without a \<open>{\<close> in the command no \<open>find\<close> payload is rewritten, so every nested
  call reads strictly less text: a payload loses its \<open>find\<close>, a script is one argument
  of its shell.
\<close>

definition no_brace :: "token list \<Rightarrow> bool" where
  "no_brace ts = (CHR ''{'' \<notin> text_chars ts)"

lemma starts_with_set: "starts_with s p \<Longrightarrow> set p \<subseteq> set s"
  by (induction s p rule: starts_with.induct) auto

lemma contains_set: "contains s n \<Longrightarrow> set n \<subseteq> set s"
proof (induction s n rule: contains.induct)
  case (2 c s n)
  then show ?case using starts_with_set [of "c # s" n] by auto
qed simp

lemma no_brace_payload: "no_brace ts \<Longrightarrow> \<not> (\<exists>t \<in> set ts. contains (tok_text t) ''{}'')"
  using contains_set text_chars_member by (fastforce simp: no_brace_def)

lemma exec_payload_facts:
  "text_size (exec_payload ts) \<le> text_size ts" "set (exec_payload ts) \<subseteq> set ts"
  by (auto simp: exec_payload_def text_size_takeWhile dest: set_takeWhileD)

lemma no_brace_mono: "set us \<subseteq> set ts \<Longrightarrow> no_brace ts \<Longrightarrow> no_brace us"
  using text_chars_mono [of us ts] by (auto simp: no_brace_def)

lemma find_loop_total:
  assumes "\<And>us. no_brace us \<Longrightarrow> text_size us < n \<Longrightarrow> \<exists>fs. rec us = Some fs"
  shows "no_brace ts \<Longrightarrow> text_size ts < n \<Longrightarrow> \<exists>fs. find_loop rec roots ctx ts = Some fs"
proof (induction "length ts" arbitrary: ts rule: less_induct)
  case less
  show ?case
  proof (cases ts)
    case (Cons t us)
    have sub: "no_brace vs \<and> text_size vs < n" if "set vs \<subseteq> set us" "text_size vs \<le> text_size us" for vs
      using that less.prems no_brace_mono [of vs ts] by (auto simp: Cons)
    have later: "\<exists>fs. find_loop rec roots ctx (drop k us) = Some fs" for k
      using sub [of "drop k us"] text_size_suffix [of k us] set_drop_subset [of k us]
      by (intro less.hyps) (auto simp: Cons)
    let ?p = "exec_payload us"
    have p: "no_brace ?p" "text_size ?p < n"
      using sub [of ?p] exec_payload_facts [of us] by auto
    have act: "\<exists>fs. assess_find_action rec roots ?p b = Some fs" for b
      using assms [OF p] no_brace_payload [OF p(1)] by (auto simp: assess_find_action_def)
    obtain fs1 where fs1: "assess_find_action rec roots ?p (length ?p < length us) = Some fs1"
      using act by blast
    obtain g where g: "\<And>k. find_loop rec roots ctx (drop k us) = Some (g k)"
      using later by metis
    have "find_loop rec roots ctx us = Some (g 0)" using g [of 0] by simp
    then show ?thesis
      by (simp add: Cons find_loop.simps(2) fs1 g del: drop.simps drop_Suc)
  qed simp
qed

lemma assess_program_total:
  assumes "\<And>us. no_brace us \<Longrightarrow> text_size us < n \<Longrightarrow> \<exists>fs. rec us = Some fs"
    and "ts \<noteq> []" and "no_brace ts" and "text_size ts \<le> n"
  shows "\<exists>fs. assess_program rec ts ctx = Some fs"
proof (cases "basename (hd ts) = []")
  case True
  then show ?thesis
    by (simp add: assess_program_def SHELL_COMMANDS_def triggers_def DESTRUCTIVE_COMMANDS_def
        CONDITIONALLY_DESTRUCTIVE_def)
next
  case False
  obtain t us where ts: "ts = t # us" using assms(2) by (cases ts) auto
  have "set (basename t) \<subseteq> set (tok_text t)"
    by (auto simp: basename_def last_segment_def dest: set_takeWhileD)
  then have "tok_text t \<noteq> []" using False ts by auto
  then have size: "text_size us < n" using assms(4) ts by (cases "tok_text t") auto
  have nb: "no_brace us" using assms(3) no_brace_mono [of us ts] by (auto simp: ts)
  have "\<exists>fs. collect rec (split_segments (tok_text u)) = Some fs" if u: "u \<in> set us" for u
  proof (rule collect_total)
    fix seg assume seg: "seg \<in> set (split_segments (tok_text u))"
    have "text_size seg < n"
      using segment_size [OF seg] text_size_member [OF u] size by simp
    moreover have "no_brace seg"
      using segment_chars [OF seg] text_chars_member [OF u] nb by (auto simp: no_brace_def)
    ultimately show "\<exists>fs. rec seg = Some fs" using assms(1) by blast
  qed
  then have "\<exists>fs. collect (\<lambda>t. collect rec (split_segments (tok_text t)))
      (filter (\<lambda>t. \<not> is_flag t) us) = Some fs"
    by (rule collect_total) simp
  then show ?thesis
    using find_loop_total [of n rec us "find_roots ts" ctx, OF assms(1) nb size]
    by (auto simp: assess_program_def assess_find_def Let_def ts)
qed

lemma describes_or_unwraps:
  "unwrap w ts = Unwrapped us \<Longrightarrow> us \<noteq> [] \<and> (\<exists>k. us = drop k ts) \<and> basename (hd us) \<notin> set WRAPPER_COMMANDS"
proof (induction w ts rule: unwrap.induct)
  case (2 w t rest)
  have skipped: "\<exists>k. us = drop k ts" if "skip_wrapper_operands name ts = Some us" for name ts us
    using that
  proof (induction name ts rule: skip_wrapper_operands.induct)
    case (2 name t ts)
    have "\<exists>k. drop j ts = drop k (t # ts)" for j
      by (rule exI [of _ "Suc j"]) simp
    moreover have "tl ts = drop 1 ts" "ts = drop 0 ts" by (simp_all add: drop_Suc)
    ultimately show ?case
      using 2 by (auto split: if_splits) (metis drop_0 drop_Suc drop_drop drop_Suc_Cons)+
  qed simp
  show ?case
    using "2.prems" "2.IH" skipped [of "basename t" rest]
    by (auto split: if_splits option.splits simp: drop_drop intro: exI [of _ 0])
      (metis drop_0 drop_Suc_Cons drop_drop)+
qed simp

lemma strip_control_prefixes_drop: "\<exists>k. strip_control_prefixes ts = drop k ts"
proof (induction ts rule: strip_control_prefixes.induct)
  case (1 t u ts)
  then show ?case by (auto intro: exI [of _ 0]) (metis drop_Suc_Cons)
qed (auto intro: exI [of _ 0])

lemma assess_segment_total:
  "no_brace ts \<Longrightarrow> text_size ts < n \<Longrightarrow> \<exists>fs. assess_segment n ctx ts = Some fs"
proof (induction n arbitrary: ts)
  case (Suc n)
  show ?case
  proof (cases "unwrap None (strip_control_prefixes ts)")
    case (Unwrapped us)
    then obtain k where us: "us \<noteq> []" "us = drop k ts"
      using describes_or_unwraps [OF Unwrapped] strip_control_prefixes_drop [of ts]
      by (metis drop_drop)
    have "no_brace us" "text_size us \<le> n"
      using Suc.prems us(2) no_brace_mono [of us ts] set_drop_subset [of k ts]
        text_size_suffix [of k ts] by auto
    then have "\<exists>fs. assess_program (assess_segment n ctx) us ctx = Some fs"
      by (intro assess_program_total [of n] Suc.IH us(1)) auto
    then show ?thesis by (auto simp: Unwrapped)
  qed simp
qed simp

lemma assess_total:
  assumes "CHR ''{'' \<notin> set c" and "length c < n"
  shows "\<exists>a. assess n c ctx = Some a"
proof -
  have "\<exists>fs. assess_segment n ctx seg = Some fs" if seg: "seg \<in> set (split_segments c)" for seg
  proof (rule assess_segment_total)
    show "no_brace seg" using segment_chars [OF seg] assms(1) by (auto simp: no_brace_def)
    show "text_size seg < n" using segment_size [OF seg] assms(2) by simp
  qed
  then obtain fs where "collect (assess_segment n ctx) (split_segments c) = Some fs"
    using collect_total [of "split_segments c" "assess_segment n ctx"] by blast
  then show ?thesis by (simp add: assess_eq)
qed

section \<open>Chains of commands\<close>

lemma contains_prefix_sep:
  "n \<noteq> [] \<Longrightarrow> set sep \<inter> set n = {} \<Longrightarrow> contains (sep @ b) n = contains b n"
  by (induction sep) (auto simp: contains_iff sublist_Cons_right prefix_Cons)

text \<open>A needle without the separator's characters is not split by it.\<close>

lemma contains_sep:
  assumes "n \<noteq> []" and "sep \<noteq> []" and "set sep \<inter> set n = {}"
  shows "contains (a @ sep @ b) n \<longleftrightarrow> contains a n \<or> contains b n"
proof -
  have "u = [] \<or> v = []" if "n = u @ v" "prefix v (sep @ b)" for u v
    using that assms(2,3) by (cases sep; cases v) auto
  moreover have "sublist n (a @ sep @ b) \<longleftrightarrow> sublist n a \<or> sublist n (sep @ b)
      \<or> (\<exists>u v. n = u @ v \<and> suffix u a \<and> prefix v (sep @ b))"
    by (rule sublist_append)
  ultimately show ?thesis
    using contains_prefix_sep [OF assms(1,3), of b] unfolding contains_iff
    by (metis append_Nil append_Nil2 prefix_imp_sublist suffix_imp_sublist)
qed

lemma sequencer_chars: "sep \<in> set sequencers \<Longrightarrow> sep \<noteq> [] \<and> set sep \<subseteq> {CHR '';'', NL, CHR '' '', CHR ''&'', CHR ''|''}"
  by (auto simp: sequencers_def)

lemma reassignment_chain:
  assumes "sep \<in> set sequencers"
  shows "max_level (reassignment_findings (a @ sep @ b)) =
           max (max_level (reassignment_findings a)) (max_level (reassignment_findings b))"
proof -
  have "contains (a @ sep @ b) n \<longleftrightarrow> contains a n \<or> contains b n"
    if "n = ''HOME='' \<or> n = ''KCODE_SCRATCH_DIR=''" for n
  proof (rule contains_sep)
    show "set sep \<inter> set n = {}" using sequencer_chars [OF assms] that by auto
  qed (use sequencer_chars [OF assms] that in auto)
  then show ?thesis
    by (simp add: reassignment_findings_def confirm_finding_def max_def)
qed

lemma assess_chain:
  assumes "\<forall>w \<in> set ws. word_ok w" "ws \<noteq> []" "sep \<in> set sequencers" "CHR ''<'' \<notin> set c"
  shows "collect (assess_segment n ctx) (split_segments (shell_line ws @ sep @ c)) =
     (case collect (assess_segment n ctx) (split_segments (shell_line ws)) of
        None \<Rightarrow> None
      | Some fs \<Rightarrow> map_option (\<lambda>gs. fs @ gs) (collect (assess_segment n ctx) (split_segments c)))"
  using segments_chain [OF assms]
  by (simp add: collect_append split: option.split)

section \<open>Wrappers in front of a program\<close>

text \<open>
  The operands a wrapper may take before the command it runs, as the unwrapping loop
  understands them, and a prefix of wrappers.
\<close>

inductive wrapper_operands :: "rstr \<Rightarrow> rstr list \<Rightarrow> bool" for name where
  no_operand: "wrapper_operands name []"
| assignment: "wrapper_operands name ops \<Longrightarrow> \<not> is_split_string_option (token_word w)
    \<Longrightarrow> CHR ''='' \<in> set w \<Longrightarrow> wrapper_operands name (w # ops)"
| option: "wrapper_operands name ops \<Longrightarrow> \<not> is_split_string_option (token_word w)
    \<Longrightarrow> CHR ''='' \<notin> set w \<Longrightarrow> is_flag (token_word w) \<Longrightarrow> \<not> wrapper_flag_takes_value name w
    \<Longrightarrow> wrapper_operands name (w # ops)"
| option_value: "wrapper_operands name ops \<Longrightarrow> \<not> is_split_string_option (token_word w)
    \<Longrightarrow> CHR ''='' \<notin> set w \<Longrightarrow> is_flag (token_word w) \<Longrightarrow> wrapper_flag_takes_value name w
    \<Longrightarrow> wrapper_operands name (w # v # ops)"
| number: "wrapper_operands name ops \<Longrightarrow> \<not> is_split_string_option (token_word w)
    \<Longrightarrow> \<not> is_flag (token_word w) \<Longrightarrow> list_all (\<lambda>c. is_ascii_digit c \<or> c = CHR ''.'') w
    \<Longrightarrow> wrapper_operands name (w # ops)"

text \<open>A word that is read as a program: no option, no assignment, no number.\<close>

definition program_word :: "rstr \<Rightarrow> bool" where
  "program_word w =
     (\<not> is_flag (token_word w) \<and> \<not> is_split_string_option (token_word w)
      \<and> CHR ''='' \<notin> set w \<and> \<not> list_all (\<lambda>c. is_ascii_digit c \<or> c = CHR ''.'') w)"

inductive wrapper_prefix :: "rstr list \<Rightarrow> bool" where
  unwrapped: "wrapper_prefix []"
| wrapped: "program_word w \<Longrightarrow> basename (token_word w) \<in> set WRAPPER_COMMANDS
    \<Longrightarrow> basename (token_word w) = ''command'' \<Longrightarrow> ops = [] \<Longrightarrow> wrapper_prefix ws
    \<Longrightarrow> wrapper_prefix (w # ops @ ws)"
| wrapped_operands: "program_word w \<Longrightarrow> basename (token_word w) \<in> set WRAPPER_COMMANDS
    \<Longrightarrow> basename (token_word w) \<noteq> ''command''
    \<Longrightarrow> wrapper_operands (basename (token_word w)) ops \<Longrightarrow> wrapper_prefix ws
    \<Longrightarrow> wrapper_prefix (w # ops @ ws)"

lemma skip_wrapper_operands_prefix:
  assumes "wrapper_operands name ops" and "program_word p"
  shows "skip_wrapper_operands name (map token_word ops @ token_word p # ts) =
           Some (token_word p # ts)"
  using assms(1)
proof induction
  case no_operand
  then show ?case using assms(2) by (simp add: program_word_def)
qed (simp_all)

lemma unwrap_prefix:
  assumes "wrapper_prefix ws" and "program_word p" and "basename (token_word p) \<notin> set WRAPPER_COMMANDS"
  shows "unwrap w0 (map token_word ws @ token_word p # ts) = Unwrapped (token_word p # ts)"
  using assms(1)
proof (induction arbitrary: w0)
  case unwrapped
  then show ?case using assms(3) by simp
next
  case (wrapped w ops ws)
  obtain q us where q: "map token_word ws @ token_word p # ts = token_word q # us" "program_word q"
    using wrapped.hyps(5) assms(2) by (cases rule: wrapper_prefix.cases) auto
  have "\<not> describes_names (token_word q # us)"
    using q(2) by (simp add: describes_names_def program_word_def)
  moreover have "skip_wrapper_operands ''command'' (token_word q # us) = Some (token_word q # us)"
    using skip_wrapper_operands_prefix [OF no_operand q(2), of "''command''" us] by simp
  ultimately show ?case
    using wrapped by (simp add: q(1) [symmetric])
next
  case (wrapped_operands w ops ws)
  obtain q us where q: "map token_word ws @ token_word p # ts = token_word q # us" "program_word q"
    using wrapped_operands.hyps(5) assms(2) by (cases rule: wrapper_prefix.cases) auto
  show ?case
    using wrapped_operands skip_wrapper_operands_prefix [OF wrapped_operands.hyps(4) q(2), of us]
    by (simp add: q(1) [symmetric])
qed

section \<open>A destructive program with a protected target\<close>

lemma program_word_basename:
  assumes "basename (token_word p) = b" and "c \<in> set b" and "\<not> is_ascii_digit c" and "c \<noteq> CHR ''.''"
  shows "\<not> list_all (\<lambda>c. is_ascii_digit c \<or> c = CHR ''.'') p"
proof -
  have "set b \<subseteq> set p"
    using assms(1) set_takeWhileD [of _ _ "rev p"] by (auto simp: basename_def last_segment_def)
  then show ?thesis using assms(2-) by (auto simp: list_all_iff)
qed

lemma destructive_not_special:
  assumes "b \<in> set DESTRUCTIVE_COMMANDS"
  shows "b \<noteq> ''find''" "b \<notin> set SHELL_COMMANDS" "b \<notin> set WRAPPER_COMMANDS"
  using assms by (auto simp: DESTRUCTIVE_COMMANDS_def SHELL_COMMANDS_def WRAPPER_COMMANDS_def)

lemma assess_redirects_words [simp]: "assess_redirects (map token_word ws) ctx = []"
  by (simp add: assess_redirects_def filter_empty_conv)

lemma strip_control_prefixes_id:
  "tok_text t \<notin> set SHELL_CONTROL_PREFIXES \<Longrightarrow> strip_control_prefixes (t # ts) = t # ts"
  by (cases ts) auto

lemma wrapper_not_control: 
  assumes "basename t \<in> set WRAPPER_COMMANDS \<union> set DESTRUCTIVE_COMMANDS"
  shows "tok_text t \<notin> set SHELL_CONTROL_PREFIXES"
proof
  assume "tok_text t \<in> set SHELL_CONTROL_PREFIXES"
  then have "basename t \<in> set SHELL_CONTROL_PREFIXES"
    by (auto simp: SHELL_CONTROL_PREFIXES_def basename_def last_segment_def)
  then show False
    using assms
    by (auto simp: SHELL_CONTROL_PREFIXES_def WRAPPER_COMMANDS_def DESTRUCTIVE_COMMANDS_def)
qed

lemma classify_catastrophic:
  assumes "\<not> has_glob raw" and "is_catastrophic_target (expand raw ctx) ctx"
  shows "\<exists>f \<in> set (classify_operand raw recursive ctx). level f = Catastrophic"
  using assms by (simp add: classify_operand_def classify_target_def)

lemma assess_destructive_catastrophic:
  assumes "a \<in> set args" and "\<not> is_flag (token_word a)" and "\<not> has_glob (operand_path a)"
    and "is_catastrophic_target (expand (operand_path a) ctx) ctx"
  shows "max_level (assess_destructive program (t # map token_word args) ctx) = Catastrophic"
proof -
  have target: "token_word a \<in> set (filter is_target (map token_word args))"
    using assms(1,2) by (auto simp: is_target_def)
  then have ne: "filter is_target (map token_word args) \<noteq> []" by force
  define rec where "rec = (\<exists>t \<in> set (t # map token_word args). is_recursive_flag t)"
  obtain f where f: "f \<in> set (classify_operand (operand_path a) rec ctx)" "level f = Catastrophic"
    using classify_catastrophic [OF assms(3,4)] by blast
  have "f \<in> set (assess_destructive program (t # map token_word args) ctx)"
    using f(1) target ne unfolding assess_destructive_def Let_def rec_def [symmetric] by auto
  then show ?thesis using f(2) by (auto simp: max_level_Catastrophic)
qed

lemma assess_segment_catastrophic:
  assumes pre: "wrapper_prefix pre" and prog: "program_word p" "basename (token_word p) \<in> set DESTRUCTIVE_COMMANDS"
    and target: "a \<in> set args" "\<not> is_flag (token_word a)" "\<not> has_glob (operand_path a)"
      "is_catastrophic_target (expand (operand_path a) ctx) ctx"
  shows "\<exists>fs. assess_segment (Suc n) ctx (map token_word (pre @ p # args)) = Some fs
           \<and> max_level fs = Catastrophic"
proof -
  let ?ts = "map token_word (pre @ p # args)"
  obtain q us where q: "pre @ p # args = q # us"
    "basename (token_word q) \<in> set WRAPPER_COMMANDS \<union> set DESTRUCTIVE_COMMANDS"
    using pre prog(2) by (cases rule: wrapper_prefix.cases) auto
  have "strip_control_prefixes ?ts = ?ts"
    using wrapper_not_control [OF q(2)] by (simp add: q(1) strip_control_prefixes_id)
  moreover have "unwrap None ?ts = Unwrapped (map token_word (p # args))"
    using unwrap_prefix [OF pre prog(1) destructive_not_special(3) [OF prog(2)]] by simp
  ultimately have "assess_segment (Suc n) ctx ?ts =
      Some (assess_destructive (basename (token_word p)) (map token_word (p # args)) ctx)"
    using destructive_not_special [OF prog(2)] prog(2) assess_redirects_words [of "pre @ p # args" ctx]
    by (simp add: assess_program_def triggers_def Let_def del: assess_redirects_words)
  then show ?thesis
    using assess_destructive_catastrophic [OF target]
    by (simp del: assess_segment.simps)
qed

section \<open>The gate\<close>

lemma overall_from_findings [simp]: "overall (from_findings fs) = max_level fs"
  by (simp add: from_findings_def)

lemma gate_outcomes:
  "gate a j = Allow \<longleftrightarrow> overall a \<le> Low \<or> overall a = Confirm \<and> is_substantive j"
  "(\<exists>r. gate a j = Deny r) \<longleftrightarrow> overall a = Catastrophic"
  "(\<exists>r. gate a j = Reflect r) \<longleftrightarrow> overall a = Confirm \<and> \<not> is_substantive j"
  by (cases "overall a"; simp add: gate_def less_eq_risk_level_def)+

definition tool_context :: "rstr option \<Rightarrow> rstr option \<Rightarrow> rstr option \<Rightarrow> rstr option \<Rightarrow> risk_context" where
  "tool_context cwd home_var scratch_var tool_scratch =
     (context_from_env cwd home_var scratch_var)\<lparr>scratch_dir := tool_scratch\<rparr>"

lemma tool_context_fields [simp]:
  "working_dir (tool_context cwd h s t) = cwd"
  "home_dir (tool_context cwd h s t) = nonempty_var h"
  "scratch_dir (tool_context cwd h s t) = t"
  by (simp_all add: tool_context_def context_from_env_def)

lemma refusal_eq:
  "destructive_command_refusal n c j cwd h s t =
     map_option (\<lambda>a. case gate a j of Allow \<Rightarrow> None | Deny r \<Rightarrow> Some r | Reflect p \<Rightarrow> Some p)
       (assess n c (tool_context cwd h s t))"
proof (cases "assess n c (tool_context cwd h s t)")
  case (Some a)
  have "gate a j = Allow" if "runs_immediately (overall a)"
    using that by (simp add: runs_immediately_iff_le gate_outcomes(1))
  then show ?thesis
    using Some by (auto simp: destructive_command_refusal_def tool_context_def split: gate_outcome.split)
qed (simp add: destructive_command_refusal_def tool_context_def)

end
