(* ===== verification/Risk_Properties.thy ===== *)
theory Risk_Properties
  imports Risk_Facts
begin

text \<open>
  The properties of the destructive-command gate. The commands they speak of are lists of
  quoted words (theory of lexing); the context is what the \<open>bash\<close> tool builds from its
  environment.
\<close>

section \<open>What is refused\<close>



lemma expand_home:
  assumes "home_dir ctx = Some h" and "is_absolute h" and "\<not> has_substitution (h @ rest)"
    and "sp \<in> {''~'', ''$HOME'', ''${HOME}''}" and "rest = [] \<or> starts_with rest ''/''"
  shows "expand (sp @ rest) ctx = normalize (h @ rest)"
proof -
  have prefix: "strip_prefix (a @ b) a = Some b" for a b :: rstr
    by (simp add: strip_prefix_def starts_with_iff)
  have abs: "is_absolute (h @ rest)" using assms(2) by (cases h) (auto simp: is_absolute_def)
  have "expand_known_prefix (sp @ rest) ctx = h @ rest"
  proof (cases "sp = ''~''")
    case True
    then have "expand_variables (sp @ rest) n v = None" for n v
      by (auto simp: expand_variables_def expand_variable_def strip_prefix_def split: option.split)
    then show ?thesis
      using assms(1,5) True
      by (cases rest) (auto simp: expand_known_prefix_def expand_tilde_def strip_prefix_def)
  next
    case False
    then have sp: "sp = ''$HOME'' \<or> sp = ''${HOME}''" using assms(4) by simp
    then show ?thesis
    proof
      assume "sp = ''$HOME''"
      then show ?thesis
        using assms(1,5) prefix [of "''$HOME''" rest]
        by (simp add: expand_known_prefix_def expand_variables_def expand_variable_def)
    next
      assume "sp = ''${HOME}''"
      then show ?thesis
        using assms(1,5) prefix [of "''${HOME}''" rest]
        by (simp add: expand_known_prefix_def expand_variables_def expand_variable_def strip_prefix_def)
    qed
  qed
  then show ?thesis using assms(3) abs by (simp add: expand_def)
qed

text \<open>
  However the home directory is spelled (\<open>~\<close>, \<open>$HOME\<close>, \<open>${HOME}\<close>,
  each with anything below it), the target's verdict is that of the absolute path the spelling
  stands for, so the spelling cannot lower it; the home directory itself is always
  protected.
\<close>

theorem home_spelling_verdict:
  assumes "home_dir ctx = Some h" and "is_absolute h" and "\<not> has_substitution (h @ rest)"
    and "sp \<in> {''~'', ''$HOME'', ''${HOME}''}" and "rest = [] \<or> starts_with rest ''/''"
  shows "is_catastrophic_target (expand (sp @ rest) ctx) ctx = protected_canon ctx (canon (h @ rest))
         \<and> (canon (h @ rest) = canon h \<longrightarrow> is_catastrophic_target (expand (sp @ rest) ctx) ctx)"
  using assms(1)
  by (simp add: expand_home [OF assms] catastrophic_canon protected_canon_def under_home_def)

theorem home_spelling_verdict_witness:
  "is_catastrophic_target
     (expand (''~'' @ ''/.ssh/../x/..'') \<lparr>working_dir = None, home_dir = Some ''/home/u'', scratch_dir = None\<rparr>)
     \<lparr>working_dir = None, home_dir = Some ''/home/u'', scratch_dir = None\<rparr>"
proof (rule mp)
  let ?ctx = "\<lparr>working_dir = None, home_dir = Some ''/home/u'', scratch_dir = None\<rparr>"
  show "canon (''/home/u'' @ ''/.ssh/../x/..'') = canon ''/home/u'' \<longrightarrow>
      is_catastrophic_target (expand (''~'' @ ''/.ssh/../x/..'') ?ctx) ?ctx"
    by (rule home_spelling_verdict [where h = "''/home/u''", THEN conjunct2]) code_simp+
  show "canon (''/home/u'' @ ''/.ssh/../x/..'') = canon ''/home/u''" by code_simp
qed

section \<open>Protected paths\<close>

text \<open>
  The string code that recognises protected paths implements the abstract specification
  on canonical paths: listed system roots, everything below a protected system tree, the home
  directory, everything below a credential directory of the home, and the listed directories
  of the home itself, for every path and every context.
\<close>

theorem catastrophic_target_spec: "is_catastrophic_target p ctx = protected_canon ctx (canon p)"
  by (rule catastrophic_canon)

text \<open>
  Respelling a path with a doubled separator, a \<open>.\<close> component, or a detour through a
  sibling and back (\<open>x/..\<close>) never changes whether it is protected, and normalizing twice is
  normalizing once.
\<close>

theorem respelling_invariant:
  assumes "clean_name x"
  shows "is_catastrophic_target (a @ ''//'' @ b) ctx = is_catastrophic_target (a @ ''/'' @ b) ctx
         \<and> is_catastrophic_target (a @ ''/./'' @ b) ctx = is_catastrophic_target (a @ ''/'' @ b) ctx
         \<and> is_catastrophic_target (a @ ''/'' @ x @ ''/../'' @ b) ctx = is_catastrophic_target (a @ ''/'' @ b) ctx
         \<and> normalize (normalize p) = normalize p"
  by (simp only: catastrophic_canon canon_double_slash canon_dot canon_dotdot [OF assms]
      normalize_idem simp_thms)

theorem respelling_invariant_witness:
  "is_catastrophic_target (''/usr'' @ ''/'' @ ''local'' @ ''/../'' @ ''lib'') ctx
   = is_catastrophic_target (''/usr'' @ ''/'' @ ''lib'') ctx"
  using respelling_invariant [of "''local''" "''/usr''" "''lib''" ctx] by (simp add: clean_name_def)

lemma canon_names_append:
  assumes "\<forall>n \<in> set ms. clean_name n" and "ms \<noteq> []"
  shows "canon (p @ ''/'' @ join ''/'' ms) =
           (if p = [] then (True, ms) else (fst (names_of (is_absolute p) p), snd (names_of (is_absolute p) p) @ ms))"
proof -
  have parts: "split_on (CHR ''/'') (join ''/'' ms) = ms"
    by (rule split_on_join [OF assms(2)]) (use assms(1) in \<open>auto simp: clean_name_def\<close>)
  have "names_of r (p @ ''/'' @ join ''/'' ms) = (fst (names_of r p), snd (names_of r p) @ ms)" for r
    using names_of_append [of r p "join ''/'' ms"] concat_part_component_clean [OF assms(1)]
      foldl_normalize_Normal [of "fst (names_of r p)" "snd (names_of r p)" ms]
    by (simp add: parts)
  moreover have "names_of True [] = (True, [])" by (simp add: names_of_def part_component_def)
  ultimately show ?thesis
    using assms(2) by (auto simp: canon_def is_absolute_append Let_def case_prod_beta)
qed

text \<open>
  Protection of a system tree or of a credential directory extends to everything below
  it: no descendant, at any depth, is classified as an ordinary path.
\<close>

theorem protected_descendants:
  assumes "d \<in> set system_trees \<and> b = (True, d)
           \<or> d \<in> set credential_dirs \<and> home_dir ctx = Some h \<and> b = (fst (canon h), snd (canon h) @ d)"
    and "canon p = (fst b, snd b @ below)"
  shows "is_catastrophic_target p ctx"
proof (cases "d \<in> set system_trees \<and> b = (True, d)")
  case True
  then have "\<exists>d \<in> set system_trees. prefix d (snd (canon p))"
    using assms(2) by (intro bexI [of _ d]) auto
  then show ?thesis using True assms(2) by (simp add: catastrophic_canon protected_canon_def)
next
  case False
  then have "d \<in> set credential_dirs" "home_dir ctx = Some h" "fst (canon p) = fst (canon h)"
    "prefix (snd (canon h) @ d) (snd (canon p))"
    using assms by auto
  then show ?thesis by (auto simp: catastrophic_canon protected_canon_def under_home_def)
qed

theorem protected_descendants_witness:
  "is_catastrophic_target ''/home/u/.aws/cli/cache''
     \<lparr>working_dir = None, home_dir = Some ''/home/u'', scratch_dir = None\<rparr>"
proof (rule protected_descendants [where d = "[''.aws'']" and h = "''/home/u''" and below = "[''cli'', ''cache'']"])
  show "canon ''/home/u/.aws/cli/cache'' = (fst (fst (canon ''/home/u''), snd (canon ''/home/u'') @ [''.aws'']),
      snd (fst (canon ''/home/u''), snd (canon ''/home/u'') @ [''.aws'']) @ [''cli'', ''cache''])"
    by code_simp
qed (simp add: credential_dirs_def)

section \<open>What runs, and what must be justified\<close>

text \<open>An operand the assessor can bound: it is fully known, not protected and not a device.\<close>

definition bounded_operand :: "risk_context \<Rightarrow> rstr \<Rightarrow> bool" where
  "bounded_operand ctx w =
     (let raw = operand_path w; e = expand raw ctx
      in \<not> has_glob raw \<and> \<not> has_substitution (expand_known_prefix raw ctx)
         \<and> \<not> is_catastrophic_target e ctx \<and> \<not> path_starts_with e ''/dev'')"

lemma classify_bounded:
  "bounded_operand ctx w \<Longrightarrow> max_level (classify_operand (operand_path w) recursive ctx) \<le> Low"
  by (auto simp: bounded_operand_def classify_operand_def classify_target_def Let_def
      max_def split: option.splits if_splits)

lemma max_level_concat: "max_level (concat fss) \<le> l \<longleftrightarrow> (\<forall>fs \<in> set fss. max_level fs \<le> l)"
  by (induction fss) auto

lemma assess_destructive_bounded:
  assumes "\<exists>a \<in> set args. \<not> is_flag (token_word a)"
    and "\<forall>a \<in> set args. is_flag (token_word a) \<or> bounded_operand ctx a"
  shows "max_level (assess_destructive program (token_word p # map token_word args) ctx) \<le> Low"
proof -
  have "filter is_target (map token_word args) \<noteq> []"
    using assms(1) by (auto simp: filter_empty_conv is_target_def)
  moreover have "max_level (classify_operand (operand_path a) r ctx) \<le> Low"
    if "a \<in> set args" "\<not> is_flag (token_word a)" for a r
    using assms(2) that classify_bounded by blast
  ultimately show ?thesis
    by (auto simp: assess_destructive_def Let_def max_level_concat is_target_def)
qed

text \<open>
  Ordinary deletions run at once, without a justification: a destructive program whose
  operands are all known, unprotected and not devices is never held back, unless the line
  reassigns \<open>HOME\<close> or the scratch variable. So the gate's refusals are not bought with
  refusals of everything.
\<close>

theorem bounded_delete_runs:
  assumes "\<forall>w \<in> set ws. word_ok w" and "map word_text ws = p # args"
    and "basename (token_word p) \<in> set DESTRUCTIVE_COMMANDS"
    and "\<exists>a \<in> set args. \<not> is_flag (token_word a)"
    and "\<forall>a \<in> set args. is_flag (token_word a) \<or> bounded_operand (tool_context cwd h s t) a"
    and "\<not> contains (shell_line ws) ''HOME=''" and "\<not> contains (shell_line ws) ''KCODE_SCRATCH_DIR=''"
  shows "destructive_command_refusal (Suc n) (shell_line ws) j cwd h s t = Some None"
proof -
  let ?ctx = "tool_context cwd h s t"
  have ws: "ws \<noteq> []" using assms(2) by auto
  have line: "map (token_word \<circ> word_text) ws = token_word p # map token_word args"
    using assms(2) by (simp flip: map_map)
  have "strip_control_prefixes (token_word p # map token_word args) = token_word p # map token_word args"
    using wrapper_not_control [of "token_word p"] assms(3) by (simp add: strip_control_prefixes_id)
  then have "assess_segment (Suc n) ?ctx (token_word p # map token_word args) =
      Some (assess_destructive (basename (token_word p)) (token_word p # map token_word args) ?ctx)"
    using destructive_not_special [OF assms(3)] assms(3) assess_redirects_words [of "p # args" ?ctx]
    by (simp add: assess_program_def triggers_def Let_def del: assess_redirects_words)
  then obtain a where "assess (Suc n) (shell_line ws) ?ctx = Some a" "overall a \<le> Low"
    using segments_words [OF assms(1) ws] assess_destructive_bounded [OF assms(4,5)] assms(6,7)
    by (simp add: assess_eq line reassignment_findings_def del: assess_segment.simps)
  then show ?thesis using gate_outcomes(1) [of a j] by (simp add: refusal_eq)
qed

theorem bounded_delete_runs_witness:
  "destructive_command_refusal 1 (shell_line [[(Bare, ''rm'')], [(Bare, ''-rf'')], [(Single, ''target'')], [(Bare, ''/tmp/out'')]])
     None (Some ''/home/u/p'') (Some ''/home/u'') None None = Some None"
  unfolding One_nat_def
  by (rule bounded_delete_runs [where p = "''rm''" and args = "[''-rf'', ''target'', ''/tmp/out'']"]) code_simp+

text \<open>
  A destructive program one of whose operands is only known at run time (an unexpanded variable or a
  command substitution), or that has no operand at all, is never run without a substantive
  justification.
\<close>

theorem unresolved_delete_is_held:
  assumes "\<forall>w \<in> set ws. word_ok w" and "map word_text ws = p # args"
    and "basename (token_word p) \<in> set DESTRUCTIVE_COMMANDS"
    and "(\<forall>a \<in> set args. is_flag (token_word a))
         \<or> (\<exists>a \<in> set args. \<not> is_flag (token_word a)
              \<and> has_substitution (expand_known_prefix (operand_path a) (tool_context cwd h s t)))"
    and "\<not> is_substantive j"
  shows "\<exists>r. destructive_command_refusal (Suc n) (shell_line ws) j cwd h s t = Some (Some r)"
proof -
  let ?ctx = "tool_context cwd h s t"
  let ?ts = "token_word p # map token_word args"
  let ?fs = "assess_destructive (basename (token_word p)) ?ts ?ctx"
  have ws: "ws \<noteq> []" using assms(2) by auto
  have line: "map (token_word \<circ> word_text) ws = ?ts"
    using assms(2) by (simp flip: map_map)
  have "strip_control_prefixes ?ts = ?ts"
    using wrapper_not_control [of "token_word p"] assms(3) by (simp add: strip_control_prefixes_id)
  then have seg: "assess_segment (Suc n) ?ctx ?ts = Some ?fs"
    using destructive_not_special [OF assms(3)] assms(3) assess_redirects_words [of "p # args" ?ctx]
    by (simp add: assess_program_def triggers_def Let_def del: assess_redirects_words)
  have "\<exists>f \<in> set ?fs. Confirm \<le> level f"
  proof (cases "\<forall>a \<in> set args. is_flag (token_word a)")
    case True
    then have "filter is_target (map token_word args) = []" by (auto simp: filter_empty_conv is_target_def)
    then show ?thesis by (simp add: assess_destructive_def confirm_finding_def)
  next
    case False
    then obtain a where a: "a \<in> set args" "\<not> is_flag (token_word a)"
      "has_substitution (expand_known_prefix (operand_path a) ?ctx)"
      using assms(4) by blast
    then have target: "token_word a \<in> set (filter is_target (map token_word args))"
      by (auto simp: is_target_def)
    then have ne: "filter is_target (map token_word args) \<noteq> []" by force
    have "\<exists>f \<in> set (classify_operand (operand_path a) r ?ctx). Confirm \<le> level f" for r
      using a(3) by (simp add: classify_operand_def classify_target_def less_eq_risk_level_def)
    then show ?thesis
      using target ne unfolding assess_destructive_def Let_def by fastforce
  qed
  then have "Confirm \<le> max_level ?fs"
    using max_level_ge order_trans by blast
  then obtain a where a: "assess (Suc n) (shell_line ws) ?ctx = Some a" "Confirm \<le> overall a"
    using segments_words [OF assms(1) ws] seg
    by (simp add: assess_eq line le_max_iff_disj del: assess_segment.simps)
  then show ?thesis
    using assms(5) by (cases "overall a") (auto simp: refusal_eq gate_def less_eq_risk_level_def)
qed

theorem unresolved_delete_is_held_witness:
  "\<exists>r. destructive_command_refusal 1 (shell_line [[(Bare, ''rm'')], [(Bare, ''-r'')], [(Double, ''$OUT''), (Bare, ''/x'')]])
     (Some ''yes'') (Some ''/home/u/p'') (Some ''/home/u'') None None = Some (Some r)"
  unfolding One_nat_def
  by (rule unresolved_delete_is_held [where p = "''rm''" and args = "[''-r'', ''$OUT/x'']"]) code_simp+

section \<open>Chains, quoting, totality\<close>

text \<open>
  A chain is as dangerous as its most dangerous member: appending a command with
  \<open>;\<close>, a newline, \<open>&&\<close> or \<open>||\<close> to a line of quoted words makes the
  overall level the maximum of the two, whatever the appended text is (heredocs apart).
\<close>

theorem chain_level:
  assumes "\<forall>w \<in> set ws. word_ok w" and "ws \<noteq> []" and "sep \<in> set sequencers"
    and "CHR ''<'' \<notin> set c" and "assess n (shell_line ws) ctx = Some a" and "assess n c ctx = Some b"
  shows "\<exists>r. assess n (shell_line ws @ sep @ c) ctx = Some r \<and> overall r = max (overall a) (overall b)"
proof -
  obtain fs gs where "collect (assess_segment n ctx) (split_segments (shell_line ws)) = Some fs"
    "collect (assess_segment n ctx) (split_segments c) = Some gs"
    "overall a = max (max_level (reassignment_findings (shell_line ws))) (max_level fs)"
    "overall b = max (max_level (reassignment_findings c)) (max_level gs)"
    using assms(5,6) by (auto simp: assess_eq)
  then show ?thesis
    using assess_chain [OF assms(1-4), of n ctx] reassignment_chain [OF assms(3)]
    by (simp add: assess_eq max.assoc max.left_commute)
qed

theorem chain_level_witness:
  "\<exists>r. assess 1 (shell_line [[(Bare, ''echo'')], [(Single, ''a; b'')]] @ '' && '' @ ''rm -rf /etc'')
     \<lparr>working_dir = None, home_dir = None, scratch_dir = None\<rparr> = Some r \<and> overall r = Catastrophic"
proof -
  let ?ctx = "\<lparr>working_dir = None, home_dir = None, scratch_dir = None\<rparr>"
  have "\<exists>r. assess 1 (shell_line [[(Bare, ''echo'')], [(Single, ''a; b'')]] @ '' && '' @ ''rm -rf /etc'') ?ctx = Some r
      \<and> overall r = max (overall (the (assess 1 (shell_line [[(Bare, ''echo'')], [(Single, ''a; b'')]]) ?ctx)))
          (overall (the (assess 1 ''rm -rf /etc'' ?ctx)))"
    by (rule chain_level) code_simp+
  moreover have "max (overall (the (assess 1 (shell_line [[(Bare, ''echo'')], [(Single, ''a; b'')]]) ?ctx)))
      (overall (the (assess 1 ''rm -rf /etc'' ?ctx))) = Catastrophic"
    by code_simp
  ultimately show ?thesis by (simp only:)
qed

text \<open>
  Quoting is transparent: a line of words, each written in any mixture of bare,
  single-quoted, double-quoted and backslash-escaped fragments, yields exactly one segment
  whose tokens are the words' texts, so two spellings of the same words are assessed
  alike.
\<close>

theorem quoting_transparent:
  assumes "\<forall>w \<in> set ws. word_ok w" and "\<forall>v \<in> set vs. word_ok v" and "map word_text ws = map word_text vs"
  shows "tokenize (shell_line ws) = map (token_word \<circ> word_text) ws
         \<and> split_segments (shell_line ws) = split_segments (shell_line vs)"
proof -
  have "map (token_word \<circ> word_text) ws = map (token_word \<circ> word_text) vs"
    using assms(3) by (simp flip: map_map)
  then show ?thesis
    by (simp add: tokenize_words assms(1,2) split_segments_def)
qed

theorem quoting_transparent_witness:
  "split_segments (shell_line [[(Single, ''rm'')], [(Double, ''-rf'')], [(Escaped, ''~'')]])
   = split_segments (shell_line [[(Bare, ''r''), (Escaped, ''m'')], [(Bare, ''-rf'')], [(Bare, ''~'')]])"
  by (rule quoting_transparent [THEN conjunct2]) code_simp+

text \<open>
  The assessment always returns: without a \<open>{\<close> in the command (the only character
  a \<open>find\<close> payload is rewritten at) fuel above the command's length is enough, and more
  fuel never changes the result.
\<close>

theorem assess_returns:
  assumes "CHR ''{'' \<notin> set c" and "length c < n"
  shows "\<exists>a. \<forall>m \<ge> n. assess m c ctx = Some a"
  using assess_total [OF assms, of ctx] assess_fuel_mono by blast

theorem assess_returns_witness:
  "\<exists>a. \<forall>m \<ge> 60. assess m ''bash -c 'sh -c ls' && find . -exec rm x +''
     \<lparr>working_dir = None, home_dir = None, scratch_dir = None\<rparr> = Some a"
  by (rule assess_returns) code_simp+

section \<open>The gate\<close>

text \<open>
  The gate is exactly this table: nothing at level Catastrophic ever runs; at level
  Confirm a command runs if and only if its justification is substantive; below that it
  always runs. Every refusal carries the explanation of every finding.
\<close>

theorem gate_table:
  assumes "assess n c (tool_context cwd h s t) = Some a"
  shows "(destructive_command_refusal n c j cwd h s t = Some None
            \<longleftrightarrow> overall a \<le> Low \<or> overall a = Confirm \<and> is_substantive j)
         \<and> (\<forall>r. destructive_command_refusal n c j cwd h s t = Some (Some r)
              \<longrightarrow> sublist (explanation a) r)"
proof -
  have right: "sublist x b \<Longrightarrow> sublist x (d @ b)" for x b d :: rstr
    by (simp add: sublist_append)
  have "sublist (explanation a) (deny_reason a)"
    unfolding deny_reason_def by (rule right, rule right, rule sublist_append_rightI)
  moreover have "sublist (explanation a) (reflection_prompt a)"
    unfolding reflection_prompt_def by (rule right, rule right, rule sublist_append_rightI)
  ultimately show ?thesis
    using assms by (cases "overall a") (auto simp: refusal_eq gate_def less_eq_risk_level_def)
qed

theorem gate_table_witness:
  "destructive_command_refusal 1 ''rm -rf $X'' (Some ''the user asked to drop the build cache'')
     None None None None = Some None"
proof -
  have "assess 1 ''rm -rf $X'' (tool_context None None None None) =
      Some (the (assess 1 ''rm -rf $X'' (tool_context None None None None)))"
    by code_simp
  from gate_table [OF this, THEN conjunct1, of "Some ''the user asked to drop the build cache''"]
  show ?thesis by (rule iffD2) code_simp
qed

section \<open>A background command\<close>

text \<open>A program the assessor has no rule for.\<close>

definition unlisted_program :: "rstr \<Rightarrow> bool" where
  "unlisted_program p =
     (p \<notin> set SHELL_CONTROL_PREFIXES \<and> basename (token_word p) \<notin> set WRAPPER_COMMANDS
      \<and> basename (token_word p) \<noteq> ''find'' \<and> basename (token_word p) \<notin> set SHELL_COMMANDS
      \<and> basename (token_word p) \<notin> set DESTRUCTIVE_COMMANDS
      \<and> map_of CONDITIONALLY_DESTRUCTIVE (basename (token_word p)) = None)"

lemma lex_background: "lex_loop st ('' & '' @ r) = lex_loop (push_operator ''&'' (flush st)) r"
proof -
  have "flush (push_operator t (flush st)) = push_operator t (flush st)" "flush (flush st) = flush st" for t
    by (simp_all add: flush_def push_operator_def)
  then show ?thesis by (simp add: lex_loop_Cons lex_step_def)
qed

text \<open>
  The single \<open>&\<close> is no separator: what follows a backgrounded, unlisted program is
  read as its arguments, so the whole line is assessed as harmless and runs without a
  justification, whatever the second command is. (\<open>sleep 1 & rm -rf ~\<close> is such a
  line, although \<open>rm -rf ~\<close> alone is refused.)
\<close>

theorem background_hides_second_command:
  assumes "\<forall>w \<in> set ws. word_ok w" and "\<forall>v \<in> set vs. word_ok v" and "vs \<noteq> []"
    and "map word_text ws = p # args" and "unlisted_program p"
    and "\<not> contains (shell_line ws) ''HOME=''" and "\<not> contains (shell_line ws) ''KCODE_SCRATCH_DIR=''"
    and "\<not> contains (shell_line vs) ''HOME=''" and "\<not> contains (shell_line vs) ''KCODE_SCRATCH_DIR=''"
  shows "assess (Suc n) (shell_line ws @ '' & '' @ shell_line vs) ctx = Some assessment_safe
         \<and> destructive_command_refusal (Suc n) (shell_line ws @ '' & '' @ shell_line vs) j cwd h s t = Some None"
proof -
  define L where "L = shell_line ws @ '' & '' @ shell_line vs"
  let ?amp = "(token_word ''&'')\<lparr>is_operator := True\<rparr>"
  obtain us u where ws: "ws = us @ [u]" using assms(4) by (cases ws rule: rev_cases) auto
  obtain xs x where vs: "vs = xs @ [x]" using assms(3) by (cases vs rule: rev_cases) auto
  have "CHR ''<'' \<notin> set L"
    using shell_line_no_heredoc [OF assms(1)] shell_line_no_heredoc [OF assms(2)] by (simp add: L_def)
  then have "tokenize L = tokens (lex_loop (between []) L)"
    by (simp add: tokenize_def no_heredoc lexer_init_between)
  also have "\<dots> = tokens (lex_loop (between (map (token_word \<circ> word_text) ws @ [?amp])) (shell_line vs))"
    using lex_words [of us u "[]" "'' & '' @ shell_line vs"] assms(1) lex_background
    by (simp add: ws L_def)
  also have "\<dots> = map token_word (map word_text ws) @ ?amp # map token_word (map word_text vs)"
    using lex_words [of xs x "map (token_word \<circ> word_text) ws @ [?amp]" "[]"] assms(2)
    by (simp add: vs)
  finally have toks: "tokenize L = token_word p # map token_word args @ ?amp # map token_word (map word_text vs)"
    by (simp add: assms(4) del: map_map)
  have amp: "\<not> tok_text ?amp \<in> set SEGMENT_SEPARATORS" by (simp add: SEGMENT_SEPARATORS_def)
  have seg: "split_segments L = [tokenize L]"
    using segment_words [of "[]" "p # args" "?amp # map token_word (map word_text vs)"]
      segment_words [of "token_word p # map token_word args @ [?amp\<lparr>receives_pipe := False\<rparr>]" "map word_text vs" "[]"] amp
    by (simp add: split_segments_def toks token_word_def)
  have noredirect: "assess_redirects (tokenize L) c = []" for c
    by (auto simp: assess_redirects_def toks filter_empty_conv)
  have "strip_control_prefixes (tokenize L) = tokenize L"
    using assms(5) by (simp add: toks strip_control_prefixes_id unlisted_program_def)
  moreover have "unwrap None (tokenize L) = Unwrapped (tokenize L)"
    using assms(5) by (simp add: toks unlisted_program_def)
  moreover have "assess_program rec (tokenize L) c = Some []" for rec c
    using assms(5) by (simp add: toks assess_program_def triggers_def unlisted_program_def Let_def)
  moreover have "\<not> contains L ''HOME=''" "\<not> contains L ''KCODE_SCRATCH_DIR=''"
    using assms(6-9) contains_sep [of _ "'' & ''"] by (simp_all add: L_def)
  ultimately have "assess (Suc n) L c = Some assessment_safe" for c
    using noredirect by (simp add: assess_eq seg reassignment_findings_def)
  then show ?thesis unfolding L_def [symmetric] by (simp add: refusal_eq gate_def assessment_safe_def)
qed

theorem background_hides_second_command_witness:
  "destructive_command_refusal 1 (shell_line [[(Bare, ''sleep'')], [(Bare, ''1'')]] @ '' & ''
     @ shell_line [[(Bare, ''rm'')], [(Bare, ''-rf'')], [(Bare, ''~'')]])
     None (Some ''/home/u/p'') (Some ''/home/u'') None None = Some None"
  unfolding One_nat_def
  by (rule background_hides_second_command [where p = "''sleep''" and args = "[''1'']", THEN conjunct2])
     code_simp+

end
