(* ===== verification/Task_List.thy ===== *)
theory Task_List
  imports Prelude
begin

text \<open>
  The work list: the row type of \<open>crates/kcode-task-types/src/lib.rs\<close> and the store of
  \<open>crates/kcode-base/src/todo.rs\<close>. A list file is the record \<open>work_file\<close>: its
  rows, and whether the file system lets it be read and written. The text of an error
  message is the value of \<open>list_error\<close> it is printed from.

  The clock is an argument: \<open>now\<close>, the seconds since 1970. \<open>next_id\<close> loops until it
  finds an unused id, so it is a partial function: \<^const>\<open>None\<close> is not returning.
\<close>

section \<open>Rows\<close>

record task =
  content :: rstr
  row_id :: rstr
  row_kind :: "rstr option"
  row_parent :: "rstr option"
  row_note :: "rstr option"
  records :: "json list"
  blocked_by :: "rstr list"
  assigned_to :: "rstr option"

definition default_task :: task where
  "default_task =
     \<lparr>content = [], row_id = [], row_kind = None, row_parent = None, row_note = None, records = [],
      blocked_by = [], assigned_to = None\<rparr>"

datatype list_error =
  LoadFailed | SaveFailed
| AddNeedsContent | CloseNeedsResult
| NoTask rstr rstr
| HeldBy rstr rstr rstr
| OpenChildren rstr rstr rstr
| NotAKind rstr rstr
| NamesNoOpenTask rstr rstr
| UpdateNeedsId | ContentEmpty | CloseNeedsId

section \<open>Ids\<close>

text \<open>\<open>char::from_digit(d, 36)\<close> for a digit below 36.\<close>

definition base36_digit :: "nat \<Rightarrow> char" where
  "base36_digit d = (if d < 10 then char_of (48 + d) else char_of (87 + d))"

definition short_id :: "nat \<Rightarrow> rstr" where
  "short_id count =
     [base36_digit (count div 46656 mod 36), base36_digit (count div 1296 mod 36),
      base36_digit (count div 36 mod 36), base36_digit (count mod 36)]"

definition has_id :: "task list \<Rightarrow> rstr \<Rightarrow> bool" where
  "has_id rows i = list_ex (\<lambda>row. row_id row = i) rows"

partial_function (option) next_id :: "task list \<Rightarrow> nat \<Rightarrow> rstr option" where
  "next_id rows second =
     (if \<not> has_id rows (short_id second) then Some (short_id second)
      else next_id rows (second + 1))"

declare next_id.simps [code]

section \<open>The file\<close>

record work_file =
  file_rows :: "task list"
  load_ok :: bool
  save_ok :: bool

definition load_tasks :: "work_file \<Rightarrow> list_error + task list" where
  "load_tasks f = (if load_ok f then Inr (file_rows f) else Inl LoadFailed)"

definition save_tasks :: "task list \<Rightarrow> work_file \<Rightarrow> list_error + work_file" where
  "save_tasks rows f = (if save_ok f then Inr (f\<lparr>file_rows := rows\<rparr>) else Inl SaveFailed)"

section \<open>Operations on the rows\<close>

definition names_row :: "task \<Rightarrow> rstr \<Rightarrow> bool" where
  "names_row row words =
     (row_id row = words \<or> eq_ignore_ascii_case (trim (content row)) words)"

definition open_ids :: "task list \<Rightarrow> rstr" where
  "open_ids rows = (if rows = [] then ''none'' else join '', '' (map row_id rows))"

text \<open>\<open>add_row\<close>: the new id and the extended list; \<^const>\<open>None\<close> when no id is found.\<close>

definition add_row :: "nat \<Rightarrow> task list \<Rightarrow> task \<Rightarrow> (list_error + rstr \<times> task list) option" where
  "add_row now rows row =
     (let text' = trim (content row)
      in if text' = [] then Some (Inl AddNeedsContent)
         else (case next_id rows now of
                 None \<Rightarrow> None
               | Some i \<Rightarrow> Some (Inr (i, rows @ [row\<lparr>content := text', row_id := i\<rparr>]))))"

fun find_row :: "(task \<Rightarrow> bool) \<Rightarrow> task list \<Rightarrow> task option" where
  "find_row P [] = None"
| "find_row P (r # rs) = (if P r then Some r else find_row P rs)"

text \<open>Change the first row that satisfies a test, \<open>iter_mut().find\<close>.\<close>

fun update_first :: "(task \<Rightarrow> bool) \<Rightarrow> (task \<Rightarrow> task) \<Rightarrow> task list \<Rightarrow> task list" where
  "update_first P f [] = []"
| "update_first P f (r # rs) = (if P r then f r # rs else r # update_first P f rs)"

definition close_record :: "rstr \<Rightarrow> rstr \<Rightarrow> json" where
  "close_record i result = JObject [(''id'', JString i), (''result'', JString result)]"

text \<open>The last part of \<open>close_row\<close>, when nothing refuses the close.\<close>

definition drop_row :: "task list \<Rightarrow> task \<Rightarrow> rstr \<Rightarrow> task list" where
  "drop_row rows row result =
     (let i = row_id row;
          rows = (case row_parent row of
                    None \<Rightarrow> rows
                  | Some p \<Rightarrow>
                      update_first (\<lambda>r. row_id r = p)
                        (\<lambda>r. r\<lparr>records := records r @ [close_record i result]\<rparr>) rows);
          rows = map (\<lambda>r. r\<lparr>blocked_by := filter (\<lambda>d. d \<noteq> i) (blocked_by r)\<rparr>) rows
      in filter (\<lambda>r. row_id r \<noteq> i) rows)"

definition close_row :: "task list \<Rightarrow> rstr \<Rightarrow> rstr \<Rightarrow> rstr \<Rightarrow> list_error + task list" where
  "close_row rows session i result =
     (let result = trim result
      in if result = [] then Inl CloseNeedsResult
         else (case find_row (\<lambda>r. row_id r = i) rows of
                 None \<Rightarrow> Inl (NoTask i (open_ids rows))
               | Some row \<Rightarrow>
                   (case assigned_to row of
                      Some holder \<Rightarrow>
                        if holder \<noteq> session then Inl (HeldBy i holder session)
                        else (case find_row (\<lambda>r. row_parent r = Some i) rows of
                                Some child \<Rightarrow> Inl (OpenChildren i (row_id child) (content child))
                              | None \<Rightarrow> Inr (drop_row rows row result))
                    | None \<Rightarrow>
                        (case find_row (\<lambda>r. row_parent r = Some i) rows of
                           Some child \<Rightarrow> Inl (OpenChildren i (row_id child) (content child))
                         | None \<Rightarrow> Inr (drop_row rows row result)))))"

section \<open>Operations on the file\<close>

text \<open>
  \<open>anchor_from_words\<close>: the anchor and the file after the call. The first row the words
  name is claimed, or a fresh one is added.
\<close>

definition anchor_row ::
  "nat \<Rightarrow> task list \<Rightarrow> rstr \<Rightarrow> rstr \<Rightarrow> rstr option
     \<Rightarrow> (list_error + task \<times> task list) option" where
  "anchor_row now rows session words fresh_kind =
     (case find_row (\<lambda>r. names_row r words) rows of
        Some row \<Rightarrow>
          Some (Inr (row\<lparr>assigned_to := Some session\<rparr>,
            update_first (\<lambda>r. names_row r words) (\<lambda>r. r\<lparr>assigned_to := Some session\<rparr>) rows))
      | None \<Rightarrow>
          (case add_row now rows (default_task\<lparr>content := words, row_kind := fresh_kind,
                  assigned_to := Some session\<rparr>) of
             None \<Rightarrow> None
           | Some (Inl e) \<Rightarrow> Some (Inl e)
           | Some (Inr (i, rows')) \<Rightarrow>
               (case find_row (\<lambda>r. row_id r = i) rows' of
                  Some row \<Rightarrow> Some (Inr (row, rows'))
                | None \<Rightarrow> None)))"

definition anchor_from_words ::
  "nat \<Rightarrow> work_file \<Rightarrow> rstr \<Rightarrow> rstr \<Rightarrow> rstr option
     \<Rightarrow> (list_error + task \<times> work_file) option" where
  "anchor_from_words now f session words fresh_kind =
     (case load_tasks f of
        Inl e \<Rightarrow> Some (Inl e)
      | Inr rows \<Rightarrow>
          (case anchor_row now rows session (trim words) fresh_kind of
             None \<Rightarrow> None
           | Some (Inl e) \<Rightarrow> Some (Inl e)
           | Some (Inr (anchor, rows')) \<Rightarrow>
               (case save_tasks rows' f of
                  Inl e \<Rightarrow> Some (Inl e)
                | Inr f' \<Rightarrow> Some (Inr (anchor, f')))))"

definition held :: "rstr \<Rightarrow> task \<Rightarrow> bool" where
  "held session row = (assigned_to row = Some session)"

text \<open>The loop of \<open>anchor_from_rows\<close>; \<open>adopted\<close> is whether it changed a row.\<close>

definition adopt :: "rstr \<Rightarrow> rstr \<Rightarrow> task \<Rightarrow> task" where
  "adopt session anchor row =
     (if held session row \<and> row_parent row = None \<and> row_id row \<noteq> anchor
      then row\<lparr>row_parent := Some anchor\<rparr> else row)"

definition anchor_from_rows :: "work_file \<Rightarrow> rstr \<Rightarrow> list_error + rstr option \<times> work_file" where
  "anchor_from_rows f session =
     (case load_tasks f of
        Inl e \<Rightarrow> Inl e
      | Inr rows \<Rightarrow>
          (case find_row (\<lambda>r. held session r \<and> row_parent r = None) rows of
             None \<Rightarrow> Inr (None, f)
           | Some first \<Rightarrow>
               (let anchor = row_id first;
                    adopted = list_ex (\<lambda>r. held session r \<and> row_parent r = None \<and> row_id r \<noteq> anchor) rows
                in if adopted
                   then (case save_tasks (map (adopt session anchor) rows) f of
                           Inl e \<Rightarrow> Inl e
                         | Inr f' \<Rightarrow> Inr (Some anchor, f'))
                   else Inr (Some anchor, f))))"

definition set_row_holder ::
  "work_file \<Rightarrow> rstr \<Rightarrow> rstr option \<Rightarrow> list_error + task \<times> work_file" where
  "set_row_holder f i holder =
     (case load_tasks f of
        Inl e \<Rightarrow> Inl e
      | Inr rows \<Rightarrow>
          (case find_row (\<lambda>r. row_id r = i) rows of
             None \<Rightarrow> Inl (NoTask i (open_ids rows))
           | Some row \<Rightarrow>
               (case save_tasks (update_first (\<lambda>r. row_id r = i) (\<lambda>r. r\<lparr>assigned_to := holder\<rparr>) rows) f of
                  Inl e \<Rightarrow> Inl e
                | Inr f' \<Rightarrow> Inr (row\<lparr>assigned_to := holder\<rparr>, f'))))"

definition release_row :: "work_file \<Rightarrow> rstr \<Rightarrow> list_error + task \<times> work_file" where
  "release_row f i = set_row_holder f i None"

text \<open>
  \<open>changed_rows\<close>: \<open>before\<close> is collected into a \<open>HashMap\<close>, so of two rows with one
  id the later one stays.
\<close>

definition before_map :: "task list \<Rightarrow> rstr \<rightharpoonup> task" where
  "before_map rows = map_of (rev (map (\<lambda>r. (row_id r, r)) rows))"

definition changed_rows :: "task list \<Rightarrow> (rstr \<rightharpoonup> task) \<Rightarrow> task list" where
  "changed_rows rows before = filter (\<lambda>r. before (row_id r) \<noteq> Some r) rows"

definition rename_holder :: "rstr \<Rightarrow> rstr \<Rightarrow> task \<Rightarrow> task" where
  "rename_holder old new row =
     (if assigned_to row = Some old then row\<lparr>assigned_to := Some new\<rparr> else row)"

definition rename_row_holder ::
  "work_file \<Rightarrow> rstr \<Rightarrow> rstr \<Rightarrow> list_error + task list \<times> work_file" where
  "rename_row_holder f old new =
     (case load_tasks f of
        Inl e \<Rightarrow> Inl e
      | Inr rows \<Rightarrow>
          (let rows' = map (rename_holder old new) rows;
               touched = changed_rows rows' (before_map rows)
           in case save_tasks rows' f of
                Inl e \<Rightarrow> Inl e
              | Inr f' \<Rightarrow> Inr (touched, f')))"

section \<open>The file's lines\<close>

text \<open>
  \<open>write_json_lines\<close> and \<open>read_json_lines\<close> over the serializer, which is not part of
  the sources: \<open>ser\<close> and \<open>de\<close> are arguments.
\<close>

fun parse_all :: "('x \<Rightarrow> 'e + 'a) \<Rightarrow> 'x list \<Rightarrow> 'e + 'a list" where
  "parse_all de [] = Inr []"
| "parse_all de (l # ls) =
     (case de l of
        Inl e \<Rightarrow> Inl e
      | Inr x \<Rightarrow> (case parse_all de ls of Inl e \<Rightarrow> Inl e | Inr xs \<Rightarrow> Inr (x # xs)))"

definition read_json_lines :: "(rstr \<Rightarrow> 'e + 'a) \<Rightarrow> rstr \<Rightarrow> 'e + 'a list" where
  "read_json_lines de s = parse_all de (filter (\<lambda>l. trim l \<noteq> []) (str_lines s))"

definition write_json_lines :: "('a \<Rightarrow> rstr) \<Rightarrow> 'a list \<Rightarrow> rstr" where
  "write_json_lines ser xs = concat (map (\<lambda>x. ser x @ [CHR 0x0A]) xs)"

end
