(* ===== verification/Plan_Kind.thy ===== *)
theory Plan_Kind
  imports Prelude
begin

text \<open>
  The vocabulary of row kinds, \<open>crates/kcode-plan/src/kind.rs\<close>.
\<close>

datatype node_kind = Explore | Implement | Verify | Fix | Synthesize | Critique

definition KINDS :: "node_kind list" where
  "KINDS = [Explore, Implement, Verify, Fix, Synthesize, Critique]"

fun kind_str :: "node_kind \<Rightarrow> rstr" where
  "kind_str Explore = ''explore''"
| "kind_str Implement = ''implement''"
| "kind_str Verify = ''verify''"
| "kind_str Fix = ''fix''"
| "kind_str Synthesize = ''synthesize''"
| "kind_str Critique = ''critique''"

definition parse_kind :: "rstr option \<Rightarrow> node_kind option" where
  "parse_kind kind =
     (case map_option (\<lambda>k. to_ascii_lowercase (trim k)) kind of
        None \<Rightarrow> None
      | Some k \<Rightarrow>
          if k = ''explore'' then Some Explore
          else if k = ''implement'' then Some Implement
          else if k = ''verify'' then Some Verify
          else if k = ''fix'' then Some Fix
          else if k = ''synthesize'' then Some Synthesize
          else if k = ''critique'' then Some Critique
          else None)"

definition kind_words :: rstr where
  "kind_words = join '', '' (map kind_str KINDS)"

lemma parse_kind_str: "parse_kind (Some (kind_str k)) = Some k"
  by (cases k; simp only:; code_simp)

lemma KINDS_complete: "k \<in> set KINDS"
  by (cases k) (simp_all add: KINDS_def)

interpretation kinds: vocabulary kind_str "\<lambda>w. parse_kind (Some w)"
  by unfold_locales (rule parse_kind_str)

text \<open>A word parses to a kind exactly when its trimmed, lowercased form is the kind's word.\<close>

lemma parse_kind_iff:
  "parse_kind (Some w) = Some k \<longleftrightarrow> to_ascii_lowercase (trim w) = kind_str k"
  by (cases k) (auto simp: parse_kind_def)

end
