(* ===== verification/Todo_Tool.thy ===== *)
theory Todo_Tool
  imports Task_List Plan_Kind
begin

text \<open>
  The \<open>todo\<close> tool, \<open>crates/kcode-app-core/src/tool/todo.rs\<close>: one call is one action
  applied to the rows read from the file, saved only when it succeeds. \<open>apply\<close> mutates
  its rows in place; on an error its caller drops them, so the model returns the new rows or
  the error.
\<close>

datatype action = List | Add | Update | Close

record todo_input =
  in_action :: "action option"
  in_id :: "rstr option"
  in_content :: "rstr option"
  in_kind :: "rstr option"
  in_parent :: "rstr option"
  in_blocked_by :: "rstr list option"
  in_assigned_to :: "rstr option"
  in_note :: "rstr option"
  in_result :: "rstr option"

definition nonempty :: "rstr option \<Rightarrow> list_error \<Rightarrow> list_error + rstr" where
  "nonempty v e =
     (case map_option trim v of
        Some w \<Rightarrow> if w \<noteq> [] then Inr w else Inl e
      | None \<Rightarrow> Inl e)"

definition kind_or_none :: "rstr option \<Rightarrow> rstr option" where
  "kind_or_none kind =
     (case map_option trim kind of
        Some w \<Rightarrow> if w \<noteq> [] then Some w else None
      | None \<Rightarrow> None)"

definition check_kind :: "rstr option \<Rightarrow> list_error + unit" where
  "check_kind kind =
     (case kind_or_none kind of
        None \<Rightarrow> Inr ()
      | Some k \<Rightarrow>
          (case parse_kind (Some k) of
             None \<Rightarrow> Inl (NotAKind k kind_words)
           | Some _ \<Rightarrow> Inr ()))"

text \<open>The ids a call refers to, in the order they are checked.\<close>

definition referenced :: "todo_input \<Rightarrow> rstr list" where
  "referenced inp =
     (case in_parent inp of None \<Rightarrow> [] | Some p \<Rightarrow> [p])
     @ (case in_blocked_by inp of None \<Rightarrow> [] | Some ds \<Rightarrow> ds)
     @ (case in_id inp of None \<Rightarrow> [] | Some i \<Rightarrow> if in_parent inp \<noteq> None then [i] else [])"

fun check_named :: "task list \<Rightarrow> rstr list \<Rightarrow> list_error + unit" where
  "check_named rows [] = Inr ()"
| "check_named rows (r # rs) =
     (if has_id rows r then check_named rows rs else Inl (NamesNoOpenTask r (open_ids rows)))"

definition check_references :: "task list \<Rightarrow> todo_input \<Rightarrow> list_error + unit" where
  "check_references rows inp = check_named rows (referenced inp)"

definition set_opt :: "'v option \<Rightarrow> ('v \<Rightarrow> task \<Rightarrow> task) \<Rightarrow> task \<Rightarrow> task" where
  "set_opt v f row = (case v of None \<Rightarrow> row | Some x \<Rightarrow> f x row)"

text \<open>The field updates of \<open>Action::Update\<close> after the content's.\<close>

definition update_fields :: "todo_input \<Rightarrow> task \<Rightarrow> task" where
  "update_fields inp row =
     set_opt (in_note inp) (\<lambda>v r. r\<lparr>row_note := Some v\<rparr>)
       (set_opt (in_assigned_to inp) (\<lambda>v r. r\<lparr>assigned_to := Some v\<rparr>)
         (set_opt (in_blocked_by inp) (\<lambda>v r. r\<lparr>blocked_by := v\<rparr>)
           (set_opt (in_kind inp) (\<lambda>v r. r\<lparr>row_kind := kind_or_none (Some v)\<rparr>)
             (set_opt (in_parent inp) (\<lambda>v r. r\<lparr>row_parent := Some v\<rparr>) row))))"

definition new_row :: "todo_input \<Rightarrow> rstr \<Rightarrow> rstr \<Rightarrow> task" where
  "new_row inp text' session =
     default_task\<lparr>content := text', row_kind := kind_or_none (in_kind inp),
       row_parent := in_parent inp,
       blocked_by := (case in_blocked_by inp of None \<Rightarrow> [] | Some ds \<Rightarrow> ds),
       assigned_to := Some (case in_assigned_to inp of None \<Rightarrow> session | Some a \<Rightarrow> a),
       row_note := in_note inp\<rparr>"

definition apply_add ::
  "nat \<Rightarrow> todo_input \<Rightarrow> task list \<Rightarrow> rstr \<Rightarrow> (list_error + task list) option" where
  "apply_add now inp rows session =
     (case nonempty (in_content inp) AddNeedsContent of
        Inl e \<Rightarrow> Some (Inl e)
      | Inr text' \<Rightarrow>
          (case check_references rows inp of
             Inl e \<Rightarrow> Some (Inl e)
           | Inr _ \<Rightarrow>
               (case add_row now rows (new_row inp text' session) of
                  None \<Rightarrow> None
                | Some (Inl e) \<Rightarrow> Some (Inl e)
                | Some (Inr (i, rows')) \<Rightarrow> Some (Inr rows'))))"

definition apply_update :: "todo_input \<Rightarrow> task list \<Rightarrow> list_error + task list" where
  "apply_update inp rows =
     (case nonempty (in_id inp) UpdateNeedsId of
        Inl e \<Rightarrow> Inl e
      | Inr i \<Rightarrow>
          if \<not> has_id rows i then Inl (NoTask i (open_ids rows))
          else
            (case (case in_content inp of
                     None \<Rightarrow> Inr (\<lambda>r. r)
                   | Some c \<Rightarrow>
                       (case nonempty (Some c) ContentEmpty of
                          Inl e \<Rightarrow> Inl e
                        | Inr c' \<Rightarrow> Inr (\<lambda>r. r\<lparr>content := c'\<rparr>))) of
               Inl e \<Rightarrow> Inl e
             | Inr set_content \<Rightarrow>
                 (let rows' = update_first (\<lambda>r. row_id r = i)
                                (\<lambda>r. update_fields inp (set_content r)) rows
                  in case check_references rows' inp of
                       Inl e \<Rightarrow> Inl e
                     | Inr _ \<Rightarrow> Inr rows')))"

definition apply_close :: "todo_input \<Rightarrow> task list \<Rightarrow> rstr \<Rightarrow> list_error + task list" where
  "apply_close inp rows session =
     (case nonempty (in_id inp) CloseNeedsId of
        Inl e \<Rightarrow> Inl e
      | Inr i \<Rightarrow>
          close_row rows session i (case in_result inp of None \<Rightarrow> [] | Some r \<Rightarrow> r))"

definition the_action :: "todo_input \<Rightarrow> action" where
  "the_action inp = (case in_action inp of None \<Rightarrow> List | Some a \<Rightarrow> a)"

definition apply_call ::
  "nat \<Rightarrow> todo_input \<Rightarrow> task list \<Rightarrow> rstr \<Rightarrow> (list_error + task list) option" where
  "apply_call now inp rows session =
     (case check_kind (in_kind inp) of
        Inl e \<Rightarrow> Some (Inl e)
      | Inr _ \<Rightarrow>
          (case the_action inp of
             List \<Rightarrow> Some (Inr rows)
           | Add \<Rightarrow> apply_add now inp rows session
           | Update \<Rightarrow> Some (apply_update inp rows)
           | Close \<Rightarrow> Some (apply_close inp rows session)))"

text \<open>
  \<open>execute\<close> after the input is decoded: the rows it reports, the file, and the rows of the
  event it publishes, if any.
\<close>

definition execute ::
  "nat \<Rightarrow> todo_input \<Rightarrow> work_file \<Rightarrow> rstr
     \<Rightarrow> (list_error + task list \<times> work_file \<times> task list option) option" where
  "execute now inp f session =
     (case load_tasks f of
        Inl e \<Rightarrow> Some (Inl e)
      | Inr rows \<Rightarrow>
          (case apply_call now inp rows session of
             None \<Rightarrow> None
           | Some (Inl e) \<Rightarrow> Some (Inl e)
           | Some (Inr rows') \<Rightarrow>
               if the_action inp \<noteq> List
               then (case save_tasks rows' f of
                       Inl e \<Rightarrow> Some (Inl e)
                     | Inr f' \<Rightarrow> Some (Inr (rows', f', Some rows')))
               else Some (Inr (rows', f, None))))"

section \<open>Lemmas on the store's functions\<close>

lemma has_id_iff: "has_id rows i \<longleftrightarrow> i \<in> set (map row_id rows)"
  by (auto simp: has_id_def list_ex_iff)

lemma find_row_Some: "find_row P rows = Some r \<Longrightarrow> r \<in> set rows \<and> P r"
  by (induction rows) (auto split: if_splits)

lemma find_row_None: "find_row P rows = None \<longleftrightarrow> (\<forall>r \<in> set rows. \<not> P r)"
  by (induction rows) auto

lemma update_first_ids:
  "(\<And>r. row_id (f r) = row_id r) \<Longrightarrow> map row_id (update_first P f rows) = map row_id rows"
  by (induction rows) auto

lemma update_first_set: "set (update_first P f rows) \<subseteq> set rows \<union> f ` set rows"
  by (induction rows) auto

lemma update_first_member:
  "r \<in> set (update_first P f rows) \<Longrightarrow> r \<in> set rows \<or> (\<exists>s \<in> set rows. P s \<and> r = f s)"
  by (induction rows) (auto split: if_splits)

lemma update_first_map:
  assumes "distinct (map row_id rows)"
  shows "update_first (\<lambda>r. row_id r = i) f rows = map (\<lambda>r. if row_id r = i then f r else r) rows"
  using assms
proof (induction rows)
  case (Cons r rows)
  then have "map (\<lambda>s. if row_id s = i then f s else s) rows = rows" if "row_id r = i"
    using that by (intro map_idI) (auto simp: image_iff)
  with Cons show ?case by auto
qed simp

section \<open>Fresh ids\<close>

lemma base36_digit_inj: "d < 36 \<Longrightarrow> e < 36 \<Longrightarrow> base36_digit d = base36_digit e \<Longrightarrow> d = e"
  by (auto simp: base36_digit_def of_char_of dest!: arg_cong [where f = "of_char :: char \<Rightarrow> nat"]
      split: if_splits)

lemma short_id_length [simp]: "length (short_id n) = 4"
  by (simp add: short_id_def)

lemma div_36:
  fixes n :: nat
  shows "n div 1296 = n div 36 div 36" and "n div 46656 = n div 36 div 36 div 36"
  by (simp_all add: div_mult2_eq [symmetric])

lemma short_id_inj: "short_id a = short_id b \<longleftrightarrow> a mod 1679616 = b mod 1679616"
proof -
  have low: "m mod (36 * k) = n mod (36 * k) \<longleftrightarrow> m mod 36 = n mod 36 \<and> m div 36 mod k = n div 36 mod k"
    for m n k :: nat
  proof -
    have "(36 * y + d) div 36 = y \<and> (36 * y + d) mod 36 = d" if "d < 36" for y d :: nat
      using that by simp
    then show ?thesis
      using mod_mult2_eq [of m 36 k] mod_mult2_eq [of n 36 k]
      by (metis mod_less_divisor zero_less_numeral)
  qed
  have digits: "base36_digit (m mod 36) = base36_digit (n mod 36) \<longleftrightarrow> m mod 36 = n mod 36" for m n
    using base36_digit_inj [of "m mod 36" "n mod 36"] by auto
  have "a mod 1679616 = b mod 1679616 \<longleftrightarrow>
      a mod 36 = b mod 36 \<and> a div 36 mod 36 = b div 36 mod 36
      \<and> a div 36 div 36 mod 36 = b div 36 div 36 mod 36
      \<and> a div 36 div 36 div 36 mod 36 = b div 36 div 36 div 36 mod 36"
    using low [of a 46656 b] low [of "a div 36" 1296 "b div 36"]
      low [of "a div 36 div 36" 36 "b div 36 div 36"] by simp
  then show ?thesis
    by (auto simp: short_id_def digits div_36)
qed

lemma next_id_probe:
  assumes "\<not> has_id rows (short_id (now + k))" and "\<forall>j < k. has_id rows (short_id (now + j))"
  shows "next_id rows now = Some (short_id (now + k))"
  using assms
proof (induction k arbitrary: now)
  case 0
  then show ?case by (subst next_id.simps) simp
next
  case (Suc k)
  have "next_id rows (now + 1) = Some (short_id (now + 1 + k))"
    using Suc.prems by (intro Suc.IH) force+
  moreover have "has_id rows (short_id now)" using Suc.prems(2) by force
  ultimately show ?case by (subst next_id.simps) simp
qed

text \<open>The loop passes at most one candidate per row.\<close>

lemma next_id_found:
  assumes "length rows < 1679616"
  shows "\<exists>k \<le> length rows. next_id rows now = Some (short_id (now + k))
           \<and> \<not> has_id rows (short_id (now + k))"
proof -
  let ?c = "\<lambda>k. short_id (now + k)"
  have "inj_on ?c {0..length rows}"
  proof (rule inj_onI)
    fix a b assume ab: "a \<in> {0..length rows}" "b \<in> {0..length rows}" "?c a = ?c b"
    have "a = b" if "a \<le> b" "b \<le> length rows" "(now + a) mod 1679616 = (now + b) mod 1679616" for a b
    proof -
      have "1679616 dvd b - a"
        using that(1,3) mod_eq_dvd_iff_nat [of "now + a" "now + b" 1679616] by simp
      moreover have "b - a < 1679616" using that(2) assms by simp
      ultimately show ?thesis using that(1) nat_dvd_not_less [of "b - a" 1679616] by auto
    qed
    from this [of a b] this [of b a] show "a = b"
      using ab by (auto simp: short_id_inj) (metis linear)
  qed
  then have "card (?c ` {0..length rows}) = Suc (length rows)" by (simp add: card_image)
  moreover have "card (set (map row_id rows)) \<le> length rows" using card_length [of "map row_id rows"] by simp
  ultimately have "\<not> ?c ` {0..length rows} \<subseteq> set (map row_id rows)"
    by (metis List.finite_set Suc_n_not_le_n card_mono le_trans)
  then have ex: "\<exists>k. k \<le> length rows \<and> \<not> has_id rows (?c k)" by (auto simp: has_id_iff)
  define k where "k = (LEAST k. k \<le> length rows \<and> \<not> has_id rows (?c k))"
  have k: "k \<le> length rows" "\<not> has_id rows (?c k)" using LeastI_ex [OF ex] by (auto simp: k_def)
  have "has_id rows (?c j)" if "j < k" for j
    using not_less_Least [of j "\<lambda>k. k \<le> length rows \<and> \<not> has_id rows (?c k)"] that k(1)
    by (auto simp: k_def)
  then show ?thesis using next_id_probe [of rows now k] k by blast
qed

lemma next_id_fresh: "next_id rows now = Some i \<Longrightarrow> \<not> has_id rows i \<and> length i = 4"
  by (erule next_id.raw_induct [rotated]) (auto split: if_splits)

section \<open>The invariant of the list\<close>

text \<open>
  Ids are unique, and a \<open>blocked_by\<close> entry or a parent names an open row
  (rule 7 of the store), and no row is without words.
\<close>

definition refs_ok :: "task list \<Rightarrow> task \<Rightarrow> bool" where
  "refs_ok rows r =
     (content r \<noteq> []
      \<and> (case row_parent r of None \<Rightarrow> True | Some p \<Rightarrow> has_id rows p)
      \<and> (\<forall>d \<in> set (blocked_by r). has_id rows d))"

lemma refs_ok_iff:
  "refs_ok rows r \<longleftrightarrow> content r \<noteq> [] \<and> (\<forall>p. row_parent r = Some p \<longrightarrow> has_id rows p)
     \<and> (\<forall>d \<in> set (blocked_by r). has_id rows d)"
  by (simp add: refs_ok_def split: option.split)

definition wf_list :: "task list \<Rightarrow> bool" where
  "wf_list rows = (distinct (map row_id rows) \<and> (\<forall>r \<in> set rows. refs_ok rows r))"

lemma wf_list_distinct: "wf_list rows \<Longrightarrow> distinct (map row_id rows)"
  by (simp add: wf_list_def)

lemma refs_ok_mono: "refs_ok rows r \<Longrightarrow> (\<And>i. has_id rows i \<Longrightarrow> has_id rows' i) \<Longrightarrow> refs_ok rows' r"
  by (auto simp: refs_ok_iff)

lemma check_named_Inr: "check_named rows rs = Inr u \<longleftrightarrow> (\<forall>r \<in> set rs. has_id rows r)"
  by (induction rs) auto

lemma add_row_shape:
  "add_row now rows row = Some (Inr (i, rows')) \<longleftrightarrow>
     trim (content row) \<noteq> [] \<and> next_id rows now = Some i
     \<and> rows' = rows @ [row\<lparr>content := trim (content row), row_id := i\<rparr>]"
  by (auto simp: add_row_def Let_def split: option.splits if_splits)

lemma add_row_wf:
  assumes "wf_list rows" and "add_row now rows row = Some (Inr (i, rows'))"
    and "\<forall>p. row_parent row = Some p \<longrightarrow> has_id rows p" and "\<forall>d \<in> set (blocked_by row). has_id rows d"
  shows "wf_list rows'"
proof -
  have "\<not> has_id rows i" using assms(2) next_id_fresh by (auto simp: add_row_shape)
  then show ?thesis
    using assms by (auto simp: add_row_shape wf_list_def refs_ok_iff has_id_iff)
qed

lemma apply_add_shape:
  "apply_add now inp rows session = Some (Inr rows') \<longleftrightarrow>
     (\<exists>c i. nonempty (in_content inp) AddNeedsContent = Inr c \<and> check_references rows inp = Inr ()
        \<and> add_row now rows (new_row inp c session) = Some (Inr (i, rows')))"
  by (auto simp: apply_add_def split: sum.splits option.splits)

lemma new_row_fields [simp]:
  "content (new_row inp c session) = c" "row_parent (new_row inp c session) = in_parent inp"
  "blocked_by (new_row inp c session) = (case in_blocked_by inp of None \<Rightarrow> [] | Some ds \<Rightarrow> ds)"
  "assigned_to (new_row inp c session) = Some (case in_assigned_to inp of None \<Rightarrow> session | Some a \<Rightarrow> a)"
  "row_kind (new_row inp c session) = kind_or_none (in_kind inp)" "records (new_row inp c session) = []"
  "row_note (new_row inp c session) = in_note inp"
  by (simp_all add: new_row_def default_task_def)

lemma apply_add_wf:
  assumes "wf_list rows" and "apply_add now inp rows session = Some (Inr rows')"
  shows "wf_list rows'"
proof -
  obtain c i where "\<forall>x \<in> set (referenced inp). has_id rows x"
    "add_row now rows (new_row inp c session) = Some (Inr (i, rows'))"
    using assms(2) by (auto simp: apply_add_shape check_references_def check_named_Inr)
  then show ?thesis
    by (intro add_row_wf [OF assms(1)]) (auto simp: referenced_def split: option.splits)
qed

lemma update_fields_id [simp]: "row_id (update_fields inp r) = row_id r"
  by (simp add: update_fields_def set_opt_def split: option.split)

lemma update_fields_content [simp]: "content (update_fields inp r) = content r"
  by (simp add: update_fields_def set_opt_def split: option.split)

lemma update_fields_refs:
  "row_parent (update_fields inp r) = (case in_parent inp of None \<Rightarrow> row_parent r | p \<Rightarrow> p)"
  "blocked_by (update_fields inp r) = (case in_blocked_by inp of None \<Rightarrow> blocked_by r | Some ds \<Rightarrow> ds)"
  by (simp_all add: update_fields_def set_opt_def split: option.split)

lemma nonempty_Inr: "nonempty v e = Inr w \<longleftrightarrow> (\<exists>s. v = Some s \<and> w = trim s \<and> w \<noteq> [])"
  by (auto simp: nonempty_def split: option.splits if_splits)

text \<open>An update replaces one row by its updated version and keeps every id.\<close>

lemma apply_update_shape:
  assumes "apply_update inp rows = Inr rows'"
  obtains i g where "rows' = update_first (\<lambda>r. row_id r = i) (\<lambda>r. update_fields inp (g r)) rows"
    and "\<forall>r. row_id (g r) = row_id r" and "\<forall>r. row_parent (g r) = row_parent r"
    and "\<forall>r. blocked_by (g r) = blocked_by r" and "\<forall>r. content r \<noteq> [] \<longrightarrow> content (g r) \<noteq> []"
    and "\<forall>x \<in> set (referenced inp). has_id rows' x" and "has_id rows i"
proof -
  obtain i where i: "nonempty (in_id inp) UpdateNeedsId = Inr i" "has_id rows i"
    using assms by (auto simp: apply_update_def split: sum.splits if_splits)
  define g where "g = (case in_content inp of None \<Rightarrow> (\<lambda>r :: task. r) | Some c \<Rightarrow> (\<lambda>r. r\<lparr>content := trim c\<rparr>))"
  have "rows' = update_first (\<lambda>r. row_id r = i) (\<lambda>r. update_fields inp (g r)) rows
      \<and> check_references rows' inp = Inr ()
      \<and> (\<forall>c. in_content inp = Some c \<longrightarrow> trim c \<noteq> [])"
    using assms i
    by (auto simp: apply_update_def Let_def g_def nonempty_Inr split: sum.splits option.splits if_splits)
  then show ?thesis
    using i(2) by (intro that [of i g]) (auto simp: g_def check_references_def check_named_Inr split: option.splits)
qed

lemma has_id_update_first:
  "(\<And>r. row_id (f r) = row_id r) \<Longrightarrow> has_id (update_first P f rows) i = has_id rows i"
  by (simp add: has_id_iff update_first_ids)

lemma apply_update_wf:
  assumes "wf_list rows" and "apply_update inp rows = Inr rows'"
  shows "wf_list rows'"
proof -
  from assms(2) obtain i g where g: "rows' = update_first (\<lambda>r. row_id r = i) (\<lambda>r. update_fields inp (g r)) rows"
    "\<forall>r. row_id (g r) = row_id r" "\<forall>r. row_parent (g r) = row_parent r"
    "\<forall>r. blocked_by (g r) = blocked_by r" "\<forall>r. content r \<noteq> [] \<longrightarrow> content (g r) \<noteq> []"
    "\<forall>x \<in> set (referenced inp). has_id rows' x" "has_id rows i"
    by (rule apply_update_shape)
  have ids: "has_id rows' x = has_id rows x" for x
    by (simp add: g(1,2) has_id_update_first)
  have "refs_ok rows' r" if "r \<in> set rows'" for r
  proof -
    have old: "refs_ok rows' s" if "s \<in> set rows" for s
      using assms(1) that ids by (auto simp: wf_list_def intro: refs_ok_mono)
    have "r \<in> set rows \<or> (\<exists>s \<in> set rows. row_id s = i \<and> r = update_fields inp (g s))"
      using that unfolding g(1) by (rule update_first_member)
    then consider "r \<in> set rows" | s where "s \<in> set rows" "r = update_fields inp (g s)"
      by blast
    then show ?thesis
    proof cases
      case 2
      show ?thesis
        unfolding 2(2) refs_ok_iff
      proof (intro conjI allI impI ballI)
        show "content (update_fields inp (g s)) \<noteq> []"
          using old [OF 2(1)] g(5) by (simp add: refs_ok_iff)
        show "has_id rows' p" if "row_parent (update_fields inp (g s)) = Some p" for p
          using that old [OF 2(1)] g(6)
          by (cases "in_parent inp") (auto simp: update_fields_refs g(3) refs_ok_iff referenced_def)
        show "has_id rows' d" if "d \<in> set (blocked_by (update_fields inp (g s)))" for d
          using that old [OF 2(1)] g(6)
          by (cases "in_blocked_by inp") (auto simp: update_fields_refs g(4) refs_ok_iff referenced_def)
      qed
    qed (use old in auto)
  qed
  moreover have "distinct (map row_id rows')"
    using wf_list_distinct [OF assms(1)] by (simp add: g(1,2) update_first_ids)
  ultimately show ?thesis by (simp add: wf_list_def)
qed

section \<open>Closing a row\<close>

text \<open>What every row that stays looks like after a close.\<close>

definition after_close :: "task \<Rightarrow> rstr \<Rightarrow> task \<Rightarrow> task" where
  "after_close row result r =
     r\<lparr>blocked_by := filter (\<lambda>d. d \<noteq> row_id row) (blocked_by r),
       records := records r @ (if row_parent row = Some (row_id r) then [close_record (row_id row) result] else [])\<rparr>"

lemma after_close_fields [simp]:
  "row_id (after_close row result r) = row_id r" "row_parent (after_close row result r) = row_parent r"
  "content (after_close row result r) = content r" "assigned_to (after_close row result r) = assigned_to r"
  "row_kind (after_close row result r) = row_kind r" "row_note (after_close row result r) = row_note r"
  "blocked_by (after_close row result r) = filter (\<lambda>d. d \<noteq> row_id row) (blocked_by r)"
  "records (after_close row result r)
     = records r @ (if row_parent row = Some (row_id r) then [close_record (row_id row) result] else [])"
  by (simp_all add: after_close_def)

lemma drop_row_eq:
  assumes "distinct (map row_id rows)"
  shows "drop_row rows row result = map (after_close row result) (filter (\<lambda>r. row_id r \<noteq> row_id row) rows)"
proof -
  define rec where "rec = (\<lambda>r :: task. if row_parent row = Some (row_id r)
      then r\<lparr>records := records r @ [close_record (row_id row) result]\<rparr> else r)"
  define unblock where "unblock = (\<lambda>r :: task. r\<lparr>blocked_by := filter (\<lambda>d. d \<noteq> row_id row) (blocked_by r)\<rparr>)"
  have ids: "row_id (unblock (rec r)) = row_id r" for r by (simp add: rec_def unblock_def)
  have "(case row_parent row of
           None \<Rightarrow> rows
         | Some p \<Rightarrow> update_first (\<lambda>r. row_id r = p)
             (\<lambda>r. r\<lparr>records := records r @ [close_record (row_id row) result]\<rparr>) rows) = map rec rows"
    by (auto simp: rec_def update_first_map [OF assms] split: option.split intro!: map_idI [symmetric])
  then have "drop_row rows row result = filter (\<lambda>r. row_id r \<noteq> row_id row) (map unblock (map rec rows))"
    by (simp add: drop_row_def Let_def unblock_def)
  also have "\<dots> = map (\<lambda>r. unblock (rec r)) (filter (\<lambda>r. row_id r \<noteq> row_id row) rows)"
    by (simp add: filter_map comp_def ids)
  also have "(\<lambda>r. unblock (rec r)) = after_close row result"
    by (auto simp: rec_def unblock_def after_close_def)
  finally show ?thesis .
qed

lemma close_row_shape:
  "close_row rows session i result = Inr rows' \<longleftrightarrow>
     trim result \<noteq> [] \<and> (\<exists>row. find_row (\<lambda>r. row_id r = i) rows = Some row
       \<and> (assigned_to row = None \<or> assigned_to row = Some session)
       \<and> (\<forall>r \<in> set rows. row_parent r \<noteq> Some i) \<and> rows' = drop_row rows row (trim result))"
  by (auto simp: close_row_def Let_def find_row_None split: option.splits if_splits)
     (auto dest: find_row_Some simp: find_row_None)

lemma close_row_wf:
  assumes "wf_list rows" and "close_row rows session i result = Inr rows'"
  shows "wf_list rows'"
proof -
  obtain row where row: "find_row (\<lambda>r. row_id r = i) rows = Some row"
    "\<forall>r \<in> set rows. row_parent r \<noteq> Some i" "rows' = drop_row rows row (trim result)"
    using assms(2) by (auto simp: close_row_shape)
  have d: "distinct (map row_id rows)" by (rule wf_list_distinct [OF assms(1)])
  have i: "row_id row = i" using find_row_Some [OF row(1)] by simp
  have ids: "has_id rows' x \<longleftrightarrow> has_id rows x \<and> x \<noteq> i" for x
    by (auto simp: row(3) drop_row_eq [OF d] has_id_iff i)
  have "refs_ok rows' (after_close row (trim result) r)" if "r \<in> set rows" for r
    using that assms(1) row(2) ids i by (auto simp: wf_list_def refs_ok_iff)
  moreover have "distinct (map row_id rows')"
    using d by (simp add: row(3) drop_row_eq [OF d] distinct_map_filter comp_def)
  ultimately show ?thesis by (auto simp: wf_list_def row(3) drop_row_eq [OF d])
qed

section \<open>The tool as a machine\<close>

definition todo_step :: "nat \<times> rstr \<times> todo_input \<Rightarrow> task list \<Rightarrow> task list option" where
  "todo_step call rows =
     (case call of (now, session, inp) \<Rightarrow>
        (case apply_call now inp rows session of Some (Inr rows') \<Rightarrow> Some rows' | _ \<Rightarrow> None))"

lemma apply_call_wf:
  assumes "wf_list rows" and "apply_call now inp rows session = Some (Inr rows')"
  shows "wf_list rows'"
proof (cases "the_action inp")
  case List
  then show ?thesis using assms by (auto simp: apply_call_def split: sum.splits)
next
  case Add
  then show ?thesis
    using assms(2) by (auto simp: apply_call_def split: sum.splits intro: apply_add_wf [OF assms(1)])
next
  case Update
  then show ?thesis
    using assms(2) by (auto simp: apply_call_def split: sum.splits intro: apply_update_wf [OF assms(1)])
next
  case Close
  then show ?thesis
    using assms(2)
    by (auto simp: apply_call_def apply_close_def split: sum.splits intro: close_row_wf [OF assms(1)])
qed

interpretation todo: machine todo_step wf_list
  by unfold_locales
     (auto simp: todo_step_def split: prod.splits option.splits sum.splits intro: apply_call_wf)

end
