(* ===== verification/Work_List_Properties.thy ===== *)
theory Work_List_Properties
  imports Todo_Tool "HOL-Library.Multiset"
begin

text \<open>
  The properties of the work list: the invariant under every sequence of tool calls, what a
  close does, fresh ids, draining a list, anchors, and the file format.
\<close>

section \<open>The invariant\<close>

text \<open>
  C3: Whatever calls the sessions make, in any order, with any input and at any time, the
  list stays well formed: ids stay unique, every blocker and every parent names an open row,
  and no row is without words. Refused calls change nothing.
\<close>

theorem calls_keep_list_wf: "wf_list rows \<Longrightarrow> wf_list (run_ops todo_step calls rows)"
  by (rule todo.run_inv)

definition no_input :: todo_input where
  "no_input = \<lparr>in_action = None, in_id = None, in_content = None, in_kind = None, in_parent = None,
     in_blocked_by = None, in_assigned_to = None, in_note = None, in_result = None\<rparr>"

theorem calls_keep_list_wf_witness:
  "wf_list (run_ops todo_step
     [(5, ''me'', no_input\<lparr>in_action := Some Add, in_content := Some ''top''\<rparr>),
      (5, ''me'', no_input\<lparr>in_action := Some Close, in_id := Some ''0005'', in_result := Some ''ran''\<rparr>)] [])"
  by (rule calls_keep_list_wf) (simp add: wf_list_def)

section \<open>Closing\<close>

text \<open>
  What a close does, on every branch. It succeeds exactly when its result has words, the
  row exists, no other session holds it and no row names it as parent; then that row alone is
  gone, the order of the others is kept, its parent gains one record with the id and the
  trimmed result, every row loses the closed id from its blockers, and nothing else changes.
  In particular a row with open children never closes.
\<close>

theorem close_row_spec:
  assumes "wf_list rows"
  shows "close_row rows session i result = Inr rows' \<longleftrightarrow>
     trim result \<noteq> [] \<and>
     (\<exists>row \<in> set rows. row_id row = i \<and> (assigned_to row = None \<or> assigned_to row = Some session)
        \<and> (\<forall>r \<in> set rows. row_parent r \<noteq> Some i)
        \<and> rows' = map (\<lambda>r. r\<lparr>blocked_by := filter (\<lambda>d. d \<noteq> i) (blocked_by r),
                       records := records r @ (if row_parent row = Some (row_id r)
                                                then [close_record i (trim result)] else [])\<rparr>)
                    (filter (\<lambda>r. row_id r \<noteq> i) rows))"
proof -
  note d = wf_list_distinct [OF assms]
  have found: "find_row (\<lambda>r. row_id r = i) rows = Some row \<longleftrightarrow> row \<in> set rows \<and> row_id row = i" for row
  proof
    assume "row \<in> set rows \<and> row_id row = i"
    then show "find_row (\<lambda>r. row_id r = i) rows = Some row"
      using d by (induction rows) (auto simp: image_iff)
  qed (auto dest: find_row_Some)
  show ?thesis
    unfolding close_row_shape found drop_row_eq [OF d] after_close_def by blast
qed

theorem close_row_spec_witness:
  "close_row [default_task\<lparr>content := ''top'', row_id := ''a''\<rparr>,
      default_task\<lparr>content := ''leaf'', row_id := ''b'', row_parent := Some ''a''\<rparr>] ''me'' ''b'' '' tests pass ''
   = Inr [default_task\<lparr>content := ''top'', row_id := ''a'', records := [close_record ''b'' ''tests pass'']\<rparr>]"
  by (rule close_row_spec [THEN iffD2]) code_simp+

section \<open>Adding\<close>

text \<open>
  Adding returns: with fewer than \<open>36 ^ 4\<close> open rows the search for an id ends after at
  most one candidate per open row, and the row is appended under a four-character id no open
  row has; the other rows are untouched.
\<close>

theorem add_row_returns:
  assumes "length rows < 1679616" and "trim (content row) \<noteq> []"
  shows "\<exists>k \<le> length rows. \<exists>i. i = short_id (now + k) \<and> length i = 4 \<and> i \<notin> set (map row_id rows)
     \<and> add_row now rows row = Some (Inr (i, rows @ [row\<lparr>content := trim (content row), row_id := i\<rparr>]))"
  using next_id_found [OF assms(1), of now] assms(2) by (auto simp: add_row_shape has_id_iff)

theorem add_row_returns_witness:
  "\<exists>i. i \<notin> set (map row_id [default_task\<lparr>row_id := ''0007''\<rparr>])
     \<and> add_row 7 [default_task\<lparr>row_id := ''0007''\<rparr>] (default_task\<lparr>content := ''x''\<rparr>)
       = Some (Inr (i, [default_task\<lparr>row_id := ''0007''\<rparr>, default_task\<lparr>content := ''x'', row_id := i\<rparr>]))"
proof -
  have t: "trim ''x'' = ''x''" by code_simp
  then have "trim (content (default_task\<lparr>content := ''x''\<rparr>)) \<noteq> []" by simp
  from add_row_returns [of "[default_task\<lparr>row_id := ''0007''\<rparr>]", OF _ this, of 7]
  show ?thesis by (auto simp: t)
qed

section \<open>Draining a list\<close>

definition parent_rel :: "task list \<Rightarrow> (rstr \<times> rstr) set" where
  "parent_rel rows = {(row_id r, p) | r p. r \<in> set rows \<and> row_parent r = Some p}"

fun close_all :: "rstr \<Rightarrow> rstr \<Rightarrow> rstr list \<Rightarrow> task list \<Rightarrow> list_error + task list" where
  "close_all session result [] rows = Inr rows"
| "close_all session result (i # is) rows =
     (case close_row rows session i result of
        Inl e \<Rightarrow> Inl e
      | Inr rows' \<Rightarrow> close_all session result is rows')"

lemma finite_parent_rel: "finite (parent_rel rows)"
proof -
  have "parent_rel rows \<subseteq> (\<lambda>r. (row_id r, the (row_parent r))) ` set rows"
    by (force simp: parent_rel_def)
  then show ?thesis by (rule finite_subset) simp
qed

lemma leaf_exists:
  assumes "acyclic (parent_rel rows)" and "rows \<noteq> []"
  shows "\<exists>r \<in> set rows. \<forall>s \<in> set rows. row_parent s \<noteq> Some (row_id r)"
proof -
  have wf: "wf (parent_rel rows)" by (rule finite_acyclic_wf [OF finite_parent_rel assms(1)])
  have "row_id (hd rows) \<in> set (map row_id rows)" using assms(2) by (cases rows) auto
  from wfE_min [OF wf this] obtain z where z: "z \<in> set (map row_id rows)"
    "\<And>y. (y, z) \<in> parent_rel rows \<Longrightarrow> y \<notin> set (map row_id rows)"
    by blast
  then obtain r where r: "r \<in> set rows" "z = row_id r" by auto
  have "row_parent s \<noteq> Some z" if "s \<in> set rows" for s
    using z(2) [of "row_id s"] that by (auto simp: parent_rel_def)
  then show ?thesis using r by blast
qed

lemma row_id_after_close [simp]: "row_id \<circ> after_close row result = row_id"
  by (auto simp: fun_eq_iff)

lemma drain:
  assumes "wf_list rows" and "acyclic (parent_rel rows)"
    and "\<forall>r \<in> set rows. assigned_to r = None \<or> assigned_to r = Some session" and "trim result \<noteq> []"
  shows "\<exists>is. mset is = mset (map row_id rows) \<and> close_all session result is rows = Inr []"
  using assms(1-3)
proof (induction "length rows" arbitrary: rows rule: less_induct)
  case less
  show ?case
  proof (cases "rows = []")
    case False
    then obtain r where r: "r \<in> set rows" "\<forall>s \<in> set rows. row_parent s \<noteq> Some (row_id r)"
      using leaf_exists less.prems(2) by blast
    note d = wf_list_distinct [OF less.prems(1)]
    have find: "find_row (\<lambda>s. row_id s = row_id r) rows = Some r"
      using d r(1) by (induction rows) (auto simp: image_iff)
    let ?rows' = "map (after_close r (trim result)) (filter (\<lambda>s. row_id s \<noteq> row_id r) rows)"
    have step: "close_row rows session (row_id r) result = Inr ?rows'"
      using find r assms(4) less.prems(3) by (auto simp: close_row_shape drop_row_eq [OF d])
    have shorter: "length ?rows' < length rows"
      using r(1) by (simp add: length_filter_less)
    have "parent_rel ?rows' \<subseteq> parent_rel rows" by (auto simp: parent_rel_def)
    then have "acyclic (parent_rel ?rows')" using less.prems(2) by (rule acyclic_subset [rotated])
    then obtain "is" where "is": "mset is = mset (map row_id ?rows')" "close_all session result is ?rows' = Inr []"
      using less.hyps [OF shorter] close_row_wf [OF less.prems(1) step] less.prems(3) by force
    have "mset (map row_id rows) = add_mset (row_id r) (mset (map row_id ?rows'))"
      using d r(1)
    proof (induction rows)
      case (Cons s rows)
      show ?case
      proof (cases "row_id s = row_id r")
        case True
        then have "filter (\<lambda>t. row_id t \<noteq> row_id r) rows = rows"
          using Cons.prems by (auto intro!: filter_True simp: image_iff)
        then show ?thesis using True by simp
      next
        case False
        then have "r \<in> set rows" using Cons.prems by auto
        then show ?thesis using Cons False by simp
      qed
    qed simp
    then show ?thesis
      using "is" step by (intro exI [of _ "row_id r # is"]) simp
  qed (auto intro: exI [of _ "[]"])
qed

text \<open>
  A list whose rows nobody else holds can always be finished: if no row is its own
  ancestor, some order of closing every row once, each with a result, succeeds at every step
  and empties the list. So the rule that a parent waits for its children never locks a
  well-formed list.
\<close>

theorem list_can_be_drained:
  assumes "wf_list rows" and "acyclic (parent_rel rows)"
    and "\<forall>r \<in> set rows. assigned_to r = None \<or> assigned_to r = Some session" and "trim result \<noteq> []"
  shows "\<exists>is. distinct is \<and> set is = set (map row_id rows) \<and> close_all session result is rows = Inr []"
proof -
  obtain "is" where "mset is = mset (map row_id rows)" "close_all session result is rows = Inr []"
    using drain [OF assms] by blast
  then show ?thesis
    using wf_list_distinct [OF assms(1)] by (metis mset_eq_imp_distinct_iff mset_eq_setD)
qed

theorem list_can_be_drained_witness:
  "\<exists>is. close_all ''me'' ''ok'' is
     [default_task\<lparr>content := ''top'', row_id := ''a''\<rparr>,
      default_task\<lparr>content := ''leaf'', row_id := ''b'', row_parent := Some ''a''\<rparr>] = Inr []"
proof -
  let ?rows = "[default_task\<lparr>content := ''top'', row_id := ''a''\<rparr>,
      default_task\<lparr>content := ''leaf'', row_id := ''b'', row_parent := Some ''a''\<rparr>]"
  have "parent_rel ?rows \<subseteq> {(''b'', ''a'')}" by (auto simp: parent_rel_def default_task_def)
  moreover have "acyclic {(''b'', ''a'')}" by (auto simp: acyclic_def trancl_insert)
  ultimately have "acyclic (parent_rel ?rows)" by (rule acyclic_subset [rotated])
  moreover have "wf_list ?rows" by code_simp
  moreover have "\<forall>r \<in> set ?rows. assigned_to r = None \<or> assigned_to r = Some ''me''" by code_simp
  moreover have "trim ''ok'' \<noteq> []" by code_simp
  ultimately have "\<exists>is. distinct is \<and> set is = set (map row_id ?rows) \<and> close_all ''me'' ''ok'' is ?rows = Inr []"
    by (intro list_can_be_drained)
  then show ?thesis by blast
qed

section \<open>A self-parented row\<close>

text \<open>
  An update may name the updated row itself as its parent: the reference check only asks
  that the row exists. The call is accepted, and from then on every close of that row is
  refused, by any session and with any result, because the row counts as its own open
  child.
\<close>

theorem self_parent_accepted_and_stuck:
  assumes "has_id rows i" and "trim i = i" and "i \<noteq> []" and "distinct (map row_id rows)"
  shows "\<exists>rows'. apply_call now (no_input\<lparr>in_action := Some Update, in_id := Some i, in_parent := Some i\<rparr>) rows session
             = Some (Inr rows')
           \<and> (\<forall>s result. \<exists>e. close_row rows' s i result = Inl e)"
proof -
  let ?inp = "no_input\<lparr>in_action := Some Update, in_id := Some i, in_parent := Some i\<rparr>"
  let ?rows = "update_first (\<lambda>r. row_id r = i) (\<lambda>r. update_fields ?inp r) rows"
  have upd: "row_id (update_fields ?inp r) = row_id r" "row_parent (update_fields ?inp r) = Some i" for r
    by (simp_all add: update_fields_refs)
  have "apply_call now ?inp rows session = Some (Inr ?rows)"
    using assms(1-3) has_id_update_first [of "update_fields ?inp" "\<lambda>r. row_id r = i" rows i]
    by (simp add: apply_call_def check_kind_def kind_or_none_def the_action_def apply_update_def
        nonempty_def no_input_def check_references_def referenced_def Let_def)
  moreover have "\<exists>r \<in> set ?rows. row_parent r = Some i"
    using assms(1) upd(2) by (auto simp: update_first_map [OF assms(4)] has_id_iff)
  then have "\<exists>e. close_row ?rows s i result = Inl e" for s result
    using close_row_shape [of ?rows s i result] by (cases "close_row ?rows s i result") auto
  ultimately show ?thesis by blast
qed

theorem self_parent_accepted_and_stuck_witness:
  "\<exists>rows'. apply_call 0 (no_input\<lparr>in_action := Some Update, in_id := Some ''ab'', in_parent := Some ''ab''\<rparr>)
       [default_task\<lparr>content := ''x'', row_id := ''ab''\<rparr>] ''me'' = Some (Inr rows')
     \<and> (\<forall>s result. \<exists>e. close_row rows' s ''ab'' result = Inl e)"
  by (rule self_parent_accepted_and_stuck) code_simp+

section \<open>Anchors and holders\<close>

lemma find_row_map:
  assumes "find_row P rows = Some r" and "\<And>s. P (f s) \<Longrightarrow> P s" and "f r = r"
  shows "find_row P (map f rows) = Some r"
  using assms(1) assms(2,3) by (induction rows) (auto split: if_splits dest: find_row_Some)

text \<open>
  Making the anchor of an untyped run is idempotent and local: a second run finds the same
  anchor and writes nothing, the anchor is a row the session holds that belongs to nothing,
  and a row changes only if the session holds it and it belonged to nothing, in which case it
  now belongs to the anchor and is otherwise as it was.
\<close>

theorem anchor_from_rows_idempotent:
  assumes "anchor_from_rows f session = Inr (Some a, f')"
  shows "anchor_from_rows f' session = Inr (Some a, f')
     \<and> (\<exists>r \<in> set (file_rows f'). row_id r = a \<and> held session r \<and> row_parent r = None)
     \<and> file_rows f' = map (\<lambda>r. if held session r \<and> row_parent r = None \<and> row_id r \<noteq> a
                              then r\<lparr>row_parent := Some a\<rparr> else r) (file_rows f)"
proof -
  let ?P = "\<lambda>r. held session r \<and> row_parent r = None"
  obtain r where ok: "load_ok f" and r: "find_row ?P (file_rows f) = Some r" "row_id r = a"
    using assms by (auto simp: anchor_from_rows_def load_tasks_def Let_def split: option.splits if_splits sum.splits)
  note top = find_row_Some [OF r(1)]
  have fixed: "adopt session a r = r" using r(2) by (simp add: adopt_def)
  have f': "file_rows f' = map (adopt session a) (file_rows f) \<and> load_ok f'"
  proof (cases "list_ex (\<lambda>s. ?P s \<and> row_id s \<noteq> a) (file_rows f)")
    case True
    then show ?thesis
      using assms ok r by (auto simp: anchor_from_rows_def load_tasks_def save_tasks_def Let_def split: if_splits)
  next
    case False
    then have "map (adopt session a) (file_rows f) = file_rows f"
      by (intro map_idI) (auto simp: adopt_def list_ex_iff)
    then show ?thesis
      using assms ok r False by (auto simp: anchor_from_rows_def load_tasks_def Let_def split: if_splits)
  qed
  have "find_row ?P (file_rows f') = Some r"
    unfolding f' [THEN conjunct1] 
    by (rule find_row_map [where f = "adopt session a" and r = r, OF r(1) _ fixed])
       (auto simp: adopt_def held_def split: if_splits)
  moreover have "\<not> list_ex (\<lambda>s. ?P s \<and> row_id s \<noteq> a) (file_rows f')"
    using f' by (auto simp: list_ex_iff adopt_def held_def split: if_splits)
  ultimately have "anchor_from_rows f' session = Inr (Some a, f')"
    using f' r(2) by (simp add: anchor_from_rows_def load_tasks_def Let_def)
  moreover have "r \<in> set (file_rows f')"
    using top fixed f' by (metis image_eqI list.set_map)
  ultimately show ?thesis using top r(2) f' by (auto simp: adopt_def [abs_def])
qed

theorem anchor_from_rows_idempotent_witness:
  "let f = \<lparr>file_rows = [default_task\<lparr>row_id := ''a'', assigned_to := Some ''me''\<rparr>,
                         default_task\<lparr>row_id := ''b'', assigned_to := Some ''me''\<rparr>],
            load_ok = True, save_ok = True\<rparr>;
       f' = \<lparr>file_rows = [default_task\<lparr>row_id := ''a'', assigned_to := Some ''me''\<rparr>,
                         default_task\<lparr>row_id := ''b'', assigned_to := Some ''me'', row_parent := Some ''a''\<rparr>],
            load_ok = True, save_ok = True\<rparr>
   in anchor_from_rows f' ''me'' = Inr (Some ''a'', f')"
proof -
  have "anchor_from_rows \<lparr>file_rows = [default_task\<lparr>row_id := ''a'', assigned_to := Some ''me''\<rparr>,
                         default_task\<lparr>row_id := ''b'', assigned_to := Some ''me''\<rparr>],
            load_ok = True, save_ok = True\<rparr> ''me''
      = Inr (Some ''a'', \<lparr>file_rows = [default_task\<lparr>row_id := ''a'', assigned_to := Some ''me''\<rparr>,
                         default_task\<lparr>row_id := ''b'', assigned_to := Some ''me'', row_parent := Some ''a''\<rparr>],
            load_ok = True, save_ok = True\<rparr>)"
    by code_simp
  from anchor_from_rows_idempotent [OF this] show ?thesis by (simp only: Let_def)
qed

section \<open>The file format\<close>

text \<open>
  Reading back what was written gives the same rows, in order, for any serializer whose
  output the parser reads back, never holds a line break or a carriage return, and is never
  blank: what JSON texts of objects are.
\<close>

theorem json_lines_round_trip:
  assumes "\<And>x. de (ser x) = Inr x" and "\<And>x. CHR 0x0A \<notin> set (ser x)" and "\<And>x. CHR 0x0D \<notin> set (ser x)"
    and "\<And>x. trim (ser x) \<noteq> []"
  shows "read_json_lines de (write_json_lines ser xs) = Inr xs"
proof -
  have "plain_line (ser x)" for x
    using assms(2,3) [of x] unfolding plain_line_def by (metis last_in_set)
  moreover have "write_json_lines ser xs = unlines (map ser xs)"
    by (simp add: write_json_lines_def unlines_def comp_def)
  ultimately have "str_lines (write_json_lines ser xs) = map ser xs"
    by (simp add: str_lines_unlines list_all_iff)
  moreover have "parse_all de (map ser xs) = Inr xs"
    by (induction xs) (simp_all add: assms(1))
  ultimately show ?thesis
    using assms(4) by (simp add: read_json_lines_def filter_map comp_def)
qed

theorem json_lines_round_trip_witness:
  "read_json_lines (\<lambda>s. if length s = 2 then Inr True else Inr False)
     (write_json_lines (\<lambda>b. if b then ''{}'' else ''{1}'') [True, False, True]) = (Inr [True, False, True] :: nat + bool list)"
proof (rule json_lines_round_trip)
  show "trim (if x then ''{}'' else ''{1}'') \<noteq> []" for x
    by (cases x; simp only: if_True if_False; code_simp)
qed (auto split: if_splits)

end
