(* ===== verification/Plan_Graph.thy ===== *)
theory Plan_Graph
  imports Task_List "HOL-Library.List_Lexorder"
begin

text \<open>
  The dependency graph of the rows, \<open>crates/kcode-plan/src/lib.rs\<close>. A \<open>HashMap\<close>
  is iterated in an unspecified order, so the order in which \<open>indegree\<close> lists its keys
  is an argument \<open>order\<close>, a list of the distinct ids. \<open>queue\<close> is a stack: its head is
  the end of the vector. A map of counts is \<^typ>\<open>rstr \<Rightarrow> nat\<close>, 0 where absent.
\<close>

record plan_graph_summary =
  blocked_ids :: "rstr list"
  unresolved_dependency_ids :: "rstr list"
  cycle_ids :: "rstr list"

section \<open>The functions\<close>

definition known_ids :: "task list \<Rightarrow> rstr set" where
  "known_ids items = set (map row_id items)"

definition missing_dependencies :: "task \<Rightarrow> rstr set \<Rightarrow> rstr list" where
  "missing_dependencies item known = filter (\<lambda>d. d \<notin> known) (blocked_by item)"

text \<open>The edges the second loop visits: a dependency in the list, and its dependent.\<close>

definition edges :: "task list \<Rightarrow> (rstr \<times> rstr) list" where
  "edges items =
     concat (map (\<lambda>item. map (\<lambda>d. (d, row_id item))
       (filter (\<lambda>d. d \<in> known_ids items) (blocked_by item))) items)"

definition indegrees :: "task list \<Rightarrow> rstr \<Rightarrow> nat" where
  "indegrees items i = length (filter (\<lambda>e. snd e = i) (edges items))"

definition dependents :: "(rstr \<times> rstr) list \<Rightarrow> rstr \<Rightarrow> rstr list" where
  "dependents es i = map snd (filter (\<lambda>e. fst e = i) es)"

text \<open>The body of the loop over the dependents of a visited id.\<close>

definition relax :: "(rstr \<Rightarrow> nat) \<times> rstr list \<Rightarrow> rstr \<Rightarrow> (rstr \<Rightarrow> nat) \<times> rstr list" where
  "relax s child =
     (let d = fst s child - 1
      in ((fst s)(child := d), if d = 0 then child # snd s else snd s))"

lemma unvisited_sources:
  "i \<in> fst ` set es \<Longrightarrow> i \<notin> visited \<Longrightarrow>
     card (fst ` set es - insert i visited) < card (fst ` set es - visited)"
  by (intro psubset_card_mono) auto

lemma no_dependents:
  assumes "i \<notin> fst ` set es"
  shows "dependents es i = []" and "fst ` set es - insert i visited = fst ` set es - visited"
  using assms by (force simp: dependents_def filter_empty_conv)+

function visit ::
  "(rstr \<times> rstr) list \<Rightarrow> (rstr \<Rightarrow> nat) \<Rightarrow> rstr set \<Rightarrow> rstr list \<Rightarrow> (rstr \<Rightarrow> nat) \<times> rstr set" where
  "visit es deg visited [] = (deg, visited)"
| "visit es deg visited (i # queue) =
     (if i \<in> visited then visit es deg visited queue
      else (case foldl relax (deg, queue) (dependents es i) of
              (deg', queue') \<Rightarrow> visit es deg' (insert i visited) queue'))"
  by pat_completeness auto
termination
proof (relation "measures [\<lambda>(es, deg, visited, queue). card (fst ` set es - visited),
    \<lambda>(es, deg, visited, queue). length queue]", goal_cases)
  case (3 es deg visited i queue deg' queue')
  then show ?case
    by (cases "i \<in> fst ` set es") (simp_all add: unvisited_sources no_dependents del: card_Diff_insert)
qed auto

definition cycle_item_ids :: "task list \<Rightarrow> rstr list \<Rightarrow> rstr list" where
  "cycle_item_ids items order =
     (let queue = rev (filter (\<lambda>i. indegrees items i = 0) order);
          (deg, visited) = visit (edges items) (indegrees items) {} queue
      in sort (filter (\<lambda>i. 0 < deg i \<and> i \<notin> visited) order))"

definition is_blocked :: "task list \<Rightarrow> rstr list \<Rightarrow> task \<Rightarrow> bool" where
  "is_blocked items cycles item =
     (missing_dependencies item (known_ids items) \<noteq> []
      \<or> list_ex (\<lambda>d. d \<in> known_ids items) (blocked_by item)
      \<or> row_id item \<in> set cycles)"

text \<open>A \<open>BTreeSet\<close> yields its elements sorted and once each.\<close>

definition summarize_plan_graph :: "task list \<Rightarrow> rstr list \<Rightarrow> plan_graph_summary" where
  "summarize_plan_graph items order =
     (let cycles = cycle_item_ids items order
      in \<lparr>blocked_ids = sort (map row_id (filter (is_blocked items cycles) items)),
          unresolved_dependency_ids =
            sort (remdups (concat (map (\<lambda>item. missing_dependencies item (known_ids items)) items))),
          cycle_ids = cycles\<rparr>)"

section \<open>What the visit computes\<close>

text \<open>
  An id settles when everything it waits for settles. The visit settles exactly these,
  and the counts it leaves are the numbers of edges from unvisited ids.
\<close>

inductive settles :: "(rstr \<times> rstr) list \<Rightarrow> rstr \<Rightarrow> bool" for es where
  settlesI: "(\<And>d. (d, i) \<in> set es \<Longrightarrow> settles es d) \<Longrightarrow> settles es i"

inductive_cases settlesE: "settles es i"
inductive_simps settles_iff: "settles es i"

definition waiting :: "(rstr \<times> rstr) list \<Rightarrow> rstr set \<Rightarrow> rstr \<Rightarrow> nat" where
  "waiting es visited i = length (filter (\<lambda>e. snd e = i \<and> fst e \<notin> visited) es)"

lemma waiting_0: "waiting es visited i = 0 \<longleftrightarrow> (\<forall>d. (d, i) \<in> set es \<longrightarrow> d \<in> visited)"
  by (auto simp: waiting_def filter_empty_conv)

lemma waiting_insert:
  "v \<notin> visited \<Longrightarrow>
     waiting es (insert v visited) i + count_list (dependents es v) i = waiting es visited i"
  unfolding waiting_def dependents_def by (induction es) auto

text \<open>What the inner loop does to the counts and to the stack.\<close>

lemma relax_counts: "fst (foldl relax (deg, queue) cs) i = deg i - count_list cs i"
  by (induction cs arbitrary: deg queue) (auto simp: relax_def Let_def)

lemma relax_queue:
  assumes "\<forall>i. count_list cs i \<le> deg i"
  shows "set (snd (foldl relax (deg, queue) cs)) = set queue \<union> {i \<in> set cs. deg i = count_list cs i}"
  using assms
proof (induction cs arbitrary: deg queue)
  case (Cons c cs)
  let ?d = "deg(c := deg c - 1)"
  have le: "count_list cs i \<le> ?d i" for i
    using Cons.prems [rule_format, of i] by (auto split: if_splits)
  have pos: "0 < deg c" using Cons.prems [rule_format, of c] by simp
  have IH: "set (snd (foldl relax (?d, q) cs)) = set q \<union> {i \<in> set cs. ?d i = count_list cs i}" for q
    using Cons.IH [of ?d q] le by blast
  have c: "count_list cs c = 0 \<longleftrightarrow> c \<notin> set cs" by (rule count_list_0_iff)
  show ?case
  proof (rule set_eqI)
    fix x
    show "x \<in> set (snd (foldl relax (deg, queue) (c # cs)))
        \<longleftrightarrow> x \<in> set queue \<union> {i \<in> set (c # cs). deg i = count_list (c # cs) i}"
      using IH le [of c] c pos
      by (cases "x = c"; cases "count_list cs c = 0") (auto simp: relax_def Let_def)
  qed
qed simp

definition visit_inv :: "(rstr \<times> rstr) list \<Rightarrow> rstr set \<Rightarrow> (rstr \<Rightarrow> nat) \<Rightarrow> rstr set \<Rightarrow> rstr list \<Rightarrow> bool" where
  "visit_inv es ids deg visited queue =
     ((\<forall>i. deg i = waiting es visited i)
      \<and> (\<forall>i \<in> visited \<union> set queue. settles es i)
      \<and> (\<forall>i \<in> ids. deg i = 0 \<longrightarrow> i \<in> visited \<union> set queue))"

lemma visit_step_inv:
  assumes inv: "visit_inv es ids deg visited (i # queue)" and i: "i \<notin> visited"
    and step: "foldl relax (deg, queue) (dependents es i) = (deg', queue')" and es: "snd ` set es \<subseteq> ids"
  shows "visit_inv es ids deg' (insert i visited) queue'"
proof -
  have deg: "deg j = waiting es visited j" for j using inv by (simp add: visit_inv_def)
  have w: "waiting es (insert i visited) j + count_list (dependents es i) j = deg j" for j
    using waiting_insert [OF i, of es j] deg by simp
  have deg': "deg' j = waiting es (insert i visited) j" for j
    using relax_counts [of deg queue "dependents es i" j] w [of j] by (simp add: step)
  have "\<forall>j. count_list (dependents es i) j \<le> deg j" using w by (metis le_add2)
  note queue = relax_queue [OF this, of queue]
  have "deg j = count_list (dependents es i) j \<longleftrightarrow> deg' j = 0" for j
    using w [of j] deg' [of j] by linarith
  then have queue': "set queue' = set queue \<union> {j \<in> set (dependents es i). deg' j = 0}"
    using queue by (simp add: step)
  have "settles es j" if "deg' j = 0" for j
  proof (rule settlesI)
    fix d assume "(d, j) \<in> set es"
    then have "d \<in> insert i visited" using that by (simp add: deg' waiting_0)
    then show "settles es d" using inv by (auto simp: visit_inv_def)
  qed
  moreover have "j \<in> insert i visited \<union> set queue'" if "j \<in> ids" "deg' j = 0" for j
  proof (cases "deg j = 0")
    case True
    then show ?thesis using inv that(1) queue' by (auto simp: visit_inv_def)
  next
    case False
    then have "count_list (dependents es i) j \<noteq> 0" using w [of j] that(2) by (simp add: deg')
    then show ?thesis using queue' that(2) by (simp add: count_list_0_iff)
  qed
  ultimately show ?thesis
    using inv deg' queue' by (auto simp: visit_inv_def)
qed

lemma visit_inv_end:
  "visit_inv es ids deg visited queue \<Longrightarrow> snd ` set es \<subseteq> ids \<Longrightarrow>
     visit_inv es ids (fst (visit es deg visited queue)) (snd (visit es deg visited queue)) []"
proof (induction es deg visited queue rule: visit.induct)
  case (2 es deg visited i queue)
  show ?case
  proof (cases "i \<in> visited")
    case True
    then have "visit_inv es ids deg visited queue" using "2.prems"(1) by (auto simp: visit_inv_def)
    then show ?thesis using "2.IH"(1) True "2.prems"(2) by simp
  next
    case False
    obtain deg' queue' where step: "foldl relax (deg, queue) (dependents es i) = (deg', queue')"
      by (cases "foldl relax (deg, queue) (dependents es i)")
    have "visit_inv es ids deg' (insert i visited) queue'"
      by (rule visit_step_inv [OF "2.prems"(1) False step "2.prems"(2)])
    then show ?thesis using "2.IH"(2) [OF False step [symmetric]] False "2.prems"(2) by (simp add: step)
  qed
qed simp

lemma visited_settles:
  assumes "visit_inv es ids deg visited []" and "fst ` set es \<union> snd ` set es \<subseteq> ids" and "i \<in> ids"
  shows "i \<in> visited \<longleftrightarrow> settles es i"
proof
  show "i \<in> visited \<Longrightarrow> settles es i" using assms(1) by (simp add: visit_inv_def)
next
  assume "settles es i"
  then show "i \<in> visited" using assms(3)
  proof induction
    case (settlesI i)
    have "waiting es visited i = 0"
      unfolding waiting_0 using settlesI.IH assms(2) by force
    then show ?case using assms(1) settlesI.prems by (auto simp: visit_inv_def)
  qed
qed

lemma edges_known: "fst ` set (edges items) \<union> snd ` set (edges items) \<subseteq> known_ids items"
  by (auto simp: edges_def known_ids_def)

lemma cycle_item_ids_settles:
  assumes "distinct order" and "set order = known_ids items"
  shows "set (cycle_item_ids items order) = {i \<in> known_ids items. \<not> settles (edges items) i}"
    and "sorted (cycle_item_ids items order)" and "distinct (cycle_item_ids items order)"
proof -
  let ?es = "edges items"
  let ?q = "rev (filter (\<lambda>i. indegrees items i = 0) order)"
  obtain deg visited where v: "visit ?es (indegrees items) {} ?q = (deg, visited)"
    by (cases "visit ?es (indegrees items) {} ?q")
  have start: "indegrees items i = waiting ?es {} i" for i
    by (simp add: indegrees_def waiting_def)
  have "settles ?es i" if "indegrees items i = 0" for i
    by (rule settlesI) (use that in \<open>auto simp: start waiting_0\<close>)
  then have "visit_inv ?es (known_ids items) (indegrees items) {} ?q"
    using assms(2) start by (auto simp: visit_inv_def)
  from visit_inv_end [OF this] have inv: "visit_inv ?es (known_ids items) deg visited []"
    using edges_known [of items] v by simp
  have vis: "i \<in> visited \<longleftrightarrow> settles ?es i" if "i \<in> known_ids items" for i
    by (rule visited_settles [OF inv edges_known that])
  have "0 < deg i" if "i \<in> known_ids items" "i \<notin> visited" for i
    using inv that by (auto simp: visit_inv_def)
  then show "set (cycle_item_ids items order) = {i \<in> known_ids items. \<not> settles ?es i}"
    using assms(2) vis by (auto simp: cycle_item_ids_def v)
  show "sorted (cycle_item_ids items order)" "distinct (cycle_item_ids items order)"
    using assms(1) by (simp_all add: cycle_item_ids_def v)
qed

section \<open>Cycles\<close>

text \<open>In a finite graph an id does not settle exactly when a cycle reaches it.\<close>

lemma on_cycle_not_settles: "settles es c \<Longrightarrow> (c, c) \<notin> (set es)\<^sup>+"
proof (induction rule: settles.induct)
  case (settlesI i)
  show ?case
  proof
    assume "(i, i) \<in> (set es)\<^sup>+"
    then obtain d where d: "(i, d) \<in> (set es)\<^sup>*" "(d, i) \<in> set es" by (meson tranclD2)
    from d(2,1) have "(d, d) \<in> (set es)\<^sup>+" by (rule rtrancl_into_trancl2)
    then show False using settlesI.IH [OF d(2)] by blast
  qed
qed

lemma downstream_not_settles:
  assumes "(c, c) \<in> (set es)\<^sup>+" and "(c, i) \<in> (set es)\<^sup>*"
  shows "\<not> settles es i"
  using assms(2)
proof (induction rule: rtrancl_induct)
  case base
  then show ?case using on_cycle_not_settles assms(1) by blast
next
  case (step y z)
  then show ?case by (auto elim: settlesE)
qed

text \<open>An id that does not settle has an unsettled predecessor; following these in a finite
  graph repeats one.\<close>

lemma unsettled_has_cycle:
  assumes "\<not> settles es i"
  shows "\<exists>c. (c, c) \<in> (set es)\<^sup>+ \<and> (c, i) \<in> (set es)\<^sup>*"
proof (rule ccontr)
  assume no: "\<not> ?thesis"
  let ?R = "{(d, j) \<in> set es. (j, i) \<in> (set es)\<^sup>*}"
  have sub: "(x, y) \<in> (set es)\<^sup>+ \<and> (y, i) \<in> (set es)\<^sup>*" if "(x, y) \<in> ?R\<^sup>+" for x y
    using that
  proof (induction rule: trancl_induct)
    case (step y z)
    then have "(x, z) \<in> (set es)\<^sup>+" by (blast intro: trancl_into_trancl)
    then show ?case using step by blast
  qed blast
  have "acyclic ?R"
    unfolding acyclic_def
  proof (intro allI notI)
    fix x assume "(x, x) \<in> ?R\<^sup>+"
    from sub [OF this] show False using no by blast
  qed
  moreover have "finite ?R" by (rule finite_subset [of _ "set es"]) auto
  ultimately have wf: "wf ?R" by (rule finite_acyclic_wf [rotated])
  have "(j, i) \<in> (set es)\<^sup>* \<longrightarrow> settles es j" for j
    using wf
  proof (induction j rule: wf_induct_rule)
    case (less j)
    show ?case
    proof
      assume j: "(j, i) \<in> (set es)\<^sup>*"
      show "settles es j"
      proof (rule settlesI)
        fix d assume d: "(d, j) \<in> set es"
        then have "(d, i) \<in> (set es)\<^sup>*" using j by (rule converse_rtrancl_into_rtrancl)
        then show "settles es d" using less.IH [of d] d j by blast
      qed
    qed
  qed
  then show False using assms by blast
qed

section \<open>Properties\<close>

text \<open>
  The worklist reports, sorted and once each, exactly the ids of the list that lie on a
  dependency cycle or downstream of one, for every list of rows (duplicate ids, self
  dependencies and dangling entries included) and every iteration order of the hash map; so the
  answer does not depend on that order. (An id downstream of a cycle is reported without being
  on one.)
\<close>

theorem cycle_ids_spec:
  assumes "distinct order" and "set order = known_ids items"
  shows "set (cycle_item_ids items order) =
           {i \<in> known_ids items. \<exists>c. (c, c) \<in> (set (edges items))\<^sup>+ \<and> (c, i) \<in> (set (edges items))\<^sup>*}
         \<and> sorted (cycle_item_ids items order) \<and> distinct (cycle_item_ids items order)"
proof -
  have "\<not> settles (edges items) i \<longleftrightarrow>
      (\<exists>c. (c, c) \<in> (set (edges items))\<^sup>+ \<and> (c, i) \<in> (set (edges items))\<^sup>*)" for i
    using unsettled_has_cycle downstream_not_settles by blast
  then show ?thesis using cycle_item_ids_settles [OF assms] by auto
qed

theorem cycle_ids_spec_witness:
  "let items = [default_task\<lparr>row_id := ''a'', blocked_by := [''b'']\<rparr>,
                default_task\<lparr>row_id := ''b'', blocked_by := [''a'']\<rparr>,
                default_task\<lparr>row_id := ''c'', blocked_by := [''a'', ''zz'']\<rparr>]
   in cycle_item_ids items [''c'', ''a'', ''b''] = [''a'', ''b'', ''c'']
      \<and> sorted (cycle_item_ids items [''c'', ''a'', ''b''])"
proof -
  let ?items = "[default_task\<lparr>row_id := ''a'', blocked_by := [''b'']\<rparr>,
                default_task\<lparr>row_id := ''b'', blocked_by := [''a'']\<rparr>,
                default_task\<lparr>row_id := ''c'', blocked_by := [''a'', ''zz'']\<rparr>]"
  have "distinct [''c'', ''a'', ''b'']" "set [''c'', ''a'', ''b''] = known_ids ?items"
    by (auto simp: known_ids_def default_task_def)
  from cycle_ids_spec [OF this] have "sorted (cycle_item_ids ?items [''c'', ''a'', ''b''])" by blast
  moreover have "cycle_item_ids ?items [''c'', ''a'', ''b''] = [''a'', ''b'', ''c'']" by code_simp
  ultimately show ?thesis by (simp only: Let_def simp_thms)
qed

lemma indegree_blocked:
  assumes "distinct (map row_id items)" and "item \<in> set items" and "0 < indegrees items (row_id item)"
  shows "blocked_by item \<noteq> []"
proof -
  obtain d where "(d, row_id item) \<in> set (edges items)"
    using assms(3) by (auto simp: indegrees_def filter_empty_conv)
  then obtain item' where "item' \<in> set items" "row_id item' = row_id item" "d \<in> set (blocked_by item')"
    by (auto simp: edges_def)
  moreover from this have "item' = item" using assms(1,2) by (metis distinct_map inj_onD)
  ultimately show ?thesis by auto
qed

lemma cyclic_indegree:
  assumes "distinct order" and "set order = known_ids items" and "i \<in> set (cycle_item_ids items order)"
  shows "0 < indegrees items i"
proof (rule ccontr)
  assume "\<not> 0 < indegrees items i"
  then have "filter (\<lambda>e. snd e = i) (edges items) = []" by (simp add: indegrees_def)
  then have none: "(d, i) \<notin> set (edges items)" for d
    by (metis (mono_tags, lifting) filter_empty_conv snd_conv)
  have "settles (edges items) i" by (rule settlesI) (simp add: none)
  moreover have "\<not> settles (edges items) i"
    using assms(3) unfolding cycle_item_ids_settles(1) [OF assms(1,2)] by blast
  ultimately show False by contradiction
qed

text \<open>
  A row is reported as blocked exactly when its \<open>blocked_by\<close> is not empty, which is
  the negation of the readiness test the turn loop uses; the unresolved ids are exactly the
  entries that name no row, sorted and once each.
\<close>

theorem summary_spec:
  assumes "distinct (map row_id items)" and "distinct order" and "set order = known_ids items"
  shows "blocked_ids (summarize_plan_graph items order) =
           sort (map row_id (filter (\<lambda>item. blocked_by item \<noteq> []) items))
         \<and> set (unresolved_dependency_ids (summarize_plan_graph items order)) =
             {d. \<exists>item \<in> set items. d \<in> set (blocked_by item) \<and> d \<notin> known_ids items}
         \<and> sorted (unresolved_dependency_ids (summarize_plan_graph items order))
         \<and> distinct (unresolved_dependency_ids (summarize_plan_graph items order))"
proof -
  have "is_blocked items (cycle_item_ids items order) item \<longleftrightarrow> blocked_by item \<noteq> []"
    if "item \<in> set items" for item
  proof -
    have "row_id item \<in> set (cycle_item_ids items order) \<Longrightarrow> blocked_by item \<noteq> []"
      by (rule indegree_blocked [OF assms(1) that cyclic_indegree [OF assms(2,3)]])
    moreover have "missing_dependencies item (known_ids items) \<noteq> []
        \<or> list_ex (\<lambda>d. d \<in> known_ids items) (blocked_by item) \<longleftrightarrow> blocked_by item \<noteq> []"
      by (cases "blocked_by item") (auto simp: missing_dependencies_def filter_empty_conv list_ex_iff)
    ultimately show ?thesis by (auto simp: is_blocked_def)
  qed
  then have "filter (is_blocked items (cycle_item_ids items order)) items
      = filter (\<lambda>item. blocked_by item \<noteq> []) items"
    by (intro filter_cong) auto
  then show ?thesis
    by (auto simp: summarize_plan_graph_def Let_def missing_dependencies_def)
qed

theorem summary_spec_witness:
  "blocked_ids (summarize_plan_graph
     [default_task\<lparr>row_id := ''b'', blocked_by := [''a'']\<rparr>, default_task\<lparr>row_id := ''a''\<rparr>] [''a'', ''b''])
   = [''b'']"
proof -
  let ?items = "[default_task\<lparr>row_id := ''b'', blocked_by := [''a'']\<rparr>, default_task\<lparr>row_id := ''a''\<rparr>]"
  have "distinct (map row_id ?items)" "distinct [''a'', ''b'']" "set [''a'', ''b''] = known_ids ?items"
    by (auto simp: known_ids_def default_task_def)
  from summary_spec [OF this]
  have "blocked_ids (summarize_plan_graph ?items [''a'', ''b''])
      = sort (map row_id (filter (\<lambda>item. blocked_by item \<noteq> []) ?items))" by blast
  also have "\<dots> = [''b'']" by code_simp
  finally show ?thesis .
qed

end
