(* ===== verification/Live_Turn.thy ===== *)
theory Live_Turn
  imports Work_List_Properties Plan_Graph
begin

text \<open>
  The turn loop of a session, \<open>crates/kcode-app-core/src/server/live_turn.rs\<close>: which
  row a session works next, how a granted turn continues, and when the loop ends. What the
  loop does not decide itself (whether a turn succeeds, what the list file holds when it is
  read again, whether the agent is idle) is an argument: a \<open>turn_event\<close> per turn.
  Status updates and events sent to clients are not modelled.
\<close>

section \<open>Picking a row\<close>

definition kind_of :: "task \<Rightarrow> rstr option" where
  "kind_of row =
     (case row_kind row of None \<Rightarrow> None | Some k \<Rightarrow> if trim k \<noteq> [] then Some k else None)"

definition row_is_ready :: "task list \<Rightarrow> task \<Rightarrow> bool" where
  "row_is_ready rows row =
     (kind_of row \<noteq> None \<and> blocked_by row = []
      \<and> \<not> list_ex (\<lambda>child. row_parent child = Some (row_id row)) rows)"

text \<open>The walk along \<open>parent\<close>; the first argument counts the iterations left.\<close>

fun walk_parents :: "nat \<Rightarrow> task list \<Rightarrow> rstr option \<Rightarrow> rstr \<Rightarrow> bool" where
  "walk_parents 0 rows current anchor = False"
| "walk_parents (Suc n) rows None anchor = False"
| "walk_parents (Suc n) rows (Some candidate) anchor =
     (if candidate = anchor then True
      else walk_parents n rows
             (case find_row (\<lambda>row. row_id row = candidate) rows of
                None \<Rightarrow> None | Some row \<Rightarrow> row_parent row)
             anchor)"

definition descends_from :: "task list \<Rightarrow> rstr \<Rightarrow> rstr \<Rightarrow> bool" where
  "descends_from rows i anchor = walk_parents (Suc (length rows)) rows (Some i) anchor"

definition may_work :: "task list \<Rightarrow> rstr \<Rightarrow> rstr list \<Rightarrow> rstr option \<Rightarrow> task \<Rightarrow> bool" where
  "may_work rows session worked scope row =
     (assigned_to row = Some session \<and> row_id row \<notin> set worked \<and> row_is_ready rows row
      \<and> (case scope of None \<Rightarrow> True | Some anchor \<Rightarrow> descends_from rows (row_id row) anchor))"

definition next_held_ready_row ::
  "task list \<Rightarrow> rstr \<Rightarrow> rstr list \<Rightarrow> rstr option \<Rightarrow> task option" where
  "next_held_ready_row rows session worked scope =
     (case find_row (\<lambda>row. may_work rows session worked scope row \<and> Some (row_id row) \<noteq> scope) rows of
        Some row \<Rightarrow> Some row
      | None \<Rightarrow> find_row (may_work rows session worked scope) rows)"

definition row_turn_message :: "task \<Rightarrow> rstr" where
  "row_turn_message row =
     ''Continue the work list. Next row: '' @ row_id row @ [CHR 0x0A] @ ''content: '' @ content row
     @ (case kind_of row of None \<Rightarrow> [] | Some k \<Rightarrow> [CHR 0x0A] @ ''kind: '' @ k)
     @ (case row_note row of
          None \<Rightarrow> [] | Some n \<Rightarrow> if trim n \<noteq> [] then [CHR 0x0A] @ ''note: '' @ n else [])
     @ [CHR 0x0A] @ ''Work it and close it with the result.''"

section \<open>Grants\<close>

record run_grant =
  may_continue :: bool
  grant_scope :: "rstr option"

definition grant_denied :: run_grant where
  "grant_denied = \<lparr>may_continue = False, grant_scope = None\<rparr>"

definition whole_list :: run_grant where
  "whole_list = \<lparr>may_continue = True, grant_scope = None\<rparr>"

definition scoped :: "rstr \<Rightarrow> run_grant" where
  "scoped anchor = \<lparr>may_continue = True, grant_scope = Some anchor\<rparr>"

text \<open>\<open>resolve_grant\<close>: the grant, the run's words, and the file afterwards.\<close>

definition resolve_grant ::
  "nat \<Rightarrow> rstr \<Rightarrow> work_file \<Rightarrow> rstr \<Rightarrow> (run_grant \<times> rstr \<times> work_file) option" where
  "resolve_grant now words f session =
     (case anchor_from_words now f session words (Some (kind_str Synthesize)) of
        None \<Rightarrow> None
      | Some (Inr (anchor, f')) \<Rightarrow> Some (scoped (row_id anchor), content anchor, f')
      | Some (Inl e) \<Rightarrow> Some (whole_list, words, f))"

record turn_seed =
  seed_message :: rstr
  seed_row_id :: "rstr option"

definition seed_of_row :: "task \<Rightarrow> turn_seed" where
  "seed_of_row row = \<lparr>seed_message = row_turn_message row, seed_row_id = Some (row_id row)\<rparr>"

text \<open>
  \<open>continue_with_next_row\<close> up to starting the turn: the seed, and the file afterwards. The
  pick reads the rows loaded before the anchor is made.
\<close>

definition continue_with_next_row ::
  "work_file \<Rightarrow> rstr \<Rightarrow> run_grant \<Rightarrow> turn_seed option \<times> work_file" where
  "continue_with_next_row f session grant =
     (case load_tasks f of
        Inl e \<Rightarrow> (None, f)
      | Inr rows \<Rightarrow>
          (let f' = (if grant_scope grant = None
                     then (case anchor_from_rows f session of Inl e \<Rightarrow> f | Inr (a, f') \<Rightarrow> f')
                     else f)
           in (map_option seed_of_row (next_held_ready_row rows session [] (grant_scope grant)), f')))"

text \<open>The sessions \<open>wake_ready_owners\<close> continues, in its order; \<open>headless\<close> looks a
  holder up in the members' map.\<close>

definition ready_owners :: "task list \<Rightarrow> (rstr \<Rightarrow> bool) \<Rightarrow> rstr list" where
  "ready_owners rows headless =
     remdups_adj (sort (filter headless
       (List.map_filter assigned_to (filter (row_is_ready rows) rows))))"

section \<open>The loop\<close>

record turn_event =
  turn_ok :: bool
  rows_read :: "list_error + task list"
  agent_idle :: bool

text \<open>What follows a turn: the row the next one works, or \<^const>\<open>None\<close> at the end of the run.\<close>

definition next_row_turn :: "list_error + task list \<Rightarrow> rstr \<Rightarrow> rstr list \<Rightarrow> rstr option \<Rightarrow> task option" where
  "next_row_turn loaded session worked scope =
     (case loaded of Inl e \<Rightarrow> None | Inr rows \<Rightarrow> next_held_ready_row rows session worked scope)"

definition after_turn :: "run_grant \<Rightarrow> rstr \<Rightarrow> rstr list \<Rightarrow> turn_event \<Rightarrow> task option" where
  "after_turn grant session worked e =
     (if \<not> turn_ok e then None
      else if \<not> may_continue grant then None
      else (case next_row_turn (rows_read e) session worked (grant_scope grant) of
              None \<Rightarrow> None
            | Some row \<Rightarrow> if agent_idle e then Some row else None))"

text \<open>The rows the run works after its first turn, one event per turn.\<close>

fun run_turns :: "run_grant \<Rightarrow> rstr \<Rightarrow> rstr list \<Rightarrow> turn_event list \<Rightarrow> task list" where
  "run_turns grant session worked [] = []"
| "run_turns grant session worked (e # es) =
     (case after_turn grant session worked e of
        None \<Rightarrow> []
      | Some row \<Rightarrow> row # run_turns grant session (row_id row # worked) es)"

definition spawn_tracked_live_turn ::
  "run_grant \<Rightarrow> rstr \<Rightarrow> turn_seed \<Rightarrow> turn_event list \<Rightarrow> task list" where
  "spawn_tracked_live_turn grant session seed es =
     run_turns grant session (case seed_row_id seed of None \<Rightarrow> [] | Some i \<Rightarrow> [i]) es"

section \<open>The parent walk\<close>

definition parent_of :: "task list \<Rightarrow> rstr \<Rightarrow> rstr option" where
  "parent_of rows i =
     (case find_row (\<lambda>row. row_id row = i) rows of None \<Rightarrow> None | Some row \<Rightarrow> row_parent row)"

text \<open>The reference: being reachable along parents.\<close>

inductive ancestor :: "task list \<Rightarrow> rstr \<Rightarrow> rstr \<Rightarrow> bool" for rows where
  ancestor_self: "ancestor rows i i"
| ancestor_up: "parent_of rows i = Some p \<Longrightarrow> ancestor rows p a \<Longrightarrow> ancestor rows i a"

fun climb :: "task list \<Rightarrow> nat \<Rightarrow> rstr \<Rightarrow> rstr option" where
  "climb rows 0 i = Some i"
| "climb rows (Suc k) i = (case parent_of rows i of None \<Rightarrow> None | Some p \<Rightarrow> climb rows k p)"

lemma walk_parents_climb:
  "walk_parents n rows (Some i) a \<longleftrightarrow> (\<exists>k < n. climb rows k i = Some a)"
proof (induction n arbitrary: i)
  case (Suc n)
  have "walk_parents n rows None a = False" by (cases n) auto
  moreover have "(\<exists>k < Suc n. climb rows k i = Some a) \<longleftrightarrow>
      i = a \<or> (\<exists>k < n. \<exists>p. parent_of rows i = Some p \<and> climb rows k p = Some a)"
    by (auto simp: Ex_less_Suc2 split: option.splits)
  moreover have "walk_parents (Suc n) rows (Some i) a \<longleftrightarrow> i = a \<or> walk_parents n rows (parent_of rows i) a"
    by (auto simp: parent_of_def)
  ultimately show ?case
    using Suc.IH by (cases "parent_of rows i") auto
qed simp

lemma ancestor_climb: "ancestor rows i a \<longleftrightarrow> (\<exists>k. climb rows k i = Some a)"
proof
  show "ancestor rows i a \<Longrightarrow> \<exists>k. climb rows k i = Some a"
  proof (induction rule: ancestor.induct)
    case (ancestor_self i)
    show ?case by (rule exI [of _ 0]) simp
  next
    case (ancestor_up i p a)
    then obtain k where "climb rows k p = Some a" by blast
    then show ?case using ancestor_up.hyps(1) by (intro exI [of _ "Suc k"]) simp
  qed
  assume "\<exists>k. climb rows k i = Some a"
  then obtain k where "climb rows k i = Some a" by blast
  then show "ancestor rows i a"
    by (induction k arbitrary: i) (auto split: option.splits intro: ancestor.intros)
qed

lemma climb_add:
  "climb rows (j + k) i = (case climb rows j i of None \<Rightarrow> None | Some p \<Rightarrow> climb rows k p)"
  by (induction j arbitrary: i) (auto split: option.splits)

lemma climb_has_row:
  "climb rows (Suc k) i = Some a \<Longrightarrow> j \<le> k \<Longrightarrow> \<exists>p \<in> set (map row_id rows). climb rows j i = Some p"
proof -
  assume *: "climb rows (Suc k) i = Some a" "j \<le> k"
  then have "climb rows (j + Suc (k - j)) i = Some a" by simp
  then obtain p where p: "climb rows j i = Some p" "climb rows (Suc (k - j)) p = Some a"
    unfolding climb_add by (auto split: option.splits)
  then have "parent_of rows p \<noteq> None" by (auto split: option.splits)
  then have "p \<in> set (map row_id rows)"
    by (auto simp: parent_of_def dest!: find_row_Some split: option.splits)
  then show ?thesis using p(1) by blast
qed

text \<open>A shortest climb passes each row at most once, so the loop's bound is enough.\<close>

lemma shortest_climb:
  assumes "climb rows k i = Some a" and "\<forall>j < k. climb rows j i \<noteq> Some a"
  shows "k \<le> length rows"
proof (cases k)
  case (Suc m)
  let ?c = "\<lambda>j. the (climb rows j i)"
  have some: "\<exists>p \<in> set (map row_id rows). climb rows j i = Some p" if "j < k" for j
    using climb_has_row [of rows m i a j] assms(1) that by (simp add: Suc)
  have "inj_on ?c {..<k}"
  proof (rule linorder_inj_onI)
    fix x y assume xy: "x < y" "x \<in> {..<k}" "y \<in> {..<k}"
    show "?c x \<noteq> ?c y"
    proof
      assume "?c x = ?c y"
      moreover obtain p q where "climb rows x i = Some p" "climb rows y i = Some q"
        using some [of x] some [of y] xy by auto
      ultimately have "climb rows x i = climb rows y i" by simp
      moreover have "climb rows (y + (k - y)) i = Some a" using assms(1) xy by simp
      ultimately have "climb rows (x + (k - y)) i = Some a"
        unfolding climb_add by simp
      moreover have "x + (k - y) < k" using xy by simp
      ultimately show False using assms(2) by blast
    qed
  qed auto
  then have "card (?c ` {..<k}) = k" by (simp add: card_image)
  moreover have "?c ` {..<k} \<subseteq> set (map row_id rows)" using some by force
  ultimately have "k \<le> card (set (map row_id rows))" by (metis List.finite_set card_mono)
  then show ?thesis using card_length [of "map row_id rows"] by simp
qed simp

lemma descends_from_ancestor: "descends_from rows i a \<longleftrightarrow> ancestor rows i a"
proof
  show "descends_from rows i a \<Longrightarrow> ancestor rows i a"
    by (auto simp: descends_from_def walk_parents_climb ancestor_climb simp del: walk_parents.simps)
  assume "ancestor rows i a"
  then have ex: "\<exists>k. climb rows k i = Some a" by (simp add: ancestor_climb)
  define k where "k = (LEAST k. climb rows k i = Some a)"
  have "climb rows k i = Some a" unfolding k_def by (rule LeastI_ex [OF ex])
  moreover have "\<forall>j < k. climb rows j i \<noteq> Some a" unfolding k_def by (auto dest: not_less_Least)
  ultimately have "k < Suc (length rows)" using shortest_climb by (simp add: less_Suc_eq_le)
  then show "descends_from rows i a"
    using \<open>climb rows k i = Some a\<close>
    by (auto simp: descends_from_def walk_parents_climb simp del: walk_parents.simps)
qed

section \<open>Properties of the pick\<close>

text \<open>
  The scope walk answers exactly whether the row is the anchor or descends from it along
  parents: its bound of one iteration more than there are rows is enough for every list, and a
  cycle or a dangling parent makes it stop with the right answer.
\<close>

theorem descends_from_spec: "descends_from rows i anchor = ancestor rows i anchor"
  by (rule descends_from_ancestor)

lemma may_work_iff:
  "may_work rows session worked scope row \<longleftrightarrow>
     assigned_to row = Some session \<and> row_id row \<notin> set worked \<and> row_is_ready rows row
     \<and> (\<forall>anchor. scope = Some anchor \<longrightarrow> ancestor rows (row_id row) anchor)"
  by (simp add: may_work_def descends_from_ancestor split: option.split)

lemma next_row_Some:
  assumes "next_held_ready_row rows session worked scope = Some row"
  shows "row \<in> set rows \<and> may_work rows session worked scope row
     \<and> (Some (row_id row) = scope \<longrightarrow> (\<forall>r \<in> set rows. may_work rows session worked scope r \<longrightarrow> Some (row_id r) = scope))"
  using assms
  by (auto simp: next_held_ready_row_def find_row_None split: option.splits dest!: find_row_Some)

lemma next_row_None:
  "next_held_ready_row rows session worked scope = None \<longleftrightarrow>
     (\<forall>row \<in> set rows. \<not> may_work rows session worked scope row)"
  by (auto simp: next_held_ready_row_def find_row_None split: option.splits dest!: find_row_Some)

text \<open>
  The pick. It finds a row exactly when some row is workable; what it finds is a row of
  the list that the session holds, has not worked in this run, has a kind, no blocker and no
  open child, and lies in the scope's subtree; and the scope row itself is picked only when
  nothing else is left.
\<close>

theorem next_row_spec:
  "(next_held_ready_row rows session worked scope = None
      \<longleftrightarrow> (\<forall>row \<in> set rows. \<not> may_work rows session worked scope row))
   \<and> (\<forall>row. next_held_ready_row rows session worked scope = Some row \<longrightarrow>
        row \<in> set rows \<and> assigned_to row = Some session \<and> row_id row \<notin> set worked
        \<and> kind_of row \<noteq> None \<and> blocked_by row = [] \<and> (\<forall>c \<in> set rows. row_parent c \<noteq> Some (row_id row))
        \<and> (\<forall>anchor. scope = Some anchor \<longrightarrow> ancestor rows (row_id row) anchor)
        \<and> (scope = Some (row_id row) \<longrightarrow>
             (\<forall>r \<in> set rows. may_work rows session worked scope r \<longrightarrow> row_id r = row_id row)))"
proof (intro conjI allI impI)
  show "next_held_ready_row rows session worked scope = None
      \<longleftrightarrow> (\<forall>row \<in> set rows. \<not> may_work rows session worked scope row)"
    by (rule next_row_None)
  fix row assume "next_held_ready_row rows session worked scope = Some row"
  note row = next_row_Some [OF this]
  then have may: "may_work rows session worked scope row" by blast
  show "row \<in> set rows" using row by blast
  show "assigned_to row = Some session" "row_id row \<notin> set worked" "kind_of row \<noteq> None" "blocked_by row = []"
    "\<forall>c \<in> set rows. row_parent c \<noteq> Some (row_id row)"
    using may by (simp_all add: may_work_def row_is_ready_def list_ex_iff)
  show "ancestor rows (row_id row) anchor" if "scope = Some anchor" for anchor
    using may that by (simp add: may_work_iff)
  show "\<forall>r \<in> set rows. may_work rows session worked scope r \<longrightarrow> row_id r = row_id row"
    if s: "scope = Some (row_id row)"
  proof (intro ballI impI)
    fix r assume "r \<in> set rows" "may_work rows session worked scope r"
    then have "Some (row_id r) = scope" using row s by blast
    then show "row_id r = row_id row" by (simp only: s option.inject)
  qed
qed

theorem next_row_spec_witness:
  "map_option row_id (next_held_ready_row
     [default_task\<lparr>row_id := ''a'', row_kind := Some ''fix'', assigned_to := Some ''me''\<rparr>,
      default_task\<lparr>row_id := ''b'', row_kind := Some ''fix'', assigned_to := Some ''me'', row_parent := Some ''a''\<rparr>]
     ''me'' [] (Some ''a'')) = Some ''b''
   \<and> ancestor [default_task\<lparr>row_id := ''a'', row_kind := Some ''fix'', assigned_to := Some ''me''\<rparr>,
      default_task\<lparr>row_id := ''b'', row_kind := Some ''fix'', assigned_to := Some ''me'', row_parent := Some ''a''\<rparr>]
       ''b'' ''a''"
proof -
  let ?rows = "[default_task\<lparr>row_id := ''a'', row_kind := Some ''fix'', assigned_to := Some ''me''\<rparr>,
      default_task\<lparr>row_id := ''b'', row_kind := Some ''fix'', assigned_to := Some ''me'', row_parent := Some ''a''\<rparr>]"
  let ?b = "default_task\<lparr>row_id := ''b'', row_kind := Some ''fix'', assigned_to := Some ''me'', row_parent := Some ''a''\<rparr>"
  have pick: "next_held_ready_row ?rows ''me'' [] (Some ''a'') = Some ?b" by code_simp
  have b: "row_id ?b = ''b''" by simp
  have "ancestor ?rows (row_id ?b) ''a''"
    using next_row_spec [of ?rows "''me''" "[]" "Some ''a''", THEN conjunct2, rule_format, OF pick] by blast
  then show ?thesis unfolding b pick by (simp add: b)
qed

section \<open>Properties of the loop\<close>

lemma run_turns_fresh:
  "distinct (map row_id (run_turns grant session worked es))
   \<and> set (map row_id (run_turns grant session worked es)) \<inter> set worked = {}"
proof (induction es arbitrary: worked)
  case (Cons e es)
  show ?case
  proof (cases "after_turn grant session worked e")
    case (Some row)
    then have "row_id row \<notin> set worked"
      by (auto simp: after_turn_def next_row_turn_def may_work_def split: if_splits option.splits sum.splits dest!: next_row_Some)
    then show ?thesis using Cons.IH [of "row_id row # worked"] by (auto simp: Some)
  qed simp
qed simp

definition ids_read :: "turn_event \<Rightarrow> rstr set" where
  "ids_read e = (case rows_read e of Inl x \<Rightarrow> {} | Inr rows \<Rightarrow> set (map row_id rows))"

lemma run_turns_from_rows:
  "set (map row_id (run_turns grant session worked es)) \<subseteq> (\<Union>e \<in> set es. ids_read e)"
proof (induction es arbitrary: worked)
  case (Cons e es)
  show ?case
  proof (cases "after_turn grant session worked e")
    case (Some row)
    then have "row_id row \<in> ids_read e"
      by (auto simp: ids_read_def after_turn_def next_row_turn_def split: if_splits option.splits sum.splits dest!: next_row_Some)
    then show ?thesis using Cons.IH [of "row_id row # worked"] by (auto simp: Some)
  qed simp
qed simp



text \<open>
  The first pick of an untyped run reads the rows from before its anchor is made. When the
  session's first parentless row comes first in the pick, the call starts a turn on that row
  although the same call has just put other rows under it: in the file it writes, the row is
  not ready, and its close is refused as long as a child is open.
\<close>

theorem untyped_run_starts_with_its_anchor:
  assumes "load_ok f" and "save_ok f"
    and "next_held_ready_row (file_rows f) session [] None = Some row"
    and "find_row (\<lambda>r. held session r \<and> row_parent r = None) (file_rows f) = Some row"
    and "other \<in> set (file_rows f)" and "held session other" and "row_parent other = None"
    and "row_id other \<noteq> row_id row"
  shows "fst (continue_with_next_row f session whole_list) = Some (seed_of_row row)
     \<and> \<not> row_is_ready (file_rows (snd (continue_with_next_row f session whole_list))) row
     \<and> (\<forall>s result. \<exists>e. close_row (file_rows (snd (continue_with_next_row f session whole_list))) s (row_id row) result = Inl e)"
proof -
  let ?f' = "snd (continue_with_next_row f session whole_list)"
  have some: "list_ex (\<lambda>r. held session r \<and> row_parent r = None \<and> row_id r \<noteq> row_id row) (file_rows f)"
    using assms(5-8) by (auto simp: list_ex_iff)
  have rows: "file_rows ?f' = map (adopt session (row_id row)) (file_rows f)"
    using assms(1,2,4) some
    by (simp add: continue_with_next_row_def whole_list_def load_tasks_def save_tasks_def anchor_from_rows_def Let_def)
  have child: "\<exists>r \<in> set (file_rows ?f'). row_parent r = Some (row_id row)"
    unfolding rows using assms(5-8) by (intro bexI [of _ "adopt session (row_id row) other"]) (auto simp: adopt_def)
  have "\<exists>e. close_row (file_rows ?f') s (row_id row) result = Inl e" for s result
    using child close_row_shape [of "file_rows ?f'" s "row_id row" result]
    by (cases "close_row (file_rows ?f') s (row_id row) result") auto
  moreover have "fst (continue_with_next_row f session whole_list) = Some (seed_of_row row)"
    using assms(1,3) by (simp add: continue_with_next_row_def whole_list_def load_tasks_def)
  ultimately show ?thesis using child by (auto simp: row_is_ready_def list_ex_iff)
qed

theorem untyped_run_starts_with_its_anchor_witness:
  "let row = default_task\<lparr>content := ''x'', row_id := ''a'', row_kind := Some ''fix'', assigned_to := Some ''me''\<rparr>;
       other = default_task\<lparr>content := ''y'', row_id := ''b'', row_kind := Some ''fix'', assigned_to := Some ''me''\<rparr>;
       f = \<lparr>file_rows = [row, other], load_ok = True, save_ok = True\<rparr>
   in fst (continue_with_next_row f ''me'' whole_list) = Some (seed_of_row row)
      \<and> \<not> row_is_ready (file_rows (snd (continue_with_next_row f ''me'' whole_list))) row"
proof -
  let ?row = "default_task\<lparr>content := ''x'', row_id := ''a'', row_kind := Some ''fix'', assigned_to := Some ''me''\<rparr>"
  let ?other = "default_task\<lparr>content := ''y'', row_id := ''b'', row_kind := Some ''fix'', assigned_to := Some ''me''\<rparr>"
  let ?f = "\<lparr>file_rows = [?row, ?other], load_ok = True, save_ok = True\<rparr>"
  have "next_held_ready_row (file_rows ?f) ''me'' [] None = Some ?row"
    "find_row (\<lambda>r. held ''me'' r \<and> row_parent r = None) (file_rows ?f) = Some ?row" by code_simp+
  from untyped_run_starts_with_its_anchor [OF _ _ this, of ?other]
  show ?thesis by (simp add: Let_def held_def default_task_def)
qed

end
