(* ===== verification/Interrupts.thy ===== *)
theory Interrupts
  imports Prelude
begin

text \<open>
  The interrupt signal of \<open>crates/kcode-agent-runtime/src/lib.rs\<close>: an atomic flag, a
  counter of fires and tokio's \<open>Notify\<close>, shared by any number of threads. Every atomic
  access is one step, so all interleavings of \<open>fire\<close>, \<open>reset\<close>, \<open>reset_if_epoch\<close>
  and \<open>notified\<close> are runs of the step relation. All accesses are \<open>SeqCst\<close>, so they
  happen in one total order. The counter is a natural number: \<open>u64\<close> wraps only after
  \<open>2 ^ 64\<close> fires. Of \<open>Notify\<close> the sources use that \<open>notify_waiters\<close> wakes exactly the
  waiters that are registered and stores nothing for later ones.
\<close>

section \<open>Values\<close>

datatype soft_interrupt_source = User | System | BackgroundTask

record soft_interrupt_message =
  soft_content :: rstr
  soft_images :: "(rstr \<times> rstr) list"
  soft_urgent :: bool
  soft_source :: soft_interrupt_source

record stream_error =
  error_message :: rstr
  error_retry_after_secs :: "nat option"

definition stream_error_new :: "rstr \<Rightarrow> nat option \<Rightarrow> stream_error" where
  "stream_error_new m r = \<lparr>error_message = m, error_retry_after_secs = r\<rparr>"

section \<open>Threads and steps\<close>

text \<open>
  Where a thread stands: between calls, or before the next atomic access of the call it
  is in. \<open>Enabled\<close> has registered a waiter and not read the flag yet, its argument tells
  whether a notification has reached it; \<open>Parked\<close> awaits one.
\<close>

datatype pc =
  Outside
| FireStore | FireNotify
| ResetStore nat | ResetRecheck nat | RestoreStore | RestoreNotify
| Enabled bool | Parked

text \<open>
  \<open>cleared\<close> is a ghost: the fires some \<open>reset\<close> or successful \<open>reset_if_epoch\<close> has
  cleared deliberately.
\<close>

record signal =
  flag :: bool
  epoch :: nat
  thread :: "nat \<Rightarrow> pc"
  cleared :: "nat set"

definition signal_new :: signal where
  "signal_new = \<lparr>flag = False, epoch = 0, thread = (\<lambda>t. Outside), cleared = {0}\<rparr>"

definition goto :: "nat \<Rightarrow> pc \<Rightarrow> signal \<Rightarrow> signal" where
  "goto t p s = s\<lparr>thread := (thread s)(t := p)\<rparr>"

text \<open>\<open>notify_waiters\<close>: the parked waiters return, the registered ones will.\<close>

fun wake :: "pc \<Rightarrow> pc" where
  "wake Parked = Outside"
| "wake (Enabled b) = Enabled True"
| "wake p = p"

definition notify_waiters :: "signal \<Rightarrow> signal" where
  "notify_waiters s = s\<lparr>thread := (\<lambda>t. wake (thread s t))\<rparr>"

inductive sig_step :: "signal \<Rightarrow> signal \<Rightarrow> bool" where
  fire_epoch: "thread s t = Outside \<Longrightarrow> sig_step s (goto t FireStore (s\<lparr>epoch := epoch s + 1\<rparr>))"
| fire_store: "thread s t = FireStore \<Longrightarrow> sig_step s (goto t FireNotify (s\<lparr>flag := True\<rparr>))"
| fire_notify: "thread s t = FireNotify \<Longrightarrow> sig_step s (goto t Outside (notify_waiters s))"
| reset_all: "thread s t = Outside \<Longrightarrow>
    sig_step s (s\<lparr>flag := False, cleared := insert (epoch s) (cleared s)\<rparr>)"
| reset_load: "thread s t = Outside \<Longrightarrow> epoch s = e \<Longrightarrow> sig_step s (goto t (ResetStore e) s)"
| reset_skip: "thread s t = Outside \<Longrightarrow> epoch s \<noteq> e \<Longrightarrow> sig_step s s"
| reset_store: "thread s t = ResetStore e \<Longrightarrow> sig_step s (goto t (ResetRecheck e) (s\<lparr>flag := False\<rparr>))"
| reset_done: "thread s t = ResetRecheck e \<Longrightarrow> epoch s = e \<Longrightarrow>
    sig_step s (goto t Outside (s\<lparr>cleared := insert e (cleared s)\<rparr>))"
| reset_raced: "thread s t = ResetRecheck e \<Longrightarrow> epoch s \<noteq> e \<Longrightarrow> sig_step s (goto t RestoreStore s)"
| restore_store: "thread s t = RestoreStore \<Longrightarrow> sig_step s (goto t RestoreNotify (s\<lparr>flag := True\<rparr>))"
| restore_notify: "thread s t = RestoreNotify \<Longrightarrow> sig_step s (goto t Outside (notify_waiters s))"
| wait_enable: "thread s t = Outside \<Longrightarrow> sig_step s (goto t (Enabled False) s)"
| wait_set: "thread s t = Enabled b \<Longrightarrow> flag s \<Longrightarrow> sig_step s (goto t Outside s)"
| wait_woken: "thread s t = Enabled True \<Longrightarrow> \<not> flag s \<Longrightarrow> sig_step s (goto t Outside s)"
| wait_park: "thread s t = Enabled False \<Longrightarrow> \<not> flag s \<Longrightarrow> sig_step s (goto t Parked s)"

inductive reachable :: "signal \<Rightarrow> bool" where
  reachable_new: "reachable signal_new"
| reachable_step: "reachable s \<Longrightarrow> sig_step s s' \<Longrightarrow> reachable s'"

inductive_cases sig_stepE: "sig_step s s'"

section \<open>The invariants\<close>

text \<open>
  A cancel is pending when the last fire was not cleared. Then the flag is set, or some
  thread is about to set it.
\<close>

definition will_set :: "signal \<Rightarrow> bool" where
  "will_set s =
     (\<exists>t. thread s t = FireStore \<or> thread s t = RestoreStore
        \<or> (\<exists>e. thread s t = ResetRecheck e \<and> e \<noteq> epoch s))"

definition clearing :: "signal \<Rightarrow> bool" where
  "clearing s = (epoch s \<in> cleared s \<or> (\<exists>t. thread s t = ResetRecheck (epoch s)))"

definition cancel_kept :: "signal \<Rightarrow> bool" where
  "cancel_kept s = (flag s \<or> will_set s \<or> clearing s)"

text \<open>No waiter stays parked on a set flag without a notification under way.\<close>

definition waiters_woken :: "signal \<Rightarrow> bool" where
  "waiters_woken s =
     (flag s \<longrightarrow> (\<exists>t. thread s t = FireNotify \<or> thread s t = RestoreNotify)
        \<or> (\<forall>t. thread s t \<noteq> Parked))"

text \<open>Resets in progress hold an epoch that exists.\<close>

definition epochs_known :: "signal \<Rightarrow> bool" where
  "epochs_known s =
     ((\<forall>t e. thread s t = ResetStore e \<or> thread s t = ResetRecheck e \<longrightarrow> e \<le> epoch s)
      \<and> (\<forall>e \<in> cleared s. e \<le> epoch s))"

definition signal_inv :: "signal \<Rightarrow> bool" where
  "signal_inv s = (cancel_kept s \<and> waiters_woken s \<and> epochs_known s)"

lemma goto_fields [simp]:
  "flag (goto t p s) = flag s" "epoch (goto t p s) = epoch s" "cleared (goto t p s) = cleared s"
  "thread (goto t p s) = (thread s)(t := p)"
  by (simp_all add: goto_def)

lemma notify_fields [simp]:
  "flag (notify_waiters s) = flag s" "epoch (notify_waiters s) = epoch s"
  "cleared (notify_waiters s) = cleared s" "thread (notify_waiters s) t = wake (thread s t)"
  by (simp_all add: notify_waiters_def)

lemma wake_iff [simp]:
  "wake p = FireStore \<longleftrightarrow> p = FireStore" "wake p = FireNotify \<longleftrightarrow> p = FireNotify"
  "wake p = RestoreStore \<longleftrightarrow> p = RestoreStore" "wake p = RestoreNotify \<longleftrightarrow> p = RestoreNotify"
  "wake p = ResetStore e \<longleftrightarrow> p = ResetStore e" "wake p = ResetRecheck e \<longleftrightarrow> p = ResetRecheck e"
  "wake p \<noteq> Parked"
  by (cases p; simp)+

lemma epochs_known_step: "epochs_known s \<Longrightarrow> sig_step s s' \<Longrightarrow> epochs_known s'"
  by (erule sig_stepE) (auto simp: epochs_known_def le_Suc_eq split: if_splits)

lemma goto_woken:
  assumes "thread s t = p" and "p \<noteq> FireNotify \<and> p \<noteq> RestoreNotify" and "q \<noteq> Parked \<or> \<not> flag s"
    and "waiters_woken s"
  shows "waiters_woken (goto t q s)"
proof (cases "flag s \<and> (\<exists>u. thread s u = FireNotify \<or> thread s u = RestoreNotify)")
  case True
  then obtain u where "thread s u = FireNotify \<or> thread s u = RestoreNotify" by blast
  moreover from this have "u \<noteq> t" using assms(1,2) by auto
  ultimately show ?thesis unfolding waiters_woken_def by (auto intro!: exI [of _ u])
next
  case False
  then show ?thesis using assms(3,4) by (auto simp: waiters_woken_def)
qed

lemma woken_flag_irrelevant:
  "waiters_woken s \<Longrightarrow> waiters_woken (s\<lparr>cleared := c\<rparr>)" "waiters_woken s \<Longrightarrow> waiters_woken (s\<lparr>epoch := e\<rparr>)"
  "waiters_woken (s\<lparr>flag := False\<rparr>)" "waiters_woken (goto t Outside (notify_waiters s))"
  by (simp_all add: waiters_woken_def)

lemma waiters_woken_step: "waiters_woken s \<Longrightarrow> sig_step s s' \<Longrightarrow> waiters_woken s'"
proof (erule sig_stepE)
  fix t assume "s' = goto t FireNotify (s\<lparr>flag := True\<rparr>)"
  then show "waiters_woken s'" unfolding waiters_woken_def by (auto intro!: exI [of _ t])
next
  fix t assume "s' = goto t RestoreNotify (s\<lparr>flag := True\<rparr>)"
  then show "waiters_woken s'" unfolding waiters_woken_def by (auto intro!: exI [of _ t])
next
  fix t assume "s' = s\<lparr>flag := False, cleared := insert (epoch s) (cleared s)\<rparr>"
  then show "waiters_woken s'" by (simp add: waiters_woken_def)
qed (auto intro: goto_woken woken_flag_irrelevant)

text \<open>Steps that neither clear the flag nor leave a state the cancel depends on.\<close>

definition keeps_cancel :: "pc \<Rightarrow> bool" where
  "keeps_cancel p = (p = FireStore \<or> p = RestoreStore \<or> (\<exists>e. p = ResetRecheck e))"

lemma cancel_kept_mono:
  assumes "cancel_kept s" and "epoch s' = epoch s" and "flag s \<longrightarrow> flag s'" and "cleared s \<subseteq> cleared s'"
    and "\<forall>u. keeps_cancel (thread s u) \<longrightarrow> thread s' u = thread s u"
  shows "cancel_kept s'"
proof -
  have "will_set s \<Longrightarrow> will_set s'"
    using assms(2,5) unfolding will_set_def keeps_cancel_def by metis
  moreover have "clearing s \<Longrightarrow> clearing s'"
    using assms(2,4,5) unfolding clearing_def keeps_cancel_def by (metis subsetD)
  ultimately show ?thesis using assms(1,3) by (auto simp: cancel_kept_def)
qed

lemma goto_keeps:
  "thread s t = p \<Longrightarrow> \<not> keeps_cancel p \<Longrightarrow> cancel_kept s \<Longrightarrow> cancel_kept (goto t q s)"
  by (erule cancel_kept_mono) auto

lemma notify_keeps:
  "thread s t = p \<Longrightarrow> \<not> keeps_cancel p \<Longrightarrow> cancel_kept s \<Longrightarrow> cancel_kept (goto t q (notify_waiters s))"
  by (erule cancel_kept_mono) (auto simp: keeps_cancel_def)

lemma cancel_kept_step: "cancel_kept s \<Longrightarrow> sig_step s s' \<Longrightarrow> cancel_kept s'"
proof (erule sig_stepE)
  fix t e assume "cancel_kept s" "s' = goto t (ResetRecheck e) (s\<lparr>flag := False\<rparr>)"
  then show "cancel_kept s'"
    by (cases "e = epoch s") (auto simp: cancel_kept_def clearing_def will_set_def)
next
  fix t b assume "cancel_kept s" "thread s t = Enabled b" "s' = goto t Outside s"
  then show "cancel_kept s'" by (auto intro: goto_keeps simp: keeps_cancel_def)
qed (auto intro: goto_keeps notify_keeps simp: keeps_cancel_def, auto simp: cancel_kept_def clearing_def will_set_def)

lemma signal_inv_new: "signal_inv signal_new"
  by (simp add: signal_inv_def signal_new_def cancel_kept_def clearing_def waiters_woken_def epochs_known_def)

lemma signal_inv_step: "signal_inv s \<Longrightarrow> sig_step s s' \<Longrightarrow> signal_inv s'"
  using cancel_kept_step waiters_woken_step epochs_known_step by (auto simp: signal_inv_def)

lemma reachable_inv: "reachable s \<Longrightarrow> signal_inv s"
  by (induction rule: reachable.induct) (auto intro: signal_inv_new signal_inv_step)

section \<open>Properties\<close>

definition at_rest :: "signal \<Rightarrow> bool" where
  "at_rest s = (\<forall>t. thread s t \<in> {Outside, Parked})"

text \<open>
  C10: No cancel is lost, in any interleaving of any number of threads that fire, reset, reset a
  captured epoch and wait: once no call is under way, a fire that no reset deliberately
  cleared still has the flag set, and no thread is parked on it. In particular a deferred
  \<open>reset_if_epoch\<close> never erases a newer fire, and no wakeup falls between a waiter's
  registration and its reading of the flag.
\<close>

theorem no_cancel_lost:
  assumes "reachable s" and "at_rest s" and "epoch s \<notin> cleared s"
  shows "flag s \<and> (\<forall>t. thread s t \<noteq> Parked)"
proof -
  have inv: "cancel_kept s" "waiters_woken s"
    using reachable_inv [OF assms(1)] by (auto simp: signal_inv_def)
  have rest: "thread s t = Outside \<or> thread s t = Parked" for t
    using assms(2) by (auto simp: at_rest_def)
  have "\<not> will_set s" "\<not> clearing s"
    using rest assms(3) unfolding will_set_def clearing_def by (metis pc.distinct)+
  then have "flag s" using inv(1) by (simp add: cancel_kept_def)
  moreover have "\<nexists>t. thread s t = FireNotify \<or> thread s t = RestoreNotify"
    using rest by (metis pc.distinct)
  ultimately show ?thesis using inv(2) by (auto simp: waiters_woken_def)
qed

theorem no_cancel_lost_witness:
  "flag (goto 1 Outside (goto 1 (Enabled False) (goto 0 Outside (notify_waiters (goto 0 FireNotify
     ((goto 0 FireStore (signal_new\<lparr>epoch := 1\<rparr>))\<lparr>flag := True\<rparr>))))))"
proof -
  let ?s1 = "goto 0 FireStore (signal_new\<lparr>epoch := 1\<rparr>)"
  let ?s2 = "goto 0 FireNotify (?s1\<lparr>flag := True\<rparr>)"
  let ?s3 = "goto 0 Outside (notify_waiters ?s2)"
  let ?s4 = "goto 1 (Enabled False) ?s3"
  let ?s5 = "goto 1 Outside ?s4"
  have "sig_step signal_new ?s1"
    using fire_epoch [of signal_new 0] by (simp add: signal_new_def)
  then have r1: "reachable ?s1" by (rule reachable_step [OF reachable_new])
  have r2: "reachable ?s2" by (rule reachable_step [OF r1]) (rule fire_store, simp)
  have r3: "reachable ?s3" by (rule reachable_step [OF r2]) (rule fire_notify, simp)
  have r4: "reachable ?s4" by (rule reachable_step [OF r3]) (rule wait_enable, simp add: signal_new_def)
  have r5: "reachable ?s5" by (rule reachable_step [OF r4]) (rule wait_set [where b = False], simp_all)
  have "at_rest ?s5" by (simp add: at_rest_def signal_new_def)
  moreover have "epoch ?s5 \<notin> cleared ?s5" by (simp add: signal_new_def)
  ultimately show ?thesis using no_cancel_lost [OF r5] by blast
qed

end
