(* ===== verification/Workspace_Map.thy ===== *)
theory Workspace_Map
  imports Prelude
begin

text \<open>
  The session workspace of \<open>crates/kcode-tui-workspace/src/workspace_map.rs\<close>: rows of
  sessions under integer keys, one of them current, each with a remembered focus. The
  \<open>BTreeMap\<close> is an association list in key order. Keys are \<open>i32\<close>; the two places that
  compute one wrap as a release build does.
\<close>

section \<open>Rows\<close>

datatype visual_state = Idle | Running | Completed | Waiting | Error | Detached

record session_tile =
  tile_session_id :: rstr
  tile_state :: visual_state

definition tile_new :: "rstr \<Rightarrow> session_tile" where
  "tile_new i = \<lparr>tile_session_id = i, tile_state = Idle\<rparr>"

definition tile_with_state :: "rstr \<Rightarrow> visual_state \<Rightarrow> session_tile" where
  "tile_with_state i st = \<lparr>tile_session_id = i, tile_state = st\<rparr>"

record workspace_row =
  sessions :: "session_tile list"
  last_focused :: "nat option"

definition empty_row :: workspace_row where
  "empty_row = \<lparr>sessions = [], last_focused = None\<rparr>"

definition row_is_empty :: "workspace_row \<Rightarrow> bool" where
  "row_is_empty row = (sessions row = [])"

definition focused_index :: "workspace_row \<Rightarrow> nat option" where
  "focused_index row =
     (case (case last_focused row of
              Some i \<Rightarrow> if i < length (sessions row) then Some i else None
            | None \<Rightarrow> None) of
        Some i \<Rightarrow> Some i
      | None \<Rightarrow> if sessions row \<noteq> [] then Some 0 else None)"

text \<open>The operations on \<open>&mut self\<close> return the row they leave beside their result.\<close>

definition focus :: "nat \<Rightarrow> workspace_row \<Rightarrow> bool \<times> workspace_row" where
  "focus i row =
     (if i < length (sessions row) then (True, row\<lparr>last_focused := Some i\<rparr>) else (False, row))"

definition insert_right_of_focus :: "session_tile \<Rightarrow> workspace_row \<Rightarrow> nat \<times> workspace_row" where
  "insert_right_of_focus tile row =
     (let at = (case focused_index row of
                  Some i \<Rightarrow> min (i + 1) (length (sessions row))
                | None \<Rightarrow> length (sessions row))
      in (at, row\<lparr>sessions := take at (sessions row) @ tile # drop at (sessions row),
                  last_focused := Some at\<rparr>))"

definition move_focus_left :: "workspace_row \<Rightarrow> bool \<times> workspace_row" where
  "move_focus_left row =
     (case focused_index row of
        None \<Rightarrow> (False, row)
      | Some i \<Rightarrow> if i = 0 then (False, row) else (True, row\<lparr>last_focused := Some (i - 1)\<rparr>))"

definition move_focus_right :: "workspace_row \<Rightarrow> bool \<times> workspace_row" where
  "move_focus_right row =
     (case focused_index row of
        None \<Rightarrow> (False, row)
      | Some i \<Rightarrow>
          if length (sessions row) \<le> i + 1 then (False, row)
          else (True, row\<lparr>last_focused := Some (i + 1)\<rparr>))"

section \<open>The map\<close>

record workspace_map =
  rows :: "(int \<times> workspace_row) list"
  current_workspace :: int

definition map_new :: workspace_map where
  "map_new = \<lparr>rows = [], current_workspace = 0\<rparr>"

text \<open>\<open>entry(key).or_default()\<close>, followed by a change of the row.\<close>

fun with_row :: "int \<Rightarrow> (workspace_row \<Rightarrow> workspace_row) \<Rightarrow> (int \<times> workspace_row) list
    \<Rightarrow> (int \<times> workspace_row) list" where
  "with_row w f [] = [(w, f empty_row)]"
| "with_row w f ((k, row) # rs) =
     (if w = k then (k, f row) # rs
      else if w < k then (w, f empty_row) # (k, row) # rs
      else (k, row) # with_row w f rs)"

definition row_at :: "int \<Rightarrow> workspace_map \<Rightarrow> workspace_row option" where
  "row_at w m = map_of (rows m) w"

definition row_or_default :: "int \<Rightarrow> workspace_map \<Rightarrow> workspace_row" where
  "row_or_default w m = (case row_at w m of None \<Rightarrow> empty_row | Some row \<Rightarrow> row)"

definition on_row :: "int \<Rightarrow> (workspace_row \<Rightarrow> 'r \<times> workspace_row) \<Rightarrow> workspace_map \<Rightarrow> 'r \<times> workspace_map" where
  "on_row w f m = (fst (f (row_or_default w m)), m\<lparr>rows := with_row w (\<lambda>r. snd (f r)) (rows m)\<rparr>)"

definition i32 :: "int \<Rightarrow> int" where
  "i32 x = (x + 2147483648) mod 4294967296 - 2147483648"

definition set_current_workspace :: "int \<Rightarrow> workspace_map \<Rightarrow> workspace_map" where
  "set_current_workspace w m = m\<lparr>current_workspace := w, rows := with_row w (\<lambda>r. r) (rows m)\<rparr>"

definition current_row :: "workspace_map \<Rightarrow> workspace_row option" where
  "current_row m = row_at (current_workspace m) m"

definition map_is_empty :: "workspace_map \<Rightarrow> bool" where
  "map_is_empty m = list_all (\<lambda>e. row_is_empty (snd e)) (rows m)"

definition add_session_to_current :: "session_tile \<Rightarrow> workspace_map \<Rightarrow> (int \<times> nat) \<times> workspace_map" where
  "add_session_to_current tile m =
     (case on_row (current_workspace m) (insert_right_of_focus tile) m of
        (i, m') \<Rightarrow> ((current_workspace m, i), m'))"

definition focus_session_in_workspace :: "int \<Rightarrow> nat \<Rightarrow> workspace_map \<Rightarrow> bool \<times> workspace_map" where
  "focus_session_in_workspace w i = on_row w (focus i)"

fun position :: "rstr \<Rightarrow> session_tile list \<Rightarrow> nat option" where
  "position i [] = None"
| "position i (t # ts) =
     (if tile_session_id t = i then Some 0 else map_option Suc (position i ts))"

fun locate :: "rstr \<Rightarrow> (int \<times> workspace_row) list \<Rightarrow> (int \<times> nat) option" where
  "locate i [] = None"
| "locate i ((w, row) # rs) =
     (case position i (sessions row) of Some k \<Rightarrow> Some (w, k) | None \<Rightarrow> locate i rs)"

definition locate_session :: "rstr \<Rightarrow> workspace_map \<Rightarrow> (int \<times> nat) option" where
  "locate_session i m = locate i (rows m)"

definition focus_session_by_id :: "rstr \<Rightarrow> workspace_map \<Rightarrow> bool \<times> workspace_map" where
  "focus_session_by_id i m =
     (case locate_session i m of
        None \<Rightarrow> (False, m)
      | Some (w, k) \<Rightarrow> on_row w (focus k) (m\<lparr>current_workspace := w\<rparr>))"

definition focused_session_in_workspace :: "int \<Rightarrow> workspace_map \<Rightarrow> rstr option" where
  "focused_session_in_workspace w m =
     (case row_at w m of
        None \<Rightarrow> None
      | Some row \<Rightarrow>
          (case focused_index row of
             None \<Rightarrow> None
           | Some i \<Rightarrow> if i < length (sessions row) then Some (tile_session_id (sessions row ! i)) else None))"

definition current_focused_session_id :: "workspace_map \<Rightarrow> rstr option" where
  "current_focused_session_id m = focused_session_in_workspace (current_workspace m) m"

definition set_row_sessions ::
  "int \<Rightarrow> session_tile list \<Rightarrow> nat option \<Rightarrow> workspace_map \<Rightarrow> workspace_map" where
  "set_row_sessions w ts foc m =
     snd (on_row w (\<lambda>row. ((), row\<lparr>sessions := ts,
        last_focused := (case foc of Some i \<Rightarrow> if i < length ts then Some i else None | None \<Rightarrow> None)\<rparr>)) m)"

definition insert_session_in_workspace ::
  "int \<Rightarrow> session_tile \<Rightarrow> workspace_map \<Rightarrow> nat \<times> workspace_map" where
  "insert_session_in_workspace w tile m =
     on_row w (insert_right_of_focus tile) (m\<lparr>current_workspace := w\<rparr>)"

definition populated_workspaces :: "workspace_map \<Rightarrow> int list" where
  "populated_workspaces m = map fst (filter (\<lambda>e. \<not> row_is_empty (snd e)) (rows m))"

text \<open>\<open>Iterator::min\<close> and \<open>max\<close>.\<close>

definition min_of :: "int list \<Rightarrow> int option" where
  "min_of xs = (if xs = [] then None else Some (Min (set xs)))"

definition max_of :: "int list \<Rightarrow> int option" where
  "max_of xs = (if xs = [] then None else Some (Max (set xs)))"

definition nearest_populated_above :: "workspace_map \<Rightarrow> int option" where
  "nearest_populated_above m = min_of (filter (\<lambda>w. current_workspace m < w) (populated_workspaces m))"

definition nearest_populated_below :: "workspace_map \<Rightarrow> int option" where
  "nearest_populated_below m = max_of (filter (\<lambda>w. w < current_workspace m) (populated_workspaces m))"

definition move_left :: "workspace_map \<Rightarrow> bool \<times> workspace_map" where
  "move_left m = on_row (current_workspace m) move_focus_left m"

definition move_right :: "workspace_map \<Rightarrow> bool \<times> workspace_map" where
  "move_right m = on_row (current_workspace m) move_focus_right m"

definition move_up :: "workspace_map \<Rightarrow> workspace_map" where
  "move_up m = set_current_workspace (i32 (current_workspace m + 1)) m"

definition move_down :: "workspace_map \<Rightarrow> workspace_map" where
  "move_down m = set_current_workspace (i32 (current_workspace m - 1)) m"

record visible_row =
  v_workspace :: int
  v_is_current :: bool
  v_focused_index :: "nat option"
  v_sessions :: "session_tile list"

text \<open>The keys \<open>visible_rows\<close> chooses from, descending.\<close>

definition visible_keys :: "workspace_map \<Rightarrow> int list" where
  "visible_keys m =
     (let ordered = rev (sort (map fst (filter (\<lambda>e. fst e = current_workspace m \<or> \<not> row_is_empty (snd e)) (rows m))))
      in if ordered = [] then [current_workspace m] else ordered)"

fun index_of :: "int \<Rightarrow> int list \<Rightarrow> nat option" where
  "index_of x [] = None"
| "index_of x (y # ys) = (if x = y then Some 0 else map_option Suc (index_of x ys))"

text \<open>The window over \<open>n\<close> keys around position \<open>pos\<close>: its start and end.\<close>

definition window :: "nat \<Rightarrow> nat \<Rightarrow> nat \<Rightarrow> nat \<times> nat" where
  "window max_rows n pos =
     (let start = pos - max_rows div 2;
          stop = min (start + max_rows) n
      in (if stop - start < max_rows then stop - max_rows else start, stop))"

definition visible_row_of :: "workspace_map \<Rightarrow> int \<Rightarrow> visible_row" where
  "visible_row_of m w =
     (let row = row_or_default w m
      in \<lparr>v_workspace = w, v_is_current = (w = current_workspace m),
          v_focused_index = focused_index row, v_sessions = sessions row\<rparr>)"

definition visible_rows :: "nat \<Rightarrow> workspace_map \<Rightarrow> visible_row list" where
  "visible_rows max_rows m =
     (if max_rows = 0 then []
      else (let ordered = visible_keys m;
                pos = (case index_of (current_workspace m) ordered of None \<Rightarrow> 0 | Some p \<Rightarrow> p);
                (start, stop) = window max_rows (length ordered) pos
            in map (visible_row_of m) (take (stop - start) (drop start ordered))))"

section \<open>The invariant\<close>

definition row_ok :: "workspace_row \<Rightarrow> bool" where
  "row_ok row = (\<forall>i. last_focused row = Some i \<longrightarrow> i < length (sessions row))"

definition map_ok :: "workspace_map \<Rightarrow> bool" where
  "map_ok m = (sorted_wrt (<) (map fst (rows m)) \<and> (\<forall>e \<in> set (rows m). row_ok (snd e)))"

lemma row_ok_empty [simp]: "row_ok empty_row"
  by (simp add: row_ok_def empty_row_def)

lemma focused_index_bound: "focused_index row = Some i \<Longrightarrow> i < length (sessions row)"
  by (auto simp: focused_index_def split: option.splits if_splits)

lemma row_operations_ok:
  "row_ok row \<Longrightarrow> row_ok (snd (focus i row))"
  "row_ok (snd (insert_right_of_focus tile row))"
  "row_ok row \<Longrightarrow> row_ok (snd (move_focus_left row))"
  "row_ok row \<Longrightarrow> row_ok (snd (move_focus_right row))"
  by (auto simp: row_ok_def focus_def insert_right_of_focus_def move_focus_left_def move_focus_right_def
      Let_def split: option.split dest: focused_index_bound)

lemma with_row_keys: "set (map fst (with_row w f rs)) = insert w (set (map fst rs))"
  by (induction w f rs rule: with_row.induct) auto

lemma with_row_sorted: "sorted_wrt (<) (map fst rs) \<Longrightarrow> sorted_wrt (<) (map fst (with_row w f rs))"
proof (induction w f rs rule: with_row.induct)
  case (2 w f k row rs)
  then show ?case using with_row_keys [of w f rs] by (auto simp flip: set_map)
qed simp

lemma with_row_member:
  "e \<in> set (with_row w f rs) \<Longrightarrow> e \<in> set rs \<or> (\<exists>r. snd e = f r \<and> (r = empty_row \<or> r \<in> snd ` set rs))"
proof (induction w f rs rule: with_row.induct)
  case (2 w f k row rs)
  consider "w = k" | "w < k" | "k < w" by linarith
  then show ?case
  proof cases
    case 3
    then have "e = (k, row) \<or> e \<in> set (with_row w f rs)" using "2.prems" by simp
    then show ?thesis using "2.IH" 3 by fastforce
  qed (use "2.prems" in auto)
qed auto

lemma map_of_with_row:
  assumes "sorted_wrt (<) (map fst rs)"
  shows "map_of (with_row w f rs) = (map_of rs)(w \<mapsto> f (case map_of rs w of None \<Rightarrow> empty_row | Some r \<Rightarrow> r))"
  using assms
proof (induction w f rs rule: with_row.induct)
  case (2 w f k row rs)
  have "w < k \<Longrightarrow> map_of rs w = None"
    using "2.prems" by (force simp: map_of_eq_None_iff)
  with 2 show ?case by (auto simp: fun_eq_iff)
qed auto

lemma on_row_ok:
  assumes "map_ok m" and "\<And>r. row_ok r \<Longrightarrow> row_ok (snd (f r))"
  shows "map_ok (snd (on_row w f m))"
  using assms with_row_sorted [of "rows m" w "\<lambda>r. snd (f r)"]
  by (fastforce simp: map_ok_def on_row_def dest!: with_row_member)

text \<open>The public operations that change the map.\<close>

datatype workspace_op =
  SetCurrent int
| AddSession session_tile
| FocusIndex int nat
| FocusId rstr
| SetRow int "session_tile list" "nat option"
| InsertSession int session_tile
| MoveLeft | MoveRight | MoveUp | MoveDown

fun workspace_step :: "workspace_op \<Rightarrow> workspace_map \<Rightarrow> workspace_map option" where
  "workspace_step (SetCurrent w) m = Some (set_current_workspace w m)"
| "workspace_step (AddSession tile) m = Some (snd (add_session_to_current tile m))"
| "workspace_step (FocusIndex w i) m = Some (snd (focus_session_in_workspace w i m))"
| "workspace_step (FocusId i) m = Some (snd (focus_session_by_id i m))"
| "workspace_step (SetRow w ts foc) m = Some (set_row_sessions w ts foc m)"
| "workspace_step (InsertSession w tile) m = Some (snd (insert_session_in_workspace w tile m))"
| "workspace_step MoveLeft m = Some (snd (move_left m))"
| "workspace_step MoveRight m = Some (snd (move_right m))"
| "workspace_step MoveUp m = Some (move_up m)"
| "workspace_step MoveDown m = Some (move_down m)"

lemma map_ok_current [simp]: "map_ok (m\<lparr>current_workspace := w\<rparr>) = map_ok m"
  by (simp add: map_ok_def)

lemma set_current_ok: "map_ok m \<Longrightarrow> map_ok (set_current_workspace w m)"
proof -
  assume m: "map_ok m"
  have "map_ok (snd (on_row w (\<lambda>r. ((), r)) (m\<lparr>current_workspace := w\<rparr>)))"
    by (rule on_row_ok) (use m in auto)
  then show ?thesis by (simp add: set_current_workspace_def on_row_def)
qed

lemma row_ok_set:
  "row_ok (row\<lparr>sessions := ts, last_focused := None\<rparr>)"
  "i < length ts \<Longrightarrow> row_ok (row\<lparr>sessions := ts, last_focused := Some i\<rparr>)"
  by (simp_all add: row_ok_def)

lemma workspace_step_ok: "map_ok m \<Longrightarrow> workspace_step op m = Some m' \<Longrightarrow> map_ok m'"
  by (cases op)
     (auto simp: add_session_to_current_def focus_session_in_workspace_def focus_session_by_id_def
        set_row_sessions_def insert_session_in_workspace_def move_left_def move_right_def move_up_def
        move_down_def case_prod_beta row_ok_set row_operations_ok set_current_ok
        split: option.splits intro!: on_row_ok)

interpretation workspace: machine workspace_step map_ok
  by unfold_locales (rule workspace_step_ok)

lemma map_ok_new: "map_ok map_new"
  by (simp add: map_ok_def map_new_def)

section \<open>Properties\<close>

text \<open>
  Whatever operations the interface runs, the workspace stays well formed: keys are unique
  and in order, and a remembered focus is always the index of a session of its row.
\<close>

theorem workspace_stays_ok: "map_ok (run_ops workspace_step ops map_new)"
  by (rule workspace.run_inv [OF map_ok_new])

lemma position_Some:
  "position i ts = Some k \<Longrightarrow> k < length ts \<and> tile_session_id (ts ! k) = i \<and> (\<forall>j < k. tile_session_id (ts ! j) \<noteq> i)"
proof (induction i ts arbitrary: k rule: position.induct)
  case (2 i t ts)
  then show ?case by (auto simp: less_Suc_eq_0_disj split: if_splits) blast
qed simp

lemma position_None: "position i ts = None \<longleftrightarrow> i \<notin> tile_session_id ` set ts"
  by (induction i ts rule: position.induct) auto

lemma locate_Some: "locate i rs = Some (w, k) \<Longrightarrow> \<exists>row. (w, row) \<in> set rs \<and> position i (sessions row) = Some k"
  by (induction i rs rule: locate.induct) (auto split: option.splits)

lemma locate_None: "locate i rs = None \<longleftrightarrow> (\<forall>e \<in> set rs. i \<notin> tile_session_id ` set (sessions (snd e)))"
  by (induction i rs rule: locate.induct) (auto split: option.splits simp: position_None dest: position_Some)

lemma map_of_member:
  assumes "map_ok m" and "(w, row) \<in> set (rows m)"
  shows "map_of (rows m) w = Some row"
  using assms by (intro map_of_is_SomeI) (auto simp: map_ok_def strict_sorted_iff)

lemma row_at_on_row:
  assumes "map_ok m"
  shows "row_at w (snd (on_row w f m)) = Some (snd (f (row_or_default w m)))"
  using assms by (auto simp: row_at_def on_row_def row_or_default_def map_ok_def map_of_with_row split: option.split)

text \<open>
  Focusing a session by its id succeeds exactly when some row has it; then that session is the
  focused one of the current workspace, and otherwise nothing changes.
\<close>

theorem focus_by_id_spec:
  assumes "map_ok m"
  shows "(fst (focus_session_by_id i m) \<longleftrightarrow> (\<exists>e \<in> set (rows m). i \<in> tile_session_id ` set (sessions (snd e))))
     \<and> (fst (focus_session_by_id i m) \<longrightarrow> current_focused_session_id (snd (focus_session_by_id i m)) = Some i)
     \<and> (\<not> fst (focus_session_by_id i m) \<longrightarrow> snd (focus_session_by_id i m) = m)"
proof (cases "locate i (rows m)")
  case None
  moreover from this have "\<not> (\<exists>e \<in> set (rows m). i \<in> tile_session_id ` set (sessions (snd e)))"
    by (simp add: locate_None)
  ultimately show ?thesis by (simp add: focus_session_by_id_def locate_session_def)
next
  case (Some wk)
  obtain w k where wk: "wk = (w, k)" by (cases wk)
  obtain row where row: "(w, row) \<in> set (rows m)" "position i (sessions row) = Some k"
    using locate_Some Some wk by blast
  note k = position_Some [OF row(2)]
  have at: "row_or_default w m = row" "row_or_default w (m\<lparr>current_workspace := w\<rparr>) = row"
    using map_of_member [OF assms row(1)] by (simp_all add: row_or_default_def row_at_def)
  let ?m' = "snd (on_row w (focus k) (m\<lparr>current_workspace := w\<rparr>))"
  have "row_at w ?m' = Some (row\<lparr>last_focused := Some k\<rparr>)"
    using row_at_on_row [of "m\<lparr>current_workspace := w\<rparr>" w "focus k"] assms k by (simp add: at focus_def)
  moreover have "current_workspace ?m' = w" by (simp add: on_row_def)
  ultimately have "current_focused_session_id ?m' = Some i"
    using k by (simp add: current_focused_session_id_def focused_session_in_workspace_def focused_index_def)
  moreover have "fst (on_row w (focus k) (m\<lparr>current_workspace := w\<rparr>))"
    using k by (simp add: on_row_def at focus_def)
  moreover have "\<exists>e \<in> set (rows m). i \<in> tile_session_id ` set (sessions (snd e))"
    using row(1) k by (intro bexI [of _ "(w, row)"]) auto
  ultimately show ?thesis
    using Some by (simp add: focus_session_by_id_def locate_session_def wk)
qed

theorem focus_by_id_spec_witness:
  "current_focused_session_id (snd (focus_session_by_id ''b''
     \<lparr>rows = [(0, empty_row), (3, empty_row\<lparr>sessions := [tile_new ''a'', tile_new ''b'']\<rparr>)], current_workspace = 0\<rparr>)) = Some ''b''"
  by (rule focus_by_id_spec [THEN conjunct2, THEN conjunct1, rule_format])
     (simp add: map_ok_def row_ok_def empty_row_def, code_simp)

lemma index_of_Some: "index_of x ys = Some p \<Longrightarrow> p < length ys \<and> ys ! p = x"
  by (induction x ys arbitrary: p rule: index_of.induct) (auto split: if_splits)

lemma index_of_None: "index_of x ys = None \<longleftrightarrow> x \<notin> set ys"
  by (induction x ys rule: index_of.induct) auto

lemma window_spec:
  assumes "0 < k" and "pos < n"
  shows "fst (window k n pos) \<le> pos \<and> pos < snd (window k n pos) \<and> snd (window k n pos) \<le> n
     \<and> snd (window k n pos) - fst (window k n pos) = min k n"
proof -
  have half: "k div 2 < k" using assms(1) by simp
  show ?thesis using assms half unfolding window_def Let_def by (auto simp: min_def)
qed

text \<open>
  The visible rows are a window of the populated rows and the current one, in descending
  order: as many as fit and exist, each shown with its own sessions and focus, and always
  including the current workspace when it has a row.
\<close>

theorem visible_rows_spec:
  assumes "map_ok m" and "0 < k" and "row_at (current_workspace m) m \<noteq> None"
  shows "length (visible_rows k m) = min k (length (visible_keys m))
     \<and> (\<exists>v \<in> set (visible_rows k m). v_is_current v)
     \<and> sorted_wrt (>) (map v_workspace (visible_rows k m))
     \<and> (\<forall>v \<in> set (visible_rows k m). \<exists>row. row_at (v_workspace v) m = Some row
          \<and> v_sessions v = sessions row \<and> v_focused_index v = focused_index row)"
proof -
  let ?keys = "visible_keys m" and ?w = "current_workspace m"
  define sel where "sel = map fst (filter (\<lambda>e. fst e = ?w \<or> \<not> row_is_empty (snd e)) (rows m))"
  have w: "?w \<in> set sel"
    using assms(3) by (auto simp: sel_def row_at_def dest!: map_of_SomeD intro!: image_eqI)
  then have "sort sel \<noteq> []" by (metis empty_iff list.set(1) set_sort)
  then have keys: "?keys = rev (sort sel)" unfolding visible_keys_def Let_def sel_def [symmetric] by simp
  have "distinct sel" using assms(1) by (auto simp: sel_def map_ok_def strict_sorted_iff distinct_map_filter)
  then have "sorted_wrt (<) (sort sel)" by (simp add: strict_sorted_iff)
  then have desc: "sorted_wrt (>) ?keys" by (simp add: keys sorted_wrt_rev)
  have wk: "?w \<in> set ?keys" using w by (simp add: keys)
  then obtain p where p: "index_of ?w ?keys = Some p" using index_of_None by (cases "index_of ?w ?keys") auto
  note pos = index_of_Some [OF p]
  obtain a b where ab: "window k (length ?keys) p = (a, b)" by (cases "window k (length ?keys) p")
  have win: "a \<le> p" "p < b" "b \<le> length ?keys" "b - a = min k (length ?keys)"
    using window_spec [OF assms(2), of p "length ?keys"] pos ab by simp_all
  have vis: "visible_rows k m = map (visible_row_of m) (take (b - a) (drop a ?keys))"
    using assms(2) p ab by (simp add: visible_rows_def Let_def)
  define win where "win = take (b - a) (drop a ?keys)"
  have bound: "p - a < b - a" "a \<le> length ?keys" "a + (p - a) = p" using win(1-3) by linarith+
  have at: "win ! (p - a) = ?w" using pos by (simp only: win_def nth_take [OF bound(1)] nth_drop [OF bound(2)] bound(3))
  have inside: "p - a < length win"
    unfolding win_def length_take length_drop using bound(1) win(3) by linarith
  have cur: "?w \<in> set win" using nth_mem [OF inside] at by simp
  have len: "length (visible_rows k m) = min k (length ?keys)" using win by (simp add: vis)
  have here: "\<exists>v \<in> set (visible_rows k m). v_is_current v"
    using cur by (auto simp: vis win_def [symmetric] visible_row_of_def Let_def intro!: bexI [of _ ?w])
  have "map v_workspace (visible_rows k m) = win"
    by (simp add: vis win_def comp_def visible_row_of_def Let_def)
  moreover have "sorted_wrt (>) win"
    using desc by (simp add: win_def sorted_wrt_take sorted_wrt_drop)
  ultimately have sorted: "sorted_wrt (>) (map v_workspace (visible_rows k m))" by simp
  have own: "\<exists>row. row_at (v_workspace v) m = Some row \<and> v_sessions v = sessions row \<and> v_focused_index v = focused_index row"
    if v: "v \<in> set (visible_rows k m)" for v
  proof -
    obtain x where x: "x \<in> set win" "v = visible_row_of m x"
      using v by (auto simp: vis win_def)
    have "x \<in> set sel" using x(1) by (auto simp: win_def keys dest!: in_set_takeD in_set_dropD)
    then obtain row where "row_at x m = Some row" using map_of_member [OF assms(1)] by (auto simp: sel_def row_at_def)
    then show ?thesis by (simp add: x(2) visible_row_of_def row_or_default_def Let_def)
  qed
  show ?thesis using len here sorted own by blast
qed

theorem visible_rows_spec_witness:
  "let m = \<lparr>rows = [(-2, empty_row\<lparr>sessions := [tile_new ''a'']\<rparr>), (0, empty_row),
                    (5, empty_row\<lparr>sessions := [tile_new ''b'']\<rparr>)], current_workspace = 0\<rparr>
   in map v_workspace (visible_rows 2 m) = [5, 0] \<and> (\<exists>v \<in> set (visible_rows 2 m). v_is_current v)"
proof -
  let ?m = "\<lparr>rows = [(-2, empty_row\<lparr>sessions := [tile_new ''a'']\<rparr>), (0, empty_row),
                    (5, empty_row\<lparr>sessions := [tile_new ''b'']\<rparr>)], current_workspace = 0\<rparr>"
  have "map_ok ?m" by (simp add: map_ok_def row_ok_def empty_row_def)
  then have "\<exists>v \<in> set (visible_rows 2 ?m). v_is_current v"
    using visible_rows_spec [of ?m 2] by (simp add: row_at_def)
  moreover have "map v_workspace (visible_rows 2 ?m) = [5, 0]" by code_simp
  ultimately show ?thesis by (simp only: Let_def simp_thms)
qed

text \<open>
  A new session appears immediately to the right of the focused one (alone when the row was
  empty), takes the focus, and leaves the other sessions and their order as they were; moving
  the focus right and then left again restores it.
\<close>

theorem insert_and_move_spec:
  assumes "row_ok row"
  shows "(\<exists>at. insert_right_of_focus tile row
             = (at, row\<lparr>sessions := take at (sessions row) @ tile # drop at (sessions row), last_focused := Some at\<rparr>)
           \<and> at = (case focused_index row of None \<Rightarrow> 0 | Some i \<Rightarrow> Suc i) \<and> at \<le> length (sessions row)
           \<and> focused_index (snd (insert_right_of_focus tile row)) = Some at)
     \<and> (fst (move_focus_right row) \<longrightarrow>
          focused_index (snd (move_focus_left (snd (move_focus_right row)))) = focused_index row)"
proof -
  have none: "focused_index row = None \<longleftrightarrow> sessions row = []"
    by (auto simp: focused_index_def split: option.splits if_splits)
  show ?thesis
  proof (cases "focused_index row")
    case None
    then show ?thesis
      using none by (simp add: insert_right_of_focus_def move_focus_right_def focused_index_def Let_def)
  next
    case (Some i)
    note i = focused_index_bound [OF Some]
    have "focused_index (row\<lparr>last_focused := Some k\<rparr>) = Some k" if "k < length (sessions row)" for k
      using that by (simp add: focused_index_def)
    then show ?thesis
      using Some i
      by (auto simp: insert_right_of_focus_def move_focus_right_def move_focus_left_def Let_def min_def)
         (simp_all add: focused_index_def)
  qed
qed

theorem insert_and_move_spec_witness:
  "\<exists>at. insert_right_of_focus (tile_new ''x'') (empty_row\<lparr>sessions := [tile_new ''a'', tile_new ''b''], last_focused := Some 0\<rparr>)
     = (at, empty_row\<lparr>sessions := [tile_new ''a'', tile_new ''x'', tile_new ''b''], last_focused := Some at\<rparr>)"
  using insert_and_move_spec [of "empty_row\<lparr>sessions := [tile_new ''a'', tile_new ''b''], last_focused := Some 0\<rparr>" "tile_new ''x''"]
  by (auto simp: row_ok_def focused_index_def)

end
