(* ===== verification/Compaction.thy ===== *)
theory Compaction
  imports Prelude "HOL-Library.List_Lexorder"
begin

text \<open>
  Context compaction, \<open>crates/kcode-compaction-core/src/lib.rs\<close>, over the messages of
  \<open>crates/kcode-message-types/src/lib.rs\<close>. A message is its role and its blocks; the
  timestamp and the tool duration are read by nothing here. How serde prints a JSON value is
  an argument, \<open>show_json\<close>. Byte counts are natural numbers: they are lengths of strings
  in memory, which \<open>usize\<close> holds.
\<close>

section \<open>Messages\<close>

datatype role = User | Assistant

record cache_control =
  cc_kind :: rstr
  cc_ttl :: "rstr option"

datatype content_block =
  Text rstr "cache_control option"
| Reasoning rstr
| ReasoningTrace rstr
| AnthropicThinking rstr rstr
| OpenAIReasoning rstr "rstr list" "rstr option" "rstr option"
| ToolUse rstr rstr json "rstr option"
| ToolResult rstr rstr "bool option"
| Image rstr rstr
| OpenAICompaction rstr

record message =
  role_of :: role
  content_of :: "content_block list"

record summary =
  summary_text :: rstr
  openai_encrypted_content :: "rstr option"
  covers_up_to_turn :: nat
  original_turn_count :: nat

section \<open>Cutting strings\<close>

definition is_char_boundary :: "rstr \<Rightarrow> nat \<Rightarrow> bool" where
  "is_char_boundary s k =
     (k = 0 \<or> k = length s \<or> k < length s \<and> \<not> is_continuation (s ! k))"

text \<open>The two loops: the last boundary at or below, the first at or above.\<close>

fun boundary_below :: "rstr \<Rightarrow> nat \<Rightarrow> nat" where
  "boundary_below s 0 = 0"
| "boundary_below s (Suc k) =
     (if is_char_boundary s (Suc k) then Suc k else boundary_below s k)"

function boundary_above :: "rstr \<Rightarrow> nat \<Rightarrow> nat" where
  "boundary_above s k =
     (if k < length s \<and> \<not> is_char_boundary s k then boundary_above s (Suc k) else k)"
  by pat_completeness auto
termination
  by (relation "measure (\<lambda>(s, k). length s - k)") auto

declare boundary_above.simps [simp del]

definition truncate_str_boundary :: "rstr \<Rightarrow> nat \<Rightarrow> rstr" where
  "truncate_str_boundary value max_bytes =
     (if length value \<le> max_bytes then value
      else take (boundary_below value (min max_bytes (length value))) value)"

definition tail_str_boundary :: "rstr \<Rightarrow> nat \<Rightarrow> rstr" where
  "tail_str_boundary value max_bytes =
     (if length value \<le> max_bytes then value
      else drop (boundary_above value (length value - max_bytes)) value)"

section \<open>The summarization prompt\<close>

definition compacted_summary_text_block :: "rstr \<Rightarrow> rstr" where
  "compacted_summary_text_block s =
     ''## Previous Conversation Summary'' @ [CHR 0x0A, CHR 0x0A] @ s @ [CHR 0x0A, CHR 0x0A]
     @ ''---'' @ [CHR 0x0A, CHR 0x0A]"

fun block_text :: "(json \<Rightarrow> rstr) \<Rightarrow> content_block \<Rightarrow> rstr" where
  "block_text show_json (Text t c) = t @ [CHR 0x0A]"
| "block_text show_json (ToolUse i name inp s) =
     ''[Tool: '' @ name @ '' - '' @ show_json inp @ '']'' @ [CHR 0x0A]"
| "block_text show_json (ToolResult i c e) =
     ''[Result: ''
     @ (if 500 < length c then truncate_str_boundary c 500 @ ''... (truncated)'' else c)
     @ '']'' @ [CHR 0x0A]"
| "block_text show_json (Image m d) = ''[Image]'' @ [CHR 0x0A]"
| "block_text show_json (OpenAICompaction e) = ''[OpenAI native compaction]'' @ [CHR 0x0A]"
| "block_text show_json b = []"

definition message_text :: "(json \<Rightarrow> rstr) \<Rightarrow> message \<Rightarrow> rstr" where
  "message_text show_json m =
     ''**'' @ (case role_of m of User \<Rightarrow> ''User'' | Assistant \<Rightarrow> ''Assistant'') @ '':**'' @ [CHR 0x0A]
     @ concat (map (block_text show_json) (content_of m)) @ [CHR 0x0A]"

definition build_compaction_conversation_text ::
  "(json \<Rightarrow> rstr) \<Rightarrow> message list \<Rightarrow> summary option \<Rightarrow> rstr" where
  "build_compaction_conversation_text show_json ms existing =
     (case existing of
        None \<Rightarrow> []
      | Some s \<Rightarrow>
          ''## Previous Summary'' @ [CHR 0x0A, CHR 0x0A] @ summary_text s
          @ [CHR 0x0A, CHR 0x0A] @ ''## New Conversation'' @ [CHR 0x0A, CHR 0x0A])
     @ concat (map (message_text show_json) ms)"

definition SUMMARY_PROMPT :: rstr where
  "SUMMARY_PROMPT = join [CHR 0x0A]
     [''Summarize our conversation so you can continue this work later.'',
      [],
      ''Write in natural language with these sections:'',
      ''- **Context:** What we're working on and why (1-2 sentences)'',
      ''- **What we did:** Key actions taken, files changed, problems solved'',
      ''- **Current state:** What works, what's broken, what's next'',
      ''- **User preferences:** Specific requirements or decisions they made'',
      [],
      ''Be concise but preserve important details. You can search the full conversation later if you need exact error messages or code snippets.'']"

definition build_compaction_prompt ::
  "(json \<Rightarrow> rstr) \<Rightarrow> message list \<Rightarrow> summary option \<Rightarrow> nat \<Rightarrow> rstr" where
  "build_compaction_prompt show_json ms existing max_chars =
     (let text' = build_compaction_conversation_text show_json ms existing;
          overhead = length SUMMARY_PROMPT + 50;
          cut = (if max_chars < length text' + overhead \<and> overhead < max_chars
                 then truncate_str_boundary text' (max_chars - overhead)
                      @ [CHR 0x0A, CHR 0x0A]
                      @ ''... [earlier conversation truncated to fit context window]'' @ [CHR 0x0A]
                 else text')
      in cut @ [CHR 0x0A, CHR 0x0A] @ ''---'' @ [CHR 0x0A, CHR 0x0A] @ SUMMARY_PROMPT)"

section \<open>The cutoff\<close>

text \<open>One block's effect on the sets of available and of missing tool ids.\<close>

fun track_block :: "rstr set \<times> rstr set \<Rightarrow> content_block \<Rightarrow> rstr set \<times> rstr set" where
  "track_block (avail, missing) (ToolUse i n inp s) = (insert i avail, missing - {i})"
| "track_block (avail, missing) (ToolResult i c e) =
     (avail, if i \<in> avail then missing else insert i missing)"
| "track_block s b = s"

definition track_message :: "rstr set \<times> rstr set \<Rightarrow> message \<Rightarrow> rstr set \<times> rstr set" where
  "track_message s m = foldl track_block s (content_of m)"

text \<open>
  The backward walk over the messages before the cutoff; the list is reversed, and \<open>k\<close>
  is the number of messages left in it, so the index of its head is \<open>k - 1\<close>.
\<close>

fun walk_back :: "rstr set \<times> rstr set \<Rightarrow> message list \<Rightarrow> nat" where
  "walk_back s [] = 0"
| "walk_back s (m # ms) =
     (if snd (track_message s m) = {} then length ms else walk_back (track_message s m) ms)"

definition safe_compaction_cutoff :: "message list \<Rightarrow> nat \<Rightarrow> nat" where
  "safe_compaction_cutoff ms initial =
     (let cutoff = min initial (length ms);
          s = foldl track_message ({}, {}) (drop cutoff ms)
      in if snd s = {} then cutoff else walk_back s (rev (take cutoff ms)))"

section \<open>Counting\<close>

definition CHARS_PER_TOKEN :: nat where "CHARS_PER_TOKEN = 4"
definition EMERGENCY_TOOL_RESULT_MAX_CHARS :: nat where "EMERGENCY_TOOL_RESULT_MAX_CHARS = 4000"
definition EMERGENCY_IMAGE_MAX_CHARS :: nat where "EMERGENCY_IMAGE_MAX_CHARS = 1024"
definition IMAGE_TOKEN_COST :: nat where "IMAGE_TOKEN_COST = 1600"
definition SYSTEM_OVERHEAD_TOKENS :: nat where "SYSTEM_OVERHEAD_TOKENS = 18000"
definition DEFAULT_TOKEN_BUDGET :: nat where "DEFAULT_TOKEN_BUDGET = 200000"

fun block_char_count :: "(json \<Rightarrow> rstr) \<Rightarrow> content_block \<Rightarrow> nat" where
  "block_char_count show_json (Text t c) = length t"
| "block_char_count show_json (Reasoning t) = length t"
| "block_char_count show_json (ReasoningTrace t) = length t"
| "block_char_count show_json (AnthropicThinking t s) = length t + length s"
| "block_char_count show_json (OpenAIReasoning i ss e st) =
     length i + sum_list (map length ss) + (case e of None \<Rightarrow> 0 | Some x \<Rightarrow> length x)
     + (case st of None \<Rightarrow> 0 | Some x \<Rightarrow> length x)"
| "block_char_count show_json (ToolUse i n inp s) = length (show_json inp) + 50"
| "block_char_count show_json (ToolResult i c e) = length c + 20"
| "block_char_count show_json (Image m d) = IMAGE_TOKEN_COST * CHARS_PER_TOKEN"
| "block_char_count show_json (OpenAICompaction e) = length e"

definition content_char_count :: "(json \<Rightarrow> rstr) \<Rightarrow> content_block list \<Rightarrow> nat" where
  "content_char_count show_json bs = sum_list (map (block_char_count show_json) bs)"

definition message_char_count :: "(json \<Rightarrow> rstr) \<Rightarrow> message \<Rightarrow> nat" where
  "message_char_count show_json m = content_char_count show_json (content_of m)"

definition summary_payload_char_count :: "summary \<Rightarrow> nat" where
  "summary_payload_char_count s =
     (case openai_encrypted_content s of None \<Rightarrow> length (summary_text s) | Some v \<Rightarrow> length v)"

definition estimate_tokens_from_chars :: "nat \<Rightarrow> nat \<Rightarrow> nat" where
  "estimate_tokens_from_chars total_chars budget =
     total_chars div CHARS_PER_TOKEN
     + (if DEFAULT_TOKEN_BUDGET div 2 \<le> budget then SYSTEM_OVERHEAD_TOKENS else 0)"

definition estimate_compaction_tokens :: "summary option \<Rightarrow> nat \<Rightarrow> nat \<Rightarrow> nat" where
  "estimate_compaction_tokens s active_chars budget =
     estimate_tokens_from_chars
       ((case s of None \<Rightarrow> 0 | Some x \<Rightarrow> summary_payload_char_count x) + active_chars) budget"

text \<open>\<open>u64::saturating_add\<close>.\<close>

definition sat_add64 :: "nat \<Rightarrow> nat \<Rightarrow> nat" where
  "sat_add64 a b = min (a + b) 18446744073709551615"

definition effective_context_tokens ::
  "rstr \<Rightarrow> nat \<Rightarrow> nat option \<Rightarrow> nat option \<Rightarrow> nat" where
  "effective_context_tokens provider input cache_read cache_creation =
     (if input = 0 then 0
      else
        (let read = (case cache_read of None \<Rightarrow> 0 | Some r \<Rightarrow> r);
             creation = (case cache_creation of None \<Rightarrow> 0 | Some c \<Rightarrow> c);
             name = to_lowercase provider;
             split_accounting = contains name ''anthropic'' \<or> contains name ''claude'' \<or> 0 < creation \<or> input < read
         in if split_accounting then sat_add64 (sat_add64 input read) creation else input))"

section \<open>The emergency summary\<close>

text \<open>
  \<open>char::is_alphanumeric\<close>: ASCII is decided here, the other characters (by their UTF-8
  bytes) by the argument.
\<close>

definition is_alphanumeric :: "(rstr \<Rightarrow> bool) \<Rightarrow> rstr \<Rightarrow> bool" where
  "is_alphanumeric other ch =
     (case ch of
        [c] \<Rightarrow> is_ascii_digit c \<or> 65 \<le> byte c \<and> byte c \<le> 90 \<or> 97 \<le> byte c \<and> byte c \<le> 122
      | _ \<Rightarrow> other ch)"

definition in_reference :: "(rstr \<Rightarrow> bool) \<Rightarrow> rstr \<Rightarrow> bool" where
  "in_reference other ch =
     (is_alphanumeric other ch \<or> ch = ''/'' \<or> ch = ''.'' \<or> ch = ''_'' \<or> ch = ''-'')"

definition clean_file_reference :: "(rstr \<Rightarrow> bool) \<Rightarrow> rstr \<Rightarrow> rstr" where
  "clean_file_reference other w =
     (let out = (\<lambda>ch. \<not> in_reference other ch)
      in concat (rev (dropWhile out (rev (dropWhile out (utf8_chars w))))))"

definition looks_like_file_reference :: "rstr \<Rightarrow> bool" where
  "looks_like_file_reference w =
     ((contains w ''/'' \<or> contains w ''.'') \<and> 3 < length w \<and> length w < 120
      \<and> \<not> starts_with w ''http''
      \<and> (contains w ''.rs'' \<or> contains w ''.ts'' \<or> contains w ''.py'' \<or> contains w ''.toml''
         \<or> contains w ''.json'' \<or> starts_with w ''src/'' \<or> starts_with w ''./''))"

definition extract_file_mentions :: "(rstr \<Rightarrow> bool) \<Rightarrow> rstr \<Rightarrow> rstr list" where
  "extract_file_mentions other t =
     filter (\<lambda>w. w \<noteq> [])
       (map (clean_file_reference other) (filter looks_like_file_reference (split_whitespace t)))"

fun block_tool_names :: "content_block \<Rightarrow> rstr list" where
  "block_tool_names (ToolUse i name inp s) = [name]"
| "block_tool_names b = []"

fun block_mentions :: "(rstr \<Rightarrow> bool) \<Rightarrow> content_block \<Rightarrow> rstr list" where
  "block_mentions other (Text t c) = extract_file_mentions other t"
| "block_mentions other b = []"

text \<open>\<open>collect_emergency_summary_hints\<close> over all dropped messages.\<close>

definition emergency_summary_hints ::
  "(rstr \<Rightarrow> bool) \<Rightarrow> message list \<Rightarrow> rstr list \<times> rstr list" where
  "emergency_summary_hints other ms =
     (concat (map (\<lambda>m. concat (map block_tool_names (content_of m))) ms),
      concat (map (\<lambda>m. concat (map (block_mentions other) (content_of m))) ms))"

definition build_emergency_summary_text ::
  "(rstr \<Rightarrow> bool) \<Rightarrow> rstr option \<Rightarrow> nat \<Rightarrow> nat \<Rightarrow> nat \<Rightarrow> message list \<Rightarrow> rstr" where
  "build_emergency_summary_text other existing dropped_count pre_tokens token_budget dropped =
     (let tools = sort (remdups (fst (emergency_summary_hints other dropped)));
          files = remdups_adj (sort (snd (emergency_summary_hints other dropped)))
      in join [CHR 0x0A, CHR 0x0A]
           ((case existing of Some s \<Rightarrow> if s = [] then [] else [s] | None \<Rightarrow> [])
            @ [''**[Emergency compaction]**: '' @ decimal dropped_count
               @ '' messages were dropped to recover from context overflow. The conversation had ~''
               @ decimal (pre_tokens div 1000) @ ''k tokens which exceeded the ''
               @ decimal (token_budget div 1000) @ ''k limit.'']
            @ (if tools = [] then [] else [''Tools used: '' @ join '', '' tools])
            @ (if files = [] then []
               else [''Files referenced: '' @ join '', '' (take 30 files)])))"

section \<open>Emergency truncation\<close>

definition truncation_marker :: "nat \<Rightarrow> rstr" where
  "truncation_marker n =
     [CHR 0x0A, CHR 0x0A] @ ''... ['' @ decimal n @ '' chars truncated for context recovery] ...''
     @ [CHR 0x0A, CHR 0x0A]"

definition emergency_truncated_tool_result :: "rstr \<Rightarrow> nat \<Rightarrow> rstr" where
  "emergency_truncated_tool_result content max_chars =
     (let head = truncate_str_boundary content (max_chars div 2);
          tail = tail_str_boundary content (max_chars div 4)
      in head @ truncation_marker (length content - (length head + length tail)) @ tail)"

text \<open>A block after the pass, and how many it truncated.\<close>

fun truncate_result :: "nat \<Rightarrow> content_block \<Rightarrow> content_block \<times> nat" where
  "truncate_result max_chars (ToolResult i c e) =
     (if max_chars < length c
      then (ToolResult i (emergency_truncated_tool_result c max_chars) e, 1)
      else (ToolResult i c e, 0))"
| "truncate_result max_chars b = (b, 0)"

definition over_blocks ::
  "(content_block \<Rightarrow> content_block \<times> nat) \<Rightarrow> message list \<Rightarrow> message list \<times> nat" where
  "over_blocks f ms =
     (map (\<lambda>m. m\<lparr>content_of := map (\<lambda>b. fst (f b)) (content_of m)\<rparr>) ms,
      sum_list (map (\<lambda>m. sum_list (map (\<lambda>b. snd (f b)) (content_of m))) ms))"

definition emergency_truncate_tool_results :: "message list \<Rightarrow> nat \<Rightarrow> message list \<times> nat" where
  "emergency_truncate_tool_results ms max_chars = over_blocks (truncate_result max_chars) ms"

definition image_marker :: "rstr \<Rightarrow> rstr \<Rightarrow> content_block" where
  "image_marker media_type data =
     Text (''[Image omitted during emergency context recovery: media_type='' @ media_type
       @ '', original_base64_chars='' @ decimal (length data)
       @ ''. Rely on adjacent browser/tool text, screenshots saved to disk, or re-open/re-screenshot if visual details are needed.]'') None"

fun truncate_payload :: "nat \<Rightarrow> nat \<Rightarrow> content_block \<Rightarrow> content_block \<times> nat" where
  "truncate_payload max_result max_image (ToolResult i c e) =
     (if max_result < length c
      then (ToolResult i (emergency_truncated_tool_result c max_result) e, 1)
      else (ToolResult i c e, 0))"
| "truncate_payload max_result max_image (Image m d) =
     (if max_image < length d then (image_marker m d, 1) else (Image m d, 0))"
| "truncate_payload max_result max_image b = (b, 0)"

definition emergency_truncate_large_payloads ::
  "message list \<Rightarrow> nat \<Rightarrow> nat \<Rightarrow> message list \<times> nat" where
  "emergency_truncate_large_payloads ms max_result max_image =
     over_blocks (truncate_payload max_result max_image) ms"

section \<open>Request too large\<close>

text \<open>\<open>match_indices\<close> for a needle that cannot overlap itself: every occurrence.\<close>

fun occurs_alone :: "char option \<Rightarrow> rstr \<Rightarrow> rstr \<Rightarrow> bool" where
  "occurs_alone before [] code = False"
| "occurs_alone before (c # s) code =
     (starts_with (c # s) code
        \<and> (case before of None \<Rightarrow> True | Some b \<Rightarrow> \<not> is_ascii_digit b)
        \<and> (case drop (length code) (c # s) of [] \<Rightarrow> True | a # _ \<Rightarrow> \<not> is_ascii_digit a)
      \<or> occurs_alone (Some c) s code)"

definition contains_independent_status_code :: "rstr \<Rightarrow> rstr \<Rightarrow> bool" where
  "contains_independent_status_code haystack code = occurs_alone None haystack code"

definition is_request_payload_too_large_error :: "rstr \<Rightarrow> bool" where
  "is_request_payload_too_large_error error =
     (let lower = to_ascii_lowercase error
      in contains lower ''request_too_large'' \<or> contains lower ''request too large''
         \<or> contains lower ''payload too large'' \<or> contains lower ''request entity too large''
         \<or> contains lower ''request exceeds the maximum size''
         \<or> contains lower ''exceeds the maximum size''
         \<or> contains_independent_status_code lower ''413'')"

section \<open>Stripping images\<close>

definition strip_marker :: "rstr \<Rightarrow> rstr \<Rightarrow> content_block" where
  "strip_marker media_type data =
     Text (''[Image omitted during request-size recovery: media_type='' @ media_type
       @ '', original_base64_chars='' @ decimal (length data)
       @ ''. The request body exceeded the provider size limit; older images were dropped. Rely on adjacent browser/tool text, screenshots saved to disk, or re-open/re-screenshot if visual details are needed.]'') None"

fun images_in :: "nat \<Rightarrow> nat \<Rightarrow> content_block list \<Rightarrow> (nat \<times> nat \<times> nat) list" where
  "images_in ci bi [] = []"
| "images_in ci bi (Image m d # bs) = (ci, bi, length d) # images_in ci (Suc bi) bs"
| "images_in ci bi (b # bs) = images_in ci (Suc bi) bs"

fun all_images :: "nat \<Rightarrow> content_block list list \<Rightarrow> (nat \<times> nat \<times> nat) list" where
  "all_images ci [] = []"
| "all_images ci (c # cs) = images_in ci 0 c @ all_images (Suc ci) cs"

text \<open>The second loop: \<open>contents\<close>, \<open>bytes\<close> (the \<open>total\<close> of the code) and \<open>stripped\<close> are its state.\<close>

fun strip_loop ::
  "nat \<Rightarrow> (nat \<times> nat \<times> nat) list \<Rightarrow> content_block list list \<Rightarrow> nat \<Rightarrow> nat
     \<Rightarrow> content_block list list \<times> nat" where
  "strip_loop target [] contents bytes stripped = (contents, stripped)"
| "strip_loop target ((ci, bi, len) # images) contents bytes stripped =
     (if bytes \<le> target then (contents, stripped)
      else (case contents ! ci ! bi of
              Image m d \<Rightarrow>
                strip_loop target images
                  (contents[ci := (contents ! ci)[bi := strip_marker m d]]) (bytes - len) (Suc stripped)
            | _ \<Rightarrow> strip_loop target images contents bytes stripped))"

definition strip_large_images_in_contents ::
  "content_block list list \<Rightarrow> nat \<Rightarrow> content_block list list \<times> nat" where
  "strip_large_images_in_contents contents target =
     (let images = all_images 0 contents;
          bytes = sum_list (map (\<lambda>(ci, bi, len). len) images)
      in if bytes \<le> target then (contents, 0) else strip_loop target images contents bytes 0)"

definition emergency_strip_large_images :: "message list \<Rightarrow> nat \<Rightarrow> message list \<times> nat" where
  "emergency_strip_large_images ms target =
     (case strip_large_images_in_contents (map content_of ms) target of
        (contents, n) \<Rightarrow> (map2 (\<lambda>m c. m\<lparr>content_of := c\<rparr>) ms contents, n))"


section \<open>The kept suffix is closed under tool calls\<close>

fun uses_of :: "content_block \<Rightarrow> rstr set" where
  "uses_of (ToolUse i n inp s) = {i}"
| "uses_of b = {}"

fun results_of :: "content_block \<Rightarrow> rstr set" where
  "results_of (ToolResult i c e) = {i}"
| "results_of b = {}"

definition tool_uses :: "message list \<Rightarrow> rstr set" where
  "tool_uses ms = (\<Union>m \<in> set ms. \<Union>b \<in> set (content_of m). uses_of b)"

definition tool_results :: "message list \<Rightarrow> rstr set" where
  "tool_results ms = (\<Union>m \<in> set ms. \<Union>b \<in> set (content_of m). results_of b)"

text \<open>Every result in the list has its call in the list.\<close>

definition paired :: "message list \<Rightarrow> bool" where
  "paired ms = (tool_results ms \<subseteq> tool_uses ms)"

lemma track_blocks:
  "foldl track_block (A, R - A) bs =
     (A \<union> (\<Union>b \<in> set bs. uses_of b),
      (R \<union> (\<Union>b \<in> set bs. results_of b)) - (A \<union> (\<Union>b \<in> set bs. uses_of b)))"
proof (induction bs arbitrary: A R)
  case (Cons b bs)
  have "track_block (A, R - A) b = (A \<union> uses_of b, (R \<union> results_of b) - (A \<union> uses_of b))"
    by (cases b) auto
  then show ?case using Cons.IH [of "A \<union> uses_of b" "R \<union> results_of b"] by (simp add: Un_assoc)
qed simp

lemma track_message_known:
  "track_message (tool_uses ms, tool_results ms - tool_uses ms) m =
     (tool_uses (m # ms), tool_results (m # ms) - tool_uses (m # ms))"
  unfolding track_message_def track_blocks
  by (simp add: tool_uses_def tool_results_def Un_commute)

lemma track_messages:
  "foldl track_message (tool_uses ns, tool_results ns - tool_uses ns) ms =
     (tool_uses (rev ms @ ns), tool_results (rev ms @ ns) - tool_uses (rev ms @ ns))"
  by (induction ms arbitrary: ns) (simp_all add: track_message_known)

lemma ids_of_same_set:
  "set ms = set ns \<Longrightarrow> tool_uses ms = tool_uses ns \<and> tool_results ms = tool_results ns"
  by (simp add: tool_uses_def tool_results_def)

lemma track_suffix:
  "foldl track_message ({}, {}) ms = (tool_uses ms, tool_results ms - tool_uses ms)"
  using track_messages [of "[]" ms] ids_of_same_set [of "rev ms" ms]
  by (simp add: tool_uses_def tool_results_def)

lemma walk_back_spec:
  assumes "k = walk_back (tool_uses kept, tool_results kept - tool_uses kept) (rev ms)"
  shows "k \<le> length ms \<and> (k = 0 \<or> paired (drop k ms @ kept))
    \<and> (\<forall>j. k < j \<and> j < length ms \<longrightarrow> \<not> paired (drop j ms @ kept))"
  using assms
proof (induction ms arbitrary: kept k rule: rev_induct)
  case (snoc m ms)
  show ?case
  proof (cases "paired (m # kept)")
    case True
    then have "k = length ms" using snoc.prems by (simp add: track_message_known paired_def)
    then show ?thesis using True by auto
  next
    case False
    then have k: "k = walk_back (tool_uses (m # kept),
        tool_results (m # kept) - tool_uses (m # kept)) (rev ms)"
      using snoc.prems by (simp add: track_message_known paired_def)
    note IH = snoc.IH [OF k]
    have "\<not> paired (drop j (ms @ [m]) @ kept)" if "k < j \<and> j < length (ms @ [m])" for j
      using that IH False by (cases "j = length ms") auto
    then show ?thesis using IH by (auto simp: append_assoc)
  qed
qed simp

lemma safe_cutoff:
  assumes "k = safe_compaction_cutoff ms initial"
  shows "k \<le> min initial (length ms) \<and> (k = 0 \<or> paired (drop k ms))
    \<and> (\<forall>j \<in> {Suc k..min initial (length ms)}. \<not> paired (drop j ms))"
proof -
  define c where "c = min initial (length ms)"
  have found: "k = (if paired (drop c ms) then c
      else walk_back (tool_uses (drop c ms), tool_results (drop c ms) - tool_uses (drop c ms))
        (rev (take c ms)))"
    by (auto simp: assms c_def safe_compaction_cutoff_def track_suffix paired_def Let_def)
  have "k \<le> c \<and> (k = 0 \<or> paired (drop k ms)) \<and> (\<forall>j \<in> {Suc k..c}. \<not> paired (drop j ms))"
  proof (cases "paired (drop c ms)")
    case True
    then show ?thesis using found by simp
  next
    case False
    have suffix: "drop j (take c ms) @ drop c ms = drop j ms" if "j \<le> c" for j
      using that by (metis append_take_drop_id c_def drop_append diff_is_0_eq drop0 length_take
          min.absorb2 min.cobounded2)
    note w = walk_back_spec [of k "drop c ms" "take c ms"]
    have len: "length (take c ms) = c" by (simp add: c_def)
    have "k \<le> c \<and> (k = 0 \<or> paired (drop k (take c ms) @ drop c ms))
      \<and> (\<forall>j. k < j \<and> j < c \<longrightarrow> \<not> paired (drop j (take c ms) @ drop c ms))"
      using w found False len by auto
    then show ?thesis using False suffix by (metis Suc_le_eq atLeastAtMost_iff le_neq_implies_less)
  qed
  then show ?thesis by (simp add: c_def)
qed

text \<open>
  C31: the cutoff never passes the one asked for; what is kept after it holds the call of
  every tool result it holds, unless the cutoff is 0 and everything is kept; and it is the
  largest such cutoff, so no more is kept than the pairing needs.
\<close>

theorem cutoff_spec:
  "(let k = safe_compaction_cutoff ms initial
    in k \<le> min initial (length ms)
       \<and> (k = 0 \<or> paired (drop k ms))
       \<and> (\<forall>j \<in> {Suc k..min initial (length ms)}. \<not> paired (drop j ms)))"
  unfolding Let_def by (rule safe_cutoff) simp

lemma cutoff_spec_witness:
  "safe_compaction_cutoff
     [\<lparr>role_of = User, content_of = [Text ''go'' None]\<rparr>,
      \<lparr>role_of = Assistant, content_of = [ToolUse ''a'' ''ls'' JNull None]\<rparr>,
      \<lparr>role_of = User, content_of = [ToolResult ''a'' ''x'' None]\<rparr>] 2 = 1
   \<and> \<not> paired (drop 2
     [\<lparr>role_of = User, content_of = [Text ''go'' None]\<rparr>,
      \<lparr>role_of = Assistant, content_of = [ToolUse ''a'' ''ls'' JNull None]\<rparr>,
      \<lparr>role_of = User, content_of = [ToolResult ''a'' ''x'' None]\<rparr>])"
proof -
  let ?ms = "[\<lparr>role_of = User, content_of = [Text ''go'' None]\<rparr>,
      \<lparr>role_of = Assistant, content_of = [ToolUse ''a'' ''ls'' JNull None]\<rparr>,
      \<lparr>role_of = User, content_of = [ToolResult ''a'' ''x'' None]\<rparr>]"
  have k: "safe_compaction_cutoff ?ms 2 = 1"
    by (simp add: safe_compaction_cutoff_def track_message_def)
  have "{Suc 1..min 2 (length ?ms)} = {2}" by auto
  with cutoff_spec [of ?ms 2] k show ?thesis by (simp only: Let_def) simp
qed

section \<open>Cutting keeps the text well-formed\<close>

text \<open>The length of the character a lead byte opens, 0 for a byte that opens none.\<close>

definition utf8_width :: "char \<Rightarrow> nat" where
  "utf8_width c =
     (if byte c < 128 then 1
      else if 194 \<le> byte c \<and> byte c < 224 then 2
      else if 224 \<le> byte c \<and> byte c < 240 then 3
      else if 240 \<le> byte c \<and> byte c < 245 then 4 else 0)"

inductive utf8 :: "rstr \<Rightarrow> bool" where
  utf8_Nil: "utf8 []"
| utf8_char: "utf8_width c = Suc (length ks) \<Longrightarrow> \<forall>k \<in> set ks. is_continuation k \<Longrightarrow> utf8 s
     \<Longrightarrow> utf8 (c # ks @ s)"

code_pred utf8 .

lemma lead_not_continuation: "0 < utf8_width c \<Longrightarrow> \<not> is_continuation c"
  by (auto simp: utf8_width_def is_continuation_def split: if_splits)

lemma utf8_head: "utf8 (c # s) \<Longrightarrow> \<not> is_continuation c"
  by (erule utf8.cases) (use lead_not_continuation in force)+

lemma boundary_at_char:
  assumes "utf8_width c = Suc (length ks)" and "\<forall>k \<in> set ks. is_continuation k" and "utf8 s"
  shows "is_char_boundary (c # ks @ s) n =
    (n = 0 \<or> Suc (length ks) \<le> n \<and> is_char_boundary s (n - Suc (length ks)))"
proof -
  consider "n = 0" | "0 < n" "n \<le> length ks" | "Suc (length ks) \<le> n" by linarith
  then show ?thesis
  proof cases
    case 2
    then have "(c # ks @ s) ! n = ks ! (n - 1)" by (cases n) (simp_all add: nth_append)
    then have "is_continuation ((c # ks @ s) ! n)" using 2 assms(2) by simp
    then show ?thesis using 2 by (simp add: is_char_boundary_def)
  next
    case 3
    then obtain d where n: "n = Suc (length ks) + d" using le_Suc_ex by blast
    then have at: "(c # ks @ s) ! n = s ! d" by (simp add: nth_append)
    have "0 < length s \<longrightarrow> \<not> is_continuation (s ! 0)"
      using utf8_head [of "hd s" "tl s"] assms(3) by (simp add: hd_conv_nth [symmetric])
    then show ?thesis using n at by (auto simp: is_char_boundary_def)
  qed (simp add: is_char_boundary_def)
qed

lemma utf8_cut: "utf8 s \<Longrightarrow> is_char_boundary s n \<Longrightarrow> utf8 (take n s) \<and> utf8 (drop n s)"
proof (induction arbitrary: n rule: utf8.induct)
  case (utf8_char c ks s)
  show ?case
  proof (cases "n = 0")
    case False
    then have "Suc (length ks) \<le> n" and at: "is_char_boundary s (n - Suc (length ks))"
      using utf8_char.prems boundary_at_char [OF utf8_char.hyps] by simp_all
    then obtain d where d: "n = Suc (length ks) + d" using le_Suc_ex by blast
    then have "utf8 (take d s)" "utf8 (drop d s)" using utf8_char.IH [of d] at by simp_all
    then show ?thesis using d utf8_char.hyps by (simp add: utf8.intros)
  qed (use utf8_char.hyps in \<open>auto intro: utf8.intros\<close>)
qed (auto intro: utf8.intros)

lemma utf8_append: "utf8 a \<Longrightarrow> utf8 b \<Longrightarrow> utf8 (a @ b)"
  by (induction rule: utf8.induct) (auto intro: utf8.intros)

lemma boundary_below_is: "boundary_below s n \<le> n \<and> is_char_boundary s (boundary_below s n)"
  by (induction n) (auto simp: is_char_boundary_def)

lemma boundary_below_last:
  "boundary_below s n < j \<Longrightarrow> j \<le> n \<Longrightarrow> \<not> is_char_boundary s j"
  by (induction n) (auto split: if_splits elim: le_SucE)

lemma boundary_above_is:
  "n \<le> length s \<Longrightarrow> n \<le> boundary_above s n \<and> boundary_above s n \<le> length s
     \<and> is_char_boundary s (boundary_above s n)"
proof (induction s n rule: boundary_above.induct)
  case (1 s n)
  show ?case
  proof (cases "n < length s \<and> \<not> is_char_boundary s n")
    case True
    then show ?thesis using 1 by (simp add: boundary_above.simps [of s n])
  next
    case False
    then show ?thesis using 1(2)
      by (subst (1 2 3) boundary_above.simps) (auto simp: is_char_boundary_def)
  qed
qed

lemma boundary_above_first:
  "is_char_boundary s j \<Longrightarrow> n \<le> j \<Longrightarrow> boundary_above s n \<le> j"
proof (induction s n rule: boundary_above.induct)
  case (1 s n)
  show ?case
  proof (cases "n < length s \<and> \<not> is_char_boundary s n")
    case True
    then have "Suc n \<le> j" using 1(2,3) by (cases "n = j") auto
    then show ?thesis using 1 True by (simp add: boundary_above.simps [of s n])
  next
    case False
    then show ?thesis using 1(3) by (subst boundary_above.simps) auto
  qed
qed

lemma boundary_near:
  assumes "utf8 s" and "n \<le> length s"
  shows "n \<le> boundary_below s n + 3 \<and> boundary_above s n \<le> n + 3"
proof -
  have gap: "\<exists>j. is_char_boundary s j \<and> j \<le> n \<and> n \<le> j + 3"
    "\<exists>j. is_char_boundary s j \<and> n \<le> j \<and> j \<le> n + 3"
    using assms
  proof (induction arbitrary: n rule: utf8.induct)
    case utf8_Nil
    { case 1 then show ?case by (auto simp: is_char_boundary_def) }
    { case 2 then show ?case by (auto simp: is_char_boundary_def) }
  next
    case (utf8_char c ks s)
    note at = boundary_at_char [OF utf8_char.hyps]
    have "Suc (length ks) \<le> 4"
      using utf8_char.hyps(1) by (simp add: utf8_width_def split: if_splits)
    then have short: "length ks \<le> 3" by simp
    have start: "is_char_boundary s 0" by (simp add: is_char_boundary_def)
    { case 1
      show ?case
      proof (cases "n \<le> length ks")
        case True
        then show ?thesis using short by (intro exI [of _ 0]) (simp add: at)
      next
        case False
        then obtain d where d: "n = Suc (length ks) + d" by (metis not_less_eq_eq le_Suc_ex)
        then have "d \<le> length s" using 1 by simp
        from utf8_char.IH(1) [OF this] obtain j where
          "is_char_boundary s j" "j \<le> d" "d \<le> j + 3" by blast
        then show ?thesis using d by (intro exI [of _ "Suc (length ks) + j"]) (simp add: at)
      qed }
    { case 2
      show ?case
      proof (cases "n = 0 \<or> n > length ks")
        case False
        then show ?thesis using short start
          by (intro exI [of _ "Suc (length ks)"]) (simp add: at)
      next
        case True
        show ?thesis
        proof (cases "n = 0")
          case False
          with True obtain d where d: "n = Suc (length ks) + d"
            by (metis less_eq_Suc_le le_Suc_ex)
          then have "d \<le> length s" using 2 by simp
          from utf8_char.IH(2) [OF this] obtain j where
            "is_char_boundary s j" "d \<le> j" "j \<le> d + 3" by blast
          then show ?thesis using d by (intro exI [of _ "Suc (length ks) + j"]) (simp add: at)
        qed (auto simp: at)
      qed }
  qed
  from gap(1) obtain i where i: "is_char_boundary s i" "i \<le> n" "n \<le> i + 3" by blast
  from gap(2) obtain j where j: "is_char_boundary s j" "n \<le> j" "j \<le> n + 3" by blast
  have "i \<le> boundary_below s n" using boundary_below_last [of s n i] i by force
  moreover have "boundary_above s n \<le> j"
    using j(1,2) boundary_above_first by blast
  ultimately show ?thesis using i j by simp
qed

text \<open>
  a cut text is a prefix of the text of at most the bytes asked for, and within three
  bytes of them when anything was cut; the tail is a suffix in the same way; and neither
  cuts through a character, so what is left is a \<open>str\<close>.
\<close>

theorem cut_spec:
  assumes "utf8 s"
  shows "utf8 (truncate_str_boundary s n) \<and> prefix (truncate_str_boundary s n) s
    \<and> length (truncate_str_boundary s n) \<le> n
    \<and> min n (length s) \<le> length (truncate_str_boundary s n) + 3
    \<and> utf8 (tail_str_boundary s n) \<and> suffix (tail_str_boundary s n) s
    \<and> length (tail_str_boundary s n) \<le> n
    \<and> min n (length s) \<le> length (tail_str_boundary s n) + 3"
proof (cases "length s \<le> n")
  case False
  note lo = boundary_below_is [of s n] and hi = boundary_above_is [of "length s - n" s]
  note near = boundary_near [OF assms, of n] boundary_near [OF assms, of "length s - n"]
  have head: "truncate_str_boundary s n = take (boundary_below s n) s"
    and tail: "tail_str_boundary s n = drop (boundary_above s (length s - n)) s"
    using False by (simp_all add: truncate_str_boundary_def tail_str_boundary_def)
  have "utf8 (take (boundary_below s n) s)" "utf8 (drop (boundary_above s (length s - n)) s)"
    using lo hi utf8_cut [OF assms] by simp_all
  then show ?thesis
    unfolding head tail using False lo hi near by (simp add: take_is_prefix suffix_drop, arith)
qed (use assms in \<open>simp add: truncate_str_boundary_def tail_str_boundary_def\<close>)

lemma cut_spec_witness:
  "utf8 (truncate_str_boundary [CHR ''a'', char_of (195 :: nat), char_of (169 :: nat)] 2)
   \<and> truncate_str_boundary [CHR ''a'', char_of (195 :: nat), char_of (169 :: nat)] 2 = ''a''"
proof -
  let ?e = "[CHR ''a'', char_of (195 :: nat), char_of (169 :: nat)]"
  have "utf8 (CHR ''a'' # [] @ char_of (195 :: nat) # [char_of (169 :: nat)] @ [])"
    by (rule utf8.intros utf8_Nil
        | simp add: utf8_width_def is_continuation_def byte_def del: append_Nil append.simps)+
  then have "utf8 ?e" by simp
  from cut_spec [OF this, of 2] show ?thesis by (simp, code_simp)
qed

section \<open>Emergency truncation fits its limit\<close>

definition result_texts :: "message list \<Rightarrow> rstr list" where
  "result_texts ms =
     concat (map (\<lambda>m. concat (map (\<lambda>b. case b of ToolResult i c e \<Rightarrow> [c] | _ \<Rightarrow> []) (content_of m))) ms)"

lemma marker_length: "k < 10 ^ 20 \<Longrightarrow> length (truncation_marker k) \<le> 71"
  using decimal_length [of k 19] by (simp add: truncation_marker_def)

lemma cut_length:
  "length (truncate_str_boundary s n) \<le> n \<and> length (tail_str_boundary s n) \<le> n"
  using boundary_below_is [of s n] boundary_above_is [of "length s - n" s]
  by (auto simp: truncate_str_boundary_def tail_str_boundary_def)

lemma truncated_fits:
  assumes "length c < 10 ^ 20" and "300 \<le> n"
  shows "length (emergency_truncated_tool_result c n) \<le> n"
proof -
  let ?h = "truncate_str_boundary c (n div 2)" and ?t = "tail_str_boundary c (n div 4)"
  have "length (truncation_marker (length c - (length ?h + length ?t))) \<le> 71"
    using assms(1) by (intro marker_length) simp
  moreover have "length ?h \<le> n div 2" "length ?t \<le> n div 4" using cut_length by blast+
  moreover have "n div 2 + n div 4 + 71 \<le> n" using assms(2) by presburger
  ultimately show ?thesis
    by (simp add: emergency_truncated_tool_result_def Let_def)
qed

lemma truncate_result_text:
  "(case fst (truncate_result n b) of ToolResult i c e \<Rightarrow> [c] | _ \<Rightarrow> []) =
     map (\<lambda>c. if n < length c then emergency_truncated_tool_result c n else c)
       (case b of ToolResult i c e \<Rightarrow> [c] | _ \<Rightarrow> [])"
  by (cases b) auto

lemma truncate_result_ids:
  "uses_of (fst (truncate_result n b)) = uses_of b
   \<and> results_of (fst (truncate_result n b)) = results_of b"
  by (cases b) auto

lemma truncate_result_count:
  "snd (truncate_result n b) =
     length (filter (\<lambda>c. n < length c) (case b of ToolResult i c e \<Rightarrow> [c] | _ \<Rightarrow> []))"
  by (cases b) auto

lemma truncated_texts:
  "result_texts (fst (emergency_truncate_tool_results ms n)) =
     map (\<lambda>c. if n < length c then emergency_truncated_tool_result c n else c) (result_texts ms)"
  by (simp add: emergency_truncate_tool_results_def over_blocks_def result_texts_def
      map_concat comp_def truncate_result_text)

lemma truncated_count:
  "snd (emergency_truncate_tool_results ms n) =
     length (filter (\<lambda>c. n < length c) (result_texts ms))"
  by (simp add: emergency_truncate_tool_results_def over_blocks_def result_texts_def
      filter_concat length_concat comp_def truncate_result_count)

lemma truncated_paired:
  "paired (fst (emergency_truncate_tool_results ms n)) = paired ms"
  by (simp add: emergency_truncate_tool_results_def over_blocks_def paired_def tool_uses_def
      tool_results_def truncate_result_ids)

text \<open>
  emergency truncation counts the results over the limit, leaves the others as they
  were, and brings each of those within the limit (from 300 bytes on, which the constant
  the code passes exceeds), so a second pass finds nothing to cut; calls and results stay
  paired.
\<close>

theorem emergency_truncation_fits:
  assumes "300 \<le> n" and "\<forall>c \<in> set (result_texts ms). length c < 10 ^ 20"
    and "emergency_truncate_tool_results ms n = (ms', k)"
  shows "k = length (filter (\<lambda>c. n < length c) (result_texts ms))
    \<and> (\<forall>c \<in> set (result_texts ms'). length c \<le> n)
    \<and> snd (emergency_truncate_tool_results ms' n) = 0
    \<and> (k = 0 \<longrightarrow> result_texts ms' = result_texts ms)
    \<and> paired ms' = paired ms"
proof -
  have out: "ms' = fst (emergency_truncate_tool_results ms n)"
    "k = snd (emergency_truncate_tool_results ms n)" using assms(3) by simp_all
  have k: "k = length (filter (\<lambda>c. n < length c) (result_texts ms))"
    unfolding out(2) by (rule truncated_count)
  have fits: "\<forall>c \<in> set (result_texts ms'). length c \<le> n"
    using assms(1,2) truncated_fits by (auto simp: out(1) truncated_texts)
  have "result_texts ms' = result_texts ms" if "k = 0"
    using that unfolding out(1) truncated_texts k
    by (simp add: filter_empty_conv map_idI)
  moreover have "snd (emergency_truncate_tool_results ms' n) = 0"
    using fits by (simp add: truncated_count filter_empty_conv not_less)
  ultimately show ?thesis using k fits truncated_paired out(1) by blast
qed

definition long_result :: "message list" where
  "long_result =
     [\<lparr>role_of = Assistant, content_of = [ToolUse ''a'' ''ls'' JNull None]\<rparr>,
      \<lparr>role_of = User, content_of = [ToolResult ''a'' (concat (replicate 50 ''0123456789'')) None]\<rparr>]"

lemma emergency_truncation_fits_witness:
  "snd (emergency_truncate_tool_results long_result 300) = 1
   \<and> snd (emergency_truncate_tool_results
        (fst (emergency_truncate_tool_results long_result 300)) 300) = 0"
proof -
  have texts: "result_texts long_result = [concat (replicate 50 ''0123456789'')]"
    by (simp add: long_result_def result_texts_def)
  have len: "length (concat (replicate 50 ''0123456789'')) = 500"
    by (simp add: length_concat sum_list_replicate)
  have "\<forall>c \<in> set (result_texts long_result). length c < 10 ^ 20" by (simp add: texts len)
  from emergency_truncation_fits [OF _ this prod.collapse [symmetric], of 300]
  show ?thesis by (simp add: texts len)
qed

section \<open>Stripping images drops the oldest\<close>

definition image_sizes :: "content_block list list \<Rightarrow> nat list" where
  "image_sizes cs = map (\<lambda>(ci, bi, len). len) (all_images 0 cs)"

text \<open>A block as it was, or an image replaced with its marker.\<close>

definition kept_or_marked :: "content_block \<Rightarrow> content_block \<Rightarrow> bool" where
  "kept_or_marked b b' =
     (b' = b \<or> (case b of Image m d \<Rightarrow> b' = strip_marker m d | _ \<Rightarrow> False))"

lemma images_in_skip:
  "(\<And>m d. b \<noteq> Image m d) \<Longrightarrow> images_in ci bi (b # bs) = images_in ci (Suc bi) bs"
  by (cases b) auto

lemma images_in_head:
  "images_in ci b bs = (c, i, l) # rest \<Longrightarrow>
   \<exists>j m d. c = ci \<and> i = b + j \<and> j < length bs \<and> bs ! j = Image m d \<and> length d = l
     \<and> images_in ci b (bs[j := Text t cc]) = rest"
proof (induction bs arbitrary: b)
  case (Cons x bs)
  show ?case
  proof (cases "\<exists>m d. x = Image m d")
    case True
    then show ?thesis using Cons.prems by (intro exI [of _ 0]) auto
  next
    case False
    then have tail: "images_in ci b (x # ys) = images_in ci (Suc b) ys" for ys
      using images_in_skip by blast
    from Cons.IH [OF Cons.prems [unfolded tail]] obtain j m d where
      "c = ci \<and> i = Suc b + j \<and> j < length bs \<and> bs ! j = Image m d \<and> length d = l
       \<and> images_in ci (Suc b) (bs[j := Text t cc]) = rest" by blast
    then show ?thesis by (intro exI [of _ "Suc j"]) (simp add: tail)
  qed
qed simp

lemma all_images_head:
  "all_images k cs = (c, i, l) # rest \<Longrightarrow>
   \<exists>j m d. c = k + j \<and> j < length cs \<and> i < length (cs ! j) \<and> cs ! j ! i = Image m d
     \<and> length d = l \<and> all_images k (cs[j := (cs ! j)[i := Text t cc]]) = rest"
proof (induction cs arbitrary: k)
  case (Cons x cs)
  show ?case
  proof (cases "images_in k 0 x")
    case Nil
    then have "all_images (Suc k) cs = (c, i, l) # rest" using Cons.prems by simp
    from Cons.IH [OF this] obtain j m d where
      "c = Suc k + j \<and> j < length cs \<and> i < length (cs ! j) \<and> cs ! j ! i = Image m d
       \<and> length d = l \<and> all_images (Suc k) (cs[j := (cs ! j)[i := Text t cc]]) = rest" by blast
    then show ?thesis using Nil by (intro exI [of _ "Suc j"]) simp
  next
    case (Cons p ps)
    then have "images_in k 0 x = (c, i, l) # ps" "rest = ps @ all_images (Suc k) cs"
      using Cons.prems by simp_all
    with images_in_head [OF this(1), of t cc] show ?thesis by (intro exI [of _ 0]) auto
  qed
qed simp

lemma kept_or_marked_refl [simp]: "kept_or_marked b b"
  by (simp add: kept_or_marked_def)

lemma kept_or_marked_trans: "kept_or_marked a b \<Longrightarrow> kept_or_marked b c \<Longrightarrow> kept_or_marked a c"
  by (auto simp: kept_or_marked_def strip_marker_def split: content_block.splits)

abbreviation kept_all :: "content_block list list \<Rightarrow> content_block list list \<Rightarrow> bool" where
  "kept_all \<equiv> list_all2 (list_all2 kept_or_marked)"

lemma kept_all_refl: "kept_all cs cs"
  by (intro list_all2_refl) (simp add: list_all2_refl)

lemma kept_all_trans: "kept_all as bs \<Longrightarrow> kept_all bs cs \<Longrightarrow> kept_all as cs"
  by (rule list_all2_trans [of "list_all2 kept_or_marked" _ "list_all2 kept_or_marked"])
    (auto intro: list_all2_trans [of kept_or_marked kept_or_marked kept_or_marked]
      kept_or_marked_trans)

lemma kept_all_mark:
  "cs ! j ! i = Image m d \<Longrightarrow> kept_all cs (cs[j := (cs ! j)[i := strip_marker m d]])"
  by (cases "j < length cs"; cases "i < length (cs ! j)")
    (auto simp: list_all2_conv_all_nth nth_list_update kept_or_marked_def)

lemma strip_loop_spec:
  assumes "strip_loop target (all_images 0 cs) cs (sum_list (image_sizes cs)) n = (cs', k)"
  shows "n \<le> k \<and> image_sizes cs' = drop (k - n) (image_sizes cs) \<and> kept_all cs cs'
    \<and> (sum_list (image_sizes cs') \<le> target \<or> image_sizes cs' = [])
    \<and> (\<forall>j < k - n. target < sum_list (drop j (image_sizes cs)))"
  using assms
proof (induction "all_images 0 cs" arbitrary: cs n)
  case Nil
  from Nil.hyps [symmetric] have "image_sizes cs = []" by (simp add: image_sizes_def)
  moreover have "cs' = cs" "k = n" using Nil by simp_all
  ultimately show ?case by (simp add: kept_all_refl)
next
  case (Cons p images)
  obtain ci bi len where p: "p = (ci, bi, len)" by (cases p)
  show ?case
  proof (cases "sum_list (image_sizes cs) \<le> target")
    case True
    then have "cs' = cs" "k = n" using Cons.prems Cons.hyps(2) [symmetric] p by simp_all
    then show ?thesis using True by (simp add: kept_all_refl)
  next
    case False
    from Cons.hyps(2) p have "all_images 0 cs = (ci, bi, len) # images" by simp
    note head = all_images_head [OF this]
    from head obtain m d where im: "cs ! ci ! bi = Image m d" by fastforce
    define ds where "ds = cs[ci := (cs ! ci)[bi := strip_marker m d]]"
    from head have images: "images = all_images 0 ds"
      unfolding ds_def strip_marker_def by fastforce
    have sizes: "image_sizes cs = len # image_sizes ds"
      using Cons.hyps(2) [symmetric] p images by (simp add: image_sizes_def)
    have "strip_loop target (all_images 0 ds) ds (sum_list (image_sizes ds)) (Suc n) = (cs', k)"
      using Cons.prems False im sizes
      by (simp add: Cons.hyps(2) [symmetric] p ds_def [symmetric] images [symmetric])
    note IH = Cons.hyps(1) [OF images this]
    then obtain q where q: "k = Suc n + q" using le_Suc_ex by blast
    have "kept_all cs ds" unfolding ds_def using im by (rule kept_all_mark)
    then have "kept_all cs cs'" using IH kept_all_trans by blast
    moreover have "target < sum_list (drop j (image_sizes cs))" if "j < k - n" for j
      using that IH False sizes q by (cases j) auto
    moreover have "image_sizes cs' = drop (k - n) (image_sizes cs)" using IH sizes q by simp
    ultimately show ?thesis using IH Suc_leD by blast
  qed
qed

text \<open>
  stripping for a request that is too large drops the oldest images and no others: what
  is left of the images is their list without the first \<open>k\<close>, \<open>k\<close> being the count
  returned; they fit the target, or none is left; one image fewer would not have done; and
  every other block, and every role, is as it was.
\<close>

theorem strips_oldest_images:
  assumes "emergency_strip_large_images ms target = (ms', k)"
  shows "image_sizes (map content_of ms') = drop k (image_sizes (map content_of ms))
    \<and> (sum_list (image_sizes (map content_of ms')) \<le> target
       \<or> image_sizes (map content_of ms') = [])
    \<and> (\<forall>j < k. target < sum_list (drop j (image_sizes (map content_of ms))))
    \<and> kept_all (map content_of ms) (map content_of ms')
    \<and> map role_of ms' = map role_of ms"
proof -
  let ?cs = "map content_of ms"
  obtain cs' where strip: "strip_large_images_in_contents ?cs target = (cs', k)"
    and ms': "ms' = map2 (\<lambda>m c. m\<lparr>content_of := c\<rparr>) ms cs'"
    using assms by (auto simp: emergency_strip_large_images_def split: prod.splits)
  have spec: "image_sizes cs' = drop k (image_sizes ?cs) \<and> kept_all ?cs cs'
    \<and> (sum_list (image_sizes cs') \<le> target \<or> image_sizes cs' = [])
    \<and> (\<forall>j < k. target < sum_list (drop j (image_sizes ?cs)))"
  proof (cases "sum_list (image_sizes ?cs) \<le> target")
    case True
    then have "cs' = ?cs" "k = 0"
      using strip by (simp_all add: strip_large_images_in_contents_def Let_def image_sizes_def)
    then show ?thesis using True by (simp add: kept_all_refl)
  next
    case False
    then have "strip_loop target (all_images 0 ?cs) ?cs (sum_list (image_sizes ?cs)) 0 = (cs', k)"
      using strip by (simp add: strip_large_images_in_contents_def Let_def image_sizes_def)
    from strip_loop_spec [OF this, unfolded diff_zero] show ?thesis by blast
  qed
  then have len: "length cs' = length ms" by (metis length_map list_all2_lengthD)
  have same: "map content_of ms' = cs'" "map role_of ms' = map role_of ms"
    unfolding ms' using len by (induction ms cs' rule: list_induct2') auto
  show ?thesis unfolding same(1) using spec same(2) by blast
qed

lemma strips_oldest_images_witness:
  "snd (emergency_strip_large_images
     [\<lparr>role_of = User, content_of = [Image ''png'' ''aaaa'', Text ''x'' None]\<rparr>,
      \<lparr>role_of = User, content_of = [Image ''png'' ''bb'']\<rparr>] 3) = 1
   \<and> image_sizes (map content_of (fst (emergency_strip_large_images
     [\<lparr>role_of = User, content_of = [Image ''png'' ''aaaa'', Text ''x'' None]\<rparr>,
      \<lparr>role_of = User, content_of = [Image ''png'' ''bb'']\<rparr>] 3))) = [2]"
proof -
  let ?ms = "[\<lparr>role_of = User, content_of = [Image ''png'' ''aaaa'', Text ''x'' None]\<rparr>,
      \<lparr>role_of = User, content_of = [Image ''png'' ''bb'']\<rparr>]"
  have "snd (emergency_strip_large_images ?ms 3) = 1" by code_simp
  moreover have "image_sizes (map content_of ?ms) = [4, 2]" by code_simp
  ultimately show ?thesis
    using strips_oldest_images [OF prod.collapse [symmetric], of ?ms 3] by simp
qed

section \<open>The summarization prompt's limit\<close>

text \<open>
  past its fixed part, the prompt's limit cuts the conversation, but the marker put
  after the cut and the separator are longer than the 50 bytes allowed for them: the prompt
  has at most 18 bytes more than its limit, and a conversation cut at exactly the budget
  reaches that.
\<close>

theorem prompt_limit:
  assumes "length SUMMARY_PROMPT + 50 < limit"
  shows "length (build_compaction_prompt show_json ms existing limit) \<le> limit + 18
    \<and> (limit - (length SUMMARY_PROMPT + 50) < length (build_compaction_conversation_text show_json ms existing)
       \<and> is_char_boundary (build_compaction_conversation_text show_json ms existing)
           (limit - (length SUMMARY_PROMPT + 50))
       \<longrightarrow> length (build_compaction_prompt show_json ms existing limit) = limit + 18)"
proof -
  define conv where "conv = build_compaction_conversation_text show_json ms existing"
  define p where "p = length SUMMARY_PROMPT"
  define b where "b = limit - (p + 50)"
  have limit: "limit = b + p + 50" "0 < b" using assms by (simp_all add: b_def p_def)
  have len: "length (build_compaction_prompt show_json ms existing limit) =
      (if b < length conv then length (truncate_str_boundary conv b) + 61 else length conv) + 7 + p"
    unfolding build_compaction_prompt_def conv_def [symmetric] Let_def p_def [symmetric]
    using limit by (simp add: p_def [symmetric])
  have "length (truncate_str_boundary conv b) = b" if "b < length conv" "is_char_boundary conv b"
    using that boundary_below_last [of conv b b] boundary_below_is [of conv b]
    by (cases "boundary_below conv b = b") (simp_all add: truncate_str_boundary_def min_def)
  moreover have "length (truncate_str_boundary conv b) \<le> b" using cut_length by blast
  ultimately show ?thesis
    unfolding conv_def [symmetric] p_def [symmetric] b_def [symmetric] len
    using limit(1) by simp
qed

lemma prompt_limit_witness:
  "length SUMMARY_PROMPT + 50 < 700
   \<and> length (build_compaction_prompt (\<lambda>j. [])
       [\<lparr>role_of = User, content_of = [Text (concat (replicate 100 ''0123456789'')) None]\<rparr>] None 700) \<le> 718"
proof -
  have "length SUMMARY_PROMPT + 50 < 700" by (simp add: SUMMARY_PROMPT_def)
  with prompt_limit [OF this] show ?thesis by simp
qed

end
