(* ===== verification/Compaction_Manager.thy ===== *)
theory Compaction_Manager
  imports Compaction
begin

text \<open>
  The compaction manager, \<open>crates/kcode-base/src/compaction.rs\<close>: how many leading messages
  are summarized, the summary, the estimate of the active ones' size, the background task
  and when each kind of compaction runs. The caller owns the messages; the operations take
  them as an argument.

  The background task is what the manager holds a handle of: still running over the messages
  it was given, or finished with a result or an error (\<open>None\<close>, the summary could not be
  made or the task panicked). What the summarizing model answers is the environment's.
\<close>

section \<open>State\<close>

datatype compaction_mode = Reactive | Proactive

fun mode_str :: "compaction_mode \<Rightarrow> rstr" where
  "mode_str Reactive = ''reactive''"
| "mode_str Proactive = ''proactive''"

definition parse_mode :: "rstr \<Rightarrow> compaction_mode option" where
  "parse_mode input =
     (let s = to_ascii_lowercase (trim input)
      in if s = ''reactive'' then Some Reactive
         else if s = ''proactive'' then Some Proactive else None)"

record active_char_estimate =
  chars :: nat
  dirty :: bool

record compaction_result =
  result_text :: rstr
  result_encrypted :: "rstr option"
  result_covers :: nat
  result_duration :: nat
  summarized_messages :: nat

datatype summary_task = Running "message list" | Finished "compaction_result option"

record compaction_event =
  ev_trigger :: rstr
  ev_pre_tokens :: "nat option"
  ev_post_tokens :: "nat option"
  ev_tokens_saved :: "nat option"
  ev_duration_ms :: "nat option"
  ev_messages_dropped :: "nat option"
  ev_messages_compacted :: "nat option"
  ev_summary_chars :: "nat option"
  ev_active_messages :: "nat option"

record compaction_manager =
  compacted_count :: nat
  active_summary :: "summary option"
  active_chars :: active_char_estimate
  pending_task :: "summary_task option"
  pending_trigger :: "rstr option"
  pending_cutoff :: nat
  total_turns :: nat
  suppress_compaction :: bool
  token_budget :: nat
  model_token_budget :: nat
  observed_input_tokens :: "nat option"
  last_compaction :: "compaction_event option"
  mode :: compaction_mode
  max_context_tokens :: nat
  token_history :: "nat list"
  turns_since_last_compact :: nat

text \<open>
  What the manager reads from elsewhere: serde's text of a JSON value, whether a character
  outside ASCII is alphanumeric, the cap the configuration holds now, and the proactive
  strategy's verdict (a moving average in \<open>f64\<close>, not modelled).
\<close>

record compaction_env =
  env_show_json :: "json \<Rightarrow> rstr"
  env_alphanumeric :: "rstr \<Rightarrow> bool"
  env_max_context_tokens :: nat
  env_proactive :: "compaction_manager \<Rightarrow> message list \<Rightarrow> bool"

definition RECENT_TURNS_TO_KEEP :: nat where "RECENT_TURNS_TO_KEEP = 10"
definition MIN_TURNS_TO_KEEP :: nat where "MIN_TURNS_TO_KEEP = 2"
definition TOKEN_HISTORY_WINDOW :: nat where "TOKEN_HISTORY_WINDOW = 20"

section \<open>The size estimate\<close>

definition invalidate :: "active_char_estimate \<Rightarrow> active_char_estimate" where
  "invalidate a = a\<lparr>dirty := True\<rparr>"

definition set_exact :: "nat \<Rightarrow> active_char_estimate" where
  "set_exact n = \<lparr>chars = n, dirty = False\<rparr>"

text \<open>The sum saturates at the largest \<open>usize\<close>, which no text in memory reaches.\<close>

definition append_exact :: "nat \<Rightarrow> active_char_estimate \<Rightarrow> active_char_estimate" where
  "append_exact n a = \<lparr>chars = chars a + n, dirty = False\<rparr>"

definition reset_pending :: "bool \<Rightarrow> active_char_estimate" where
  "reset_pending maybe_has_active = \<lparr>chars = 0, dirty = maybe_has_active\<rparr>"

section \<open>Budget, turns, restoring\<close>

definition capped_budget :: "nat \<Rightarrow> nat \<Rightarrow> nat" where
  "capped_budget cap budget = (if 0 < cap then min budget cap else budget)"

definition refresh_context_cap :: "compaction_env \<Rightarrow> compaction_manager \<Rightarrow> compaction_manager" where
  "refresh_context_cap e m =
     m\<lparr>max_context_tokens := env_max_context_tokens e,
       token_budget := capped_budget (env_max_context_tokens e) (model_token_budget m)\<rparr>"

definition set_budget :: "compaction_env \<Rightarrow> nat \<Rightarrow> compaction_manager \<Rightarrow> compaction_manager" where
  "set_budget e budget m = refresh_context_cap e (m\<lparr>model_token_budget := budget\<rparr>)"

definition new_manager :: "compaction_env \<Rightarrow> compaction_mode \<Rightarrow> compaction_manager" where
  "new_manager e md =
     \<lparr>compacted_count = 0, active_summary = None, active_chars = set_exact 0,
      pending_task = None, pending_trigger = None, pending_cutoff = 0, total_turns = 0,
      suppress_compaction = False,
      token_budget = capped_budget (env_max_context_tokens e) DEFAULT_TOKEN_BUDGET,
      model_token_budget = DEFAULT_TOKEN_BUDGET, observed_input_tokens = None,
      last_compaction = None, mode = md, max_context_tokens = env_max_context_tokens e,
      token_history = [], turns_since_last_compact = 0\<rparr>"

definition notify_message_added :: "compaction_manager \<Rightarrow> compaction_manager" where
  "notify_message_added m =
     m\<lparr>total_turns := total_turns m + 1, suppress_compaction := False,
       active_chars := invalidate (active_chars m)\<rparr>"

definition notify_message_added_blocks ::
  "compaction_env \<Rightarrow> content_block list \<Rightarrow> compaction_manager \<Rightarrow> compaction_manager" where
  "notify_message_added_blocks e content m =
     m\<lparr>total_turns := total_turns m + 1, suppress_compaction := False,
       active_chars := append_exact (content_char_count (env_show_json e) content) (active_chars m)\<rparr>"

definition seed_restored_messages :: "nat \<Rightarrow> compaction_manager \<Rightarrow> compaction_manager" where
  "seed_restored_messages count m =
     m\<lparr>total_turns := count, suppress_compaction := (0 < count),
       active_chars := reset_pending (0 < count)\<rparr>"

definition seed_restored_messages_with ::
  "compaction_env \<Rightarrow> message list \<Rightarrow> compaction_manager \<Rightarrow> compaction_manager" where
  "seed_restored_messages_with e ms m =
     m\<lparr>total_turns := length ms, suppress_compaction := (ms \<noteq> []),
       active_chars := set_exact (sum_list (map (message_char_count (env_show_json e)) ms))\<rparr>"

definition active_messages :: "compaction_manager \<Rightarrow> message list \<Rightarrow> message list" where
  "active_messages m ms = drop (min (compacted_count m) (length ms)) ms"

definition active_messages_count :: "compaction_manager \<Rightarrow> nat" where
  "active_messages_count m = total_turns m - compacted_count m"

record stored_compaction_state =
  st_summary_text :: rstr
  st_openai_encrypted :: "rstr option"
  st_covers_up_to_turn :: nat
  st_original_turn_count :: nat
  st_compacted_count :: nat

definition restore_persisted_state ::
  "stored_compaction_state \<Rightarrow> nat \<Rightarrow> compaction_manager \<Rightarrow> compaction_manager" where
  "restore_persisted_state st total_messages m =
     m\<lparr>pending_task := None, pending_trigger := None, pending_cutoff := 0,
       observed_input_tokens := None, last_compaction := None, token_history := [],
       turns_since_last_compact := 0, total_turns := total_messages,
       compacted_count := min (st_compacted_count st) total_messages,
       active_chars := reset_pending (min (st_compacted_count st) total_messages < total_messages),
       active_summary := Some
         \<lparr>summary_text = st_summary_text st, openai_encrypted_content = st_openai_encrypted st,
          covers_up_to_turn = st_covers_up_to_turn st,
          original_turn_count = st_original_turn_count st\<rparr>,
       suppress_compaction := (0 < total_messages)\<rparr>"

definition restore_persisted_state_with ::
  "compaction_env \<Rightarrow> stored_compaction_state \<Rightarrow> message list \<Rightarrow> compaction_manager
     \<Rightarrow> compaction_manager" where
  "restore_persisted_state_with e st ms m =
     (let m1 = restore_persisted_state st (length ms) m
      in m1\<lparr>active_chars := set_exact
           (sum_list (map (message_char_count (env_show_json e)) (active_messages m1 ms)))\<rparr>)"

definition persisted_state :: "compaction_manager \<Rightarrow> stored_compaction_state option" where
  "persisted_state m =
     map_option
       (\<lambda>s. \<lparr>st_summary_text = summary_text s, st_openai_encrypted = openai_encrypted_content s,
             st_covers_up_to_turn = covers_up_to_turn s,
             st_original_turn_count = original_turn_count s,
             st_compacted_count = compacted_count m\<rparr>)
       (active_summary m)"

section \<open>Oversized provider-native summaries\<close>

definition OPENAI_ENCRYPTED_CONTENT_SAFE_MAX_CHARS :: nat where
  "OPENAI_ENCRYPTED_CONTENT_SAFE_MAX_CHARS = 9500000"
definition OPENAI_ENCRYPTED_CONTENT_PROVIDER_MAX_CHARS :: nat where
  "OPENAI_ENCRYPTED_CONTENT_PROVIDER_MAX_CHARS = 10485760"

definition openai_encrypted_content_is_sendable :: "rstr \<Rightarrow> bool" where
  "openai_encrypted_content_is_sendable s = (length s \<le> OPENAI_ENCRYPTED_CONTENT_SAFE_MAX_CHARS)"

definition openai_encrypted_content_fallback_summary :: "nat \<Rightarrow> rstr" where
  "openai_encrypted_content_fallback_summary n =
     ''OpenAI native compaction state was discarded because its encrypted payload was ''
     @ decimal n @ '' chars, above Kcode's safe replay limit of ''
     @ decimal OPENAI_ENCRYPTED_CONTENT_SAFE_MAX_CHARS @ '' chars (provider hard limit: ''
     @ decimal OPENAI_ENCRYPTED_CONTENT_PROVIDER_MAX_CHARS
     @ '' chars). Earlier compacted details may be unavailable; use the recent visible messages and session search/tools if exact prior details are needed.''"

text \<open>The summary without its payload, the same in the manager and before a new summary.\<close>

definition discard_payload :: "summary \<Rightarrow> rstr \<Rightarrow> summary" where
  "discard_payload s payload =
     (let fallback = openai_encrypted_content_fallback_summary (length payload)
      in s\<lparr>openai_encrypted_content := None,
           summary_text :=
             (if trim (summary_text s) = [] then fallback
              else if contains (summary_text s) ''OpenAI native compaction state was discarded''
              then summary_text s
              else summary_text s @ [CHR 0x0A, CHR 0x0A] @ fallback)\<rparr>)"

definition discard_oversized_openai_native_compaction ::
  "compaction_manager \<Rightarrow> compaction_manager \<times> bool" where
  "discard_oversized_openai_native_compaction m =
     (case active_summary m of
        None \<Rightarrow> (m, False)
      | Some s \<Rightarrow>
          (case openai_encrypted_content s of
             None \<Rightarrow> (m, False)
           | Some payload \<Rightarrow>
               if openai_encrypted_content_is_sendable payload then (m, False)
               else (m\<lparr>active_summary := Some (discard_payload s payload),
                       observed_input_tokens := None\<rparr>, True)))"

section \<open>Usage\<close>

definition push_token_snapshot :: "nat \<Rightarrow> compaction_manager \<Rightarrow> compaction_manager" where
  "push_token_snapshot tokens m =
     (let h = token_history m @ [tokens]
      in m\<lparr>token_history := (if TOKEN_HISTORY_WINDOW < length h then tl h else h),
           turns_since_last_compact := turns_since_last_compact m + 1\<rparr>)"

definition active_message_chars_with ::
  "compaction_env \<Rightarrow> compaction_manager \<Rightarrow> message list \<Rightarrow> nat" where
  "active_message_chars_with e m ms =
     (if dirty (active_chars m) \<or> active_messages_count m \<noteq> length (active_messages m ms)
      then sum_list (map (message_char_count (env_show_json e)) (active_messages m ms))
      else chars (active_chars m))"

definition token_estimate_with :: "compaction_env \<Rightarrow> compaction_manager \<Rightarrow> message list \<Rightarrow> nat" where
  "token_estimate_with e m ms =
     estimate_compaction_tokens (active_summary m) (active_message_chars_with e m ms) (token_budget m)"

definition update_observed_input_tokens :: "nat \<Rightarrow> compaction_manager \<Rightarrow> compaction_manager" where
  "update_observed_input_tokens tokens m = m\<lparr>observed_input_tokens := Some tokens\<rparr>"

definition effective_token_count_with ::
  "compaction_env \<Rightarrow> compaction_manager \<Rightarrow> message list \<Rightarrow> nat" where
  "effective_token_count_with e m ms =
     max (token_estimate_with e m ms) (case observed_input_tokens m of None \<Rightarrow> 0 | Some n \<Rightarrow> n)"

text \<open>
  \<open>context_usage_with\<close> is \<open>tokens as f32 / budget as f32\<close>, and is only compared with
  constants. \<open>f32_of_nat\<close> rounds to 24 significant bits, ties to even. The quotient is
  rounded the same way, so it is at least a constant whose last significand bit is 1
  exactly when the real quotient lies above the middle between the constant and the \<open>f32\<close>
  below it (the middle itself rounds away, to the even neighbour). \<open>0.95f32\<close> is
  15938355 / 2^24, \<open>0.80f32\<close> is 13421773 / 2^24, \<open>0.10f32\<close> is 13421773 / 2^27, and the
  \<open>f32\<close> after 1 is (2^23 + 1) / 2^23. A budget of 0 makes the quotient infinite, or not a
  number when there are no tokens either; the products give the same verdicts.
\<close>

fun f32_round :: "nat \<Rightarrow> nat \<Rightarrow> nat \<Rightarrow> nat" where
  "f32_round 0 n unit = n"
| "f32_round (Suc fuel) n unit =
     (if n div unit < 16777216
      then (let q = n div unit; r = n mod unit
            in if unit < 2 * r \<or> unit = 2 * r \<and> odd q then (q + 1) * unit else q * unit)
      else f32_round fuel n (2 * unit))"

definition f32_of_nat :: "nat \<Rightarrow> nat" where
  "f32_of_nat n = f32_round 64 n 1"

definition usage_above :: "nat \<Rightarrow> nat \<Rightarrow> nat \<Rightarrow> nat \<Rightarrow> bool" where
  "usage_above num den tokens budget = (num * f32_of_nat budget < den * f32_of_nat tokens)"

text \<open>Below a threshold: not at it, and a number.\<close>

definition usage_below :: "(nat \<Rightarrow> nat \<Rightarrow> bool) \<Rightarrow> nat \<Rightarrow> nat \<Rightarrow> bool" where
  "usage_below threshold tokens budget = (\<not> threshold tokens budget \<and> (0 < budget \<or> 0 < tokens))"

definition at_critical_threshold :: "nat \<Rightarrow> nat \<Rightarrow> bool" where
  "at_critical_threshold = usage_above 31876709 33554432"
definition at_compaction_threshold :: "nat \<Rightarrow> nat \<Rightarrow> bool" where
  "at_compaction_threshold = usage_above 26843545 33554432"
definition at_manual_threshold :: "nat \<Rightarrow> nat \<Rightarrow> bool" where
  "at_manual_threshold = usage_above 26843545 268435456"
definition over_budget :: "nat \<Rightarrow> nat \<Rightarrow> bool" where
  "over_budget = usage_above 16777217 16777216"

definition usage_with ::
  "(nat \<Rightarrow> nat \<Rightarrow> bool) \<Rightarrow> compaction_env \<Rightarrow> compaction_manager \<Rightarrow> message list \<Rightarrow> bool" where
  "usage_with threshold e m ms = threshold (effective_token_count_with e m ms) (token_budget m)"

section \<open>Starting a summary in the background\<close>

definition is_compacting :: "compaction_manager \<Rightarrow> bool" where
  "is_compacting m = (pending_task m \<noteq> None)"

definition should_compact_with :: "compaction_env \<Rightarrow> compaction_manager \<Rightarrow> message list \<Rightarrow> bool" where
  "should_compact_with e m ms =
     (if suppress_compaction m then False
      else (case mode m of
              Reactive \<Rightarrow>
                pending_task m = None \<and> usage_with at_compaction_threshold e m ms
                \<and> RECENT_TURNS_TO_KEEP < length (active_messages m ms)
            | Proactive \<Rightarrow>
                RECENT_TURNS_TO_KEEP < length (active_messages m ms) \<and> env_proactive e m ms))"

definition start_task :: "rstr \<Rightarrow> nat \<Rightarrow> message list \<Rightarrow> compaction_manager \<Rightarrow> compaction_manager" where
  "start_task trigger cutoff active m =
     m\<lparr>pending_cutoff := cutoff, pending_trigger := Some trigger,
       pending_task := Some (Running (take cutoff active))\<rparr>"

definition maybe_start_compaction_with ::
  "compaction_env \<Rightarrow> message list \<Rightarrow> compaction_manager \<Rightarrow> compaction_manager" where
  "maybe_start_compaction_with e ms m =
     (if \<not> should_compact_with e m ms then m
      else
        (let active = active_messages m ms;
             recent = length active - RECENT_TURNS_TO_KEEP
         in if recent = 0 then m
            else (let cutoff = safe_compaction_cutoff active recent
                  in if cutoff = 0 then m else start_task (mode_str (mode m)) cutoff active m)))"

datatype compaction_error =
  Already_In_Progress
| Not_Enough_Messages nat nat
| Usage_Too_Low
| Nothing_Before_Recent
| Would_Split_Pairs

definition force_compact_with ::
  "compaction_env \<Rightarrow> message list \<Rightarrow> compaction_manager \<Rightarrow> (compaction_error + unit) \<times> compaction_manager"
where
  "force_compact_with e ms m =
     (let active = active_messages m ms;
          recent = length active - RECENT_TURNS_TO_KEEP;
          cutoff = safe_compaction_cutoff active recent
      in if pending_task m \<noteq> None then (Inl Already_In_Progress, m)
         else if length active \<le> RECENT_TURNS_TO_KEEP
         then (Inl (Not_Enough_Messages RECENT_TURNS_TO_KEEP (length active)), m)
         else if usage_with (usage_below at_manual_threshold) e m ms then (Inl Usage_Too_Low, m)
         else if recent = 0 then (Inl Nothing_Before_Recent, m)
         else if cutoff = 0 then (Inl Would_Split_Pairs, m)
         else (Inr (), start_task ''manual'' cutoff active m))"

text \<open>The environment's step: the task ends, with what it returned.\<close>

definition task_ends :: "compaction_result option \<Rightarrow> compaction_manager \<Rightarrow> compaction_manager" where
  "task_ends outcome m =
     (case pending_task m of
        Some (Running snapshot) \<Rightarrow> m\<lparr>pending_task := Some (Finished outcome)\<rparr>
      | _ \<Rightarrow> m)"

section \<open>Applying a finished summary\<close>

definition clamp_compacted_count :: "message list \<Rightarrow> compaction_manager \<Rightarrow> compaction_manager \<times> bool" where
  "clamp_compacted_count ms m =
     (if ms = [] \<or> compacted_count m \<le> length ms then (m, False)
      else (m\<lparr>compacted_count := length ms, active_chars := set_exact 0\<rparr>, True))"

definition forget_pending :: "compaction_manager \<Rightarrow> compaction_manager" where
  "forget_pending m = m\<lparr>pending_task := None, pending_cutoff := 0, pending_trigger := None\<rparr>"

text \<open>The branch of a summary that arrived, once it is known to fit the messages.\<close>

definition apply_summary ::
  "compaction_env \<Rightarrow> message list \<Rightarrow> compaction_result \<Rightarrow> compaction_manager \<Rightarrow> compaction_manager" where
  "apply_summary e ms r m =
     (let trigger = (case pending_trigger m of Some t \<Rightarrow> t | None \<Rightarrow> mode_str (mode m));
          pre = effective_token_count_with e m ms;
          compacted_chars = sum_list (map (message_char_count (env_show_json e))
            (take (pending_cutoff m) (active_messages m ms)));
          s = \<lparr>summary_text = result_text r, openai_encrypted_content = result_encrypted r,
               covers_up_to_turn = result_covers r, original_turn_count = pending_cutoff m\<rparr>;
          n = compacted_count m + pending_cutoff m;
          m1 = m\<lparr>compacted_count := (if ms = [] then n else min n (length ms))\<rparr>;
          m2 = m1\<lparr>active_chars :=
                 set_exact (active_message_chars_with e m1 ms - compacted_chars)\<rparr>;
          m3 = fst (discard_oversized_openai_native_compaction (m2\<lparr>active_summary := Some s\<rparr>));
          m4 = m3\<lparr>observed_input_tokens := None\<rparr>;
          post = effective_token_count_with e m4 ms
      in m4\<lparr>last_compaction := Some
              \<lparr>ev_trigger = trigger, ev_pre_tokens = Some pre, ev_post_tokens = Some post,
               ev_tokens_saved = Some (pre - post), ev_duration_ms = Some (result_duration r),
               ev_messages_dropped = None, ev_messages_compacted = Some (summarized_messages r),
               ev_summary_chars = map_option (\<lambda>s. length (summary_text s)) (active_summary m4),
               ev_active_messages = Some (active_messages_count m4)\<rparr>,
            turns_since_last_compact := 0, pending_cutoff := 0, pending_trigger := None\<rparr>)"

definition check_and_apply_compaction_with ::
  "compaction_env \<Rightarrow> message list \<Rightarrow> compaction_manager \<Rightarrow> compaction_manager" where
  "check_and_apply_compaction_with e ms m0 =
     (let m = fst (clamp_compacted_count ms m0)
      in case pending_task m of
           None \<Rightarrow> m
         | Some (Running snapshot) \<Rightarrow> m
         | Some (Finished None) \<Rightarrow> forget_pending m
         | Some (Finished (Some r)) \<Rightarrow>
             if ms \<noteq> [] \<and> length (active_messages m ms) - MIN_TURNS_TO_KEEP < pending_cutoff m
             then forget_pending m
             else apply_summary e ms r (m\<lparr>pending_task := None\<rparr>))"

definition check_and_apply_compaction :: "compaction_env \<Rightarrow> compaction_manager \<Rightarrow> compaction_manager" where
  "check_and_apply_compaction e m =
     (let m1 = check_and_apply_compaction_with e [] m
      in m1\<lparr>active_chars := invalidate (active_chars m1)\<rparr>)"

definition take_compaction_event ::
  "compaction_manager \<Rightarrow> compaction_event option \<times> compaction_manager" where
  "take_compaction_event m = (last_compaction m, m\<lparr>last_compaction := None\<rparr>)"

definition poll_compaction_event_with ::
  "compaction_env \<Rightarrow> message list \<Rightarrow> compaction_manager
     \<Rightarrow> compaction_event option \<times> compaction_manager" where
  "poll_compaction_event_with e ms m =
     take_compaction_event (check_and_apply_compaction_with e ms m)"

definition messages_for_api_with ::
  "compaction_env \<Rightarrow> message list \<Rightarrow> compaction_manager \<Rightarrow> message list \<times> compaction_manager" where
  "messages_for_api_with e ms m =
     (let m1 = check_and_apply_compaction_with e ms m;
          m2 = fst (discard_oversized_openai_native_compaction m1);
          active = active_messages m2 ms
      in ((case active_summary m2 of
             None \<Rightarrow> active
           | Some s \<Rightarrow>
               \<lparr>role_of = User,
                content_of = [case openai_encrypted_content s of
                   Some payload \<Rightarrow> OpenAICompaction payload
                 | None \<Rightarrow> Text (compacted_summary_text_block (summary_text s)) None]\<rparr> # active), m2))"

definition set_mode :: "compaction_mode \<Rightarrow> compaction_manager \<Rightarrow> compaction_manager" where
  "set_mode md m = m\<lparr>mode := md\<rparr>"

definition summary_chars :: "compaction_manager \<Rightarrow> nat" where
  "summary_chars m = (case active_summary m of None \<Rightarrow> 0 | Some s \<Rightarrow> summary_payload_char_count s)"

section \<open>Emergencies\<close>

text \<open>\<open>remaining_suffix_chars\<close>: entry \<open>i\<close> is the size of the messages from \<open>i\<close> on.\<close>

fun suffix_sums :: "nat list \<Rightarrow> nat list" where
  "suffix_sums [] = [0]"
| "suffix_sums (c # cs) = (c + hd (suffix_sums cs)) # suffix_sums cs"

function keep_loop :: "nat \<Rightarrow> nat list \<Rightarrow> message list \<Rightarrow> nat \<Rightarrow> nat" where
  "keep_loop budget remaining active turns =
     (let cutoff = safe_compaction_cutoff active (length active - turns)
      in if 0 < cutoff \<and> remaining ! cutoff div CHARS_PER_TOKEN \<le> budget then cutoff
         else if turns \<le> MIN_TURNS_TO_KEEP
         then safe_compaction_cutoff active (length active - MIN_TURNS_TO_KEEP)
         else keep_loop budget remaining active (max (turns div 2) MIN_TURNS_TO_KEEP))"
  by pat_completeness auto
termination
  by (relation "measure (\<lambda>(b, r, a, t). t)") (auto simp: MIN_TURNS_TO_KEEP_def)

declare keep_loop.simps [simp del]

definition hard_compact_with ::
  "compaction_env \<Rightarrow> message list \<Rightarrow> compaction_manager \<Rightarrow> (compaction_error + nat) \<times> compaction_manager"
where
  "hard_compact_with e ms m0 =
     (let m = fst (clamp_compacted_count ms m0);
          active = active_messages m ms
      in if length active \<le> MIN_TURNS_TO_KEEP
         then (Inl (Not_Enough_Messages MIN_TURNS_TO_KEEP (length active)), m)
         else
           (let pre = effective_token_count_with e m ms;
                remaining = suffix_sums (map (message_char_count (env_show_json e)) active);
                cutoff = keep_loop (token_budget m) remaining active
                  (min RECENT_TURNS_TO_KEEP (length active - 1))
            in if cutoff = 0 then (Inl Would_Split_Pairs, m)
               else
                 (let m1 = (if pending_task m = None then m else forget_pending m);
                      s = \<lparr>summary_text = build_emergency_summary_text (env_alphanumeric e)
                             (map_option summary_text (active_summary m1)) cutoff pre
                             (token_budget m1) (take cutoff active),
                           openai_encrypted_content = None, covers_up_to_turn = cutoff,
                           original_turn_count = cutoff\<rparr>;
                      m2 = m1\<lparr>compacted_count := min (compacted_count m1 + cutoff) (length ms),
                              active_chars := set_exact (remaining ! cutoff),
                              active_summary := Some s, observed_input_tokens := None\<rparr>;
                      post = effective_token_count_with e m2 ms
                  in (Inr cutoff,
                      m2\<lparr>last_compaction := Some
                        \<lparr>ev_trigger = ''hard_compact'', ev_pre_tokens = Some pre,
                         ev_post_tokens = Some post, ev_tokens_saved = Some (pre - post),
                         ev_duration_ms = Some 0, ev_messages_dropped = Some cutoff,
                         ev_messages_compacted = Some cutoff,
                         ev_summary_chars = Some (length (summary_text s)),
                         ev_active_messages = Some (active_messages_count m2)\<rparr>\<rparr>))))"

definition emergency_truncate_with ::
  "message list \<Rightarrow> compaction_manager \<Rightarrow> nat \<times> message list \<times> compaction_manager" where
  "emergency_truncate_with ms m =
     (let start = min (compacted_count m) (length ms);
          (active, truncated) = emergency_truncate_large_payloads (drop start ms)
            EMERGENCY_TOOL_RESULT_MAX_CHARS EMERGENCY_IMAGE_MAX_CHARS
      in (truncated, take start ms @ active,
          if 0 < truncated
          then m\<lparr>observed_input_tokens := None, active_chars := invalidate (active_chars m)\<rparr>
          else m))"

text \<open>The usage before recovery, which is only reported, is left out.\<close>

record emergency_recovery =
  recovery_dropped :: "nat option"
  recovery_truncated :: nat

definition did_anything :: "emergency_recovery \<Rightarrow> bool" where
  "did_anything r =
     (0 < (case recovery_dropped r of None \<Rightarrow> 0 | Some n \<Rightarrow> n) \<or> 0 < recovery_truncated r)"

definition recover_within_budget ::
  "compaction_env \<Rightarrow> message list \<Rightarrow> compaction_manager
     \<Rightarrow> emergency_recovery \<times> message list \<times> compaction_manager" where
  "recover_within_budget e ms m =
     (let (outcome, m1) = hard_compact_with e ms m;
          dropped = (case outcome of Inr n \<Rightarrow> Some n | Inl _ \<Rightarrow> None)
      in if usage_with over_budget e m1 ms \<or> dropped = None
         then (let (n, ms2, m2) = emergency_truncate_with ms m1
               in (\<lparr>recovery_dropped = dropped, recovery_truncated = n\<rparr>, ms2, m2))
         else (\<lparr>recovery_dropped = dropped, recovery_truncated = 0\<rparr>, ms, m1))"

section \<open>Before each call\<close>

datatype compaction_action = Nothing_Done | Background_Started rstr | Hard_Compacted nat

text \<open>
  Waiting for the task in flight, polling for 15 seconds: \<open>late\<close> is what it returned if it
  ended within them, \<open>None\<close> if it did not.
\<close>

definition wait_for_pending ::
  "compaction_env \<Rightarrow> message list \<Rightarrow> compaction_result option option \<Rightarrow> compaction_manager
     \<Rightarrow> compaction_manager" where
  "wait_for_pending e ms late m =
     (let m1 = (case late of None \<Rightarrow> m | Some outcome \<Rightarrow> task_ends outcome m)
      in case pending_task m1 of
           Some (Finished outcome) \<Rightarrow> check_and_apply_compaction_with e ms m1
         | _ \<Rightarrow> m1)"

text \<open>The end of \<open>ensure_context_fits\<close>: the soft path.\<close>

definition soft_path ::
  "compaction_env \<Rightarrow> message list \<Rightarrow> compaction_manager \<Rightarrow> compaction_action \<times> compaction_manager" where
  "soft_path e ms m =
     (let m1 = maybe_start_compaction_with e ms m
      in if \<not> is_compacting m \<and> is_compacting m1
         then (Background_Started
                 (case pending_trigger m1 of Some t \<Rightarrow> t | None \<Rightarrow> mode_str (mode m1)), m1)
         else (Nothing_Done, m1))"

definition ensure_context_fits ::
  "compaction_env \<Rightarrow> message list \<Rightarrow> compaction_result option option \<Rightarrow> compaction_manager
     \<Rightarrow> compaction_action \<times> compaction_manager" where
  "ensure_context_fits e ms late m0 =
     (let m = refresh_context_cap e m0
      in if \<not> usage_with at_critical_threshold e m ms then soft_path e ms m
         else
           (let m1 = (if pending_task m = None then m else wait_for_pending e ms late m)
            in if pending_task m \<noteq> None \<and> usage_with (usage_below at_critical_threshold) e m1 ms
               then soft_path e ms m1
               else (case hard_compact_with e ms m1 of
                       (Inr dropped, m2) \<Rightarrow> (Hard_Compacted dropped, m2)
                     | (Inl err, m2) \<Rightarrow> soft_path e ms m2)))"

section \<open>Making a summary\<close>

text \<open>
  The provider: its own compaction (an optional text and an optional payload, or an error),
  a plain completion, its context window. Messages and prompts go in as the code builds them.
\<close>

record summarizer =
  native_compact :: "message list \<Rightarrow> rstr option \<Rightarrow> rstr option \<Rightarrow> (rstr option \<times> rstr option) option"
  complete_simple :: "rstr \<Rightarrow> rstr \<Rightarrow> rstr option"
  context_window :: nat

definition generate_compaction_artifact ::
  "compaction_env \<Rightarrow> summarizer \<Rightarrow> message list \<Rightarrow> summary option \<Rightarrow> nat \<Rightarrow> compaction_result option"
where
  "generate_compaction_artifact e p ms existing duration =
     (let existing1 = map_option
            (\<lambda>s. case openai_encrypted_content s of
               Some payload \<Rightarrow>
                 if openai_encrypted_content_is_sendable payload then s else discard_payload s payload
             | None \<Rightarrow> s) existing;
          native = native_compact p ms (map_option summary_text existing1)
            (case existing1 of None \<Rightarrow> None | Some s \<Rightarrow> openai_encrypted_content s);
          plain = map_option
            (\<lambda>t. \<lparr>result_text = t, result_encrypted = None, result_covers = length ms,
                  result_duration = duration, summarized_messages = length ms\<rparr>)
            (complete_simple p
              (build_compaction_prompt (env_show_json e) ms existing1
                ((context_window p - 4000) * CHARS_PER_TOKEN))
              ''You are a helpful assistant that summarizes conversations.'')
      in case native of
           None \<Rightarrow> plain
         | Some (t, payload) \<Rightarrow>
             if (case payload of Some x \<Rightarrow> \<not> openai_encrypted_content_is_sendable x | None \<Rightarrow> False)
             then plain
             else Some \<lparr>result_text = (case t of Some x \<Rightarrow> x | None \<Rightarrow> []),
                    result_encrypted = payload, result_covers = length ms,
                    result_duration = duration, summarized_messages = length ms\<rparr>)"

definition build_transfer_compaction_state ::
  "compaction_env \<Rightarrow> summarizer \<Rightarrow> message list \<Rightarrow> stored_compaction_state option
     \<Rightarrow> stored_compaction_state option option" where
  "build_transfer_compaction_state e p ms existing =
     (if ms = [] then Some (map_option (\<lambda>st. st\<lparr>st_compacted_count := 0\<rparr>) existing)
      else
        (let s = map_option
               (\<lambda>st. \<lparr>summary_text = st_summary_text st, openai_encrypted_content = st_openai_encrypted st,
                     covers_up_to_turn = st_covers_up_to_turn st,
                     original_turn_count = st_original_turn_count st\<rparr>) existing;
             prior = (case existing of None \<Rightarrow> 0
               | Some st \<Rightarrow> max (st_original_turn_count st) (st_covers_up_to_turn st))
         in map_option
              (\<lambda>r. Some \<lparr>st_summary_text = result_text r, st_openai_encrypted = result_encrypted r,
                     st_covers_up_to_turn = prior + length ms,
                     st_original_turn_count = prior + length ms, st_compacted_count = 0\<rparr>)
              (generate_compaction_artifact e p ms s 0)))"

end
