(* ===== verification/Compaction_Runs.thy ===== *)
theory Compaction_Runs
  imports Compaction_Manager
begin

text \<open>
  What the compaction manager keeps: every operation leaves at least two live messages once
  anything was summarized, a summary in flight covers exactly messages that will still be
  there, and the size estimate is exact as long as nothing invalidated it.
\<close>

interpretation modes: vocabulary mode_str parse_mode
proof
  fix x :: compaction_mode
  show "parse_mode (mode_str x) = Some x" by (cases x; simp only:; code_simp)
qed

section \<open>The operations\<close>

text \<open>
  The manager with the messages its caller owns. An operation that refuses leaves no state.
\<close>

type_synonym compaction_state = "compaction_manager \<times> message list"

datatype compaction_op =
  Add_Message message
| Observe_Tokens nat
| Snapshot_Tokens nat
| Set_Budget nat
| Set_Mode compaction_mode
| Start_If_Needed
| Force
| Task_Ends "compaction_result option"
| Check
| Check_Without_Messages
| Poll_Event
| Build_Request
| Ensure_Fits "compaction_result option option"
| Hard_Compact
| Truncate_Payloads
| Recover

fun compaction_step ::
  "compaction_env \<Rightarrow> compaction_op \<Rightarrow> compaction_state \<Rightarrow> compaction_state option" where
  "compaction_step e (Add_Message msg) (m, ms) =
     Some (notify_message_added_blocks e (content_of msg) m, ms @ [msg])"
| "compaction_step e (Observe_Tokens n) (m, ms) = Some (update_observed_input_tokens n m, ms)"
| "compaction_step e (Snapshot_Tokens n) (m, ms) = Some (push_token_snapshot n m, ms)"
| "compaction_step e (Set_Budget n) (m, ms) = Some (set_budget e n m, ms)"
| "compaction_step e (Set_Mode md) (m, ms) = Some (set_mode md m, ms)"
| "compaction_step e Start_If_Needed (m, ms) = Some (maybe_start_compaction_with e ms m, ms)"
| "compaction_step e Force (m, ms) =
     (case force_compact_with e ms m of (Inr _, m') \<Rightarrow> Some (m', ms) | (Inl _, _) \<Rightarrow> None)"
| "compaction_step e (Task_Ends outcome) (m, ms) = Some (task_ends outcome m, ms)"
| "compaction_step e Check (m, ms) = Some (check_and_apply_compaction_with e ms m, ms)"
| "compaction_step e Check_Without_Messages (m, ms) = Some (check_and_apply_compaction e m, ms)"
| "compaction_step e Poll_Event (m, ms) = Some (snd (poll_compaction_event_with e ms m), ms)"
| "compaction_step e Build_Request (m, ms) = Some (snd (messages_for_api_with e ms m), ms)"
| "compaction_step e (Ensure_Fits late) (m, ms) = Some (snd (ensure_context_fits e ms late m), ms)"
| "compaction_step e Hard_Compact (m, ms) = Some (snd (hard_compact_with e ms m), ms)"
| "compaction_step e Truncate_Payloads (m, ms) =
     (case emergency_truncate_with ms m of (n, ms', m') \<Rightarrow> Some (m', ms'))"
| "compaction_step e Recover (m, ms) =
     (case recover_within_budget e ms m of (r, ms', m') \<Rightarrow> Some (m', ms'))"

section \<open>The invariant\<close>

text \<open>Two messages at least stay live after any compaction; \<open>n\<close> counts the messages.\<close>

definition tail_ok :: "nat \<Rightarrow> compaction_manager \<Rightarrow> bool" where
  "tail_ok n m = (compacted_count m = 0 \<or> compacted_count m + MIN_TURNS_TO_KEEP \<le> n)"

definition pending_ok :: "nat \<Rightarrow> compaction_manager \<Rightarrow> bool" where
  "pending_ok n m =
     (case pending_task m of
        None \<Rightarrow> pending_cutoff m = 0 \<and> pending_trigger m = None
      | Some t \<Rightarrow>
          0 < pending_cutoff m \<and> pending_trigger m \<noteq> None
          \<and> compacted_count m + pending_cutoff m + MIN_TURNS_TO_KEEP \<le> n
          \<and> (case t of Running snapshot \<Rightarrow> length snapshot = pending_cutoff m | Finished _ \<Rightarrow> True))"

fun manager_ok :: "compaction_state \<Rightarrow> bool" where
  "manager_ok (m, ms) =
     (total_turns m = length ms \<and> tail_ok (length ms) m \<and> pending_ok (length ms) m)"

lemmas ok_defs = tail_ok_def pending_ok_def

lemma tail_ok_le: "tail_ok n m \<Longrightarrow> compacted_count m \<le> n"
  by (auto simp: tail_ok_def)

lemma active_length:
  "length (active_messages m ms) = length ms - compacted_count m"
  by (simp add: active_messages_def min_def)

lemma clamp_ok: "tail_ok (length ms) m \<Longrightarrow> clamp_compacted_count ms m = (m, False)"
  by (auto simp: clamp_compacted_count_def dest: tail_ok_le)

text \<open>The fields the invariant reads; operations that keep them keep it.\<close>

abbreviation ok_fields where
  "ok_fields m \<equiv>
     (total_turns m, compacted_count m, pending_task m, pending_cutoff m, pending_trigger m)"

lemma manager_ok_fields: "ok_fields m' = ok_fields m \<Longrightarrow> manager_ok (m', ms) = manager_ok (m, ms)"
  by (simp add: ok_defs split: option.split summary_task.split)

lemma discard_fields: "ok_fields (fst (discard_oversized_openai_native_compaction m)) = ok_fields m"
  by (simp add: discard_oversized_openai_native_compaction_def Let_def split: option.split)

lemma refresh_fields: "ok_fields (refresh_context_cap e m) = ok_fields m"
  by (simp add: refresh_context_cap_def)

lemma truncate_fields: "ok_fields (snd (snd (emergency_truncate_with ms m))) = ok_fields m"
  by (simp add: emergency_truncate_with_def Let_def split: prod.split)

lemma truncate_length: "length (fst (snd (emergency_truncate_with ms m))) = length ms"
  by (simp add: emergency_truncate_with_def emergency_truncate_large_payloads_def over_blocks_def
      Let_def)

section \<open>Starting and applying\<close>

lemma cutoff_fits:
  "0 < safe_compaction_cutoff active (length active - k) \<Longrightarrow>
     safe_compaction_cutoff active (length active - k) + k \<le> length active"
  using safe_cutoff [of "safe_compaction_cutoff active (length active - k)" active "length active - k"]
  by (cases "k \<le> length active") auto

lemma start_task_ok:
  assumes "manager_ok (m, ms)" and "0 < cutoff"
    and "cutoff = safe_compaction_cutoff (active_messages m ms)
           (length (active_messages m ms) - RECENT_TURNS_TO_KEEP)"
  shows "manager_ok (start_task t cutoff (active_messages m ms) m, ms)"
proof -
  have "cutoff + RECENT_TURNS_TO_KEEP \<le> length ms - compacted_count m"
    using cutoff_fits [of "active_messages m ms" RECENT_TURNS_TO_KEEP] assms(2,3)
    by (simp add: active_length)
  then show ?thesis
    using assms(1,2) by (auto simp: start_task_def ok_defs active_length RECENT_TURNS_TO_KEEP_def
      MIN_TURNS_TO_KEEP_def)
qed

lemma maybe_start_ok:
  "manager_ok (m, ms) \<Longrightarrow> manager_ok (maybe_start_compaction_with e ms m, ms)"
  using start_task_ok [of m ms] by (simp add: maybe_start_compaction_with_def Let_def)

lemma force_ok:
  "manager_ok (m, ms) \<Longrightarrow> force_compact_with e ms m = (Inr u, m') \<Longrightarrow> manager_ok (m', ms)"
  using start_task_ok [of m ms] by (auto simp: force_compact_with_def Let_def split: if_splits)

lemma task_ends_ok: "manager_ok (m, ms) \<Longrightarrow> manager_ok (task_ends outcome m, ms)"
  by (auto simp: task_ends_def ok_defs split: option.splits summary_task.splits)

lemma forget_pending_ok: "manager_ok (m, ms) \<Longrightarrow> manager_ok (forget_pending m, ms)"
  by (simp add: forget_pending_def ok_defs)

lemma apply_summary_fields:
  "ok_fields (apply_summary e ms r m) =
     (total_turns m,
      (if ms = [] then compacted_count m + pending_cutoff m
       else min (compacted_count m + pending_cutoff m) (length ms)),
      pending_task m, 0, None)"
  unfolding apply_summary_def Let_def using discard_fields by simp

lemma apply_summary_ok:
  assumes "tail_ok n m" and "0 < pending_cutoff m" and "n = total_turns m" and "pending_task m = None"
    and "compacted_count m + pending_cutoff m + MIN_TURNS_TO_KEEP \<le> n"
    and "ms = [] \<or> length ms = n"
  shows "total_turns (apply_summary e ms r m) = n
    \<and> tail_ok n (apply_summary e ms r m) \<and> pending_ok n (apply_summary e ms r m)"
  using apply_summary_fields [of e ms r m] assms by (auto simp: ok_defs)

lemma check_ok:
  assumes "manager_ok (m, ms)" and "us = [] \<or> us = ms"
  shows "manager_ok (check_and_apply_compaction_with e us m, ms)"
proof -
  have same: "clamp_compacted_count us m = (m, False)"
    using assms tail_ok_le [of "length ms" m] by (auto simp: clamp_compacted_count_def)
  have "manager_ok (apply_summary e us r (m\<lparr>pending_task := None\<rparr>), ms)"
    if "pending_task m = Some (Finished (Some r))" for r
  proof -
    let ?m = "m\<lparr>pending_task := None\<rparr>"
    have "tail_ok (length ms) ?m" "0 < pending_cutoff ?m" "length ms = total_turns ?m"
      "pending_task ?m = None" "compacted_count ?m + pending_cutoff ?m + MIN_TURNS_TO_KEEP \<le> length ms"
      "us = [] \<or> length us = length ms"
      using assms that by (auto simp: ok_defs)
    from apply_summary_ok [OF this] show ?thesis by simp
  qed
  then show ?thesis
    using assms(1) forget_pending_ok [OF assms(1)]
    by (simp add: check_and_apply_compaction_with_def same Let_def split: option.split summary_task.split)
qed

lemma check_blind_ok:
  "manager_ok (m, ms) \<Longrightarrow> manager_ok (check_and_apply_compaction e m, ms)"
  using check_ok [of m ms "[]" e]
  by (simp add: check_and_apply_compaction_def Let_def ok_defs split: option.splits summary_task.splits)

lemma wait_ok: "manager_ok (m, ms) \<Longrightarrow> manager_ok (wait_for_pending e ms late m, ms)"
  using task_ends_ok [of m ms] check_ok [of _ ms ms e]
  by (simp add: wait_for_pending_def Let_def split: option.split summary_task.split)

section \<open>The hard compaction\<close>

lemma suffix_sums_nth: "i \<le> length cs \<Longrightarrow> suffix_sums cs ! i = sum_list (drop i cs)"
proof (induction cs arbitrary: i)
  case (Cons c cs)
  have "hd (suffix_sums cs) = suffix_sums cs ! 0" by (cases cs) simp_all
  then show ?case using Cons by (cases i) simp_all
qed simp

lemma keep_loop_spec:
  assumes "k = keep_loop budget remaining active turns" and "2 \<le> turns" and "2 \<le> length active"
  shows "k + 2 \<le> length active \<and> (k = 0 \<or> paired (drop k active))
    \<and> (k = 0 \<or> remaining ! k div CHARS_PER_TOKEN \<le> budget
       \<or> k = safe_compaction_cutoff active (length active - 2))"
  using assms
proof (induction budget remaining active turns rule: keep_loop.induct)
  case (1 budget remaining active turns)
  define c where "c = safe_compaction_cutoff active (length active - turns)"
  have c: "c \<le> length active - turns" "c = 0 \<or> paired (drop c active)"
    using safe_cutoff [OF c_def] by simp_all
  have last: "safe_compaction_cutoff active (length active - 2) \<le> length active - 2"
    "safe_compaction_cutoff active (length active - 2) = 0
      \<or> paired (drop (safe_compaction_cutoff active (length active - 2)) active)"
    using safe_cutoff [OF refl, of active "length active - 2"] by simp_all
  note step = 1(2) [unfolded keep_loop.simps [of budget remaining active turns] Let_def c_def [symmetric]]
  consider (fits) "0 < c \<and> remaining ! c div CHARS_PER_TOKEN \<le> budget"
    | (stop) "\<not> (0 < c \<and> remaining ! c div CHARS_PER_TOKEN \<le> budget)" "turns \<le> MIN_TURNS_TO_KEEP"
    | (again) "\<not> (0 < c \<and> remaining ! c div CHARS_PER_TOKEN \<le> budget)" "\<not> turns \<le> MIN_TURNS_TO_KEEP"
    by blast
  then show ?case
  proof cases
    case fits
    then show ?thesis using step c 1(3,4) by auto
  next
    case stop
    then show ?thesis using step last 1(4) by (auto simp: MIN_TURNS_TO_KEEP_def)
  next
    case again
    then have "k = keep_loop budget remaining active (max (turns div 2) MIN_TURNS_TO_KEEP)"
      using step by auto
    from 1(1) [OF c_def _ _ this] again 1(4) show ?thesis by (simp add: MIN_TURNS_TO_KEEP_def)
  qed
qed

text \<open>What a hard compaction that runs leaves, and one that does not.\<close>

lemma hard_compact_runs:
  assumes "tail_ok (length ms) m" and "hard_compact_with e ms m = (Inr k, m')"
  shows "0 < k \<and> compacted_count m' = compacted_count m + k
    \<and> compacted_count m' + MIN_TURNS_TO_KEEP \<le> length ms
    \<and> paired (active_messages m' ms)
    \<and> active_chars m' = set_exact
        (sum_list (map (message_char_count (env_show_json e)) (active_messages m' ms)))
    \<and> (sum_list (map (message_char_count (env_show_json e)) (active_messages m' ms)) div CHARS_PER_TOKEN
         \<le> token_budget m
       \<or> k = safe_compaction_cutoff (active_messages m ms) (length (active_messages m ms) - 2))
    \<and> pending_task m' = None \<and> total_turns m' = total_turns m
    \<and> (pending_task m = None \<longrightarrow> pending_cutoff m' = pending_cutoff m \<and> pending_trigger m' = pending_trigger m)
    \<and> (pending_task m \<noteq> None \<longrightarrow> pending_cutoff m' = 0 \<and> pending_trigger m' = None)"
proof -
  define active where "active = active_messages m ms"
  define sums where "sums = suffix_sums (map (message_char_count (env_show_json e)) active)"
  define c where "c = keep_loop (token_budget m) sums active (min RECENT_TURNS_TO_KEEP (length active - 1))"
  note clamp = clamp_ok [OF assms(1)]
  define freed where "freed = (if pending_task m = None then m else forget_pending m)"
  have runs: "\<not> length active \<le> MIN_TURNS_TO_KEEP" "c \<noteq> 0" "k = c"
    and count: "compacted_count m' = min (compacted_count freed + c) (length ms)"
    and sum: "active_chars m' = set_exact (sums ! c)"
    and rest: "pending_task m' = pending_task freed" "total_turns m' = total_turns freed"
      "pending_cutoff m' = pending_cutoff freed" "pending_trigger m' = pending_trigger freed"
    using assms(2)
    unfolding hard_compact_with_def clamp Let_def fst_conv active_def [symmetric]
      sums_def [symmetric] c_def [symmetric] freed_def [symmetric]
    by (simp_all split: if_split_asm) auto
  have kept: "compacted_count freed = compacted_count m" "total_turns freed = total_turns m"
    "pending_task freed = None"
    "pending_task m = None \<Longrightarrow> freed = m"
    "pending_task m \<noteq> None \<Longrightarrow> pending_cutoff freed = 0 \<and> pending_trigger freed = None"
    by (auto simp: freed_def forget_pending_def)
  have "2 \<le> min RECENT_TURNS_TO_KEEP (length active - 1)" "2 \<le> length active"
    using runs(1) by (auto simp: MIN_TURNS_TO_KEEP_def RECENT_TURNS_TO_KEEP_def)
  from keep_loop_spec [OF c_def this] have spec: "c + 2 \<le> length active" "paired (drop c active)"
    "sums ! c div CHARS_PER_TOKEN \<le> token_budget m
      \<or> c = safe_compaction_cutoff active (length active - 2)"
    using runs(2) by simp_all
  have len: "length active = length ms - compacted_count m" by (simp add: active_def active_length)
  have bounds: "compacted_count m + c + 2 \<le> length ms" using spec(1) len by simp
  then have live: "active_messages m' ms = drop c active"
    using count kept(1) by (simp add: active_def active_messages_def min_def add.commute)
  have "sums ! c = sum_list (map (message_char_count (env_show_json e)) (drop c active))"
    using spec(1) by (simp add: sums_def suffix_sums_nth drop_map)
  then show ?thesis
    using spec bounds live count runs sum rest kept by (simp add: active_def MIN_TURNS_TO_KEEP_def)
qed

lemma hard_compact_refuses:
  "tail_ok (length ms) m \<Longrightarrow> hard_compact_with e ms m = (Inl err, m') \<Longrightarrow> m' = m"
  by (auto simp: hard_compact_with_def clamp_ok Let_def split: if_splits)

lemma hard_compact_ok:
  assumes "manager_ok (m, ms)"
  shows "manager_ok (snd (hard_compact_with e ms m), ms)"
proof (cases "hard_compact_with e ms m")
  case (Pair outcome m')
  show ?thesis
  proof (cases outcome)
    case (Inl err)
    then have "m' = m" using Pair assms hard_compact_refuses [of ms m e err m'] by simp
    then show ?thesis using Pair assms by simp
  next
    case (Inr k)
    then have "hard_compact_with e ms m = (Inr k, m')" using Pair by simp
    from hard_compact_runs [OF _ this] assms show ?thesis
      by (cases "pending_task m") (auto simp: Pair ok_defs)
  qed
qed

lemma soft_path_ok: "manager_ok (m, ms) \<Longrightarrow> manager_ok (snd (soft_path e ms m), ms)"
  using maybe_start_ok by (simp add: soft_path_def Let_def)

lemma ensure_ok:
  assumes "manager_ok (m, ms)"
  shows "manager_ok (snd (ensure_context_fits e ms late m), ms)"
proof -
  define m1 where "m1 = refresh_context_cap e m"
  define m2 where "m2 = (if pending_task m1 = None then m1 else wait_for_pending e ms late m1)"
  have "manager_ok (m1, ms)"
    using assms manager_ok_fields [OF refresh_fields] unfolding m1_def by blast
  moreover from this have "manager_ok (m2, ms)" using wait_ok by (simp add: m2_def)
  moreover from this have "manager_ok (snd (hard_compact_with e ms m2), ms)"
    by (rule hard_compact_ok)
  ultimately show ?thesis
    unfolding ensure_context_fits_def Let_def m1_def [symmetric] m2_def [symmetric]
    using soft_path_ok by (auto split: prod.split sum.split)
qed

lemma truncate_ok:
  "manager_ok (m, ms) \<Longrightarrow> emergency_truncate_with ms m = (n, ms', m') \<Longrightarrow> manager_ok (m', ms')"
  using truncate_fields [of ms m] truncate_length [of ms m]
  by (simp add: ok_defs split: option.splits summary_task.splits)

lemma recover_ok:
  assumes "manager_ok (m, ms)" and "recover_within_budget e ms m = (r, ms', m')"
  shows "manager_ok (m', ms')"
proof -
  obtain outcome m1 where hard: "hard_compact_with e ms m = (outcome, m1)" by force
  then have "manager_ok (m1, ms)" using hard_compact_ok [OF assms(1), of e] by simp
  then show ?thesis
    using assms(2) truncate_ok [of m1 ms]
    by (auto simp: recover_within_budget_def hard Let_def split: if_splits prod.splits)
qed

lemma request_ok: "manager_ok (m, ms) \<Longrightarrow> manager_ok (snd (messages_for_api_with e ms m), ms)"
  using check_ok [of m ms ms e] manager_ok_fields [OF discard_fields]
  by (simp add: messages_for_api_with_def Let_def del: manager_ok.simps)

text \<open>Appending a message, observing usage, changing the budget or the mode.\<close>

lemma append_ok:
  "manager_ok (m, ms) \<Longrightarrow> manager_ok (notify_message_added_blocks e content m, ms @ [msg])"
  by (auto simp: notify_message_added_blocks_def ok_defs split: option.splits summary_task.splits)

lemma unread_fields:
  "ok_fields (update_observed_input_tokens n m) = ok_fields m"
  "ok_fields (push_token_snapshot n m) = ok_fields m"
  "ok_fields (set_mode md m) = ok_fields m"
  "ok_fields (set_budget e n m) = ok_fields m"
  "ok_fields (snd (take_compaction_event m)) = ok_fields m"
  by (simp_all add: update_observed_input_tokens_def push_token_snapshot_def set_mode_def
      set_budget_def refresh_context_cap_def take_compaction_event_def Let_def)

lemmas unread_ok = unread_fields [THEN manager_ok_fields]

lemma step_ok:
  assumes "manager_ok s" and "compaction_step e op s = Some s'"
  shows "manager_ok s'"
proof -
  obtain m ms where s: "s = (m, ms)" by (cases s)
  show ?thesis
    using assms unfolding s
    by (cases op)
      (auto simp: poll_compaction_event_with_def unread_ok simp del: manager_ok.simps
        intro: append_ok maybe_start_ok force_ok task_ends_ok check_ok check_blind_ok request_ok
          ensure_ok hard_compact_ok truncate_ok recover_ok
        split: prod.splits sum.splits)
qed

section \<open>Summarized messages stay summarized\<close>

fun grown :: "compaction_state \<Rightarrow> compaction_state \<Rightarrow> bool" where
  "grown (m, ms) (m', ms') = (compacted_count m \<le> compacted_count m' \<and> length ms \<le> length ms')"

lemma same_count:
  "ok_fields m' = ok_fields m \<Longrightarrow> compacted_count m' = compacted_count m"
  by simp

lemmas unread_count = unread_fields [THEN same_count] discard_fields [THEN same_count]
  refresh_fields [THEN same_count] truncate_fields [THEN same_count]

lemma started_count [simp]:
  "compacted_count (maybe_start_compaction_with e ms m) = compacted_count m"
  "compacted_count (snd (soft_path e ms m)) = compacted_count m"
  "compacted_count (task_ends outcome m) = compacted_count m"
  by (auto simp: maybe_start_compaction_with_def soft_path_def start_task_def
      task_ends_def Let_def split: if_splits option.split summary_task.split)

lemma force_count:
  "force_compact_with e ms m = (r, m') \<Longrightarrow>
     compacted_count m' = compacted_count m \<and> active_chars m' = active_chars m"
  by (auto simp: force_compact_with_def start_task_def Let_def split: if_splits)

lemma check_count:
  assumes "manager_ok (m, ms)" and "us = [] \<or> us = ms"
  shows "compacted_count m \<le> compacted_count (check_and_apply_compaction_with e us m)"
proof -
  have le: "compacted_count m \<le> length ms" using assms(1) tail_ok_le by simp
  then have same: "clamp_compacted_count us m = (m, False)"
    using assms(2) by (auto simp: clamp_compacted_count_def)
  have "compacted_count m \<le> compacted_count (apply_summary e us r (m\<lparr>pending_task := None\<rparr>))" for r
    using apply_summary_fields [of e us r "m\<lparr>pending_task := None\<rparr>"] assms(2) le by auto
  then show ?thesis
    by (simp add: check_and_apply_compaction_with_def same forget_pending_def Let_def
        split: option.split summary_task.split)
qed

lemma hard_compact_count:
  assumes "manager_ok (m, ms)"
  shows "compacted_count m \<le> compacted_count (snd (hard_compact_with e ms m))"
proof (cases "hard_compact_with e ms m")
  case (Pair outcome m')
  then show ?thesis
    using assms hard_compact_runs [of ms m e _ m'] hard_compact_refuses [of ms m e _ m']
    by (cases outcome) auto
qed

lemma wait_count:
  assumes "manager_ok (m, ms)"
  shows "compacted_count m \<le> compacted_count (wait_for_pending e ms late m)"
proof -
  define m1 where "m1 = (case late of None \<Rightarrow> m | Some outcome \<Rightarrow> task_ends outcome m)"
  have ok: "manager_ok (m1, ms)" and same: "compacted_count m1 = compacted_count m"
    using assms task_ends_ok [of m ms] by (auto simp: m1_def split: option.split)
  have "compacted_count m \<le> compacted_count (check_and_apply_compaction_with e ms m1)"
    using check_count [OF ok] same by simp
  then show ?thesis
    unfolding wait_for_pending_def Let_def m1_def [symmetric]
    using same by (simp split: option.split summary_task.split)
qed

lemma ensure_count:
  assumes "manager_ok (m, ms)"
  shows "compacted_count m \<le> compacted_count (snd (ensure_context_fits e ms late m))"
proof -
  define m1 where "m1 = refresh_context_cap e m"
  define m2 where "m2 = (if pending_task m1 = None then m1 else wait_for_pending e ms late m1)"
  have ok1: "manager_ok (m1, ms)"
    using assms manager_ok_fields [OF refresh_fields] unfolding m1_def by blast
  then have ok2: "manager_ok (m2, ms)" using wait_ok by (simp add: m2_def)
  have "compacted_count m = compacted_count m1" by (simp add: m1_def refresh_context_cap_def)
  moreover have "compacted_count m1 \<le> compacted_count m2" using wait_count [OF ok1] by (simp add: m2_def)
  moreover have "compacted_count m2 \<le> compacted_count (snd (hard_compact_with e ms m2))"
    using ok2 by (rule hard_compact_count)
  ultimately show ?thesis
    unfolding ensure_context_fits_def Let_def m1_def [symmetric] m2_def [symmetric]
    by (auto split: prod.split sum.split)
qed

lemma recover_count:
  assumes "manager_ok (m, ms)" and "recover_within_budget e ms m = (r, ms', m')"
  shows "compacted_count m \<le> compacted_count m' \<and> length ms' = length ms"
proof -
  obtain outcome m1 where hard: "hard_compact_with e ms m = (outcome, m1)" by force
  then have "compacted_count m \<le> compacted_count m1" using hard_compact_count [OF assms(1), of e] by simp
  then show ?thesis
    using assms(2) truncate_length [of ms m1] truncate_fields [of ms m1]
    by (auto simp: recover_within_budget_def hard Let_def split: if_splits prod.splits)
qed

lemma step_grown:
  assumes "manager_ok s" and "compaction_step e op s = Some s'"
  shows "grown s s'"
proof -
  obtain m ms where s: "s = (m, ms)" by (cases s)
  have ok: "manager_ok (m, ms)" using assms(1) s by blast
  have check: "compacted_count m \<le> compacted_count (check_and_apply_compaction_with e ms m)"
    by (rule check_count [OF ok]) simp
  show ?thesis
  proof (cases op)
    case Truncate_Payloads
    then show ?thesis using assms truncate_length [of ms m] truncate_fields [of ms m]
      by (auto simp: s split: prod.splits)
  next
    case Recover
    then show ?thesis using assms(2) recover_count [OF ok] by (auto simp: s split: prod.splits)
  next
    case Check_Without_Messages
    then show ?thesis using assms(2) check_count [OF ok, of "[]" e]
      by (auto simp: s check_and_apply_compaction_def Let_def)
  qed (use assms(2) check ensure_count [OF ok] hard_compact_count [OF ok] in
      \<open>auto simp: s poll_compaction_event_with_def messages_for_api_with_def unread_count
        notify_message_added_blocks_def Let_def simp del: manager_ok.simps dest: force_count
        split: prod.splits sum.splits\<close>)
qed

interpretation compaction: monotone_machine "compaction_step e" manager_ok grown for e
proof
  show "manager_ok s \<Longrightarrow> compaction_step e op s = Some s' \<Longrightarrow> manager_ok s'" for s op s'
    by (rule step_ok)
  show "grown s s" for s by (cases s) simp
  show "grown s t \<Longrightarrow> grown t u \<Longrightarrow> grown s u" for s t u
    by (cases s; cases t; cases u) simp
  show "manager_ok s \<Longrightarrow> compaction_step e op s = Some s' \<Longrightarrow> grown s s'" for s op s'
    by (rule step_grown)
qed

section \<open>The size estimate\<close>

definition active_size :: "compaction_env \<Rightarrow> compaction_manager \<Rightarrow> message list \<Rightarrow> nat" where
  "active_size e m ms = sum_list (map (message_char_count (env_show_json e)) (active_messages m ms))"

fun exact :: "compaction_env \<Rightarrow> compaction_state \<Rightarrow> bool" where
  "exact e (m, ms) =
     (manager_ok (m, ms) \<and> active_chars m = set_exact (active_size e m ms))"

text \<open>The operations that neither rewrite messages nor work without them.\<close>

fun plain_op :: "compaction_op \<Rightarrow> bool" where
  "plain_op Truncate_Payloads = False"
| "plain_op Recover = False"
| "plain_op Check_Without_Messages = False"
| "plain_op op = True"

lemma chars_when_exact:
  "exact e (m, ms) \<Longrightarrow> active_message_chars_with e m ms = active_size e m ms"
  by (simp add: active_message_chars_with_def active_size_def set_exact_def)

lemma exact_fields:
  "ok_fields m' = ok_fields m \<Longrightarrow> active_chars m' = active_chars m \<Longrightarrow> exact e (m', ms) = exact e (m, ms)"
  using manager_ok_fields [of m' m ms] by (simp add: active_size_def active_messages_def)

lemma discard_chars: "active_chars (fst (discard_oversized_openai_native_compaction m)) = active_chars m"
  by (simp add: discard_oversized_openai_native_compaction_def Let_def split: option.split)

lemma apply_summary_chars:
  "active_chars (apply_summary e ms r m) =
     set_exact
       (active_message_chars_with e
          (m\<lparr>compacted_count := (if ms = [] then compacted_count m + pending_cutoff m
             else min (compacted_count m + pending_cutoff m) (length ms))\<rparr>) ms
        - sum_list (map (message_char_count (env_show_json e))
            (take (pending_cutoff m) (active_messages m ms))))"
  unfolding apply_summary_def Let_def by (simp add: discard_chars)

lemma active_size_split:
  "compacted_count m \<le> length ms \<Longrightarrow>
   active_size e m ms =
     sum_list (map (message_char_count (env_show_json e)) (take k (active_messages m ms)))
     + sum_list (map (message_char_count (env_show_json e)) (drop (compacted_count m + k) ms))"
proof -
  assume "compacted_count m \<le> length ms"
  then have "active_messages m ms = take k (active_messages m ms) @ drop (compacted_count m + k) ms"
    by (simp add: active_messages_def min_def add.commute) (metis append_take_drop_id drop_drop)
  then show ?thesis unfolding active_size_def by (metis map_append sum_list_append)
qed

text \<open>An applied summary, when the estimate was right and when it was stale.\<close>

lemma apply_summary_size:
  assumes "tail_ok (length ms) m" and "compacted_count m + pending_cutoff m + MIN_TURNS_TO_KEEP \<le> length ms"
    and "total_turns m = length ms" and "ms \<noteq> []"
  shows "active_size e (apply_summary e ms r m) ms
      = sum_list (map (message_char_count (env_show_json e))
          (drop (compacted_count m + pending_cutoff m) ms))
    \<and> (active_chars m = set_exact (active_size e m ms) \<longrightarrow>
        active_chars (apply_summary e ms r m) = set_exact (active_size e (apply_summary e ms r m) ms))
    \<and> (dirty (active_chars m) \<longrightarrow>
        active_chars (apply_summary e ms r m) =
          set_exact (active_size e (apply_summary e ms r m) ms
            - sum_list (map (message_char_count (env_show_json e))
                (take (pending_cutoff m) (active_messages m ms)))))"
proof -
  define n where "n = compacted_count m + pending_cutoff m"
  define tl where "tl = sum_list (map (message_char_count (env_show_json e)) (drop n ms))"
  have n: "n \<le> length ms" "min n (length ms) = n" using assms(2) by (simp_all add: n_def)
  have after: "active_size e (apply_summary e ms r m) ms = tl"
    using apply_summary_fields [of e ms r m] assms(4) n
    by (simp add: active_size_def active_messages_def tl_def n_def)
  have counted: "active_messages_count (m\<lparr>compacted_count := n\<rparr>) = length (active_messages (m\<lparr>compacted_count := n\<rparr>) ms)"
    using assms(3) by (simp add: active_messages_count_def active_length)
  have live: "active_messages (m\<lparr>compacted_count := n\<rparr>) ms = drop n ms"
    using n by (simp add: active_messages_def)
  have chars: "active_chars (apply_summary e ms r m) =
      set_exact ((if dirty (active_chars m) then tl else chars (active_chars m))
        - sum_list (map (message_char_count (env_show_json e))
            (take (pending_cutoff m) (active_messages m ms))))"
    unfolding apply_summary_chars
    using assms(4) n counted live by (simp add: active_message_chars_with_def n_def [symmetric] tl_def)
  have "active_size e m ms =
      sum_list (map (message_char_count (env_show_json e)) (take (pending_cutoff m) (active_messages m ms))) + tl"
    unfolding tl_def n_def using assms(1) tail_ok_le by (intro active_size_split) blast
  then show ?thesis unfolding chars after by (simp add: set_exact_def tl_def n_def)
qed

lemma check_exact: "exact e (m, ms) \<Longrightarrow> exact e (check_and_apply_compaction_with e ms m, ms)"
proof -
  assume ex: "exact e (m, ms)"
  then have ok: "manager_ok (m, ms)" and chars: "active_chars m = set_exact (active_size e m ms)"
    by simp_all
  have same: "clamp_compacted_count ms m = (m, False)" using ok clamp_ok by simp
  show ?thesis
  proof (cases "pending_task m")
    case (Some t)
    show ?thesis
    proof (cases "\<exists>r. t = Finished (Some r)")
      case True
      then obtain r where r: "t = Finished (Some r)" by blast
      let ?m = "m\<lparr>pending_task := None\<rparr>"
      have fits: "compacted_count m + pending_cutoff m + MIN_TURNS_TO_KEEP \<le> length ms"
        using ok Some by (simp add: pending_ok_def)
      then have nonempty: "ms \<noteq> []" by (auto simp: MIN_TURNS_TO_KEEP_def)
      from fits have "\<not> length ms - compacted_count m - MIN_TURNS_TO_KEEP < pending_cutoff m" by arith
      then have applied: "check_and_apply_compaction_with e ms m = apply_summary e ms r ?m"
        by (simp add: check_and_apply_compaction_with_def same Some r active_length del: diff_diff_left)
      have "tail_ok (length ms) ?m" "total_turns ?m = length ms" using ok by (simp_all add: tail_ok_def)
      moreover have "active_chars ?m = set_exact (active_size e ?m ms)"
        using chars by (simp add: active_size_def active_messages_def)
      ultimately have "active_chars (apply_summary e ms r ?m) =
          set_exact (active_size e (apply_summary e ms r ?m) ms)"
        using apply_summary_size [of ms ?m e r] fits nonempty by simp
      moreover have "manager_ok (check_and_apply_compaction_with e ms m, ms)"
        by (rule check_ok [OF ok]) simp
      ultimately show ?thesis unfolding applied by simp
    next
      case False
      then have "check_and_apply_compaction_with e ms m \<in> {m, forget_pending m}"
        by (auto simp: check_and_apply_compaction_with_def same Some split: summary_task.split option.split)
      moreover have "exact e (forget_pending m, ms)"
        using forget_pending_ok [OF ok] chars
        by (simp add: forget_pending_def active_size_def active_messages_def)
      ultimately show ?thesis using ex by auto
    qed
  qed (use ex in \<open>simp add: check_and_apply_compaction_with_def same\<close>)
qed

lemma started_exact:
  assumes "exact e (m, ms)"
  shows "exact e (maybe_start_compaction_with e ms m, ms)"
    and "exact e (snd (soft_path e ms m), ms)"
    and "force_compact_with e ms m = (Inr u, m') \<Longrightarrow> exact e (m', ms)"
    and "exact e (task_ends outcome m, ms)"
proof -
  have ok: "manager_ok (m, ms)" and chars: "active_chars m = set_exact (active_size e m ms)"
    using assms by simp_all
  have keep: "exact e (m', ms)"
    if "manager_ok (m', ms)" "compacted_count m' = compacted_count m" "active_chars m' = active_chars m" for m'
  proof -
    have "active_size e m' ms = active_size e m ms"
      using that(2) by (simp add: active_size_def active_messages_def)
    then show ?thesis using that(1,3) chars by simp
  qed
  have start: "active_chars (maybe_start_compaction_with e ms m) = active_chars m"
    by (simp add: maybe_start_compaction_with_def start_task_def Let_def)
  show first: "exact e (maybe_start_compaction_with e ms m, ms)"
    using keep [OF maybe_start_ok [OF ok]] start by simp
  then show "exact e (snd (soft_path e ms m), ms)" by (simp add: soft_path_def Let_def)
  show "exact e (m', ms)" if "force_compact_with e ms m = (Inr u, m')"
    using keep [OF force_ok [OF ok that]] force_count [OF that] by blast
  have "active_chars (task_ends outcome m) = active_chars m"
    by (simp add: task_ends_def split: option.split summary_task.split)
  then show "exact e (task_ends outcome m, ms)" using keep [OF task_ends_ok [OF ok]] by simp
qed

lemma hard_compact_exact:
  assumes "exact e (m, ms)"
  shows "exact e (snd (hard_compact_with e ms m), ms)"
proof (cases "hard_compact_with e ms m")
  case (Pair outcome m')
  have ok: "manager_ok (m', ms)" using hard_compact_ok [of m ms e] assms Pair by simp
  show ?thesis
  proof (cases outcome)
    case (Inl err)
    then have "m' = m" using assms hard_compact_refuses [of ms m e err m'] Pair by simp
    then show ?thesis using assms Pair by simp
  next
    case (Inr k)
    then have "active_chars m' = set_exact (active_size e m' ms)"
      using assms hard_compact_runs [of ms m e k m'] Pair by (simp add: active_size_def)
    then show ?thesis using ok Pair by simp
  qed
qed

lemma unread_chars:
  "active_chars (update_observed_input_tokens n m) = active_chars m"
  "active_chars (push_token_snapshot n m) = active_chars m"
  "active_chars (set_mode md m) = active_chars m"
  "active_chars (set_budget e n m) = active_chars m"
  "active_chars (snd (take_compaction_event m)) = active_chars m"
  "active_chars (refresh_context_cap e m) = active_chars m"
  by (simp_all add: update_observed_input_tokens_def push_token_snapshot_def set_mode_def
      set_budget_def refresh_context_cap_def take_compaction_event_def Let_def)

lemmas unread_exact =
  exact_fields [OF unread_fields(1) unread_chars(1)]
  exact_fields [OF unread_fields(2) unread_chars(2)]
  exact_fields [OF unread_fields(3) unread_chars(3)]
  exact_fields [OF unread_fields(4) unread_chars(4)]
  exact_fields [OF refresh_fields unread_chars(6)]
  exact_fields [OF unread_fields(5) unread_chars(5)]
  exact_fields [OF discard_fields discard_chars]

lemma append_exact_ok:
  assumes "exact e (m, ms)"
  shows "exact e (notify_message_added_blocks e (content_of msg) m, ms @ [msg])"
proof -
  have "compacted_count m \<le> length ms" using assms tail_ok_le by simp
  then have "active_messages m (ms @ [msg]) = active_messages m ms @ [msg]"
    by (simp add: active_messages_def min_def)
  then show ?thesis
    using assms append_ok [of m ms e "content_of msg" msg]
    by (simp add: notify_message_added_blocks_def active_size_def active_messages_def append_exact_def
        set_exact_def message_char_count_def)
qed

lemma ensure_exact:
  assumes "exact e (m, ms)"
  shows "exact e (snd (ensure_context_fits e ms late m), ms)"
proof -
  define m1 where "m1 = refresh_context_cap e m"
  define m2 where "m2 = (if pending_task m1 = None then m1 else wait_for_pending e ms late m1)"
  have ex1: "exact e (m1, ms)" using assms unread_exact(5) by (simp only: m1_def)
  define w where "w = (case late of None \<Rightarrow> m1 | Some outcome \<Rightarrow> task_ends outcome m1)"
  have "exact e (w, ms)"
    using started_exact(4) [OF ex1] ex1 by (cases late) (simp_all add: w_def del: exact.simps)
  from this check_exact [OF this] have "exact e (wait_for_pending e ms late m1, ms)"
    unfolding wait_for_pending_def Let_def w_def [symmetric]
    by (simp del: exact.simps split: option.split summary_task.split)
  then have ex2: "exact e (m2, ms)" using ex1 by (simp add: m2_def del: exact.simps)
  have "exact e (snd (hard_compact_with e ms m2), ms)" using ex2 by (rule hard_compact_exact)
  then show ?thesis
    unfolding ensure_context_fits_def Let_def m1_def [symmetric] m2_def [symmetric]
    using started_exact(2) ex1 ex2 by (auto simp del: exact.simps split: prod.split sum.split)
qed

lemma plain_step_exact:
  assumes "plain_op op" and "exact e s" and "compaction_step e op s = Some s'"
  shows "exact e s'"
proof -
  obtain m ms where s: "s = (m, ms)" by (cases s)
  show ?thesis
    using assms unfolding s
    by (cases op)
      (auto simp: poll_compaction_event_with_def messages_for_api_with_def unread_exact Let_def
        simp del: exact.simps
        intro: append_exact_ok started_exact check_exact ensure_exact hard_compact_exact
        split: prod.splits sum.splits)
qed

definition plain_step ::
  "compaction_env \<Rightarrow> compaction_op \<Rightarrow> compaction_state \<Rightarrow> compaction_state option" where
  "plain_step e op s = (if plain_op op then compaction_step e op s else None)"

interpretation plain: machine "plain_step e" "exact e" for e
  by unfold_locales (auto simp: plain_step_def intro: plain_step_exact split: if_splits)

lemma run_plain:
  "\<forall>op \<in> set ops. plain_op op \<Longrightarrow> run_ops (plain_step e) ops s = run_ops (compaction_step e) ops s"
  by (induction ops arbitrary: s) (simp_all add: plain_step_def)

end
