(* ===== verification/Compaction_Properties.thy ===== *)
theory Compaction_Properties
  imports Compaction_Runs
begin

text \<open>
  The properties of the compaction manager: runs of any operations, the hard compaction, the
  requests it builds, the round trip of its persisted state, and the size estimate, exact in
  plain runs and wrong after two sequences the code allows.
\<close>

lemma new_manager_ok: "manager_ok (new_manager e md, [])"
  by (simp add: new_manager_def ok_defs)


text \<open>
  in a run that rewrites no message and never polls without the messages, the estimate
  of the active messages' size is never marked stale and is exactly their size.
\<close>

theorem estimate_exact_in_plain_runs:
  assumes "\<forall>op \<in> set ops. plain_op op"
    and "run_ops (compaction_step e) ops (new_manager e md, []) = (m, ms)"
  shows "\<not> dirty (active_chars m)
    \<and> chars (active_chars m) =
        sum_list (map (message_char_count (env_show_json e)) (drop (compacted_count m) ms))
    \<and> active_message_chars_with e m ms = chars (active_chars m)"
proof -
  have "exact e (new_manager e md, [])"
    using new_manager_ok [of e md] by (simp add: new_manager_def active_size_def active_messages_def)
  from plain.run_inv [OF this, of ops] have ex: "exact e (m, ms)"
    unfolding run_plain [OF assms(1)] assms(2) .
  moreover from this have "compacted_count m \<le> length ms" using tail_ok_le by simp
  ultimately show ?thesis
    using chars_when_exact [OF ex] by (simp add: set_exact_def active_size_def active_messages_def min_def)
qed

definition sample_env :: compaction_env where
  "sample_env = \<lparr>env_show_json = (\<lambda>j. ''{}''), env_alphanumeric = (\<lambda>c. False),
     env_max_context_tokens = 0, env_proactive = (\<lambda>m ms. False)\<rparr>"

definition say :: "rstr \<Rightarrow> message" where
  "say t = \<lparr>role_of = User, content_of = [Text t None]\<rparr>"

lemma estimate_exact_in_plain_runs_witness:
  "(case run_ops (compaction_step sample_env) [Add_Message (say ''abc''), Add_Message (say ''de'')]
        (new_manager sample_env Reactive, []) of (m, ms) \<Rightarrow> chars (active_chars m) = 5)"
proof -
  let ?ops = "[Add_Message (say ''abc''), Add_Message (say ''de'')]"
  have plain: "\<forall>op \<in> set ?ops. plain_op op" by simp
  obtain m ms where run: "run_ops (compaction_step sample_env) ?ops
      (new_manager sample_env Reactive, []) = (m, ms)" by force
  then have "compacted_count m = 0" "ms = [say ''abc'', say ''de'']"
    by (auto simp: notify_message_added_blocks_def new_manager_def)
  then have "chars (active_chars m) = 5"
    using estimate_exact_in_plain_runs [OF plain run]
    by (simp add: say_def message_char_count_def content_char_count_def)
  then show ?thesis using run by simp
qed

text \<open>
  a hard compaction that runs drops at least one message and leaves at least two; every
  tool result left has its call; what is left fits the budget unless even the two last
  messages (as far as pairing allows) do not; nothing is in flight afterwards, and the
  estimate is the exact size of what is left. One that refuses changes nothing.
\<close>

theorem hard_compact_spec:
  assumes "tail_ok (length ms) m" and "hard_compact_with e ms m = (outcome, m')"
  shows "(case outcome of
      Inl err \<Rightarrow> m' = m
    | Inr k \<Rightarrow>
        0 < k \<and> compacted_count m' = compacted_count m + k
        \<and> compacted_count m' + 2 \<le> length ms
        \<and> paired (drop (compacted_count m') ms)
        \<and> (let size = sum_list (map (message_char_count (env_show_json e)) (drop (compacted_count m') ms))
           in active_chars m' = \<lparr>chars = size, dirty = False\<rparr>
              \<and> (size div 4 \<le> token_budget m
                 \<or> k = safe_compaction_cutoff (drop (compacted_count m) ms)
                         (length ms - compacted_count m - 2)))
        \<and> pending_task m' = None)"
proof (cases outcome)
  case (Inl err)
  then show ?thesis using assms hard_compact_refuses [of ms m e err m'] by simp
next
  case (Inr k)
  have "compacted_count m \<le> length ms" using assms(1) by (rule tail_ok_le)
  then have live: "active_messages m ms = drop (compacted_count m) ms"
    by (simp add: active_messages_def min_def)
  note runs = hard_compact_runs [OF assms(1), of e k m']
  have "compacted_count m' \<le> length ms" using runs assms(2) Inr by simp
  then have "active_messages m' ms = drop (compacted_count m') ms"
    by (simp add: active_messages_def min_def)
  then show ?thesis
    using runs assms(2) Inr live
    by (simp add: MIN_TURNS_TO_KEEP_def CHARS_PER_TOKEN_def set_exact_def Let_def del: drop_drop)
qed

definition four :: "message list" where
  "four = [say ''aaaa'', say ''bbbb'', say ''cccc'', say ''dddd'']"

definition seeded :: "message list \<Rightarrow> compaction_manager" where
  "seeded ms = seed_restored_messages_with sample_env ms (new_manager sample_env Reactive)"

lemma seeded_exact: "exact sample_env (seeded ms, ms)"
  by (simp add: seeded_def seed_restored_messages_with_def new_manager_def ok_defs active_size_def
      active_messages_def)

lemma four_length: "length four = 4"
  by (simp add: four_def)

lemma four_ids: "tool_uses (drop k four) = {}" "tool_results (drop k four) = {}"
proof -
  have "set (drop k four) \<subseteq> set four" by (rule set_drop_subset)
  then show "tool_uses (drop k four) = {}" "tool_results (drop k four) = {}"
    by (force simp: tool_uses_def tool_results_def four_def say_def)+
qed

lemma four_cutoff: "safe_compaction_cutoff four k = min k 4"
  by (simp add: safe_compaction_cutoff_def track_suffix four_ids, simp add: four_def)

lemma four_hard: "\<exists>m'. hard_compact_with sample_env four (seeded four) = (Inr 1, m')"
proof -
  have "keep_loop 200000 (suffix_sums (map (message_char_count (\<lambda>j. ''{}'')) four)) four 3 = 1"
    by (subst keep_loop.simps)
      (simp add: four_cutoff Let_def suffix_sums_nth CHARS_PER_TOKEN_def,
        simp add: four_def say_def message_char_count_def content_char_count_def)
  then show ?thesis
    by (simp add: hard_compact_with_def clamp_compacted_count_def seeded_def active_messages_def
        seed_restored_messages_with_def new_manager_def capped_budget_def DEFAULT_TOKEN_BUDGET_def
        sample_env_def RECENT_TURNS_TO_KEEP_def MIN_TURNS_TO_KEEP_def four_length Let_def)
qed

lemma hard_compact_spec_witness:
  "\<exists>m'. hard_compact_with sample_env four (seeded four) = (Inr 1, m')
     \<and> compacted_count m' = 1 \<and> paired (drop 1 four)"
proof -
  obtain m' where runs: "hard_compact_with sample_env four (seeded four) = (Inr 1, m')"
    using four_hard by blast
  have "tail_ok (length four) (seeded four)" and "compacted_count (seeded four) = 0"
    using seeded_exact [of four] by (simp_all add: seeded_def new_manager_def seed_restored_messages_with_def)
  then show ?thesis using hard_compact_spec [OF _ runs] runs
    by (simp add: paired_def four_ids)
qed

text \<open>
  a request is the live messages, behind the summary when there is one, and it never
  carries a provider-native payload above the size that is safe to replay.
\<close>

theorem request_spec:
  assumes "manager_ok (m, ms)" and "messages_for_api_with e ms m = (req, m')"
  shows "(case active_summary m' of
      None \<Rightarrow> req = drop (compacted_count m') ms
    | Some s \<Rightarrow>
        req = \<lparr>role_of = User, content_of =
            [case openai_encrypted_content s of
               None \<Rightarrow> Text (compacted_summary_text_block (summary_text s)) None
             | Some payload \<Rightarrow> OpenAICompaction payload]\<rparr> # drop (compacted_count m') ms
        \<and> (case openai_encrypted_content s of None \<Rightarrow> True | Some payload \<Rightarrow> length payload \<le> 9500000))
    \<and> compacted_count m \<le> compacted_count m'"
proof -
  have m': "m' = fst (discard_oversized_openai_native_compaction (check_and_apply_compaction_with e ms m))"
    using assms(2) by (simp add: messages_for_api_with_def Let_def)
  have step: "compaction_step e Build_Request (m, ms) = Some (m', ms)" using assms(2) by simp
  have "grown (m, ms) (m', ms)" "manager_ok (m', ms)"
    using compaction.step_above [OF assms(1) step] compaction.step_inv [OF assms(1) step] .
  then have live: "active_messages m' ms = drop (compacted_count m') ms"
    and grown: "compacted_count m \<le> compacted_count m'"
    using tail_ok_le by (simp_all add: active_messages_def min_def)
  have "length payload \<le> 9500000"
    if "active_summary m' = Some s" "openai_encrypted_content s = Some payload" for s payload
    using that unfolding m'
    by (auto simp: discard_oversized_openai_native_compaction_def discard_payload_def Let_def
        openai_encrypted_content_is_sendable_def OPENAI_ENCRYPTED_CONTENT_SAFE_MAX_CHARS_def
        split: option.splits if_splits)
  then show ?thesis
    using assms(2) live grown
    by (auto simp: messages_for_api_with_def m' [symmetric] Let_def split: option.split)
qed

lemma request_spec_witness:
  "manager_ok (seeded four, four)
   \<and> fst (messages_for_api_with sample_env four (seeded four)) = four"
proof -
  have ok: "manager_ok (seeded four, four)" using seeded_exact [of four] by simp
  obtain req m' where req: "messages_for_api_with sample_env four (seeded four) = (req, m')" by force
  then have "m' = seeded four"
    by (auto simp: messages_for_api_with_def check_and_apply_compaction_with_def clamp_compacted_count_def
        discard_oversized_openai_native_compaction_def seeded_def seed_restored_messages_with_def
        new_manager_def Let_def)
  then show ?thesis
    using request_spec [OF ok req] ok req
    by (simp add: seeded_def seed_restored_messages_with_def new_manager_def)
qed

text \<open>
  the persisted state round trips: what is restored over at least as many messages as
  it compacted is what would be persisted next, and nothing is in flight.
\<close>

theorem persisted_round_trip:
  assumes "st_compacted_count st \<le> n"
  shows "persisted_state (restore_persisted_state st n m) = Some st
    \<and> pending_task (restore_persisted_state st n m) = None
    \<and> active_messages_count (restore_persisted_state st n m) = n - st_compacted_count st"
  using assms by (simp add: persisted_state_def restore_persisted_state_def active_messages_count_def)

lemma persisted_round_trip_witness:
  "persisted_state (restore_persisted_state
     \<lparr>st_summary_text = ''s'', st_openai_encrypted = None, st_covers_up_to_turn = 2,
      st_original_turn_count = 2, st_compacted_count = 2\<rparr> 4 (new_manager sample_env Reactive))
   = Some \<lparr>st_summary_text = ''s'', st_openai_encrypted = None, st_covers_up_to_turn = 2,
      st_original_turn_count = 2, st_compacted_count = 2\<rparr>"
  using persisted_round_trip [of "\<lparr>st_summary_text = ''s'', st_openai_encrypted = None,
      st_covers_up_to_turn = 2, st_original_turn_count = 2, st_compacted_count = 2\<rparr>" 4] by simp

section \<open>Two ways the estimate goes wrong\<close>

text \<open>
  emergency truncation marks the estimate stale, but the next message added through the
  incremental notification clears the mark and adds to the stale number: from then on the
  estimate counts the bytes that were cut away, and is trusted.
\<close>

theorem append_trusts_stale_estimate:
  assumes "exact e (m, ms)" and "emergency_truncate_with ms m = (n, ms', m')" and "0 < n"
  shows "dirty (active_chars m')
    \<and> (let after = notify_message_added_blocks e (content_of msg) m'
       in \<not> dirty (active_chars after)
          \<and> active_message_chars_with e after (ms' @ [msg])
              = active_size e m ms + message_char_count (env_show_json e) msg
          \<and> active_size e after (ms' @ [msg])
              = active_size e m' ms' + message_char_count (env_show_json e) msg)"
proof -
  have fields: "ok_fields m' = ok_fields m" and len: "length ms' = length ms"
    using truncate_fields [of ms m] truncate_length [of ms m] assms(2) by simp_all
  have m': "active_chars m' = invalidate (set_exact (active_size e m ms))"
    using assms by (auto simp: emergency_truncate_with_def Let_def split: prod.splits)
  have ok: "total_turns m' = length ms'" "compacted_count m' \<le> length ms'"
    using assms(1) fields len tail_ok_le by simp_all
  then have live: "active_messages m' (ms' @ [msg]) = active_messages m' ms' @ [msg]"
    by (simp add: active_messages_def min_def)
  define after where "after = notify_message_added_blocks e (content_of msg) m'"
  have same: "active_messages after us = active_messages m' us" for us
    by (simp add: after_def notify_message_added_blocks_def active_messages_def)
  have "active_messages_count after = length (active_messages after (ms' @ [msg]))"
    using ok by (simp add: after_def notify_message_added_blocks_def active_messages_count_def active_length)
  then show ?thesis
    unfolding Let_def after_def [symmetric]
    by (simp add: active_size_def same live active_message_chars_with_def m')
      (simp add: after_def notify_message_added_blocks_def m' invalidate_def set_exact_def
        append_exact_def active_size_def message_char_count_def)
qed

text \<open>
  a summary applied while the estimate is stale subtracts the summarized messages'
  size from a number that no longer contains it: the estimate, trusted from then on, is too
  small by that much (or 0).
\<close>

theorem apply_while_stale_undercounts:
  assumes "manager_ok (m, ms)" and "pending_task m = Some (Finished (Some r))"
    and "dirty (active_chars m)"
  shows "(let after = check_and_apply_compaction_with e ms m
    in \<not> dirty (active_chars after)
       \<and> chars (active_chars after) = active_size e after ms
           - sum_list (map (message_char_count (env_show_json e))
               (take (pending_cutoff m) (drop (compacted_count m) ms))))"
proof -
  let ?m = "m\<lparr>pending_task := None\<rparr>"
  have fits: "compacted_count m + pending_cutoff m + MIN_TURNS_TO_KEEP \<le> length ms"
    using assms(1,2) by (simp add: pending_ok_def)
  then have fresh: "\<not> length ms - compacted_count m - MIN_TURNS_TO_KEEP < pending_cutoff m"
    and nonempty: "ms \<noteq> []" by (auto simp: MIN_TURNS_TO_KEEP_def)
  have same: "clamp_compacted_count ms m = (m, False)" using assms(1) clamp_ok by simp
  have applied: "check_and_apply_compaction_with e ms m = apply_summary e ms r ?m"
    using fresh by (simp add: check_and_apply_compaction_with_def same assms(2) active_length
        del: diff_diff_left)
  have "tail_ok (length ms) ?m" "total_turns ?m = length ms"
    using assms(1) by (simp_all add: tail_ok_def)
  then have "active_chars (apply_summary e ms r ?m) =
      set_exact (active_size e (apply_summary e ms r ?m) ms
        - sum_list (map (message_char_count (env_show_json e))
            (take (pending_cutoff m) (active_messages ?m ms))))"
    using apply_summary_size [of ms ?m e r] fits nonempty assms(3) by simp
  moreover have "active_messages ?m ms = drop (compacted_count m) ms"
    using fits by (simp add: active_messages_def)
  ultimately show ?thesis unfolding Let_def applied by (simp add: set_exact_def)
qed

definition big :: "message list" where
  "big = [\<lparr>role_of = User, content_of = [ToolResult ''a'' (concat (replicate 500 ''0123456789'')) None]\<rparr>]"

lemma append_trusts_stale_estimate_witness:
  "(case emergency_truncate_with big (seeded big) of (n, ms', m') \<Rightarrow>
      n = 1 \<and> dirty (active_chars m')
      \<and> \<not> dirty (active_chars (notify_message_added_blocks sample_env (content_of (say ''x'')) m')))"
proof -
  obtain n ms' m' where t: "emergency_truncate_with big (seeded big) = (n, ms', m')"
    by (cases "emergency_truncate_with big (seeded big)") auto
  have "length (concat (replicate 500 ''0123456789'')) = 5000"
    by (simp add: length_concat sum_list_replicate)
  then have "fst (emergency_truncate_with big (seeded big)) = 1"
    by (simp add: emergency_truncate_with_def emergency_truncate_large_payloads_def over_blocks_def
        big_def seeded_def new_manager_def seed_restored_messages_with_def
        EMERGENCY_TOOL_RESULT_MAX_CHARS_def Let_def)
  then have n: "n = 1" using t by simp
  show ?thesis
    using append_trusts_stale_estimate [OF seeded_exact t, of "say ''x''"] by (simp add: t n Let_def)
qed

lemma apply_while_stale_undercounts_witness:
  "(let m = (seeded four)\<lparr>active_chars := \<lparr>chars = 0, dirty = True\<rparr>,
        pending_task := Some (Finished (Some \<lparr>result_text = ''s'', result_encrypted = None,
          result_covers = 2, result_duration = 0, summarized_messages = 2\<rparr>)),
        pending_cutoff := 2, pending_trigger := Some ''manual''\<rparr>
    in \<not> dirty (active_chars (check_and_apply_compaction_with sample_env four m)))"
proof -
  define r where "r = \<lparr>result_text = ''s'', result_encrypted = None, result_covers = 2,
    result_duration = 0, summarized_messages = 2\<rparr>"
  define m where "m = (seeded four)\<lparr>active_chars := \<lparr>chars = 0, dirty = True\<rparr>,
    pending_task := Some (Finished (Some r)), pending_cutoff := 2, pending_trigger := Some ''manual''\<rparr>"
  have "manager_ok (m, four)"
    using seeded_exact [of four]
    by (simp add: m_def ok_defs four_length MIN_TURNS_TO_KEEP_def seeded_def new_manager_def
        seed_restored_messages_with_def)
  moreover have "pending_task m = Some (Finished (Some r))" "dirty (active_chars m)"
    by (simp_all add: m_def)
  ultimately show ?thesis
    using apply_while_stale_undercounts [of m four r sample_env]
    by (simp add: Let_def m_def r_def)
qed

end
