(* ===== verification/Tool_Files.thy ===== *)
theory Tool_Files
  imports Risk_Gate
begin

text \<open>
  What the tools that change files share: the file system they see, how they resolve a
  path, and the numbered differences they show.

  A path names a file by its text; links and other spellings of one path are not modelled.
  Which writes and removals the operating system refuses is an argument, and so is the line
  difference of the crate \<open>similar\<close>. A directory a tool creates on the way to a file is
  not recorded.
\<close>

datatype disk_file = Text_File rstr | Binary_File | Directory

datatype change_tag = Equal | Delete | Insert

type_synonym files = "rstr \<Rightarrow> disk_file option"

record tool_env =
  tool_dir :: "rstr option"
  env_home :: "rstr option"
  env_scratch :: "rstr option"
  may_write :: "rstr \<Rightarrow> bool"
  may_remove :: "rstr \<Rightarrow> bool"
  from_lines :: "rstr \<Rightarrow> rstr \<Rightarrow> (change_tag \<times> rstr) list"

section \<open>Files\<close>

text \<open>\<open>ToolContext::resolve_path\<close>.\<close>

definition resolve_path :: "tool_env \<Rightarrow> rstr \<Rightarrow> rstr" where
  "resolve_path e p =
     (if is_absolute p then p
      else (case tool_dir e of Some base \<Rightarrow> path_join base p | None \<Rightarrow> p))"

definition path_exists :: "files \<Rightarrow> rstr \<Rightarrow> bool" where
  "path_exists fs p = (fs p \<noteq> None)"

definition read_to_string :: "files \<Rightarrow> rstr \<Rightarrow> rstr option" where
  "read_to_string fs p = (case fs p of Some (Text_File s) \<Rightarrow> Some s | _ \<Rightarrow> None)"

definition write_file :: "tool_env \<Rightarrow> rstr \<Rightarrow> rstr \<Rightarrow> files \<Rightarrow> files option" where
  "write_file e p s fs =
     (if may_write e p \<and> fs p \<noteq> Some Directory then Some (fs(p \<mapsto> Text_File s)) else None)"

definition remove_file :: "tool_env \<Rightarrow> rstr \<Rightarrow> files \<Rightarrow> files option" where
  "remove_file e p fs =
     (if fs p \<noteq> None \<and> fs p \<noteq> Some Directory \<and> may_remove e p then Some (fs(p := None))
      else None)"

text \<open>The context \<open>RiskContext::from_env\<close> builds for a tool.\<close>

definition tool_risk_context :: "tool_env \<Rightarrow> risk_context" where
  "tool_risk_context e = context_from_env (tool_dir e) (env_home e) (env_scratch e)"

lemma read_to_string_Some [simp]:
  "read_to_string fs p = Some s \<longleftrightarrow> fs p = Some (Text_File s)"
  by (auto simp: read_to_string_def split: option.splits disk_file.splits)

lemma read_text [simp]: "fs p = Some (Text_File s) \<Longrightarrow> read_to_string fs p = Some s"
  by (rule read_to_string_Some [THEN iffD2])

lemma write_file_Some:
  "write_file e p s fs = Some fs' \<longleftrightarrow>
     may_write e p \<and> fs p \<noteq> Some Directory \<and> fs' = fs(p \<mapsto> Text_File s)"
  by (auto simp: write_file_def)

lemma remove_file_Some:
  "remove_file e p fs = Some fs' \<longleftrightarrow>
     fs p \<noteq> None \<and> fs p \<noteq> Some Directory \<and> may_remove e p \<and> fs' = fs(p := None)"
  by (auto simp: remove_file_def)

section \<open>Differences\<close>

definition numbered :: "nat \<Rightarrow> rstr \<Rightarrow> rstr \<Rightarrow> rstr" where
  "numbered n sign text' = decimal n @ sign @ '' '' @ text' @ [CHR 0x0A]"

text \<open>The loop of \<open>edit.rs\<close>; the counters are the next line of the old and of the new text.\<close>

fun diff_entries :: "nat \<Rightarrow> nat \<Rightarrow> (change_tag \<times> rstr) list \<Rightarrow> rstr" where
  "diff_entries old_line new_line [] = []"
| "diff_entries old_line new_line ((Equal, v) # cs) = diff_entries (old_line + 1) (new_line + 1) cs"
| "diff_entries old_line new_line ((Delete, v) # cs) =
     (if trim v = [] then [] else numbered old_line ''-'' (trim v))
     @ diff_entries (old_line + 1) new_line cs"
| "diff_entries old_line new_line ((Insert, v) # cs) =
     (if trim v = [] then [] else numbered new_line ''+'' (trim v))
     @ diff_entries old_line (new_line + 1) cs"

text \<open>The loop of \<open>multiedit.rs\<close> and \<open>write.rs\<close>, which shows at most so many entries.\<close>

fun diff_at_most :: "nat \<Rightarrow> nat \<Rightarrow> nat \<Rightarrow> nat \<Rightarrow> (change_tag \<times> rstr) list \<Rightarrow> rstr" where
  "diff_at_most limit shown old_line new_line [] = []"
| "diff_at_most limit shown old_line new_line ((Equal, v) # cs) =
     diff_at_most limit shown (old_line + 1) (new_line + 1) cs"
| "diff_at_most limit shown old_line new_line ((Delete, v) # cs) =
     (if trim v = [] then diff_at_most limit shown (old_line + 1) new_line cs
      else if limit \<le> shown then ''...'' @ [CHR 0x0A]
      else numbered old_line ''-'' (trim v)
           @ diff_at_most limit (shown + 1) (old_line + 1) new_line cs)"
| "diff_at_most limit shown old_line new_line ((Insert, v) # cs) =
     (if trim v = [] then diff_at_most limit shown old_line (new_line + 1) cs
      else if limit \<le> shown then ''...'' @ [CHR 0x0A]
      else numbered new_line ''+'' (trim v)
           @ diff_at_most limit (shown + 1) old_line (new_line + 1) cs)"

text \<open>The loop of \<open>apply_patch.rs\<close> and \<open>patch.rs\<close>, which keeps the indentation.\<close>

definition DIFF_MAX_LINES :: nat where
  "DIFF_MAX_LINES = 30"

fun diff_truncated :: "nat \<Rightarrow> nat \<Rightarrow> nat \<Rightarrow> (change_tag \<times> rstr) list \<Rightarrow> rstr" where
  "diff_truncated count old_line new_line [] = []"
| "diff_truncated count old_line new_line ((tag, v) # cs) =
     (if DIFF_MAX_LINES \<le> count then ''... (diff truncated)'' @ [CHR 0x0A]
      else (let content = trim_end_chars {CHR 0x0A} v
            in case tag of
                 Equal \<Rightarrow> diff_truncated count (old_line + 1) (new_line + 1) cs
               | Delete \<Rightarrow>
                   if trim content = [] then diff_truncated count (old_line + 1) new_line cs
                   else numbered old_line ''-'' content
                        @ diff_truncated (count + 1) (old_line + 1) new_line cs
               | Insert \<Rightarrow>
                   if trim content = [] then diff_truncated count old_line (new_line + 1) cs
                   else numbered new_line ''+'' content
                        @ diff_truncated (count + 1) old_line (new_line + 1) cs))"

definition diff_from :: "tool_env \<Rightarrow> rstr \<Rightarrow> rstr \<Rightarrow> nat \<Rightarrow> rstr" where
  "diff_from e old new start_line =
     trim_end (diff_truncated 0 start_line start_line (from_lines e old new))"

section \<open>Replacing ranges of lines\<close>

text \<open>
  A replacement: the index of a line, how many lines go, and the lines that come. Both patch
  tools apply theirs from the last to the first, so that the indices stay right; what they
  say, read from line \<open>k\<close> on, is \<open>spliced\<close>.
\<close>

type_synonym replacement = "nat \<times> nat \<times> rstr list"

fun replace_at :: "replacement \<Rightarrow> rstr list \<Rightarrow> rstr list" where
  "replace_at (i, n, new) ls = take i ls @ new @ drop (i + n) ls"

fun spliced :: "nat \<Rightarrow> replacement list \<Rightarrow> rstr list \<Rightarrow> rstr list" where
  "spliced k [] ls = ls"
| "spliced k ((i, n, new) # rs) ls =
     take (i - k) ls @ new @ spliced (i + n) rs (drop (i + n - k) ls)"

fun in_order :: "nat \<Rightarrow> nat \<Rightarrow> replacement list \<Rightarrow> bool" where
  "in_order k len [] = (k \<le> len)"
| "in_order k len ((i, n, new) # rs) = (k \<le> i \<and> in_order (i + n) len rs)"

fun apply_each :: "('r \<Rightarrow> rstr list \<Rightarrow> rstr list option) \<Rightarrow> 'r list \<Rightarrow> rstr list \<Rightarrow> rstr list option" where
  "apply_each step [] ls = Some ls"
| "apply_each step (r # rs) ls =
     (case step r ls of None \<Rightarrow> None | Some ls' \<Rightarrow> apply_each step rs ls')"

lemma in_order_le: "in_order k m rs \<Longrightarrow> k \<le> m"
  by (induction k m rs rule: in_order.induct) auto

lemma in_order_sorted: "in_order k m rs \<Longrightarrow> sorted (map fst rs) \<and> (\<forall>r \<in> set rs. k \<le> fst r)"
  by (induction k m rs rule: in_order.induct) fastforce+

lemma apply_each_append:
  "apply_each step (a @ b) ls =
     (case apply_each step a ls of None \<Rightarrow> None | Some ls' \<Rightarrow> apply_each step b ls')"
  by (induction a arbitrary: ls) (auto split: option.split)

text \<open>The contract: a step within the text is the replacement of its range.\<close>

locale range_editor =
  fixes step :: "'r \<Rightarrow> rstr list \<Rightarrow> rstr list option" and range_of :: "'r \<Rightarrow> replacement"
  assumes step_range: "fst (range_of r) \<le> length ls \<Longrightarrow> step r ls = Some (replace_at (range_of r) ls)"
begin

lemma apply_back_to_front:
  "in_order k (k + length ls) (map range_of rs) \<Longrightarrow> length pre = k \<Longrightarrow>
     apply_each step (rev rs) (pre @ ls) = Some (pre @ spliced k (map range_of rs) ls)"
proof (induction rs arbitrary: k pre ls)
  case (Cons r rs)
  obtain i n new where r: "range_of r = (i, n, new)" by (cases "range_of r")
  let ?j = "i - k"
  have order: "k \<le> i" "in_order (i + n) (k + length ls) (map range_of rs)" using Cons.prems(1) r by simp_all
  then have fits: "i + n \<le> k + length ls" using in_order_le by blast
  let ?pre = "pre @ take (i + n - k) ls" and ?rest = "drop (i + n - k) ls"
  have len: "length ?pre = i + n" using order(1) fits Cons.prems(2) by simp
  have "i + n + length ?rest = k + length ls" using order(1) fits by simp
  with order(2) have "in_order (i + n) (i + n + length ?rest) (map range_of rs)" by (simp only:)
  then have "apply_each step (rev rs) (?pre @ ?rest) = Some (?pre @ spliced (i + n) (map range_of rs) ?rest)"
    using len by (rule Cons.IH)
  moreover have "?pre @ ?rest = pre @ ls" by simp
  moreover have "step r (?pre @ spliced (i + n) (map range_of rs) ?rest)
      = Some (pre @ spliced k (map range_of (r # rs)) ls)"
  proof -
    have "take i ?pre = pre @ take ?j ls" using order(1) fits Cons.prems(2) by (simp add: min_def)
    then show ?thesis
      using step_range [of r "?pre @ spliced (i + n) (map range_of rs) ?rest"] r len
      by simp
  qed
  ultimately show ?case by (simp add: apply_each_append)
qed simp

lemma apply_reversed:
  "in_order 0 (length ls) (map range_of rs) \<Longrightarrow>
     apply_each step (rev rs) ls = Some (spliced 0 (map range_of rs) ls)"
  using apply_back_to_front [of 0 ls rs "[]"] by simp

end

section \<open>Marked lines\<close>

text \<open>
  The lines of a difference as a tool that computes one writes them, each with its mark:
  \<open>removed\<close> are the lines the old text has, \<open>added\<close> those the new text has.
\<close>

definition removed :: "(change_tag \<times> rstr) list \<Rightarrow> rstr list" where
  "removed cs = map snd (filter (\<lambda>c. fst c \<noteq> Insert) cs)"

definition added :: "(change_tag \<times> rstr) list \<Rightarrow> rstr list" where
  "added cs = map snd (filter (\<lambda>c. fst c \<noteq> Delete) cs)"

fun mark_of :: "change_tag \<Rightarrow> char" where
  "mark_of Equal = CHR '' ''"
| "mark_of Delete = CHR ''-''"
| "mark_of Insert = CHR ''+''"

definition marked :: "(change_tag \<times> rstr) list \<Rightarrow> rstr list" where
  "marked cs = map (\<lambda>(t, l). mark_of t # l) cs"

lemma marked_simps [simp]:
  "marked [] = []" "marked ((t, l) # cs) = (mark_of t # l) # marked cs"
  "marked (as @ bs) = marked as @ marked bs"
  by (simp_all add: marked_def)

lemma plain_line_Cons: "c \<noteq> CHR 0x0A \<Longrightarrow> c \<noteq> CHR 0x0D \<Longrightarrow> plain_line l \<Longrightarrow> plain_line (c # l)"
  by (auto simp: plain_line_def)

lemma marked_plain: "list_all (\<lambda>c. plain_line (snd c)) cs \<Longrightarrow> list_all plain_line (marked cs)"
proof (induction cs)
  case (Cons c cs)
  obtain t l where "c = (t, l)" by force
  then show ?case using Cons by (cases t) (simp_all add: plain_line_Cons)
qed simp

text \<open>An environment that refuses nothing, for the examples.\<close>

definition open_env :: tool_env where
  "open_env = \<lparr>tool_dir = Some ''/p'', env_home = Some ''/home/u'', env_scratch = None,
     may_write = (\<lambda>p. True), may_remove = (\<lambda>p. True), from_lines = (\<lambda>a b. [])\<rparr>"

end
