(* ===== verification/Text_Edit.thy ===== *)
theory Text_Edit
  imports Tool_Files
begin

text \<open>
  The tools that replace text: \<open>edit.rs\<close>, \<open>multiedit.rs\<close> and \<open>write.rs\<close> of
  \<open>crates/kcode-app-core/src/tool\<close>. A panic (a slice out of range, windows of size 0) is
  \<^const>\<open>None\<close>. The messages published to the other sessions, the statistics, and the
  notice about kcode's own settings at the end of a reply are not modelled.
\<close>

section \<open>Finding and replacing text\<close>

text \<open>\<open>str::split\<close> by a text: what stands between the matches, found from the left without
  overlap. The empty text matches between any two characters and at both ends.\<close>

function pieces_from :: "rstr \<Rightarrow> rstr \<Rightarrow> rstr list" where
  "pieces_from p [] = [[]]"
| "pieces_from p (c # s) =
     (if p \<noteq> [] \<and> starts_with (c # s) p
      then [] # pieces_from p (drop (length p) (c # s))
      else (case pieces_from p s of [] \<Rightarrow> [[c]] | w # ws \<Rightarrow> (c # w) # ws))"
  by pat_completeness auto
termination
  by (relation "measure (\<lambda>(p, s). length s)") auto

definition pieces :: "rstr \<Rightarrow> rstr \<Rightarrow> rstr list" where
  "pieces p s = (if p = [] then [] # utf8_chars s @ [[]] else pieces_from p s)"

text \<open>\<open>matches(p).count()\<close>, \<open>replace(p, r)\<close> and \<open>replacen(p, r, 1)\<close>.\<close>

definition match_count :: "rstr \<Rightarrow> rstr \<Rightarrow> nat" where
  "match_count s p = length (pieces p s) - 1"

definition replace_str :: "rstr \<Rightarrow> rstr \<Rightarrow> rstr \<Rightarrow> rstr" where
  "replace_str s p r = join r (pieces p s)"

definition replace_first :: "rstr \<Rightarrow> rstr \<Rightarrow> rstr \<Rightarrow> rstr" where
  "replace_first s p r =
     (case pieces p s of w # v # ws \<Rightarrow> w @ r @ join p (v # ws) | _ \<Rightarrow> s)"

section \<open>The edit tool\<close>

record edit_input =
  file_path :: rstr
  old_string :: rstr
  new_string :: rstr
  replace_all :: bool

datatype edit_error =
  Same_Strings
| File_Not_Found rstr
| Io_Error
| Found_Times nat
| Found_Trimmed
| Found_Indented nat
| Not_Found rstr

record tool_output =
  out_body :: rstr
  out_title :: "rstr option"

definition find_line_number :: "rstr \<Rightarrow> rstr \<Rightarrow> nat" where
  "find_line_number content substring =
     (case find_sub content substring of
        Some pos \<Rightarrow> length (str_lines (take pos content)) + 1
      | None \<Rightarrow> 1)"

definition generate_diff :: "tool_env \<Rightarrow> rstr \<Rightarrow> rstr \<Rightarrow> nat \<Rightarrow> rstr" where
  "generate_diff e old new start_line =
     (let output = diff_entries start_line start_line (from_lines e old new)
      in if output = [] then [] else trim_end output)"

definition context_line :: "nat \<Rightarrow> rstr \<Rightarrow> rstr" where
  "context_line n l =
     replicate (4 - length (decimal n)) (CHR '' '') @ decimal n
     @ [CHR 0xE2, CHR 0x94, CHR 0x82] @ '' '' @ l"

definition extract_context ::
  "rstr \<Rightarrow> nat \<Rightarrow> nat \<Rightarrow> nat \<Rightarrow> (nat \<times> nat \<times> rstr) option" where
  "extract_context content edit_start edit_end padding =
     (let lines = str_lines content;
          start = edit_start - (padding + 1);
          stop = min (edit_end + padding) (length lines)
      in if stop < start then None
         else Some (start + 1, stop,
                join [CHR 0x0A]
                  (map (\<lambda>i. context_line (i + 1) (lines ! i)) [start..<stop])))"

definition windows :: "nat \<Rightarrow> 'a list \<Rightarrow> 'a list list" where
  "windows k xs = map (\<lambda>i. take k (drop i xs)) [0..<Suc (length xs) - k]"

fun first_window :: "nat \<Rightarrow> rstr list list \<Rightarrow> rstr list \<Rightarrow> nat option" where
  "first_window i [] old_lines = None"
| "first_window i (w # ws) old_lines =
     (if list_all (\<lambda>(a, b). trim a = trim b) (zip w old_lines) then Some i
      else first_window (i + 1) ws old_lines)"

definition try_flexible_match :: "rstr \<Rightarrow> rstr \<Rightarrow> rstr \<Rightarrow> edit_error option" where
  "try_flexible_match content old path =
     (let trimmed = trim old
      in if contains content trimmed \<and> trimmed \<noteq> old then Some Found_Trimmed
         else (let old_lines = str_lines old
               in if length old_lines = 0 then None
                  else (case first_window 0 (windows (length old_lines) (str_lines content)) old_lines of
                          Some i \<Rightarrow> Some (Found_Indented (i + 1))
                        | None \<Rightarrow> Some (Not_Found path))))"

definition edit_body :: "tool_env \<Rightarrow> edit_input \<Rightarrow> nat \<Rightarrow> rstr \<Rightarrow> nat \<times> nat \<times> rstr \<Rightarrow> rstr" where
  "edit_body e i occurrences diff context' =
     ''Edited '' @ file_path i @ '': replaced '' @ decimal occurrences @ '' occurrence(s)''
     @ [CHR 0x0A] @ diff @ [CHR 0x0A, CHR 0x0A] @ ''Context after edit (lines ''
     @ decimal (fst context') @ ''-'' @ decimal (fst (snd context')) @ ''):'' @ [CHR 0x0A]
     @ snd (snd context')"

text \<open>What follows once the file is read.\<close>

definition edit_content ::
  "tool_env \<Rightarrow> edit_input \<Rightarrow> rstr \<Rightarrow> rstr \<Rightarrow> files
     \<Rightarrow> ((edit_error + tool_output) \<times> files) option" where
  "edit_content e i path content fs =
     (let occurrences = match_count content (old_string i)
      in if occurrences = 0
         then map_option (\<lambda>err. (Inl err, fs))
                (try_flexible_match content (old_string i) (file_path i))
         else if 1 < occurrences \<and> \<not> replace_all i
         then Some (Inl (Found_Times occurrences), fs)
         else (let new_content = (if replace_all i
                     then replace_str content (old_string i) (new_string i)
                     else replace_first content (old_string i) (new_string i));
                   start_line = find_line_number content (old_string i)
               in case write_file e path new_content fs of
                    None \<Rightarrow> Some (Inl Io_Error, fs)
                  | Some fs' \<Rightarrow>
                      (let diff = generate_diff e (old_string i) (new_string i) start_line;
                           end_line = start_line + (length (str_lines (new_string i)) - 1)
                       in map_option
                            (\<lambda>c. (Inr \<lparr>out_body = edit_body e i occurrences diff c,
                                       out_title = Some (file_path i)\<rparr>, fs'))
                            (extract_context new_content start_line end_line 3))))"

definition edit_execute ::
  "tool_env \<Rightarrow> edit_input \<Rightarrow> files \<Rightarrow> ((edit_error + tool_output) \<times> files) option" where
  "edit_execute e i fs =
     (if old_string i = new_string i then Some (Inl Same_Strings, fs)
      else (let path = resolve_path e (file_path i)
            in if \<not> path_exists fs path then Some (Inl (File_Not_Found (file_path i)), fs)
               else (case read_to_string fs path of
                       None \<Rightarrow> Some (Inl Io_Error, fs)
                     | Some content \<Rightarrow> edit_content e i path content fs)))"

section \<open>The multiedit tool\<close>

record edit_operation =
  op_old :: rstr
  op_new :: rstr
  op_all :: bool

definition edit_label :: "nat \<Rightarrow> rstr" where
  "edit_label n = ''Edit '' @ decimal n @ '': ''"

text \<open>One pass of the loop: a refused edit with its message, or the new text with one.\<close>

definition apply_operation :: "nat \<Rightarrow> edit_operation \<Rightarrow> rstr \<Rightarrow> rstr + rstr \<times> rstr" where
  "apply_operation n op content =
     (if op_old op = op_new op then Inl (edit_label n @ ''old_string equals new_string'')
      else (let occurrences = match_count content (op_old op)
        in if occurrences = 0 then Inl (edit_label n @ ''old_string not found'')
           else if 1 < occurrences \<and> \<not> op_all op
           then Inl (edit_label n @ ''found '' @ decimal occurrences
                     @ '' occurrences, use replace_all or be more specific'')
           else if op_all op
           then Inr (replace_str content (op_old op) (op_new op),
                     edit_label n @ ''replaced '' @ decimal occurrences @ '' occurrences'')
           else Inr (replace_first content (op_old op) (op_new op),
                     edit_label n @ ''replaced 1 occurrence'')))"

text \<open>The loop; the state is the text, the messages of the applied and of the failed edits.\<close>

fun apply_operations ::
  "nat \<Rightarrow> edit_operation list \<Rightarrow> rstr \<times> rstr list \<times> rstr list
     \<Rightarrow> rstr \<times> rstr list \<times> rstr list" where
  "apply_operations n [] s = s"
| "apply_operations n (op # ops) (content, applied, failed) =
     apply_operations (n + 1) ops
       (case apply_operation n op content of
          Inl m \<Rightarrow> (content, applied, failed @ [m])
        | Inr (content', m) \<Rightarrow> (content', applied @ [m], failed))"

definition summary_diff :: "tool_env \<Rightarrow> nat \<Rightarrow> rstr \<Rightarrow> rstr \<Rightarrow> rstr" where
  "summary_diff e limit old new = diff_at_most limit 0 1 1 (from_lines e old new)"

definition marked_lines :: "rstr \<Rightarrow> rstr list \<Rightarrow> rstr" where
  "marked_lines mark ms = concat (map (\<lambda>m. ''  '' @ mark @ '' '' @ m @ [CHR 0x0A]) ms)"

definition CHECK_MARK :: rstr where
  "CHECK_MARK = [CHR 0xE2, CHR 0x9C, CHR 0x93]"

definition CROSS_MARK :: rstr where
  "CROSS_MARK = [CHR 0xE2, CHR 0x9C, CHR 0x97]"

definition multi_edit_body ::
  "tool_env \<Rightarrow> rstr \<Rightarrow> rstr list \<Rightarrow> rstr list \<Rightarrow> rstr \<Rightarrow> rstr \<Rightarrow> rstr" where
  "multi_edit_body e path applied failed old new =
     ''Edited '' @ path @ [CHR 0x0A, CHR 0x0A]
     @ (if applied = [] then [] else ''Applied:'' @ [CHR 0x0A] @ marked_lines CHECK_MARK applied)
     @ (if failed = [] then []
        else [CHR 0x0A] @ ''Failed:'' @ [CHR 0x0A] @ marked_lines CROSS_MARK failed)
     @ [CHR 0x0A] @ ''Total: '' @ decimal (length applied) @ '' applied, ''
     @ decimal (length failed) @ '' failed'' @ [CHR 0x0A]
     @ (if applied = [] then []
        else [CHR 0x0A] @ ''Diff:'' @ [CHR 0x0A] @ summary_diff e 30 old new)"

definition multi_edit_execute ::
  "tool_env \<Rightarrow> rstr \<Rightarrow> edit_operation list \<Rightarrow> files \<Rightarrow> (edit_error + tool_output) \<times> files" where
  "multi_edit_execute e p edits fs =
     (let path = resolve_path e p
      in if \<not> path_exists fs path then (Inl (File_Not_Found p), fs)
         else (case read_to_string fs path of
           None \<Rightarrow> (Inl Io_Error, fs)
         | Some original \<Rightarrow>
             (case apply_operations 1 edits (original, [], []) of
                (content, applied, failed) \<Rightarrow>
                  (case write_file e path content fs of
                     None \<Rightarrow> (Inl Io_Error, fs)
                   | Some fs' \<Rightarrow>
                       (Inr \<lparr>out_body = multi_edit_body e p applied failed original content,
                             out_title = Some p\<rparr>, fs')))))"

section \<open>The write tool\<close>

definition write_diff :: "tool_env \<Rightarrow> rstr \<Rightarrow> rstr \<Rightarrow> rstr" where
  "write_diff e old new = trim_end (summary_diff e 20 old new)"

definition write_execute ::
  "tool_env \<Rightarrow> rstr \<Rightarrow> rstr \<Rightarrow> files \<Rightarrow> (edit_error + tool_output) \<times> files" where
  "write_execute e p content fs =
     (let path = resolve_path e p;
          existed = path_exists fs path;
          old_content = (if existed then read_to_string fs path else None)
      in case write_file e path content fs of
           None \<Rightarrow> (Inl Io_Error, fs)
         | Some fs' \<Rightarrow>
             (let line_count = length (str_lines content);
                  diff = write_diff e (case old_content of Some old \<Rightarrow> old | None \<Rightarrow> []) content;
                  body = (if existed
                    then ''Updated '' @ p @ '' ('' @ decimal line_count @ '' lines)''
                         @ (if diff = [] then [] else '':'') @ [CHR 0x0A] @ diff
                    else ''Created '' @ p @ '' ('' @ decimal line_count @ '' lines):'' @ [CHR 0x0A]
                         @ write_diff e [] content)
              in (Inr \<lparr>out_body = body, out_title = Some p\<rparr>, fs')))"

section \<open>What replacing does\<close>

lemma pieces_from_not_Nil [simp]: "pieces_from p s \<noteq> []"
  by (induction p s rule: pieces_from.induct) (auto split: list.splits)

lemma pieces_not_Nil [simp]: "pieces p s \<noteq> []"
  by (simp add: pieces_def)

lemma join_Cons: "ws \<noteq> [] \<Longrightarrow> join p (w # ws) = w @ p @ join p ws"
  by (cases ws) auto

lemma join_head: "join p ((c # w) # ws) = c # join p (w # ws)"
  by (cases ws) auto

lemma join_pieces_from: "join p (pieces_from p s) = s"
proof (induction p s rule: pieces_from.induct)
  case (2 p c s)
  show ?case
  proof (cases "p \<noteq> [] \<and> starts_with (c # s) p")
    case True
    then obtain r where r: "c # s = p @ r" by (auto simp: starts_with_split)
    then have "drop (length p) (c # s) = r" by simp
    with True 2(1) [OF True] show ?thesis by (simp add: join_Cons flip: r)
  next
    case False
    obtain w ws where "pieces_from p s = w # ws" by (cases "pieces_from p s") auto
    with False 2(2) [OF False] show ?thesis by (auto simp: join_head)
  qed
qed simp

lemma join_utf8_chars: "concat (utf8_chars s) = s"
  by (induction s rule: utf8_chars.induct) auto

lemma join_Nil: "join [] ws = concat ws"
  by (induction "[] :: rstr" ws rule: join.induct) auto

lemma join_pieces: "join p (pieces p s) = s"
  by (simp add: pieces_def join_pieces_from join_Nil join_utf8_chars)

text \<open>No piece holds a match, and each match found is the first from where it starts.\<close>

lemma pieces_from_clean: "p \<noteq> [] \<Longrightarrow> w \<in> set (pieces_from p s) \<Longrightarrow> \<not> contains w p"
proof (induction p s arbitrary: w rule: pieces_from.induct)
  case (2 p c s)
  show ?case
  proof (cases "starts_with (c # s) p")
    case True
    then show ?thesis using 2 by (cases p) auto
  next
    case False
    obtain v vs where vs: "pieces_from p s = v # vs" by (cases "pieces_from p s") auto
    have IH: "\<not> contains x p" if "x \<in> set (v # vs)" for x
      using 2(2) False 2(3) that vs by auto
    have "\<not> starts_with (c # v) p"
    proof
      assume "starts_with (c # v) p"
      then obtain r where r: "c # v = p @ r" by (auto simp: starts_with_split)
      have "c # s = c # join p (v # vs)" using join_pieces_from [of p s] vs by simp
      also have "\<dots> = join p ((p @ r) # vs)" using r by (simp flip: join_head)
      also have "\<dots> = p @ join p (r # vs)" by (cases vs) auto
      finally show False using False by (auto simp: starts_with_split)
    qed
    then show ?thesis using 2(3,4) IH vs False by (auto split: if_splits)
  qed
qed auto

lemma find_sub_pieces:
  "p \<noteq> [] \<Longrightarrow> find_sub s p =
     (case pieces_from p s of w # v # ws \<Rightarrow> Some (length w) | _ \<Rightarrow> None)"
proof (induction p s rule: pieces_from.induct)
  case (2 p c s)
  show ?case
  proof (cases "starts_with (c # s) p")
    case True
    then show ?thesis using 2(3)
      by (auto split: list.split)
  next
    case False
    then show ?thesis using 2(2,3) by (auto split: list.splits)
  qed
qed auto

lemma find_sub_pos: "find_sub s p = Some n \<Longrightarrow> n \<le> length s"
  by (induction s arbitrary: n) (auto split: if_splits)

lemma match_count_0: "match_count s p = 0 \<longleftrightarrow> p \<noteq> [] \<and> length (pieces_from p s) = 1"
  using pieces_from_not_Nil [of p s] by (cases "pieces_from p s") (auto simp: match_count_def pieces_def)

lemma replace_first_join:
  assumes "pieces p s = [w, v]"
  shows "replace_first s p r = join r (pieces p s)"
  using assms by (simp add: replace_first_def)

section \<open>Counting lines\<close>

lemma split_on_length: "length (split_on d s) = Suc (count_list s d)"
proof (induction s)
  case (Cons c s)
  then show ?case by (cases "split_on d s") auto
qed simp

lemma split_on_last: "last (split_on d s) = [] \<longleftrightarrow> s = [] \<or> last s = d"
proof (induction s)
  case (Cons c s)
  obtain w ws where ws: "split_on d s = w # ws" by (cases "split_on d s") auto
  have "w = [] \<and> ws = [] \<longleftrightarrow> s = []"
    using ws by (cases s) (auto split: if_splits list.splits)
  then show ?case using Cons ws by auto
qed simp

lemma length_str_lines:
  "length (str_lines s) = count_list s (CHR 0x0A) + (if s = [] \<or> last s = CHR 0x0A then 0 else 1)"
  by (simp add: str_lines_def Let_def split_on_length split_on_last)

lemma count_last: "s \<noteq> [] \<Longrightarrow> last s = c \<Longrightarrow> 0 < count_list s c"
  by (induction s) (auto split: if_splits)

lemma str_lines_mono: "length (str_lines a) \<le> length (str_lines (a @ b))"
  using count_last [of b "CHR 0x0A"] by (cases "b = []") (auto simp: length_str_lines)

lemma str_lines_nonempty: "s \<noteq> [] \<Longrightarrow> str_lines s \<noteq> []"
  using count_last [of s "CHR 0x0A"] length_str_lines [of s] by (auto split: if_splits)

section \<open>The properties\<close>

lemma replaced_keeps_lines:
  assumes "find_sub content old = Some n"
  shows "length (str_lines (take n content))
    \<le> length (str_lines (if all then replace_str content old new else replace_first content old new))"
proof (cases "old = []")
  case True
  then have "n = 0" using assms by (cases content) auto
  then show ?thesis by (simp add: length_str_lines)
next
  case False
  then obtain w v ws where w: "pieces_from old content = w # v # ws" "n = length w"
    using assms find_sub_pieces [OF False, of content] by (auto split: list.splits)
  have "take n content = w"
    using join_pieces_from [of old content] w by (metis append_eq_conv_conj join.simps(3))
  then show ?thesis
    using False w str_lines_mono by (simp add: replace_str_def replace_first_def pieces_def)
qed

lemma extract_context_total:
  "s \<le> length (str_lines c) \<Longrightarrow> extract_context c (s + 1) (s + 1 + k) 3 \<noteq> None"
  by (simp add: extract_context_def Let_def)

lemma flexible_match_total: "match_count c p = 0 \<Longrightarrow> try_flexible_match c p q \<noteq> None"
  using str_lines_nonempty [of p] match_count_0 [of c p]
  by (simp add: try_flexible_match_def Let_def split: option.split)

lemma find_line_number_cases:
  obtains s where "find_line_number c p = s + 1"
    and "s \<le> length (str_lines (if all then replace_str c p r else replace_first c p r))"
  using replaced_keeps_lines [of c p _ all r]
  by (cases "find_sub c p") (simp_all add: find_line_number_def del: split_paired_All)

text \<open>Every outcome of an edit of a text file, by the number of matches.\<close>

lemma edit_content_cases:
  obtains
    (missing) err where "match_count c (old_string i) = 0"
      "edit_content e i path c fs = Some (Inl err, fs)"
  | (ambiguous) "1 < match_count c (old_string i)" "\<not> replace_all i"
      "edit_content e i path c fs = Some (Inl (Found_Times (match_count c (old_string i))), fs)"
  | (unwritten) "write_file e path (if replace_all i then replace_str c (old_string i) (new_string i)
        else replace_first c (old_string i) (new_string i)) fs = None"
      "edit_content e i path c fs = Some (Inl Io_Error, fs)"
  | (written) out fs' where "0 < match_count c (old_string i)"
      "match_count c (old_string i) = 1 \<or> replace_all i"
      "write_file e path (if replace_all i then replace_str c (old_string i) (new_string i)
        else replace_first c (old_string i) (new_string i)) fs = Some fs'"
      "edit_content e i path c fs = Some (Inr out, fs')"
proof -
  let ?n = "match_count c (old_string i)"
  let ?new = "if replace_all i then replace_str c (old_string i) (new_string i)
        else replace_first c (old_string i) (new_string i)"
  consider "?n = 0" | "1 < ?n \<and> \<not> replace_all i" | "?n \<noteq> 0" "\<not> (1 < ?n \<and> \<not> replace_all i)"
    by blast
  then show ?thesis
  proof cases
    case 1
    then show ?thesis
      using missing flexible_match_total [OF 1, of "file_path i"] by (auto simp: edit_content_def)
  next
    case 2
    then show ?thesis using ambiguous by (simp add: edit_content_def Let_def)
  next
    case 3
    obtain s where s: "find_line_number c (old_string i) = s + 1" "s \<le> length (str_lines ?new)"
      by (rule find_line_number_cases)
    from s(2) obtain x where x: "extract_context ?new (s + 1)
        (s + 1 + (length (str_lines (new_string i)) - 1)) 3 = Some x"
      using extract_context_total by blast
    show ?thesis
    proof (cases "write_file e path ?new fs")
      case None
      moreover have "edit_content e i path c fs = Some (Inl Io_Error, fs)"
        unfolding edit_content_def Let_def using 3 None by simp
      ultimately show ?thesis by (rule unwritten)
    next
      case (Some fs')
      moreover have "edit_content e i path c fs = Some (Inr \<lparr>out_body = edit_body e i ?n
          (generate_diff e (old_string i) (new_string i) (s + 1)) x, out_title = Some (file_path i)\<rparr>, fs')"
        unfolding edit_content_def Let_def using 3 Some s(1) x by (simp del: One_nat_def)
      moreover have "0 < ?n" and "?n = 1 \<or> replace_all i" using 3 by auto
      ultimately show ?thesis by (rule written [rotated 2])
    qed
  qed
qed

lemma edit_of_text:
  assumes "fs (resolve_path e (file_path i)) = Some (Text_File c)" and "old_string i \<noteq> new_string i"
  shows "edit_execute e i fs = edit_content e i (resolve_path e (file_path i)) c fs"
  using assms by (simp add: edit_execute_def path_exists_def)

text \<open>The text around the matches.\<close>

definition cut_at :: "rstr \<Rightarrow> rstr \<Rightarrow> rstr list \<Rightarrow> bool" where
  "cut_at p s ws =
     (s = join p ws \<and> ws \<noteq> [] \<and> list_all (\<lambda>w. \<not> contains w p) ws
      \<and> find_sub s p = (if length ws = 1 then None else Some (length (hd ws))))"

lemma cut_at_pieces: "p \<noteq> [] \<Longrightarrow> cut_at p s (pieces p s)"
  using pieces_from_clean [of p _ s] find_sub_pieces [of p s] pieces_from_not_Nil [of p s]
  by (auto simp: cut_at_def join_pieces_from pieces_def list_all_iff split: list.splits)



text \<open>
  The edit tool never panics, whatever the request and the file system: the slice of
  context it shows after the edit is always in range.
\<close>

theorem edit_never_panics: "edit_execute e i fs \<noteq> None"
  unfolding edit_execute_def Let_def
  by (auto split: option.split intro: edit_content_cases [of _ i e "resolve_path e (file_path i)" fs])

text \<open>
  The line an edit reports is the line the match starts on only when the match starts at
  the beginning of a line; a match further right is reported one line too low.
\<close>

theorem line_number_spec:
  assumes "find_sub content old = Some (length a)" and "content = a @ b"
  shows "find_line_number content old =
    count_list a (CHR 0x0A) + 1 + (if a = [] \<or> last a = CHR 0x0A then 0 else 1)"
  using assms by (simp add: find_line_number_def length_str_lines)

theorem line_number_spec_witness:
  "find_line_number (''ab'' @ [CHR 0x0A] @ ''cd'') ''d'' = 3
   \<and> count_list (''ab'' @ [CHR 0x0A] @ ''c'') (CHR 0x0A) + 1 = 2"
  using line_number_spec [of "''ab'' @ [CHR 0x0A] @ ''cd''" "''d''" "''ab'' @ [CHR 0x0A] @ ''c''" "''d''"]
  by simp

definition as_input :: "rstr \<Rightarrow> edit_operation \<Rightarrow> edit_input" where
  "as_input p op = \<lparr>file_path = p, old_string = op_old op, new_string = op_new op, replace_all = op_all op\<rparr>"

lemma as_input_sel [simp]:
  "file_path (as_input p op) = p" "old_string (as_input p op) = op_old op"
  "new_string (as_input p op) = op_new op" "replace_all (as_input p op) = op_all op"
  by (simp_all add: as_input_def)

lemma operation_is_edit:
  assumes "fs (resolve_path e p) = Some (Text_File c)" and "may_write e (resolve_path e p)"
  shows "\<exists>r. edit_execute e (as_input p op) fs = Some (r, fs(resolve_path e p \<mapsto> Text_File
    (case apply_operation n op c of Inl m \<Rightarrow> c | Inr (c', m) \<Rightarrow> c')))"
proof (cases "op_old op = op_new op")
  case True
  then show ?thesis using assms(1) by (simp add: edit_execute_def apply_operation_def fun_upd_idem)
next
  case False
  then have run: "edit_execute e (as_input p op) fs = edit_content e (as_input p op) (resolve_path e p) c fs"
    using edit_of_text [of fs e "as_input p op" c] assms(1) by simp
  show ?thesis
    by (rule edit_content_cases [of c "as_input p op" e "resolve_path e p" fs])
       (use assms False in \<open>auto simp: run apply_operation_def Let_def fun_upd_idem
          write_file_Some write_file_def\<close>)
qed

lemma operations_are_edits:
  assumes "fs (resolve_path e p) = Some (Text_File c)" and "may_write e (resolve_path e p)"
  shows "fold (\<lambda>op fs. snd (the (edit_execute e (as_input p op) fs))) ops fs
    = fs(resolve_path e p \<mapsto> Text_File (fst (apply_operations n ops (c, ap, fl))))"
  using assms(1)
proof (induction ops arbitrary: fs c n ap fl)
  case (Cons op ops)
  obtain r where r: "edit_execute e (as_input p op) fs = Some (r, fs(resolve_path e p \<mapsto> Text_File
      (case apply_operation n op c of Inl m \<Rightarrow> c | Inr (c', m) \<Rightarrow> c')))"
    using operation_is_edit [of fs e p c op n, OF Cons.prems assms(2)] by blast
  have IH: "fold (\<lambda>op fs. snd (the (edit_execute e (as_input p op) fs))) ops (fs(resolve_path e p \<mapsto> Text_File c'))
      = fs(resolve_path e p \<mapsto> Text_File (fst (apply_operations n' ops (c', ap', fl'))))" for c' n' ap' fl'
    using Cons.IH [of "fs(resolve_path e p \<mapsto> Text_File c')" c', OF fun_upd_same] unfolding fun_upd_upd .
  show ?case
  proof (cases "apply_operation n op c")
    case (Inl m)
    then show ?thesis using r IH [of c "Suc n" ap "fl @ [m]"] by simp
  next
    case (Inr y)
    then show ?thesis using r IH [of "fst y" "Suc n" "ap @ [snd y]" fl] by (simp add: case_prod_beta)
  qed
qed (simp add: fun_upd_idem)

text \<open>
  A multiedit is its edits in turn: it leaves every file as the edit tool leaves it when
  it is run with one edit after the other, the refused ones changing nothing.
\<close>

theorem multi_edit_is_edits:
  assumes "fs (resolve_path e p) = Some (Text_File c)" and "may_write e (resolve_path e p)"
  shows "snd (multi_edit_execute e p ops fs)
    = fold (\<lambda>op fs. snd (the (edit_execute e (as_input p op) fs))) ops fs"
  using assms operations_are_edits [of fs e p c ops 1 "[]" "[]", OF assms]
  by (auto simp: multi_edit_execute_def path_exists_def write_file_Some write_file_def split: prod.split)

theorem multi_edit_is_edits_witness:
  "let ops = [\<lparr>op_old = ''b'', op_new = ''x'', op_all = False\<rparr>, \<lparr>op_old = ''x'', op_new = ''yy'', op_all = False\<rparr>,
              \<lparr>op_old = ''q'', op_new = [], op_all = False\<rparr>];
       fs = [''/p/f'' \<mapsto> Text_File ''abc'']
   in snd (multi_edit_execute open_env ''f'' ops fs)
        = fold (\<lambda>op fs. snd (the (edit_execute open_env (as_input ''f'' op) fs))) ops fs
      \<and> snd (multi_edit_execute open_env ''f'' ops fs) ''/p/f'' = Some (Text_File ''ayyc'')"
proof -
  let ?ops = "[\<lparr>op_old = ''b'', op_new = ''x'', op_all = False\<rparr>, \<lparr>op_old = ''x'', op_new = ''yy'', op_all = False\<rparr>,
              \<lparr>op_old = ''q'', op_new = [], op_all = False\<rparr>]" and ?fs = "[''/p/f'' \<mapsto> Text_File ''abc'']"
  have path: "resolve_path open_env ''f'' = ''/p/f''" by code_simp
  have "?fs (resolve_path open_env ''f'') = Some (Text_File ''abc'')"
    and "may_write open_env (resolve_path open_env ''f'')"
    by (simp add: path, simp add: open_env_def)
  note eq = multi_edit_is_edits [of ?fs open_env "''f''" "''abc''" ?ops, OF this]
  have "snd (multi_edit_execute open_env ''f'' ?ops ?fs) ''/p/f'' = Some (Text_File ''ayyc'')"
    by code_simp
  with eq show ?thesis unfolding Let_def by (rule conjI)
qed

end
