(* ===== verification/Unified_Patch.thy ===== *)
theory Unified_Patch
  imports Tool_Files
begin

text \<open>
  The tool for unified differences, \<open>crates/kcode-app-core/src/tool/patch.rs\<close>: the parser, what
  applying a patch does to the files, and when the two together do what the patch says. An
  index into the lines is what is left to read of them. A panic (the range of \<open>splice\<close>)
  ends the tool and leaves the files written before it.
\<close>

record hunk =
  old_start :: nat
  old_lines :: "rstr list"
  new_lines :: "rstr list"

record file_patch =
  patch_path :: rstr
  hunks :: "hunk list"
  is_new :: bool
  is_delete :: bool

section \<open>The parser\<close>

definition or_else :: "'a option \<Rightarrow> 'a \<Rightarrow> 'a" where
  "or_else x d = (case x of Some y \<Rightarrow> y | None \<Rightarrow> d)"

text \<open>The loop of \<open>parse_hunk\<close>: the lines removed, the lines added, and what follows.\<close>

fun hunk_body :: "rstr list \<Rightarrow> rstr list \<times> rstr list \<times> rstr list" where
  "hunk_body [] = ([], [], [])"
| "hunk_body (l # ls) =
     (if starts_with l ''@@'' \<or> starts_with l ''---'' then ([], [], l # ls)
      else (case hunk_body ls of (old, new, rest) \<Rightarrow>
        (case l of
           c # s \<Rightarrow>
             if c = CHR ''-'' then (s # old, new, rest)
             else if c = CHR ''+'' then (old, s # new, rest)
             else if c = CHR '' '' then (s # old, s # new, rest)
             else (old, new, rest)
         | [] \<Rightarrow> (old, new, rest))))"

definition parse_hunk :: "rstr \<Rightarrow> rstr list \<Rightarrow> hunk option \<times> rstr list" where
  "parse_hunk header ls =
     (let parts = split_whitespace header
      in if length parts < 3 then (None, ls)
         else (let old_range = or_else (strip_prefix (parts ! 1) ''-'') (parts ! 1);
                   start = or_else (parse_usize (hd (split_on (CHR '','') old_range))) 1
               in case hunk_body ls of (old, new, rest) \<Rightarrow>
                    (Some \<lparr>old_start = start, old_lines = old, new_lines = new\<rparr>, rest)))"

lemma hunk_body_shorter: "hunk_body ls = (old, new, rest) \<Longrightarrow> length rest \<le> length ls"
  by (induction ls arbitrary: old new rest)
     (fastforce split: if_splits prod.splits list.splits)+

lemma parse_hunk_shorter: "parse_hunk h ls = (r, rest) \<Longrightarrow> length rest \<le> length ls"
  by (auto simp: parse_hunk_def Let_def hunk_body_shorter split: if_splits prod.splits)

function parse_hunks :: "rstr list \<Rightarrow> hunk list \<times> rstr list" where
  "parse_hunks [] = ([], [])"
| "parse_hunks (l # ls) =
     (if starts_with l ''---'' then ([], l # ls)
      else if starts_with l ''@@'' then
        (case parse_hunk l ls of (h, rest) \<Rightarrow>
          (case parse_hunks rest of (hs, rest') \<Rightarrow>
            ((case h of Some x \<Rightarrow> x # hs | None \<Rightarrow> hs), rest')))
      else parse_hunks ls)"
  by pat_completeness auto
termination
  by (relation "measure length") (auto simp: less_Suc_eq_le dest: parse_hunk_shorter [OF sym])

lemma parse_hunks_shorter: "parse_hunks ls = (hs, rest) \<Longrightarrow> length rest \<le> length ls"
proof (induction ls arbitrary: hs rest rule: parse_hunks.induct)
  case (2 l ls)
  show ?case
  proof (cases "starts_with l ''---''")
    case False
    show ?thesis
    proof (cases "starts_with l ''@@''")
      case True
      obtain h r where h: "parse_hunk l ls = (h, r)" by force
      obtain hs' rest' where r: "parse_hunks r = (hs', rest')" by force
      have "length rest' \<le> length r" using 2(1) [OF False True h [symmetric] r] .
      with parse_hunk_shorter [OF h] show ?thesis using 2(3) False True h r by simp
    next
      case At: False
      then show ?thesis using 2(2) [OF False At] 2(3) False by fastforce
    qed
  qed (use 2(3) in simp)
qed simp

definition header_file :: "rstr \<Rightarrow> rstr \<Rightarrow> rstr" where
  "header_file mark l = hd (split_on (CHR 0x09) (or_else (strip_prefix l mark) []))"

function parse_patch :: "rstr list \<Rightarrow> file_patch list" where
  "parse_patch [] = []"
| "parse_patch (l # ls) =
     (if \<not> starts_with l ''---'' then parse_patch ls
      else if ls = [] \<or> \<not> starts_with (hd ls) ''+++'' then parse_patch ls
      else (let old_file = header_file ''--- '' l;
                new_file = header_file ''+++ '' (hd ls);
                path = (if new_file = ''/dev/null'' then or_else (strip_prefix old_file ''a/'') old_file
                        else or_else (strip_prefix new_file ''b/'') new_file)
            in case parse_hunks (tl ls) of (hs, rest) \<Rightarrow>
                 (if hs \<noteq> [] \<or> old_file = ''/dev/null'' \<or> new_file = ''/dev/null''
                  then [\<lparr>patch_path = path, hunks = hs, is_new = (old_file = ''/dev/null''),
                         is_delete = (new_file = ''/dev/null'')\<rparr>]
                  else []) @ parse_patch rest))"
  by pat_completeness auto
termination
  by (relation "measure length")
     (auto simp: less_Suc_eq_le neq_Nil_conv dest!: parse_hunks_shorter [OF sym])

section \<open>Applying\<close>

datatype patch_error = File_Exists | No_Such_File | Io_Failure

datatype patch_result = Panicked | Refused patch_error | Changed rstr rstr

text \<open>\<open>Vec::splice(start..end, new)\<close> panics when \<open>end\<close> is before \<open>start\<close>.\<close>

definition splice_hunk :: "hunk \<Rightarrow> rstr list \<Rightarrow> rstr list option" where
  "splice_hunk h ls =
     (let start = old_start h - 1;
          stop = min (start + length (old_lines h)) (length ls)
      in if stop < start then None else Some (take start ls @ new_lines h @ drop stop ls))"

definition first_line :: "hunk list \<Rightarrow> nat" where
  "first_line hs = (case map old_start hs of [] \<Rightarrow> 1 | n # ns \<Rightarrow> fold min ns n)"

definition delete_patched :: "tool_env \<Rightarrow> rstr \<Rightarrow> files \<Rightarrow> patch_result \<times> files" where
  "delete_patched e path fs =
     (if path_exists fs path
      then (case remove_file e path fs of
              None \<Rightarrow> (Refused Io_Failure, fs)
            | Some fs' \<Rightarrow>
                (Changed ''deleted'' (diff_from e (or_else (read_to_string fs path) []) [] 1), fs'))
      else (Refused No_Such_File, fs))"

definition create_patched :: "tool_env \<Rightarrow> hunk list \<Rightarrow> rstr \<Rightarrow> files \<Rightarrow> patch_result \<times> files" where
  "create_patched e hs path fs =
     (if path_exists fs path then (Refused File_Exists, fs)
      else (let content = unlines (concat (map new_lines hs))
            in case write_file e path content fs of
                 None \<Rightarrow> (Refused Io_Failure, fs)
               | Some fs' \<Rightarrow> (Changed ''created'' (diff_from e [] content 1), fs')))"

definition apply_patch_with_diff :: "tool_env \<Rightarrow> file_patch \<Rightarrow> rstr \<Rightarrow> files \<Rightarrow> patch_result \<times> files" where
  "apply_patch_with_diff e p path fs =
     (if is_delete p then delete_patched e path fs
      else if is_new p then create_patched e (hunks p) path fs
      else if \<not> path_exists fs path then (Refused No_Such_File, fs)
      else (case read_to_string fs path of
        None \<Rightarrow> (Refused Io_Failure, fs)
      | Some old_content \<Rightarrow>
          (case apply_each splice_hunk (rev (hunks p)) (str_lines old_content) of
             None \<Rightarrow> (Panicked, fs)
           | Some ls \<Rightarrow>
               (let new_content = join [CHR 0x0A] ls @ [CHR 0x0A]
                in case write_file e path new_content fs of
                     None \<Rightarrow> (Refused Io_Failure, fs)
                   | Some fs' \<Rightarrow>
                       (Changed (''modified ('' @ decimal (length (hunks p)) @ '' hunks)'')
                          (diff_from e old_content new_content (first_line (hunks p))), fs')))))"

text \<open>\<open>execute\<close> after the parser: the results of the patches, in order, up to a panic.\<close>

fun apply_patches :: "tool_env \<Rightarrow> file_patch list \<Rightarrow> files \<Rightarrow> (rstr \<times> patch_result) list \<times> files" where
  "apply_patches e [] fs = ([], fs)"
| "apply_patches e (p # ps) fs =
     (case apply_patch_with_diff e p (resolve_path e (patch_path p)) fs of (r, fs') \<Rightarrow>
       if r = Panicked then ([(patch_path p, r)], fs')
       else (case apply_patches e ps fs' of (rs, fs'') \<Rightarrow> ((patch_path p, r) # rs, fs'')))"

text \<open>\<^const>\<open>None\<close>: no patch was found in the text.\<close>

definition patch_execute :: "tool_env \<Rightarrow> rstr \<Rightarrow> files \<Rightarrow> (rstr \<times> patch_result) list option \<times> files" where
  "patch_execute e text' fs =
     (let patches = parse_patch (str_lines text')
      in if patches = [] then (None, fs)
         else (case apply_patches e patches fs of (rs, fs') \<Rightarrow> (Some rs, fs')))"

section \<open>Writing a patch\<close>

text \<open>
  A hunk as a tool that computes differences writes it: the first line it covers in the old
  and in the new text, and its lines.
\<close>

type_synonym script = "nat \<times> nat \<times> (change_tag \<times> rstr) list"

definition range_word :: "char \<Rightarrow> nat \<Rightarrow> nat \<Rightarrow> rstr" where
  "range_word c s n = c # decimal s @ '','' @ decimal n"

definition hunk_header :: "script \<Rightarrow> rstr" where
  "hunk_header h = (case h of (s, s', cs) \<Rightarrow>
     join '' '' [''@@'', range_word (CHR ''-'') s (length (removed cs)),
       range_word (CHR ''+'') s' (length (added cs)), ''@@''])"

definition render_hunk :: "script \<Rightarrow> rstr list" where
  "render_hunk h = hunk_header h # marked (snd (snd h))"

definition render_patch :: "rstr \<Rightarrow> script list \<Rightarrow> rstr list" where
  "render_patch path hs = (''--- a/'' @ path) # (''+++ b/'' @ path) # concat (map render_hunk hs)"

definition hunk_of :: "script \<Rightarrow> hunk" where
  "hunk_of h = \<lparr>old_start = fst h, old_lines = removed (snd (snd h)), new_lines = added (snd (snd h))\<rparr>"

text \<open>No removed line starts with two dashes: with its mark it would read as a file header.\<close>

definition script_ok :: "script \<Rightarrow> bool" where
  "script_ok h =
     (fst h < 2 ^ 64
      \<and> list_all (\<lambda>(t, l). plain_line l \<and> \<not> (t = Delete \<and> starts_with l ''--'')) (snd (snd h)))"

text \<open>
  What the hunks say, read from line \<open>n\<close> of the old text on: the new text, if they fit. The
  first number of a hunk is its first old line, counted from 1, or the line its new lines
  come after when it has no old line.
\<close>

definition lines_before :: "nat \<Rightarrow> (change_tag \<times> rstr) list \<Rightarrow> nat" where
  "lines_before s cs = (if removed cs = [] then s else s - 1)"

fun patched :: "nat \<Rightarrow> script list \<Rightarrow> rstr list \<Rightarrow> rstr list option" where
  "patched n [] ls = Some ls"
| "patched n ((s, s', cs) # hs) ls =
     (let j = lines_before s cs - n; k = length (removed cs)
      in if n \<le> lines_before s cs \<and> j + k \<le> length ls \<and> take k (drop j ls) = removed cs
         then map_option (\<lambda>r. take j ls @ added cs @ r)
                (patched (lines_before s cs + k) hs (drop (j + k) ls))
         else None)"

section \<open>Reading a patch back\<close>

definition ends_body :: "rstr list \<Rightarrow> bool" where
  "ends_body rest = (rest = [] \<or> starts_with (hd rest) ''@@'' \<or> starts_with (hd rest) ''---'')"

lemma hunk_body_render:
  assumes "list_all (\<lambda>(t, l). plain_line l \<and> \<not> (t = Delete \<and> starts_with l ''--'')) cs"
    and "ends_body rest"
  shows "hunk_body (marked cs @ rest) = (removed cs, added cs, rest)"
  using assms(1)
proof (induction cs)
  case Nil
  then show ?case using assms(2) by (cases rest) (auto simp: ends_body_def removed_def added_def)
next
  case (Cons c cs)
  obtain t l where c: "c = (t, l)" by force
  show ?case using Cons c by (cases t) (auto simp: removed_def added_def)
qed

lemma digits_plain: "list_all is_ascii_digit w \<Longrightarrow> list_all plain_char w"
  by (auto simp: list_all_iff is_ascii_digit_def plain_char_def ws1_def)

lemma range_word_plain: "plain_char c \<Longrightarrow> range_word c s n \<noteq> [] \<and> list_all plain_char (range_word c s n)"
  using digits_plain [of "decimal s"] digits_plain [of "decimal n"]
  by (simp add: range_word_def plain_char_def byte_def ws1_def)

lemma header_parts:
  "split_whitespace (hunk_header (s, s', cs))
    = [''@@'', range_word (CHR ''-'') s (length (removed cs)), range_word (CHR ''+'') s' (length (added cs)), ''@@'']"
  unfolding hunk_header_def prod.case
  by (rule split_whitespace_join) (use range_word_plain in \<open>simp add: plain_char_def byte_def ws1_def\<close>)

lemma digits_no_char: "\<not> is_ascii_digit c \<Longrightarrow> c \<notin> set (decimal n)"
  using decimal_digits [of n] by (auto simp: list_all_iff)

lemma range_start:
  "s < 2 ^ 64 \<Longrightarrow>
     parse_usize (hd (split_on (CHR '','') (or_else (strip_prefix (range_word (CHR ''-'') s n) ''-'') w))) = Some s"
  using digits_no_char [of "CHR '',''" s]
  by (simp add: range_word_def or_else_def strip_prefix_def is_ascii_digit_def byte_def
      split_on_append split_on_no_sep parse_usize_decimal)

lemma parse_hunk_render:
  assumes "script_ok h" and "ends_body rest"
  shows "parse_hunk (hunk_header h) (marked (snd (snd h)) @ rest)
    = (Some (hunk_of h), rest)"
proof -
  obtain s s' cs where h: "h = (s, s', cs)" by (cases h)
  show ?thesis
    using assms hunk_body_render [OF _ assms(2), of cs] range_start [of s "length (removed cs)"]
    by (simp add: h parse_hunk_def header_parts hunk_of_def script_ok_def Let_def or_else_def)
qed

lemma header_start: "starts_with (hunk_header h) ''@@''"
  by (simp add: hunk_header_def split: prod.split)

lemma render_ends: "ends_body (concat (map render_hunk hs))"
  by (cases hs) (simp_all add: ends_body_def render_hunk_def header_start)

lemma render_Cons:
  "concat (map render_hunk (h # hs))
    = hunk_header h # marked (snd (snd h)) @ concat (map render_hunk hs)"
  by (simp add: render_hunk_def)

lemma parse_hunks_render:
  "list_all script_ok hs \<Longrightarrow> parse_hunks (concat (map render_hunk hs)) = (map hunk_of hs, [])"
proof (induction hs)
  case (Cons h hs)
  have "\<not> starts_with (hunk_header h) ''---''"
    using header_start [of h] by (cases "hunk_header h") auto
  then show ?case
    using Cons header_start [of h] parse_hunk_render [OF _ render_ends, of h hs]
    unfolding render_Cons by simp
qed simp

definition path_ok :: "rstr \<Rightarrow> bool" where
  "path_ok p = (plain_line p \<and> CHR 0x09 \<notin> set p)"

lemma parse_render:
  assumes "list_all script_ok hs" and "hs \<noteq> []" and "path_ok path"
  shows "parse_patch (render_patch path hs)
    = [\<lparr>patch_path = path, hunks = map hunk_of hs, is_new = False, is_delete = False\<rparr>]"
  using assms
  by (simp add: render_patch_def parse_hunks_render header_file_def strip_prefix_def or_else_def
      path_ok_def split_on_no_sep Let_def)

lemma no_breaks: "list_all plain_char w \<Longrightarrow> CHR 0x0A \<notin> set w"
  by (auto simp: list_all_iff plain_char_def byte_def ws1_def)

lemma header_plain: "plain_line (hunk_header h)"
proof -
  have "list_all plain_char (range_word c s n)" if "c \<in> {CHR ''-'', CHR ''+''}" for c s n
    using that range_word_plain [of c s n] by (auto simp: plain_char_def byte_def ws1_def)
  then show ?thesis
    by (auto simp: hunk_header_def plain_line_def no_breaks dest: no_breaks split: prod.split)
qed

lemma render_plain:
  assumes "list_all script_ok hs" and "path_ok path"
  shows "list_all plain_line (render_patch path hs)"
proof -
  have "list_all plain_line (render_hunk h)" if "script_ok h" for h
    using that header_plain marked_plain [of "snd (snd h)"]
    by (fastforce simp: render_hunk_def script_ok_def list_all_iff)
  then have "list_all plain_line (concat (map render_hunk hs))"
    using assms(1) by (induction hs) simp_all
  then show ?thesis using assms(2) by (simp add: render_patch_def path_ok_def plain_line_Cons)
qed

section \<open>Applying what was read\<close>

definition hunk_range :: "hunk \<Rightarrow> replacement" where
  "hunk_range h = (old_start h - 1, length (old_lines h), new_lines h)"

interpretation hunks: range_editor splice_hunk hunk_range
  by unfold_locales (auto simp: splice_hunk_def hunk_range_def Let_def min_def)

lemma patched_range:
  assumes "patched n hs ls = Some new" and "list_all (\<lambda>h. removed (snd (snd h)) \<noteq> []) hs"
  shows "in_order n (n + length ls) (map hunk_range (map hunk_of hs))
    \<and> spliced n (map hunk_range (map hunk_of hs)) ls = new"
  using assms
proof (induction hs arbitrary: n ls new)
  case (Cons h hs)
  obtain s s' cs where h: "h = (s, s', cs)" by (cases h)
  let ?k = "length (removed cs)" and ?j = "s - 1 - n"
  have pos: "lines_before s cs = s - 1" using Cons.prems(2) h by (simp add: lines_before_def)
  with Cons.prems(1) h obtain r where fits: "n \<le> s - 1" "?j + ?k \<le> length ls"
    and r: "patched (s - 1 + ?k) hs (drop (?j + ?k) ls) = Some r" and new: "new = take ?j ls @ added cs @ r"
    by (auto simp: Let_def split: if_splits)
  have "s - 1 + ?k + length (drop (?j + ?k) ls) = n + length ls" and "s - 1 + ?k - n = ?j + ?k"
    using fits by simp_all
  then show ?case
    using Cons.IH [OF r] Cons.prems(2) fits(1) new by (simp add: h hunk_range_def hunk_of_def)
qed simp



definition same_shape :: "hunk \<Rightarrow> hunk \<Rightarrow> bool" where
  "same_shape h h' =
     (old_start h = old_start h' \<and> length (old_lines h) = length (old_lines h')
      \<and> new_lines h = new_lines h')"

lemma same_shape_splice: "same_shape h h' \<Longrightarrow> splice_hunk h = splice_hunk h'"
  unfolding splice_hunk_def same_shape_def by metis

lemma same_shape_splice_all:
  "list_all2 same_shape hs hs' \<Longrightarrow> apply_each splice_hunk hs ls = apply_each splice_hunk hs' ls"
  by (induction arbitrary: ls rule: list_all2_induct)
     (simp_all add: same_shape_splice split: option.split)

text \<open>
  The tool never compares the lines a hunk removes with the file: two patches that agree
  on the first lines, on how many lines they remove and on the lines they add do the same to
  any file, whatever the removed lines are.
\<close>

theorem removed_lines_unchecked:
  assumes "list_all2 same_shape hs hs'"
  shows "apply_patch_with_diff e \<lparr>patch_path = p, hunks = hs, is_new = n, is_delete = d\<rparr> path fs
    = apply_patch_with_diff e \<lparr>patch_path = p, hunks = hs', is_new = n, is_delete = d\<rparr> path fs"
proof -
  have "apply_each splice_hunk (rev hs) ls = apply_each splice_hunk (rev hs') ls" for ls
    using assms by (intro same_shape_splice_all) simp
  moreover have "map old_start hs = map old_start hs'" and "map new_lines hs = map new_lines hs'"
    using assms by (induction rule: list_all2_induct) (simp_all add: same_shape_def)
  moreover have "length hs = length hs'" using assms by (rule list_all2_lengthD)
  ultimately show ?thesis
    by (simp add: apply_patch_with_diff_def create_patched_def first_line_def Let_def split: option.split)
qed

theorem removed_lines_unchecked_witness:
  "apply_patch_with_diff open_env \<lparr>patch_path = ''f'',
       hunks = [\<lparr>old_start = 1, old_lines = [''a''], new_lines = [''x'']\<rparr>], is_new = False, is_delete = False\<rparr>
     ''/p/f'' [''/p/f'' \<mapsto> Text_File (unlines [''a''])]
   = apply_patch_with_diff open_env \<lparr>patch_path = ''f'',
       hunks = [\<lparr>old_start = 1, old_lines = [''z''], new_lines = [''x'']\<rparr>], is_new = False, is_delete = False\<rparr>
     ''/p/f'' [''/p/f'' \<mapsto> Text_File (unlines [''a''])]"
  by (rule removed_lines_unchecked) (simp add: same_shape_def)

text \<open>
  A hunk that starts more than one line behind the end of the file makes the tool panic,
  and this is the only way a patch of one hunk can.
\<close>

theorem hunk_past_end_panics:
  assumes "fs path = Some (Text_File content)"
  shows "fst (apply_patch_with_diff e \<lparr>patch_path = p, hunks = [h], is_new = False, is_delete = False\<rparr> path fs)
      = Panicked
    \<longleftrightarrow> length (str_lines content) + 1 < old_start h"
  using assms
  by (auto simp: apply_patch_with_diff_def path_exists_def splice_hunk_def Let_def split: option.split)

theorem hunk_past_end_panics_witness:
  "fst (apply_patch_with_diff open_env \<lparr>patch_path = ''f'',
       hunks = [\<lparr>old_start = 3, old_lines = [''b''], new_lines = []\<rparr>], is_new = False, is_delete = False\<rparr>
     ''/p/f'' [''/p/f'' \<mapsto> Text_File (unlines [''a''])])
   = Panicked"
proof -
  have "[''/p/f'' \<mapsto> Text_File (unlines [''a''])] ''/p/f'' = Some (Text_File (unlines [''a'']))" by simp
  from hunk_past_end_panics [of "[''/p/f'' \<mapsto> Text_File (unlines [''a''])]", OF this,
      of open_env "''f''" "\<lparr>old_start = 3, old_lines = [''b''], new_lines = []\<rparr>"]
  show ?thesis by (simp add: str_lines_def)
qed

text \<open>
  A hunk that only adds lines is applied one line too early. In a unified difference its
  first number is the line after which the lines come; the tool puts them before that line.
\<close>

theorem insertion_one_line_early:
  assumes "removed cs = []" and "0 < s" and "s \<le> length ls"
    and "fs path = Some (Text_File (unlines ls))" and "list_all plain_line ls" and "may_write e path"
  shows "snd (apply_patch_with_diff e \<lparr>patch_path = p, hunks = [hunk_of (s, s', cs)],
      is_new = False, is_delete = False\<rparr> path fs) path
    = Some (Text_File (unlines (take (s - 1) ls @ added cs @ drop (s - 1) ls)))"
proof -
  let ?new = "take (s - 1) ls @ added cs @ drop (s - 1) ls"
  have "length ?new = length ls + length (added cs)" using assms(3) by simp
  then have "?new \<noteq> []" using assms(2,3) by (metis add_is_0 le_zero_eq length_0_conv less_numeral_extra(3))
  then have "join [CHR 0x0A] ?new @ [CHR 0x0A] = unlines ?new" by (rule join_unlines)
  moreover have "splice_hunk (hunk_of (s, s', cs)) ls = Some ?new"
    using assms(1-3) by (simp add: splice_hunk_def hunk_of_def Let_def)
  ultimately show ?thesis
    using assms(4-6) by (simp add: apply_patch_with_diff_def path_exists_def str_lines_unlines
        write_file_def Let_def del: append_assoc)
qed

theorem insertion_one_line_early_witness:
  "snd (apply_patch_with_diff open_env \<lparr>patch_path = ''f'', hunks = [hunk_of (1, 2, [(Insert, ''x'')])],
      is_new = False, is_delete = False\<rparr> ''/p/f'' [''/p/f'' \<mapsto> Text_File (unlines [''a'', ''b''])]) ''/p/f''
    = Some (Text_File (unlines [''x'', ''a'', ''b'']))"
  using insertion_one_line_early [of "[(Insert, ''x'')]" 1 "[''a'', ''b'']"
      "[''/p/f'' \<mapsto> Text_File (unlines [''a'', ''b''])]" "''/p/f''" open_env "''f''" 2]
  by (simp add: removed_def added_def plain_line_def open_env_def)

lemma skips_script:
  assumes "list_all (\<lambda>(t, l). plain_line l \<and> \<not> (t = Delete \<and> starts_with l ''--'')) cs"
  shows "parse_patch (marked cs) = []"
  using assms
proof (induction cs)
  case (Cons c cs)
  obtain t l where c: "c = (t, l)" by force
  show ?case using Cons c by (cases t) auto
qed simp

text \<open>
  A removed line that starts with two dashes (a comment in SQL, Lua or Haskell) ends its
  hunk: with its mark it is taken for the header of the next file. The hunk is applied without
  it and without everything after it, and the reply reports success.
\<close>

theorem dashed_removal_ends_hunk:
  assumes "script_ok (s, s', before)" and "script_ok (s, s', after)" and "path_ok path"
    and "starts_with l ''--''"
    and "case after of (Insert, a) # _ \<Rightarrow> \<not> starts_with a ''++'' | _ \<Rightarrow> True"
  shows "map hunks (parse_patch (render_patch path [(s, s', before @ (Delete, l) # after)]))
    = [[\<lparr>old_start = s, old_lines = removed before, new_lines = added before\<rparr>]]"
proof -
  let ?rest = "(CHR ''-'' # l) # marked after"
  let ?h = "(s, s', before @ (Delete, l) # after)"
  have dash: "starts_with (CHR ''-'' # l) ''---''" using assms(4) by simp
  have body: "hunk_body (marked before @ ?rest) = (removed before, added before, ?rest)"
    using assms(1) dash by (intro hunk_body_render) (simp_all add: script_ok_def ends_body_def)
  have "s < 2 ^ 64" using assms(1) by (simp add: script_ok_def)
  then have "parse_hunk (hunk_header ?h) (marked before @ ?rest)
      = (Some \<lparr>old_start = s, old_lines = removed before, new_lines = added before\<rparr>, ?rest)"
    using body range_start [of s]
    by (simp add: parse_hunk_def header_parts Let_def or_else_def)
  moreover have "\<not> starts_with (hunk_header ?h) ''---''"
    using header_start [of ?h] by (cases "hunk_header ?h") auto
  ultimately have "parse_hunks (render_hunk ?h)
      = ([\<lparr>old_start = s, old_lines = removed before, new_lines = added before\<rparr>], ?rest)"
    using header_start [of ?h] dash by (simp add: render_hunk_def)
  moreover have "parse_patch ?rest = []"
  proof -
    have "\<not> starts_with (mark_of t # a) ''+++''" if "after = (t, a) # as" for t a as
      using assms(5) that by (cases t) auto
    then have "after = [] \<or> \<not> starts_with (hd (marked after)) ''+++''"
      by (cases after) auto
    moreover have "parse_patch (marked after) = []"
      using assms(2) by (intro skips_script) (simp add: script_ok_def)
    ultimately show ?thesis by (cases "after = []") simp_all
  qed
  ultimately show ?thesis
    using assms(3) by (simp add: render_patch_def header_file_def strip_prefix_def or_else_def
        path_ok_def split_on_no_sep Let_def)
qed

theorem dashed_removal_ends_hunk_witness:
  "map hunks (parse_patch (render_patch ''q.sql''
      [(1, 1, [(Equal, ''select 1;'')] @ (Delete, ''-- old'') # [(Delete, ''select 2;''), (Insert, ''select 3;'')])]))
    = [[\<lparr>old_start = 1, old_lines = removed [(Equal, ''select 1;'')], new_lines = added [(Equal, ''select 1;'')]\<rparr>]]"
  by (rule dashed_removal_ends_hunk) (simp_all add: script_ok_def path_ok_def plain_line_def)

text \<open>
  A patch to the null device deletes whatever file it names, without asking whether the
  path is one that must never be destroyed.
\<close>

theorem patch_deletes_any_path:
  assumes "path_ok path" and "path \<noteq> ''/dev/null''" and "strip_prefix path ''a/'' = None"
    and "fs (resolve_path e path) = Some (Text_File content)" and "may_remove e (resolve_path e path)"
  shows "patch_execute e (unlines [''--- '' @ path, ''+++ /dev/null'']) fs
    = (Some [(path, Changed ''deleted'' (diff_from e content [] 1))], fs(resolve_path e path := None))"
proof -
  have "str_lines (unlines [''--- '' @ path, ''+++ /dev/null'']) = [''--- '' @ path, ''+++ /dev/null'']"
    using assms(1) by (intro str_lines_unlines) (auto simp: path_ok_def plain_line_def)
  moreover have "header_file ''--- '' (''--- '' @ path) = path"
    using assms(1) by (simp add: header_file_def strip_prefix_def or_else_def path_ok_def split_on_no_sep)
  moreover have "header_file ''+++ '' ''+++ /dev/null'' = ''/dev/null''" by code_simp
  ultimately show ?thesis
    using assms(2-5) by (simp add: patch_execute_def or_else_def Let_def apply_patch_with_diff_def
        delete_patched_def path_exists_def remove_file_def)
qed

theorem patch_deletes_any_path_witness:
  "is_catastrophic_target (resolve_path open_env ''/home/u/.ssh/id'') (tool_risk_context open_env)
   \<and> patch_execute open_env (unlines [''--- '' @ ''/home/u/.ssh/id'', ''+++ /dev/null''])
       [''/home/u/.ssh/id'' \<mapsto> Text_File ''key'']
     = (Some [(''/home/u/.ssh/id'', Changed ''deleted'' (diff_from open_env ''key'' [] 1))],
        [''/home/u/.ssh/id'' \<mapsto> Text_File ''key''](''/home/u/.ssh/id'' := None))"
proof -
  let ?p = "''/home/u/.ssh/id''"
  have path: "resolve_path open_env ?p = ?p" by code_simp
  have "is_catastrophic_target (resolve_path open_env ?p) (tool_risk_context open_env)" by code_simp
  moreover have "path_ok ?p" "strip_prefix ?p ''a/'' = None" by code_simp+
  ultimately show ?thesis
    using patch_deletes_any_path [of ?p "[?p \<mapsto> Text_File ''key'']" open_env "''key''"]
    by (simp add: path) (simp add: open_env_def)
qed

text \<open>
  The difference shown after a change is numbered from the first line of the first hunk
  although it covers the whole file: a removed line behind \<open>n\<close> unchanged ones, line
  \<open>n + 1\<close> of the file, is shown as line \<open>first_line + n\<close>.
\<close>

lemma diff_numbers_shifted:
  assumes "trim (trim_end_chars {CHR 0x0A} v) \<noteq> []"
  shows "diff_truncated 0 k k (map (Pair Equal) ls @ (Delete, v) # cs)
    = numbered (k + length ls) ''-'' (trim_end_chars {CHR 0x0A} v)
      @ diff_truncated 1 (k + length ls + 1) (k + length ls) cs"
proof -
  have "diff_truncated 0 a b (map (Pair Equal) ls @ cs') = diff_truncated 0 (a + length ls) (b + length ls) cs'"
    for a b cs' by (induction ls arbitrary: a b) (simp_all add: DIFF_MAX_LINES_def)
  then show ?thesis using assms by (simp add: DIFF_MAX_LINES_def)
qed

end
