(* ===== verification/Apply_Patch.thy ===== *)
theory Apply_Patch
  imports Tool_Files
begin

text \<open>
  The tool for patches in the format of Codex,
  \<open>crates/kcode-app-core/src/tool/apply_patch.rs\<close>: its parser, the search for the lines a
  chunk names, the replacements, and what a patch does to the files. An index into the lines
  of the patch is what is left to read of them.
\<close>

record chunk =
  change_context :: "rstr option"
  chunk_old :: "rstr list"
  chunk_new :: "rstr list"
  is_end_of_file :: bool

datatype patch_hunk =
  AddFile rstr rstr
| DeleteFile rstr
| UpdateFile rstr "rstr option" "chunk list"

section \<open>The parser\<close>

datatype parse_error = No_Begin | No_Directives | No_Changes rstr

text \<open>The lines after an \<open>Add File\<close> header: the text added, and what follows.\<close>

fun added_contents :: "rstr list \<Rightarrow> rstr \<times> rstr list" where
  "added_contents [] = ([], [])"
| "added_contents (l # ls) =
     (if starts_with l ''*** '' then ([], l # ls)
      else (case added_contents ls of (s, rest) \<Rightarrow>
        (case l of
           c # w \<Rightarrow> if c = CHR ''+'' then (w @ CHR 0x0A # s, rest) else (s, rest)
         | [] \<Rightarrow> (s, rest))))"

lemma added_contents_shorter: "added_contents ls = (s, rest) \<Longrightarrow> length rest \<le> length ls"
  by (induction ls arbitrary: s rest) (fastforce split: if_splits list.splits prod.splits)+

text \<open>
  The lines of one chunk: the loop's state is the old lines, the new lines and whether a line
  of the difference was seen; the result adds whether the end of the file was marked.
\<close>

fun chunk_lines ::
  "rstr list \<times> rstr list \<times> bool \<Rightarrow> rstr list \<Rightarrow> (rstr list \<times> rstr list \<times> bool) \<times> bool \<times> rstr list" where
  "chunk_lines s [] = (s, False, [])"
| "chunk_lines (old, new, had) (l # ls) =
     (if l = ''*** End of File'' then ((old, new, had), True, ls)
      else if starts_with l ''*** '' \<or> starts_with l ''@@'' then ((old, new, had), False, l # ls)
      else (case l of
        [] \<Rightarrow> chunk_lines (old @ [[]], new @ [[]], True) ls
      | c # w \<Rightarrow>
          if c = CHR '' '' then chunk_lines (old @ [w], new @ [w], True) ls
          else if c = CHR ''+'' then chunk_lines (old, new @ [w], True) ls
          else if c = CHR ''-'' then chunk_lines (old @ [w], new, True) ls
          else if had then ((old, new, had), False, l # ls)
          else chunk_lines (old, new, had) ls))"

lemma chunk_lines_shorter: "chunk_lines s ls = (s', eof, rest) \<Longrightarrow> length rest \<le> length ls"
  by (induction s ls arbitrary: s' eof rest rule: chunk_lines.induct)
     (fastforce split: if_splits list.splits)+

text \<open>
  What the line in front of a chunk says: no chunk starts here, the header stands on a line
  of its own (with the context it gives), or the chunk's lines start at once.
\<close>

datatype chunk_head = No_Chunk | Own_Line "rstr option" | At_Once

definition chunk_head_of :: "bool \<Rightarrow> rstr \<Rightarrow> chunk_head" where
  "chunk_head_of is_first cur =
     (if cur = ''@@'' then Own_Line None
      else (case strip_prefix cur ''@@ '' of
              Some ctx \<Rightarrow> Own_Line (Some ctx)
            | None \<Rightarrow> if is_first then At_Once else No_Chunk))"

definition skipped_blank :: "rstr \<Rightarrow> bool" where
  "skipped_blank cur =
     (trim cur = [] \<and> \<not> starts_with cur '' '' \<and> \<not> starts_with cur ''+''
      \<and> \<not> starts_with cur ''-'')"

definition made_chunk :: "rstr option \<Rightarrow> (rstr list \<times> rstr list \<times> bool) \<Rightarrow> bool \<Rightarrow> chunk list" where
  "made_chunk ctx s eof =
     (case s of (old, new, had) \<Rightarrow>
        if had \<or> ctx \<noteq> None
        then [\<lparr>change_context = ctx, chunk_old = old, chunk_new = new, is_end_of_file = eof\<rparr>]
        else [])"

text \<open>
  The chunks of a file: the first chunk needs no header. A pass that starts at once and reads
  nothing leaves the line to a second pass, where it is not the first chunk any more.
\<close>

function parse_chunks :: "bool \<Rightarrow> rstr list \<Rightarrow> chunk list \<times> rstr list" where
  "parse_chunks is_first [] = ([], [])"
| "parse_chunks is_first (l # ls) =
     (let cur = trim_end l
      in if starts_with cur ''*** '' \<and> cur \<noteq> ''*** End of File'' then ([], l # ls)
         else if skipped_blank cur then parse_chunks is_first ls
         else (case chunk_head_of is_first cur of
           No_Chunk \<Rightarrow> ([], l # ls)
         | Own_Line ctx \<Rightarrow>
             (case chunk_lines ([], [], False) ls of (s, eof, rest) \<Rightarrow>
               (case parse_chunks False rest of (cs, rest') \<Rightarrow> (made_chunk ctx s eof @ cs, rest')))
         | At_Once \<Rightarrow>
             (case chunk_lines ([], [], False) (l # ls) of (s, eof, rest) \<Rightarrow>
               (case parse_chunks False rest of (cs, rest') \<Rightarrow> (made_chunk None s eof @ cs, rest')))))"
  by pat_completeness auto
termination
  by (relation "measures [\<lambda>(b, ls). length ls, \<lambda>(b, ls). if b then 1 else 0]")
     (auto simp: chunk_head_of_def le_less less_Suc_eq_le simp del: chunk_lines.simps
       split: if_splits option.splits dest!: chunk_lines_shorter [OF sym])

lemma parse_chunks_shorter: "parse_chunks b ls = (cs, rest) \<Longrightarrow> length rest \<le> length ls"
proof (induction b ls arbitrary: cs rest rule: parse_chunks.induct)
  case (2 b l ls)
  let ?cur = "trim_end l"
  show ?case
  proof (cases "starts_with ?cur ''*** '' \<and> ?cur \<noteq> ''*** End of File''")
    case True
    then show ?thesis using "2.prems" by simp
  next
    case going: False
    show ?thesis
    proof (cases "skipped_blank ?cur")
      case True
      then have "parse_chunks b ls = (cs, rest)" using "2.prems" going by (simp add: Let_def)
      from "2.IH"(1) [OF refl going True this] show ?thesis by simp
    next
      case line: False
      obtain s eof r where r: "chunk_lines ([], [], False) ls = (s, eof, r)" by (metis prod_cases3)
      obtain s2 eof2 r2 where r2: "chunk_lines ([], [], False) (l # ls) = (s2, eof2, r2)" by (metis prod_cases3)
      obtain cs1 rest1 where c1: "parse_chunks False r = (cs1, rest1)" by force
      obtain cs2 rest2 where c2: "parse_chunks False r2 = (cs2, rest2)" by force
      show ?thesis
      proof (cases "chunk_head_of b ?cur")
        case No_Chunk
        then show ?thesis using "2.prems" going line by (simp add: Let_def)
      next
        case (Own_Line ctx)
        have "length rest1 \<le> length r" using "2.IH"(2) [OF refl going line Own_Line r [symmetric] refl c1] .
        moreover have "rest = rest1" using "2.prems" going line Own_Line r c1 by (simp add: Let_def)
        ultimately show ?thesis using chunk_lines_shorter [OF r] by simp
      next
        case At_Once
        have "length rest2 \<le> length r2" using "2.IH"(3) [OF refl going line At_Once r2 [symmetric] refl c2] .
        moreover have "rest = rest2"
          using "2.prems" going line At_Once r2 c2 by (simp add: Let_def del: chunk_lines.simps)
        ultimately show ?thesis using chunk_lines_shorter [OF r2] by simp
      qed
    qed
  qed
qed simp

text \<open>The lines between \<open>Begin Patch\<close> and \<open>End Patch\<close>.\<close>

function parse_directives :: "rstr list \<Rightarrow> parse_error + patch_hunk list" where
  "parse_directives [] = Inr []"
| "parse_directives (l # ls) =
     (let line = trim_end l
      in if trim line = ''*** End Patch'' then Inr []
         else (case strip_prefix line ''*** Add File: '' of
           Some p \<Rightarrow>
             (case added_contents ls of (s, rest) \<Rightarrow>
               map_sum id (Cons (AddFile (trim p) s)) (parse_directives rest))
         | None \<Rightarrow>
             (case strip_prefix line ''*** Delete File: '' of
               Some p \<Rightarrow> map_sum id (Cons (DeleteFile (trim p))) (parse_directives ls)
             | None \<Rightarrow>
                 (case strip_prefix line ''*** Update File: '' of
                   Some p \<Rightarrow>
                     (let move_to = (case ls of
                            [] \<Rightarrow> None
                          | m # _ \<Rightarrow> map_option trim (strip_prefix (trim_end m) ''*** Move to: ''));
                          ls' = (if move_to = None then ls else tl ls)
                      in case parse_chunks True ls' of (cs, rest) \<Rightarrow>
                           if cs = [] then Inl (No_Changes (trim p))
                           else map_sum id (Cons (UpdateFile (trim p) move_to cs)) (parse_directives rest))
                 | None \<Rightarrow> parse_directives ls))))"
  by pat_completeness auto
termination
  by (relation "measure length")
     (auto simp: less_Suc_eq_le simp del: added_contents.simps split: if_splits
       dest!: added_contents_shorter [OF sym] parse_chunks_shorter [OF sym] intro: le_trans)

definition parse_apply_patch :: "rstr \<Rightarrow> parse_error + patch_hunk list" where
  "parse_apply_patch input =
     (case dropWhile (\<lambda>l. trim l \<noteq> ''*** Begin Patch'') (str_lines input) of
        [] \<Rightarrow> Inl No_Begin
      | _ # ls \<Rightarrow>
          (case parse_directives ls of
             Inl err \<Rightarrow> Inl err
           | Inr hs \<Rightarrow> if hs = [] then Inl No_Directives else Inr hs))"

section \<open>Finding the lines\<close>

text \<open>The pattern stands at index \<open>i\<close>, up to what \<open>f\<close> ignores.\<close>

definition matches_at :: "(rstr \<Rightarrow> rstr) \<Rightarrow> rstr list \<Rightarrow> rstr list \<Rightarrow> nat \<Rightarrow> bool" where
  "matches_at f lines pattern i = (map f (take (length pattern) (drop i lines)) = map f pattern)"

definition seek_with :: "(rstr \<Rightarrow> rstr) \<Rightarrow> rstr list \<Rightarrow> rstr list \<Rightarrow> nat \<Rightarrow> nat option" where
  "seek_with f lines pattern start =
     find (matches_at f lines pattern) [start..<Suc (length lines - length pattern)]"

definition seek_sequence :: "rstr list \<Rightarrow> rstr list \<Rightarrow> nat \<Rightarrow> bool \<Rightarrow> nat option" where
  "seek_sequence lines pattern start eof =
     (if pattern = [] then Some start
      else if length lines < length pattern then None
      else (let search_start = (if eof then length lines - length pattern else start)
            in case seek_with (\<lambda>l. l) lines pattern search_start of
                 Some i \<Rightarrow> Some i
               | None \<Rightarrow>
                   (case seek_with trim_end lines pattern search_start of
                      Some i \<Rightarrow> Some i
                    | None \<Rightarrow> seek_with trim lines pattern search_start)))"

section \<open>Replacements\<close>

datatype update_error = Unreadable | Context_Missing rstr | Lines_Missing "rstr list"

definition drop_blank_end :: "rstr list \<Rightarrow> rstr list" where
  "drop_blank_end ls = (if ls \<noteq> [] \<and> last ls = [] then butlast ls else ls)"

definition insertion_index :: "rstr list \<Rightarrow> nat" where
  "insertion_index lines = length (drop_blank_end lines)"

text \<open>Where the old lines of a chunk are: their index, their number, and the new lines; a
  blank last line of the chunk is given up when it is in the way.\<close>

definition locate_chunk :: "rstr list \<Rightarrow> nat \<Rightarrow> chunk \<Rightarrow> replacement option" where
  "locate_chunk lines line_index c =
     (case seek_sequence lines (chunk_old c) line_index (is_end_of_file c) of
        Some i \<Rightarrow> Some (i, length (chunk_old c), chunk_new c)
      | None \<Rightarrow>
          if chunk_old c \<noteq> [] \<and> last (chunk_old c) = []
          then (case seek_sequence lines (butlast (chunk_old c)) line_index (is_end_of_file c) of
                  Some i \<Rightarrow> Some (i, length (butlast (chunk_old c)), drop_blank_end (chunk_new c))
                | None \<Rightarrow> None)
          else None)"

definition after_context :: "rstr list \<Rightarrow> nat \<Rightarrow> chunk \<Rightarrow> nat option" where
  "after_context lines line_index c =
     (case change_context c of
        None \<Rightarrow> Some line_index
      | Some ctx \<Rightarrow> map_option Suc (seek_sequence lines [ctx] line_index False))"

fun find_replacements ::
  "rstr list \<Rightarrow> nat \<Rightarrow> chunk list \<Rightarrow> update_error + replacement list" where
  "find_replacements lines line_index [] = Inr []"
| "find_replacements lines line_index (c # cs) =
     (case after_context lines line_index c of
        None \<Rightarrow> Inl (Context_Missing (the (change_context c)))
      | Some line_index \<Rightarrow>
          if chunk_old c = []
          then map_sum id (Cons (insertion_index lines, 0, chunk_new c))
                 (find_replacements lines line_index cs)
          else (case locate_chunk lines line_index c of
                  None \<Rightarrow> Inl (Lines_Missing (chunk_old c))
                | Some (i, n, new) \<Rightarrow>
                    map_sum id (Cons (i, n, new)) (find_replacements lines (i + n) cs)))"

definition compute_replacements :: "rstr list \<Rightarrow> chunk list \<Rightarrow> update_error + replacement list" where
  "compute_replacements lines cs = map_sum id (sort_key fst) (find_replacements lines 0 cs)"

text \<open>\<open>Vec::insert\<close> panics behind the end.\<close>

definition apply_replacement :: "replacement \<Rightarrow> rstr list \<Rightarrow> rstr list option" where
  "apply_replacement r lines =
     (case r of (start, n, new) \<Rightarrow>
        if length lines < start \<and> new \<noteq> [] then None
        else Some (take start lines @ new @ drop (start + n) lines))"

definition apply_replacements :: "rstr list \<Rightarrow> replacement list \<Rightarrow> rstr list option" where
  "apply_replacements lines rs = apply_each apply_replacement (rev rs) lines"

text \<open>The new text of a file, \<^const>\<open>None\<close> for a panic.\<close>

definition update_contents :: "rstr \<Rightarrow> chunk list \<Rightarrow> (update_error + rstr) option" where
  "update_contents original cs =
     (let lines = drop_blank_end (split_on (CHR 0x0A) original)
      in case compute_replacements lines cs of
           Inl err \<Rightarrow> Some (Inl err)
         | Inr rs \<Rightarrow>
             map_option
               (\<lambda>new. Inr (join [CHR 0x0A] (if new \<noteq> [] \<and> last new = [] then new else new @ [[]])))
               (apply_replacements lines rs))"

section \<open>Running a patch\<close>

datatype hunk_result =
  Created
| Deleted
| Protected
| Delete_Failed
| Modified nat
| Moved nat rstr
| Update_Failed update_error

record patch_run =
  run_files :: files
  run_results :: "(rstr \<times> hunk_result \<times> rstr) list"
  run_touched :: "rstr list"

datatype run_outcome = Going patch_run | Stopped_Io patch_run | Stopped_Panic patch_run

definition report :: "rstr \<Rightarrow> hunk_result \<Rightarrow> rstr \<Rightarrow> rstr list \<Rightarrow> files \<Rightarrow> patch_run \<Rightarrow> patch_run" where
  "report p res diff touched fs st =
     \<lparr>run_files = fs, run_results = run_results st @ [(p, res, diff)],
      run_touched = run_touched st @ touched\<rparr>"

definition run_add :: "tool_env \<Rightarrow> rstr \<Rightarrow> rstr \<Rightarrow> patch_run \<Rightarrow> run_outcome" where
  "run_add e p contents st =
     (case write_file e (resolve_path e p) contents (run_files st) of
        None \<Rightarrow> Stopped_Io st
      | Some fs \<Rightarrow> Going (report p Created (diff_from e [] contents 1) [p] fs st))"

definition run_delete :: "tool_env \<Rightarrow> rstr \<Rightarrow> patch_run \<Rightarrow> run_outcome" where
  "run_delete e p st =
     (let path = resolve_path e p
      in if is_catastrophic_target path (tool_risk_context e)
         then Going (report p Protected [] [] (run_files st) st)
         else (case remove_file e path (run_files st) of
           Some fs \<Rightarrow>
             (let old = (case read_to_string (run_files st) path of Some s \<Rightarrow> s | None \<Rightarrow> [])
              in Going (report p Deleted (diff_from e old [] 1) [p] fs st))
         | None \<Rightarrow> Going (report p Delete_Failed [] [] (run_files st) st)))"

definition run_move :: "tool_env \<Rightarrow> rstr \<Rightarrow> rstr \<Rightarrow> nat \<Rightarrow> rstr \<Rightarrow> rstr \<Rightarrow> patch_run \<Rightarrow> run_outcome" where
  "run_move e p dest n old new st =
     (case write_file e (resolve_path e dest) new (run_files st) of
        None \<Rightarrow> Stopped_Io st
      | Some fs \<Rightarrow>
          (let fs' = (case remove_file e (resolve_path e p) fs of Some fs' \<Rightarrow> fs' | None \<Rightarrow> fs)
           in Going (report p (Moved n dest) (diff_from e old new 1) [p, dest] fs' st)))"

definition run_update :: "tool_env \<Rightarrow> rstr \<Rightarrow> rstr option \<Rightarrow> chunk list \<Rightarrow> patch_run \<Rightarrow> run_outcome" where
  "run_update e p move_to cs st =
     (case read_to_string (run_files st) (resolve_path e p) of
        None \<Rightarrow> Going (report p (Update_Failed Unreadable) [] [] (run_files st) st)
      | Some old \<Rightarrow>
          (case update_contents old cs of
             None \<Rightarrow> Stopped_Panic st
           | Some (Inl err) \<Rightarrow> Going (report p (Update_Failed err) [] [] (run_files st) st)
           | Some (Inr new) \<Rightarrow>
               (case move_to of
                  Some dest \<Rightarrow> run_move e p dest (length cs) old new st
                | None \<Rightarrow>
                    (case write_file e (resolve_path e p) new (run_files st) of
                       None \<Rightarrow> Stopped_Io st
                     | Some fs \<Rightarrow>
                         Going (report p (Modified (length cs)) (diff_from e old new 1) [p] fs st)))))"

fun run_hunk :: "tool_env \<Rightarrow> patch_hunk \<Rightarrow> patch_run \<Rightarrow> run_outcome" where
  "run_hunk e (AddFile p contents) st = run_add e p contents st"
| "run_hunk e (DeleteFile p) st = run_delete e p st"
| "run_hunk e (UpdateFile p move_to cs) st = run_update e p move_to cs st"

fun run_hunks :: "tool_env \<Rightarrow> patch_hunk list \<Rightarrow> patch_run \<Rightarrow> run_outcome" where
  "run_hunks e [] st = Going st"
| "run_hunks e (h # hs) st =
     (case run_hunk e h st of Going st' \<Rightarrow> run_hunks e hs st' | stopped \<Rightarrow> stopped)"

definition apply_patch_execute :: "tool_env \<Rightarrow> rstr \<Rightarrow> files \<Rightarrow> parse_error + run_outcome" where
  "apply_patch_execute e patch_text fs =
     map_sum id (\<lambda>hs. run_hunks e hs \<lparr>run_files = fs, run_results = [], run_touched = []\<rparr>)
       (parse_apply_patch patch_text)"

end
