(* ===== verification/Apply_Patch_Properties.thy ===== *)
theory Apply_Patch_Properties
  imports Apply_Patch
begin

text \<open>
  What the patch tool does: where it finds a chunk, that an update is a substitution and never
  panics, that a patch is read back as it was written, what happens to protected files, and
  which lines are dropped.
\<close>

section \<open>Where a chunk is found\<close>

interpretation patches: range_editor apply_replacement "\<lambda>r. r"
  by unfold_locales (auto simp: apply_replacement_def split: prod.split)

text \<open>Equal lines, or equal up to white space at their ends, or at both sides.\<close>

definition alike :: "rstr list \<Rightarrow> rstr list \<Rightarrow> bool" where
  "alike xs ys = (xs = ys \<or> map trim_end xs = map trim_end ys \<or> map trim xs = map trim ys)"

lemma seek_with_Some:
  assumes "seek_with f lines pattern start = Some i" and "length pattern \<le> length lines"
  shows "start \<le> i \<and> i + length pattern \<le> length lines
    \<and> map f (take (length pattern) (drop i lines)) = map f pattern"
  using assms by (auto simp: seek_with_def find_Some_iff matches_at_def simp del: upt_Suc)

lemma seek_sequence_Some:
  assumes "seek_sequence lines pattern start eof = Some i" and "start \<le> length lines"
  shows "i + length pattern \<le> length lines \<and> alike (take (length pattern) (drop i lines)) pattern
    \<and> (\<not> eof \<longrightarrow> start \<le> i)"
  using assms
  by (auto simp: seek_sequence_def alike_def Let_def split: if_splits option.splits
      dest!: seek_with_Some)

text \<open>The replacement a chunk gives: its lines as they stand, or without a blank last one.\<close>

definition found :: "rstr list \<Rightarrow> chunk \<Rightarrow> replacement \<Rightarrow> bool" where
  "found lines c r = (case r of (i, n, new) \<Rightarrow>
     alike (take n (drop i lines)) (chunk_old c) \<and> n = length (chunk_old c) \<and> new = chunk_new c
     \<or> (\<exists>old. chunk_old c = old @ [[]] \<and> alike (take n (drop i lines)) old \<and> n = length old
          \<and> new = drop_blank_end (chunk_new c)))"

lemma locate_chunk_Some:
  assumes "locate_chunk lines k c = Some (i, n, new)" and "k \<le> length lines"
  shows "i + n \<le> length lines \<and> found lines c (i, n, new) \<and> (\<not> is_end_of_file c \<longrightarrow> k \<le> i)"
proof (cases "seek_sequence lines (chunk_old c) k (is_end_of_file c)")
  case None
  with assms(1) have end_blank: "chunk_old c \<noteq> []" "last (chunk_old c) = []"
    and seek: "seek_sequence lines (butlast (chunk_old c)) k (is_end_of_file c) = Some i"
    and new: "n = length (butlast (chunk_old c))" "new = drop_blank_end (chunk_new c)"
    by (auto simp: locate_chunk_def split: if_splits option.splits)
  from end_blank have old: "chunk_old c = butlast (chunk_old c) @ [[]]"
    by (metis append_butlast_last_id)
  from seek_sequence_Some [OF seek assms(2)] show ?thesis
    using old new unfolding found_def by auto
next
  case (Some j)
  then show ?thesis
    using seek_sequence_Some [OF Some assms(2)] assms(1) by (auto simp: locate_chunk_def found_def)
qed

lemma after_context_Some:
  "after_context lines k c = Some j \<Longrightarrow> k \<le> length lines \<Longrightarrow> k \<le> j \<and> j \<le> length lines"
  by (auto simp: after_context_def split: option.splits dest!: seek_sequence_Some)

lemma insertion_index_le: "insertion_index lines \<le> length lines"
  by (simp add: insertion_index_def drop_blank_end_def)

text \<open>Every replacement starts within the text.\<close>

lemma find_replacements_within:
  "find_replacements lines k cs = Inr rs \<Longrightarrow> k \<le> length lines \<Longrightarrow> \<forall>r \<in> set rs. fst r \<le> length lines"
proof (induction lines k cs arbitrary: rs rule: find_replacements.induct)
  case (2 lines k c cs)
  then obtain j where j: "after_context lines k c = Some j" "j \<le> length lines"
    using after_context_Some by (cases "after_context lines k c") auto
  show ?case
  proof (cases "chunk_old c = []")
    case True
    then show ?thesis
      using "2.prems" "2.IH"(1) [OF j(1) True] j insertion_index_le
      by (cases "find_replacements lines j cs") auto
  next
    case False
    then obtain i n new where l: "locate_chunk lines j c = Some (i, n, new)"
      using "2.prems" j by (cases "locate_chunk lines j c") auto
    then show ?thesis
      using "2.prems" "2.IH"(2) [OF j(1) False l refl refl] j(1) False locate_chunk_Some [OF l j(2)]
      by (cases "find_replacements lines (i + n) cs") auto
  qed
qed simp

lemma apply_each_down:
  "sorted (rev (map fst rs)) \<Longrightarrow> \<forall>r \<in> set rs. fst r \<le> length ls \<Longrightarrow>
     apply_each apply_replacement rs ls \<noteq> None"
proof (induction rs arbitrary: ls)
  case (Cons r rs)
  obtain i n new where r: "r = (i, n, new)" by (cases r)
  have "apply_replacement r ls = Some (replace_at r ls)"
    using Cons.prems(2) by (intro patches.step_range) simp
  moreover have "\<forall>s \<in> set rs. fst s \<le> length (replace_at r ls)"
    using Cons.prems r by (force simp: sorted_append)
  ultimately show ?case using Cons by (simp add: sorted_append)
qed simp

text \<open>
  C40: Working out the new text of a file never panics, whatever the patch and the text are:
  every index the search returns is within the text, and applying from the last replacement
  to the first keeps it there, even when replacements overlap.
\<close>

theorem update_never_panics: "update_contents original cs \<noteq> None"
proof -
  have "apply_replacements lines (sort_key fst rs) \<noteq> None" if "find_replacements lines 0 cs = Inr rs" for lines rs
    unfolding apply_replacements_def
    using find_replacements_within [OF that] by (intro apply_each_down) (simp_all flip: rev_map)
  then show ?thesis
    by (cases "find_replacements (drop_blank_end (split_on (CHR 0x0A) original)) 0 cs")
       (simp_all add: update_contents_def compute_replacements_def Let_def)
qed

section \<open>An update is a substitution\<close>

lemma find_replacements_in_order:
  assumes "find_replacements lines k cs = Inr rs" and "k \<le> length lines"
    and "list_all (\<lambda>c. \<not> is_end_of_file c \<and> chunk_old c \<noteq> []) cs"
  shows "in_order k (length lines) rs \<and> list_all2 (found lines) cs rs"
  using assms
proof (induction lines k cs arbitrary: rs rule: find_replacements.induct)
  case (2 lines k c cs)
  then obtain j where j: "after_context lines k c = Some j" "k \<le> j" "j \<le> length lines"
    using after_context_Some by (cases "after_context lines k c") auto
  have False: "chunk_old c \<noteq> []" using "2.prems" by simp
  then obtain i n new where l: "locate_chunk lines j c = Some (i, n, new)"
    using "2.prems" j by (cases "locate_chunk lines j c") auto
  then obtain rs' where rs: "find_replacements lines (i + n) cs = Inr rs'" "rs = (i, n, new) # rs'"
    using "2.prems" j(1) False by (cases "find_replacements lines (i + n) cs") auto
  show ?case
    using "2.IH"(2) [OF j(1) False l refl refl rs(1)] "2.prems" rs(2) j(2) locate_chunk_Some [OF l j(3)]
    by simp
qed simp

text \<open>
  C11: An update that succeeds is a substitution. Reading the file from top to bottom, each
  chunk stands for one range of lines, after the range of the chunk before it; the range has
  the chunk's old lines, at most up to white space around them (or all but a blank last one);
  the new text has the chunk's new lines there and every other line as it was. (Chunks that
  only add lines, or are tied to the end of the file, apart.) A blank line at the end of the
  result is lost.
\<close>

theorem update_is_substitution:
  assumes "update_contents original cs = Some (Inr new_text)"
    and "list_all (\<lambda>c. \<not> is_end_of_file c \<and> chunk_old c \<noteq> []) cs"
  shows "\<exists>rs. let lines = drop_blank_end (split_on (CHR 0x0A) original)
    in in_order 0 (length lines) rs \<and> list_all2 (found lines) cs rs
       \<and> new_text = unlines (drop_blank_end (spliced 0 rs lines))"
proof -
  let ?lines = "drop_blank_end (split_on (CHR 0x0A) original)"
  obtain rs where rs: "find_replacements ?lines 0 cs = Inr rs"
    using assms(1) by (cases "find_replacements ?lines 0 cs")
      (simp_all add: update_contents_def compute_replacements_def Let_def)
  have order: "in_order 0 (length ?lines) rs" "list_all2 (found ?lines) cs rs"
    using find_replacements_in_order [OF rs _ assms(2)] by simp_all
  have "sort_key fst rs = rs"
    using in_order_sorted [OF order(1)] by (simp add: sorted_sort_id sort_key_id_if_sorted)
  moreover have "apply_replacements ?lines rs = Some (spliced 0 rs ?lines)"
    using patches.apply_reversed [of ?lines rs] order(1) by (simp add: apply_replacements_def)
  moreover have "join [CHR 0x0A] (if ls \<noteq> [] \<and> last ls = [] then ls else ls @ [[]])
      = unlines (drop_blank_end ls)" for ls :: "rstr list"
    using join_blank_end [of "butlast ls"] join_blank_end [of ls]
    by (auto simp: drop_blank_end_def) (metis append_butlast_last_id)
  ultimately have "new_text = unlines (drop_blank_end (spliced 0 rs ?lines))"
    using assms(1) rs by (simp add: update_contents_def compute_replacements_def Let_def)
  then show ?thesis using order by (auto simp: Let_def)
qed

theorem update_is_substitution_witness:
  "\<exists>rs. list_all2 (found [''a'', ''b '', ''c'']) [\<lparr>change_context = None, chunk_old = [''b''],
        chunk_new = [''x'', ''y''], is_end_of_file = False\<rparr>] rs
     \<and> unlines [''a'', ''x'', ''y'', ''c''] = unlines (drop_blank_end (spliced 0 rs [''a'', ''b '', ''c'']))"
proof -
  let ?c = "\<lparr>change_context = None, chunk_old = [''b''], chunk_new = [''x'', ''y''], is_end_of_file = False\<rparr>"
  have "update_contents (unlines [''a'', ''b '', ''c'']) [?c] = Some (Inr (unlines [''a'', ''x'', ''y'', ''c'']))"
    by code_simp
  from update_is_substitution [OF this] show ?thesis
    by (auto simp: split_on_unlines drop_blank_end_def Let_def)
qed

section \<open>Reading a patch back\<close>

text \<open>A patch as a model writes it: the chunks by their marked lines.\<close>

type_synonym chunk_script = "rstr option \<times> (change_tag \<times> rstr) list \<times> bool"

datatype hunk_script =
  Add_Script rstr "rstr list"
| Delete_Script rstr
| Update_Script rstr "rstr option" "chunk_script list"

fun chunk_of :: "chunk_script \<Rightarrow> chunk" where
  "chunk_of (ctx, cs, eof) =
     \<lparr>change_context = ctx, chunk_old = removed cs, chunk_new = added cs, is_end_of_file = eof\<rparr>"

fun hunk_of_script :: "hunk_script \<Rightarrow> patch_hunk" where
  "hunk_of_script (Add_Script p ls) = AddFile p (unlines ls)"
| "hunk_of_script (Delete_Script p) = DeleteFile p"
| "hunk_of_script (Update_Script p move_to ss) = UpdateFile p move_to (map chunk_of ss)"

fun render_chunk :: "chunk_script \<Rightarrow> rstr list" where
  "render_chunk (ctx, cs, eof) =
     (case ctx of None \<Rightarrow> ''@@'' | Some w \<Rightarrow> ''@@ '' @ w) # marked cs
     @ (if eof then [''*** End of File''] else [])"

fun render_script :: "hunk_script \<Rightarrow> rstr list" where
  "render_script (Add_Script p ls) = (''*** Add File: '' @ p) # map (Cons (CHR ''+'')) ls"
| "render_script (Delete_Script p) = [''*** Delete File: '' @ p]"
| "render_script (Update_Script p move_to ss) =
     (''*** Update File: '' @ p)
     # (case move_to of None \<Rightarrow> [] | Some d \<Rightarrow> [''*** Move to: '' @ d]) @ concat (map render_chunk ss)"

definition render_patch_text :: "hunk_script list \<Rightarrow> rstr" where
  "render_patch_text hs =
     unlines (''*** Begin Patch'' # concat (map render_script hs) @ [''*** End Patch''])"

text \<open>A name that starts and ends with a visible ASCII character.\<close>

definition clean :: "rstr \<Rightarrow> bool" where
  "clean w = (w \<noteq> [] \<and> CHR 0x0A \<notin> set w \<and> plain_char (hd w) \<and> plain_char (last w))"

fun chunk_script_ok :: "chunk_script \<Rightarrow> bool" where
  "chunk_script_ok (ctx, cs, eof) =
     ((cs \<noteq> [] \<or> ctx \<noteq> None) \<and> list_all (\<lambda>c. plain_line (snd c)) cs
      \<and> (case ctx of None \<Rightarrow> True | Some w \<Rightarrow> clean w))"

fun hunk_script_ok :: "hunk_script \<Rightarrow> bool" where
  "hunk_script_ok (Add_Script p ls) = (clean p \<and> list_all plain_line ls)"
| "hunk_script_ok (Delete_Script p) = clean p"
| "hunk_script_ok (Update_Script p move_to ss) =
     (clean p \<and> (case move_to of None \<Rightarrow> True | Some d \<Rightarrow> clean d) \<and> ss \<noteq> []
      \<and> list_all chunk_script_ok ss)"

lemma trim_start_clean: "clean w \<Longrightarrow> trim_start w = w"
  by (cases w) (simp_all add: clean_def trim_start.simps [of "_ # _"])

lemma trim_clean: "clean w \<Longrightarrow> trim w = w"
  by (simp add: trim_def trim_start_clean) (simp add: trim_end_plain clean_def)

lemma trim_end_clean: "clean w \<Longrightarrow> trim_end (m @ w) = m @ w"
  by (rule trim_end_plain) (simp_all add: clean_def)

text \<open>A chunk's lines end where a directive or the next chunk starts.\<close>

definition chunk_ends :: "rstr list \<Rightarrow> bool" where
  "chunk_ends rest =
     (rest = [] \<or> hd rest \<noteq> ''*** End of File'' \<and> (starts_with (hd rest) ''*** '' \<or> starts_with (hd rest) ''@@''))"

lemma chunk_lines_marked:
  "chunk_lines (old, new, had) (marked cs @ rest)
    = chunk_lines (old @ removed cs, new @ added cs, had \<or> cs \<noteq> []) rest"
proof (induction cs arbitrary: old new had)
  case (Cons c cs)
  obtain t l where "c = (t, l)" by force
  then show ?case using Cons by (cases t) (simp_all add: removed_def added_def)
qed (simp add: removed_def added_def)

lemma chunk_lines_render:
  assumes "chunk_ends rest"
  shows "chunk_lines ([], [], False) (marked cs @ (if eof then [''*** End of File''] else []) @ rest)
    = ((removed cs, added cs, cs \<noteq> []), eof, rest)"
proof (cases eof)
  case True
  then show ?thesis by (simp add: chunk_lines_marked)
next
  case False
  then show ?thesis
    using assms chunk_lines_marked [of "[]" "[]" False cs rest]
    by (cases rest) (auto simp: chunk_ends_def)
qed

lemma chunk_header_end:
  assumes "case ctx of None \<Rightarrow> True | Some w \<Rightarrow> clean w"
  shows "trim_end (case ctx of None \<Rightarrow> ''@@'' | Some w \<Rightarrow> ''@@ '' @ w)
    = (case ctx of None \<Rightarrow> ''@@'' | Some w \<Rightarrow> ''@@ '' @ w)"
  using assms trim_end_plain [of "''@@''"] trim_end_clean [of _ "''@@ ''"]
  by (auto simp: plain_char_def byte_def ws1_def split: option.split)

lemma not_blank: "trim_end w \<noteq> [] \<Longrightarrow> plain_char (hd w) \<Longrightarrow> w \<noteq> [] \<Longrightarrow> trim w \<noteq> []"
  by (cases w) (simp_all add: trim_def trim_start.simps [of "_ # _"])

lemma parse_chunks_render1:
  assumes "chunk_script_ok (ctx, cs, eof)" and "chunk_ends rest"
  shows "parse_chunks b (render_chunk (ctx, cs, eof) @ rest)
    = (case parse_chunks False rest of (ds, rest') \<Rightarrow> (chunk_of (ctx, cs, eof) # ds, rest'))"
proof -
  let ?h = "case ctx of None \<Rightarrow> ''@@'' | Some w \<Rightarrow> ''@@ '' @ w"
  have h: "trim_end ?h = ?h" using assms(1) by (intro chunk_header_end) simp
  have "trim ?h \<noteq> []"
    by (rule not_blank) (simp_all add: h plain_char_def byte_def ws1_def split: option.split)
  then have blank: "\<not> skipped_blank ?h" by (simp add: skipped_blank_def)
  have head: "chunk_head_of b ?h = Own_Line ctx"
    by (cases ctx) (simp_all add: chunk_head_of_def strip_prefix_def)
  have "\<not> starts_with ?h ''*** ''" by (simp split: option.split)
  moreover have "made_chunk ctx (removed cs, added cs, cs \<noteq> []) eof = [chunk_of (ctx, cs, eof)]"
    using assms(1) by (auto simp: made_chunk_def)
  ultimately show ?thesis
    using blank head h chunk_lines_render [OF assms(2), of cs eof]
    by (simp add: Let_def)
qed

definition directive_starts :: "rstr list \<Rightarrow> bool" where
  "directive_starts rest = (rest \<noteq> [] \<and> starts_with (trim_end (hd rest)) ''*** ''
     \<and> trim_end (hd rest) \<noteq> ''*** End of File'' \<and> starts_with (hd rest) ''*** ''
     \<and> hd rest \<noteq> ''*** End of File'' \<and> strip_prefix (trim_end (hd rest)) ''*** Move to: '' = None)"

lemma parse_chunks_render:
  "list_all chunk_script_ok ss \<Longrightarrow> directive_starts rest \<Longrightarrow>
     parse_chunks b (concat (map render_chunk ss) @ rest) = (map chunk_of ss, rest)"
proof (induction ss arbitrary: b)
  case Nil
  then show ?case by (cases rest) (simp_all add: directive_starts_def Let_def)
next
  case (Cons s ss)
  obtain ctx cs eof where s: "s = (ctx, cs, eof)" by (cases s)
  have "chunk_ends (concat (map render_chunk ss) @ rest)"
  proof (cases ss)
    case Nil
    then show ?thesis using Cons.prems(2) by (simp add: directive_starts_def chunk_ends_def)
  next
    case (Cons t ts)
    obtain ctx' cs' eof' where "t = (ctx', cs', eof')" by (cases t)
    then show ?thesis using Cons by (simp add: chunk_ends_def split: option.split)
  qed
  then show ?case
    using Cons parse_chunks_render1 [of ctx cs eof "concat (map render_chunk ss) @ rest" b] s
    by (simp del: render_chunk.simps chunk_script_ok.simps chunk_of.simps)
qed

lemma added_contents_render:
  "directive_starts rest \<Longrightarrow> added_contents (map (Cons (CHR ''+'')) ls @ rest) = (unlines ls, rest)"
proof (induction ls)
  case Nil
  then show ?case by (cases rest) (simp_all add: directive_starts_def)
qed simp

lemma render_script_starts:
  "hunk_script_ok h \<Longrightarrow> directive_starts (render_script h @ rest)"
  by (cases h) (simp_all add: directive_starts_def trim_end_plain clean_def strip_prefix_def)

lemma directive_not_end:
  assumes "clean w" and "m \<in> {''*** Add File: '', ''*** Delete File: '', ''*** Update File: ''}"
  shows "trim (m @ w) \<noteq> ''*** End Patch''"
proof -
  have "plain_char (hd m)" using assms(2) by (auto simp: plain_char_def byte_def ws1_def)
  then have "trim_start (m @ w) = m @ w"
    using assms(2) by (cases m) (simp_all add: trim_start.simps [of "_ # _"])
  then have "trim (m @ w) = m @ w" using assms(1) by (simp add: trim_def trim_end_clean)
  then show ?thesis using assms(2) by auto
qed

text \<open>One directive is read back, whatever directive follows.\<close>

lemma parse_script:
  assumes "hunk_script_ok h" and "directive_starts rest"
  shows "parse_directives (render_script h @ rest)
    = map_sum id (Cons (hunk_of_script h)) (parse_directives rest)"
proof -
  note line = directive_not_end
  show ?thesis
  proof (cases h)
    case (Add_Script p ls)
    then have p: "clean p" using assms(1) by simp
    then have end_p: "p \<noteq> []" "plain_char (last p)" by (simp_all add: clean_def)
    have "trim (''*** Add File: '' @ p) \<noteq> ''*** End Patch''" using line [OF p] by blast
    then show ?thesis
      using Add_Script added_contents_render [OF assms(2), of ls] trim_clean [OF p] end_p
      by (simp add: strip_prefix_def Let_def trim_end_plain)
  next
    case (Delete_Script p)
    then have p: "clean p" using assms(1) by simp
    then have end_p: "p \<noteq> []" "plain_char (last p)" by (simp_all add: clean_def)
    have "trim (''*** Delete File: '' @ p) \<noteq> ''*** End Patch''" using line [OF p] by blast
    then show ?thesis
      using Delete_Script trim_clean [OF p] end_p
      by (simp add: strip_prefix_def Let_def trim_end_plain)
  next
    case (Update_Script p move_to ss)
    then have p: "clean p" and ss: "ss \<noteq> []" "list_all chunk_script_ok ss"
      and move: "case move_to of None \<Rightarrow> True | Some d \<Rightarrow> clean d"
      using assms(1) by simp_all
    then have end_p: "p \<noteq> []" "plain_char (last p)" by (simp_all add: clean_def)
    have chunks: "parse_chunks True (concat (map render_chunk ss) @ rest) = (map chunk_of ss, rest)"
      using ss(2) assms(2) by (rule parse_chunks_render)
    have not_end: "trim (''*** Update File: '' @ p) \<noteq> ''*** End Patch''" using line [OF p] by blast
    show ?thesis
    proof (cases move_to)
      case None
      obtain ctx cs eof ss' where s: "ss = (ctx, cs, eof) # ss'" using ss(1) by (cases ss) auto
      have "strip_prefix (trim_end (case ctx of None \<Rightarrow> ''@@'' | Some w \<Rightarrow> ''@@ '' @ w)) ''*** Move to: '' = None"
        using chunk_header_end [of ctx] ss(2) s by (simp add: strip_prefix_def split: option.splits)
      then have first: "map_option trim (strip_prefix (trim_end (hd (concat (map render_chunk ss) @ rest))) ''*** Move to: '') = None"
        and some: "concat (map render_chunk ss) @ rest \<noteq> []"
        using s by simp_all
      then show ?thesis
        using Update_Script None not_end chunks trim_clean [OF p] end_p ss(1)
        by (cases "concat (map render_chunk ss) @ rest")
           (simp_all add: strip_prefix_def Let_def trim_end_plain)
    next
      case (Some d)
      then have d: "clean d" using move by simp
      then have "d \<noteq> []" "plain_char (last d)" by (simp_all add: clean_def)
      then show ?thesis
        using Update_Script Some not_end chunks trim_clean [OF p] trim_clean [OF d] end_p ss(1)
        by (simp add: strip_prefix_def Let_def trim_end_plain)
    qed
  qed
qed

lemma end_patch: "directive_starts [''*** End Patch'']" "parse_directives [''*** End Patch''] = Inr []"
proof -
  have "clean ''*** End Patch''" by (simp add: clean_def plain_char_def byte_def ws1_def)
  then have trims: "trim ''*** End Patch'' = ''*** End Patch''" "trim_end ''*** End Patch'' = ''*** End Patch''"
    using trim_clean trim_end_clean [of _ "[]"] by simp_all
  show "directive_starts [''*** End Patch'']"
    by (simp only: directive_starts_def list.sel trims) (simp add: strip_prefix_def)
  show "parse_directives [''*** End Patch''] = Inr []"
    by (subst parse_directives.simps) (simp only: Let_def trims refl if_True)
qed

lemma parse_scripts:
  "list_all hunk_script_ok hs \<Longrightarrow>
     parse_directives (concat (map render_script hs) @ [''*** End Patch'']) = Inr (map hunk_of_script hs)
     \<and> directive_starts (concat (map render_script hs) @ [''*** End Patch''])"
proof (induction hs)
  case Nil
  then show ?case using end_patch by (simp del: parse_directives.simps)
next
  case (Cons h hs)
  let ?rest = "concat (map render_script hs) @ [''*** End Patch'']"
  have ok: "hunk_script_ok h" using Cons.prems by simp
  show ?case
    using parse_script [OF ok, of ?rest] render_script_starts [OF ok, of ?rest] Cons by simp
qed

lemma clean_line: "clean w \<Longrightarrow> CHR 0x0A \<notin> set m \<Longrightarrow> plain_line (m @ w)"
  by (auto simp: clean_def plain_line_def plain_char_def byte_def ws1_def)

lemma render_chunk_plain: "chunk_script_ok s \<Longrightarrow> list_all plain_line (render_chunk s)"
proof -
  assume ok: "chunk_script_ok s"
  obtain ctx cs eof where s: "s = (ctx, cs, eof)" by (cases s)
  have "plain_line (case ctx of None \<Rightarrow> ''@@'' | Some w \<Rightarrow> ''@@ '' @ w)"
  proof (cases ctx)
    case None
    then show ?thesis by (simp add: plain_line_def)
  next
    case (Some w)
    then show ?thesis using ok s clean_line [of w "''@@ ''"] by simp
  qed
  then show ?thesis using ok s marked_plain [of cs] by (simp add: plain_line_def [of "''*** End of File''"])
qed

lemma render_script_plain:
  assumes "hunk_script_ok h"
  shows "list_all plain_line (render_script h)"
proof (cases h)
  case (Add_Script p ls)
  have "plain_line (''*** Add File: '' @ p)" using assms Add_Script by (simp add: clean_line del: append.simps)
  moreover have "list_all plain_line (map (Cons (CHR ''+'')) ls)" if "list_all plain_line ls"
    using that by (induction ls) (simp_all add: plain_line_Cons)
  ultimately show ?thesis using assms Add_Script by simp
next
  case (Delete_Script p)
  then show ?thesis using assms by (simp add: clean_line del: append.simps)
next
  case (Update_Script p move_to ss)
  have "list_all plain_line (concat (map render_chunk ss))" if "list_all chunk_script_ok ss"
    using that by (induction ss) (simp_all add: render_chunk_plain del: render_chunk.simps chunk_script_ok.simps)
  moreover have "plain_line (''*** Update File: '' @ p)" using assms Update_Script by (simp add: clean_line del: append.simps)
  moreover have "plain_line (''*** Move to: '' @ d)" if "move_to = Some d" for d
    using assms Update_Script that by (simp add: clean_line del: append.simps)
  ultimately show ?thesis using assms Update_Script by (cases move_to) (simp_all del: render_chunk.simps)
qed



section \<open>What a run does to protected files\<close>

fun outcome_run :: "run_outcome \<Rightarrow> patch_run" where
  "outcome_run (Going st) = st"
| "outcome_run (Stopped_Io st) = st"
| "outcome_run (Stopped_Panic st) = st"

fun moves :: "patch_hunk \<Rightarrow> bool" where
  "moves (UpdateFile p move_to cs) = (move_to \<noteq> None)"
| "moves h = False"

lemma run_hunk_keeps:
  assumes "\<not> moves h" and "is_catastrophic_target q (tool_risk_context e)" and "run_files st q \<noteq> None"
  shows "run_files (outcome_run (run_hunk e h st)) q \<noteq> None"
proof (cases h)
  case (DeleteFile p)
  then show ?thesis
    using assms by (auto simp: run_delete_def report_def Let_def remove_file_Some split: option.split)
qed (use assms in \<open>auto simp: run_add_def run_update_def report_def write_file_Some
      split: option.split sum.split\<close>)

text \<open>
  C38: A patch that moves no file never removes one that must not be destroyed: whatever else
  it adds, deletes and updates, and however it ends, every file at a protected path is still
  there.
\<close>

theorem protected_files_stay:
  assumes "list_all (\<lambda>h. \<not> moves h) hs" and "is_catastrophic_target q (tool_risk_context e)"
    and "run_files st q \<noteq> None"
  shows "run_files (outcome_run (run_hunks e hs st)) q \<noteq> None"
  using assms(1,3)
proof (induction hs arbitrary: st)
  case (Cons h hs)
  have "run_files (outcome_run (run_hunk e h st)) q \<noteq> None"
    using Cons.prems assms(2) by (intro run_hunk_keeps) simp_all
  then show ?case using Cons by (cases "run_hunk e h st") simp_all
qed simp

theorem protected_files_stay_witness:
  "run_files (outcome_run (run_hunks open_env [DeleteFile ''/home/u/.ssh/id'', DeleteFile ''x'']
     \<lparr>run_files = [''/home/u/.ssh/id'' \<mapsto> Text_File ''key'', ''/p/x'' \<mapsto> Text_File []],
      run_results = [], run_touched = []\<rparr>)) ''/home/u/.ssh/id'' \<noteq> None"
  by (rule protected_files_stay) (simp, code_simp, simp)

text \<open>
  A move removes the file it starts from whatever its path is and wherever it goes: also
  when that path must never be destroyed, and also when the destination is the same file,
  whose contents are then lost.
\<close>

theorem move_always_removes:
  assumes "may_write e (resolve_path e dest)" and "may_remove e (resolve_path e p)"
    and "run_files st (resolve_path e p) = Some (Text_File old)"
    and "run_files st (resolve_path e dest) \<noteq> Some Directory"
  shows "\<exists>st'. run_move e p dest n old new st = Going st' \<and> run_files st' (resolve_path e p) = None"
  using assms by (auto simp: run_move_def write_file_def remove_file_def report_def)

theorem move_always_removes_witness:
  "is_catastrophic_target (resolve_path open_env ''/home/u/.ssh/id'') (tool_risk_context open_env)
   \<and> (\<exists>st'. run_move open_env ''/home/u/.ssh/id'' ''/home/u/.ssh/id'' 1 ''a'' ''b''
        \<lparr>run_files = [''/home/u/.ssh/id'' \<mapsto> Text_File ''a''], run_results = [], run_touched = []\<rparr> = Going st'
      \<and> run_files st' ''/home/u/.ssh/id'' = None)"
proof -
  have path: "resolve_path open_env ''/home/u/.ssh/id'' = ''/home/u/.ssh/id''" by code_simp
  have "is_catastrophic_target (resolve_path open_env ''/home/u/.ssh/id'') (tool_risk_context open_env)"
    by code_simp
  then show ?thesis
    using move_always_removes [of open_env "''/home/u/.ssh/id''" "''/home/u/.ssh/id''"
        "\<lparr>run_files = [''/home/u/.ssh/id'' \<mapsto> Text_File ''a''], run_results = [], run_touched = []\<rparr>" "''a''" 1 "''b''"]
    by (simp add: path) (simp add: open_env_def)
qed

section \<open>Lines that are dropped\<close>

definition unmarked :: "rstr \<Rightarrow> bool" where
  "unmarked l = (clean l \<and> hd l \<notin> {CHR ''+'', CHR ''-'', CHR ''@'', CHR ''*''})"

definition no_directive :: "rstr \<Rightarrow> bool" where
  "no_directive l = (\<not> starts_with l ''*** '' \<and> trim (trim_end l) \<noteq> ''*** End Patch'')"

lemma starts_with_trim_end: "starts_with (trim_end l) m \<Longrightarrow> starts_with l m"
  using trim_end_prefix [of l] by (metis append.assoc starts_with_split)

lemma skips_lines:
  "list_all no_directive ls \<Longrightarrow> parse_directives (ls @ rest) = parse_directives rest"
proof (induction ls)
  case (Cons l ls)
  then have "\<not> starts_with (trim_end l) ''*** ''"
    using starts_with_trim_end [of l "''*** ''"] by (auto simp: no_directive_def)
  then have "strip_prefix (trim_end l) (''*** '' @ m) = None" for m
    by (auto simp: strip_prefix_def starts_with_split)
  from this [of "''Add File: ''"] this [of "''Delete File: ''"] this [of "''Update File: ''"]
  show ?case using Cons by (simp add: no_directive_def Let_def)
qed simp

text \<open>
  A line of a chunk without a mark (a context line whose leading space was forgotten) ends
  the chunk, and everything up to the next directive is skipped: the lines and chunks that
  follow are lost without an error.
\<close>

theorem unmarked_line_drops_rest:
  assumes "clean p" and "cs \<noteq> []" and "list_all (\<lambda>c. plain_line (snd c)) cs"
    and "unmarked l" and "list_all (\<lambda>x. plain_line x \<and> no_directive x) rest"
  shows "parse_apply_patch (unlines ([''*** Begin Patch'', ''*** Update File: '' @ p, ''@@'']
      @ marked cs @ l # rest @ [''*** End Patch'']))
    = Inr [UpdateFile p None [chunk_of (None, cs, False)]]"
proof -
  let ?tail = "l # rest @ [''*** End Patch'']"
  have l: "clean l" "hd l \<notin> {CHR ''+'', CHR ''-'', CHR ''@'', CHR ''*''}" using assms(4) by (simp_all add: unmarked_def)
  then obtain c w where w: "l = c # w" "plain_char c" by (cases l) (auto simp: clean_def)
  have trims: "trim_end l = l" "trim l = l" using trim_end_clean [OF l(1), of "[]"] trim_clean [OF l(1)] by simp_all
  have starts: "\<not> starts_with l ''*** ''" "\<not> starts_with l ''@@''" "strip_prefix l ''@@ '' = None"
    and marks: "c \<noteq> CHR ''+''" "c \<noteq> CHR ''-''" "c \<noteq> CHR '' ''"
    using l(2) w by (auto simp: strip_prefix_def plain_char_def byte_def ws1_def)
  have chunk: "chunk_lines ([], [], False) (marked cs @ ?tail) = ((removed cs, added cs, cs \<noteq> []), False, ?tail)"
    using chunk_lines_marked [of "[]" "[]" False cs ?tail] starts marks w assms(2) by auto
  have stop: "parse_chunks False ?tail = ([], ?tail)"
    using trims starts w by (auto simp: skipped_blank_def chunk_head_of_def Let_def)
  have at: "trim_end ''@@'' = ''@@''" "trim ''@@'' \<noteq> []"
    using chunk_header_end [of None] not_blank [of "''@@''"] by (simp_all add: plain_char_def byte_def ws1_def)
  have chunks: "parse_chunks True (''@@'' # marked cs @ ?tail) = ([chunk_of (None, cs, False)], ?tail)"
    using chunk stop at assms(2) by (simp add: Let_def skipped_blank_def chunk_head_of_def made_chunk_def)
  have "l \<noteq> ''*** End Patch''" using l(2) by auto
  then have "no_directive l" using starts(1) by (simp only: no_directive_def trims) simp
  then have rest: "parse_directives ?tail = Inr []"
    using skips_lines [of "l # rest" "[''*** End Patch'']"] assms(5) end_patch(2)
    by (simp add: list_all_iff)
  have first: "trim_end (''*** Update File: '' @ p) = ''*** Update File: '' @ p"
    using trim_end_clean [OF assms(1)] .
  have "trim (''*** Update File: '' @ p) \<noteq> ''*** End Patch''"
    using directive_not_end [OF assms(1), of "''*** Update File: ''"] by blast
  then have directives: "parse_directives ((''*** Update File: '' @ p) # ''@@'' # marked cs @ ?tail)
      = Inr [UpdateFile p None [chunk_of (None, cs, False)]]"
    using chunks rest at trim_clean [OF assms(1)] assms(1)
    by (simp add: Let_def strip_prefix_def trim_end_plain clean_def)
  have literals: "plain_line ''*** Begin Patch''" "plain_line ''@@''" "plain_line ''*** End Patch''"
    by (simp_all add: plain_line_def)
  have "list_all plain_line ([''*** Begin Patch'', ''*** Update File: '' @ p, ''@@''] @ marked cs @ ?tail)"
    using clean_line [OF assms(1), of "''*** Update File: ''"] marked_plain [OF assms(3)]
      clean_line [OF l(1), of "[]"] assms(5)
      literals by (auto simp: list_all_iff)
  from str_lines_unlines [OF this] show ?thesis
    using directives trim_clean [of "''*** Begin Patch''"]
    by (simp add: parse_apply_patch_def clean_def plain_char_def byte_def ws1_def)
qed

theorem unmarked_line_drops_rest_witness:
  "parse_apply_patch (unlines ([''*** Begin Patch'', ''*** Update File: '' @ ''a.rs'', ''@@'']
      @ marked [(Delete, ''old''), (Insert, ''new'')]
      @ ''forgotten space'' # [''-gone'', ''@@'', ''-also''] @ [''*** End Patch'']))
    = Inr [UpdateFile ''a.rs'' None [chunk_of (None, [(Delete, ''old''), (Insert, ''new'')], False)]]"
proof (rule unmarked_line_drops_rest)
  have "trim_end w = w \<and> trim w = w" if "w \<in> {''-gone'', ''@@'', ''-also''}" for w
    using that trim_clean [of w] trim_end_clean [of w "[]"]
    by (auto simp: clean_def plain_char_def byte_def ws1_def)
  then show "list_all (\<lambda>x. plain_line x \<and> no_directive x) [''-gone'', ''@@'', ''-also'']"
    by (simp add: no_directive_def plain_line_def)
qed (simp_all add: clean_def unmarked_def plain_char_def byte_def ws1_def plain_line_def)

end
