(* ===== verification/Provider_Routes.thy ===== *)
theory Provider_Routes
  imports Prelude "HOL-Library.Product_Lexorder"
begin

text \<open>
  The pure part of \<open>crates/kcode-provider-core/src\<close>: the vocabularies for credentials
  (\<open>auth_mode.rs\<close>), the typed view of a route's API method (\<open>lib.rs\<close>), the choice of a
  route after a failure (\<open>fallback_pick.rs\<close>), merging route lists and choosing a provider
  (\<open>selection.rs\<close>), the delay a server asks for (\<open>retry_after.rs\<close>), and model names
  (\<open>model_id.rs\<close>). The price and usage a route carries are a further part of its record.
\<close>

section \<open>Credentials\<close>

datatype dual_auth_provider = Anthropic | OpenAI

datatype auth_mode = Oauth | Api_Key

record auth_route =
  auth_provider :: dual_auth_provider
  auth_mode_of :: auth_mode

definition anthropic :: "auth_mode \<Rightarrow> auth_route" where
  "anthropic m = \<lparr>auth_provider = Anthropic, auth_mode_of = m\<rparr>"

definition openai :: "auth_mode \<Rightarrow> auth_route" where
  "openai m = \<lparr>auth_provider = OpenAI, auth_mode_of = m\<rparr>"

definition without_colon :: "rstr \<Rightarrow> rstr" where
  "without_colon token =
     (let t = trim token in case strip_suffix t '':'' of Some s \<Rightarrow> s | None \<Rightarrow> t)"

definition auth_route_of_word :: "rstr \<Rightarrow> auth_route option" where
  "auth_route_of_word w =
     (if w \<in> {''claude'', ''anthropic'', ''claude-oauth'', ''anthropic-oauth''}
      then Some (anthropic Oauth)
      else if w \<in> {''claude-api'', ''anthropic-api'', ''anthropic-api-key'', ''claude-api-key'',
                  ''anthropic-key'', ''claude-key'', ''api-key''}
      then Some (anthropic Api_Key)
      else if w \<in> {''openai'', ''openai-oauth''} then Some (openai Oauth)
      else if w \<in> {''openai-api'', ''openai-api-key'', ''openai-key'', ''openai-apikey'',
                  ''openai-platform'', ''platform-openai''}
      then Some (openai Api_Key)
      else None)"

definition parse_auth_route :: "rstr \<Rightarrow> auth_route option" where
  "parse_auth_route token = auth_route_of_word (to_ascii_lowercase (trim (without_colon token)))"

definition parse_explicit_credential_prefix :: "rstr \<Rightarrow> auth_route option" where
  "parse_explicit_credential_prefix prefix' =
     (let w = to_ascii_lowercase (trim (without_colon prefix'))
      in if w \<in> {''claude'', ''anthropic'', ''openai''} then None else parse_auth_route w)"

definition runtime_provider_key :: "auth_route \<Rightarrow> rstr" where
  "runtime_provider_key r =
     (case (auth_provider r, auth_mode_of r) of
        (Anthropic, Oauth) \<Rightarrow> ''claude'' | (Anthropic, Api_Key) \<Rightarrow> ''claude-api''
      | (OpenAI, Oauth) \<Rightarrow> ''openai'' | (OpenAI, Api_Key) \<Rightarrow> ''openai-api'')"

definition route_api_method :: "auth_route \<Rightarrow> rstr" where
  "route_api_method r =
     (case (auth_provider r, auth_mode_of r) of
        (Anthropic, Oauth) \<Rightarrow> ''claude-oauth'' | (Anthropic, Api_Key) \<Rightarrow> ''anthropic-api-key''
      | (OpenAI, Oauth) \<Rightarrow> ''openai-oauth'' | (OpenAI, Api_Key) \<Rightarrow> ''openai-api-key'')"

definition model_prefix :: "auth_route \<Rightarrow> rstr" where
  "model_prefix r =
     (case (auth_provider r, auth_mode_of r) of
        (Anthropic, Oauth) \<Rightarrow> ''claude-oauth'' | (Anthropic, Api_Key) \<Rightarrow> ''claude-api''
      | (OpenAI, Oauth) \<Rightarrow> ''openai-oauth'' | (OpenAI, Api_Key) \<Rightarrow> ''openai-api'')"

definition session_provider_key :: "auth_route \<Rightarrow> rstr" where
  "session_provider_key r =
     (case (auth_provider r, auth_mode_of r) of
        (Anthropic, Oauth) \<Rightarrow> ''claude-oauth'' | (Anthropic, Api_Key) \<Rightarrow> ''claude-api''
      | (OpenAI, Oauth) \<Rightarrow> ''openai-oauth'' | (OpenAI, Api_Key) \<Rightarrow> ''openai-api'')"

definition cli_provider_arg :: "auth_route \<Rightarrow> rstr" where
  "cli_provider_arg r =
     (case (auth_provider r, auth_mode_of r) of
        (Anthropic, Oauth) \<Rightarrow> ''claude'' | (Anthropic, Api_Key) \<Rightarrow> ''anthropic-api''
      | (OpenAI, Oauth) \<Rightarrow> ''openai'' | (OpenAI, Api_Key) \<Rightarrow> ''openai-api'')"

definition pinned_mode_for :: "dual_auth_provider \<Rightarrow> rstr option \<Rightarrow> auth_mode option" where
  "pinned_mode_for p runtime_provider =
     (case Option.bind runtime_provider parse_auth_route of
        None \<Rightarrow> None
      | Some r \<Rightarrow> if auth_provider r = p then Some (auth_mode_of r) else None)"

section \<open>Providers\<close>

datatype active_provider =
  Claude_Slot | OpenAI_Slot | Copilot_Slot | Antigravity_Slot | Gemini_Slot | Cursor_Slot
| Bedrock_Slot | OpenRouter_Slot

record provider_availability =
  openai_av :: bool
  claude_av :: bool
  copilot_av :: bool
  antigravity_av :: bool
  gemini_av :: bool
  cursor_av :: bool
  bedrock_av :: bool
  openrouter_av :: bool
  copilot_premium_zero :: bool

fun is_configured :: "provider_availability \<Rightarrow> active_provider \<Rightarrow> bool" where
  "is_configured a Claude_Slot = claude_av a"
| "is_configured a OpenAI_Slot = openai_av a"
| "is_configured a Copilot_Slot = copilot_av a"
| "is_configured a Antigravity_Slot = antigravity_av a"
| "is_configured a Gemini_Slot = gemini_av a"
| "is_configured a Cursor_Slot = cursor_av a"
| "is_configured a Bedrock_Slot = bedrock_av a"
| "is_configured a OpenRouter_Slot = openrouter_av a"

definition auto_default_provider :: "provider_availability \<Rightarrow> active_provider" where
  "auto_default_provider a =
     (if copilot_premium_zero a \<and> copilot_av a then Copilot_Slot
      else if claude_av a then Claude_Slot
      else if openai_av a then OpenAI_Slot
      else if copilot_av a then Copilot_Slot
      else if antigravity_av a then Antigravity_Slot
      else if gemini_av a then Gemini_Slot
      else if cursor_av a then Cursor_Slot
      else if bedrock_av a then Bedrock_Slot
      else if openrouter_av a then OpenRouter_Slot
      else Claude_Slot)"

fun active_provider_of :: "dual_auth_provider \<Rightarrow> active_provider" where
  "active_provider_of Anthropic = Claude_Slot"
| "active_provider_of OpenAI = OpenAI_Slot"

fun from_active_provider :: "active_provider \<Rightarrow> dual_auth_provider option" where
  "from_active_provider Claude_Slot = Some Anthropic"
| "from_active_provider OpenAI_Slot = Some OpenAI"
| "from_active_provider _ = None"

fun bare_model_prefix :: "dual_auth_provider \<Rightarrow> rstr" where
  "bare_model_prefix Anthropic = ''claude''"
| "bare_model_prefix OpenAI = ''openai''"

definition parse_provider_hint :: "rstr \<Rightarrow> active_provider option" where
  "parse_provider_hint value' =
     (let w = to_ascii_lowercase (trim value')
      in if w \<in> {''claude'', ''anthropic''} then Some Claude_Slot
         else if w = ''openai'' then Some OpenAI_Slot
         else if w = ''copilot'' then Some Copilot_Slot
         else if w = ''antigravity'' then Some Antigravity_Slot
         else if w = ''gemini'' then Some Gemini_Slot
         else if w = ''cursor'' then Some Cursor_Slot
         else if w \<in> {''bedrock'', ''aws-bedrock'', ''aws_bedrock''} then Some Bedrock_Slot
         else if w = ''openrouter'' then Some OpenRouter_Slot
         else None)"

fun provider_label :: "active_provider \<Rightarrow> rstr" where
  "provider_label Claude_Slot = ''Anthropic''"
| "provider_label OpenAI_Slot = ''OpenAI''"
| "provider_label Copilot_Slot = ''GitHub Copilot''"
| "provider_label Antigravity_Slot = ''Antigravity''"
| "provider_label Gemini_Slot = ''Gemini''"
| "provider_label Cursor_Slot = ''Cursor''"
| "provider_label Bedrock_Slot = ''AWS Bedrock''"
| "provider_label OpenRouter_Slot = ''OpenRouter''"

fun provider_key :: "active_provider \<Rightarrow> rstr" where
  "provider_key Claude_Slot = ''claude''"
| "provider_key OpenAI_Slot = ''openai''"
| "provider_key Copilot_Slot = ''copilot''"
| "provider_key Antigravity_Slot = ''antigravity''"
| "provider_key Gemini_Slot = ''gemini''"
| "provider_key Cursor_Slot = ''cursor''"
| "provider_key Bedrock_Slot = ''bedrock''"
| "provider_key OpenRouter_Slot = ''openrouter''"

definition provider_from_model_key :: "rstr \<Rightarrow> active_provider option" where
  "provider_from_model_key k =
     (if k = ''claude'' then Some Claude_Slot
      else if k = ''openai'' then Some OpenAI_Slot
      else if k = ''copilot'' then Some Copilot_Slot
      else if k = ''antigravity'' then Some Antigravity_Slot
      else if k = ''gemini'' then Some Gemini_Slot
      else if k = ''cursor'' then Some Cursor_Slot
      else if k = ''bedrock'' then Some Bedrock_Slot
      else if k = ''openrouter'' then Some OpenRouter_Slot
      else None)"

definition cli_provider_arg_for_session_key :: "rstr \<Rightarrow> rstr option" where
  "cli_provider_arg_for_session_key key =
     (let normalized = to_ascii_lowercase (trim key);
          base = (case split_once (CHR '':'') normalized of Some (p, _) \<Rightarrow> p | None \<Rightarrow> normalized)
      in case parse_auth_route base of
           Some r \<Rightarrow> Some (cli_provider_arg r)
         | None \<Rightarrow>
             if base \<in> {''openrouter'', ''copilot'', ''gemini'', ''cursor'', ''bedrock'', ''antigravity''}
             then Some base
             else if base \<in> {''code-assist-oauth'', ''google''} then Some ''google''
             else if base \<in> {''grok-build'', ''grok-build-acp''} then Some ''grok-build''
             else None)"

definition EXPLICIT_PREFIXES :: "(rstr \<times> active_provider) list" where
  "EXPLICIT_PREFIXES =
     [(''claude-api:'', Claude_Slot), (''claude-oauth:'', Claude_Slot), (''claude:'', Claude_Slot),
      (''anthropic:'', Claude_Slot), (''openai-api:'', OpenAI_Slot), (''openai-oauth:'', OpenAI_Slot),
      (''openai:'', OpenAI_Slot), (''copilot:'', Copilot_Slot), (''antigravity:'', Antigravity_Slot),
      (''gemini:'', Gemini_Slot), (''cursor:'', Cursor_Slot), (''bedrock:'', Bedrock_Slot),
      (''openrouter:'', OpenRouter_Slot)]"

text \<open>The chain of \<open>strip_prefix\<close> tests, as a walk down its table.\<close>

fun prefix_walk :: "(rstr \<times> active_provider) list \<Rightarrow> rstr \<Rightarrow> (active_provider \<times> rstr \<times> rstr) option" where
  "prefix_walk [] m = None"
| "prefix_walk ((pre, p) # more_prefixes) m =
     (case strip_prefix m pre of
        Some rest \<Rightarrow> Some (p, pre, rest)
      | None \<Rightarrow> prefix_walk more_prefixes m)"

definition explicit_model_provider_prefix :: "rstr \<Rightarrow> (active_provider \<times> rstr \<times> rstr) option" where
  "explicit_model_provider_prefix m = prefix_walk EXPLICIT_PREFIXES m"

definition strip_own_model_prefix :: "rstr \<Rightarrow> rstr \<Rightarrow> rstr" where
  "strip_own_model_prefix m own_prefix =
     (case strip_prefix (trim m) own_prefix of
        Some rest \<Rightarrow> if own_prefix \<noteq> [] then trim rest else trim m
      | None \<Rightarrow> trim m)"

text \<open>The model a runtime adopts; none is its one error, that the model cannot be empty.\<close>

definition own_model_id :: "rstr \<Rightarrow> rstr \<Rightarrow> rstr option" where
  "own_model_id m own_prefix =
     (let trimmed = strip_own_model_prefix m own_prefix in if trimmed = [] then None else Some trimmed)"

section \<open>API methods\<close>

datatype api_method =
  Claude_OAuth | Anthropic_Api_Key | OpenAI_OAuth | OpenAI_Api_Key | Open_Router
| OpenAi_Compatible "rstr option" | Copilot_Method | Cursor_Method | Bedrock_Method
| Code_Assist_OAuth | Antigravity_Https | Remote_Catalog | Current_Method | Grok_Build
| Other_Method rstr

definition from_auth_route :: "auth_route \<Rightarrow> api_method" where
  "from_auth_route r =
     (case (auth_provider r, auth_mode_of r) of
        (Anthropic, Oauth) \<Rightarrow> Claude_OAuth | (Anthropic, Api_Key) \<Rightarrow> Anthropic_Api_Key
      | (OpenAI, Oauth) \<Rightarrow> OpenAI_OAuth | (OpenAI, Api_Key) \<Rightarrow> OpenAI_Api_Key)"

definition parse_api_method :: "rstr \<Rightarrow> api_method" where
  "parse_api_method value' =
     (let trimmed = trim value'; lower = to_ascii_lowercase trimmed
      in case parse_auth_route lower of
           Some r \<Rightarrow> from_auth_route r
         | None \<Rightarrow>
             if lower \<in> {''grok-build'', ''grok-build-acp''} then Grok_Build
             else if lower = ''openrouter'' then Open_Router
             else if lower = ''openai-compatible'' then OpenAi_Compatible None
             else if lower = ''copilot'' then Copilot_Method
             else if lower = ''cursor'' then Cursor_Method
             else if lower = ''bedrock'' then Bedrock_Method
             else if lower = ''code-assist-oauth'' then Code_Assist_OAuth
             else if lower = ''https'' then Antigravity_Https
             else if lower = ''remote-catalog'' then Remote_Catalog
             else if lower = ''current'' then Current_Method
             else (case split_once (CHR '':'') lower of
                     Some (k, profile_id) \<Rightarrow>
                       if k = ''openai-compatible''
                       then OpenAi_Compatible
                              (if trim profile_id = [] then None else Some (trim profile_id))
                       else Other_Method trimmed
                   | None \<Rightarrow> Other_Method trimmed))"

fun profile_id :: "api_method \<Rightarrow> rstr option" where
  "profile_id (OpenAi_Compatible p) = p"
| "profile_id _ = None"

definition matches_openai_compatible_profile :: "api_method \<Rightarrow> rstr \<Rightarrow> bool" where
  "matches_openai_compatible_profile a provider_id =
     (case profile_id a of Some p \<Rightarrow> eq_ignore_ascii_case p provider_id | None \<Rightarrow> False)"

fun display_label :: "api_method \<Rightarrow> rstr" where
  "display_label Claude_OAuth = ''oauth''"
| "display_label OpenAI_OAuth = ''oauth''"
| "display_label Code_Assist_OAuth = ''oauth''"
| "display_label Anthropic_Api_Key = ''api key''"
| "display_label OpenAI_Api_Key = ''api key''"
| "display_label (OpenAi_Compatible p) = ''api key''"
| "display_label Open_Router = ''openrouter''"
| "display_label Copilot_Method = ''copilot''"
| "display_label Cursor_Method = ''cursor''"
| "display_label Bedrock_Method = ''bedrock''"
| "display_label Antigravity_Https = ''https''"
| "display_label Remote_Catalog = ''remote-catalog''"
| "display_label Current_Method = ''current''"
| "display_label Grok_Build = ''grok-build-acp''"
| "display_label (Other_Method m) =
     (case split_once (CHR '':'') m of Some (a, _) \<Rightarrow> a | None \<Rightarrow> m)"

definition api_method_is_oauth :: "api_method \<Rightarrow> bool" where
  "api_method_is_oauth a = (a \<in> {Claude_OAuth, OpenAI_OAuth, Code_Assist_OAuth, Grok_Build})"

section \<open>Routes and labels\<close>

record model_route =
  r_model :: rstr
  r_provider :: rstr
  r_api_method :: rstr
  r_available :: bool
  r_detail :: rstr

definition normalize_label :: "rstr \<Rightarrow> rstr" where
  "normalize_label v =
     filter (\<lambda>c. c \<notin> {CHR '' '', CHR ''_'', CHR ''-''}) (to_ascii_lowercase (trim v))"

definition provider_labels_match :: "rstr \<Rightarrow> rstr \<Rightarrow> bool" where
  "provider_labels_match route_provider current_provider =
     (let route = normalize_label route_provider; cur = normalize_label current_provider
      in if route = [] \<or> cur = [] then False
         else if route = cur then True
         else cur \<in> {''claude'', ''anthropic''} \<and> route \<in> {''anthropic'', ''claude''}
            \<or> cur = ''openai'' \<and> route = ''openai''
            \<or> cur \<in> {''gemini'', ''google''} \<and> route \<in> {''gemini'', ''google''}
            \<or> cur = ''antigravity'' \<and> route = ''antigravity''
            \<or> cur \<in> {''copilot'', ''copilotcode'', ''githubcopilot''} \<and> route \<in> {''copilot'', ''githubcopilot''}
            \<or> cur = ''cursor'' \<and> route = ''cursor''
            \<or> cur \<in> {''bedrock'', ''awsbedrock''} \<and> route \<in> {''bedrock'', ''awsbedrock''}
            \<or> cur = ''openrouter'' \<and> route \<in> {''openrouter'', ''auto''})"

definition simple_model_routes :: "rstr list \<Rightarrow> rstr \<Rightarrow> rstr \<Rightarrow> rstr \<Rightarrow> model_route list" where
  "simple_model_routes models provider api detail =
     map (\<lambda>m. \<lparr>r_model = m, r_provider = provider, r_api_method = api, r_available = True,
               r_detail = detail\<rparr>) models"

section \<open>The route after a failure\<close>

definition models_match :: "rstr \<Rightarrow> rstr \<Rightarrow> bool" where
  "models_match a b = eq_ignore_ascii_case (trim a) (trim b)"

definition CREDENTIAL_MARKERS :: "rstr list" where
  "CREDENTIAL_MARKERS =
     [''token refresh failed'', ''refresh_token_invalidated'', ''re-authenticate'',
      ''session has ended'', ''authentication_error'', ''invalid_grant'', ''invalid x-api-key'',
      ''invalid api key'', ''incorrect api key'', ''api key not valid'', ''token expired'',
      ''unauthorized'', ''oauth token expired'', ''no refresh token'',
      ''credentials have been revoked'', ''please log in again'', ''run /login'']"

definition error_looks_like_credential_failure :: "rstr \<Rightarrow> bool" where
  "error_looks_like_credential_failure err =
     (\<exists>marker \<in> set CREDENTIAL_MARKERS. contains (to_ascii_lowercase err) marker)"

text \<open>What the failed route was: its model, provider and API method, and whether its credential
  is what failed.\<close>

record failed_route =
  cur_model :: rstr
  cur_provider :: rstr
  cur_api_method :: rstr
  credential_failure :: bool

definition same_provider :: "failed_route \<Rightarrow> 'a model_route_scheme \<Rightarrow> bool" where
  "same_provider f r =
     (provider_labels_match (r_provider r) (cur_provider f) \<or> models_match (r_provider r) (cur_provider f))"

definition same_method :: "failed_route \<Rightarrow> 'a model_route_scheme \<Rightarrow> bool" where
  "same_method f r = (parse_api_method (r_api_method r) = parse_api_method (cur_api_method f))"

definition unknown_method :: "failed_route \<Rightarrow> bool" where
  "unknown_method f = (trim (cur_api_method f) = [])"

text \<open>The body of \<open>filter_map\<close>: a route's tier and preference, none when it must not be offered.\<close>

definition route_rank :: "failed_route \<Rightarrow> 'a model_route_scheme \<Rightarrow> (nat \<times> nat) option" where
  "route_rank f r =
     (let same_model = models_match (r_model r) (cur_model f);
          could_be_same = same_provider f r \<and> (same_method f r \<or> unknown_method f)
      in if same_model \<and> could_be_same then None
         else if credential_failure f \<and> could_be_same then None
         else Some (if same_model \<and> \<not> same_method f r then 0 else if same_provider f r then 1 else 2,
                    if api_method_is_oauth (parse_api_method (r_api_method r)) then 0 else 1))"

definition pick_next_fallback_route :: "'a model_route_scheme list \<Rightarrow> failed_route \<Rightarrow> nat option" where
  "pick_next_fallback_route routes f =
     (let ranked = List.map_filter
            (\<lambda>(i, r). map_option (\<lambda>(tier, pref). (tier, pref, i)) (route_rank f r))
            (filter (\<lambda>(i, r). r_available r) (enumerate 0 routes))
      in if ranked = [] then None else Some (snd (snd (Min (set ranked)))))"

section \<open>Merging route lists\<close>

definition is_generic_compatible :: "rstr \<Rightarrow> bool" where
  "is_generic_compatible m = (m = ''openai-compatible'')"

definition is_profile_compatible :: "rstr \<Rightarrow> bool" where
  "is_profile_compatible m = starts_with m ''openai-compatible:''"

definition duplicate_method :: "rstr \<Rightarrow> rstr \<Rightarrow> bool" where
  "duplicate_method a b =
     (a = b \<or> is_generic_compatible a \<and> is_profile_compatible b
      \<or> is_profile_compatible a \<and> is_generic_compatible b)"

definition should_replace :: "'a model_route_scheme \<Rightarrow> 'a model_route_scheme \<Rightarrow> bool" where
  "should_replace existing candidate =
     (\<not> is_profile_compatible (r_api_method existing) \<and> is_profile_compatible (r_api_method candidate))"

type_synonym buckets = "rstr \<times> rstr \<Rightarrow> nat list"

definition route_key :: "'a model_route_scheme \<Rightarrow> rstr \<times> rstr" where
  "route_key r = (r_provider r, r_model r)"

definition put_route :: "nat option \<Rightarrow> 'a model_route_scheme \<Rightarrow> 'a model_route_scheme list \<Rightarrow> 'a model_route_scheme list" where
  "put_route found r kept =
     (case found of
        Some i \<Rightarrow> if should_replace (kept ! i) r then kept[i := r] else kept
      | None \<Rightarrow> kept @ [r])"

fun dedupe_loop ::
  "'a model_route_scheme list \<Rightarrow> buckets \<Rightarrow> 'a model_route_scheme list \<Rightarrow> 'a model_route_scheme list" where
  "dedupe_loop kept bs [] = kept"
| "dedupe_loop kept bs (r # rs) =
     (let found = find (\<lambda>i. duplicate_method (r_api_method (kept ! i)) (r_api_method r)) (bs (route_key r));
          bs' = (if found = None then bs(route_key r := bs (route_key r) @ [length kept]) else bs)
      in dedupe_loop (put_route found r kept) bs' rs)"

definition dedupe_model_routes :: "'a model_route_scheme list \<Rightarrow> 'a model_route_scheme list" where
  "dedupe_model_routes rs = dedupe_loop [] (\<lambda>k. []) rs"

text \<open>The reference of the tests: a search through everything kept.\<close>

definition duplicate_route :: "'a model_route_scheme \<Rightarrow> 'a model_route_scheme \<Rightarrow> bool" where
  "duplicate_route existing candidate =
     (r_provider existing = r_provider candidate \<and> r_model existing = r_model candidate
      \<and> duplicate_method (r_api_method existing) (r_api_method candidate))"

fun dedupe_reference :: "'a model_route_scheme list \<Rightarrow> 'a model_route_scheme list \<Rightarrow> 'a model_route_scheme list" where
  "dedupe_reference kept [] = kept"
| "dedupe_reference kept (r # rs) =
     dedupe_reference (put_route (find (\<lambda>i. duplicate_route (kept ! i) r) [0..<length kept]) r kept) rs"

section \<open>The delay a server asks for\<close>

definition MAX_RETRY_AFTER :: nat where
  "MAX_RETRY_AFTER = 60"

definition sat64 :: "nat \<Rightarrow> nat" where
  "sat64 n = min n (2 ^ 64 - 1)"

definition retry_digit :: "nat \<Rightarrow> char \<Rightarrow> nat" where
  "retry_digit seconds c = min (sat64 (sat64 (seconds * 10) + (byte c - 48))) MAX_RETRY_AFTER"

text \<open>
  The header's text, if it has one that can be read as text, and the clock; the delay in
  nanoseconds. The parser of HTTP dates is an argument: the point in time a text names, in
  nanoseconds.
\<close>

definition retry_after_delay_at :: "(rstr \<Rightarrow> nat option) \<Rightarrow> rstr option \<Rightarrow> nat \<Rightarrow> nat option" where
  "retry_after_delay_at parse_http_date header now =
     (case header of
        None \<Rightarrow> None
      | Some text' \<Rightarrow>
          (let v = trim text'
           in if v = [] then None
              else if list_all is_ascii_digit v then Some (foldl retry_digit 0 v * 10 ^ 9)
              else map_option (\<lambda>t. min (t - now) (MAX_RETRY_AFTER * 10 ^ 9)) (parse_http_date v)))"

section \<open>Model names\<close>

definition LONG_CONTEXT_SUFFIX :: rstr where
  "LONG_CONTEXT_SUFFIX = ''[1m]''"

definition strip_long_context_suffix :: "rstr \<Rightarrow> rstr" where
  "strip_long_context_suffix m =
     (case strip_suffix m LONG_CONTEXT_SUFFIX of Some b \<Rightarrow> b | None \<Rightarrow> m)"

definition split_long_context :: "rstr \<Rightarrow> rstr \<times> bool" where
  "split_long_context m =
     (case strip_suffix m LONG_CONTEXT_SUFFIX of Some b \<Rightarrow> (b, True) | None \<Rightarrow> (m, False))"

definition canonical :: "rstr \<Rightarrow> rstr" where
  "canonical m = strip_long_context_suffix (to_ascii_lowercase (trim m))"

definition strip_date_suffix :: "rstr \<Rightarrow> rstr" where
  "strip_date_suffix m =
     (let tail = last_segment (CHR ''-'') m
      in if CHR ''-'' \<in> set m \<and> length tail = 8 \<and> list_all is_ascii_digit tail
         then take (length m - 9) m else m)"

definition slash_base :: "rstr \<Rightarrow> rstr" where
  "slash_base m = last_segment (CHR ''/'') m"

definition matches_known_model :: "rstr \<Rightarrow> rstr list \<Rightarrow> bool" where
  "matches_known_model m known =
     (let trimmed = trim m
      in (\<exists>k \<in> set known. eq_ignore_ascii_case k trimmed)
         \<or> (\<exists>k \<in> set known. eq_ignore_ascii_case k (strip_long_context_suffix trimmed)))"

end
