(* ===== verification/Provider_Properties.thy ===== *)
theory Provider_Properties
  imports Provider_Routes
begin

text \<open>
  What the provider core promises: its vocabularies for one credential are read back by one
  parser, the bucketed merge of route lists does what the linear one does, a fallback is the
  first of the best usable routes and never the failed one, and a server's delay is bounded.
\<close>

section \<open>Vocabularies\<close>

text \<open>
  A vocabulary of route keys: its words are lower case, without blanks and colons, so a key is
  found again in front of the colon and the model that follow it.
\<close>

locale token_vocabulary = vocabulary spell scan
  for spell :: "'v \<Rightarrow> rstr" and scan :: "rstr \<Rightarrow> 'v option" +
  assumes plain: "list_all (\<lambda>c. plain_char c \<and> c \<noteq> CHR '':'' \<and> to_ascii_lower_char c = c) (spell v)"
    and spelled: "spell v \<noteq> []"
begin

lemma no_colon: "split_once (CHR '':'') (spell v @ CHR '':'' # rest) = Some (spell v, rest)"
proof -
  have "CHR '':'' \<notin> set w \<Longrightarrow> split_once (CHR '':'') (w @ CHR '':'' # rest) = Some (w, rest)" for w
    by (induction w) auto
  then show ?thesis using plain [of v] by (auto simp: list_all_iff)
qed

lemma lowered: "to_ascii_lowercase (spell v) = spell v"
  using plain [of v] by (auto simp: to_ascii_lowercase_def list_all_iff intro: map_idI)

lemma key_base: "\<exists>rest'. to_ascii_lowercase (trim (spell v @ CHR '':'' # rest)) = spell v @ CHR '':'' # rest'"
proof -
  have "list_all plain_char (spell v @ '':'')" and "spell v @ '':'' \<noteq> []"
    using plain [of v] by (auto simp: list_all_iff plain_char_def byte_def ws1_def)
  from trim_keeps_plain [OF this, of rest]
  obtain r where "trim (spell v @ CHR '':'' # rest) = spell v @ CHR '':'' # r" by auto
  moreover have "to_ascii_lower_char (CHR '':'') = CHR '':''"
    by (simp add: to_ascii_lower_char_def byte_def)
  ultimately show ?thesis
    using lowered [of v] by (auto simp: to_ascii_lowercase_def)
qed

lemma key_split:
  "\<exists>rest'. split_once (CHR '':'') (to_ascii_lowercase (trim (spell v @ CHR '':'' # rest))) = Some (spell v, rest')"
  using key_base [of v rest] no_colon by auto

end

lemma trim_plain: "w \<noteq> [] \<Longrightarrow> list_all plain_char w \<Longrightarrow> trim w = w"
  by (cases w) (simp_all add: trim_def trim_end_plain list_all_iff last_in_set)

lemma parse_plain:
  "w \<noteq> [] \<Longrightarrow> list_all plain_char w \<Longrightarrow> last w \<noteq> CHR '':''
    \<Longrightarrow> parse_auth_route w = auth_route_of_word (to_ascii_lowercase w)"
  by (cases "rev w")
    (simp_all add: parse_auth_route_def without_colon_def strip_suffix_def ends_with_def Let_def
      trim_plain last_rev hd_rev)

lemmas vocabulary_words =
  runtime_provider_key_def route_api_method_def model_prefix_def session_provider_key_def
  cli_provider_arg_def anthropic_def openai_def auth_route_of_word_def to_ascii_lowercase_def
  to_ascii_lower_char_def plain_char_def byte_def ws1_def

interpretation env: token_vocabulary runtime_provider_key parse_auth_route
  by unfold_locales
    (auto simp: vocabulary_words parse_plain split: dual_auth_provider.split auth_mode.split)

interpretation stable: token_vocabulary route_api_method parse_auth_route
  by unfold_locales
    (auto simp: vocabulary_words parse_plain split: dual_auth_provider.split auth_mode.split)

interpretation prefixes: token_vocabulary model_prefix parse_auth_route
  by unfold_locales
    (auto simp: vocabulary_words parse_plain split: dual_auth_provider.split auth_mode.split)

interpretation sessions: token_vocabulary session_provider_key parse_auth_route
  by unfold_locales
    (auto simp: vocabulary_words parse_plain split: dual_auth_provider.split auth_mode.split)

interpretation cli: token_vocabulary cli_provider_arg parse_auth_route
  by unfold_locales
    (auto simp: vocabulary_words parse_plain split: dual_auth_provider.split auth_mode.split)

interpretation slots: token_vocabulary provider_key provider_from_model_key
proof
  fix v :: active_provider
  show "provider_from_model_key (provider_key v) = Some v"
    by (cases v) (simp_all add: provider_from_model_key_def)
  show "list_all (\<lambda>c. plain_char c \<and> c \<noteq> CHR '':'' \<and> to_ascii_lower_char c = c) (provider_key v)"
    by (cases v) (simp_all add: to_ascii_lower_char_def plain_char_def byte_def ws1_def)
  show "provider_key v \<noteq> []" by (cases v) simp_all
qed

lemma session_key_arg:
  assumes "split_once (CHR '':'') (to_ascii_lowercase (trim key)) = Some (w, rest)"
    and "parse_auth_route w = Some r"
  shows "cli_provider_arg_for_session_key key = Some (cli_provider_arg r)"
  using assms by (simp add: cli_provider_arg_for_session_key_def)

text \<open>
  A route's key in any of the runtime's vocabularies, followed by a colon and any model,
  gives the command-line argument of that route, and that argument names the route again.
\<close>

theorem session_keys_reach_the_command_line:
  "cli_provider_arg_for_session_key (runtime_provider_key r @ '':'' @ m) = Some (cli_provider_arg r)
   \<and> cli_provider_arg_for_session_key (route_api_method r @ '':'' @ m) = Some (cli_provider_arg r)
   \<and> cli_provider_arg_for_session_key (model_prefix r @ '':'' @ m) = Some (cli_provider_arg r)
   \<and> cli_provider_arg_for_session_key (session_provider_key r @ '':'' @ m) = Some (cli_provider_arg r)
   \<and> cli_provider_arg_for_session_key (cli_provider_arg r @ '':'' @ m) = Some (cli_provider_arg r)
   \<and> parse_auth_route (cli_provider_arg r) = Some r \<and> inj cli_provider_arg"
proof (intro conjI)
  show "cli_provider_arg_for_session_key (runtime_provider_key r @ '':'' @ m) = Some (cli_provider_arg r)"
    using env.key_split [of r m] by (auto intro: session_key_arg)
  show "cli_provider_arg_for_session_key (route_api_method r @ '':'' @ m) = Some (cli_provider_arg r)"
    using stable.key_split [of r m] by (auto intro: session_key_arg)
  show "cli_provider_arg_for_session_key (model_prefix r @ '':'' @ m) = Some (cli_provider_arg r)"
    using prefixes.key_split [of r m] by (auto intro: session_key_arg)
  show "cli_provider_arg_for_session_key (session_provider_key r @ '':'' @ m) = Some (cli_provider_arg r)"
    using sessions.key_split [of r m] by (auto intro: session_key_arg)
  show "cli_provider_arg_for_session_key (cli_provider_arg r @ '':'' @ m) = Some (cli_provider_arg r)"
    using cli.key_split [of r m] by (auto intro: session_key_arg)
qed (rule cli.parse_word, rule injI, rule cli.word_inj)

text \<open>The letter case of a token never matters.\<close>

lemma strip_last: "strip_suffix s [c] = (if s \<noteq> [] \<and> last s = c then Some (butlast s) else None)"
  by (cases s rule: rev_cases) (simp_all add: strip_suffix_def ends_with_def)

lemma without_colon_lower: "without_colon (to_ascii_lowercase t) = to_ascii_lowercase (without_colon t)"
proof -
  have colon: "to_ascii_lower_char c = CHR '':'' \<longleftrightarrow> c = CHR '':''" for c
  proof
    assume c: "to_ascii_lower_char c = CHR '':''"
    then have "byte (to_ascii_lower_char c) = 58" by (simp add: byte_def)
    then have "\<not> (65 \<le> byte c \<and> byte c \<le> 90)" by (auto simp: lower_char_byte)
    then have "to_ascii_lower_char c = c" unfolding to_ascii_lower_char_def by (rule if_not_P)
    with c show "c = CHR '':''" by simp
  qed (simp add: to_ascii_lower_char_def byte_def)
  then show ?thesis
    by (cases "trim t = []")
      (simp_all add: without_colon_def Let_def strip_last trim_lowercase [of t, unfolded to_ascii_lowercase_def]
        to_ascii_lowercase_def last_map map_butlast)
qed

lemma parse_auth_route_case: "parse_auth_route (to_ascii_lowercase t) = parse_auth_route t"
  by (simp add: parse_auth_route_def without_colon_lower trim_lowercase)

lemma models_match_case: "models_match (to_ascii_lowercase a) b = models_match a b"
  by (simp add: models_match_def eq_ignore_ascii_case_def trim_lowercase)

lemma canonical_case: "canonical (to_ascii_lowercase m) = canonical m"
  by (simp add: canonical_def trim_lowercase)

section \<open>Choosing a provider\<close>

text \<open>The default is configured whenever anything is, and is Claude's slot otherwise.\<close>

lemma auto_default_configured:
  "is_configured a p \<Longrightarrow> is_configured a (auto_default_provider a)"
  "\<not> is_configured a (auto_default_provider a) \<Longrightarrow> auto_default_provider a = Claude_Slot"
  by (cases p; auto simp: auto_default_provider_def) (auto simp: auto_default_provider_def split: if_splits)

text \<open>A prefix is cut off, nothing else; and its provider is the one its name spells.\<close>

lemma prefix_walk_cuts: "prefix_walk ps m = Some (p, pre, rest) \<Longrightarrow> m = pre @ rest \<and> (pre, p) \<in> set ps"
  by (induction ps m rule: prefix_walk.induct)
    (auto simp: strip_prefix_def starts_with_split split: option.splits if_splits)

lemma explicit_prefix_cuts:
  "explicit_model_provider_prefix m = Some (p, pre, rest) \<Longrightarrow> m = pre @ rest \<and> (pre, p) \<in> set EXPLICIT_PREFIXES"
  unfolding explicit_model_provider_prefix_def by (rule prefix_walk_cuts)

section \<open>Merging route lists\<close>

definition in_bucket :: "'a model_route_scheme list \<Rightarrow> rstr \<times> rstr \<Rightarrow> nat list" where
  "in_bucket kept k = filter (\<lambda>i. route_key (kept ! i) = k) [0..<length kept]"

lemma find_filter: "find P (filter Q xs) = find (\<lambda>x. Q x \<and> P x) xs"
  by (induction xs) auto

lemma duplicate_route_iff:
  "duplicate_route a b \<longleftrightarrow> route_key a = route_key b \<and> duplicate_method (r_api_method a) (r_api_method b)"
  by (auto simp: duplicate_route_def route_key_def)

lemma in_bucket_find:
  "find (\<lambda>i. duplicate_method (r_api_method (kept ! i)) (r_api_method r)) (in_bucket kept (route_key r))
    = find (\<lambda>i. duplicate_route (kept ! i) r) [0..<length kept]"
  by (simp add: in_bucket_def find_filter duplicate_route_iff)

abbreviation found_at :: "'a model_route_scheme list \<Rightarrow> 'a model_route_scheme \<Rightarrow> nat option" where
  "found_at kept r \<equiv> find (\<lambda>i. duplicate_route (kept ! i) r) [0..<length kept]"

lemma found_at_Some: "found_at kept r = Some i \<Longrightarrow> i < length kept \<and> duplicate_route (kept ! i) r"
  by (auto simp: find_Some_iff)

lemma found_at_None: "found_at kept r = None \<longleftrightarrow> \<not> (\<exists>k \<in> set kept. duplicate_route k r)"
  by (simp add: find_None_iff) (metis in_set_conv_nth)

lemma in_bucket_put:
  "in_bucket (put_route (found_at kept r) r kept)
    = (if found_at kept r = None
       then (in_bucket kept)(route_key r := in_bucket kept (route_key r) @ [length kept])
       else in_bucket kept)"
proof (cases "found_at kept r")
  case None
  then show ?thesis by (auto simp: in_bucket_def put_route_def nth_append intro!: ext filter_cong)
next
  case (Some i)
  from found_at_Some [OF Some] have "map route_key (put_route (Some i) r kept) = map route_key kept"
    by (simp add: put_route_def map_update duplicate_route_iff)
      (metis list_update_id nth_map)
  then have "length (put_route (Some i) r kept) = length kept"
    "j < length kept \<Longrightarrow> route_key (put_route (Some i) r kept ! j) = route_key (kept ! j)" for j
    by (metis length_map, metis length_map nth_map)
  then show ?thesis using Some by (auto simp: in_bucket_def intro!: ext filter_cong)
qed

lemma in_bucket_Nil: "in_bucket [] = (\<lambda>k. [])"
  by (simp add: fun_eq_iff in_bucket_def)

lemma dedupe_loop_reference: "dedupe_loop kept (in_bucket kept) rs = dedupe_reference kept rs"
proof (induction rs arbitrary: kept)
  case (Cons r rs)
  from Cons [of "put_route (found_at kept r) r kept"] show ?case
    by (simp add: in_bucket_find in_bucket_put Let_def)
qed simp

text \<open>What the merge keeps: a kept route stands for every route with its key that has its
  transport, or the generic transport when its own is a profile's.\<close>

definition stands_for :: "'a model_route_scheme \<Rightarrow> 'a model_route_scheme \<Rightarrow> bool" where
  "stands_for k r =
     (route_key k = route_key r
      \<and> (r_api_method k = r_api_method r
         \<or> is_profile_compatible (r_api_method k) \<and> is_generic_compatible (r_api_method r)))"

abbreviation apart :: "'a model_route_scheme list \<Rightarrow> bool" where
  "apart \<equiv> sorted_wrt (\<lambda>a b. \<not> duplicate_route a b)"

lemma not_both_kinds: "is_generic_compatible m \<Longrightarrow> \<not> is_profile_compatible m"
  by (simp add: is_generic_compatible_def is_profile_compatible_def)

lemma generic_unique: "is_generic_compatible a \<Longrightarrow> is_generic_compatible b \<Longrightarrow> a = b"
  by (simp add: is_generic_compatible_def)

lemma put_route_apart:
  assumes "apart kept"
  shows "apart (put_route (found_at kept r) r kept)"
proof (cases "found_at kept r")
  case None
  then show ?thesis using assms found_at_None [of kept r] by (auto simp: put_route_def sorted_wrt_append)
next
  case (Some i)
  note i = found_at_Some [OF Some]
  show ?thesis
  proof (cases "should_replace (kept ! i) r")
    case True
    have r: "is_generic_compatible (r_api_method (kept ! i))" "is_profile_compatible (r_api_method r)"
      "route_key (kept ! i) = route_key r"
      using i True by (auto simp: should_replace_def duplicate_route_iff duplicate_method_def)
    have away: "duplicate_route k r \<Longrightarrow> duplicate_route k (kept ! i)"
      "duplicate_route r k \<Longrightarrow> duplicate_route (kept ! i) k" for k
      using r by (auto simp: duplicate_route_iff duplicate_method_def dest: not_both_kinds intro: generic_unique generic_unique [symmetric])
    show ?thesis
      using assms i True away Some
      by (auto simp: put_route_def sorted_wrt_iff_nth_less nth_list_update)
  next
    case False
    then show ?thesis using assms Some by (simp add: put_route_def)
  qed
qed

lemma put_route_stands:
  "k \<in> set kept \<Longrightarrow> stands_for k q \<Longrightarrow> \<exists>k' \<in> set (put_route (found_at kept r) r kept). stands_for k' q"
  "\<exists>k' \<in> set (put_route (found_at kept r) r kept). stands_for k' r"
proof -
  let ?ks = "put_route (found_at kept r) r kept"
  consider (new) "found_at kept r = None" "?ks = kept @ [r]"
    | (same) i where "found_at kept r = Some i" "?ks = kept" "\<not> should_replace (kept ! i) r"
    | (better) i where "found_at kept r = Some i" "?ks = kept[i := r]" "should_replace (kept ! i) r"
    by (cases "found_at kept r") (auto simp: put_route_def)
  then show "\<exists>k' \<in> set ?ks. stands_for k' r"
  proof cases
    case same
    from found_at_Some [OF same(1)] have "kept ! i \<in> set kept" "stands_for (kept ! i) r"
      using same(3) by (auto simp: stands_for_def should_replace_def duplicate_route_iff duplicate_method_def
        dest: not_both_kinds)
    then show ?thesis using same(2) by auto
  next
    case better
    from found_at_Some [OF better(1)] have "r \<in> set ?ks" using better(2) by (simp add: set_update_memI)
    then show ?thesis by (auto simp: stands_for_def)
  qed (auto simp: stands_for_def)
  show "\<exists>k' \<in> set ?ks. stands_for k' q" if k: "k \<in> set kept" "stands_for k q"
  proof (cases "k \<in> set ?ks")
    case False
    then obtain i where i: "found_at kept r = Some i" "?ks = kept[i := r]" "should_replace (kept ! i) r"
      using k(1) by (cases "found_at kept r") (auto simp: put_route_def split: if_splits)
    note at = found_at_Some [OF i(1)]
    have "k = kept ! i"
      using k(1) False i(2) by (metis in_set_conv_nth length_list_update nth_list_update_neq)
    then have "is_generic_compatible (r_api_method k)" "route_key k = route_key r"
      using at i(3) by (auto simp: should_replace_def duplicate_route_iff duplicate_method_def)
    then have "stands_for r q"
      using k(2) i(3) by (auto simp: stands_for_def should_replace_def dest: not_both_kinds)
    moreover have "r \<in> set ?ks" using at i(2) by (simp add: set_update_memI)
    ultimately show ?thesis by blast
  qed (use k in blast)
qed

lemma put_route_known: "set (put_route found r kept) \<subseteq> insert r (set kept)"
  by (auto simp: put_route_def split: option.split dest: set_update_subset_insert [THEN subsetD])

lemma dedupe_reference_keeps:
  assumes "apart kept"
  shows "apart (dedupe_reference kept rs)"
    and "\<exists>k \<in> set kept. stands_for k q \<Longrightarrow> \<exists>k \<in> set (dedupe_reference kept rs). stands_for k q"
    and "q \<in> set rs \<Longrightarrow> \<exists>k \<in> set (dedupe_reference kept rs). stands_for k q"
    and "set (dedupe_reference kept rs) \<subseteq> set kept \<union> set rs"
  using assms
proof (induction rs arbitrary: kept)
  case (Cons r rs)
  let ?ks = "put_route (found_at kept r) r kept"
  {
    case 1
    show ?case using Cons.IH(1) put_route_apart [OF 1, of r] by simp
  next
    case 2
    then show ?case
      using Cons.IH(2) [OF _ put_route_apart [OF 2(2), of r]] put_route_stands(1) [of _ kept q r] by auto
  next
    case 3
    note apart = put_route_apart [OF 3(2), of r]
    show ?case using 3 Cons.IH(2,3) [OF _ apart] put_route_stands(2) [of kept r] by auto
  next
    case 4
    show ?case
      using Cons.IH(4) [OF put_route_apart [OF 4, of r]] put_route_known [of "found_at kept r" r kept] by auto
  }
qed simp_all

text \<open>
  C36: The merge with buckets returns exactly what the quadratic reference returns; no two of
  the kept routes are duplicates, each was in the list, and each route of the list is still
  there: with its own transport, or, for a generic one, as the profile that replaced it.
\<close>

theorem merged_routes_spec:
  "dedupe_model_routes rs = dedupe_reference [] rs
   \<and> sorted_wrt (\<lambda>a b. \<not> duplicate_route a b) (dedupe_model_routes rs)
   \<and> set (dedupe_model_routes rs) \<subseteq> set rs
   \<and> (\<forall>r \<in> set rs. \<exists>k \<in> set (dedupe_model_routes rs). stands_for k r)"
proof -
  have same: "dedupe_model_routes rs = dedupe_reference [] rs"
    using dedupe_loop_reference [of "[]" rs] by (simp add: dedupe_model_routes_def in_bucket_Nil)
  then show ?thesis
    using dedupe_reference_keeps(1,4) [of "[]" rs] dedupe_reference_keeps(3) [of "[]" _ rs] by simp
qed

definition sample_routes :: "model_route list" where
  "sample_routes =
     [\<lparr>r_model = ''m'', r_provider = ''P'', r_api_method = ''openai-compatible'', r_available = True, r_detail = ''a''\<rparr>,
      \<lparr>r_model = ''n'', r_provider = ''P'', r_api_method = ''openai-oauth'', r_available = True, r_detail = ''b''\<rparr>,
      \<lparr>r_model = ''m'', r_provider = ''P'', r_api_method = ''openai-compatible:x'', r_available = True, r_detail = ''c''\<rparr>]"

theorem merged_routes_spec_witness:
  "\<exists>k \<in> set (dedupe_model_routes sample_routes). stands_for k (hd sample_routes)"
  proof -
  have "hd sample_routes \<in> set sample_routes" by (simp add: sample_routes_def)
  then show ?thesis using merged_routes_spec [of sample_routes] by blast
qed

section \<open>The route after a failure\<close>

text \<open>A route that may be offered: available, and neither the failed route nor, after a failure
  of its credential, one that signs in with the same credential.\<close>

definition usable :: "failed_route \<Rightarrow> 'a model_route_scheme \<Rightarrow> bool" where
  "usable f r =
     (r_available r
      \<and> \<not> (same_provider f r \<and> (same_method f r \<or> unknown_method f)
           \<and> (models_match (r_model r) (cur_model f) \<or> credential_failure f)))"

text \<open>The same model through another sign-in comes first, then another model of the provider.\<close>

definition tier :: "failed_route \<Rightarrow> 'a model_route_scheme \<Rightarrow> nat" where
  "tier f r =
     (if models_match (r_model r) (cur_model f) \<and> \<not> same_method f r then 0
      else if same_provider f r then 1 else 2)"

definition signs_in :: "'a model_route_scheme \<Rightarrow> bool" where
  "signs_in r = api_method_is_oauth (parse_api_method (r_api_method r))"

definition claim_of :: "failed_route \<Rightarrow> 'a model_route_scheme list \<Rightarrow> nat \<Rightarrow> nat \<times> nat \<times> nat" where
  "claim_of f routes i = (tier f (routes ! i), if signs_in (routes ! i) then 0 else 1, i)"

lemma route_rank_usable:
  "r_available r \<Longrightarrow>
     route_rank f r = (if usable f r then Some (tier f r, if signs_in r then 0 else 1) else None)"
  by (auto simp: route_rank_def usable_def tier_def signs_in_def Let_def)

lemma ranked_set:
  "set (List.map_filter (\<lambda>(i, r). map_option (\<lambda>(tier, pref). (tier, pref, i)) (route_rank f r))
          (filter (\<lambda>(i, r). r_available r) (enumerate 0 routes)))
    = claim_of f routes ` {i. i < length routes \<and> usable f (routes ! i)}"
proof -
  have "usable f r \<Longrightarrow> r_available r" for r :: "'a model_route_scheme" by (simp add: usable_def)
  then show ?thesis
    by (force simp: List.map_filter_def claim_of_def in_set_enumerate_eq route_rank_usable image_iff
      split: if_splits)
qed

lemma pick_least:
  "pick_next_fallback_route routes f =
     (let us = {i. i < length routes \<and> usable f (routes ! i)}
      in if us = {} then None else Some (snd (snd (Min (claim_of f routes ` us)))))"
  unfolding pick_next_fallback_route_def Let_def
  by (simp only: set_empty [symmetric] ranked_set image_is_empty)

text \<open>
  A fallback is offered exactly when a route is usable. The one offered is usable (so it
  is never the failed route, nor one with the failed credential); no usable route is of a
  better tier; within its tier it signs in if any does; and it is the first of those.
\<close>

theorem fallback_spec:
  assumes "pick_next_fallback_route routes f = choice"
  shows "case choice of
      None \<Rightarrow> \<forall>r \<in> set routes. \<not> usable f r
    | Some i \<Rightarrow> i < length routes \<and> usable f (routes ! i)
        \<and> (\<forall>j < length routes. usable f (routes ! j) \<longrightarrow>
             tier f (routes ! i) \<le> tier f (routes ! j)
             \<and> (tier f (routes ! j) = tier f (routes ! i) \<longrightarrow>
                  (signs_in (routes ! j) \<longrightarrow> signs_in (routes ! i))
                  \<and> (signs_in (routes ! j) = signs_in (routes ! i) \<longrightarrow> i \<le> j)))"
proof (cases choice)
  case None
  then show ?thesis using assms by (auto simp: pick_least Let_def in_set_conv_nth split: if_splits)
next
  case (Some i)
  define us where "us = {i. i < length routes \<and> usable f (routes ! i)}"
  have us: "us \<noteq> {}" and i: "i = snd (snd (Min (claim_of f routes ` us)))"
    using assms Some by (auto simp: pick_least Let_def us_def split: if_splits)
  have fin: "finite us" by (simp add: us_def)
  from Min_in [of "claim_of f routes ` us"] us fin
  obtain k where k: "k \<in> us" "Min (claim_of f routes ` us) = claim_of f routes k"
    by (meson finite_imageI imageE image_is_empty)
  with i have "k = i" by (simp add: claim_of_def)
  with k fin have least: "claim_of f routes i \<le> claim_of f routes j" if "j \<in> us" for j
    using that Min_le [of "claim_of f routes ` us" "claim_of f routes j"] by simp
  have in_us: "i \<in> us" using k \<open>k = i\<close> by simp
  have least': "tier f (routes ! i) < tier f (routes ! j)
      \<or> tier f (routes ! i) = tier f (routes ! j)
         \<and> (signs_in (routes ! i) \<and> \<not> signs_in (routes ! j)
            \<or> signs_in (routes ! i) = signs_in (routes ! j) \<and> i \<le> j)"
    if "j < length routes" and "usable f (routes ! j)" for j
    using least [of j] that by (auto simp: us_def claim_of_def split: if_splits)
  show ?thesis using in_us Some by (auto simp: us_def dest!: least')
qed

definition sample_failure :: failed_route where
  "sample_failure =
     \<lparr>cur_model = ''m'', cur_provider = ''P'', cur_api_method = ''openai-compatible'',
      credential_failure = False\<rparr>"

theorem fallback_spec_witness:
  "usable sample_failure (sample_routes ! 2) \<and> tier sample_failure (sample_routes ! 2) \<le> tier sample_failure (sample_routes ! 1)"
proof -
  have "pick_next_fallback_route sample_routes sample_failure = Some 2"
    and "length sample_routes = 3" and "usable sample_failure (sample_routes ! 1)"
    by code_simp+
  then show ?thesis using fallback_spec [of sample_routes sample_failure "Some 2"] by simp
qed

section \<open>The delay a server asks for\<close>

lemma digits_value_grows: "n \<le> digits_value n w"
proof (induction w arbitrary: n)
  case (Cons c w)
  from Cons [of "10 * n + (byte c - 48)"] show ?case by simp
qed simp

lemma retry_digits: "seconds \<le> 60 \<Longrightarrow> foldl retry_digit seconds v = min 60 (digits_value seconds v)"
proof (induction v arbitrary: seconds)
  case (Cons c v)
  let ?n = "10 * seconds + (byte c - 48)"
  have "byte c < 256" using nat_of_char_less_256 [of c] by (simp add: byte_def)
  then have "retry_digit seconds c = min 60 ?n"
    using Cons.prems by (simp add: retry_digit_def sat64_def MAX_RETRY_AFTER_def mult.commute)
  moreover have "min 60 (digits_value (min 60 ?n) v) = min 60 (digits_value ?n v)"
    using digits_value_grows [of ?n v] digits_value_grows [of 60 v] by (cases "60 \<le> ?n") auto
  ultimately show ?case using Cons.IH [of "min 60 ?n"] by simp
qed simp

text \<open>
  Whatever the header holds, the delay is at most a minute. A number of any length is that
  many seconds, capped; any other text must be a date and is the time until it, capped, and
  nothing when it is past.
\<close>

theorem retry_delay_spec:
  assumes "v \<noteq> []" and "list_all plain_char v"
  shows "(retry_after_delay_at parse_http_date (Some v) now =
      (if list_all is_ascii_digit v then Some (min 60 (digits_value 0 v) * 10 ^ 9)
       else case parse_http_date v of
              None \<Rightarrow> None
            | Some t \<Rightarrow> Some (if t \<le> now then 0 else min (t - now) (60 * 10 ^ 9))))
     \<and> (case retry_after_delay_at parse_http_date header now of None \<Rightarrow> True | Some d \<Rightarrow> d \<le> 60 * 10 ^ 9)"
  using assms
  by (auto simp: retry_after_delay_at_def retry_digits trim_plain MAX_RETRY_AFTER_def Let_def split: option.split)

theorem retry_delay_spec_witness:
  "retry_after_delay_at (\<lambda>v. None) (Some ''99999999999999999999999'') 0 = Some (60 * 10 ^ 9)"
  using retry_delay_spec [of "''99999999999999999999999''" "\<lambda>v. None" 0]
  by (simp add: is_ascii_digit_def plain_char_def byte_def ws1_def)

end
