(* ===== verification/Schema_Dialect.thy ===== *)
theory Schema_Dialect
  imports Prelude "HOL-Library.List_Lexorder"
begin

text \<open>
  Tool schemas in a provider's dialect, \<open>crates/kcode-schema-dialect/src\<close>: which keywords
  hold further schemas (\<open>keyword.rs\<close>), the rewrite into a dialect (\<open>dialect.rs\<close>), the table
  of dialects (\<open>registry.rs\<close>) and the checks of a rewritten schema (\<open>conformance.rs\<close>).

  A JSON object is the list of its entries in the order of their keys, as \<open>serde_json\<close>'s map
  (a \<open>BTreeMap\<close>) walks them; keys are compared byte by byte.
\<close>

section \<open>Objects\<close>

type_synonym entries = "(rstr \<times> json) list"

text \<open>\<open>Map::insert\<close>: replaces the entry or adds it at its place.\<close>

fun put :: "rstr \<Rightarrow> 'v \<Rightarrow> (rstr \<times> 'v) list \<Rightarrow> (rstr \<times> 'v) list" where
  "put k v [] = [(k, v)]"
| "put k v ((k', v') # m) =
     (if k = k' then (k, v) # m
      else if k < k' then (k, v) # (k', v') # m
      else (k', v') # put k v m)"

definition has_key :: "rstr \<Rightarrow> (rstr \<times> 'v) list \<Rightarrow> bool" where
  "has_key k m = (map_of m k \<noteq> None)"

text \<open>\<open>Map::remove\<close>, and \<open>entry(k).or_insert(v)\<close>.\<close>

definition drop_key :: "rstr \<Rightarrow> (rstr \<times> 'v) list \<Rightarrow> (rstr \<times> 'v) list" where
  "drop_key k m = filter (\<lambda>(k', v). k' \<noteq> k) m"

definition put_new :: "rstr \<Rightarrow> 'v \<Rightarrow> (rstr \<times> 'v) list \<Rightarrow> (rstr \<times> 'v) list" where
  "put_new k v m = (if has_key k m then m else put k v m)"

fun as_str :: "json \<Rightarrow> rstr option" where
  "as_str (JString s) = Some s"
| "as_str _ = None"

fun as_array :: "json \<Rightarrow> json list option" where
  "as_array (JArray xs) = Some xs"
| "as_array _ = None"

fun as_object :: "json \<Rightarrow> entries option" where
  "as_object (JObject m) = Some m"
| "as_object _ = None"

definition get_array :: "rstr \<Rightarrow> entries \<Rightarrow> json list option" where
  "get_array k m = Option.bind (map_of m k) as_array"

definition get_object :: "rstr \<Rightarrow> entries \<Rightarrow> entries option" where
  "get_object k m = Option.bind (map_of m k) as_object"

section \<open>Keywords\<close>

datatype keyword_role = Subschema | Subschema_Map | Subschema_Array | Data

definition SUBSCHEMA_MAP_KEYWORDS :: "rstr list" where
  "SUBSCHEMA_MAP_KEYWORDS =
     [''properties'', ''patternProperties'', ''$defs'', ''definitions'', ''dependentSchemas'']"

definition SUBSCHEMA_KEYWORDS :: "rstr list" where
  "SUBSCHEMA_KEYWORDS =
     [''items'', ''additionalItems'', ''additionalProperties'', ''contains'', ''propertyNames'',
      ''not'', ''if'', ''then'', ''else'', ''unevaluatedItems'', ''unevaluatedProperties'',
      ''contentSchema'']"

definition SUBSCHEMA_ARRAY_KEYWORDS :: "rstr list" where
  "SUBSCHEMA_ARRAY_KEYWORDS = [''allOf'', ''anyOf'', ''oneOf'', ''prefixItems'']"

definition DATA_KEYWORDS :: "rstr list" where
  "DATA_KEYWORDS = [''enum'', ''const'', ''default'', ''examples'', ''required'']"

definition keyword_role :: "rstr \<Rightarrow> keyword_role" where
  "keyword_role key =
     (if key \<in> set SUBSCHEMA_MAP_KEYWORDS then Subschema_Map
      else if key \<in> set SUBSCHEMA_KEYWORDS then Subschema
      else if key \<in> set SUBSCHEMA_ARRAY_KEYWORDS then Subschema_Array
      else if key \<in> set DATA_KEYWORDS then Data
      else Data)"

definition LOAD_BEARING_KEYWORDS :: "rstr list" where
  "LOAD_BEARING_KEYWORDS =
     [''type'', ''properties'', ''items'', ''required'', ''enum'', ''description'']"

definition is_droppable :: "rstr \<Rightarrow> bool" where
  "is_droppable key = (key \<notin> set LOAD_BEARING_KEYWORDS)"

section \<open>Dialects\<close>

record dialect_transforms =
  flatten_top_level :: bool
  flatten_all :: bool
  require_properties :: bool
  prune_dangling :: bool
  const_as_enum :: bool
  one_of_as_any_of :: bool
  merge_all_of :: bool

record dialect_spec =
  spec_id :: rstr
  supported_keywords :: "rstr list"
  supported_string_formats :: "rstr list"
  transforms :: dialect_transforms

definition UNIVERSAL_KEYWORDS :: "rstr list" where
  "UNIVERSAL_KEYWORDS = [''type'', ''properties'', ''items'', ''required'', ''enum'', ''title'']"

definition supports :: "dialect_spec \<Rightarrow> rstr \<Rightarrow> bool" where
  "supports spec key = (key \<in> set UNIVERSAL_KEYWORDS \<or> key \<in> set (supported_keywords spec))"

definition supports_format :: "dialect_spec \<Rightarrow> rstr \<Rightarrow> bool" where
  "supports_format spec f =
     (supported_string_formats spec = [] \<or> f \<in> set (supported_string_formats spec))"

datatype spec_error = Load_Bearing_Missing rstr | Universal_Listed rstr

definition validate :: "dialect_spec \<Rightarrow> spec_error + unit" where
  "validate spec =
     (case find (\<lambda>key. \<not> supports spec key) LOAD_BEARING_KEYWORDS of
        Some key \<Rightarrow> Inl (Load_Bearing_Missing key)
      | None \<Rightarrow>
          (case find (\<lambda>key. key \<in> set UNIVERSAL_KEYWORDS) (supported_keywords spec) of
             Some key \<Rightarrow> Inl (Universal_Listed key)
           | None \<Rightarrow> Inr ()))"

record learned_quirks =
  rejected_keywords :: "rstr list"
  rejected_formats :: "rstr list"

definition no_quirks :: learned_quirks where
  "no_quirks = \<lparr>rejected_keywords = [], rejected_formats = []\<rparr>"

section \<open>The rewrite\<close>

definition is_object_typed :: "entries \<Rightarrow> bool" where
  "is_object_typed m =
     (case map_of m ''type'' of
        Some (JString t) \<Rightarrow> t = ''object''
      | Some (JArray ts) \<Rightarrow> list_ex (\<lambda>t. as_str t = Some ''object'') ts
      | _ \<Rightarrow> False)"

definition prune_dangling_required :: "entries \<Rightarrow> entries" where
  "prune_dangling_required out =
     (case get_object ''properties'' out of
        None \<Rightarrow> out
      | Some ps \<Rightarrow>
          (case get_array ''required'' out of
             None \<Rightarrow> out
           | Some names \<Rightarrow>
               (let kept = filter (\<lambda>n. case as_str n of Some s \<Rightarrow> has_key s ps | None \<Rightarrow> False) names
                in if kept = [] then drop_key ''required'' out else put ''required'' (JArray kept) out)))"

text \<open>The names a list of requirements gains, each once.\<close>

definition strings_of :: "json list \<Rightarrow> rstr list" where
  "strings_of xs = List.map_filter as_str xs"

definition push_new :: "rstr \<Rightarrow> rstr list \<Rightarrow> rstr list" where
  "push_new n ns = (if n \<in> set ns then ns else ns @ [n])"

definition adopt_type :: "entries \<Rightarrow> entries \<Rightarrow> entries" where
  "adopt_type branch out =
     (if has_key ''type'' out then out
      else (case map_of branch ''type'' of Some t \<Rightarrow> put ''type'' t out | None \<Rightarrow> out))"

definition adopt_properties :: "entries \<Rightarrow> entries \<Rightarrow> entries" where
  "adopt_properties branch ps =
     (case get_object ''properties'' branch of
        Some bps \<Rightarrow> fold (\<lambda>(n, p). put_new n p) bps ps
      | None \<Rightarrow> ps)"

definition adopt_required :: "entries \<Rightarrow> rstr list \<Rightarrow> rstr list" where
  "adopt_required branch ns =
     (case get_array ''required'' branch of
        Some names \<Rightarrow> fold push_new (strings_of names) ns
      | None \<Rightarrow> ns)"

fun merge_branch :: "json \<Rightarrow> entries \<times> entries \<times> rstr list \<Rightarrow> entries \<times> entries \<times> rstr list" where
  "merge_branch (JObject b) (out, ps, ns) =
     (adopt_type b out, adopt_properties b ps, adopt_required b ns)"
| "merge_branch _ st = st"

definition own_properties :: "entries \<Rightarrow> entries" where
  "own_properties out = (case get_object ''properties'' out of Some ps \<Rightarrow> ps | None \<Rightarrow> [])"

definition merge_all_of_branches :: "entries \<Rightarrow> entries" where
  "merge_all_of_branches out0 =
     (let out = drop_key ''allOf'' out0
      in case get_array ''allOf'' out0 of
           None \<Rightarrow> out
         | Some branches \<Rightarrow>
             (let ns0 = (case get_array ''required'' out of Some xs \<Rightarrow> strings_of xs | None \<Rightarrow> []);
                  (out1, ps, ns) = fold merge_branch branches (out, own_properties out, ns0);
                  out2 = (if ps = [] then out1 else put ''properties'' (JObject ps) out1);
                  out3 = (if ns = [] then drop_key ''required'' out2
                          else put ''required'' (JArray (map JString ns)) out2)
              in prune_dangling_required out3))"

text \<open>The key an entry is kept under, and the entry's effect on the object built so far:
  dropped, moved to \<open>enum\<close>, kept, or merged with what already stands there.\<close>

definition out_key :: "dialect_spec \<Rightarrow> rstr \<Rightarrow> rstr" where
  "out_key spec key =
     (if key = ''oneOf'' \<and> one_of_as_any_of (transforms spec) then ''anyOf'' else key)"

definition place :: "rstr \<Rightarrow> json \<Rightarrow> entries \<Rightarrow> entries" where
  "place key normalized out =
     (case map_of out key of
        Some (JArray existing) \<Rightarrow>
          (case normalized of
             JArray incoming \<Rightarrow> put key (JArray (existing @ incoming)) out
           | _ \<Rightarrow> out)
      | _ \<Rightarrow> put key normalized out)"

fun add_entry :: "dialect_spec \<Rightarrow> learned_quirks \<Rightarrow> rstr \<times> json \<times> json \<Rightarrow> entries \<Rightarrow> entries" where
  "add_entry spec q (key, value, normalized) out =
     (if (\<not> supports spec (out_key spec key) \<or> key \<in> set (rejected_keywords q)) \<and> is_droppable key
      then (if key = ''const'' \<and> const_as_enum (transforms spec)
            then put ''enum'' (JArray [value]) out else out)
      else if key = ''format''
      then (case as_str value of
              Some f \<Rightarrow>
                if supports_format spec f \<and> f \<notin> set (rejected_formats q) then put key value out else out
            | None \<Rightarrow> out)
      else place (out_key spec key) normalized out)"

definition finish :: "dialect_spec \<Rightarrow> entries \<Rightarrow> entries" where
  "finish spec out =
     (let t = transforms spec;
          out1 = (if prune_dangling t then prune_dangling_required out else out);
          out2 = (if merge_all_of t then merge_all_of_branches out1 else out1)
      in if require_properties t \<and> is_object_typed out2
         then put_new ''properties'' (JObject []) out2 else out2)"

fun walk :: "dialect_spec \<Rightarrow> learned_quirks \<Rightarrow> json \<Rightarrow> json" where
  "walk spec q (JObject m) =
     JObject (finish spec (fold (add_entry spec q)
       (map (\<lambda>(key, value).
          (key, value,
           case keyword_role key of
             Subschema_Map \<Rightarrow>
               (case value of
                  JObject children \<Rightarrow> JObject (map (\<lambda>(n, child). (n, walk spec q child)) children)
                | _ \<Rightarrow> value)
           | Subschema_Array \<Rightarrow>
               (case value of
                  JArray xs \<Rightarrow> JArray (map (walk spec q) xs)
                | _ \<Rightarrow> walk spec q value)
           | Subschema \<Rightarrow> walk spec q value
           | Data \<Rightarrow> value)) m) []))"
| "walk spec q (JArray xs) = JArray (map (walk spec q) xs)"
| "walk spec q j = j"

section \<open>Flattening combiners\<close>

definition flatten_branch :: "rstr \<Rightarrow> json \<Rightarrow> entries \<times> rstr list \<Rightarrow> entries \<times> rstr list" where
  "flatten_branch combiner branch acc =
     (case as_object branch of
        Some b \<Rightarrow>
          (adopt_properties b (fst acc),
           if combiner = ''allOf'' then adopt_required b (snd acc) else snd acc)
      | None \<Rightarrow> acc)"

record flattening =
  f_out :: entries
  f_properties :: entries
  f_required :: "rstr list"
  f_seen :: bool

definition flatten_keyword :: "rstr \<Rightarrow> flattening \<Rightarrow> flattening" where
  "flatten_keyword combiner st =
     (let out = drop_key combiner (f_out st)
      in case get_array combiner (f_out st) of
           None \<Rightarrow> st\<lparr>f_out := out\<rparr>
         | Some branches \<Rightarrow>
             (let (ps, ns) = fold (flatten_branch combiner) branches (f_properties st, f_required st)
              in \<lparr>f_out = out, f_properties = ps, f_required = ns, f_seen = True\<rparr>))"

definition push_name :: "rstr \<Rightarrow> json list \<Rightarrow> json list" where
  "push_name n xs = (if JString n \<in> set xs then xs else xs @ [JString n])"

definition require_names :: "rstr list \<Rightarrow> entries \<Rightarrow> entries" where
  "require_names ns out =
     (if ns = [] then out
      else (let out' = put_new ''required'' (JArray []) out
            in case get_array ''required'' out' of
                 Some xs \<Rightarrow> put ''required'' (JArray (fold push_name ns xs)) out'
               | None \<Rightarrow> out'))"

definition flatten_object :: "entries \<Rightarrow> entries" where
  "flatten_object out =
     (let st = fold flatten_keyword [''oneOf'', ''anyOf'', ''allOf'']
                 \<lparr>f_out = out, f_properties = own_properties out, f_required = [], f_seen = False\<rparr>
      in if \<not> f_seen st then f_out st
         else prune_dangling_required (require_names (f_required st)
                (put ''properties'' (JObject (f_properties st))
                   (put ''type'' (JString ''object'') (f_out st)))))"

fun flatten_top_level_combiners :: "json \<Rightarrow> json" where
  "flatten_top_level_combiners (JObject m) = JObject (flatten_object m)"
| "flatten_top_level_combiners j = j"

definition merge_property :: "json \<Rightarrow> json \<Rightarrow> json" where
  "merge_property parent branch =
     (case (as_object parent, as_object branch) of
        (Some pm, Some bm) \<Rightarrow> JObject (fold (\<lambda>(k, v). put_new k v) pm bm)
      | _ \<Rightarrow> parent)"

definition merge_named :: "rstr \<times> json \<Rightarrow> entries \<Rightarrow> entries" where
  "merge_named e existing =
     (case map_of existing (fst e) of
        Some parent \<Rightarrow> put (fst e) (merge_property parent (snd e)) existing
      | None \<Rightarrow> put (fst e) (snd e) existing)"

definition merge_sibling :: "rstr \<times> json \<Rightarrow> entries \<Rightarrow> entries" where
  "merge_sibling e flattened =
     (case map_of flattened (fst e) of
        None \<Rightarrow> put (fst e) (snd e) flattened
      | Some present \<Rightarrow>
          (case (as_object present, as_object (snd e)) of
             (Some existing, Some incoming) \<Rightarrow>
               if fst e = ''properties''
               then put (fst e) (JObject (fold merge_named incoming existing)) flattened
               else flattened
           | _ \<Rightarrow> flattened))"

text \<open>The first combiner with a branch, and that branch.\<close>

definition first_branch :: "entries \<Rightarrow> rstr \<Rightarrow> json option" where
  "first_branch m combiner =
     (case get_array combiner m of Some (b # bs) \<Rightarrow> Some b | _ \<Rightarrow> None)"

definition chosen_combiner :: "entries \<Rightarrow> (rstr \<times> json) option" where
  "chosen_combiner m =
     (case find (\<lambda>c. first_branch m c \<noteq> None) [''anyOf'', ''oneOf'', ''allOf''] of
        Some c \<Rightarrow> map_option (Pair c) (first_branch m c)
      | None \<Rightarrow> None)"

lemma get_array_Some: "get_array k m = Some xs \<longleftrightarrow> map_of m k = Some (JArray xs)"
  by (cases "map_of m k" rule: option.exhaust) (auto simp: get_array_def elim: as_array.elims)

lemma get_object_Some: "get_object k m = Some ps \<longleftrightarrow> map_of m k = Some (JObject ps)"
  by (cases "map_of m k" rule: option.exhaust) (auto simp: get_object_def elim: as_object.elims)

lemma size_entry: "(k, v) \<in> set m \<Longrightarrow> size v < size (JObject m)"
  by (induction m) auto

lemma size_item: "x \<in> set xs \<Longrightarrow> size x < size (JArray xs)"
  by (induction xs) auto

lemma size_chosen: "chosen_combiner m = Some (c, b) \<Longrightarrow> size b < size (JObject m)"
proof -
  assume "chosen_combiner m = Some (c, b)"
  then obtain bs where "map_of m c = Some (JArray (b # bs))"
    by (auto simp: chosen_combiner_def first_branch_def get_array_Some
        split: option.splits list.splits)
  then have "(c, JArray (b # bs)) \<in> set m" by (rule map_of_SomeD)
  then show ?thesis using size_entry [of c "JArray (b # bs)" m] by simp
qed

function flatten_all_combiners :: "json \<Rightarrow> json" where
  "flatten_all_combiners (JObject m) =
     (case chosen_combiner m of
        Some (combiner, first) \<Rightarrow>
          (case flatten_all_combiners first of
             JObject branch \<Rightarrow>
               JObject (prune_dangling_required (fold merge_sibling
                 (map (\<lambda>(k, v). (k, flatten_all_combiners v)) (drop_key combiner m)) branch))
           | other \<Rightarrow> other)
      | None \<Rightarrow> JObject (map (\<lambda>(k, v). (k, flatten_all_combiners v)) m))"
| "flatten_all_combiners (JArray xs) = JArray (map flatten_all_combiners xs)"
| "flatten_all_combiners (JString s) = JString s"
| "flatten_all_combiners (JNumber s) = JNumber s"
| "flatten_all_combiners (JBool b) = JBool b"
| "flatten_all_combiners JNull = JNull"
  by pat_completeness auto
termination
  by (relation "measure size")
    (auto simp: drop_key_def less_Suc_eq_le simp del: json.size dest!: size_entry size_chosen size_item)

section \<open>Into a dialect\<close>

definition ensure_object :: "json \<Rightarrow> json" where
  "ensure_object out =
     (case out of
        JObject m \<Rightarrow>
          if m = [] then JObject (put ''properties'' (JObject []) (put ''type'' (JString ''object'') m))
          else out
      | _ \<Rightarrow> JObject [(''properties'', JObject []), (''type'', JString ''object'')])"

definition apply_with_quirks :: "json \<Rightarrow> dialect_spec \<Rightarrow> learned_quirks \<Rightarrow> json" where
  "apply_with_quirks schema spec q =
     (let t = transforms spec;
          out = walk spec q schema;
          out1 = (if flatten_all t then flatten_all_combiners out
                  else if flatten_top_level t then flatten_top_level_combiners out
                  else out)
      in if require_properties t then ensure_object out1 else out1)"

definition apply_dialect :: "json \<Rightarrow> dialect_spec \<Rightarrow> json" where
  "apply_dialect schema spec = apply_with_quirks schema spec no_quirks"

section \<open>The registered dialects\<close>

definition DEFAULT_TRANSFORMS :: dialect_transforms where
  "DEFAULT_TRANSFORMS =
     \<lparr>flatten_top_level = False, flatten_all = False, require_properties = False,
      prune_dangling = False, const_as_enum = False, one_of_as_any_of = False,
      merge_all_of = False\<rparr>"

definition OPENAI :: dialect_spec where
  "OPENAI =
     \<lparr>spec_id = ''openai'',
      supported_keywords =
        [''description'', ''default'', ''examples'', ''format'', ''anyOf'', ''oneOf'', ''allOf'',
         ''$defs'', ''definitions'', ''$ref'', ''$schema'', ''const'', ''additionalProperties'',
         ''patternProperties'', ''prefixItems'', ''minimum'', ''maximum'', ''exclusiveMinimum'',
         ''exclusiveMaximum'', ''multipleOf'', ''minLength'', ''maxLength'', ''pattern'',
         ''minItems'', ''maxItems'', ''nullable''],
      supported_string_formats =
        [''date-time'', ''time'', ''date'', ''duration'', ''email'', ''hostname'', ''ipv4'',
         ''ipv6'', ''uuid''],
      transforms = DEFAULT_TRANSFORMS\<lparr>one_of_as_any_of := True, merge_all_of := True\<rparr>\<rparr>"

definition GEMINI :: dialect_spec where
  "GEMINI =
     \<lparr>spec_id = ''gemini'',
      supported_keywords =
        [''description'', ''default'', ''format'', ''anyOf'', ''nullable'', ''minimum'',
         ''maximum'', ''minItems'', ''maxItems'', ''minLength'', ''maxLength'', ''pattern'',
         ''example''],
      supported_string_formats = [],
      transforms = DEFAULT_TRANSFORMS\<lparr>flatten_top_level := True, prune_dangling := True,
        const_as_enum := True, one_of_as_any_of := True\<rparr>\<rparr>"

definition ANTHROPIC :: dialect_spec where
  "ANTHROPIC =
     \<lparr>spec_id = ''anthropic'',
      supported_keywords =
        [''description'', ''default'', ''examples'', ''format'', ''anyOf'', ''oneOf'', ''allOf'',
         ''not'', ''if'', ''then'', ''else'', ''$defs'', ''definitions'', ''$ref'', ''$schema'',
         ''$comment'', ''const'', ''additionalProperties'', ''patternProperties'',
         ''propertyNames'', ''prefixItems'', ''contains'', ''uniqueItems'', ''minimum'',
         ''maximum'', ''exclusiveMinimum'', ''exclusiveMaximum'', ''multipleOf'', ''minLength'',
         ''maxLength'', ''pattern'', ''minItems'', ''maxItems'', ''minProperties'',
         ''maxProperties'', ''dependentRequired'', ''dependentSchemas'', ''nullable''],
      supported_string_formats = [],
      transforms = DEFAULT_TRANSFORMS\<lparr>flatten_top_level := True, require_properties := True\<rparr>\<rparr>"

definition OPENROUTER :: dialect_spec where
  "OPENROUTER =
     \<lparr>spec_id = ''openrouter'',
      supported_keywords = supported_keywords OPENAI,
      supported_string_formats = [],
      transforms = DEFAULT_TRANSFORMS\<lparr>flatten_top_level := True, require_properties := True\<rparr>\<rparr>"

definition ANTIGRAVITY_CLAUDE :: dialect_spec where
  "ANTIGRAVITY_CLAUDE =
     \<lparr>spec_id = ''antigravity-claude'',
      supported_keywords = supported_keywords GEMINI,
      supported_string_formats = [],
      transforms = DEFAULT_TRANSFORMS\<lparr>flatten_all := True, prune_dangling := True,
        const_as_enum := True, one_of_as_any_of := True\<rparr>\<rparr>"

definition ANTIGRAVITY_BRIDGE :: dialect_spec where
  "ANTIGRAVITY_BRIDGE =
     \<lparr>spec_id = ''antigravity-bridge'',
      supported_keywords =
        [''description'', ''default'', ''format'', ''anyOf'', ''nullable'', ''minimum'',
         ''maximum'', ''pattern'', ''example''],
      supported_string_formats = [],
      transforms = DEFAULT_TRANSFORMS\<lparr>flatten_all := True, prune_dangling := True,
        const_as_enum := True, one_of_as_any_of := True\<rparr>\<rparr>"

definition ALL_DIALECTS :: "dialect_spec list" where
  "ALL_DIALECTS = [OPENAI, GEMINI, ANTHROPIC, OPENROUTER, ANTIGRAVITY_CLAUDE, ANTIGRAVITY_BRIDGE]"

definition by_id :: "rstr \<Rightarrow> dialect_spec option" where
  "by_id i = find (\<lambda>spec. spec_id spec = i) ALL_DIALECTS"

end
