(* ===== verification/Schema_Checks.thy ===== *)
theory Schema_Checks
  imports Schema_Dialect
begin

text \<open>
  The checks of a rewritten schema, \<open>kcode-schema-dialect/src/conformance.rs\<close>, and what the
  crate does when a provider rejects one all the same: reading the construct out of the error
  (\<open>rejection.rs\<close>), remembering it (\<open>quirks.rs\<close>) and deciding whether to try again
  (\<open>lib.rs\<close>).
\<close>

section \<open>The schemas inside a schema\<close>

text \<open>
  The children of an entry that are schemas, with their paths, by the role of its keyword;
  a value of another shape has none.
\<close>

definition named_subschemas :: "rstr \<Rightarrow> rstr \<Rightarrow> json \<Rightarrow> (rstr \<times> json) list" where
  "named_subschemas path key value =
     (case keyword_role key of
        Subschema_Map \<Rightarrow>
          (case value of JObject cs \<Rightarrow> map (\<lambda>(n, c). (path @ ''.'' @ n, c)) cs | _ \<Rightarrow> [])
      | Subschema_Array \<Rightarrow>
          (case value of
             JArray xs \<Rightarrow> map (\<lambda>(i, c). (path @ ''['' @ decimal i @ '']'', c)) (enumerate 0 xs)
           | _ \<Rightarrow> [])
      | Subschema \<Rightarrow> [(path, value)]
      | Data \<Rightarrow> [])"

lemma size_named: "(p, c) \<in> set (named_subschemas path key value) \<Longrightarrow> size c \<le> size value"
  by (auto simp: named_subschemas_def in_set_enumerate_eq less_imp_le
      split: keyword_role.splits json.splits dest!: size_entry size_item
      intro: less_imp_le [OF size_item [OF nth_mem]] simp del: json.size)

lemma as_object_Some: "as_object j = Some m \<longleftrightarrow> j = JObject m"
  by (cases j) auto

lemma size_object: "Some ps = get_object k m \<Longrightarrow> size (JObject ps) < size (JObject m)"
  using size_entry [of k "JObject ps" m] map_of_SomeD [of m k "JObject ps"] by (metis get_object_Some)

lemma size_property: "(n, c) \<in> set ps \<Longrightarrow> Some ps = get_object k m \<Longrightarrow> size c < size (JObject m)"
  using size_entry [of n c ps] size_object [of ps k m] by simp

section \<open>Conformance\<close>

datatype problem =
  Keyword_Not_In_Dialect rstr
| Format_Not_In_Dialect rstr
| Combiner_Survived rstr
| Properties_Missing
| Requires_Undeclared rstr
| Load_Bearing_Dropped rstr
| Property_Disappeared rstr
| No_Type_Declared

type_synonym conformance_error = "rstr \<times> problem"

definition check_required :: "entries \<Rightarrow> json \<Rightarrow> rstr \<Rightarrow> conformance_error list" where
  "check_required m required path =
     (case get_object ''properties'' m of
        None \<Rightarrow> []
      | Some ps \<Rightarrow>
          (case as_array required of
             None \<Rightarrow> []
           | Some names \<Rightarrow>
               map (\<lambda>n. (path, Requires_Undeclared n)) (filter (\<lambda>n. \<not> has_key n ps) (strings_of names))))"

definition check_entry :: "dialect_spec \<Rightarrow> entries \<Rightarrow> rstr \<Rightarrow> rstr \<Rightarrow> json \<Rightarrow> conformance_error list" where
  "check_entry spec m path key value =
     (if supports spec key then [] else [(path, Keyword_Not_In_Dialect key)])
     @ (case as_str value of
          Some f \<Rightarrow>
            if key = ''format'' \<and> \<not> supports_format spec f then [(path, Format_Not_In_Dialect f)] else []
        | None \<Rightarrow> [])
     @ (if flatten_all (transforms spec) \<and> key \<in> {''anyOf'', ''oneOf'', ''allOf''}
        then [(path, Combiner_Survived key)] else [])
     @ (if prune_dangling (transforms spec) \<and> key = ''required''
        then check_required m value path else [])"

definition check_properties :: "dialect_spec \<Rightarrow> entries \<Rightarrow> rstr \<Rightarrow> conformance_error list" where
  "check_properties spec m path =
     (if require_properties (transforms spec) \<and> map_of m ''type'' = Some (JString ''object'')
         \<and> \<not> has_key ''properties'' m
      then [(path, Properties_Missing)] else [])"

function check_walk :: "dialect_spec \<Rightarrow> rstr \<Rightarrow> json \<Rightarrow> conformance_error list" where
  "check_walk spec path (JObject m) =
     concat (map (\<lambda>(key, value).
       check_entry spec m path key value
       @ concat (map (\<lambda>(p, c). check_walk spec p c) (named_subschemas (path @ ''.'' @ key) key value))) m)
     @ check_properties spec m path"
| "check_walk spec path (JArray xs) =
     concat (map (\<lambda>(i, c). check_walk spec (path @ ''['' @ decimal i @ '']'') c) (enumerate 0 xs))"
| "check_walk spec path (JString s) = []"
| "check_walk spec path (JNumber s) = []"
| "check_walk spec path (JBool b) = []"
| "check_walk spec path JNull = []"
  by pat_completeness auto
termination
  by (relation "measure (\<lambda>(spec, path, j). size j)")
    (auto simp: in_set_enumerate_eq intro: size_item [OF nth_mem] simp del: json.size
      dest!: size_entry dest!: size_named)

definition must_not_contain_unsupported :: "json \<Rightarrow> dialect_spec \<Rightarrow> conformance_error list" where
  "must_not_contain_unsupported schema spec = check_walk spec ''$'' schema"

definition TYPE_BEARING_KEYWORDS :: "rstr list" where
  "TYPE_BEARING_KEYWORDS =
     [''type'', ''enum'', ''const'', ''anyOf'', ''oneOf'', ''allOf'', ''$ref'', ''properties'', ''items'']"

definition declares_a_type :: "json \<Rightarrow> bool" where
  "declares_a_type schema =
     (case schema of
        JObject m \<Rightarrow> list_ex (\<lambda>k. has_key k m) TYPE_BEARING_KEYWORDS
      | JBool b \<Rightarrow> True
      | _ \<Rightarrow> False)"

text \<open>The properties come first, then every other entry, walked as one schema whatever its
  keyword's role, data apart.\<close>

function untyped_walk :: "rstr \<Rightarrow> json \<Rightarrow> conformance_error list" where
  "untyped_walk path (JObject m) =
     concat (map (\<lambda>(name, property).
       (if declares_a_type property then [] else [(path @ ''.properties.'' @ name, No_Type_Declared)])
       @ untyped_walk (path @ ''.properties.'' @ name) property)
       (case get_object ''properties'' m of Some ps \<Rightarrow> ps | None \<Rightarrow> []))
     @ concat (map (\<lambda>(key, value). untyped_walk (path @ ''.'' @ key) value)
         (filter (\<lambda>(key, value). key \<noteq> ''properties'' \<and> keyword_role key \<noteq> Data) m))"
| "untyped_walk path (JArray xs) =
     concat (map (\<lambda>(i, c). untyped_walk (path @ ''['' @ decimal i @ '']'') c) (enumerate 0 xs))"
| "untyped_walk path (JString s) = []"
| "untyped_walk path (JNumber s) = []"
| "untyped_walk path (JBool b) = []"
| "untyped_walk path JNull = []"
  by pat_completeness auto
termination
  by (relation "measure (\<lambda>(path, j). size j)")
    (auto simp: in_set_enumerate_eq intro: size_item [OF nth_mem] simp del: json.size
      dest!: size_entry dest: size_object split: option.splits)

definition untyped_properties :: "json \<Rightarrow> conformance_error list" where
  "untyped_properties schema = untyped_walk ''$'' schema"

function compare_schemas :: "rstr \<Rightarrow> json \<Rightarrow> json \<Rightarrow> conformance_error list" where
  "compare_schemas path original normalized =
     (case (as_object original, as_object normalized) of
        (Some om, Some nm) \<Rightarrow>
          map (\<lambda>k. (path, Load_Bearing_Dropped k))
            (filter (\<lambda>k. has_key k om \<and> \<not> has_key k nm \<and> k \<noteq> ''required'') LOAD_BEARING_KEYWORDS)
          @ (case (get_object ''properties'' om, get_object ''properties'' nm) of
               (Some ops, Some nps) \<Rightarrow>
                 concat (map (\<lambda>(name, child).
                   case map_of nps name of
                     Some nc \<Rightarrow> compare_schemas (path @ ''.properties.'' @ name) child nc
                   | None \<Rightarrow> [(path, Property_Disappeared name)]) ops)
             | _ \<Rightarrow> [])
      | _ \<Rightarrow> [])"
  by pat_completeness auto
termination
  by (relation "measure (\<lambda>(path, original, normalized). size original)")
    (auto simp: eq_commute [of "Some _" "as_object _"] as_object_Some simp del: json.size dest: size_property)

declare compare_schemas.simps [simp del]

definition must_preserve_meaning :: "json \<Rightarrow> json \<Rightarrow> conformance_error list" where
  "must_preserve_meaning original normalized = compare_schemas ''$'' original normalized"

end
