(* ===== verification/Schema_Recovery.thy ===== *)
theory Schema_Recovery
  imports Schema_Checks
begin

text \<open>
  What happens when a provider rejects a schema all the same: the construct is read out of the
  error text (\<open>kcode-schema-dialect/src/rejection.rs\<close>), remembered for the dialect
  (\<open>quirks.rs\<close>), and the request is tried again only if something new was learned
  (\<open>lib.rs\<close>).
\<close>

section \<open>Reading an error\<close>

record schema_rejection =
  named_keywords :: "rstr list"
  rejected_format :: "rstr option"
  rejected_tool :: "rstr option"

definition first_keyword :: "schema_rejection \<Rightarrow> rstr option" where
  "first_keyword r = (case named_keywords r of k # ks \<Rightarrow> Some k | [] \<Rightarrow> None)"

definition is_actionable :: "schema_rejection \<Rightarrow> bool" where
  "is_actionable r = (named_keywords r \<noteq> [] \<or> rejected_format r \<noteq> None)"

definition BACKSLASH :: char where
  "BACKSLASH = CHR 0x5C"

definition SINGLE_QUOTE :: char where
  "SINGLE_QUOTE = CHR 0x27"

definition is_quote :: "char \<Rightarrow> bool" where
  "is_quote c = (c = SINGLE_QUOTE \<or> c = CHR 0x22)"

definition clean_token :: "rstr \<Rightarrow> rstr option" where
  "clean_token token =
     (let t = trim (trim_end_chars {BACKSLASH} (trim_start_chars {BACKSLASH} (trim token)))
      in if t = [] then None else Some t)"

text \<open>The text up to the next quote of the same kind, when there is one.\<close>

definition quoted_head :: "rstr \<Rightarrow> rstr option" where
  "quoted_head s =
     (case dropWhile (\<lambda>c. \<not> is_quote c) s of
        [] \<Rightarrow> None
      | quote # after \<Rightarrow>
          if quote \<in> set after then clean_token (takeWhile (\<lambda>c. c \<noteq> quote) after) else None)"

definition extract_quoted_after :: "rstr \<Rightarrow> rstr \<Rightarrow> rstr option" where
  "extract_quoted_after message marker =
     (case find_sub message marker of
        None \<Rightarrow> None
      | Some i \<Rightarrow> quoted_head (drop (i + length marker) message))"

definition UNKNOWN_NAME :: rstr where
  "UNKNOWN_NAME = ''Unknown name''"

lemma find_sub_length: "find_sub s p = Some i \<Longrightarrow> i + length p \<le> length s"
proof (induction s p arbitrary: i rule: find_sub.induct)
  case (2 c s p)
  then show ?case
    by (auto simp: starts_with_iff dest: prefix_length_le split: if_splits)
qed (auto split: if_splits)

text \<open>Every token behind an occurrence of the marker; \<open>message\<close> is what is left to search.\<close>

function all_quoted :: "rstr \<Rightarrow> rstr list \<Rightarrow> rstr list" where
  "all_quoted message found =
     (case find_sub message UNKNOWN_NAME of
        None \<Rightarrow> found
      | Some i \<Rightarrow>
          all_quoted (drop (i + length UNKNOWN_NAME) message)
            (case extract_quoted_after (drop i message) UNKNOWN_NAME of
               Some token \<Rightarrow> push_new token found
             | None \<Rightarrow> found))"
  by pat_completeness auto
termination
proof (relation "measure (\<lambda>(message, found). length message)")
  fix message :: rstr and found i
  assume "find_sub message UNKNOWN_NAME = Some i"
  then have "i + length UNKNOWN_NAME \<le> length message" by (rule find_sub_length)
  then show "((drop (i + length UNKNOWN_NAME) message,
      case extract_quoted_after (drop i message) UNKNOWN_NAME of
        Some token \<Rightarrow> push_new token found | None \<Rightarrow> found), message, found)
    \<in> measure (\<lambda>(message, found). length message)"
    by (simp add: UNKNOWN_NAME_def)
qed simp

declare all_quoted.simps [simp del]

definition extract_all_quoted_after :: "rstr \<Rightarrow> rstr list" where
  "extract_all_quoted_after message = all_quoted message []"

text \<open>The last quoted token in front of the marker: back from it to the nearest quote, and on
  to the quote of the same kind before that.\<close>

definition extract_quoted_before :: "rstr \<Rightarrow> rstr \<Rightarrow> rstr option" where
  "extract_quoted_before message marker =
     (case find_sub message marker of
        None \<Rightarrow> None
      | Some i \<Rightarrow>
          (case dropWhile (\<lambda>c. \<not> is_quote c) (rev (trim_end (take i message))) of
             [] \<Rightarrow> None
           | quote # before \<Rightarrow>
               if quote \<in> set before
               then clean_token (rev (takeWhile (\<lambda>c. c \<noteq> quote) before)) else None))"

definition TYPE_KEY_MISSING :: rstr where
  "TYPE_KEY_MISSING = ''must have a '' @ [SINGLE_QUOTE] @ ''type'' @ [SINGLE_QUOTE] @ '' key''"

definition classify :: "rstr \<Rightarrow> schema_rejection option" where
  "classify message =
     (let tool = extract_quoted_after message ''for function'';
          rejected = (\<lambda>ks f. Some \<lparr>named_keywords = ks, rejected_format = f, rejected_tool = tool\<rparr>);
          names = extract_all_quoted_after message
      in if contains message ''Cannot find field'' \<and> names \<noteq> [] then rejected names None
         else (case extract_quoted_before message ''is not a valid format'' of
           Some f \<Rightarrow> rejected [] (Some f)
         | None \<Rightarrow>
         (case extract_quoted_before message ''is not permitted'' of
           Some k \<Rightarrow> rejected [k] None
         | None \<Rightarrow>
             if contains message ''are not defined in the schema properties''
             then rejected [''required''] None
             else if contains message TYPE_KEY_MISSING \<or> contains message ''is not of type''
             then rejected [] None
             else if contains message ''does not support oneOf, allOf, or anyOf''
                \<or> contains message ''input_schema'' \<and> contains message ''JSON Schema draft 2020-12''
             then rejected [''anyOf''] None
             else None)))"

definition is_schema_error :: "rstr \<Rightarrow> bool" where
  "is_schema_error message =
     (classify message \<noteq> None
      \<or> (let lowered = to_ascii_lowercase message
         in contains lowered ''invalid_function_parameters''
            \<or> contains lowered ''invalid schema for function''
            \<or> contains lowered ''function_declarations'' \<and> contains lowered ''invalid''))"

function schema_contains_keyword :: "json \<Rightarrow> rstr \<Rightarrow> bool" where
  "schema_contains_keyword (JObject m) keyword =
     list_ex (\<lambda>(key, value). key = keyword \<or> schema_contains_keyword value keyword) m"
| "schema_contains_keyword (JArray xs) keyword = list_ex (\<lambda>i. schema_contains_keyword i keyword) xs"
| "schema_contains_keyword (JString s) keyword = False"
| "schema_contains_keyword (JNumber s) keyword = False"
| "schema_contains_keyword (JBool b) keyword = False"
| "schema_contains_keyword JNull keyword = False"
  by pat_completeness auto
termination
  by (relation "measure (\<lambda>(j, k). size j)") (auto simp del: json.size dest!: size_entry size_item)

section \<open>The store of quirks\<close>

text \<open>
  The store: the path it is kept at (none when the home directory is not known), the cached
  files, the files as they can be read back (none when missing or corrupt), and whether a path
  can be written.
\<close>

type_synonym quirk_file = "rstr \<Rightarrow> learned_quirks option"

record quirk_store =
  store_path :: "rstr option"
  cache :: "rstr \<Rightarrow> quirk_file option"
  disk :: "rstr \<Rightarrow> quirk_file option"
  writable :: "rstr \<Rightarrow> bool"

definition load_file :: "quirk_store \<Rightarrow> rstr \<Rightarrow> quirk_file" where
  "load_file s p = (case disk s p of Some f \<Rightarrow> f | None \<Rightarrow> Map.empty)"

definition cached_file :: "quirk_store \<Rightarrow> rstr \<Rightarrow> quirk_file" where
  "cached_file s p = (case cache s p of Some f \<Rightarrow> f | None \<Rightarrow> load_file s p)"

definition with_store ::
  "(quirk_file \<Rightarrow> 'r \<times> bool \<times> quirk_file) \<Rightarrow> quirk_store \<Rightarrow> 'r \<times> quirk_store" where
  "with_store f s =
     (case store_path s of
        None \<Rightarrow> (fst (f Map.empty), s)
      | Some p \<Rightarrow>
          (case f (cached_file s p) of
             (result, changed, file') \<Rightarrow>
               (result,
                s\<lparr>cache := (cache s)(p \<mapsto> file'),
                  disk := (if changed \<and> writable s p then (disk s)(p \<mapsto> file') else disk s)\<rparr>)))"

definition entry_of :: "quirk_file \<Rightarrow> rstr \<Rightarrow> learned_quirks" where
  "entry_of file' i = (case file' i of Some q \<Rightarrow> q | None \<Rightarrow> no_quirks)"

definition learned_for :: "rstr \<Rightarrow> quirk_store \<Rightarrow> learned_quirks \<times> quirk_store" where
  "learned_for i = with_store (\<lambda>f. (entry_of f i, False, f))"

definition record_in :: "rstr \<Rightarrow> rstr option \<Rightarrow> rstr option \<Rightarrow> quirk_file \<Rightarrow> bool \<times> bool \<times> quirk_file" where
  "record_in i keyword fmt f =
     (let q = entry_of f i;
          new_k = (case keyword of Some k \<Rightarrow> k \<notin> set (rejected_keywords q) | None \<Rightarrow> False);
          q1 = (if new_k then q\<lparr>rejected_keywords := rejected_keywords q @ [the keyword]\<rparr> else q);
          new_f = (case fmt of Some x \<Rightarrow> x \<notin> set (rejected_formats q1) | None \<Rightarrow> False);
          q2 = (if new_f then q1\<lparr>rejected_formats := rejected_formats q1 @ [the fmt]\<rparr> else q1)
      in (new_k \<or> new_f, new_k \<or> new_f, f(i \<mapsto> q2)))"

definition record_keyword :: "rstr \<Rightarrow> rstr \<Rightarrow> quirk_store \<Rightarrow> bool \<times> quirk_store" where
  "record_keyword i k = with_store (record_in i (Some k) None)"

definition record_format :: "rstr \<Rightarrow> rstr \<Rightarrow> quirk_store \<Rightarrow> bool \<times> quirk_store" where
  "record_format i x = with_store (record_in i None (Some x))"

definition forget :: "rstr \<Rightarrow> quirk_store \<Rightarrow> unit \<times> quirk_store" where
  "forget i = with_store (\<lambda>f. ((), f i \<noteq> None, f(i := None)))"

text \<open>\<open>normalize\<close>: the rewrite with what the store knows of the dialect.\<close>

definition normalize_schema :: "json \<Rightarrow> dialect_spec \<Rightarrow> quirk_store \<Rightarrow> json \<times> quirk_store" where
  "normalize_schema schema spec s =
     (case learned_for (spec_id spec) s of
        (q, s') \<Rightarrow>
          (if rejected_keywords q = [] \<and> rejected_formats q = [] then apply_dialect schema spec
           else apply_with_quirks schema spec q, s'))"

section \<open>Recovery\<close>

datatype construct = Keyword rstr | Format rstr

datatype hint =
  Unnamed_Construct
| Load_Bearing_Rejected rstr
| Rejected_Again "rstr option"
| Nothing_Actionable

datatype recovery_action =
  Not_Schema_Related
| Retry_Without "construct list" "rstr option"
| Unrecoverable hint

text \<open>Learning the keywords in turn; a load-bearing one stops it.\<close>

fun learn_keywords ::
  "rstr \<Rightarrow> rstr list \<Rightarrow> construct list \<Rightarrow> quirk_store
     \<Rightarrow> (rstr + construct list) \<times> quirk_store" where
  "learn_keywords i [] described s = (Inr described, s)"
| "learn_keywords i (k # ks) described s =
     (if \<not> is_droppable k then (Inl k, s)
      else (case record_keyword i k s of
              (new, s') \<Rightarrow>
                learn_keywords i ks (if new then described @ [Keyword k] else described) s'))"

definition learn_format ::
  "rstr \<Rightarrow> rstr option \<Rightarrow> construct list \<Rightarrow> quirk_store \<Rightarrow> construct list \<times> quirk_store" where
  "learn_format i fmt described s =
     (case fmt of
        None \<Rightarrow> (described, s)
      | Some x \<Rightarrow>
          (case record_format i x s of
             (new, s') \<Rightarrow> (if new then described @ [Format x] else described, s')))"

definition recover_from_error ::
  "rstr \<Rightarrow> dialect_spec \<Rightarrow> quirk_store \<Rightarrow> recovery_action \<times> quirk_store" where
  "recover_from_error message spec s =
     (case classify message of
        None \<Rightarrow>
          (if is_schema_error message then Unrecoverable Unnamed_Construct else Not_Schema_Related, s)
      | Some r \<Rightarrow>
          (case learn_keywords (spec_id spec) (named_keywords r) [] s of
             (Inl k, s') \<Rightarrow> (Unrecoverable (Load_Bearing_Rejected k), s')
           | (Inr described, s') \<Rightarrow>
               (case learn_format (spec_id spec) (rejected_format r) described s' of
                  (described, s'') \<Rightarrow>
                    (if described \<noteq> [] then Retry_Without described (rejected_tool r)
                     else Unrecoverable
                       (if is_actionable r
                        then Rejected_Again (case first_keyword r of
                               Some k \<Rightarrow> Some k | None \<Rightarrow> rejected_format r)
                        else Nothing_Actionable), s''))))"

end
