(* ===== verification/Schema_Nodes.thy ===== *)
theory Schema_Nodes
  imports Schema_Recovery
begin

text \<open>
  What holds at every schema of a schema: a condition on each entry and one on each object, and
  the proof that the rewrite into a dialect establishes both, whatever the schema. The checks
  of \<open>conformance.rs\<close> and the absence of learned keywords are instances.
\<close>

section \<open>Objects\<close>

definition ordered :: "(rstr \<times> 'v) list \<Rightarrow> bool" where
  "ordered m = sorted_wrt (<) (map fst m)"

lemma ordered_Nil [simp]: "ordered []"
  by (simp add: ordered_def)

lemma map_of_put [simp]: "map_of (put k v m) = (map_of m)(k \<mapsto> v)"
  by (induction m) auto

lemma set_put: "e \<in> set (put k v m) \<Longrightarrow> e = (k, v) \<or> e \<in> set m"
  by (induction m) (auto split: if_splits)

lemma fst_put: "fst ` set (put k v m) = insert k (fst ` set m)"
  by (simp flip: dom_map_of_conv_image_fst)

lemma ordered_put [simp]: "ordered m \<Longrightarrow> ordered (put k v m)"
proof (induction m)
  case (Cons e m)
  obtain k' v' where e: "e = (k', v')" by force
  have below: "k' < x" if "x \<in> fst ` set (put k v m)" "k' < k" for x
    using that Cons.prems by (auto simp: fst_put ordered_def e)
  show ?case
    using Cons below by (cases k k' rule: linorder_cases) (auto simp: ordered_def e dest: less_trans)
qed (simp add: ordered_def)

lemma ordered_entry: "ordered m \<Longrightarrow> (k, v) \<in> set m \<Longrightarrow> map_of m k = Some v"
  by (rule map_of_is_SomeI) (simp_all add: ordered_def strict_sorted_iff)

lemma map_of_drop [simp]: "map_of (drop_key k m) = (map_of m)(k := None)"
  by (induction m) (auto simp: drop_key_def fun_eq_iff)

lemma set_drop: "e \<in> set (drop_key k m) \<Longrightarrow> e \<in> set m"
  by (simp add: drop_key_def)

lemma ordered_drop [simp]: "ordered m \<Longrightarrow> ordered (drop_key k m)"
  by (induction m) (auto simp: ordered_def drop_key_def)

lemma has_key_put [simp]: "has_key a (put k v m) = (a = k \<or> has_key a m)"
  by (simp add: has_key_def)

lemma has_key_drop [simp]: "has_key a (drop_key k m) = (a \<noteq> k \<and> has_key a m)"
  by (simp add: has_key_def)

lemma map_of_put_new: "map_of (put_new k v m) = (if has_key k m then map_of m else (map_of m)(k \<mapsto> v))"
  by (simp add: put_new_def)

lemma set_put_new: "e \<in> set (put_new k v m) \<Longrightarrow> e = (k, v) \<or> e \<in> set m"
  by (auto simp: put_new_def dest: set_put split: if_splits)

lemma ordered_put_new [simp]: "ordered m \<Longrightarrow> ordered (put_new k v m)"
  by (simp add: put_new_def)

lemma get_array_put [simp]: "get_array a (put k v m) = (if a = k then as_array v else get_array a m)"
  by (simp add: get_array_def)

lemma get_object_put [simp]: "get_object a (put k v m) = (if a = k then as_object v else get_object a m)"
  by (simp add: get_object_def)

lemma get_drop [simp]:
  "get_array a (drop_key k m) = (if a = k then None else get_array a m)"
  "get_object a (drop_key k m) = (if a = k then None else get_object a m)"
  by (simp_all add: get_array_def get_object_def)

section \<open>Every schema of a schema\<close>

definition subschemas :: "rstr \<Rightarrow> json \<Rightarrow> json list" where
  "subschemas key value = map snd (named_subschemas [] key value)"

lemma subschemas_named: "map snd (named_subschemas path key value) = subschemas key value"
  by (simp add: subschemas_def named_subschemas_def comp_def case_prod_beta split: keyword_role.split json.split)

lemma size_sub: "c \<in> set (subschemas key value) \<Longrightarrow> size c \<le> size value"
  by (auto simp: subschemas_def dest: size_named)

lemma set_subschemas:
  "set (subschemas key value) =
     (case keyword_role key of
        Subschema_Map \<Rightarrow> (case value of JObject cs \<Rightarrow> snd ` set cs | _ \<Rightarrow> {})
      | Subschema_Array \<Rightarrow> (case value of JArray xs \<Rightarrow> set xs | _ \<Rightarrow> {})
      | Subschema \<Rightarrow> {value}
      | Data \<Rightarrow> {})"
proof -
  have "snd ` set (enumerate 0 xs) = set xs" for xs :: "json list"
    by (metis list.set_map map_snd_enumerate)
  then show ?thesis
    by (auto simp: subschemas_def named_subschemas_def image_comp comp_def case_prod_beta
        split: keyword_role.split json.split)
qed

function everywhere :: "(rstr \<Rightarrow> json \<Rightarrow> bool) \<Rightarrow> (entries \<Rightarrow> bool) \<Rightarrow> json \<Rightarrow> bool" where
  "everywhere P Q (JObject m) =
     (Q m \<and> list_all (\<lambda>(k, v). P k v \<and> list_all (everywhere P Q) (subschemas k v)) m)"
| "everywhere P Q (JArray xs) = list_all (everywhere P Q) xs"
| "everywhere P Q (JString s) = True"
| "everywhere P Q (JNumber s) = True"
| "everywhere P Q (JBool b) = True"
| "everywhere P Q JNull = True"
  by pat_completeness auto
termination
  by (relation "measure (\<lambda>(P, Q, j). size j)")
    (auto simp del: json.size dest!: size_entry size_item dest!: size_sub)

lemma everywhere_mono:
  assumes "everywhere P Q j" and "\<forall>k v. P k v \<longrightarrow> P' k v" and "\<forall>m. Q m \<longrightarrow> Q' m"
  shows "everywhere P' Q' j"
  using assms by (induction P Q j rule: everywhere.induct) (auto simp: list_all_iff)

section \<open>What the rewrite establishes\<close>

text \<open>
  Of an entry: its keyword is supported; it was not rejected, unless it cannot be dropped or
  stands for \<open>oneOf\<close>; a format is one the provider takes. Of an object: its keys are in order,
  and it names and has the properties the dialect asks for.
\<close>

definition entry_ok :: "dialect_spec \<Rightarrow> learned_quirks \<Rightarrow> rstr \<Rightarrow> json \<Rightarrow> bool" where
  "entry_ok spec q k v =
     (supports spec k
      \<and> (k \<in> set (rejected_keywords q) \<longrightarrow>
           \<not> is_droppable k \<or> k = ''anyOf'' \<and> one_of_as_any_of (transforms spec))
      \<and> (k = ''format'' \<longrightarrow>
           (\<exists>f. v = JString f \<and> supports_format spec f \<and> f \<notin> set (rejected_formats q))))"

definition names_declared :: "entries \<Rightarrow> bool" where
  "names_declared m =
     (case (get_object ''properties'' m, get_array ''required'' m) of
        (Some ps, Some names) \<Rightarrow> list_all (\<lambda>n. has_key n ps) (strings_of names)
      | _ \<Rightarrow> True)"

definition object_ok :: "dialect_spec \<Rightarrow> entries \<Rightarrow> bool" where
  "object_ok spec m =
     (ordered m
      \<and> (prune_dangling (transforms spec) \<longrightarrow> names_declared m)
      \<and> (require_properties (transforms spec) \<and> map_of m ''type'' = Some (JString ''object'')
           \<longrightarrow> has_key ''properties'' m))"

abbreviation conforming :: "dialect_spec \<Rightarrow> learned_quirks \<Rightarrow> json \<Rightarrow> bool" where
  "conforming spec q \<equiv> everywhere (entry_ok spec q) (object_ok spec)"

text \<open>An object under construction: in order, its entries as they should be.\<close>

definition sound :: "dialect_spec \<Rightarrow> learned_quirks \<Rightarrow> entries \<Rightarrow> bool" where
  "sound spec q m =
     (ordered m
      \<and> (\<forall>(k, v) \<in> set m. entry_ok spec q k v \<and> list_all (conforming spec q) (subschemas k v)))"

lemma conforming_object:
  "conforming spec q (JObject m) \<longleftrightarrow> sound spec q m \<and> object_ok spec m"
  by (auto simp: sound_def object_ok_def list_all_iff)

lemma sound_Nil [simp]: "sound spec q []"
  by (simp add: sound_def)

lemma sound_put [intro]:
  "sound spec q m \<Longrightarrow> entry_ok spec q k v \<Longrightarrow> list_all (conforming spec q) (subschemas k v)
    \<Longrightarrow> sound spec q (put k v m)"
  by (auto simp: sound_def dest!: set_put)

lemma sound_drop [intro]: "sound spec q m \<Longrightarrow> sound spec q (drop_key k m)"
  by (auto simp: sound_def dest!: set_drop)

lemma sound_put_new [intro]:
  "sound spec q m \<Longrightarrow> entry_ok spec q k v \<Longrightarrow> list_all (conforming spec q) (subschemas k v)
    \<Longrightarrow> sound spec q (put_new k v m)"
  by (auto simp: put_new_def)

lemma sound_entry:
  "sound spec q m \<Longrightarrow> map_of m k = Some v
    \<Longrightarrow> entry_ok spec q k v \<and> list_all (conforming spec q) (subschemas k v)"
  by (auto simp: sound_def dest!: map_of_SomeD)

definition sound_properties :: "dialect_spec \<Rightarrow> learned_quirks \<Rightarrow> entries \<Rightarrow> bool" where
  "sound_properties spec q ps = (\<forall>(n, c) \<in> set ps. conforming spec q c)"

lemmas keyword_lists =
  keyword_role_def SUBSCHEMA_MAP_KEYWORDS_def SUBSCHEMA_KEYWORDS_def SUBSCHEMA_ARRAY_KEYWORDS_def
  DATA_KEYWORDS_def

lemma roles [simp]:
  "keyword_role ''properties'' = Subschema_Map" "keyword_role ''required'' = Data"
  "keyword_role ''type'' = Data" "keyword_role ''enum'' = Data" "keyword_role ''format'' = Data"
  "keyword_role ''const'' = Data" "keyword_role ''description'' = Data" "keyword_role ''items'' = Subschema"
  "keyword_role ''allOf'' = Subschema_Array" "keyword_role ''anyOf'' = Subschema_Array"
  "keyword_role ''oneOf'' = Subschema_Array"
  by code_simp+

lemma universal_ok [simp]:
  "entry_ok spec q ''type'' v" "entry_ok spec q ''properties'' v" "entry_ok spec q ''required'' v"
  "entry_ok spec q ''enum'' v"
  by (simp_all add: entry_ok_def supports_def UNIVERSAL_KEYWORDS_def is_droppable_def LOAD_BEARING_KEYWORDS_def)

lemma no_subschemas [simp]: "keyword_role k = Data \<Longrightarrow> subschemas k v = []"
  by (simp add: subschemas_def named_subschemas_def)

lemma list_all_subschemas: "list_all R (subschemas k v) \<longleftrightarrow> (\<forall>c \<in> set (subschemas k v). R c)"
  by (simp add: list_all_iff)

lemma properties_subschemas [simp]:
  "list_all (conforming spec q) (subschemas ''properties'' (JObject ps)) = sound_properties spec q ps"
  by (auto simp: list_all_subschemas set_subschemas sound_properties_def)

lemma sound_properties_put [intro]:
  "sound_properties spec q ps \<Longrightarrow> conforming spec q c \<Longrightarrow> sound_properties spec q (put_new n c ps)"
  by (auto simp: sound_properties_def dest!: set_put_new)

lemma sound_prune [intro]: "sound spec q m \<Longrightarrow> sound spec q (prune_dangling_required m)"
  by (auto simp: prune_dangling_required_def Let_def split: option.split)

lemma strings_of_has: "n \<in> set (strings_of xs) \<longleftrightarrow> JString n \<in> set xs"
proof -
  have "as_str j = Some n \<longleftrightarrow> j = JString n" for j by (cases j) auto
  then show ?thesis by (force simp: strings_of_def List.map_filter_def)
qed

lemma prune_declared [simp]: "names_declared (prune_dangling_required m)"
  by (auto simp: prune_dangling_required_def names_declared_def Let_def list_all_iff strings_of_has
      split: option.split)

lemma names_declared_drop [simp]:
  "k \<noteq> ''properties'' \<Longrightarrow> k \<noteq> ''required'' \<Longrightarrow> names_declared (drop_key k m) = names_declared m"
  by (simp add: names_declared_def)

lemma prune_keys [simp]:
  "map_of (prune_dangling_required m) ''type'' = map_of m ''type''"
  "map_of (prune_dangling_required m) ''properties'' = map_of m ''properties''"
  "has_key ''properties'' (prune_dangling_required m) = has_key ''properties'' m"
  by (auto simp: prune_dangling_required_def has_key_def Let_def split: option.split)

lemma sound_own [intro]: "sound spec q m \<Longrightarrow> sound_properties spec q (own_properties m)"
  using sound_entry [of spec q m "''properties''"]
  by (auto simp: own_properties_def get_object_Some sound_properties_def [of _ _ "[]"] split: option.split)

lemma sound_adopt_type: "sound spec q out \<Longrightarrow> sound spec q (adopt_type b out)"
  by (auto simp: adopt_type_def split: option.split)

lemma sound_put_all:
  "sound_properties spec q ps \<Longrightarrow> sound_properties spec q bps
    \<Longrightarrow> sound_properties spec q (fold (\<lambda>(n, p). put_new n p) bps ps)"
  by (induction bps arbitrary: ps) (auto simp: sound_properties_def [of _ _ "_ # _"] intro!: sound_properties_put
      simp: sound_properties_def [of _ _ "_ :: entries", symmetric])

lemma sound_adopt_properties:
  assumes "sound_properties spec q ps" and "conforming spec q (JObject b)"
  shows "sound_properties spec q (adopt_properties b ps)"
  using assms sound_entry [of spec q b "''properties''"]
  by (auto simp: adopt_properties_def get_object_Some conforming_object simp del: everywhere.simps
      split: option.split intro!: sound_put_all)

lemma sound_merge_branches:
  assumes "list_all (conforming spec q) branches" and "sound spec q out" and "sound_properties spec q ps"
    and "fold merge_branch branches (out, ps, ns) = (out', ps', ns')"
  shows "sound spec q out' \<and> sound_properties spec q ps'"
  using assms
proof (induction branches arbitrary: out ps ns)
  case (Cons b bs)
  show ?case
  proof (cases b)
    case (JObject m)
    then show ?thesis
      using Cons.prems Cons.IH [of "adopt_type m out" "adopt_properties m ps" "adopt_required m ns"]
      by (simp add: sound_adopt_type sound_adopt_properties del: everywhere.simps)
  qed (use Cons in simp_all)
qed simp

lemma array_subschemas: "keyword_role k = Subschema_Array \<Longrightarrow> set (subschemas k (JArray xs)) = set xs"
  by (simp add: set_subschemas)

lemma sound_branches:
  "sound spec q m \<Longrightarrow> keyword_role k = Subschema_Array \<Longrightarrow> get_array k m = Some xs
    \<Longrightarrow> list_all (conforming spec q) xs"
  using sound_entry [of spec q m k "JArray xs"] by (simp add: get_array_Some list_all_iff array_subschemas)

lemma sound_merge_all_of: "sound spec q m \<Longrightarrow> sound spec q (merge_all_of_branches m)"
proof (cases "get_array ''allOf'' m")
  case (Some branches)
  assume m: "sound spec q m"
  define out where "out = drop_key ''allOf'' m"
  define ns0 where "ns0 = (case get_array ''required'' out of Some xs \<Rightarrow> strings_of xs | None \<Rightarrow> [])"
  obtain out1 ps ns where merged: "fold merge_branch branches (out, own_properties out, ns0) = (out1, ps, ns)"
    by (metis prod_cases3)
  have "sound spec q out" using m by (auto simp: out_def)
  then have "sound spec q out1" "sound_properties spec q ps"
    using sound_merge_branches [OF sound_branches [OF m _ Some] _ _ merged] by auto
  then show ?thesis
    using Some merged
    by (auto simp: merge_all_of_branches_def Let_def out_def [symmetric] ns0_def [symmetric]
        intro!: sound_prune sound_put sound_drop)
qed (auto simp: merge_all_of_branches_def)

lemma merge_all_of_declared: "names_declared m \<Longrightarrow> names_declared (merge_all_of_branches m)"
  by (auto simp: merge_all_of_branches_def Let_def split: option.split prod.split)

lemma sound_finish: "sound spec q m \<Longrightarrow> sound spec q (finish spec m)"
  by (auto simp: finish_def Let_def sound_properties_def intro: sound_merge_all_of intro!: sound_put_new)

lemma finish_object_ok:
  assumes "sound spec q m" and "\<not> (prune_dangling (transforms spec) \<and> require_properties (transforms spec))"
  shows "object_ok spec (finish spec m)"
proof -
  have "ordered (finish spec m)" using sound_finish [OF assms(1)] by (simp add: sound_def)
  then show ?thesis
    using assms(2)
    by (auto simp: object_ok_def finish_def Let_def is_object_typed_def map_of_put_new has_key_def
        merge_all_of_declared split: if_splits option.splits)
qed

text \<open>One entry of the source.\<close>

definition normal_child :: "dialect_spec \<Rightarrow> learned_quirks \<Rightarrow> rstr \<Rightarrow> json \<Rightarrow> json" where
  "normal_child spec q key value =
     (case keyword_role key of
        Subschema_Map \<Rightarrow>
          (case value of
             JObject children \<Rightarrow> JObject (map (\<lambda>(n, child). (n, walk spec q child)) children)
           | _ \<Rightarrow> value)
      | Subschema_Array \<Rightarrow>
          (case value of
             JArray xs \<Rightarrow> JArray (map (walk spec q) xs)
           | _ \<Rightarrow> walk spec q value)
      | Subschema \<Rightarrow> walk spec q value
      | Data \<Rightarrow> value)"

lemma walk_object:
  "walk spec q (JObject m) =
     JObject (finish spec (fold (add_entry spec q) (map (\<lambda>(k, v). (k, v, normal_child spec q k v)) m) []))"
  by (simp add: normal_child_def cong: map_cong)

declare walk.simps(1) [simp del]

lemma normal_child_subschemas:
  "set (subschemas k (normal_child spec q k v)) \<subseteq> walk spec q ` set (subschemas k v)"
proof (cases "keyword_role k")
  case Subschema_Array
  then show ?thesis
    by (cases v) (auto simp: set_subschemas normal_child_def walk_object)
next
  case Subschema_Map
  then show ?thesis by (cases v) (force simp: set_subschemas normal_child_def)+
qed (auto simp: set_subschemas normal_child_def split: json.splits)

lemma same_role: "set (subschemas (out_key spec k) v) = set (subschemas k v)"
  by (simp add: out_key_def set_subschemas)

lemma sound_place:
  assumes "sound spec q out" and "\<And>v. entry_ok spec q k v" and "list_all (conforming spec q) (subschemas k v)"
  shows "sound spec q (place k v out)"
proof (cases "\<exists>xs ys. map_of out k = Some (JArray xs) \<and> v = JArray ys")
  case True
  then obtain xs ys where "map_of out k = Some (JArray xs)" "v = JArray ys" by blast
  moreover from this assms(1) have "list_all (conforming spec q) (subschemas k (JArray xs))"
    using sound_entry by blast
  ultimately show ?thesis
    using assms
    by (auto simp: place_def list_all_iff set_subschemas split: keyword_role.splits intro!: sound_put)
next
  case False
  then show ?thesis
    using assms by (auto simp: place_def split: option.splits json.splits intro!: sound_put)
qed

lemma valid_supports: "validate spec = Inr () \<Longrightarrow> \<not> is_droppable k \<Longrightarrow> supports spec k"
  by (auto simp: validate_def is_droppable_def find_None_iff split: option.splits)

lemma droppable [simp]: "is_droppable ''oneOf''" "is_droppable ''anyOf''" "is_droppable ''format''" "is_droppable ''const''"
  by code_simp+

lemma kept_entry_ok:
  assumes "validate spec = Inr ()" and "k \<noteq> ''format''"
    and "\<not> ((\<not> supports spec (out_key spec k) \<or> k \<in> set (rejected_keywords q)) \<and> is_droppable k)"
  shows "entry_ok spec q (out_key spec k) v"
proof (cases "k = ''oneOf'' \<and> one_of_as_any_of (transforms spec)")
  case True
  then show ?thesis using assms(3) by (simp add: entry_ok_def out_key_def)
next
  case False
  then have "out_key spec k = k" by (auto simp: out_key_def)
  then show ?thesis
    using assms valid_supports [of spec k] by (auto simp: entry_ok_def)
qed

lemma sound_add_entry:
  assumes "validate spec = Inr ()" and "sound spec q out"
    and "list_all (conforming spec q) (subschemas k n)"
  shows "sound spec q (add_entry spec q (k, v, n) out)"
proof -
  let ?dropped = "(\<not> supports spec (out_key spec k) \<or> k \<in> set (rejected_keywords q)) \<and> is_droppable k"
  consider (drop) ?dropped | (format) "\<not> ?dropped" "k = ''format''" | (keep) "\<not> ?dropped" "k \<noteq> ''format''"
    by blast
  then show ?thesis
  proof cases
    case drop
    then show ?thesis using assms(2) by auto
  next
    case format
    then show ?thesis
      using assms(2)
      by (cases v) (auto simp: entry_ok_def out_key_def intro!: sound_put)
  next
    case keep
    have "sound spec q (place (out_key spec k) n out)"
      using assms(2,3) kept_entry_ok [OF assms(1) keep(2,1)]
      by (intro sound_place) (simp_all add: list_all_iff same_role)
    then show ?thesis
      by (simp only: add_entry.simps if_not_P [OF keep(1)] if_not_P [OF keep(2)])
  qed
qed

lemma sound_entries:
  assumes "validate spec = Inr ()" and "sound spec q out"
    and "\<forall>(k, v) \<in> set m. \<forall>c \<in> set (subschemas k v). conforming spec q (walk spec q c)"
  shows "sound spec q (fold (add_entry spec q) (map (\<lambda>(k, v). (k, v, normal_child spec q k v)) m) out)"
  using assms(2,3)
proof (induction m arbitrary: out)
  case (Cons e m)
  obtain k v where e: "e = (k, v)" by force
  have "list_all (conforming spec q) (subschemas k (normal_child spec q k v))"
    using Cons.prems(2) normal_child_subschemas [of k spec q v] by (auto simp: list_all_iff e)
  then have "sound spec q (add_entry spec q (k, v, normal_child spec q k v) out)"
    using sound_add_entry assms(1) Cons.prems(1) by blast
  then show ?case using Cons e by (simp del: add_entry.simps)
qed simp

lemma walk_conforming:
  assumes "validate spec = Inr ()" and "\<not> (prune_dangling (transforms spec) \<and> require_properties (transforms spec))"
  shows "conforming spec q (walk spec q j)"
proof (induction j rule: measure_induct_rule [of size])
  case (less j)
  show ?case
  proof (cases j)
    case (JArray xs)
    then show ?thesis using less size_item by (auto simp: list_all_iff simp del: json.size)
  next
    case (JObject m)
    let ?out = "fold (add_entry spec q) (map (\<lambda>(k, v). (k, v, normal_child spec q k v)) m) []"
    have "conforming spec q (walk spec q c)" if "(k, v) \<in> set m" "c \<in> set (subschemas k v)" for k v c
      using less [of c] size_entry [OF that(1)] size_sub [OF that(2)] JObject by simp
    then have "sound spec q ?out" using sound_entries [OF assms(1) sound_Nil, of m q] by blast
    then show ?thesis
      using sound_finish finish_object_ok [OF _ assms(2)]
      by (simp add: JObject walk_object conforming_object del: everywhere.simps)
  qed simp_all
qed

end
