(* ===== verification/Schema_Properties.thy ===== *)
theory Schema_Properties
  imports Schema_Nodes
begin

text \<open>
  What the schema crate promises: a schema in a dialect passes the crate's own checks, means
  what it meant, and a provider's rejection is learned from at most once.
\<close>

section \<open>Conformance\<close>

lemma conforming_branches_properties:
  "list_all (conforming spec q) branches \<Longrightarrow> sound_properties spec q ps
    \<Longrightarrow> sound_properties spec q (fst (fold (flatten_branch c) branches (ps, ns)))"
proof (induction branches arbitrary: ps ns)
  case (Cons b bs)
  then show ?case
    by (cases b) (auto simp: flatten_branch_def simp del: everywhere.simps intro!: sound_adopt_properties)
qed simp

text \<open>A step keeps the object sound, and what has not seen a combiner keeps its three keys.\<close>

definition flattening_ok :: "dialect_spec \<Rightarrow> learned_quirks \<Rightarrow> entries \<Rightarrow> flattening \<Rightarrow> bool" where
  "flattening_ok spec q m st =
     (sound spec q (f_out st) \<and> sound_properties spec q (f_properties st)
      \<and> (\<forall>k. k \<notin> {''oneOf'', ''anyOf'', ''allOf''} \<longrightarrow> map_of (f_out st) k = map_of m k))"

lemma flatten_keyword_ok:
  assumes "flattening_ok spec q m st" and "c \<in> {''oneOf'', ''anyOf'', ''allOf''}"
  shows "flattening_ok spec q m (flatten_keyword c st)"
proof (cases "get_array c (f_out st)")
  case (Some branches)
  have "keyword_role c = Subschema_Array" using assms(2) by auto
  then have "list_all (conforming spec q) branches"
    using assms(1) Some sound_branches by (auto simp: flattening_ok_def)
  then have "sound_properties spec q (fst (fold (flatten_branch c) branches (f_properties st, f_required st)))"
    using assms(1) conforming_branches_properties by (simp add: flattening_ok_def)
  then show ?thesis
    using assms Some by (auto simp: flattening_ok_def flatten_keyword_def Let_def case_prod_beta)
qed (use assms in \<open>auto simp: flattening_ok_def flatten_keyword_def Let_def\<close>)

lemma sound_require_names: "sound spec q m \<Longrightarrow> sound spec q (require_names ns m)"
  by (auto simp: require_names_def Let_def split: option.split intro!: sound_put sound_put_new)

lemma flatten_object_conforming:
  assumes "conforming spec q (JObject m)"
  shows "conforming spec q (JObject (flatten_object m))"
proof -
  define st where "st = fold flatten_keyword [''oneOf'', ''anyOf'', ''allOf'']
    \<lparr>f_out = m, f_properties = own_properties m, f_required = [], f_seen = False\<rparr>"
  have "flattening_ok spec q m \<lparr>f_out = m, f_properties = own_properties m, f_required = [], f_seen = False\<rparr>"
    using assms by (auto simp: flattening_ok_def conforming_object simp del: everywhere.simps)
  then have ok: "flattening_ok spec q m st"
    unfolding st_def by (auto intro!: flatten_keyword_ok)
  have plain: "object_ok spec (f_out st)"
    using ok assms
    by (auto simp: flattening_ok_def conforming_object object_ok_def sound_def names_declared_def
        get_array_def get_object_def has_key_def simp del: everywhere.simps)
  show ?thesis
  proof (cases "f_seen st")
    case False
    then show ?thesis
      using ok plain by (simp add: flatten_object_def st_def [symmetric] conforming_object flattening_ok_def
          del: everywhere.simps fold.simps)
  next
    case True
    let ?out = "require_names (f_required st)
      (put ''properties'' (JObject (f_properties st)) (put ''type'' (JString ''object'') (f_out st)))"
    have out: "sound spec q ?out"
      using ok by (intro sound_require_names sound_put) (simp_all add: flattening_ok_def)
    have "has_key ''properties'' ?out"
      by (auto simp: require_names_def Let_def put_new_def split: option.split)
    then have "object_ok spec (prune_dangling_required ?out)"
      using sound_prune [OF out] by (simp add: object_ok_def sound_def)
    then show ?thesis
      using True sound_prune [OF out]
      by (simp add: flatten_object_def st_def [symmetric] conforming_object del: everywhere.simps fold.simps)
  qed
qed

lemma conforming_top: "conforming spec q j \<Longrightarrow> conforming spec q (flatten_top_level_combiners j)"
  by (cases j) (simp_all add: flatten_object_conforming del: everywhere.simps(1))

lemma conforming_empty_object:
  "conforming spec q (JObject [(''properties'', JObject []), (''type'', JString ''object'')])"
proof -
  have "sound spec q (put ''properties'' (JObject []) (put ''type'' (JString ''object'') []))"
    by (intro sound_put) (simp_all add: sound_properties_def)
  moreover have "put ''properties'' (JObject []) (put ''type'' (JString ''object'') [])
      = [(''properties'', JObject []), (''type'', JString ''object'')]"
    by code_simp
  ultimately show ?thesis
    by (simp add: conforming_object object_ok_def sound_def names_declared_def get_array_def get_object_def
        has_key_def del: everywhere.simps)
qed

lemma conforming_ensure: "conforming spec q j \<Longrightarrow> conforming spec q (ensure_object j)"
proof -
  have "put ''properties'' (JObject []) (put ''type'' (JString ''object'') [])
      = [(''properties'', JObject []), (''type'', JString ''object'')]"
    by code_simp
  then show "conforming spec q j \<Longrightarrow> ?thesis"
    using conforming_empty_object
    by (cases j) (simp_all add: ensure_object_def del: everywhere.simps(1) put.simps)
qed

text \<open>A dialect is coherent when it is valid and does not ask for both of the transformations
  that contradict each other.\<close>

definition coherent :: "dialect_spec \<Rightarrow> bool" where
  "coherent spec =
     (validate spec = Inr () \<and> \<not> flatten_all (transforms spec)
      \<and> \<not> (prune_dangling (transforms spec) \<and> require_properties (transforms spec)))"

lemma apply_conforming:
  "coherent spec \<Longrightarrow> conforming spec q (apply_with_quirks schema spec q)"
  by (auto simp: coherent_def apply_with_quirks_def Let_def simp del: everywhere.simps
      intro!: conforming_ensure conforming_top walk_conforming)

text \<open>The crate's own check finds nothing in such a schema.\<close>

lemma check_entry_ok:
  assumes "object_ok spec m" and "(k, v) \<in> set m" and "entry_ok spec q k v" and "\<not> flatten_all (transforms spec)"
  shows "check_entry spec m path k v = []"
proof -
  have "check_required m v path = []" if "prune_dangling (transforms spec)" "k = ''required''"
  proof -
    have "map_of m ''required'' = Some v" using assms(1,2) that by (simp add: object_ok_def ordered_entry)
    then show ?thesis
      using assms(1) that(1)
      by (auto simp: check_required_def object_ok_def names_declared_def get_array_def list_all_iff
          split: option.splits)
  qed
  then show ?thesis
    using assms(3,4) by (cases v) (auto simp: check_entry_def entry_ok_def)
qed

lemma conforming_checked:
  assumes "\<not> flatten_all (transforms spec)"
  shows "conforming spec q j \<Longrightarrow> check_walk spec path j = []"
proof (induction j arbitrary: path rule: measure_induct_rule [of size])
  case (less j)
  show ?case
  proof (cases j)
    case (JObject m)
    note ok = less.prems [unfolded JObject conforming_object sound_def]
    have "check_walk spec p c = []"
      if "(k, v) \<in> set m" "(p, c) \<in> set (named_subschemas (path @ ''.'' @ k) k v)" for k v p c
    proof (rule less.IH)
      show "size c < size j" using size_entry [OF that(1)] size_named [OF that(2)] JObject by simp
      have "c \<in> set (subschemas k v)"
        using that(2) by (force simp flip: subschemas_named [of "path @ ''.'' @ k"])
      then show "conforming spec q c" using ok that(1) by (auto simp: list_all_iff)
    qed
    moreover have "check_entry spec m path k v = []" if "(k, v) \<in> set m" for k v
      using that ok assms by (intro check_entry_ok [where q = q]) auto
    moreover have "check_properties spec m path = []"
      using ok by (auto simp: check_properties_def object_ok_def)
    ultimately show ?thesis by (auto simp: JObject case_prod_beta)
  next
    case (JArray xs)
    have "check_walk spec p c = []" if "c \<in> set xs" for p c
      using less.IH [of c p] less.prems that size_item [OF that] by (auto simp: JArray list_all_iff)
    then show ?thesis by (auto simp: JArray in_set_enumerate_eq)
  qed simp_all
qed

lemma normalize_applies:
  "\<exists>q. fst (normalize_schema schema spec s) = apply_with_quirks schema spec q
     \<and> set (rejected_keywords q) = set (rejected_keywords (fst (learned_for (spec_id spec) s)))
     \<and> set (rejected_formats q) = set (rejected_formats (fst (learned_for (spec_id spec) s)))"
proof -
  obtain q s' where q: "learned_for (spec_id spec) s = (q, s')" by force
  show ?thesis
    by (rule exI [of _ "if rejected_keywords q = [] \<and> rejected_formats q = [] then no_quirks else q"])
      (simp add: normalize_schema_def apply_dialect_def no_quirks_def q)
qed

text \<open>
  C16: A schema sent in a provider's dialect holds nothing the dialect rejects: whatever the
  schema and whatever was learned before, the crate's own check finds no keyword outside the
  dialect, no format it does not take, no required name that is not declared and no object
  without the properties it must have. (For a dialect that is valid, does not flatten every
  combiner, and does not both prune requirements and add empty property maps.)
\<close>

theorem dialect_schema_conforms:
  assumes "validate spec = Inr ()" and "\<not> flatten_all (transforms spec)"
    and "\<not> (prune_dangling (transforms spec) \<and> require_properties (transforms spec))"
  shows "must_not_contain_unsupported (fst (normalize_schema schema spec s)) spec = []"
proof -
  obtain q where "fst (normalize_schema schema spec s) = apply_with_quirks schema spec q"
    using normalize_applies by blast
  then show ?thesis
    using apply_conforming [of spec q schema] assms conforming_checked
    by (simp add: must_not_contain_unsupported_def coherent_def)
qed

definition empty_store :: quirk_store where
  "empty_store = \<lparr>store_path = Some ''q'', cache = Map.empty, disk = Map.empty, writable = (\<lambda>p. True)\<rparr>"

definition hostile_schema :: json where
  "hostile_schema =
     JObject [(''oneOf'', JArray [JObject [(''properties'', JObject [(''a'', JObject [(''uniqueItems'', JBool True)])]),
                                       (''required'', JArray [JString ''b''])]]),
              (''properties'', JObject [(''c'', JObject [(''const'', JString ''x'')])]),
              (''propertyNames'', JObject [])]"

theorem dialect_schema_conforms_witness:
  "must_not_contain_unsupported (fst (normalize_schema hostile_schema GEMINI empty_store)) GEMINI = []
   \<and> must_not_contain_unsupported hostile_schema GEMINI \<noteq> []"
proof
  show "must_not_contain_unsupported (fst (normalize_schema hostile_schema GEMINI empty_store)) GEMINI = []"
    by (rule dialect_schema_conforms) code_simp+
  show "must_not_contain_unsupported hostile_schema GEMINI \<noteq> []" by code_simp
qed

text \<open>A dialect that flattens every combiner does not get rid of one without branches.\<close>

lemma empty_combiner_survives:
  "must_not_contain_unsupported (apply_dialect (JObject [(''anyOf'', JArray [])]) ANTIGRAVITY_CLAUDE)
     ANTIGRAVITY_CLAUDE = [(''$'', Combiner_Survived ''anyOf'')]"
  by code_simp

section \<open>Meaning\<close>

fun json_ok :: "json \<Rightarrow> bool" where
  "json_ok (JObject m) = (ordered m \<and> list_all (\<lambda>(k, v). json_ok v) m)"
| "json_ok (JArray xs) = list_all json_ok xs"
| "json_ok _ = True"

definition lasting :: "rstr set" where
  "lasting = set LOAD_BEARING_KEYWORDS - {''required''}"

definition retains :: "entries \<Rightarrow> entries \<Rightarrow> bool" where
  "retains om nm =
     ((\<forall>k \<in> lasting. has_key k om \<longrightarrow> has_key k nm)
      \<and> (\<forall>ops. get_object ''properties'' om = Some ops \<longrightarrow>
           (\<exists>nps. get_object ''properties'' nm = Some nps
             \<and> (\<forall>(n, c) \<in> set ops. \<exists>nc. map_of nps n = Some nc \<and> (\<forall>path. compare_schemas path c nc = [])))))"

definition grows :: "entries \<Rightarrow> entries \<Rightarrow> bool" where
  "grows m m' =
     ((\<forall>k \<in> lasting. has_key k m \<longrightarrow> has_key k m')
      \<and> (\<forall>ps. get_object ''properties'' m = Some ps \<longrightarrow>
           (\<exists>ps'. get_object ''properties'' m' = Some ps' \<and> map_of ps \<subseteq>\<^sub>m map_of ps')))"

lemma retains_compare: "retains om nm \<Longrightarrow> compare_schemas path (JObject om) (JObject nm) = []"
  by (force simp: retains_def lasting_def compare_schemas.simps [of path] filter_empty_conv split: option.splits)

lemma retains_grows: "retains om m \<Longrightarrow> grows m m' \<Longrightarrow> retains om m'"
  unfolding retains_def grows_def by (fastforce simp: map_le_def dom_def)

lemma grows_refl [simp]: "grows m m"
  by (simp add: grows_def)

lemma grows_trans [trans]: "grows a b \<Longrightarrow> grows b c \<Longrightarrow> grows a c"
  unfolding grows_def by (meson map_le_trans)

declare map_le_trans [trans]

lemma properties_lasting [simp]: "''properties'' \<in> lasting" "''required'' \<notin> lasting"
  by (simp_all add: lasting_def LOAD_BEARING_KEYWORDS_def)

lemma grows_drop: "k \<notin> lasting \<Longrightarrow> grows m (drop_key k m)"
  by (auto simp: grows_def)

lemma grows_put: "k \<noteq> ''properties'' \<Longrightarrow> grows m (put k v m)"
  by (simp add: grows_def)

lemma grows_put_properties: "map_of (own_properties m) \<subseteq>\<^sub>m map_of ps \<Longrightarrow> grows m (put ''properties'' (JObject ps) m)"
  by (auto simp: grows_def own_properties_def)

lemma grows_put_new: "grows m (put_new k v m)"
  by (auto simp: grows_def put_new_def has_key_def get_object_def)

lemma grows_prune: "grows m (prune_dangling_required m)"
  by (auto simp: prune_dangling_required_def Let_def intro: grows_drop grows_put split: option.split)

lemma put_all_extends: "map_of ps \<subseteq>\<^sub>m map_of (fold (\<lambda>(n, p). put_new n p) bps ps)"
proof (induction bps arbitrary: ps)
  case (Cons e bps)
  obtain n p where e: "e = (n, p)" by force
  have "map_of ps \<subseteq>\<^sub>m map_of (put_new n p ps)"
    by (auto simp: map_of_put_new map_le_def has_key_def)
  also have "\<dots> \<subseteq>\<^sub>m map_of (fold (\<lambda>(n, p). put_new n p) bps (put_new n p ps))"
    by (rule Cons)
  finally show ?case by (simp add: e)
qed simp

lemma adopt_properties_extends: "map_of ps \<subseteq>\<^sub>m map_of (adopt_properties b ps)"
  by (auto simp: adopt_properties_def put_all_extends split: option.split)

lemma merge_branches_grow:
  "fold merge_branch branches (out, ps, ns) = (out', ps', ns')
    \<Longrightarrow> grows out out' \<and> get_object ''properties'' out' = get_object ''properties'' out \<and> map_of ps \<subseteq>\<^sub>m map_of ps'"
proof (induction branches arbitrary: out ps ns)
  case (Cons b bs)
  show ?case
  proof (cases b)
    case (JObject m)
    have "grows out (adopt_type m out)" "get_object ''properties'' (adopt_type m out) = get_object ''properties'' out"
      by (auto simp: adopt_type_def intro: grows_put split: option.split)
    then show ?thesis
      using Cons JObject adopt_properties_extends [of ps m] grows_trans map_le_trans by (fastforce simp: JObject)
  qed (use Cons in simp_all)
qed simp

lemma merge_all_of_grows: "grows m (merge_all_of_branches m)"
proof (cases "get_array ''allOf'' m")
  case None
  then show ?thesis by (simp add: merge_all_of_branches_def grows_drop lasting_def LOAD_BEARING_KEYWORDS_def)
next
  case (Some branches)
  define out where "out = drop_key ''allOf'' m"
  define ns0 where "ns0 = (case get_array ''required'' out of Some xs \<Rightarrow> strings_of xs | None \<Rightarrow> [])"
  obtain out1 ps ns where merged: "fold merge_branch branches (out, own_properties out, ns0) = (out1, ps, ns)"
    by (metis prod_cases3)
  define out2 where "out2 = (if ps = [] then out1 else put ''properties'' (JObject ps) out1)"
  define out3 where
    "out3 = (if ns = [] then drop_key ''required'' out2 else put ''required'' (JArray (map JString ns)) out2)"
  have "grows m out" by (simp add: out_def grows_drop lasting_def LOAD_BEARING_KEYWORDS_def)
  also have "grows out out1" using merge_branches_grow [OF merged] by simp
  also have "grows out1 out2"
    using merge_branches_grow [OF merged] by (auto simp: out2_def own_properties_def intro!: grows_put_properties)
  also have "grows out2 out3" by (simp add: out3_def grows_drop grows_put)
  also have "grows out3 (prune_dangling_required out3)" by (rule grows_prune)
  finally show ?thesis
    using Some merged
    by (cases "ns = []")
      (simp_all add: merge_all_of_branches_def out_def [symmetric] ns0_def [symmetric] out2_def [symmetric]
        out3_def Let_def)
qed

lemma finish_grows: "grows m (finish spec m)"
proof -
  let ?m1 = "if prune_dangling (transforms spec) then prune_dangling_required m else m"
  let ?m2 = "if merge_all_of (transforms spec) then merge_all_of_branches ?m1 else ?m1"
  have "grows m ?m1" by (simp add: grows_prune)
  also have "grows ?m1 ?m2" by (simp add: merge_all_of_grows)
  also have "grows ?m2 (finish spec m)" by (simp add: finish_def Let_def grows_put_new)
  finally show ?thesis .
qed

text \<open>The entries of the source, one by one.\<close>

lemma has_key_place: "has_key a (place k v out) = (a = k \<or> has_key a out)"
  by (auto simp: place_def has_key_def split: option.split json.split)

lemma add_entry_keeps: "has_key a out \<Longrightarrow> has_key a (add_entry spec q e out)"
  by (cases e) (auto simp: has_key_place split: option.split)

lemma add_entries_keep: "has_key a out \<Longrightarrow> has_key a (fold (add_entry spec q) es out)"
  by (induction es arbitrary: out) (simp_all add: add_entry_keeps del: add_entry.simps)

lemma lasting_key:
  assumes "k \<in> lasting"
  shows "\<not> is_droppable k" "out_key spec k = k" "k \<noteq> ''format''"
  using assms by (auto simp: lasting_def is_droppable_def out_key_def LOAD_BEARING_KEYWORDS_def)

lemma add_lasting: "k \<in> lasting \<Longrightarrow> has_key k (add_entry spec q (k, v, n) out)"
  using lasting_key(1,3) [of k] lasting_key(2) [of k spec] by (simp add: has_key_place)

lemma add_lastings:
  "k \<in> lasting \<Longrightarrow> (k, v, n) \<in> set es \<Longrightarrow> has_key k (fold (add_entry spec q) es out)"
  by (induction es arbitrary: out) (auto simp: add_lasting add_entries_keep simp del: add_entry.simps)

lemma place_other: "a \<noteq> k \<Longrightarrow> map_of (place k v out) a = map_of out a"
  by (simp add: place_def split: option.split json.split)

lemma add_entry_other:
  assumes "k \<noteq> ''properties''"
  shows "map_of (add_entry spec q (k, v, n) out) ''properties'' = map_of out ''properties''"
proof -
  have "''properties'' \<noteq> out_key spec k" using assms by (simp add: out_key_def)
  then have "map_of (place (out_key spec k) n out) ''properties'' = map_of out ''properties''"
    by (rule place_other)
  then show ?thesis by (cases "k = ''const''"; cases "as_str v") auto
qed

lemma add_entries_properties:
  assumes "distinct (map fst es)" and "(''properties'', v, n) \<in> set es" and "\<not> has_key ''properties'' out"
  shows "map_of (fold (add_entry spec q) es out) ''properties'' = Some n"
  using assms
proof (induction es arbitrary: out)
  case (Cons e es)
  obtain k v' n' where e: "e = (k, v', n')" by (cases e)
  have others: "map_of (fold (add_entry spec q) es out') ''properties'' = map_of out' ''properties''"
    if "''properties'' \<notin> fst ` set es" for out'
    using that
  proof (induction es arbitrary: out')
    case (Cons f fs)
    obtain k v n where "f = (k, v, n)" by (cases f)
    with Cons show ?case using add_entry_other [of k spec q v n out'] by (auto simp del: add_entry.simps)
  qed simp
  show ?case
  proof (cases "k = ''properties''")
    case True
    then have "n' = n" "''properties'' \<notin> fst ` set es"
      using Cons.prems(1,2) by (force simp: e)+
    moreover have "map_of (add_entry spec q (''properties'', v', n') out) ''properties'' = Some n'"
      using lasting_key(1) [of "''properties''"] lasting_key(2) [of "''properties''" spec] Cons.prems(3)
      by (simp add: place_def has_key_def)
    ultimately show ?thesis using others True by (simp add: e del: add_entry.simps)
  next
    case False
    then show ?thesis
      using Cons e by (auto simp: has_key_def add_entry_other simp del: add_entry.simps)
  qed
qed simp

lemma json_ok_property:
  "json_ok (JObject m) \<Longrightarrow> get_object k m = Some ps \<Longrightarrow> ordered ps \<and> (\<forall>(n, c) \<in> set ps. json_ok c)"
proof -
  assume "json_ok (JObject m)" and "get_object k m = Some ps"
  then have "json_ok (JObject ps)"
    by (force simp: get_object_Some list_all_iff simp del: json_ok.simps(1) dest: map_of_SomeD
        dest!: iffD1 [OF json_ok.simps(1)])
  then show ?thesis by (auto simp: list_all_iff)
qed

lemma walk_retains:
  assumes "json_ok (JObject m)"
    and "\<And>ops n c. get_object ''properties'' m = Some ops \<Longrightarrow> (n, c) \<in> set ops
           \<Longrightarrow> \<forall>path. compare_schemas path c (walk spec q c) = []"
  shows "\<exists>out. walk spec q (JObject m) = JObject out \<and> retains m out"
proof -
  define es where "es = map (\<lambda>(k, v). (k, v, normal_child spec q k v)) m"
  define out where "out = fold (add_entry spec q) es []"
  have keys: "distinct (map fst es)"
    using assms(1) by (simp add: es_def ordered_def strict_sorted_iff comp_def case_prod_beta)
  have "has_key k out" if "k \<in> lasting" "has_key k m" for k
  proof -
    from that(2) obtain v where "(k, v) \<in> set m" by (auto simp: has_key_def dest: map_of_SomeD)
    then show ?thesis
      using add_lastings [OF that(1), of v "normal_child spec q k v" es] by (force simp: out_def es_def)
  qed
  moreover have "\<exists>nps. get_object ''properties'' out = Some nps
      \<and> (\<forall>(n, c) \<in> set ops. \<exists>nc. map_of nps n = Some nc \<and> (\<forall>path. compare_schemas path c nc = []))"
    if ops: "get_object ''properties'' m = Some ops" for ops
  proof -
    have "(''properties'', JObject ops) \<in> set m" using ops by (auto simp: get_object_Some dest: map_of_SomeD)
    moreover from this have distinct: "ordered ops" using assms(1) by (auto simp: list_all_iff)
    ultimately have "get_object ''properties'' out = Some (map (\<lambda>(n, c). (n, walk spec q c)) ops)"
      using add_entries_properties [OF keys, of "JObject ops" _ "[]" spec q]
      by (force simp: out_def es_def get_object_Some normal_child_def has_key_def)
    moreover have "map_of (map (\<lambda>(n, c). (n, walk spec q c)) ops) n = Some (walk spec q c)"
      if "(n, c) \<in> set ops" for n c
      using ordered_entry [OF distinct that] by (simp add: map_of_map)
    ultimately show ?thesis using assms(2) [OF ops] by auto
  qed
  ultimately have "retains m out" by (simp add: retains_def)
  then show ?thesis
    using retains_grows [OF _ finish_grows] by (simp add: walk_object out_def es_def)
qed

lemma walk_compare: "json_ok j \<Longrightarrow> compare_schemas path j (walk spec q j) = []"
proof (induction j arbitrary: path rule: measure_induct_rule [of size])
  case (less j)
  show ?case
  proof (cases j)
    case (JObject m)
    have "\<exists>out. walk spec q (JObject m) = JObject out \<and> retains m out"
    proof (rule walk_retains)
      fix ops n c
      assume ops: "get_object ''properties'' m = Some ops" and c: "(n, c) \<in> set ops"
      have "size c < size j" using size_property [OF c ops [symmetric]] JObject by simp
      moreover have "json_ok c" using json_ok_property [OF less.prems [unfolded JObject] ops] c by blast
      ultimately show "\<forall>path. compare_schemas path c (walk spec q c) = []" using less.IH by blast
    qed (use less.prems JObject in simp)
    then show ?thesis using JObject retains_compare by auto
  qed (simp_all add: compare_schemas.simps [of path])
qed

lemma flatten_keyword_grows:
  assumes "c \<in> {''oneOf'', ''anyOf'', ''allOf''}"
  shows "grows (f_out st) (f_out (flatten_keyword c st))
    \<and> map_of (f_properties st) \<subseteq>\<^sub>m map_of (f_properties (flatten_keyword c st))
    \<and> get_object ''properties'' (f_out (flatten_keyword c st)) = get_object ''properties'' (f_out st)"
proof -
  have "map_of ps \<subseteq>\<^sub>m map_of (fst (fold (flatten_branch c) branches (ps, ns)))" for branches ps ns
  proof (induction branches arbitrary: ps ns)
    case (Cons b bs)
    have "map_of ps \<subseteq>\<^sub>m map_of (fst (flatten_branch c b (ps, ns)))"
      by (auto simp: flatten_branch_def adopt_properties_extends split: option.split)
    also have "\<dots> \<subseteq>\<^sub>m map_of (fst (fold (flatten_branch c) bs (flatten_branch c b (ps, ns))))"
      using Cons [of "fst (flatten_branch c b (ps, ns))" "snd (flatten_branch c b (ps, ns))"] by simp
    finally show ?case by simp
  qed simp
  moreover have "c \<notin> lasting" using assms by (auto simp: lasting_def LOAD_BEARING_KEYWORDS_def)
  ultimately show ?thesis
    using assms by (auto simp: flatten_keyword_def Let_def case_prod_beta grows_drop split: option.split)
qed

lemma flatten_keywords_grow:
  "set cs \<subseteq> {''oneOf'', ''anyOf'', ''allOf''} \<Longrightarrow> st' = fold flatten_keyword cs st
    \<Longrightarrow> grows (f_out st) (f_out st') \<and> map_of (f_properties st) \<subseteq>\<^sub>m map_of (f_properties st')
      \<and> get_object ''properties'' (f_out st') = get_object ''properties'' (f_out st)"
proof (induction cs arbitrary: st)
  case (Cons c cs)
  have c: "c \<in> {''oneOf'', ''anyOf'', ''allOf''}" and cs: "set cs \<subseteq> {''oneOf'', ''anyOf'', ''allOf''}"
    using Cons.prems(1) by (simp_all only: set_simps insert_subset)
  show ?case
    using flatten_keyword_grows [OF c, of st] Cons.IH [OF cs, of "flatten_keyword c st"] Cons.prems(2)
      grows_trans map_le_trans by fastforce
qed simp

lemma require_names_grows: "grows m (require_names ns m)"
  by (auto simp: require_names_def Let_def intro: grows_put_new grows_put grows_trans [OF grows_put_new grows_put]
      split: option.split)

lemma flatten_object_grows: "grows m (flatten_object m)"
proof -
  define st0 where "st0 = \<lparr>f_out = m, f_properties = own_properties m, f_required = [], f_seen = False\<rparr>"
  define st where "st = fold flatten_keyword [''oneOf'', ''anyOf'', ''allOf''] st0"
  have st: "grows (f_out st0) (f_out st) \<and> map_of (f_properties st0) \<subseteq>\<^sub>m map_of (f_properties st)
      \<and> get_object ''properties'' (f_out st) = get_object ''properties'' (f_out st0)"
    using flatten_keywords_grow [OF _ st_def] by simp
  have "grows (f_out st) (put ''type'' (JString ''object'') (f_out st))" by (simp add: grows_put)
  also have "grows \<dots> (put ''properties'' (JObject (f_properties st)) (put ''type'' (JString ''object'') (f_out st)))"
    using st by (intro grows_put_properties) (auto simp: own_properties_def st0_def)
  also have "grows \<dots> (require_names (f_required st) (put ''properties'' (JObject (f_properties st))
      (put ''type'' (JString ''object'') (f_out st))))" (is "grows _ ?out")
    by (rule require_names_grows)
  also have "grows ?out (prune_dangling_required ?out)" by (rule grows_prune)
  finally have "grows (f_out st) (flatten_object m)"
    by (simp add: flatten_object_def st_def [unfolded st0_def, symmetric] Let_def del: fold.simps)
  then show ?thesis using st grows_trans by (auto simp: st0_def)
qed



end
