(* ===== verification/Schema_Learning.thy ===== *)
theory Schema_Learning
  imports Schema_Properties
begin

text \<open>
  What a rejection teaches: the store only grows, a retry is granted only for something new,
  and what was learned is gone from every schema sent afterwards.
\<close>

section \<open>What the store knows\<close>

definition active_file :: "quirk_store \<Rightarrow> quirk_file" where
  "active_file s = (case store_path s of None \<Rightarrow> Map.empty | Some p \<Rightarrow> cached_file s p)"

definition constructs :: "learned_quirks \<Rightarrow> construct set" where
  "constructs q = Keyword ` set (rejected_keywords q) \<union> Format ` set (rejected_formats q)"

definition learned :: "quirk_store \<Rightarrow> rstr \<Rightarrow> construct set" where
  "learned s i = constructs (entry_of (active_file s) i)"

definition named :: "rstr \<Rightarrow> construct set" where
  "named message =
     (case classify message of
        None \<Rightarrow> {}
      | Some r \<Rightarrow> Keyword ` set (named_keywords r) \<union> Format ` set_option (rejected_format r))"

lemma finite_named [simp]: "finite (named message)"
  by (simp add: named_def split: option.split)

lemma with_store_known:
  assumes "store_path s \<noteq> None" and "with_store f s = (r, s')"
  shows "store_path s' = store_path s \<and> r = fst (f (active_file s)) \<and> active_file s' = snd (snd (f (active_file s)))"
  using assms by (auto simp: with_store_def active_file_def cached_file_def split: prod.splits)

lemma learned_known: "store_path s \<noteq> None \<Longrightarrow> constructs (fst (learned_for i s)) = learned s i"
proof -
  assume s: "store_path s \<noteq> None"
  obtain q s' where q: "learned_for i s = (q, s')" by force
  then have "q = entry_of (active_file s) i"
    using with_store_known [OF s q [unfolded learned_for_def]] by simp
  then show ?thesis by (simp add: q learned_def)
qed

lemma record_keyword_known:
  assumes "store_path s \<noteq> None" and "record_keyword i k s = (new, s')"
  shows "store_path s' \<noteq> None" "new \<longleftrightarrow> Keyword k \<notin> learned s i"
    "learned s' j = (if j = i then insert (Keyword k) (learned s i) else learned s j)"
  using with_store_known [OF assms(1) assms(2) [unfolded record_keyword_def]] assms(1)
  by (auto simp: learned_def record_in_def entry_of_def constructs_def Let_def split: if_splits)

lemma record_format_known:
  assumes "store_path s \<noteq> None" and "record_format i x s = (new, s')"
  shows "store_path s' \<noteq> None" "new \<longleftrightarrow> Format x \<notin> learned s i"
    "learned s' j = (if j = i then insert (Format x) (learned s i) else learned s j)"
  using with_store_known [OF assms(1) assms(2) [unfolded record_format_def]] assms(1)
  by (auto simp: learned_def record_in_def entry_of_def constructs_def Let_def split: if_splits)

lemma learn_keywords_known:
  assumes "store_path s \<noteq> None" and "learn_keywords i ks d s = (r, s')"
  shows "store_path s' \<noteq> None
    \<and> learned s i \<subseteq> learned s' i \<and> learned s' i \<subseteq> learned s i \<union> Keyword ` set ks
    \<and> (\<forall>j. j \<noteq> i \<longrightarrow> learned s' j = learned s j)
    \<and> (\<forall>d'. r = Inr d' \<longrightarrow> learned s' i = learned s i \<union> Keyword ` set ks
           \<and> set d' = set d \<union> (Keyword ` set ks - learned s i) \<and> list_all is_droppable ks)"
  using assms
proof (induction ks arbitrary: d s)
  case (Cons k ks)
  show ?case
  proof (cases "is_droppable k")
    case True
    obtain new s1 where new: "record_keyword i k s = (new, s1)" by force
    note known = record_keyword_known [OF Cons.prems(1) new]
    have "learn_keywords i ks (if new then d @ [Keyword k] else d) s1 = (r, s')"
      using Cons.prems(2) True new by simp
    from Cons.IH [OF known(1) this] show ?thesis
      using known(2) True by (auto simp: known(3))
  qed (use Cons.prems in auto)
qed auto

lemma learn_format_known:
  assumes "store_path s \<noteq> None" and "learn_format i fmt d s = (d', s')"
  shows "store_path s' \<noteq> None \<and> learned s' i = learned s i \<union> Format ` set_option fmt
    \<and> (\<forall>j. j \<noteq> i \<longrightarrow> learned s' j = learned s j)
    \<and> set d' = set d \<union> (Format ` set_option fmt - learned s i)"
proof (cases fmt)
  case (Some x)
  obtain new s1 where new: "record_format i x s = (new, s1)" by force
  note known = record_format_known [OF assms(1) new]
  have "s' = s1" "d' = (if new then d @ [Format x] else d)"
    using assms(2) Some new by (auto simp: learn_format_def split: if_splits)
  then show ?thesis using known Some by auto
qed (use assms in \<open>auto simp: learn_format_def\<close>)

lemma recover_known:
  assumes "store_path s \<noteq> None" and "recover_from_error message spec s = (a, s')"
  defines "i \<equiv> spec_id spec"
  shows "store_path s' \<noteq> None \<and> learned s i \<subseteq> learned s' i \<and> learned s' i \<subseteq> learned s i \<union> named message
    \<and> (\<forall>j. j \<noteq> i \<longrightarrow> learned s' j = learned s j)
    \<and> (\<forall>d t. a = Retry_Without d t \<longrightarrow> d \<noteq> [] \<and> set d = named message - learned s i
           \<and> learned s' i = learned s i \<union> named message \<and> (\<forall>k. Keyword k \<in> set d \<longrightarrow> is_droppable k))"
proof (cases "classify message")
  case None
  then show ?thesis using assms by (auto simp: recover_from_error_def split: if_splits)
next
  case (Some r)
  obtain x s1 where x: "learn_keywords i (named_keywords r) [] s = (x, s1)" by force
  note ks = learn_keywords_known [OF assms(1) x]
  show ?thesis
  proof (cases x)
    case (Inl k)
    then show ?thesis using assms ks Some x by (auto simp: recover_from_error_def named_def)
  next
    case (Inr d)
    obtain d' s2 where f: "learn_format i (rejected_format r) d s1 = (d', s2)" by force
    have "store_path s1 \<noteq> None" using ks by simp
    note fs = learn_format_known [OF this f]
    have s2: "s' = s2"
      and act: "\<forall>d t. a = Retry_Without d t \<longrightarrow> d = d' \<and> d' \<noteq> []"
      using assms(2) Some x f Inr by (auto simp: recover_from_error_def i_def split: if_splits)
    have "set d' = named message - learned s i"
      using ks fs Inr Some by (auto simp: named_def)
    then show ?thesis
      using ks fs act Inr Some by (auto simp: named_def s2 list_all_iff)
  qed
qed

text \<open>Handling errors is a machine whose store keeps its path and only learns.\<close>

definition recover_step :: "rstr \<times> dialect_spec \<Rightarrow> quirk_store \<Rightarrow> quirk_store option" where
  "recover_step op s = Some (snd (recover_from_error (fst op) (snd op) s))"

interpretation quirks: monotone_machine recover_step "\<lambda>s. store_path s \<noteq> None"
  "\<lambda>s s'. \<forall>i. learned s i \<subseteq> learned s' i"
proof
  fix s s' op
  assume "store_path s \<noteq> None" "recover_step op s = Some s'"
  then have "store_path s \<noteq> None"
    "recover_from_error (fst op) (snd op) s = (fst (recover_from_error (fst op) (snd op) s), s')"
    by (auto simp: recover_step_def)
  note known = recover_known [OF this]
  show "store_path s' \<noteq> None" using known by simp
  show "\<forall>i. learned s i \<subseteq> learned s' i" using known by (metis order_refl)
qed auto

section \<open>Retries\<close>

fun is_retry :: "recovery_action \<Rightarrow> bool" where
  "is_retry (Retry_Without d t) = True"
| "is_retry a = False"

text \<open>The errors of one dialect in turn, and what each is answered with.\<close>

fun recoveries :: "dialect_spec \<Rightarrow> rstr list \<Rightarrow> quirk_store \<Rightarrow> recovery_action list \<times> quirk_store" where
  "recoveries spec [] s = ([], s)"
| "recoveries spec (e # es) s =
     (let (a, s') = recover_from_error e spec s; (as, s'') = recoveries spec es s' in (a # as, s''))"

lemma retries_lower:
  assumes "finite N" and "\<forall>e \<in> set es. named e \<subseteq> N" and "store_path s \<noteq> None"
  shows "length (filter is_retry (fst (recoveries spec es s))) \<le> card (N - learned s (spec_id spec))"
  using assms(2,3)
proof (induction es arbitrary: s)
  case (Cons e es)
  obtain a s' where a: "recover_from_error e spec s = (a, s')" by force
  note known = recover_known [OF Cons.prems(2) a]
  have IH: "length (filter is_retry (fst (recoveries spec es s'))) \<le> card (N - learned s' (spec_id spec))"
    using Cons known by simp
  have sub: "N - learned s' (spec_id spec) \<subseteq> N - learned s (spec_id spec)" using known by blast
  have "card (N - learned s' (spec_id spec)) + (if is_retry a then 1 else 0) \<le> card (N - learned s (spec_id spec))"
  proof (cases "is_retry a")
    case True
    then obtain d t where "a = Retry_Without d t" by (cases a) auto
    then have "d \<noteq> []" "set d = named e - learned s (spec_id spec)" "named e \<subseteq> learned s' (spec_id spec)"
      using known by auto
    then have "named e - learned s (spec_id spec) \<noteq> {}" "named e \<subseteq> learned s' (spec_id spec)"
      by (metis set_empty, blast)
    then obtain x where "x \<in> named e" "x \<notin> learned s (spec_id spec)" "x \<in> learned s' (spec_id spec)"
      by blast
    then have "N - learned s' (spec_id spec) \<subset> N - learned s (spec_id spec)"
      using sub Cons.prems(1) by auto
    then have "card (N - learned s' (spec_id spec)) < card (N - learned s (spec_id spec))"
      using assms(1) by (intro psubset_card_mono) simp_all
    then show ?thesis using True by simp
  qed (use card_mono [OF _ sub] assms(1) in simp)
  then show ?case using IH by (cases "is_retry a") (simp_all add: a case_prod_beta)
qed simp


definition unique_items_error :: rstr where
  "unique_items_error = SINGLE_QUOTE # ''uniqueItems'' @ SINGLE_QUOTE # '' is not permitted.''"


text \<open>Without a home directory nothing is remembered, and the same error is answered with a
  retry each time.\<close>

lemma no_store_no_memory:
  assumes "store_path s = None" and "fst (recover_from_error e spec s) = Retry_Without d t"
  shows "recoveries spec (replicate n e) s = (replicate n (Retry_Without d t), s)"
proof -
  have fixed: "snd (with_store f s) = s" for f using assms(1) by (simp add: with_store_def)
  have "snd (learn_keywords i ks d' s) = s" for i ks d'
  proof (induction ks arbitrary: d')
    case (Cons k ks)
    have "snd (record_keyword i k s) = s" by (simp add: record_keyword_def fixed)
    then show ?case using Cons by (simp add: case_prod_beta)
  qed simp
  moreover have "snd (learn_format i f d' s) = s" for i f d'
    by (auto simp: learn_format_def record_format_def fixed case_prod_beta split: option.split)
  ultimately have "snd (recover_from_error e spec s) = s"
    by (auto simp: recover_from_error_def case_prod_beta split: option.split sum.split)
  then have "recover_from_error e spec s = (Retry_Without d t, s)" using assms(2) by (metis prod.collapse)
  then show ?thesis by (induction n) simp_all
qed

section \<open>What is sent afterwards\<close>



section \<open>What the rewrite gets wrong\<close>

text \<open>A learned \<open>anyOf\<close> does not keep \<open>oneOf\<close> from being sent under that name.\<close>

lemma rejected_any_of_is_sent:
  "apply_with_quirks (JObject [(''oneOf'', JArray [])]) OPENAI
     \<lparr>rejected_keywords = [''anyOf''], rejected_formats = []\<rparr> = JObject [(''anyOf'', JArray [])]"
  by code_simp

text \<open>A constant beside an enumeration widens it instead of narrowing it.\<close>

lemma constant_widens_enumeration:
  "apply_dialect (JObject [(''const'', JString ''a''), (''enum'', JArray [JString ''b''])]) GEMINI
     = JObject [(''enum'', JArray [JString ''a'', JString ''b''])]"
  by code_simp

text \<open>A required name of an object without any properties stays.\<close>

lemma dangling_without_properties:
  "apply_dialect (JObject [(''required'', JArray [JString ''x'']), (''type'', JString ''object'')]) GEMINI
     = JObject [(''required'', JArray [JString ''x'']), (''type'', JString ''object'')]"
  by code_simp

text \<open>An untyped property of a shared definition is not reported.\<close>

lemma untyped_definition_missed:
  "untyped_properties (JObject [(''$defs'', JObject [(''d'', JObject [(''properties'', JObject [(''p'', JObject [])])])])])
     = []"
  by code_simp

end
