(* ===== verification/Strict_Schema.thy ===== *)
theory Strict_Schema
  imports Schema_Learning
begin

text \<open>
  Strict tool schemas for OpenAI, \<open>crates/kcode-provider-core/src/openai_schema.rs\<close>, and the
  tools a request carries, \<open>build_tools\<close> of \<open>crates/kcode-provider-openai/src/request.rs\<close>:
  when a schema may claim strict mode, and how it is closed when it does.
\<close>

section \<open>Who may claim strict mode\<close>

definition schema_has_type_info :: "json \<Rightarrow> bool" where
  "schema_has_type_info schema =
     (case schema of
        JBool b \<Rightarrow> False
      | JObject m \<Rightarrow>
          list_ex (\<lambda>k. has_key k m)
            [''type'', ''enum'', ''const'', ''$ref'', ''anyOf'', ''oneOf'', ''allOf'', ''properties'', ''items'']
      | _ \<Rightarrow> True)"

definition is_array_typed :: "entries \<Rightarrow> bool" where
  "is_array_typed m =
     (case map_of m ''type'' of
        Some (JString t) \<Rightarrow> t = ''array''
      | Some (JArray ts) \<Rightarrow> list_ex (\<lambda>t. as_str t = Some ''array'') ts
      | _ \<Rightarrow> False)"

definition branch_names_a_type :: "json \<Rightarrow> bool" where
  "branch_names_a_type branch =
     (case branch of
        JObject m \<Rightarrow>
          has_key ''type'' m \<or> has_key ''$ref'' m
          \<or> list_ex (\<lambda>k. has_key k m) [''anyOf'', ''oneOf'', ''allOf'']
      | JBool b \<Rightarrow> True
      | _ \<Rightarrow> False)"

text \<open>What \<open>check_map\<close> asks of one object, its values apart.\<close>

definition object_supports_strict :: "entries \<Rightarrow> bool" where
  "object_supports_strict m =
     (let typed = is_object_typed m;
          has_properties = (case get_object ''properties'' m of Some ps \<Rightarrow> ps \<noteq> [] | None \<Rightarrow> False)
      in \<not> (typed \<and> \<not> has_properties)
         \<and> \<not> (typed \<and> map_of m ''additionalProperties'' = Some (JBool True))
         \<and> \<not> (typed \<and> get_object ''additionalProperties'' m \<noteq> None)
         \<and> (case get_object ''properties'' m of
              Some ps \<Rightarrow> list_all (\<lambda>(n, p). declares_a_type p) ps | None \<Rightarrow> True)
         \<and> list_all (\<lambda>c. case get_array c m of
              Some bs \<Rightarrow> list_all branch_names_a_type bs | None \<Rightarrow> True) [''anyOf'', ''oneOf'', ''allOf'']
         \<and> \<not> (is_array_typed m
              \<and> \<not> (case map_of m ''items'' of Some i \<Rightarrow> declares_a_type i | None \<Rightarrow> False))
         \<and> \<not> has_key ''$ref'' m
         \<and> (case get_object ''properties'' m of
              Some ps \<Rightarrow> list_all (\<lambda>(n, p). schema_has_type_info p) ps | None \<Rightarrow> True))"

fun schema_supports_strict :: "json \<Rightarrow> bool" where
  "schema_supports_strict (JObject m) =
     (object_supports_strict m \<and> list_all (\<lambda>(k, v). schema_supports_strict v) m)"
| "schema_supports_strict (JArray xs) = list_all schema_supports_strict xs"
| "schema_supports_strict _ = True"

section \<open>Closing a schema\<close>

definition schema_contains_null_type :: "json \<Rightarrow> bool" where
  "schema_contains_null_type schema =
     (case as_object schema of
        Some m \<Rightarrow> map_of m ''type'' = Some (JString ''null'')
      | None \<Rightarrow> False)"

definition null_schema :: json where
  "null_schema = JObject [(''type'', JString ''null'')]"

definition make_schema_nullable :: "json \<Rightarrow> json" where
  "make_schema_nullable schema =
     (let wrapped = JObject [(''anyOf'', JArray [schema, null_schema])]
      in case schema of
           JObject m \<Rightarrow>
             (case map_of m ''type'' of
                Some (JString t) \<Rightarrow>
                  JObject (if t = ''null'' then m
                           else put ''type'' (JArray [JString t, JString ''null'']) m)
              | Some (JArray ts) \<Rightarrow>
                  JObject (put ''type''
                    (JArray (if list_ex (\<lambda>v. as_str v = Some ''null'') ts then ts else ts @ [JString ''null''])) m)
              | _ \<Rightarrow>
                  (case get_array ''anyOf'' m of
                     Some bs \<Rightarrow>
                       JObject (put ''anyOf''
                         (JArray (if list_ex schema_contains_null_type bs then bs else bs @ [null_schema])) m)
                   | None \<Rightarrow> wrapped))
         | _ \<Rightarrow> wrapped)"

definition OPENAI_SUPPORTED_STRING_FORMATS :: "rstr list" where
  "OPENAI_SUPPORTED_STRING_FORMATS =
     [''date-time'', ''time'', ''date'', ''duration'', ''email'', ''hostname'', ''ipv4'', ''ipv6'', ''uuid'']"

definition is_supported_string_format :: "json \<Rightarrow> bool" where
  "is_supported_string_format v =
     (case as_str v of Some f \<Rightarrow> f \<in> set OPENAI_SUPPORTED_STRING_FORMATS | None \<Rightarrow> False)"

definition existing_required_keys :: "entries \<Rightarrow> rstr list" where
  "existing_required_keys m =
     (case get_array ''required'' m of Some xs \<Rightarrow> strings_of xs | None \<Rightarrow> [])"

definition normalize_required_properties :: "entries \<Rightarrow> entries" where
  "normalize_required_properties m =
     (case get_object ''properties'' m of
        None \<Rightarrow> m
      | Some ps \<Rightarrow>
          (let existing = existing_required_keys m;
               ps' = map (\<lambda>(n, p). (n, if n \<in> set existing then p else make_schema_nullable p)) ps
           in put ''required'' (JArray (map JString (sort (map fst ps)))) (put ''properties'' (JObject ps') m)))"

definition close_object :: "entries \<Rightarrow> entries" where
  "close_object out =
     (let out' = normalize_required_properties out
      in if is_object_typed out \<or> has_key ''properties'' out'
         then put ''additionalProperties'' (JBool False) out' else out')"

definition STRICT_MAPS :: "rstr list" where
  "STRICT_MAPS = [''properties'', ''$defs'', ''definitions'', ''patternProperties'']"

definition STRICT_ARRAYS :: "rstr list" where
  "STRICT_ARRAYS = [''allOf'', ''anyOf'', ''oneOf'', ''prefixItems'']"

definition keeps_format :: "rstr \<times> json \<Rightarrow> bool" where
  "keeps_format e = (fst e = ''format'' \<longrightarrow> is_supported_string_format (snd e))"

text \<open>An object collected entry by entry.\<close>

definition collect_entries :: "entries \<Rightarrow> entries" where
  "collect_entries es = fold (\<lambda>(k, v). put k v) es []"

fun strict_normalize_schema :: "json \<Rightarrow> json" where
  "strict_normalize_schema (JObject m) =
     JObject (close_object (collect_entries (map (\<lambda>(key, value).
       (key,
        if key \<in> set STRICT_MAPS
        then (case value of
                JObject children \<Rightarrow> JObject (map (\<lambda>(n, c). (n, strict_normalize_schema c)) children)
              | _ \<Rightarrow> strict_normalize_schema value)
        else if key \<in> set STRICT_ARRAYS
        then (case value of
                JArray xs \<Rightarrow> JArray (map strict_normalize_schema xs)
              | _ \<Rightarrow> strict_normalize_schema value)
        else strict_normalize_schema value))
       (filter keeps_format m))))"
| "strict_normalize_schema (JArray xs) = JArray (map strict_normalize_schema xs)"
| "strict_normalize_schema j = j"

section \<open>The tools of a request\<close>

definition openai_compatible_schema :: "json \<Rightarrow> quirk_store \<Rightarrow> json \<times> quirk_store" where
  "openai_compatible_schema schema s = normalize_schema schema OPENAI s"

record tool_definition =
  tool_name :: rstr
  tool_description :: rstr
  input_schema :: json

definition api_tool :: "tool_definition \<Rightarrow> bool \<Rightarrow> json \<Rightarrow> json" where
  "api_tool t strict parameters =
     JObject [(''description'', JString (tool_description t)), (''name'', JString (tool_name t)),
              (''parameters'', parameters), (''strict'', JBool strict), (''type'', JString ''function'')]"

fun build_tools :: "tool_definition list \<Rightarrow> quirk_store \<Rightarrow> json list \<times> quirk_store" where
  "build_tools [] s = ([], s)"
| "build_tools (t # ts) s =
     (let (compatible, s') = openai_compatible_schema (input_schema t) s;
          supports = schema_supports_strict compatible;
          parameters = (if supports then strict_normalize_schema compatible else compatible);
          (rest, s'') = build_tools ts s'
      in (api_tool t supports parameters # rest, s''))"

end
