(* ===== verification/Strict_Properties.thy ===== *)
theory Strict_Properties
  imports Strict_Schema
begin

text \<open>
  What a request to OpenAI carries: every tool's schema keeps to the dialect, and one that
  claims strict mode is closed at every depth; closing twice changes nothing.
\<close>

section \<open>One object\<close>

definition strict_child :: "rstr \<Rightarrow> json \<Rightarrow> json" where
  "strict_child key value =
     (if key \<in> set STRICT_MAPS
      then (case value of
              JObject children \<Rightarrow> JObject (map (\<lambda>(n, c). (n, strict_normalize_schema c)) children)
            | _ \<Rightarrow> strict_normalize_schema value)
      else if key \<in> set STRICT_ARRAYS
      then (case value of
              JArray xs \<Rightarrow> JArray (map strict_normalize_schema xs)
            | _ \<Rightarrow> strict_normalize_schema value)
      else strict_normalize_schema value)"

lemma strict_object:
  "strict_normalize_schema (JObject m) =
     JObject (close_object (collect_entries (map (\<lambda>(k, v). (k, strict_child k v)) (filter keeps_format m))))"
  by (simp add: strict_child_def cong: map_cong)

declare strict_normalize_schema.simps(1) [simp del]

lemma collect_from: "ordered es0 \<Longrightarrow> ordered (fold (\<lambda>(k, v). put k v) es es0)
    \<and> set (fold (\<lambda>(k, v). put k v) es es0) \<subseteq> set es0 \<union> set es"
proof (induction es arbitrary: es0)
  case (Cons e es)
  obtain k v where e: "e = (k, v)" by force
  show ?case
    using Cons.IH [of "put k v es0"] Cons.prems by (auto simp: e dest: set_put)
qed simp

lemma collect_ordered [simp]: "ordered (collect_entries es)"
  using collect_from [of "[]" es] by (simp add: collect_entries_def)

lemma collect_set: "set (collect_entries es) \<subseteq> set es"
  using collect_from [of "[]" es] by (simp add: collect_entries_def)

section \<open>Closed schemas\<close>

definition typed_properties :: "entries \<Rightarrow> bool" where
  "typed_properties m =
     (case get_object ''properties'' m of Some ps \<Rightarrow> list_all (\<lambda>(n, p). declares_a_type p) ps | None \<Rightarrow> True)"

definition closed_object :: "entries \<Rightarrow> bool" where
  "closed_object m =
     (ordered m \<and> typed_properties m
      \<and> (is_object_typed m \<or> has_key ''properties'' m \<longrightarrow> map_of m ''additionalProperties'' = Some (JBool False))
      \<and> (\<forall>ps. get_object ''properties'' m = Some ps \<longrightarrow>
           map_of m ''required'' = Some (JArray (map JString (sort (map fst ps))))))"

abbreviation closed :: "json \<Rightarrow> bool" where
  "closed \<equiv> everywhere (entry_ok OPENAI no_quirks) closed_object"

definition tidy :: "entries \<Rightarrow> bool" where
  "tidy m = (ordered m \<and> (\<forall>(k, v) \<in> set m. entry_ok OPENAI no_quirks k v \<and> list_all closed (subschemas k v)))"

lemma closed_tidy: "closed (JObject m) \<longleftrightarrow> tidy m \<and> closed_object m"
  by (auto simp: tidy_def closed_object_def list_all_iff)

lemma tidy_put:
  "tidy m \<Longrightarrow> entry_ok OPENAI no_quirks k v \<Longrightarrow> list_all closed (subschemas k v) \<Longrightarrow> tidy (put k v m)"
  by (auto simp: tidy_def dest!: set_put)

lemma openai_entry:
  "entry_ok OPENAI no_quirks k v \<longleftrightarrow>
     supports OPENAI k \<and> (k = ''format'' \<longrightarrow> is_supported_string_format v)"
  by (cases v) (auto simp: entry_ok_def no_quirks_def is_supported_string_format_def supports_format_def OPENAI_def
      OPENAI_SUPPORTED_STRING_FORMATS_def)

lemma openai_keys:
  "supports OPENAI ''anyOf''" "supports OPENAI ''type''" "supports OPENAI ''additionalProperties''"
  "supports OPENAI ''required''" "supports OPENAI ''properties''" "\<not> supports OPENAI ''dependentSchemas''"
  "keyword_role ''additionalProperties'' = Subschema"
  by code_simp+

lemma closed_null: "closed null_schema"
  by (simp add: null_schema_def openai_entry openai_keys closed_object_def is_object_typed_def has_key_def
      get_object_def ordered_def typed_properties_def)

lemma closed_any_of: "list_all closed bs \<Longrightarrow> list_all closed (subschemas ''anyOf'' (JArray bs))"
  by (simp add: list_all_iff array_subschemas)

lemma closed_wrapped: "closed j \<Longrightarrow> closed (JObject [(''anyOf'', JArray [j, null_schema])])"
proof -
  assume "closed j"
  then have "tidy (put ''anyOf'' (JArray [j, null_schema]) [])"
    using closed_null by (intro tidy_put closed_any_of) (simp_all add: tidy_def openai_entry openai_keys)
  then show ?thesis
    by (simp add: closed_tidy closed_object_def is_object_typed_def has_key_def get_object_def ordered_def
        typed_properties_def del: everywhere.simps)
qed

lemma closed_put:
  assumes "closed (JObject m)" and "k \<in> {''type'', ''anyOf''}" and "list_all closed (subschemas k v)"
    and "is_object_typed (put k v m) \<Longrightarrow> is_object_typed m"
  shows "closed (JObject (put k v m))"
proof -
  have "entry_ok OPENAI no_quirks k v" using assms(2) by (auto simp: openai_entry openai_keys)
  then have "tidy (put k v m)" using assms(1,3) tidy_put closed_tidy by blast
  moreover have "closed_object (put k v m)"
    using assms(1,2,4) by (auto simp: closed_tidy closed_object_def typed_properties_def simp del: everywhere.simps)
  ultimately show ?thesis using closed_tidy by blast
qed

lemma closed_nullable: "closed j \<Longrightarrow> closed (make_schema_nullable j)"
proof (cases j)
  case (JObject m)
  assume j: "closed j"
  have bs: "list_all closed bs" if "get_array ''anyOf'' m = Some bs" for bs
  proof -
    have "(''anyOf'', JArray bs) \<in> set m" using that by (auto simp: get_array_Some dest: map_of_SomeD)
    then have "list_all closed (subschemas ''anyOf'' (JArray bs))" using j JObject by (auto simp: list_all_iff)
    then show ?thesis by (simp add: list_all_iff array_subschemas)
  qed
  have typed: "is_object_typed (put ''anyOf'' v m) = is_object_typed m" for v
    by (simp add: is_object_typed_def)
  show ?thesis
    using j bs closed_wrapped [OF j] closed_null unfolding JObject
    by (auto simp: make_schema_nullable_def Let_def typed simp del: everywhere.simps
        split: option.splits json.splits intro!: closed_put closed_any_of)
      (auto simp: is_object_typed_def)
qed (use closed_wrapped in \<open>auto simp: make_schema_nullable_def simp del: everywhere.simps(1)\<close>)

lemma strict_child_format:
  "is_supported_string_format v \<Longrightarrow> is_supported_string_format (strict_child ''format'' v)"
proof -
  have "''format'' \<notin> set STRICT_MAPS" "''format'' \<notin> set STRICT_ARRAYS" by code_simp+
  then show "is_supported_string_format v \<Longrightarrow> ?thesis"
    by (cases v) (simp_all add: strict_child_def is_supported_string_format_def)
qed

lemma strict_child_subschemas:
  assumes "k \<noteq> ''dependentSchemas''"
  shows "set (subschemas k (strict_child k v)) \<subseteq> strict_normalize_schema ` set (subschemas k v)"
proof (cases "keyword_role k")
  case Subschema_Map
  then have "k \<in> set STRICT_MAPS"
    using assms by (auto simp: keyword_lists STRICT_MAPS_def split: if_splits)
  then show ?thesis
    using Subschema_Map by (cases v) (force simp: set_subschemas strict_child_def strict_object)+
next
  case Subschema_Array
  then have "k \<notin> set STRICT_MAPS" "k \<in> set STRICT_ARRAYS"
    by (auto simp: keyword_lists STRICT_MAPS_def STRICT_ARRAYS_def split: if_splits)
  then show ?thesis
    using Subschema_Array by (cases v) (auto simp: set_subschemas strict_child_def strict_object)
next
  case Subschema
  then have "k \<notin> set STRICT_MAPS" "k \<notin> set STRICT_ARRAYS"
    by (auto simp: keyword_lists STRICT_MAPS_def STRICT_ARRAYS_def split: if_splits)
  then show ?thesis using Subschema by (simp add: set_subschemas strict_child_def)
qed (simp add: set_subschemas)

lemma map_fst_relabelled [simp]: "map (fst \<circ> (\<lambda>(n, p). (n, g n p))) ps = map fst ps"
  by (induction ps) auto

lemma nullable_typed: "declares_a_type (make_schema_nullable j)"
proof -
  have "declares_a_type (JObject (put k v m))" if "k \<in> {''type'', ''anyOf''}" for k v m
    using that by (auto simp: declares_a_type_def TYPE_BEARING_KEYWORDS_def)
  moreover have "declares_a_type (JObject m)" if "map_of m ''type'' = Some v" for m v
    using that by (simp add: declares_a_type_def TYPE_BEARING_KEYWORDS_def has_key_def)
  moreover have "declares_a_type (JObject [(''anyOf'', v)])" for v
    by (simp add: declares_a_type_def TYPE_BEARING_KEYWORDS_def has_key_def)
  ultimately show ?thesis
    by (auto simp: make_schema_nullable_def Let_def split: json.split option.split)
qed

lemma closed_close_object:
  assumes "tidy out" and "typed_properties out"
  shows "closed (JObject (close_object out))"
proof -
  let ?out' = "normalize_required_properties out"
  have entries: "tidy ?out' \<and> typed_properties ?out' \<and> (\<forall>ps. get_object ''properties'' ?out' = Some ps \<longrightarrow>
        map_of ?out' ''required'' = Some (JArray (map JString (sort (map fst ps)))))
      \<and> is_object_typed ?out' = is_object_typed out"
  proof (cases "get_object ''properties'' out")
    case None
    then show ?thesis using assms by (simp add: normalize_required_properties_def typed_properties_def)
  next
    case (Some ps)
    let ?f = "\<lambda>(n, p). (n, if n \<in> set (existing_required_keys out) then p else make_schema_nullable p)"
    have "(''properties'', JObject ps) \<in> set out" using Some by (auto simp: get_object_Some dest: map_of_SomeD)
    then have "list_all closed (subschemas ''properties'' (JObject ps))" using assms(1) by (auto simp: tidy_def)
    then have "list_all closed (subschemas ''properties'' (JObject (map ?f ps)))"
      using closed_nullable by (fastforce simp: list_all_iff set_subschemas)
    then have "tidy (put ''required'' (JArray (map JString (sort (map fst ps)))) (put ''properties'' (JObject (map ?f ps)) out))"
      using assms(1) by (intro tidy_put) (simp_all add: openai_entry openai_keys)
    moreover have "list_all (\<lambda>(n, p). declares_a_type p) (map ?f ps)"
      using assms(2) Some nullable_typed by (auto simp: typed_properties_def list_all_iff)
    ultimately show ?thesis
      using Some by (simp add: normalize_required_properties_def Let_def is_object_typed_def typed_properties_def)
  qed
  show ?thesis
  proof (cases "is_object_typed out \<or> has_key ''properties'' ?out'")
    case True
    have "tidy (put ''additionalProperties'' (JBool False) ?out')"
      using entries by (intro tidy_put) (simp_all add: openai_entry openai_keys list_all_iff set_subschemas)
    then show ?thesis
      using True entries
      by (simp add: close_object_def Let_def closed_tidy closed_object_def tidy_def typed_properties_def del: everywhere.simps)
  next
    case False
    then show ?thesis
      using entries by (simp add: close_object_def Let_def closed_tidy closed_object_def tidy_def typed_properties_def del: everywhere.simps)
  qed
qed

lemma tidy_collected:
  assumes "sound OPENAI q m"
    and "\<And>k v c. (k, v) \<in> set m \<Longrightarrow> c \<in> set (subschemas k v) \<Longrightarrow> closed (strict_normalize_schema c)"
  shows "tidy (collect_entries (map (\<lambda>(k, v). (k, strict_child k v)) (filter keeps_format m)))"
    (is "tidy ?out")
proof -
  have "entry_ok OPENAI no_quirks k w \<and> list_all closed (subschemas k w)" if "(k, w) \<in> set ?out" for k w
  proof -
    have "(k, w) \<in> set (map (\<lambda>(k, v). (k, strict_child k v)) (filter keeps_format m))"
      using that collect_set by blast
    then obtain v where v: "w = strict_child k v" "(k, v) \<in> set m" "keeps_format (k, v)" by auto
    have "entry_ok OPENAI q k v" using assms(1) v(2) by (auto simp: sound_def)
    then have supported: "supports OPENAI k" by (simp add: entry_ok_def)
    then have "k \<noteq> ''dependentSchemas''" using openai_keys by metis
    then have "set (subschemas k w) \<subseteq> strict_normalize_schema ` set (subschemas k v)"
      using strict_child_subschemas v(1) by simp
    then have "list_all closed (subschemas k w)" using assms(2) [OF v(2)] by (auto simp: list_all_iff)
    moreover have "k = ''format'' \<longrightarrow> is_supported_string_format w"
      using v(1,3) strict_child_format by (auto simp: keeps_format_def)
    ultimately show ?thesis using supported openai_entry by simp
  qed
  then show ?thesis unfolding tidy_def by (simp add: case_prod_beta Ball_def)
qed

lemma collected_keys: "fst ` set (collect_entries es) = fst ` set es"
proof -
  have "fst ` set (fold (\<lambda>(k, v). put k v) es es0) = fst ` set es0 \<union> fst ` set es" for es0
    by (induction es arbitrary: es0) (simp_all add: fst_put case_prod_beta insert_commute)
  from this [of "[]"] show ?thesis by (simp add: collect_entries_def)
qed

lemma has_key_iff: "has_key k m \<longleftrightarrow> k \<in> fst ` set m"
  by (force simp: has_key_def dom_map_of_conv_image_fst [symmetric] dom_def)

lemma has_key_close: "has_key k m \<Longrightarrow> has_key k (close_object m)"
  by (simp add: close_object_def normalize_required_properties_def Let_def split: option.split)

lemma strict_typed:
  assumes "declares_a_type j"
  shows "declares_a_type (strict_normalize_schema j)"
proof (cases j)
  case (JObject m)
  then obtain k where k: "k \<in> set TYPE_BEARING_KEYWORDS" "has_key k m"
    using assms by (auto simp: declares_a_type_def list_ex_iff)
  have "k \<noteq> ''format''" using k(1) by (auto simp: TYPE_BEARING_KEYWORDS_def)
  then have "k \<in> fst ` set (map (\<lambda>(k, v). (k, strict_child k v)) (filter keeps_format m))"
    using k(2) by (force simp: has_key_iff keeps_format_def)
  then have "has_key k (collect_entries (map (\<lambda>(k, v). (k, strict_child k v)) (filter keeps_format m)))"
    by (simp add: has_key_iff collected_keys)
  then show ?thesis
    using k(1) has_key_close unfolding JObject strict_object declares_a_type_def by (auto simp: list_ex_iff)
qed (use assms in \<open>simp_all add: declares_a_type_def\<close>)

lemma collected_typed:
  assumes "ordered m" and "typed_properties m"
  shows "typed_properties (collect_entries (map (\<lambda>(k, v). (k, strict_child k v)) (filter keeps_format m)))"
    (is "typed_properties ?out")
proof -
  have "declares_a_type p" if "get_object ''properties'' ?out = Some ps" "(n, p) \<in> set ps" for ps n p
  proof -
    have "(''properties'', JObject ps) \<in> set (map (\<lambda>(k, v). (k, strict_child k v)) (filter keeps_format m))"
      using subsetD [OF collect_set map_of_SomeD] that(1) by (simp only: get_object_Some)
    then obtain v where v: "(''properties'', v) \<in> set m" "strict_child ''properties'' v = JObject ps" by auto
    have "''properties'' \<in> set STRICT_MAPS" by code_simp
    then obtain ps0 where ps0: "v = JObject ps0" "ps = map (\<lambda>(n, c). (n, strict_normalize_schema c)) ps0"
      using v(2) by (cases v) (auto simp: strict_child_def)
    have "get_object ''properties'' m = Some ps0"
      using ordered_entry [OF assms(1) v(1)] ps0(1) by (simp add: get_object_Some)
    then show ?thesis
      using assms(2) that(2) strict_typed by (auto simp: ps0(2) typed_properties_def list_all_iff)
  qed
  then show ?thesis by (auto simp: typed_properties_def list_all_iff split: option.split)
qed

lemma supports_sub: "schema_supports_strict v \<Longrightarrow> c \<in> set (subschemas k v) \<Longrightarrow> schema_supports_strict c"
  by (auto simp: set_subschemas list_all_iff split: keyword_role.splits json.splits)

lemma supports_typed: "object_supports_strict m \<Longrightarrow> typed_properties m"
  by (simp add: object_supports_strict_def typed_properties_def Let_def)

lemma strict_closed:
  "conforming OPENAI q j \<Longrightarrow> schema_supports_strict j \<Longrightarrow> closed (strict_normalize_schema j)"
proof (induction j rule: measure_induct_rule [of size])
  case (less j)
  show ?case
  proof (cases j)
    case (JObject m)
    have ok: "sound OPENAI q m" using less.prems(1) JObject conforming_object by metis
    have strict: "typed_properties m" "\<And>k v. (k, v) \<in> set m \<Longrightarrow> schema_supports_strict v"
      using less.prems(2) JObject supports_typed by (auto simp: list_all_iff)
    have "closed (strict_normalize_schema c)" if "(k, v) \<in> set m" "c \<in> set (subschemas k v)" for k v c
    proof (rule less.IH)
      show "size c < size j" using size_entry [OF that(1)] size_sub [OF that(2)] JObject by simp
      have "list_all (conforming OPENAI q) (subschemas k v)" using ok that(1) unfolding sound_def by blast
      then show "conforming OPENAI q c" using that(2) unfolding list_all_iff by blast
      show "schema_supports_strict c" using strict(2) [OF that(1)] that(2) supports_sub by blast
    qed
    moreover have "ordered m" using ok unfolding sound_def by blast
    ultimately show ?thesis
      using closed_close_object [OF tidy_collected [OF ok] collected_typed] strict(1)
      by (simp only: JObject strict_object)
  next
    case (JArray xs)
    then show ?thesis using less size_item by (auto simp: list_all_iff simp del: json.size)
  qed simp_all
qed

section \<open>The tools of a request\<close>

text \<open>
  C17: A request to OpenAI carries, for each tool and in order, a schema that holds nothing the
  dialect rejects. One that claims strict mode was found to qualify for it, and is closed at
  every depth: every object with properties forbids others, requires all of them in sorted
  order, and every property of it says what type it has. The others are sent as the dialect has
  them.
\<close>

theorem request_tools_spec:
  "list_all2 (\<lambda>t out. \<exists>q params.
       out = api_tool t (schema_supports_strict (apply_with_quirks (input_schema t) OPENAI q)) params
       \<and> must_not_contain_unsupported params OPENAI = []
       \<and> (if schema_supports_strict (apply_with_quirks (input_schema t) OPENAI q)
           then closed params else params = apply_with_quirks (input_schema t) OPENAI q))
     tools (fst (build_tools tools s))"
proof (induction tools arbitrary: s)
  case (Cons t ts)
  obtain compat s1 where compat: "openai_compatible_schema (input_schema t) s = (compat, s1)" by force
  obtain rest s2 where rest: "build_tools ts s1 = (rest, s2)" by force
  obtain q where q: "compat = apply_with_quirks (input_schema t) OPENAI q"
    using normalize_applies [of "input_schema t" OPENAI s] compat by (auto simp: openai_compatible_schema_def)
  have openai: "coherent OPENAI" "\<not> flatten_all (transforms OPENAI)" "\<not> prune_dangling (transforms OPENAI)"
    "\<not> require_properties (transforms OPENAI)"
    by code_simp+
  have conf: "conforming OPENAI q compat" unfolding q by (rule apply_conforming [OF openai(1)])
  have checked: "must_not_contain_unsupported j OPENAI = []" if "conforming OPENAI q' j" for q' j
    using conforming_checked [OF openai(2) that] by (simp add: must_not_contain_unsupported_def)
  have closed_conforming: "conforming OPENAI no_quirks j" if "closed j" for j
    by (rule everywhere_mono [OF that]) (simp_all add: closed_object_def object_ok_def openai)
  define params where
    "params = (if schema_supports_strict compat then strict_normalize_schema compat else compat)"
  have "must_not_contain_unsupported params OPENAI = []"
    using strict_closed [OF conf] closed_conforming checked conf by (auto simp: params_def)
  moreover have "if schema_supports_strict compat then closed params else params = compat"
    using strict_closed [OF conf] by (simp add: params_def)
  ultimately have "\<exists>q params'. api_tool t (schema_supports_strict compat) params
        = api_tool t (schema_supports_strict (apply_with_quirks (input_schema t) OPENAI q)) params'
      \<and> must_not_contain_unsupported params' OPENAI = []
      \<and> (if schema_supports_strict (apply_with_quirks (input_schema t) OPENAI q)
         then closed params' else params' = apply_with_quirks (input_schema t) OPENAI q)"
    unfolding q by (intro exI [of _ q] exI [of _ params] conjI refl)
  moreover have "fst (build_tools (t # ts) s) = api_tool t (schema_supports_strict compat) params # rest"
    by (simp add: compat rest Let_def params_def del: strict_normalize_schema.simps schema_supports_strict.simps)
  ultimately show ?case
    using Cons.IH [of s1] by (simp only: rest fst_conv list_all2_Cons)
qed simp

definition sample_tools :: "tool_definition list" where
  "sample_tools =
     [\<lparr>tool_name = ''read'', tool_description = ''Read a file'',
       input_schema = JObject
         [(''properties'', JObject [(''limit'', JObject [(''type'', JString ''integer'')]),
                                 (''path'', JObject [(''type'', JString ''string'')])]),
          (''required'', JArray [JString ''path'']), (''type'', JString ''object'')]\<rparr>]"

lemma sample_tools_strict:
  "fst (build_tools sample_tools empty_store) =
     [api_tool (hd sample_tools) True (JObject
       [(''additionalProperties'', JBool False),
        (''properties'', JObject [(''limit'', JObject [(''type'', JArray [JString ''integer'', JString ''null''])]),
                               (''path'', JObject [(''type'', JString ''string'')])]),
        (''required'', JArray [JString ''limit'', JString ''path'']), (''type'', JString ''object'')])]"
  by code_simp

text \<open>
  A schema that qualifies for strict mode leaves nothing untyped: the crate's audit of
  untyped properties reports none in it.
\<close>

theorem strict_tools_are_typed:
  assumes "schema_supports_strict schema"
  shows "untyped_properties schema = []"
proof -
  have "untyped_walk path schema = []" for path
    using assms
  proof (induction schema arbitrary: path rule: measure_induct_rule [of size])
    case (less j)
    show ?case
    proof (cases j)
      case (JObject m)
      have entries: "untyped_walk p v = []" if "(k, v) \<in> set m" for k v p
        using less.IH [of v p] less.prems size_entry [OF that] that by (auto simp: JObject list_all_iff)
      have properties: "declares_a_type c \<and> untyped_walk p c = []"
        if "get_object ''properties'' m = Some ps" "(n, c) \<in> set ps" for ps n c p
      proof
        have "schema_supports_strict (JObject ps)"
          using less.prems map_of_SomeD [of m "''properties''" "JObject ps"] that(1)
          by (fastforce simp: JObject list_all_iff get_object_Some)
        then show "untyped_walk p c = []"
          using less.IH [of c p] size_property [OF that(2) that(1) [symmetric]] that(2)
          by (auto simp: JObject list_all_iff)
        have "typed_properties m" using less.prems supports_typed by (simp add: JObject)
        then show "declares_a_type c" using that by (auto simp: typed_properties_def list_all_iff)
      qed
      show ?thesis
        by (cases "get_object ''properties'' m") (auto simp: JObject entries dest: properties)
    next
      case (JArray xs)
      then show ?thesis
        using less size_item [OF nth_mem] by (auto simp: in_set_enumerate_eq list_all_iff simp del: json.size)
    qed simp_all
  qed
  then show ?thesis by (simp add: untyped_properties_def)
qed

section \<open>Where strict mode goes too far\<close>

text \<open>
  An optional property given by an enumeration alone qualifies for strict mode, and closing the
  schema then makes it a branch without a type, which the same check refuses.
\<close>

lemma closing_disqualifies:
  "schema_supports_strict
     (JObject [(''properties'', JObject [(''mode'', JObject [(''enum'', JArray [JString ''fast''])])]),
               (''type'', JString ''object'')])
   \<and> \<not> schema_supports_strict (strict_normalize_schema
     (JObject [(''properties'', JObject [(''mode'', JObject [(''enum'', JArray [JString ''fast''])])]),
               (''type'', JString ''object'')]))"
  by code_simp

text \<open>
  An optional property with a type and an enumeration is required and said to be nullable, while
  its values still exclude null: it can no longer be left out.
\<close>

lemma enumeration_excludes_null:
  "make_schema_nullable (JObject [(''enum'', JArray [JString ''fast'']), (''type'', JString ''string'')])
   = JObject [(''enum'', JArray [JString ''fast'']), (''type'', JArray [JString ''string'', JString ''null''])]"
  by (simp add: make_schema_nullable_def)

text \<open>Data is closed like a schema: an example loses its \<open>format\<close>.\<close>

lemma data_is_normalized:
  "strict_normalize_schema (JObject [(''default'', JObject [(''format'', JString ''uri'')])])
   = JObject [(''default'', JObject [])]"
  by code_simp

theorem strict_tools_are_typed_witness:
  "untyped_properties (JObject [(''properties'', JObject [(''a'', JObject [(''type'', JString ''string'')])]),
                                (''type'', JString ''object'')]) = []"
  by (rule strict_tools_are_typed) code_simp

end
