(* ===== verification/Transcript.thy ===== *)
theory Transcript
  imports Compaction_Manager
begin

text \<open>
  What the builders of provider requests share. They turn the conversation of
  \<open>crates/kcode-message-types/src/lib.rs\<close> into the messages of a provider's protocol, and every
  protocol wants each tool call answered: the ids, the texts, what a conversation calls and
  answers, and the shape of a transcript whose calls are answered at once.
\<close>

section \<open>Ids and texts\<close>

definition is_id_char :: "char \<Rightarrow> bool" where
  "is_id_char c =
     (is_ascii_digit c \<or> 65 \<le> byte c \<and> byte c \<le> 90 \<or> 97 \<le> byte c \<and> byte c \<le> 122
      \<or> c = CHR ''_'' \<or> c = CHR ''-'')"

text \<open>One character each, so the continuation bytes of a character go.\<close>

definition sanitize_tool_id :: "rstr \<Rightarrow> rstr" where
  "sanitize_tool_id i =
     (let sanitized = map (\<lambda>c. if is_id_char c then c else CHR ''_'') (filter (\<lambda>c. \<not> is_continuation c) i)
      in if i = [] \<or> sanitized = [] then ''unknown'' else sanitized)"

definition TOOL_OUTPUT_MISSING_TEXT :: rstr where
  "TOOL_OUTPUT_MISSING_TEXT = ''Tool output missing (session interrupted before tool execution completed)''"

definition missing_output :: rstr where
  "missing_output = ''[Error] '' @ TOOL_OUTPUT_MISSING_TEXT"

definition shown_output :: "rstr \<Rightarrow> bool option \<Rightarrow> rstr" where
  "shown_output c is_error = (if is_error = Some True then ''[Error] '' @ c else c)"

definition call_arguments :: "(json \<Rightarrow> rstr) \<Rightarrow> json \<Rightarrow> rstr" where
  "call_arguments show_json input = (case input of JObject m \<Rightarrow> show_json input | _ \<Rightarrow> ''{}'')"

text \<open>The text of an output no call asked for; an empty one is not worth a message.\<close>

definition recovered_output :: "rstr \<Rightarrow> rstr \<Rightarrow> rstr option" where
  "recovered_output call_id out =
     (let t = trim out
      in if t = [] \<or> t = missing_output then None
         else Some (''[Recovered orphaned tool output: '' @ call_id @ '']'' @ [CHR 0x0A] @ t))"

section \<open>Calls and results of a conversation\<close>

fun block_call :: "content_block \<Rightarrow> rstr option" where
  "block_call (ToolUse i n inp s) = Some i"
| "block_call b = None"

fun block_result :: "content_block \<Rightarrow> (rstr \<times> rstr) option" where
  "block_result (ToolResult i c e) = Some (i, shown_output c e)"
| "block_result b = None"

definition message_calls :: "message \<Rightarrow> rstr list" where
  "message_calls m = (case role_of m of Assistant \<Rightarrow> List.map_filter block_call (content_of m) | User \<Rightarrow> [])"

definition message_results :: "message \<Rightarrow> (rstr \<times> rstr) list" where
  "message_results m = (case role_of m of User \<Rightarrow> List.map_filter block_result (content_of m) | Assistant \<Rightarrow> [])"

definition conversation_calls :: "message list \<Rightarrow> rstr list" where
  "conversation_calls ms = concat (map message_calls ms)"

definition conversation_results :: "message list \<Rightarrow> (rstr \<times> rstr) list" where
  "conversation_results ms = concat (map message_results ms)"

text \<open>The table of the last user message that answers an id, and what it is asked.\<close>

definition tool_result_last_pos :: "message list \<Rightarrow> rstr \<Rightarrow> nat option" where
  "tool_result_last_pos ms =
     fold (\<lambda>(idx, m) pos. fold (\<lambda>(i, out) pos. pos(i \<mapsto> idx)) (message_results m) pos)
       (enumerate 0 ms) Map.empty"

definition has_future_output :: "message list \<Rightarrow> nat \<Rightarrow> rstr \<Rightarrow> bool" where
  "has_future_output ms idx i =
     (case tool_result_last_pos ms i of Some pos \<Rightarrow> idx < pos | None \<Rightarrow> False)"

lemma results_pos:
  "fold (\<lambda>(i, out) pos. pos(i \<mapsto> idx)) rs pos i = (if i \<in> fst ` set rs then Some idx else pos i)"
  by (induction rs arbitrary: pos) auto

text \<open>The last message of a list, counted from \<open>n\<close>, that answers an id.\<close>

fun last_answer :: "nat \<Rightarrow> message list \<Rightarrow> rstr \<Rightarrow> nat option" where
  "last_answer n [] i = None"
| "last_answer n (m # ms) i =
     (case last_answer (Suc n) ms i of
        Some p \<Rightarrow> Some p
      | None \<Rightarrow> if i \<in> fst ` set (message_results m) then Some n else None)"

lemma last_answer_None: "last_answer n ms i = None \<longleftrightarrow> i \<notin> fst ` set (conversation_results ms)"
proof (induction ms arbitrary: n)
  case (Cons m ms)
  then show ?case
    using Cons.IH [of "Suc n"] by (cases "last_answer (Suc n) ms i") (simp_all add: conversation_results_def image_Un)
qed (simp add: conversation_results_def)

lemma last_answer_ge: "last_answer n ms i = Some p \<Longrightarrow> n \<le> p"
  by (induction ms arbitrary: n) (fastforce split: option.splits if_splits)+

lemma last_answer_append:
  "last_answer n (as @ bs) i =
     (case last_answer (n + length as) bs i of Some p \<Rightarrow> Some p | None \<Rightarrow> last_answer n as i)"
  by (induction as arbitrary: n) (auto split: option.split)

lemma last_answer_less: "last_answer n ms i = Some p \<Longrightarrow> p < n + length ms"
  by (induction ms arbitrary: n) (fastforce split: option.splits if_splits)+

lemma positions_from:
  "fold (\<lambda>(idx, m) pos. fold (\<lambda>(i, out) pos. pos(i \<mapsto> idx)) (message_results m) pos) (enumerate n ms) pos i
     = (case last_answer n ms i of Some p \<Rightarrow> Some p | None \<Rightarrow> pos i)"
  by (induction ms arbitrary: n pos) (auto simp: results_pos split: option.split)

text \<open>A result is in the future exactly if a later message carries one.\<close>

lemma future_output_iff:
  "has_future_output (before @ m # after) (length before) i =
     (i \<in> fst ` set (conversation_results after))"
proof -
  have "tool_result_last_pos (before @ m # after) i =
      (case last_answer (Suc (length before)) after i of
         Some p \<Rightarrow> Some p | None \<Rightarrow> last_answer 0 (before @ [m]) i)"
    using last_answer_append [of 0 "before @ [m]" after i]
    by (simp add: tool_result_last_pos_def positions_from split: option.split)
  moreover have "p \<le> length before" if "last_answer 0 (before @ [m]) i = Some p" for p
    using last_answer_less [OF that] by simp
  moreover have "length before < p" if "last_answer (Suc (length before)) after i = Some p" for p
    using last_answer_ge [OF that] by simp
  ultimately show ?thesis
    using last_answer_None [of "Suc (length before)" after i]
    by (auto simp: has_future_output_def leD split: option.splits)
qed

lemma conversation_simps [simp]:
  "conversation_calls [] = []" "conversation_results [] = []"
  "conversation_calls (m # ms) = message_calls m @ conversation_calls ms"
  "conversation_results (m # ms) = message_results m @ conversation_results ms"
  "conversation_calls (as @ bs) = conversation_calls as @ conversation_calls bs"
  "conversation_results (as @ bs) = conversation_results as @ conversation_results bs"
  by (simp_all add: conversation_calls_def conversation_results_def)

section \<open>Calls that are settled\<close>

definition answer_in :: "(rstr \<times> rstr) list \<Rightarrow> rstr \<Rightarrow> rstr" where
  "answer_in results i = (case map_of results i of Some out \<Rightarrow> out | None \<Rightarrow> missing_output)"

lemma answer_there: "distinct (map fst T) \<Longrightarrow> (i, out) \<in> set T \<Longrightarrow> answer_in T i = out"
  by (simp add: answer_in_def)

lemma answer_nowhere: "i \<notin> fst ` set T \<Longrightarrow> answer_in T i = missing_output"
  unfolding answer_in_def map_of_eq_None_iff [symmetric] by simp

text \<open>
  After the calls \<open>C\<close> and the results \<open>R\<close> of a conversation whose results are \<open>T\<close>: the calls
  whose result has come, or never comes.
\<close>

definition settled :: "(rstr \<times> rstr) list \<Rightarrow> rstr list \<Rightarrow> (rstr \<times> rstr) list \<Rightarrow> rstr set" where
  "settled T C R = {i \<in> set C. i \<in> fst ` set R \<or> i \<notin> fst ` set T}"

lemma settled_Nil [simp]: "settled T [] R = {}"
  by (simp add: settled_def)

lemma settled_all: "settled T C T = set C"
  by (auto simp: settled_def)

lemma settled_calls: "settled T C R \<subseteq> set C"
  by (auto simp: settled_def)

lemma settled_result:
  assumes "T = R @ (i, out) # rest" and "distinct (map fst T)"
  shows "i \<notin> settled T C R"
    and "settled T C (R @ [(i, out)]) = (if i \<in> set C then insert i (settled T C R) else settled T C R)"
proof -
  have "i \<notin> fst ` set R" "i \<in> fst ` set T" using assms by auto
  then show "i \<notin> settled T C R"
    "settled T C (R @ [(i, out)]) = (if i \<in> set C then insert i (settled T C R) else settled T C R)"
    by (auto simp: settled_def)
qed

lemma settled_call:
  assumes "T = R @ rest" and "distinct (map fst T)" and "i \<notin> set C"
  shows "i \<notin> settled T C R"
    and "settled T (C @ [i]) R = (if i \<in> fst ` set rest then settled T C R else insert i (settled T C R))"
proof -
  have "i \<in> fst ` set T \<longleftrightarrow> i \<in> fst ` set R \<or> i \<in> fst ` set rest" unfolding assms(1) by auto
  moreover have "\<not> (i \<in> fst ` set R \<and> i \<in> fst ` set rest)" using assms(1,2) by auto
  ultimately show "i \<notin> settled T C R"
    "settled T (C @ [i]) R = (if i \<in> fst ` set rest then settled T C R else insert i (settled T C R))"
    using assms(3) by (auto simp: settled_def)
qed

text \<open>The results that came before their call, when a call comes for one.\<close>

definition early :: "rstr list \<Rightarrow> (rstr \<times> rstr) list \<Rightarrow> (rstr \<times> rstr) list" where
  "early C R = filter (\<lambda>e. fst e \<notin> set C) R"

lemma early_Nil [simp]: "early C [] = []"
  by (simp add: early_def)

lemma early_result: "early C (R @ [(i, out)]) = early C R @ (if i \<in> set C then [] else [(i, out)])"
  by (simp add: early_def)

lemma early_call: "early (C @ [i]) R = filter (\<lambda>e. fst e \<noteq> i) (early C R)"
  by (auto simp: early_def intro: filter_cong)

lemma early_ids: "i \<notin> set C \<Longrightarrow> i \<in> fst ` set (early C R) \<longleftrightarrow> i \<in> fst ` set R"
  by (force simp: early_def)

lemma early_some:
  assumes "map_of (early C R) i = Some out" and "distinct (map fst (R @ rest))"
  shows "answer_in (R @ rest) i = out" and "i \<notin> fst ` set rest"
proof -
  have "(i, out) \<in> set R" using map_of_SomeD [OF assms(1)] by (simp add: early_def)
  then show "answer_in (R @ rest) i = out" using assms(2) by (intro answer_there) simp_all
  have "i \<in> fst ` set R" using \<open>(i, out) \<in> set R\<close> by force
  then show "i \<notin> fst ` set rest" using assms(2) by auto
qed

lemma early_none:
  assumes "map_of (early C R) i = None" and "i \<notin> set C" and "i \<notin> fst ` set rest"
  shows "early (C @ [i]) R = early C R" and "answer_in (R @ rest) i = missing_output"
proof -
  have "i \<notin> fst ` set (early C R)" using assms(1) unfolding map_of_eq_None_iff .
  then show "early (C @ [i]) R = early C R" unfolding early_call by (auto intro!: filter_True)
  have "i \<notin> fst ` set R" using early_ids [OF assms(2)] \<open>i \<notin> fst ` set (early C R)\<close> by simp
  then show "answer_in (R @ rest) i = missing_output"
    using assms(3) by (intro answer_nowhere) (simp add: image_Un)
qed

section \<open>Answered transcripts\<close>

text \<open>
  \<open>answered calls answer cs xs\<close>: the first items of \<open>xs\<close> answer \<open>cs\<close> in turn, and in the
  rest every item that makes calls is directly followed by one answer to each, in order;
  there is no other answer.
\<close>

fun answered :: "('i \<Rightarrow> rstr list) \<Rightarrow> ('i \<Rightarrow> rstr option) \<Rightarrow> rstr list \<Rightarrow> 'i list \<Rightarrow> bool" where
  "answered calls answer cs [] = (cs = [])"
| "answered calls answer [] (x # xs) = (answer x = None \<and> answered calls answer (calls x) xs)"
| "answered calls answer (c # cs) (x # xs) = (answer x = Some c \<and> answered calls answer cs xs)"

section \<open>A sample\<close>

definition plain_json :: "json \<Rightarrow> rstr" where
  "plain_json j = ''{}''"

text \<open>A result before its call, one after it, one that never came, and one nobody asked for.\<close>

definition scattered_conversation :: "message list" where
  "scattered_conversation =
     [\<lparr>role_of = User, content_of = [Text ''go'' None, ToolResult ''a'' ''early'' None]\<rparr>,
      \<lparr>role_of = Assistant, content_of =
        [Text ''look'' None, ToolUse ''a'' ''read'' (JObject []) None, ToolUse ''b'' ''read'' JNull None,
         ToolUse ''c'' ''bash'' (JObject []) None]\<rparr>,
      \<lparr>role_of = User, content_of = [ToolResult ''z'' ''stray'' None, Text ''and'' None, ToolResult ''b'' ''bad'' (Some True)]\<rparr>]"

end
