(* ===== verification/Openai_Input.thy ===== *)
theory Openai_Input
  imports Transcript
begin

text \<open>
  The input of a request to OpenAI, \<open>build_responses_input\<close> of
  \<open>crates/kcode-provider-openai/src/request.rs\<close>. The JSON objects it builds are a datatype with
  a constructor for each \<open>type\<close> (a message for each role); what it logs and counts for the log
  is left out. The order in which a hash set is iterated is an argument.
\<close>

section \<open>Items\<close>

datatype user_part = Input_Image rstr | Input_Text rstr

datatype response_item =
  User_Message "user_part list"
| Assistant_Message rstr
| Compaction_Item rstr
| Reasoning_Item rstr "rstr list" "rstr option"
| Function_Call rstr rstr rstr
| Function_Call_Output rstr rstr

fun called_id :: "response_item \<Rightarrow> rstr option" where
  "called_id (Function_Call n a c) = Some c"
| "called_id x = None"

fun answered_id :: "response_item \<Rightarrow> rstr option" where
  "answered_id (Function_Call_Output c out) = Some c"
| "answered_id x = None"

section \<open>Replaying the conversation\<close>

record input_state =
  items :: "response_item list"
  open_calls :: "rstr list"
  pending_outputs :: "(rstr \<times> rstr) list"
  used_outputs :: "rstr set"

definition push_item :: "response_item \<Rightarrow> input_state \<Rightarrow> input_state" where
  "push_item x s = s\<lparr>items := items s @ [x]\<rparr>"

definition flush_parts :: "user_part list \<Rightarrow> input_state \<Rightarrow> input_state" where
  "flush_parts parts s = (if parts = [] then s else push_item (User_Message parts) s)"

definition compaction_item :: "rstr \<Rightarrow> response_item" where
  "compaction_item e =
     (if openai_encrypted_content_is_sendable e then Compaction_Item e
      else User_Message [Input_Text (openai_encrypted_content_fallback_summary (length e))])"

definition take_result :: "rstr \<Rightarrow> rstr \<Rightarrow> input_state \<Rightarrow> input_state" where
  "take_result i out s =
     (if i \<in> used_outputs s then s
      else if i \<in> set (open_calls s)
      then (push_item (Function_Call_Output (sanitize_tool_id i) out) s)
             \<lparr>open_calls := removeAll i (open_calls s), used_outputs := insert i (used_outputs s)\<rparr>
      else if i \<in> fst ` set (pending_outputs s) then s
      else s\<lparr>pending_outputs := pending_outputs s @ [(i, out)]\<rparr>)"

fun user_block :: "content_block \<Rightarrow> user_part list \<times> input_state \<Rightarrow> user_part list \<times> input_state" where
  "user_block (Image m d) (parts, s) = (parts @ [Input_Image (''data:'' @ m @ '';base64,'' @ d)], s)"
| "user_block (Text t c) (parts, s) = (parts @ [Input_Text t], s)"
| "user_block (OpenAICompaction e) (parts, s) = ([], push_item (compaction_item e) (flush_parts parts s))"
| "user_block (ToolResult i c e) (parts, s) = ([], take_result i (shown_output c e) (flush_parts parts s))"
| "user_block b (parts, s) = (parts, s)"

definition make_call ::
  "(json \<Rightarrow> rstr) \<Rightarrow> (rstr \<Rightarrow> bool) \<Rightarrow> rstr \<Rightarrow> rstr \<Rightarrow> json \<Rightarrow> input_state \<Rightarrow> input_state" where
  "make_call show_json future i name input s =
     (let s1 = push_item (Function_Call name (call_arguments show_json input) (sanitize_tool_id i)) s
      in case map_of (pending_outputs s) i of
           Some out \<Rightarrow>
             (push_item (Function_Call_Output (sanitize_tool_id i) out) s1)
               \<lparr>pending_outputs := filter (\<lambda>e. fst e \<noteq> i) (pending_outputs s),
                used_outputs := insert i (used_outputs s)\<rparr>
         | None \<Rightarrow>
             if future i then s1\<lparr>open_calls := List.insert i (open_calls s)\<rparr>
             else (push_item (Function_Call_Output (sanitize_tool_id i) missing_output) s1)
                    \<lparr>used_outputs := insert i (used_outputs s)\<rparr>)"

fun assistant_block ::
  "(json \<Rightarrow> rstr) \<Rightarrow> (rstr \<Rightarrow> bool) \<Rightarrow> content_block \<Rightarrow> input_state \<Rightarrow> input_state" where
  "assistant_block show_json future (Text t c) s = push_item (Assistant_Message t) s"
| "assistant_block show_json future (OpenAIReasoning i summary encrypted status) s =
     push_item (Reasoning_Item i summary encrypted) s"
| "assistant_block show_json future (ToolUse i name input sig) s = make_call show_json future i name input s"
| "assistant_block show_json future b s = s"

definition replay_message ::
  "(json \<Rightarrow> rstr) \<Rightarrow> (nat \<Rightarrow> rstr \<Rightarrow> bool) \<Rightarrow> nat \<times> message \<Rightarrow> input_state \<Rightarrow> input_state" where
  "replay_message show_json future e s =
     (case role_of (snd e) of
        User \<Rightarrow>
          (case fold user_block (content_of (snd e)) ([], s) of (parts, s') \<Rightarrow> flush_parts parts s')
      | Assistant \<Rightarrow> fold (assistant_block show_json (future (fst e))) (content_of (snd e)) s)"

definition replay :: "(json \<Rightarrow> rstr) \<Rightarrow> message list \<Rightarrow> input_state" where
  "replay show_json ms =
     fold (replay_message show_json (has_future_output ms)) (enumerate 0 ms)
       \<lparr>items = [], open_calls = [], pending_outputs = [], used_outputs = {}\<rparr>"

section \<open>Calls left open and outputs left over\<close>

definition close_call :: "rstr \<Rightarrow> input_state \<Rightarrow> input_state" where
  "close_call i s =
     (if i \<in> used_outputs s then s
      else case map_of (pending_outputs s) i of
             Some out \<Rightarrow>
               (push_item (Function_Call_Output (sanitize_tool_id i) out) s)
                 \<lparr>pending_outputs := filter (\<lambda>e. fst e \<noteq> i) (pending_outputs s)\<rparr>
           | None \<Rightarrow> push_item (Function_Call_Output (sanitize_tool_id i) missing_output) s)"

definition close_calls :: "(rstr list \<Rightarrow> rstr list) \<Rightarrow> input_state \<Rightarrow> input_state" where
  "close_calls iteration s = fold close_call (iteration (open_calls s)) s"

definition orphan_tool_output_to_user_message :: "rstr \<Rightarrow> rstr \<Rightarrow> response_item option" where
  "orphan_tool_output_to_user_message call_id out =
     map_option (\<lambda>t. User_Message [Input_Text t]) (recovered_output call_id out)"

definition orphans :: "(rstr \<times> rstr) list \<Rightarrow> response_item list" where
  "orphans pending =
     List.map_filter (\<lambda>(i, out). orphan_tool_output_to_user_message (sanitize_tool_id i) out)
       (sort_key fst pending)"

section \<open>The passes over the items\<close>

definition output_ids :: "response_item list \<Rightarrow> rstr set" where
  "output_ids xs = set (List.map_filter answered_id xs)"

fun inject_missing :: "rstr set \<Rightarrow> response_item list \<Rightarrow> response_item list" where
  "inject_missing ids [] = []"
| "inject_missing ids (x # xs) =
     (case called_id x of
        Some c \<Rightarrow>
          if c \<in> ids then x # inject_missing ids xs
          else x # Function_Call_Output c missing_output # inject_missing (insert c ids) xs
      | None \<Rightarrow> x # inject_missing ids xs)"

text \<open>The output kept for an id: the first, but a real one replaces a missing one.\<close>

fun keep_output :: "response_item \<Rightarrow> (rstr \<rightharpoonup> rstr) \<Rightarrow> (rstr \<rightharpoonup> rstr)" where
  "keep_output (Function_Call_Output c out) kept =
     (case kept c of
        Some existing \<Rightarrow>
          if existing = missing_output \<and> out \<noteq> missing_output then kept(c \<mapsto> out) else kept
      | None \<Rightarrow> kept(c \<mapsto> out))"
| "keep_output x kept = kept"

definition output_map :: "response_item list \<Rightarrow> (rstr \<rightharpoonup> rstr)" where
  "output_map xs = fold keep_output xs Map.empty"

definition output_for :: "(rstr \<rightharpoonup> rstr) \<Rightarrow> rstr \<Rightarrow> rstr" where
  "output_for outs c = (case outs c of Some out \<Rightarrow> out | None \<Rightarrow> missing_output)"

fun reorder :: "(rstr \<rightharpoonup> rstr) \<Rightarrow> rstr set \<Rightarrow> response_item list \<Rightarrow> response_item list" where
  "reorder outs used [] = []"
| "reorder outs used (Function_Call n a c # xs) =
     Function_Call n a c # Function_Call_Output c (output_for outs c) # reorder outs (insert c used) xs"
| "reorder outs used (Function_Call_Output c out # xs) =
     (if c \<in> used then reorder outs used xs
      else case orphan_tool_output_to_user_message c out of
             Some x \<Rightarrow> x # reorder outs used xs
           | None \<Rightarrow> reorder outs used xs)"
| "reorder outs used (x # xs) = x # reorder outs used xs"

definition build_responses_input ::
  "(rstr list \<Rightarrow> rstr list) \<Rightarrow> (json \<Rightarrow> rstr) \<Rightarrow> message list \<Rightarrow> response_item list" where
  "build_responses_input iteration show_json ms =
     (let s = close_calls iteration (replay show_json ms);
          xs = items s @ orphans (pending_outputs s);
          ys = inject_missing (output_ids xs) xs
      in reorder (output_map ys) {} ys)"

end
