(* ===== verification/Openai_Input_Properties.thy ===== *)
theory Openai_Input_Properties
  imports Openai_Input
begin

text \<open>
  What a request to OpenAI says of a conversation: every call answered where it is made, and,
  when no id is used twice, exactly the translation of the conversation, block by block.
\<close>

section \<open>Every call is answered at once\<close>

definition calls_made :: "response_item \<Rightarrow> rstr list" where
  "calls_made x = (case called_id x of Some c \<Rightarrow> [c] | None \<Rightarrow> [])"

lemma calls_made_simps [simp]:
  "calls_made (Function_Call n a c) = [c]" "calls_made (Function_Call_Output c out) = []"
  "calls_made (User_Message ps) = []" "calls_made (Assistant_Message t) = []"
  "calls_made (Compaction_Item p) = []" "calls_made (Reasoning_Item i ss e) = []"
  by (simp_all add: calls_made_def)

definition bare :: "response_item list \<Rightarrow> response_item list" where
  "bare xs = filter (\<lambda>x. answered_id x = None) xs"

lemma bare_simps [simp]:
  "bare [] = []" "bare (xs @ ys) = bare xs @ bare ys"
  "bare (x # xs) = (if answered_id x = None then x # bare xs else bare xs)"
  by (simp_all add: bare_def)

definition made :: "response_item list \<Rightarrow> rstr list" where
  "made xs = concat (map calls_made xs)"

lemma made_simps [simp]:
  "made [] = []" "made (xs @ ys) = made xs @ made ys"
  "made (x # xs) = calls_made x @ made xs"
  by (simp_all add: made_def)

lemma made_bare: "made (bare xs) = made xs"
proof (induction xs)
  case (Cons x xs)
  then show ?case by (cases x) simp_all
qed simp

lemma orphan_is_message:
  "orphan_tool_output_to_user_message c out = Some x \<Longrightarrow> \<exists>ps. x = User_Message ps"
  by (auto simp: orphan_tool_output_to_user_message_def)

lemma orphans_messages: "x \<in> set (orphans pending) \<Longrightarrow> \<exists>ps. x = User_Message ps"
  by (auto simp: orphans_def List.map_filter_def dest: orphan_is_message)

lemma made_messages: "(\<forall>x \<in> set xs. \<exists>ps. x = User_Message ps) \<Longrightarrow> made xs = [] \<and> bare xs = xs"
  by (induction xs) auto

lemma reorder_shape:
  "answered calls_made answered_id [] (reorder outs used xs) \<and> made (reorder outs used xs) = made xs"
proof (induction outs used xs rule: reorder.induct)
  case (3 outs used c out xs)
  then show ?case
    by (cases "orphan_tool_output_to_user_message c out") (auto dest!: orphan_is_message)
qed simp_all

lemma inject_made: "made (inject_missing ids xs) = made xs"
proof (induction ids xs rule: inject_missing.induct)
  case (2 ids x xs)
  then show ?case by (cases x) simp_all
qed simp

lemma push_items [simp]: "items (push_item x s) = items s @ [x]"
  "open_calls (push_item x s) = open_calls s" "pending_outputs (push_item x s) = pending_outputs s"
  "used_outputs (push_item x s) = used_outputs s"
  by (simp_all add: push_item_def)

lemma flush_items [simp]:
  "items (flush_parts parts s) = items s @ (if parts = [] then [] else [User_Message parts])"
  "open_calls (flush_parts parts s) = open_calls s" "pending_outputs (flush_parts parts s) = pending_outputs s"
  "used_outputs (flush_parts parts s) = used_outputs s"
  by (simp_all add: flush_parts_def)

lemma close_made: "made (items (fold close_call is s)) = made (items s)"
  by (induction "is" arbitrary: s) (simp_all add: close_call_def split: option.split)

section \<open>The translation\<close>

text \<open>What a user message becomes, its tool outputs apart, and what an assistant's block does.\<close>

fun user_items :: "user_part list \<Rightarrow> content_block list \<Rightarrow> response_item list" where
  "user_items parts [] = (if parts = [] then [] else [User_Message parts])"
| "user_items parts (b # bs) =
     (case b of
        Image m d \<Rightarrow> user_items (parts @ [Input_Image (''data:'' @ m @ '';base64,'' @ d)]) bs
      | Text t c \<Rightarrow> user_items (parts @ [Input_Text t]) bs
      | OpenAICompaction e \<Rightarrow> user_items parts [] @ compaction_item e # user_items [] bs
      | ToolResult i c e \<Rightarrow> user_items parts [] @ user_items [] bs
      | _ \<Rightarrow> user_items parts bs)"

fun assistant_items :: "(json \<Rightarrow> rstr) \<Rightarrow> (rstr \<Rightarrow> rstr) \<Rightarrow> content_block \<Rightarrow> response_item list" where
  "assistant_items show_json answer (Text t c) = [Assistant_Message t]"
| "assistant_items show_json answer (OpenAIReasoning i summary encrypted status) =
     [Reasoning_Item i summary encrypted]"
| "assistant_items show_json answer (ToolUse i name input sig) =
     [Function_Call name (call_arguments show_json input) (sanitize_tool_id i),
      Function_Call_Output (sanitize_tool_id i) (answer i)]"
| "assistant_items show_json answer b = []"

definition message_items :: "(json \<Rightarrow> rstr) \<Rightarrow> (rstr \<Rightarrow> rstr) \<Rightarrow> message \<Rightarrow> response_item list" where
  "message_items show_json answer m =
     (case role_of m of
        User \<Rightarrow> user_items [] (content_of m)
      | Assistant \<Rightarrow> concat (map (assistant_items show_json answer) (content_of m)))"

definition reference_input :: "(json \<Rightarrow> rstr) \<Rightarrow> message list \<Rightarrow> response_item list" where
  "reference_input show_json ms =
     concat (map (message_items show_json (answer_in (conversation_results ms))) ms)
     @ orphans (filter (\<lambda>(i, out). i \<notin> set (conversation_calls ms)) (conversation_results ms))"

lemma compaction_bare [simp]: "answered_id (compaction_item e) = None" "calls_made (compaction_item e) = []"
  by (simp_all add: compaction_item_def)

lemma take_result_bare [simp]: "bare (items (take_result i out s)) = bare (items s)"
  by (simp add: take_result_def)

lemma user_blocks_bare:
  "fold user_block bs (parts, s) = (parts', s') \<Longrightarrow>
   bare (items (flush_parts parts' s')) = bare (items s) @ user_items parts bs"
proof (induction bs arbitrary: parts s)
  case (Cons b bs)
  then show ?case by (cases b) (force simp: Cons.IH)+
qed simp

lemma assistant_blocks_bare:
  "bare (items (fold (assistant_block show_json future) bs s)) =
     bare (items s) @ bare (concat (map (assistant_items show_json answer) bs))"
proof (induction bs arbitrary: s)
  case (Cons b bs)
  have "bare (items (assistant_block show_json future b s)) = bare (items s) @ bare (assistant_items show_json answer b)"
    by (cases b) (simp_all add: make_call_def Let_def split: option.split)
  then show ?case by (simp add: Cons.IH)
qed simp

lemma user_items_bare: "bare (user_items parts bs) = user_items parts bs"
  by (induction parts bs rule: user_items.induct) (auto split: content_block.split)

lemma replay_bare:
  "bare (items (fold (replay_message show_json future) (enumerate n ms) s)) =
     bare (items s) @ bare (concat (map (message_items show_json answer) ms))"
proof (induction ms arbitrary: n s)
  case (Cons m ms)
  have "bare (items (replay_message show_json future (n, m) s)) = bare (items s) @ bare (message_items show_json answer m)"
    using assistant_blocks_bare user_blocks_bare
    by (auto simp: replay_message_def message_items_def user_items_bare split: role.split prod.split)
  then show ?case by (simp add: Cons.IH)
qed simp

lemma user_items_made: "made (user_items parts bs) = []"
  by (induction parts bs rule: user_items.induct) (auto split: content_block.split)

lemma message_items_made: "made (message_items show_json answer m) = map sanitize_tool_id (message_calls m)"
proof (cases "role_of m")
  case Assistant
  have "made (concat (map (assistant_items show_json answer) bs)) = map sanitize_tool_id (List.map_filter block_call bs)" for bs
  proof (induction bs)
    case (Cons b bs)
    then show ?case by (cases b) (simp_all add: List.map_filter_simps)
  qed (simp add: List.map_filter_simps)
  then show ?thesis by (simp add: Assistant message_items_def message_calls_def)
qed (simp add: message_items_def message_calls_def user_items_made)

lemma messages_made:
  "made (concat (map (message_items show_json answer) ms)) = map sanitize_tool_id (conversation_calls ms)"
  by (induction ms) (simp_all add: message_items_made conversation_calls_def)

lemma replay_made: "made (items (replay show_json ms)) = map sanitize_tool_id (conversation_calls ms)"
  using replay_bare [of show_json "has_future_output ms" 0 ms _ "answer_in []"] made_bare messages_made
  unfolding replay_def by (metis append_Nil bare_simps(1) input_state.select_convs(1))

text \<open>
  C18: A request to OpenAI never leaves a call open and never answers what was not asked: it
  makes exactly the calls of the conversation, in order, each directly followed by its one
  output, whatever the conversation has lost, repeated or reordered.
\<close>

theorem requests_answer_their_calls:
  "answered calls_made answered_id [] (build_responses_input iteration show_json ms)
   \<and> made (build_responses_input iteration show_json ms) = map sanitize_tool_id (conversation_calls ms)"
proof -
  have "made (orphans pending) = []" for pending
    using orphans_messages made_messages by blast
  then show ?thesis
    by (simp add: build_responses_input_def Let_def reorder_shape inject_made close_calls_def
        close_made replay_made)
qed

section \<open>No id twice\<close>

text \<open>
  The state after a part of the conversation with the calls \<open>C\<close> and the results \<open>R\<close>, of a
  conversation whose results are \<open>T\<close>.
\<close>

definition outputs :: "response_item list \<Rightarrow> (rstr \<times> rstr) set" where
  "outputs xs = {(c, out). Function_Call_Output c out \<in> set xs}"

lemma outputs_simps [simp]:
  "outputs [] = {}" "outputs (xs @ ys) = outputs xs \<union> outputs ys"
  "outputs (Function_Call_Output c out # xs) = insert (c, out) (outputs xs)"
  by (auto simp: outputs_def)

lemma outputs_other [simp]: "answered_id x = None \<Longrightarrow> outputs (x # xs) = outputs xs"
  by (auto simp: outputs_def)

text \<open>Outputs come after their calls.\<close>

fun late :: "rstr set \<Rightarrow> response_item list \<Rightarrow> bool" where
  "late seen [] = True"
| "late seen (x # xs) =
     ((case answered_id x of Some c \<Rightarrow> c \<in> seen | None \<Rightarrow> True) \<and> late (seen \<union> set (calls_made x)) xs)"

lemma late_append [simp]: "late seen (xs @ ys) = (late seen xs \<and> late (seen \<union> set (made xs)) ys)"
  by (induction xs arbitrary: seen) (simp_all add: Un_assoc)

definition tracked :: "(rstr \<times> rstr) list \<Rightarrow> rstr list \<Rightarrow> (rstr \<times> rstr) list \<Rightarrow> input_state \<Rightarrow> bool" where
  "tracked T C R s =
     (pending_outputs s = early C R \<and> set (open_calls s) = set C - settled T C R
      \<and> used_outputs s = settled T C R
      \<and> outputs (items s) = (\<lambda>i. (sanitize_tool_id i, answer_in T i)) ` settled T C R
      \<and> late {} (items s) \<and> made (items s) = map sanitize_tool_id C)"

lemma tracked_push:
  "tracked T C R s \<Longrightarrow> answered_id x = None \<Longrightarrow> calls_made x = [] \<Longrightarrow> tracked T C R (push_item x s)"
  by (simp add: tracked_def)

lemma tracked_flush: "tracked T C R s \<Longrightarrow> tracked T C R (flush_parts parts s)"
  by (simp add: tracked_def)

lemma tracked_result:
  assumes "tracked T C R s" and "T = R @ (i, out) # rest" and "distinct (map fst T)"
  shows "tracked T C (R @ [(i, out)]) (take_result i out s)"
proof -
  note step = settled_result [OF assms(2,3), of C]
  have "answer_in T i = out" using assms(2,3) by (intro answer_there) simp_all
  moreover have "i \<notin> fst ` set (early C R)" using assms(2,3) by (auto simp: early_def)
  ultimately show ?thesis
    using assms(1) step(1) by (auto simp: tracked_def take_result_def step(2) early_result)
qed

lemma tracked_call:
  assumes "tracked T C R s" and "T = R @ rest" and "distinct (map fst T)" and "i \<notin> set C"
    and "future i \<longleftrightarrow> i \<in> fst ` set rest"
  shows "tracked T (C @ [i]) R (make_call show_json future i name input s)"
proof (cases "map_of (early C R) i")
  case (Some out)
  have "answer_in T i = out" "i \<notin> fst ` set rest"
    using early_some [OF Some] assms(2,3) by auto
  then show ?thesis
    using assms(1,4) Some settled_call [OF assms(2-4)]
    by (auto simp: tracked_def make_call_def Let_def early_call)
next
  case None
  show ?thesis
  proof (cases "i \<in> fst ` set rest")
    case True
    have "early (C @ [i]) R = early C R"
      using None unfolding early_call map_of_eq_None_iff by (auto intro!: filter_True)
    then show ?thesis
      using True assms(1,4,5) None settled_call [OF assms(2-4)]
      by (auto simp: tracked_def make_call_def Let_def)
  next
    case False
    then show ?thesis
      using assms(1,4,5) None settled_call [OF assms(2-4)] early_none [OF None assms(4) False] assms(2)
      by (auto simp: tracked_def make_call_def Let_def)
  qed
qed

text \<open>Through the blocks of a message, and through the conversation.\<close>

lemma tracked_user_blocks:
  assumes "distinct (map fst T)"
  shows "tracked T C R s \<Longrightarrow> T = R @ List.map_filter block_result bs @ rest \<Longrightarrow>
    fold user_block bs (parts, s) = (parts', s') \<Longrightarrow>
    tracked T C (R @ List.map_filter block_result bs) (flush_parts parts' s')"
proof (induction bs arbitrary: R s parts)
  case Nil
  then show ?case by (simp add: List.map_filter_simps tracked_flush)
next
  case (Cons b bs)
  show ?case
  proof (cases b)
    case (ToolResult i c e)
    have "tracked T C (R @ [(i, shown_output c e)]) (take_result i (shown_output c e) (flush_parts parts s))"
      using Cons.prems ToolResult assms
      by (intro tracked_result tracked_flush) (auto simp: List.map_filter_simps)
    then show ?thesis
      using Cons.IH [of "R @ [(i, shown_output c e)]" "take_result i (shown_output c e) (flush_parts parts s)" "[]"]
        Cons.prems ToolResult
      by (simp add: List.map_filter_simps)
  next
    case (OpenAICompaction e)
    have "tracked T C R (push_item (compaction_item e) (flush_parts parts s))"
      using Cons.prems(1) by (intro tracked_push tracked_flush) simp_all
    then show ?thesis
      using Cons.IH Cons.prems OpenAICompaction by (simp add: List.map_filter_simps)
  qed (use Cons in \<open>simp_all add: List.map_filter_simps\<close>)
qed

lemma tracked_assistant_blocks:
  assumes "distinct (map fst T)" and "T = R @ rest" and "\<And>i. future i \<longleftrightarrow> i \<in> fst ` set rest"
  shows "tracked T C R s \<Longrightarrow> distinct (C @ List.map_filter block_call bs) \<Longrightarrow>
    tracked T (C @ List.map_filter block_call bs) R (fold (assistant_block show_json future) bs s)"
proof (induction bs arbitrary: C s)
  case (Cons b bs)
  show ?case
  proof (cases b)
    case (ToolUse i name input sig)
    have "tracked T (C @ [i]) R (make_call show_json future i name input s)"
      using Cons.prems assms ToolUse by (intro tracked_call) (auto simp: List.map_filter_simps)
    then show ?thesis
      using Cons.IH [of "C @ [i]"] Cons.prems ToolUse by (simp add: List.map_filter_simps)
  qed (use Cons in \<open>simp_all add: List.map_filter_simps tracked_push\<close>)
qed (simp add: List.map_filter_simps)

lemma tracked_messages:
  assumes "distinct (map fst (conversation_results (before @ after)))" and "distinct (conversation_calls (before @ after))"
    and "tracked (conversation_results (before @ after)) (conversation_calls before) (conversation_results before) s"
  shows "tracked (conversation_results (before @ after)) (conversation_calls (before @ after))
    (conversation_results (before @ after))
    (fold (replay_message show_json (has_future_output (before @ after))) (enumerate (length before) after) s)"
  using assms
proof (induction after arbitrary: before s)
  case (Cons m after)
  let ?s = "replay_message show_json (has_future_output (before @ m # after)) (length before, m) s"
  let ?T = "conversation_results (before @ m # after)"
  have "tracked ?T (conversation_calls (before @ [m])) (conversation_results (before @ [m])) ?s"
  proof (cases "role_of m")
    case User
    obtain parts' s' where folded: "fold user_block (content_of m) ([], s) = (parts', s')" by force
    have "tracked ?T (conversation_calls before) (conversation_results before @ List.map_filter block_result (content_of m))
        (flush_parts parts' s')"
      using Cons.prems folded User by (intro tracked_user_blocks) (auto simp: message_results_def)
    then show ?thesis by (simp add: replay_message_def User folded message_calls_def message_results_def)
  next
    case Assistant
    have "tracked ?T (conversation_calls before @ List.map_filter block_call (content_of m)) (conversation_results before)
        (fold (assistant_block show_json (has_future_output (before @ m # after) (length before))) (content_of m) s)"
      using Cons.prems Assistant
      by (intro tracked_assistant_blocks [where rest = "conversation_results after"])
        (auto simp: message_results_def message_calls_def future_output_iff)
    then show ?thesis by (simp add: replay_message_def Assistant message_calls_def message_results_def)
  qed
  then show ?case using Cons.IH [of "before @ [m]" ?s] Cons.prems(1,2) by simp
qed simp

lemma tracked_replay:
  assumes "distinct (map fst (conversation_results ms))" and "distinct (conversation_calls ms)"
  shows "tracked (conversation_results ms) (conversation_calls ms) (conversation_results ms) (replay show_json ms)"
  using tracked_messages [of "[]" ms "\<lparr>items = [], open_calls = [], pending_outputs = [], used_outputs = {}\<rparr>"] assms
  by (simp add: replay_def tracked_def)

section \<open>The passes are idle\<close>

lemma inject_all: "set (made xs) \<subseteq> ids \<Longrightarrow> inject_missing ids xs = xs"
  by (induction ids xs rule: inject_missing.induct) (auto simp: calls_made_def split: option.splits)

lemma output_map_only:
  assumes "(c, out) \<in> outputs xs" and "\<And>out'. (c, out') \<in> outputs xs \<Longrightarrow> out' = out"
  shows "output_map xs c = Some out"
proof -
  have "fold keep_output xs kept c = (if (c, out) \<in> outputs xs then Some out else kept c)"
    if "\<And>out'. (c, out') \<in> outputs xs \<Longrightarrow> out' = out" "kept c \<in> {None, Some out}" for kept
    using that
  proof (induction xs arbitrary: kept)
    case (Cons x xs)
    have step: "keep_output x kept c = (if (c, out) \<in> outputs [x] then Some out else kept c)"
    proof (cases x)
      case (Function_Call_Output c' out')
      show ?thesis
      proof (cases "c' = c")
        case True
        then have "out' = out" using Cons.prems(1) [of out'] Function_Call_Output by simp
        then show ?thesis using True Cons.prems(2) Function_Call_Output by (auto split: option.split)
      qed (auto simp: Function_Call_Output split: option.split)
    qed simp_all
    have "outputs (x # xs) = outputs [x] \<union> outputs xs" by (simp flip: outputs_simps(2))
    moreover from this have "fold keep_output xs (keep_output x kept) c
        = (if (c, out) \<in> outputs xs then Some out else keep_output x kept c)"
      using Cons.prems by (intro Cons.IH) (simp_all add: step)
    ultimately show ?case by (simp add: step)
  qed simp
  from this [OF assms(2), of Map.empty] show ?thesis using assms(1) by (simp add: output_map_def)
qed

definition with_output :: "(rstr \<rightharpoonup> rstr) \<Rightarrow> response_item \<Rightarrow> response_item list" where
  "with_output outs x = x # map (\<lambda>c. Function_Call_Output c (output_for outs c)) (calls_made x)"

lemma reorder_late: "late used xs \<Longrightarrow> reorder outs used xs = concat (map (with_output outs) (bare xs))"
  by (induction outs used xs rule: reorder.induct) (simp_all add: with_output_def insert_commute)

lemma with_output_messages:
  assumes "\<And>i. i \<in> set (message_calls m) \<Longrightarrow> output_for outs (sanitize_tool_id i) = answer i"
  shows "concat (map (with_output outs) (bare (message_items show_json answer m))) = message_items show_json answer m"
proof (cases "role_of m")
  case User
  have "concat (map (with_output outs) (user_items parts bs)) = user_items parts bs" for parts bs
    by (induction parts bs rule: user_items.induct) (auto simp: with_output_def split: content_block.split)
  then show ?thesis by (simp add: message_items_def User user_items_bare)
next
  case Assistant
  have "concat (map (with_output outs) (bare (concat (map (assistant_items show_json answer) bs))))
      = concat (map (assistant_items show_json answer) bs)"
    if "\<And>i. i \<in> set (List.map_filter block_call bs) \<Longrightarrow> output_for outs (sanitize_tool_id i) = answer i" for bs
    using that
  proof (induction bs)
    case (Cons b bs)
    have "concat (map (with_output outs) (bare (assistant_items show_json answer b))) = assistant_items show_json answer b"
      using Cons.prems by (cases b) (simp_all add: with_output_def List.map_filter_simps)
    then show ?case
      using Cons by (cases b) (simp_all add: List.map_filter_simps)
  qed simp
  then show ?thesis using assms Assistant by (simp add: message_items_def message_calls_def)
qed

lemma with_output_conversation:
  assumes "\<And>i. i \<in> set (conversation_calls ms) \<Longrightarrow> output_for outs (sanitize_tool_id i) = answer i"
  shows "concat (map (with_output outs) (bare (concat (map (message_items show_json answer) ms))))
    = concat (map (message_items show_json answer) ms)"
  using assms by (induction ms) (simp_all add: with_output_messages)

lemma output_ids_outputs: "output_ids xs = fst ` outputs xs"
proof -
  have "answered_id x = Some c \<longleftrightarrow> (\<exists>out. x = Function_Call_Output c out)" for x c by (cases x) auto
  then show ?thesis by (force simp: output_ids_def outputs_def List.map_filter_def)
qed

lemma outputs_messages: "(\<forall>x \<in> set xs. \<exists>ps. x = User_Message ps) \<Longrightarrow> outputs xs = {} \<and> late seen xs"
  by (induction xs arbitrary: seen) auto

lemma with_output_message_list:
  "(\<forall>x \<in> set xs. \<exists>ps. x = User_Message ps) \<Longrightarrow> concat (map (with_output outs) xs) = xs"
  by (induction xs) (auto simp: with_output_def)



section \<open>Where an id comes twice\<close>

text \<open>
  A provider that numbers the calls of each turn from the start makes ids come again. The
  second call is then sent with the output of the first, and its own result is dropped.
\<close>

lemma repeated_id_gets_first_output:
  "build_responses_input (\<lambda>xs. xs) plain_json
     [\<lparr>role_of = Assistant, content_of = [ToolUse ''call_0'' ''read'' (JObject []) None]\<rparr>,
      \<lparr>role_of = User, content_of = [ToolResult ''call_0'' ''one'' None]\<rparr>,
      \<lparr>role_of = Assistant, content_of = [ToolUse ''call_0'' ''bash'' (JObject []) None]\<rparr>,
      \<lparr>role_of = User, content_of = [ToolResult ''call_0'' ''two'' None]\<rparr>]
   = [Function_Call ''read'' ''{}'' ''call_0'', Function_Call_Output ''call_0'' ''one'',
      Function_Call ''bash'' ''{}'' ''call_0'', Function_Call_Output ''call_0'' ''one'']"
  by code_simp

text \<open>Two ids that differ in a character the provider does not take become one.\<close>

lemma sanitized_ids_collide:
  "build_responses_input (\<lambda>xs. xs) plain_json
     [\<lparr>role_of = Assistant, content_of =
        [ToolUse ''f.1'' ''read'' (JObject []) None, ToolUse ''f:1'' ''bash'' (JObject []) None]\<rparr>,
      \<lparr>role_of = User, content_of = [ToolResult ''f.1'' ''one'' None, ToolResult ''f:1'' ''two'' None]\<rparr>]
   = [Function_Call ''read'' ''{}'' ''f_1'', Function_Call_Output ''f_1'' ''one'',
      Function_Call ''bash'' ''{}'' ''f_1'', Function_Call_Output ''f_1'' ''one'']"
  by code_simp

end
