(* ===== verification/Chat_Messages.thy ===== *)
theory Chat_Messages
  imports Transcript
begin

text \<open>
  The messages of the chat-completions protocol: \<open>build_chat_messages\<close> of
  \<open>crates/kcode-provider-openrouter/src/request.rs\<close> and \<open>build_messages\<close> of
  \<open>crates/kcode-provider-copilot/src/lib.rs\<close>. The JSON objects are a datatype with a constructor
  for each \<open>role\<close>; an absent key is \<open>None\<close>, and \<open>tool_calls\<close> is absent when there are none. What
  is counted for the log is left out.
\<close>

section \<open>Messages\<close>

datatype chat_part = Text_Part rstr "cache_control option" | Image_Part rstr

datatype chat_content = Plain rstr | Parts "chat_part list"

record tool_call =
  call_id :: rstr
  call_name :: rstr
  call_args :: rstr
  call_signature :: "rstr option"

datatype chat_message =
  Chat_System rstr
| Chat_User chat_content
| Chat_Assistant "rstr option" "tool_call list" "rstr option"
| Chat_Tool rstr rstr

fun chat_calls :: "chat_message \<Rightarrow> tool_call list" where
  "chat_calls (Chat_Assistant c calls r) = calls"
| "chat_calls m = []"

fun chat_answer :: "chat_message \<Rightarrow> rstr option" where
  "chat_answer (Chat_Tool i out) = Some i"
| "chat_answer m = None"

section \<open>Calls and results\<close>

text \<open>
  What both builders keep while they replay: the ids called, the results that came before
  their call, and the ids whose result is placed.
\<close>

record ledger =
  calls_seen :: "rstr set"
  pending_results :: "(rstr \<times> rstr) list"
  used_results :: "rstr set"

definition no_calls :: ledger where
  "no_calls = \<lparr>calls_seen = {}, pending_results = [], used_results = {}\<rparr>"

text \<open>A result: whether it is placed here.\<close>

definition offer_result :: "rstr \<Rightarrow> rstr \<Rightarrow> ledger \<Rightarrow> bool \<times> ledger" where
  "offer_result i out l =
     (if i \<in> used_results l then (False, l)
      else if i \<in> calls_seen l then (True, l\<lparr>used_results := insert i (used_results l)\<rparr>)
      else if i \<in> fst ` set (pending_results l) then (False, l)
      else (False, l\<lparr>pending_results := pending_results l @ [(i, out)]\<rparr>))"

text \<open>A call: its result is here, will come, or is missing.\<close>

datatype claim = Answer_Here rstr | Answer_Later | Answer_Missing

definition claim_result :: "(rstr \<Rightarrow> bool) \<Rightarrow> rstr \<Rightarrow> ledger \<Rightarrow> claim \<times> ledger" where
  "claim_result future i l =
     (let l1 = l\<lparr>calls_seen := insert i (calls_seen l)\<rparr>
      in case map_of (pending_results l) i of
           Some out \<Rightarrow>
             (Answer_Here out,
              l1\<lparr>pending_results := filter (\<lambda>e. fst e \<noteq> i) (pending_results l),
                 used_results := insert i (used_results l)\<rparr>)
         | None \<Rightarrow>
             if future i then (Answer_Later, l1)
             else (Answer_Missing, l1\<lparr>used_results := insert i (used_results l)\<rparr>))"

record turn =
  turn_text :: rstr
  turn_reasoning :: rstr
  turn_calls :: "tool_call list"
  post_outputs :: "(rstr \<times> rstr) list"
  missing_ids :: "rstr list"

definition empty_turn :: turn where
  "empty_turn = \<lparr>turn_text = [], turn_reasoning = [], turn_calls = [], post_outputs = [], missing_ids = []\<rparr>"

definition add_call ::
  "(rstr \<Rightarrow> bool) \<Rightarrow> rstr \<Rightarrow> tool_call \<Rightarrow> turn \<times> ledger \<Rightarrow> turn \<times> ledger" where
  "add_call future i call acc =
     (let t = (fst acc)\<lparr>turn_calls := turn_calls (fst acc) @ [call]\<rparr>
      in case claim_result future i (snd acc) of
           (Answer_Here out, l) \<Rightarrow> (t\<lparr>post_outputs := post_outputs t @ [(i, out)]\<rparr>, l)
         | (Answer_Later, l) \<Rightarrow> (t, l)
         | (Answer_Missing, l) \<Rightarrow> (t\<lparr>missing_ids := missing_ids t @ [i]\<rparr>, l))"

text \<open>The tool messages behind an assistant's message.\<close>

definition turn_outputs :: "turn \<Rightarrow> chat_message list" where
  "turn_outputs t =
     map (\<lambda>(i, out). Chat_Tool (sanitize_tool_id i) out) (post_outputs t)
     @ map (\<lambda>i. Chat_Tool (sanitize_tool_id i) missing_output) (missing_ids t)"

section \<open>OpenRouter\<close>

fun turn_block ::
  "(json \<Rightarrow> rstr) \<Rightarrow> (rstr \<Rightarrow> bool) \<Rightarrow> content_block \<Rightarrow> turn \<times> ledger \<Rightarrow> turn \<times> ledger" where
  "turn_block show_json future (Text t c) (u, l) = (u\<lparr>turn_text := turn_text u @ t\<rparr>, l)"
| "turn_block show_json future (Reasoning t) (u, l) = (u\<lparr>turn_reasoning := turn_reasoning u @ t\<rparr>, l)"
| "turn_block show_json future (ToolUse i name input sig) (u, l) =
     add_call future i
       \<lparr>call_id = sanitize_tool_id i, call_name = name, call_args = call_arguments show_json input,
        call_signature = sig\<rparr> (u, l)"
| "turn_block show_json future b (u, l) = (u, l)"

definition assistant_message :: "bool \<Rightarrow> bool \<Rightarrow> turn \<Rightarrow> chat_message option" where
  "assistant_message allow_reasoning include_reasoning t =
     (let content = (if turn_text t \<noteq> [] then Some (turn_text t) else None);
          has_reasoning = (turn_reasoning t \<noteq> []);
          reasoning =
            (if allow_reasoning \<and> (include_reasoning \<or> has_reasoning) \<and> (has_reasoning \<or> turn_calls t \<noteq> [])
             then Some (if has_reasoning then turn_reasoning t else '' '') else None)
      in if turn_text t \<noteq> [] \<or> turn_calls t \<noteq> [] then Some (Chat_Assistant content (turn_calls t) reasoning)
         else if reasoning \<noteq> None then Some (Chat_Assistant (Some []) [] reasoning)
         else None)"

definition content_from_parts :: "chat_part list \<Rightarrow> chat_content option" where
  "content_from_parts parts =
     (case parts of
        [] \<Rightarrow> None
      | [Text_Part t None] \<Rightarrow> Some (Plain t)
      | _ \<Rightarrow> Some (Parts parts))"

definition user_chat :: "chat_part list \<Rightarrow> chat_message list" where
  "user_chat parts = (case content_from_parts parts of Some c \<Rightarrow> [Chat_User c] | None \<Rightarrow> [])"

definition image_part :: "bool \<Rightarrow> rstr \<Rightarrow> rstr \<Rightarrow> chat_part" where
  "image_part allow_image m d =
     (if allow_image then Image_Part (''data:'' @ m @ '';base64,'' @ d)
      else Text_Part (''[Image omitted: this provider/model does not support image input; media_type=''
             @ m @ '']'') None)"

record chat_state =
  chat_out :: "chat_message list"
  chat_ledger :: ledger

definition place_result :: "rstr \<Rightarrow> rstr \<Rightarrow> chat_state \<Rightarrow> chat_state" where
  "place_result i out s =
     (case offer_result i out (chat_ledger s) of
        (here, l) \<Rightarrow>
          s\<lparr>chat_out := chat_out s @ (if here then [Chat_Tool (sanitize_tool_id i) out] else []),
            chat_ledger := l\<rparr>)"

definition flush_user :: "chat_part list \<Rightarrow> chat_state \<Rightarrow> chat_state" where
  "flush_user parts s = s\<lparr>chat_out := chat_out s @ user_chat parts\<rparr>"

fun chat_user_block ::
  "bool \<Rightarrow> content_block \<Rightarrow> chat_part list \<times> chat_state \<Rightarrow> chat_part list \<times> chat_state" where
  "chat_user_block allow_image (Text t c) (parts, s) = (parts @ [Text_Part t c], s)"
| "chat_user_block allow_image (Image m d) (parts, s) = (parts @ [image_part allow_image m d], s)"
| "chat_user_block allow_image (ToolResult i c e) (parts, s) =
     ([], place_result i (shown_output c e) (flush_user parts s))"
| "chat_user_block allow_image b (parts, s) = (parts, s)"

record chat_options =
  allow_reasoning :: bool
  include_reasoning :: bool
  allow_image :: bool

definition chat_message_step ::
  "(json \<Rightarrow> rstr) \<Rightarrow> chat_options \<Rightarrow> (nat \<Rightarrow> rstr \<Rightarrow> bool) \<Rightarrow> nat \<times> message \<Rightarrow> chat_state \<Rightarrow> chat_state" where
  "chat_message_step show_json opts future e s =
     (case role_of (snd e) of
        User \<Rightarrow>
          (case fold (chat_user_block (allow_image opts)) (content_of (snd e)) ([], s) of
             (parts, s') \<Rightarrow> flush_user parts s')
      | Assistant \<Rightarrow>
          (case fold (turn_block show_json (future (fst e))) (content_of (snd e)) (empty_turn, chat_ledger s) of
             (t, l) \<Rightarrow>
               \<lparr>chat_out = chat_out s
                  @ (case assistant_message (allow_reasoning opts) (include_reasoning opts) t of
                       Some m \<Rightarrow> m # turn_outputs t | None \<Rightarrow> []),
                chat_ledger = l\<rparr>))"

definition orphan_chat :: "(rstr \<times> rstr) list \<Rightarrow> chat_message list" where
  "orphan_chat pending =
     List.map_filter
       (\<lambda>(i, out). map_option (\<lambda>t. Chat_User (Plain t)) (recovered_output (sanitize_tool_id i) out))
       (sort_key fst pending)"

definition replayed_chat ::
  "(json \<Rightarrow> rstr) \<Rightarrow> chat_options \<Rightarrow> rstr \<Rightarrow> message list \<Rightarrow> chat_message list" where
  "replayed_chat show_json opts system ms =
     (let s = fold (chat_message_step show_json opts (has_future_output ms)) (enumerate 0 ms)
                \<lparr>chat_out = (if system = [] then [] else [Chat_System system]), chat_ledger = no_calls\<rparr>
      in chat_out s @ orphan_chat (pending_results (chat_ledger s)))"

text \<open>From the end: the ids whose output follows, and those each message's calls lack.\<close>

definition need_call :: "tool_call \<Rightarrow> rstr set \<times> rstr list \<Rightarrow> rstr set \<times> rstr list" where
  "need_call call acc =
     (if call_id call \<in> fst acc then acc
      else (insert (call_id call) (fst acc), snd acc @ [call_id call]))"

fun outputs_needed :: "chat_message list \<Rightarrow> rstr set \<times> rstr list list" where
  "outputs_needed [] = ({}, [])"
| "outputs_needed (m # ms) =
     (case outputs_needed ms of
        (after, rest) \<Rightarrow>
          (case m of
             Chat_Tool i out \<Rightarrow> (insert i after, [] # rest)
           | _ \<Rightarrow> (case fold need_call (chat_calls m) (after, []) of (after', need) \<Rightarrow> (after', need # rest))))"

definition fill_reasoning :: "bool \<Rightarrow> chat_message \<Rightarrow> chat_message" where
  "fill_reasoning allow m =
     (case m of
        Chat_Assistant c calls r \<Rightarrow>
          if allow \<and> calls \<noteq> [] \<and> (case r of Some t \<Rightarrow> trim t = [] | None \<Rightarrow> True)
          then Chat_Assistant c calls (Some '' '') else m
      | _ \<Rightarrow> m)"

definition inject_outputs :: "bool \<Rightarrow> chat_message list \<Rightarrow> chat_message list" where
  "inject_outputs allow ms =
     concat (map (\<lambda>(m, need). fill_reasoning allow m # map (\<lambda>i. Chat_Tool i missing_output) need)
       (zip ms (snd (outputs_needed ms))))"

text \<open>The first position of each output, and the calls it does not follow.\<close>

definition first_outputs :: "chat_message list \<Rightarrow> rstr \<Rightarrow> nat option" where
  "first_outputs ms =
     fold (\<lambda>(idx, m) pos. case chat_answer m of
         Some i \<Rightarrow> if pos i = None then pos(i \<mapsto> idx) else pos
       | None \<Rightarrow> pos) (enumerate 0 ms) Map.empty"

definition unanswered_after :: "chat_message list \<Rightarrow> rstr list" where
  "unanswered_after ms =
     remdups (concat (map (\<lambda>(idx, m).
       filter (\<lambda>i. \<not> (case first_outputs ms i of Some pos \<Rightarrow> idx < pos | None \<Rightarrow> False))
         (map call_id (chat_calls m))) (enumerate 0 ms)))"

definition append_outputs :: "(rstr list \<Rightarrow> rstr list) \<Rightarrow> chat_message list \<Rightarrow> chat_message list" where
  "append_outputs iteration ms =
     ms @ map (\<lambda>i. Chat_Tool i missing_output) (iteration (unanswered_after ms))"

text \<open>
  The outputs queued for each id, the missing ones apart. An id without a queued output gets
  the missing one, kept or new: they are the same message.
\<close>

fun queued_output :: "chat_message \<Rightarrow> (rstr \<Rightarrow> rstr list) \<Rightarrow> rstr \<Rightarrow> rstr list" where
  "queued_output (Chat_Tool i out) q = (if out = missing_output then q else q(i := q i @ [out]))"
| "queued_output m q = q"

definition queued_outputs :: "chat_message list \<Rightarrow> rstr \<Rightarrow> rstr list" where
  "queued_outputs ms = fold queued_output ms (\<lambda>i. [])"

fun answer_calls :: "tool_call list \<Rightarrow> (rstr \<Rightarrow> rstr list) \<Rightarrow> chat_message list \<times> (rstr \<Rightarrow> rstr list)" where
  "answer_calls [] q = ([], q)"
| "answer_calls (c # cs) q =
     (let i = call_id c
      in case q i of
           out # outs \<Rightarrow> (case answer_calls cs (q(i := outs)) of (ms, q') \<Rightarrow> (Chat_Tool i out # ms, q'))
         | [] \<Rightarrow> (case answer_calls cs q of (ms, q') \<Rightarrow> (Chat_Tool i missing_output # ms, q')))"

fun arrange :: "(rstr \<Rightarrow> rstr list) \<Rightarrow> chat_message list \<Rightarrow> chat_message list" where
  "arrange q [] = []"
| "arrange q (Chat_Tool i out # ms) = arrange q ms"
| "arrange q (m # ms) =
     (case answer_calls (chat_calls m) q of (outs, q') \<Rightarrow> m # outs @ arrange q' ms)"

definition build_chat_messages ::
  "(rstr list \<Rightarrow> rstr list) \<Rightarrow> (json \<Rightarrow> rstr) \<Rightarrow> chat_options \<Rightarrow> rstr \<Rightarrow> message list \<Rightarrow> chat_message list" where
  "build_chat_messages iteration show_json opts system ms =
     (let api = append_outputs iteration
                  (inject_outputs (allow_reasoning opts) (replayed_chat show_json opts system ms))
      in arrange (queued_outputs api) api)"

section \<open>Copilot\<close>

fun copilot_block ::
  "(json \<Rightarrow> rstr) \<Rightarrow> (rstr \<Rightarrow> bool) \<Rightarrow> content_block \<Rightarrow> turn \<times> ledger \<Rightarrow> turn \<times> ledger" where
  "copilot_block show_json future (Text t c) (u, l) = (u\<lparr>turn_text := turn_text u @ t\<rparr>, l)"
| "copilot_block show_json future (ToolUse i name input sig) (u, l) =
     add_call future i
       \<lparr>call_id = sanitize_tool_id i, call_name = name, call_args = call_arguments show_json input,
        call_signature = None\<rparr> (u, l)"
| "copilot_block show_json future b (u, l) = (u, l)"

definition copilot_output :: "rstr \<Rightarrow> bool option \<Rightarrow> rstr" where
  "copilot_output c is_error =
     (if is_error = Some True then ''[Error] '' @ c
      else if c = [] then TOOL_OUTPUT_MISSING_TEXT else c)"

fun copilot_user_block :: "content_block \<Rightarrow> rstr list \<times> chat_state \<Rightarrow> rstr list \<times> chat_state" where
  "copilot_user_block (Text t c) (texts, s) = (texts @ [t], s)"
| "copilot_user_block (ToolResult i c e) (texts, s) = (texts, place_result i (copilot_output c e) s)"
| "copilot_user_block b (texts, s) = (texts, s)"

definition copilot_message_step ::
  "(json \<Rightarrow> rstr) \<Rightarrow> (nat \<Rightarrow> rstr \<Rightarrow> bool) \<Rightarrow> nat \<times> message \<Rightarrow> chat_state \<Rightarrow> chat_state" where
  "copilot_message_step show_json future e s =
     (case role_of (snd e) of
        User \<Rightarrow>
          (case fold copilot_user_block (content_of (snd e)) ([], s) of
             (texts, s') \<Rightarrow>
               (let t = join [CHR 0x0A] texts
                in if t = [] then s' else s'\<lparr>chat_out := chat_out s' @ [Chat_User (Plain t)]\<rparr>))
      | Assistant \<Rightarrow>
          (case fold (copilot_block show_json (future (fst e))) (content_of (snd e)) (empty_turn, chat_ledger s) of
             (t, l) \<Rightarrow>
               \<lparr>chat_out = chat_out s
                  @ (if turn_text t \<noteq> [] \<or> turn_calls t \<noteq> []
                     then Chat_Assistant (if turn_text t \<noteq> [] then Some (turn_text t) else None) (turn_calls t) None
                       # turn_outputs t
                     else []),
                chat_ledger = l\<rparr>))"

definition build_messages :: "(json \<Rightarrow> rstr) \<Rightarrow> rstr \<Rightarrow> message list \<Rightarrow> chat_message list" where
  "build_messages show_json system ms =
     chat_out (fold (copilot_message_step show_json (has_future_output ms)) (enumerate 0 ms)
       \<lparr>chat_out = (if system = [] then [] else [Chat_System system]), chat_ledger = no_calls\<rparr>)"

end
