(* ===== verification/Chat_Properties.thy ===== *)
theory Chat_Properties
  imports Chat_Messages "HOL-Library.Multiset"
begin

text \<open>
  What the chat-completions builders send: OpenRouter's answers every call where it is made and,
  when no id is used twice, is the translation of the conversation; Copilot's answers every
  call, but not always at once.
\<close>

section \<open>The repairs do not matter\<close>

text \<open>
  The final pass reads the other messages and the outputs that are not the missing one; the
  two passes before it only add the missing one.
\<close>

definition call_ids :: "chat_message \<Rightarrow> rstr list" where
  "call_ids m = map call_id (chat_calls m)"

lemma call_ids_simps [simp]:
  "call_ids (Chat_Assistant c calls r) = map call_id calls" "call_ids (Chat_System t) = []"
  "call_ids (Chat_User u) = []" "call_ids (Chat_Tool i out) = []"
  by (simp_all add: call_ids_def)

definition untold :: "chat_message list \<Rightarrow> chat_message list" where
  "untold ms = filter (\<lambda>m. chat_answer m = None) ms"

lemma untold_simps [simp]:
  "untold [] = []" "untold (as @ bs) = untold as @ untold bs"
  "untold (m # ms) = (if chat_answer m = None then m # untold ms else untold ms)"
  by (simp_all add: untold_def)

lemma untold_tools [simp]: "untold (map (\<lambda>x. Chat_Tool (f x) (g x)) xs) = []"
  by (induction xs) simp_all

lemma arrange_untold: "arrange q ms = arrange q (untold ms)"
  by (induction q ms rule: arrange.induct) (simp_all split: prod.split)

lemma fill_answer [simp]: "chat_answer (fill_reasoning allow m) = chat_answer m"
  by (simp add: fill_reasoning_def split: chat_message.split)

lemma fill_calls [simp]: "chat_calls (fill_reasoning allow m) = chat_calls m"
  by (simp add: fill_reasoning_def split: chat_message.split)

lemma fill_ids [simp]: "call_ids (fill_reasoning allow m) = call_ids m"
  by (simp add: call_ids_def)

lemma needed_length: "length (snd (outputs_needed ms)) = length ms"
  by (induction ms) (auto split: prod.split chat_message.split)

lemma queue_missing:
  "fold queued_output (map (\<lambda>i. Chat_Tool i missing_output) is) q = q"
  by (induction "is" arbitrary: q) simp_all

lemma queue_fill: "queued_output (fill_reasoning allow m) q = queued_output m q"
  by (simp add: fill_reasoning_def split: chat_message.split)

lemma injected:
  assumes "length needs = length ms"
  shows "fold queued_output (concat (map (\<lambda>(m, need). fill_reasoning allow m # map (\<lambda>i. Chat_Tool i missing_output) need)
      (zip ms needs))) q = fold queued_output ms q"
    and "untold (concat (map (\<lambda>(m, need). fill_reasoning allow m # map (\<lambda>i. Chat_Tool i missing_output) need)
      (zip ms needs))) = map (fill_reasoning allow) (untold ms)"
  using assms by (induction ms needs arbitrary: q rule: list_induct2') (simp_all add: queue_fill queue_missing)

lemma build_arranged:
  "build_chat_messages iteration show_json opts system ms =
     (let api = replayed_chat show_json opts system ms
      in arrange (queued_outputs api) (map (fill_reasoning (allow_reasoning opts)) (untold api)))"
proof -
  let ?api = "replayed_chat show_json opts system ms" and ?allow = "allow_reasoning opts"
  let ?all = "append_outputs iteration (inject_outputs ?allow ?api)"
  have "queued_outputs ?all = queued_outputs ?api"
    by (simp add: queued_outputs_def append_outputs_def inject_outputs_def injected(1) [OF needed_length] queue_missing)
  moreover have "untold ?all = map (fill_reasoning ?allow) (untold ?api)"
    by (simp add: append_outputs_def inject_outputs_def injected(2) [OF needed_length])
  ultimately show ?thesis
    by (simp add: build_chat_messages_def Let_def arrange_untold [of _ ?all])
qed

section \<open>Every call is answered at once\<close>

lemma answer_calls_answered:
  "answer_calls cs q = (outs, q') \<Longrightarrow>
   answered call_ids chat_answer (map call_id cs) (outs @ ms) = answered call_ids chat_answer [] ms
   \<and> concat (map call_ids outs) = [] \<and> (\<forall>x \<in> set outs. \<exists>i out. x = Chat_Tool i out)"
  by (induction cs arbitrary: q outs q') (fastforce simp: Let_def split: list.splits prod.splits)+

lemma arrange_shape:
  "answered call_ids chat_answer [] (arrange q ms) \<and> concat (map call_ids (arrange q ms)) = concat (map call_ids ms)"
  using answer_calls_answered
  by (induction q ms rule: arrange.induct) (auto split: prod.split)

text \<open>What a turn calls.\<close>

definition block_ids :: "content_block list \<Rightarrow> rstr list" where
  "block_ids bs = List.map_filter block_call bs"

lemma block_ids_simps [simp]:
  "block_ids [] = []"
  "block_ids (b # bs) = (case block_call b of Some i \<Rightarrow> i # block_ids bs | None \<Rightarrow> block_ids bs)"
  by (simp_all add: block_ids_def List.map_filter_simps split: option.split)

definition turn_ids :: "turn \<Rightarrow> rstr list" where
  "turn_ids t = map call_id (turn_calls t)"

lemma empty_turn_ids [simp]: "turn_ids empty_turn = []"
  by (simp add: turn_ids_def empty_turn_def)

lemma add_call_turn:
  "turn_calls (fst (add_call future i call acc)) = turn_calls (fst acc) @ [call]"
  "turn_text (fst (add_call future i call acc)) = turn_text (fst acc)"
  "turn_reasoning (fst (add_call future i call acc)) = turn_reasoning (fst acc)"
  by (simp_all add: add_call_def Let_def split: prod.split claim.split)

text \<open>
  What both builders do with the blocks of a turn: a call is added, another block adds neither
  calls nor outputs.
\<close>

locale turn_builder =
  fixes block :: "(rstr \<Rightarrow> bool) \<Rightarrow> content_block \<Rightarrow> turn \<times> ledger \<Rightarrow> turn \<times> ledger"
  assumes call_added:
      "block_call b = Some i \<Longrightarrow>
       \<exists>c. call_id c = sanitize_tool_id i \<and> block future b acc = add_call future i c acc"
    and others_ignored:
      "block_call b = None \<Longrightarrow>
       snd (block future b acc) = snd acc \<and> turn_outputs (fst (block future b acc)) = turn_outputs (fst acc)
       \<and> turn_calls (fst (block future b acc)) = turn_calls (fst acc)"
begin

lemma turn_block_ids:
  "turn_ids (fst (block future b acc)) = turn_ids (fst acc) @ map sanitize_tool_id (block_ids [b])"
  using call_added [of b _ future acc] others_ignored [of b future acc]
  by (cases "block_call b") (auto simp: turn_ids_def add_call_turn)

lemma turn_blocks_ids:
  "turn_ids (fst (fold (block future) bs acc)) = turn_ids (fst acc) @ map sanitize_tool_id (block_ids bs)"
  by (induction bs arbitrary: acc) (simp_all add: turn_block_ids split: option.split)

lemma no_calls_no_outputs:
  assumes "fold (block future) bs acc = (t', l')" and "turn_calls t' = []"
  shows "turn_outputs t' = turn_outputs (fst acc)"
proof -
  have "block_ids bs = []" using turn_blocks_ids [of future bs acc] assms by (simp add: turn_ids_def)
  then show ?thesis
    using assms(1)
  proof (induction bs arbitrary: acc)
    case (Cons b bs)
    then have "block_call b = None" by (auto split: option.splits)
    then show ?case using Cons others_ignored [of b future acc] by simp
  qed simp
qed

end

interpretation openrouter: turn_builder "turn_block show_json"
proof
  fix b i future acc
  show "block_call b = Some i \<Longrightarrow>
      \<exists>c. call_id c = sanitize_tool_id i \<and> turn_block show_json future b acc = add_call future i c acc"
    by (cases acc; cases b) (auto intro: exI [of _ "\<lparr>call_id = _, call_name = _, call_args = _, call_signature = _\<rparr>"])
  show "block_call b = None \<Longrightarrow>
      snd (turn_block show_json future b acc) = snd acc
      \<and> turn_outputs (fst (turn_block show_json future b acc)) = turn_outputs (fst acc)
      \<and> turn_calls (fst (turn_block show_json future b acc)) = turn_calls (fst acc)"
    by (cases acc; cases b) (simp_all add: turn_outputs_def)
qed

interpretation copilot: turn_builder "copilot_block show_json"
proof
  fix b i future acc
  show "block_call b = Some i \<Longrightarrow>
      \<exists>c. call_id c = sanitize_tool_id i \<and> copilot_block show_json future b acc = add_call future i c acc"
    by (cases acc; cases b) (auto intro: exI [of _ "\<lparr>call_id = _, call_name = _, call_args = _, call_signature = _\<rparr>"])
  show "block_call b = None \<Longrightarrow>
      snd (copilot_block show_json future b acc) = snd acc
      \<and> turn_outputs (fst (copilot_block show_json future b acc)) = turn_outputs (fst acc)
      \<and> turn_calls (fst (copilot_block show_json future b acc)) = turn_calls (fst acc)"
    by (cases acc; cases b) (simp_all add: turn_outputs_def)
qed

lemma assistant_message_calls:
  "concat (map call_ids (case assistant_message a n t of Some m \<Rightarrow> m # turn_outputs t | None \<Rightarrow> [])) = turn_ids t"
proof -
  have "concat (map call_ids (turn_outputs t)) = []" by (auto simp: turn_outputs_def)
  then show ?thesis
    by (auto simp: assistant_message_def Let_def turn_ids_def)
qed

lemma user_chat_ids [simp]: "concat (map call_ids (user_chat parts)) = []"
  by (auto simp: user_chat_def split: option.split)

lemma place_ids [simp]:
  "concat (map call_ids (chat_out (place_result i out s))) = concat (map call_ids (chat_out s))"
  by (auto simp: place_result_def split: prod.split)

lemma flush_user_out [simp]:
  "chat_out (flush_user parts s) = chat_out s @ user_chat parts" "chat_ledger (flush_user parts s) = chat_ledger s"
  by (simp_all add: flush_user_def)

lemma user_blocks_ids:
  "concat (map call_ids (chat_out (snd (fold (chat_user_block allow) bs acc)))) = concat (map call_ids (chat_out (snd acc)))"
proof (induction bs arbitrary: acc)
  case (Cons b bs)
  have "concat (map call_ids (chat_out (snd (chat_user_block allow b acc)))) = concat (map call_ids (chat_out (snd acc)))"
    by (cases acc; cases b) simp_all
  then show ?case by (simp add: Cons.IH)
qed simp

lemma message_step_ids:
  "concat (map call_ids (chat_out (chat_message_step show_json opts future (n, m) s))) =
     concat (map call_ids (chat_out s)) @ map sanitize_tool_id (message_calls m)"
proof (cases "role_of m")
  case User
  then show ?thesis
    using user_blocks_ids [of "allow_image opts" "content_of m" "([], s)"]
    by (cases "fold (chat_user_block (allow_image opts)) (content_of m) ([], s)")
      (simp add: chat_message_step_def message_calls_def)
next
  case Assistant
  then show ?thesis
    using openrouter.turn_blocks_ids [of show_json "future n" "content_of m" "(empty_turn, chat_ledger s)"]
    by (cases "fold (turn_block show_json (future n)) (content_of m) (empty_turn, chat_ledger s)")
      (simp add: chat_message_step_def message_calls_def assistant_message_calls block_ids_def)
qed

lemma chat_steps_ids:
  "concat (map call_ids (chat_out (fold (chat_message_step show_json opts future) (enumerate n ms) s))) =
     concat (map call_ids (chat_out s)) @ map sanitize_tool_id (conversation_calls ms)"
  by (induction ms arbitrary: n s) (simp_all add: message_step_ids conversation_calls_def)

lemma orphan_chat_plain: "m \<in> set (orphan_chat pending) \<Longrightarrow> \<exists>t. m = Chat_User (Plain t)"
  by (auto simp: orphan_chat_def List.map_filter_def)

lemma plain_messages: "(\<forall>m \<in> set ms. \<exists>t. m = Chat_User (Plain t)) \<Longrightarrow> concat (map call_ids ms) = [] \<and> untold ms = ms"
  by (induction ms) auto

lemma untold_ids: "concat (map call_ids (untold ms)) = concat (map call_ids ms)"
proof (induction ms)
  case (Cons m ms)
  then show ?case by (cases m) simp_all
qed simp

text \<open>
  C20: A chat request never leaves a call open and never answers what was not asked: it makes
  exactly the calls of the conversation, in order, and behind each message that makes calls
  stand their outputs, one for each in the order of the calls.
\<close>

theorem chats_answer_their_calls:
  "answered call_ids chat_answer [] (build_chat_messages iteration show_json opts system ms)
   \<and> concat (map call_ids (build_chat_messages iteration show_json opts system ms))
     = map sanitize_tool_id (conversation_calls ms)"
proof -
  let ?api = "replayed_chat show_json opts system ms"
  have "concat (map call_ids (orphan_chat pending)) = []" for pending
    using orphan_chat_plain plain_messages by blast
  then have "concat (map call_ids ?api) = map sanitize_tool_id (conversation_calls ms)"
    by (simp add: replayed_chat_def Let_def chat_steps_ids)
  moreover have "map call_ids (map (fill_reasoning a) xs) = map call_ids xs" for a xs by simp
  ultimately show ?thesis
    using arrange_shape untold_ids by (simp only: build_arranged Let_def)
qed

section \<open>No message is empty\<close>

text \<open>An assistant's message a strict provider takes.\<close>

definition chat_valid :: "bool \<Rightarrow> chat_message \<Rightarrow> bool" where
  "chat_valid allow m =
     (case m of
        Chat_Assistant c calls r \<Rightarrow>
          (c \<noteq> None \<or> calls \<noteq> []) \<and> (r \<noteq> None \<longrightarrow> allow) \<and> r \<noteq> Some []
          \<and> (allow \<and> calls \<noteq> [] \<longrightarrow> r \<noteq> None)
      | _ \<Rightarrow> True)"

text \<open>Before its reasoning is filled in.\<close>

definition chat_sound :: "bool \<Rightarrow> chat_message \<Rightarrow> bool" where
  "chat_sound allow m =
     (case m of
        Chat_Assistant c calls r \<Rightarrow> (c \<noteq> None \<or> calls \<noteq> []) \<and> (r \<noteq> None \<longrightarrow> allow) \<and> r \<noteq> Some []
      | _ \<Rightarrow> True)"

lemma chat_sound_simps [simp]:
  "chat_sound allow (Chat_User u)" "chat_sound allow (Chat_Tool i out)" "chat_sound allow (Chat_System t)"
  by (simp_all add: chat_sound_def)

lemma fill_valid: "chat_sound allow m \<Longrightarrow> chat_valid allow (fill_reasoning allow m)"
  by (auto simp: chat_sound_def chat_valid_def fill_reasoning_def split: chat_message.splits option.splits)

lemma assistant_message_sound: "assistant_message allow n t = Some m \<Longrightarrow> chat_sound allow m"
  by (auto simp: assistant_message_def chat_sound_def Let_def split: if_splits)

lemma turn_outputs_sound: "m \<in> set (turn_outputs t) \<Longrightarrow> chat_sound allow m"
  by (auto simp: turn_outputs_def)

lemma user_chat_sound: "m \<in> set (user_chat parts) \<Longrightarrow> chat_sound allow m"
  by (auto simp: user_chat_def split: option.splits)

lemma user_blocks_sound:
  "list_all (chat_sound a) (chat_out (snd acc)) \<Longrightarrow>
   list_all (chat_sound a) (chat_out (snd (fold (chat_user_block allow) bs acc)))"
proof (induction bs arbitrary: acc)
  case (Cons b bs)
  have "list_all (chat_sound a) (chat_out (snd (chat_user_block allow b acc)))"
    using Cons.prems by (cases acc; cases b)
      (auto simp: place_result_def list_all_iff user_chat_sound split: prod.split)
  then show ?case by (simp add: Cons.IH)
qed simp

lemma message_step_sound:
  assumes "list_all (chat_sound (allow_reasoning opts)) (chat_out s)"
  shows "list_all (chat_sound (allow_reasoning opts)) (chat_out (chat_message_step show_json opts future e s))"
proof (cases "role_of (snd e)")
  case User
  obtain parts s' where s': "fold (chat_user_block (allow_image opts)) (content_of (snd e)) ([], s) = (parts, s')"
    by force
  then show ?thesis
    using user_blocks_sound [of _ "([], s)"] assms
    by (simp add: chat_message_step_def User list_all_iff ball_Un) (metis snd_conv user_chat_sound)
next
  case Assistant
  then show ?thesis
    using assms assistant_message_sound turn_outputs_sound
    by (auto simp: chat_message_step_def list_all_iff split: prod.split option.split)
qed

lemma steps_sound:
  "list_all (chat_sound (allow_reasoning opts)) (chat_out s) \<Longrightarrow>
   list_all (chat_sound (allow_reasoning opts)) (chat_out (fold (chat_message_step show_json opts future) es s))"
  by (induction es arbitrary: s) (simp_all add: message_step_sound)

lemma answers_valid:
  assumes "answer_calls cs q = (outs, q')"
  shows "list_all (chat_valid allow) outs"
proof -
  have "\<exists>i out. x = Chat_Tool i out" if "x \<in> set outs" for x
    using answer_calls_answered [OF assms] that by blast
  then show ?thesis
    by (fastforce simp: chat_valid_def list_all_iff)
qed

lemma arrange_valid: "list_all (chat_valid allow) ms \<Longrightarrow> list_all (chat_valid allow) (arrange q ms)"
  by (induction q ms rule: arrange.induct) (simp_all add: answers_valid split: prod.split)

text \<open>
  No assistant's message is sent empty: each has a text or calls; and where a provider
  takes reasoning, each with calls carries some, which is never the empty string, and where it
  does not, none does.
\<close>

theorem chat_assistants_are_valid:
  "list_all (chat_valid (allow_reasoning opts)) (build_chat_messages iteration show_json opts system ms)"
proof -
  let ?api = "replayed_chat show_json opts system ms"
  have "list_all (chat_sound (allow_reasoning opts)) ?api"
    using steps_sound [of opts "\<lparr>chat_out = (if system = [] then [] else [Chat_System system]), chat_ledger = no_calls\<rparr>"]
      orphan_chat_plain
    by (fastforce simp: replayed_chat_def Let_def list_all_iff)
  then have "list_all (chat_valid (allow_reasoning opts)) (map (fill_reasoning (allow_reasoning opts)) (untold ?api))"
    by (auto simp: list_all_iff fill_valid untold_def)
  then show ?thesis by (simp add: build_arranged Let_def arrange_valid)
qed

section \<open>No id twice\<close>

text \<open>The outputs placed so far, in the order they stand.\<close>

definition told :: "chat_message list \<Rightarrow> (rstr \<times> rstr) list" where
  "told ms = List.map_filter (\<lambda>m. case m of Chat_Tool i out \<Rightarrow> Some (i, out) | _ \<Rightarrow> None) ms"

lemma told_simps [simp]:
  "told [] = []" "told (Chat_Tool i out # ms) = (i, out) # told ms"
  "chat_answer m = None \<Longrightarrow> told (m # ms) = told ms"
  by (cases m; simp add: told_def List.map_filter_simps)+

lemma told_append [simp]: "told (as @ bs) = told as @ told bs"
proof (induction as)
  case (Cons m as)
  then show ?case by (cases m) simp_all
qed simp

text \<open>The ledger after the calls \<open>C\<close> and the results \<open>R\<close> of a conversation whose results are \<open>T\<close>.\<close>

definition tallied :: "(rstr \<times> rstr) list \<Rightarrow> rstr list \<Rightarrow> (rstr \<times> rstr) list \<Rightarrow> ledger \<Rightarrow> bool" where
  "tallied T C R l =
     (pending_results l = early C R \<and> calls_seen l = set C \<and> used_results l = settled T C R)"

text \<open>Outputs \<open>xs\<close> that are those of the calls in \<open>S\<close>, one for each.\<close>

definition tells :: "(rstr \<times> rstr) list \<Rightarrow> (rstr \<times> rstr) list \<Rightarrow> rstr set \<Rightarrow> bool" where
  "tells T xs S = (finite S \<and> mset xs = image_mset (\<lambda>i. (sanitize_tool_id i, answer_in T i)) (mset_set S))"

lemma tells_Nil [simp]: "tells T [] S = (S = {})"
  by (auto simp: tells_def mset_set_empty_iff)

lemma tells_one [simp]: "i \<notin> S \<Longrightarrow> tells T [(sanitize_tool_id i, answer_in T i)] (insert i S - S)"
proof -
  assume "i \<notin> S"
  then have "insert i S - S = {i}" by auto
  then show ?thesis by (simp add: tells_def)
qed

lemma tells_append: "tells T xs S \<Longrightarrow> tells T ys U \<Longrightarrow> S \<inter> U = {} \<Longrightarrow> tells T (xs @ ys) (S \<union> U)"
  by (simp add: tells_def mset_set_Union)

lemma tells_cong: "tells T xs S \<Longrightarrow> mset xs = mset ys \<Longrightarrow> tells T ys S"
  by (simp add: tells_def)

text \<open>Outputs of two stretches, the settled ids growing from \<open>S\<close> to \<open>U\<close> to \<open>V\<close>.\<close>

lemma tells_grow:
  assumes "tells T xs (U - S)" and "tells T ys (V - U)" and "S \<subseteq> U" and "U \<subseteq> V"
  shows "tells T (xs @ ys) (V - S)"
proof -
  have "V - S = (U - S) \<union> (V - U)" using assms(3,4) by auto
  then show ?thesis using tells_append [OF assms(1,2)] by auto
qed

lemma tallied_result:
  assumes "tallied T C R l" and "T = R @ (i, out) # rest" and "distinct (map fst T)"
    and "offer_result i out l = (here, l')"
  shows "tallied T C (R @ [(i, out)]) l'"
    and "tells T (if here then [(sanitize_tool_id i, out)] else []) (used_results l' - used_results l)"
    and "used_results l \<subseteq> used_results l'"
proof -
  note step = settled_result [OF assms(2,3), of C]
  have "answer_in T i = out" using assms(2,3) by (intro answer_there) simp_all
  moreover have "i \<notin> fst ` set (early C R)" using assms(2,3) by (auto simp: early_def)
  ultimately show "tallied T C (R @ [(i, out)]) l'" "used_results l \<subseteq> used_results l'"
    "tells T (if here then [(sanitize_tool_id i, out)] else []) (used_results l' - used_results l)"
    using assms(1,4) step by (auto simp: tallied_def offer_result_def early_result split: if_splits)
qed

lemma tallied_call:
  assumes "tallied T C R l" and "T = R @ rest" and "distinct (map fst T)" and "i \<notin> set C"
    and "future i \<longleftrightarrow> i \<in> fst ` set rest" and "claim_result future i l = (claim, l')"
  shows "tallied T (C @ [i]) R l'"
    and "tells T (case claim of
         Answer_Here out \<Rightarrow> [(sanitize_tool_id i, out)]
       | Answer_Later \<Rightarrow> []
       | Answer_Missing \<Rightarrow> [(sanitize_tool_id i, missing_output)]) (used_results l' - used_results l)"
    and "used_results l \<subseteq> used_results l'"
proof -
  note step = settled_call [OF assms(2-4)]
  have "tallied T (C @ [i]) R l' \<and> used_results l \<subseteq> used_results l' \<and>
    tells T (case claim of
         Answer_Here out \<Rightarrow> [(sanitize_tool_id i, out)]
       | Answer_Later \<Rightarrow> []
       | Answer_Missing \<Rightarrow> [(sanitize_tool_id i, missing_output)]) (used_results l' - used_results l)"
  proof (cases "map_of (early C R) i")
    case (Some out)
    have "answer_in T i = out" "i \<notin> fst ` set rest"
      using early_some [OF Some] assms(2,3) by auto
    then show ?thesis
      using assms(1,6) Some step by (auto simp: tallied_def claim_result_def Let_def early_call)
  next
    case None
    show ?thesis
    proof (cases "i \<in> fst ` set rest")
      case True
      have "early (C @ [i]) R = early C R"
        using None unfolding early_call map_of_eq_None_iff by (auto intro!: filter_True)
      then show ?thesis
        using True assms(1,5,6) None step by (auto simp: tallied_def claim_result_def Let_def)
    next
      case False
      note missing = early_none [OF None assms(4) False]
      then have "tells T [(sanitize_tool_id i, missing_output)] (insert i (settled T C R) - settled T C R)"
        using tells_one [OF step(1), of T] assms(2) by simp
      then show ?thesis
        using False assms(1,5,6) None step missing(1)
        by (auto simp: tallied_def claim_result_def Let_def)
    qed
  qed
  then show "tallied T (C @ [i]) R l'" "used_results l \<subseteq> used_results l'"
    "tells T (case claim of
         Answer_Here out \<Rightarrow> [(sanitize_tool_id i, out)]
       | Answer_Later \<Rightarrow> []
       | Answer_Missing \<Rightarrow> [(sanitize_tool_id i, missing_output)]) (used_results l' - used_results l)"
    by blast+
qed

lemma told_tools: "told (map (\<lambda>x. Chat_Tool (f x) (g x)) xs) = map (\<lambda>x. (f x, g x)) xs"
  by (induction xs) simp_all

lemma told_turn:
  "told (turn_outputs t) = map (\<lambda>(i, out). (sanitize_tool_id i, out)) (post_outputs t)
     @ map (\<lambda>i. (sanitize_tool_id i, missing_output)) (missing_ids t)"
  by (simp add: turn_outputs_def split_def told_tools)

lemma add_call_tally:
  assumes "tallied T C R (snd acc)" and "T = R @ rest" and "distinct (map fst T)" and "i \<notin> set C"
    and "future i \<longleftrightarrow> i \<in> fst ` set rest" and "add_call future i c acc = (t', l')"
  shows "tallied T (C @ [i]) R l' \<and> used_results (snd acc) \<subseteq> used_results l'
    \<and> (\<exists>xs. mset (told (turn_outputs t')) = mset (told (turn_outputs (fst acc))) + mset xs
          \<and> tells T xs (used_results l' - used_results (snd acc)))"
proof -
  obtain claim l2 where claim: "claim_result future i (snd acc) = (claim, l2)" by force
  note call = tallied_call [OF assms(1-5) claim]
  have "l' = l2" using assms(6) claim by (auto simp: add_call_def Let_def split: claim.splits)
  moreover have "mset (told (turn_outputs t')) = mset (told (turn_outputs (fst acc)))
      + mset (case claim of Answer_Here out \<Rightarrow> [(sanitize_tool_id i, out)] | Answer_Later \<Rightarrow> []
          | Answer_Missing \<Rightarrow> [(sanitize_tool_id i, missing_output)])"
    using assms(6) claim by (auto simp: add_call_def Let_def told_turn split: claim.splits)
  ultimately show ?thesis using call by blast
qed

lemma tells_grow_mset:
  assumes "mset b = mset a + mset xs" and "tells T xs (U - S)" and "S \<subseteq> U"
    and "mset c = mset b + mset ys" and "tells T ys (V - U)" and "U \<subseteq> V"
  shows "\<exists>zs. mset c = mset a + mset zs \<and> tells T zs (V - S)"
  using assms tells_grow [OF assms(2,5,3,6)] by (intro exI [of _ "xs @ ys"]) simp

context turn_builder
begin

lemma turn_blocks_tally:
  assumes "T = R @ rest" and "distinct (map fst T)" and "\<And>i. future i \<longleftrightarrow> i \<in> fst ` set rest"
  shows "tallied T C R (snd acc) \<Longrightarrow> distinct (C @ block_ids bs) \<Longrightarrow> fold (block future) bs acc = (t', l') \<Longrightarrow>
    tallied T (C @ block_ids bs) R l' \<and> used_results (snd acc) \<subseteq> used_results l'
    \<and> (\<exists>xs. mset (told (turn_outputs t')) = mset (told (turn_outputs (fst acc))) + mset xs
          \<and> tells T xs (used_results l' - used_results (snd acc)))"
proof (induction bs arbitrary: C acc)
  case Nil
  then show ?case by (auto intro: exI [of _ "[]"])
next
  case (Cons b bs)
  obtain t1 l1 where one: "block future b acc = (t1, l1)" by force
  show ?case
  proof (cases "block_call b")
    case None
    then show ?thesis
      using others_ignored [OF None, of future acc] one Cons.prems Cons.IH [of C "(t1, l1)"] by simp
  next
    case (Some i)
    obtain c where "add_call future i c acc = (t1, l1)" using call_added [OF Some, of future acc] one by auto
    then have first: "tallied T (C @ [i]) R l1 \<and> used_results (snd acc) \<subseteq> used_results l1
        \<and> (\<exists>xs. mset (told (turn_outputs t1)) = mset (told (turn_outputs (fst acc))) + mset xs
              \<and> tells T xs (used_results l1 - used_results (snd acc)))"
      using Cons.prems(1,2) Some assms by (intro add_call_tally) auto
    have "tallied T ((C @ [i]) @ block_ids bs) R l' \<and> used_results l1 \<subseteq> used_results l'
        \<and> (\<exists>xs. mset (told (turn_outputs t')) = mset (told (turn_outputs t1)) + mset xs
              \<and> tells T xs (used_results l' - used_results l1))"
      using Cons.IH [of "C @ [i]" "(t1, l1)"] Cons.prems(2,3) first one Some by simp
    then show ?thesis using first Some tells_grow_mset by (auto intro: order_trans)
  qed
qed

end

text \<open>
  A conversation replayed up to the calls \<open>C\<close> and the results \<open>R\<close>: the ledger, and the outputs
  placed, one for each settled call.
\<close>

definition replayed :: "(rstr \<times> rstr) list \<Rightarrow> rstr list \<Rightarrow> (rstr \<times> rstr) list \<Rightarrow> chat_state \<Rightarrow> bool" where
  "replayed T C R s = (tallied T C R (chat_ledger s) \<and> tells T (told (chat_out s)) (settled T C R))"

lemma replayed_push: "replayed T C R s \<Longrightarrow> told ms = [] \<Longrightarrow> replayed T C R (s\<lparr>chat_out := chat_out s @ ms\<rparr>)"
  by (simp add: replayed_def)

lemma tallied_used: "tallied T C R l \<Longrightarrow> used_results l = settled T C R"
  by (simp add: tallied_def)

lemma replayed_place:
  assumes "replayed T C R s" and "T = R @ (i, out) # rest" and "distinct (map fst T)"
  shows "replayed T C (R @ [(i, out)]) (place_result i out s)"
proof -
  obtain here l' where offer: "offer_result i out (chat_ledger s) = (here, l')" by force
  have l: "tallied T C R (chat_ledger s)" "tells T (told (chat_out s)) (settled T C R)"
    using assms(1) by (auto simp: replayed_def)
  note step = tallied_result [OF l(1) assms(2,3) offer]
  have "told (chat_out (place_result i out s))
      = told (chat_out s) @ (if here then [(sanitize_tool_id i, out)] else [])"
    by (simp add: place_result_def offer)
  moreover have "tells T (told (chat_out s) @ (if here then [(sanitize_tool_id i, out)] else []))
      (used_results l' - {})"
    using l(2) step(2,3) tallied_used [OF l(1)] by (intro tells_grow) auto
  ultimately show ?thesis
    using step(1) tallied_used [OF step(1)] by (simp add: replayed_def place_result_def offer)
qed

lemma told_user_chat [simp]: "told (user_chat parts) = []"
  by (auto simp: user_chat_def split: option.split)

lemma replayed_user_blocks:
  assumes "distinct (map fst T)"
  shows "replayed T C R s \<Longrightarrow> T = R @ List.map_filter block_result bs @ rest \<Longrightarrow>
    fold (chat_user_block allow) bs (parts, s) = (parts', s') \<Longrightarrow>
    replayed T C (R @ List.map_filter block_result bs) (flush_user parts' s')"
proof (induction bs arbitrary: R s parts)
  case Nil
  then show ?case by (simp add: List.map_filter_simps flush_user_def replayed_push)
next
  case (Cons b bs)
  show ?case
  proof (cases b)
    case (ToolResult i c e)
    let ?s = "place_result i (shown_output c e) (flush_user parts s)"
    have "replayed T C (R @ [(i, shown_output c e)]) ?s"
      using Cons.prems(1,2) ToolResult assms replayed_push [of T C R s "user_chat parts"]
      by (intro replayed_place) (auto simp: List.map_filter_simps flush_user_def)
    then show ?thesis
      using Cons.IH [of "R @ [(i, shown_output c e)]" ?s "[]"] Cons.prems ToolResult
      by (simp add: List.map_filter_simps)
  qed (use Cons in \<open>simp_all add: List.map_filter_simps\<close>)
qed

text \<open>A turn, whatever message stands before its outputs.\<close>

context turn_builder
begin

lemma replayed_turn:
  assumes "replayed T C R s" and "T = R @ rest" and "distinct (map fst T)"
    and "\<And>i. future i \<longleftrightarrow> i \<in> fst ` set rest" and "distinct (C @ block_ids bs)"
    and "fold (block future) bs (empty_turn, chat_ledger s) = (t, l)"
    and "told ms = told (turn_outputs t)"
  shows "replayed T (C @ block_ids bs) R \<lparr>chat_out = chat_out s @ ms, chat_ledger = l\<rparr>"
proof -
  have s: "tallied T C R (chat_ledger s)" "tells T (told (chat_out s)) (settled T C R)"
    using assms(1) by (auto simp: replayed_def)
  have turn: "tallied T (C @ block_ids bs) R l" "used_results (chat_ledger s) \<subseteq> used_results l"
    and "\<exists>xs. mset (told (turn_outputs t)) = mset xs \<and> tells T xs (used_results l - used_results (chat_ledger s))"
    using turn_blocks_tally [OF assms(2,3,4), of C "(empty_turn, chat_ledger s)" bs t l] s(1) assms(5,6)
    by (auto simp: empty_turn_def turn_outputs_def)
  then have "tells T (told ms) (used_results l - used_results (chat_ledger s))"
    using assms(7) tells_cong by metis
  then have "tells T (told (chat_out s) @ told ms) (used_results l - {})"
    using s turn(2) tallied_used [OF s(1)] by (intro tells_grow) auto
  then show ?thesis using turn(1) tallied_used [OF turn(1)] by (simp add: replayed_def)
qed

end

lemma message_calls_ids: "message_calls m = (case role_of m of Assistant \<Rightarrow> block_ids (content_of m) | User \<Rightarrow> [])"
  by (simp add: message_calls_def block_ids_def split: role.split)

lemma assistant_message_told:
  assumes "fold (turn_block show_json future) bs (empty_turn, l) = (t, l')"
  shows "told (case assistant_message a n t of Some m \<Rightarrow> m # turn_outputs t | None \<Rightarrow> []) = told (turn_outputs t)"
proof (cases "assistant_message a n t")
  case None
  then have "turn_calls t = []" by (auto simp: assistant_message_def Let_def split: if_splits)
  then have "turn_outputs t = []"
    using openrouter.no_calls_no_outputs [OF assms] by (simp add: empty_turn_def turn_outputs_def)
  then show ?thesis using None by simp
next
  case (Some m)
  then have "chat_answer m = None" by (auto simp: assistant_message_def Let_def split: if_splits)
  then show ?thesis using Some by simp
qed

lemma replayed_messages:
  assumes "distinct (map fst (conversation_results (before @ after)))" and "distinct (conversation_calls (before @ after))"
    and "replayed (conversation_results (before @ after)) (conversation_calls before) (conversation_results before) s"
  shows "replayed (conversation_results (before @ after)) (conversation_calls (before @ after))
    (conversation_results (before @ after))
    (fold (chat_message_step show_json opts (has_future_output (before @ after))) (enumerate (length before) after) s)"
  using assms
proof (induction after arbitrary: before s)
  case (Cons m after)
  let ?s = "chat_message_step show_json opts (has_future_output (before @ m # after)) (length before, m) s"
  let ?T = "conversation_results (before @ m # after)"
  have "replayed ?T (conversation_calls (before @ [m])) (conversation_results (before @ [m])) ?s"
  proof (cases "role_of m")
    case User
    obtain parts' s' where folded: "fold (chat_user_block (allow_image opts)) (content_of m) ([], s) = (parts', s')"
      by force
    have "replayed ?T (conversation_calls before) (conversation_results before @ List.map_filter block_result (content_of m))
        (flush_user parts' s')"
      using Cons.prems folded User by (intro replayed_user_blocks) (auto simp: message_results_def)
    then show ?thesis by (simp add: chat_message_step_def User folded message_calls_def message_results_def)
  next
    case Assistant
    obtain t l where folded: "fold (turn_block show_json (has_future_output (before @ m # after) (length before)))
        (content_of m) (empty_turn, chat_ledger s) = (t, l)" by force
    have "replayed ?T (conversation_calls before @ block_ids (content_of m)) (conversation_results before)
        \<lparr>chat_out = chat_out s @ (case assistant_message (allow_reasoning opts) (include_reasoning opts) t of
            Some m \<Rightarrow> m # turn_outputs t | None \<Rightarrow> []), chat_ledger = l\<rparr>"
      using Cons.prems Assistant folded assistant_message_told [OF folded]
      by (intro openrouter.replayed_turn [where rest = "conversation_results after"])
        (auto simp: message_results_def message_calls_ids future_output_iff)
    then show ?thesis by (simp add: chat_message_step_def Assistant folded message_calls_ids message_results_def)
  qed
  then show ?case using Cons.IH [of "before @ [m]" ?s] Cons.prems(1,2) by simp
qed simp

section \<open>The translation\<close>

fun chat_user_items :: "bool \<Rightarrow> chat_part list \<Rightarrow> content_block list \<Rightarrow> chat_message list" where
  "chat_user_items allow parts [] = user_chat parts"
| "chat_user_items allow parts (b # bs) =
     (case b of
        Text t c \<Rightarrow> chat_user_items allow (parts @ [Text_Part t c]) bs
      | Image m d \<Rightarrow> chat_user_items allow (parts @ [image_part allow m d]) bs
      | ToolResult i c e \<Rightarrow> user_chat parts @ chat_user_items allow [] bs
      | _ \<Rightarrow> chat_user_items allow parts bs)"

fun said_text :: "content_block \<Rightarrow> rstr" where
  "said_text (Text t c) = t"
| "said_text b = []"

fun said_reasoning :: "content_block \<Rightarrow> rstr" where
  "said_reasoning (Reasoning t) = t"
| "said_reasoning b = []"

fun said_call :: "(json \<Rightarrow> rstr) \<Rightarrow> content_block \<Rightarrow> tool_call list" where
  "said_call show_json (ToolUse i name input sig) =
     [\<lparr>call_id = sanitize_tool_id i, call_name = name, call_args = call_arguments show_json input,
       call_signature = sig\<rparr>]"
| "said_call show_json b = []"

definition turn_of :: "(json \<Rightarrow> rstr) \<Rightarrow> content_block list \<Rightarrow> turn" where
  "turn_of show_json bs =
     \<lparr>turn_text = concat (map said_text bs), turn_reasoning = concat (map said_reasoning bs),
      turn_calls = concat (map (said_call show_json) bs), post_outputs = [], missing_ids = []\<rparr>"

definition chat_items ::
  "(json \<Rightarrow> rstr) \<Rightarrow> chat_options \<Rightarrow> (rstr \<Rightarrow> rstr) \<Rightarrow> message \<Rightarrow> chat_message list" where
  "chat_items show_json opts answer m =
     (case role_of m of
        User \<Rightarrow> chat_user_items (allow_image opts) [] (content_of m)
      | Assistant \<Rightarrow>
          (case assistant_message (allow_reasoning opts) (include_reasoning opts) (turn_of show_json (content_of m)) of
             Some x \<Rightarrow>
               fill_reasoning (allow_reasoning opts) x
               # map (\<lambda>i. Chat_Tool (sanitize_tool_id i) (answer i)) (message_calls m)
           | None \<Rightarrow> []))"

definition reference_chat ::
  "(json \<Rightarrow> rstr) \<Rightarrow> chat_options \<Rightarrow> rstr \<Rightarrow> message list \<Rightarrow> chat_message list" where
  "reference_chat show_json opts system ms =
     (if system = [] then [] else [Chat_System system])
     @ concat (map (chat_items show_json opts (answer_in (conversation_results ms))) ms)
     @ orphan_chat (early (conversation_calls ms) (conversation_results ms))"

lemma turn_block_said:
  "turn_text (fst (turn_block show_json future b acc)) = turn_text (fst acc) @ said_text b"
  "turn_reasoning (fst (turn_block show_json future b acc)) = turn_reasoning (fst acc) @ said_reasoning b"
  "turn_calls (fst (turn_block show_json future b acc)) = turn_calls (fst acc) @ said_call show_json b"
  by (cases acc; cases b; simp add: add_call_turn)+

lemma turn_blocks_said:
  "turn_text (fst (fold (turn_block show_json future) bs acc)) = turn_text (fst acc) @ concat (map said_text bs)"
  "turn_reasoning (fst (fold (turn_block show_json future) bs acc)) = turn_reasoning (fst acc) @ concat (map said_reasoning bs)"
  "turn_calls (fst (fold (turn_block show_json future) bs acc)) = turn_calls (fst acc) @ concat (map (said_call show_json) bs)"
  by (induction bs arbitrary: acc) (simp_all add: turn_block_said)

lemma assistant_message_said:
  assumes "fold (turn_block show_json future) bs (empty_turn, l) = (t, l')"
  shows "assistant_message a n t = assistant_message a n (turn_of show_json bs)"
proof -
  have "turn_text t = turn_text (turn_of show_json bs)" "turn_reasoning t = turn_reasoning (turn_of show_json bs)"
    "turn_calls t = turn_calls (turn_of show_json bs)"
    using turn_blocks_said [of show_json future bs "(empty_turn, l)"] assms by (simp_all add: turn_of_def empty_turn_def)
  then show ?thesis by (simp only: assistant_message_def)
qed

lemma untold_user_chat [simp]: "untold (user_chat parts) = user_chat parts"
  by (auto simp: user_chat_def split: option.split)

lemma user_items_untold: "untold (chat_user_items allow parts bs) = chat_user_items allow parts bs"
  by (induction allow parts bs rule: chat_user_items.induct) (auto split: content_block.split)

lemma user_blocks_untold:
  "fold (chat_user_block allow) bs (parts, s) = (parts', s') \<Longrightarrow>
   untold (chat_out (flush_user parts' s')) = untold (chat_out s) @ chat_user_items allow parts bs"
proof (induction bs arbitrary: parts s)
  case (Cons b bs)
  have "untold (chat_out (place_result i out s)) = untold (chat_out s)" for i out s
    by (simp add: place_result_def split: prod.split)
  then show ?case using Cons by (cases b) force+
qed simp

text \<open>The messages of a conversation without their outputs, and without filled reasoning.\<close>

definition chat_lines :: "(json \<Rightarrow> rstr) \<Rightarrow> chat_options \<Rightarrow> message \<Rightarrow> chat_message list" where
  "chat_lines show_json opts m =
     (case role_of m of
        User \<Rightarrow> chat_user_items (allow_image opts) [] (content_of m)
      | Assistant \<Rightarrow>
          (case assistant_message (allow_reasoning opts) (include_reasoning opts) (turn_of show_json (content_of m)) of
             Some x \<Rightarrow> [x] | None \<Rightarrow> []))"

lemma assistant_message_untold: "assistant_message a n t = Some m \<Longrightarrow> chat_answer m = None"
  by (auto simp: assistant_message_def Let_def split: if_splits)

lemma step_untold:
  "untold (chat_out (chat_message_step show_json opts future (n, m) s)) = untold (chat_out s) @ chat_lines show_json opts m"
proof (cases "role_of m")
  case User
  obtain parts s' where "fold (chat_user_block (allow_image opts)) (content_of m) ([], s) = (parts, s')" by force
  then show ?thesis
    using user_blocks_untold by (simp add: chat_message_step_def chat_lines_def User)
next
  case Assistant
  obtain t l where folded: "fold (turn_block show_json (future n)) (content_of m) (empty_turn, chat_ledger s) = (t, l)"
    by force
  have "untold (turn_outputs t) = []" by (simp add: turn_outputs_def split_def)
  then show ?thesis
    using assistant_message_said [OF folded] assistant_message_untold
    by (auto simp: chat_message_step_def chat_lines_def Assistant folded split: option.split)
qed

lemma steps_untold:
  "untold (chat_out (fold (chat_message_step show_json opts future) (enumerate n ms) s)) =
     untold (chat_out s) @ concat (map (chat_lines show_json opts) ms)"
  by (induction ms arbitrary: n s) (simp_all add: step_untold)

text \<open>The final pass when no id comes twice.\<close>

definition head_output :: "(rstr \<Rightarrow> rstr list) \<Rightarrow> rstr \<Rightarrow> rstr" where
  "head_output q i = (case q i of out # outs \<Rightarrow> out | [] \<Rightarrow> missing_output)"

lemma answer_calls_distinct:
  "distinct (map call_id cs) \<Longrightarrow> answer_calls cs q = (outs, q') \<Longrightarrow>
   outs = map (\<lambda>i. Chat_Tool i (head_output q i)) (map call_id cs) \<and> (\<forall>j. j \<notin> call_id ` set cs \<longrightarrow> q' j = q j)"
proof (induction cs arbitrary: q outs q')
  case (Cons c cs)
  define q0 where "q0 = (case q (call_id c) of out # outs \<Rightarrow> q(call_id c := outs) | [] \<Rightarrow> q)"
  obtain outs1 q1 where one: "answer_calls cs q0 = (outs1, q1)" by force
  then have outs: "outs = Chat_Tool (call_id c) (head_output q (call_id c)) # outs1" "q' = q1"
    using Cons.prems(2) by (auto simp: Let_def head_output_def q0_def split: list.splits)
  have other: "head_output q0 j = head_output q j" "q0 j = q j" if "j \<noteq> call_id c" for j
    using that by (auto simp: head_output_def q0_def split: list.split)
  have "call_id x \<noteq> call_id c" if "x \<in> set cs" for x
    using Cons.prems(1) imageI [OF that, of call_id] by auto
  then show ?case
    using Cons.IH [OF _ one] Cons.prems(1) outs other by simp
qed simp

lemma arrange_distinct:
  "distinct (concat (map call_ids ms)) \<Longrightarrow> list_all (\<lambda>m. chat_answer m = None) ms \<Longrightarrow>
   arrange q ms = concat (map (\<lambda>m. m # map (\<lambda>i. Chat_Tool i (head_output q i)) (call_ids m)) ms)"
proof (induction ms arbitrary: q)
  case (Cons m ms)
  obtain outs q' where outs: "answer_calls (chat_calls m) q = (outs, q')" by force
  have m: "arrange q (m # ms) = m # outs @ arrange q' ms"
    using Cons.prems(2) outs by (cases m) (simp_all add: call_ids_def)
  have step: "outs = map (\<lambda>i. Chat_Tool i (head_output q i)) (call_ids m) \<and> (\<forall>j. j \<notin> set (call_ids m) \<longrightarrow> q' j = q j)"
    using answer_calls_distinct [OF _ outs] Cons.prems(1) by (simp add: call_ids_def)
  then have "head_output q' j = head_output q j" if "j \<in> set (concat (map call_ids ms))" for j
    using that Cons.prems(1) by (force simp: head_output_def)
  then have "arrange q' ms = concat (map (\<lambda>m. m # map (\<lambda>i. Chat_Tool i (head_output q i)) (call_ids m)) ms)"
    using Cons.IH [of q'] Cons.prems by (auto intro!: arg_cong [where f = concat] map_cong)
  then show ?case using m step by simp
qed simp

lemma queued_told: "queued_outputs ms i = map snd (filter (\<lambda>(j, out). j = i \<and> out \<noteq> missing_output) (told ms))"
proof -
  have "fold queued_output ms q i = q i @ map snd (filter (\<lambda>(j, out). j = i \<and> out \<noteq> missing_output) (told ms))" for q
  proof (induction ms arbitrary: q)
    case (Cons m ms)
    then show ?case by (cases m) auto
  qed simp
  then show ?thesis by (simp add: queued_outputs_def)
qed

lemma head_told:
  assumes "tells T (told ms) S" and "i \<in> S" and "inj_on sanitize_tool_id S"
  shows "head_output (queued_outputs ms) (sanitize_tool_id i) = answer_in T i"
proof -
  let ?f = "\<lambda>i. (sanitize_tool_id i, answer_in T i)"
  let ?real = "\<lambda>(j, out). j = sanitize_tool_id i \<and> out \<noteq> missing_output"
  have "mset (filter ?real (told ms)) = image_mset ?f (filter_mset (\<lambda>j. ?real (?f j)) (mset_set S))"
    using assms(1) by (simp add: tells_def filter_mset_image_mset)
  also have "filter_mset (\<lambda>j. ?real (?f j)) (mset_set S)
      = filter_mset (\<lambda>j. j = i \<and> answer_in T i \<noteq> missing_output) (mset_set S)"
    using assms by (intro filter_mset_cong) (auto simp: tells_def dest: inj_onD)
  also have "\<dots> = (if answer_in T i = missing_output then {#} else {#i#})"
  proof -
    have "{x. x = i \<and> x \<in> S} = {i}" using assms(2) by auto
    then show ?thesis using assms(1) by (simp add: tells_def)
  qed
  finally have "mset (filter ?real (told ms)) = (if answer_in T i = missing_output then {#} else {#?f i#})"
    by (cases "answer_in T i = missing_output") (simp_all del: mset_filter)
  then have "filter ?real (told ms) = (if answer_in T i = missing_output then [] else [?f i])"
    by (cases "answer_in T i = missing_output") (simp_all del: mset_filter)
  then show ?thesis by (auto simp: head_output_def queued_told)
qed

lemma filled_ids: "concat (map call_ids (map (fill_reasoning a) ms)) = concat (map call_ids ms)"
  by (induction ms) simp_all

lemma told_plain: "(\<forall>m \<in> set ms. \<exists>t. m = Chat_User (Plain t)) \<Longrightarrow> told ms = []"
  by (induction ms) auto

lemma untold_answers: "list_all (\<lambda>m. chat_answer m = None) (map (fill_reasoning a) (untold ms))"
  by (simp add: list_all_iff untold_def)

lemma user_items_users: "m \<in> set (chat_user_items allow parts bs) \<Longrightarrow> \<exists>c. m = Chat_User c"
  by (induction allow parts bs rule: chat_user_items.induct)
    (auto simp: user_chat_def split: option.splits content_block.splits)

text \<open>With its outputs, a line is what the conversation says.\<close>

definition told_line :: "(rstr \<Rightarrow> rstr) \<Rightarrow> bool \<Rightarrow> chat_message \<Rightarrow> chat_message list" where
  "told_line output a m = fill_reasoning a m # map (\<lambda>i. Chat_Tool i (output i)) (call_ids m)"

lemma told_users: "(\<forall>m \<in> set ms. \<exists>c. m = Chat_User c) \<Longrightarrow> concat (map (told_line output a) ms) = ms"
  by (induction ms) (auto simp: told_line_def fill_reasoning_def)

lemma told_lines:
  assumes "\<And>i. i \<in> set (conversation_calls ms) \<Longrightarrow> output (sanitize_tool_id i) = answer i"
  shows "concat (map (told_line output (allow_reasoning opts)) (concat (map (chat_lines show_json opts) ms)))
    = concat (map (chat_items show_json opts answer) ms)"
proof -
  have turn: "map call_id (concat (map (said_call show_json) bs)) = map sanitize_tool_id (block_ids bs)" for bs
  proof (induction bs)
    case (Cons b bs)
    then show ?case by (cases b) simp_all
  qed simp
  have line: "concat (map (told_line output (allow_reasoning opts)) (chat_lines show_json opts m))
      = chat_items show_json opts answer m"
    if "\<And>i. i \<in> set (message_calls m) \<Longrightarrow> output (sanitize_tool_id i) = answer i" for m
  proof (cases "role_of m")
    case User
    then show ?thesis using user_items_users by (simp add: chat_lines_def chat_items_def told_users)
  next
    case Assistant
    show ?thesis
    proof (cases "assistant_message (allow_reasoning opts) (include_reasoning opts) (turn_of show_json (content_of m))")
      case None
      then show ?thesis by (simp add: chat_lines_def chat_items_def Assistant)
    next
      case (Some x)
      have "chat_calls x = turn_calls (turn_of show_json (content_of m))"
        using Some by (auto simp: assistant_message_def Let_def split: if_splits)
      then have "call_ids x = map sanitize_tool_id (message_calls m)"
        using turn by (simp add: call_ids_def turn_of_def message_calls_ids Assistant)
      then show ?thesis
        using Some that by (simp add: chat_lines_def chat_items_def Assistant told_line_def)
    qed
  qed
  show ?thesis using assms by (induction ms) (simp_all add: line)
qed


definition thinking_options :: chat_options where
  "thinking_options = \<lparr>allow_reasoning = True, include_reasoning = False, allow_image = False\<rparr>"


section \<open>Copilot\<close>

text \<open>
  Copilot's results are the same but for the text of an empty one. The steps keep the same
  ledger, so what is told is what the ledger settles.
\<close>

fun copilot_result :: "content_block \<Rightarrow> (rstr \<times> rstr) option" where
  "copilot_result (ToolResult i c e) = Some (i, copilot_output c e)"
| "copilot_result b = None"

definition copilot_results :: "message list \<Rightarrow> (rstr \<times> rstr) list" where
  "copilot_results ms =
     concat (map (\<lambda>m. case role_of m of
       User \<Rightarrow> List.map_filter copilot_result (content_of m) | Assistant \<Rightarrow> []) ms)"

lemma copilot_results_simps [simp]:
  "copilot_results [] = []"
  "copilot_results (m # ms) =
     (case role_of m of User \<Rightarrow> List.map_filter copilot_result (content_of m) | Assistant \<Rightarrow> []) @ copilot_results ms"
  "copilot_results (as @ bs) = copilot_results as @ copilot_results bs"
  by (simp_all add: copilot_results_def)

lemma block_results_ids: "map fst (List.map_filter copilot_result bs) = map fst (List.map_filter block_result bs)"
proof (induction bs)
  case (Cons b bs)
  then show ?case by (cases b) (simp_all add: List.map_filter_simps)
qed (simp add: List.map_filter_simps)

lemma copilot_results_ids: "map fst (copilot_results ms) = map fst (conversation_results ms)"
  by (induction ms) (auto simp: message_results_def block_results_ids split: role.split)

lemma copilot_results_id_set: "fst ` set (copilot_results ms) = fst ` set (conversation_results ms)"
  by (metis copilot_results_ids image_set)

lemma copilot_user_blocks:
  assumes "distinct (map fst T)"
  shows "replayed T C R s \<Longrightarrow> T = R @ List.map_filter copilot_result bs @ rest \<Longrightarrow>
    fold copilot_user_block bs (texts, s) = (texts', s') \<Longrightarrow>
    replayed T C (R @ List.map_filter copilot_result bs) s'
    \<and> concat (map call_ids (chat_out s')) = concat (map call_ids (chat_out s))"
proof (induction bs arbitrary: R s texts)
  case Nil
  then show ?case by (simp add: List.map_filter_simps)
next
  case (Cons b bs)
  show ?case
  proof (cases b)
    case (ToolResult i c e)
    let ?s = "place_result i (copilot_output c e) s"
    have "replayed T C (R @ [(i, copilot_output c e)]) ?s"
      using Cons.prems(1,2) ToolResult assms by (intro replayed_place) (auto simp: List.map_filter_simps)
    then show ?thesis
      using Cons.IH [of "R @ [(i, copilot_output c e)]" ?s texts] Cons.prems ToolResult
      by (simp add: List.map_filter_simps)
  qed (use Cons in \<open>simp_all add: List.map_filter_simps\<close>)
qed

lemma copilot_user_step:
  assumes "replayed T C R s" and "distinct (map fst T)" and "T = R @ copilot_results [m] @ rest"
    and "role_of m = User"
  shows "replayed T C (R @ copilot_results [m]) (copilot_message_step show_json future (n, m) s)
    \<and> concat (map call_ids (chat_out (copilot_message_step show_json future (n, m) s)))
      = concat (map call_ids (chat_out s))"
proof -
  obtain texts s' where folded: "fold copilot_user_block (content_of m) ([], s) = (texts, s')" by force
  have "replayed T C (R @ copilot_results [m]) s'
      \<and> concat (map call_ids (chat_out s')) = concat (map call_ids (chat_out s))"
    using copilot_user_blocks [OF assms(2,1) _ folded] assms(3,4) by simp
  then show ?thesis
    using replayed_push [of T C _ s' "[Chat_User (Plain (join [CHR 0x0A] texts))]"]
    by (simp add: copilot_message_step_def assms(4) folded Let_def)
qed

lemma copilot_assistant_step:
  assumes "replayed T C R s" and "T = R @ rest" and "distinct (map fst T)"
    and "\<And>i. future n i \<longleftrightarrow> i \<in> fst ` set rest" and "distinct (C @ message_calls m)"
    and "role_of m = Assistant"
  shows "replayed T (C @ message_calls m) R (copilot_message_step show_json future (n, m) s)
    \<and> concat (map call_ids (chat_out (copilot_message_step show_json future (n, m) s)))
      = concat (map call_ids (chat_out s)) @ map sanitize_tool_id (message_calls m)"
proof -
  obtain t l where folded: "fold (copilot_block show_json (future n)) (content_of m) (empty_turn, chat_ledger s) = (t, l)"
    by force
  let ?ms = "if turn_text t \<noteq> [] \<or> turn_calls t \<noteq> []
     then Chat_Assistant (if turn_text t \<noteq> [] then Some (turn_text t) else None) (turn_calls t) None # turn_outputs t
     else []"
  have none: "turn_outputs t = []" if "turn_calls t = []"
    using copilot.no_calls_no_outputs [OF folded that] by (simp add: empty_turn_def turn_outputs_def)
  have "replayed T (C @ block_ids (content_of m)) R \<lparr>chat_out = chat_out s @ ?ms, chat_ledger = l\<rparr>"
    using assms none folded by (intro copilot.replayed_turn [where rest = rest]) (auto simp: message_calls_ids)
  moreover have "turn_ids t = map sanitize_tool_id (block_ids (content_of m))"
    using copilot.turn_blocks_ids [of show_json "future n" "content_of m" "(empty_turn, chat_ledger s)"] folded by simp
  moreover have "concat (map call_ids ?ms) = turn_ids t" by (auto simp: turn_ids_def turn_outputs_def)
  ultimately show ?thesis
    by (simp add: copilot_message_step_def assms(6) folded message_calls_ids)
qed

lemma copilot_messages:
  assumes "distinct (map fst (copilot_results (before @ after)))" and "distinct (conversation_calls (before @ after))"
    and "replayed (copilot_results (before @ after)) (conversation_calls before) (copilot_results before) s"
    and "fold (copilot_message_step show_json (has_future_output (before @ after))) (enumerate (length before) after) s = s'"
  shows "replayed (copilot_results (before @ after)) (conversation_calls (before @ after)) (copilot_results (before @ after)) s'
    \<and> concat (map call_ids (chat_out s'))
      = concat (map call_ids (chat_out s)) @ map sanitize_tool_id (conversation_calls after)"
  using assms
proof (induction after arbitrary: before s)
  case (Cons m after)
  let ?T = "copilot_results (before @ m # after)"
  let ?s = "copilot_message_step show_json (has_future_output (before @ m # after)) (length before, m) s"
  have "replayed ?T (conversation_calls (before @ [m])) (copilot_results (before @ [m])) ?s
    \<and> concat (map call_ids (chat_out ?s)) = concat (map call_ids (chat_out s)) @ map sanitize_tool_id (message_calls m)"
  proof (cases "role_of m")
    case User
    then show ?thesis
      using copilot_user_step [OF Cons.prems(3,1), of m "copilot_results after"] by (simp add: message_calls_def)
  next
    case Assistant
    then show ?thesis
      using copilot_assistant_step [OF Cons.prems(3), of "copilot_results after"
          "has_future_output (before @ m # after)" "length before" m show_json] Cons.prems(1,2)
      by (simp add: future_output_iff copilot_results_id_set Int_Un_distrib)
  qed
  then show ?case using Cons.IH [of "before @ [m]" ?s] Cons.prems(1,2,4) by simp
qed simp

text \<open>
  Copilot is sent every call of the conversation, in order, and exactly one output for each,
  its own result or the note that it is missing, when no id is used twice.
\<close>

theorem copilot_tells_each_call_once:
  assumes "distinct (conversation_calls ms)" and "distinct (map fst (conversation_results ms))"
  shows "concat (map call_ids (build_messages show_json system ms)) = map sanitize_tool_id (conversation_calls ms)
    \<and> mset (told (build_messages show_json system ms))
      = mset (map (\<lambda>i. (sanitize_tool_id i, answer_in (copilot_results ms) i)) (conversation_calls ms))"
proof -
  let ?init = "\<lparr>chat_out = (if system = [] then [] else [Chat_System system]), chat_ledger = no_calls\<rparr>"
  have "replayed (copilot_results ms) [] [] ?init" by (simp add: replayed_def tallied_def no_calls_def)
  then have "replayed (copilot_results ms) (conversation_calls ms) (copilot_results ms)
      (fold (copilot_message_step show_json (has_future_output ms)) (enumerate 0 ms) ?init)
    \<and> concat (map call_ids (build_messages show_json system ms)) = map sanitize_tool_id (conversation_calls ms)"
    using copilot_messages [of "[]" ms ?init] assms by (simp add: copilot_results_ids build_messages_def)
  then show ?thesis
    using assms(1) by (simp add: replayed_def settled_all tells_def build_messages_def mset_set_set)
qed

theorem copilot_tells_each_call_once_witness:
  "told (build_messages plain_json [] scattered_conversation)
     = [(''a'', ''early''), (''c'', missing_output), (''b'', ''[Error] bad'')]
   \<and> mset (told (build_messages plain_json [] scattered_conversation))
     = mset [(''a'', ''early''), (''b'', ''[Error] bad''), (''c'', missing_output)]"
proof
  show "told (build_messages plain_json [] scattered_conversation)
     = [(''a'', ''early''), (''c'', missing_output), (''b'', ''[Error] bad'')]" by code_simp
  have "distinct (conversation_calls scattered_conversation)"
    and "distinct (map fst (conversation_results scattered_conversation))" by code_simp+
  note told = conjunct2 [OF copilot_tells_each_call_once [OF this, of plain_json "[]"]]
  have "map (\<lambda>i. (sanitize_tool_id i, answer_in (copilot_results scattered_conversation) i))
      (conversation_calls scattered_conversation)
    = [(''a'', ''early''), (''b'', ''[Error] bad''), (''c'', missing_output)]" by code_simp
  then show "mset (told (build_messages plain_json [] scattered_conversation))
     = mset [(''a'', ''early''), (''b'', ''[Error] bad''), (''c'', missing_output)]"
    using told by (simp only:)
qed

section \<open>Where the protocol is left\<close>

text \<open>Copilot leaves a user's words between a call and its output, which the protocol refuses.\<close>

lemma copilot_words_before_output:
  "build_messages plain_json []
     [\<lparr>role_of = Assistant, content_of = [ToolUse ''a'' ''read'' (JObject []) None]\<rparr>,
      \<lparr>role_of = User, content_of = [Text ''wait'' None]\<rparr>,
      \<lparr>role_of = User, content_of = [ToolResult ''a'' ''one'' None]\<rparr>]
   = [Chat_Assistant None
        [\<lparr>call_id = ''a'', call_name = ''read'', call_args = ''{}'', call_signature = None\<rparr>] None,
      Chat_User (Plain ''wait''), Chat_Tool ''a'' ''one'']"
  by code_simp

text \<open>Of the outputs of two calls of one id, OpenRouter's builder sends one.\<close>

lemma repeated_call_loses_output:
  "build_chat_messages (\<lambda>is. is) plain_json thinking_options []
     [\<lparr>role_of = Assistant, content_of = [ToolUse ''call_0'' ''read'' (JObject []) None]\<rparr>,
      \<lparr>role_of = User, content_of = [ToolResult ''call_0'' ''one'' None]\<rparr>,
      \<lparr>role_of = Assistant, content_of = [ToolUse ''call_0'' ''bash'' (JObject []) None]\<rparr>,
      \<lparr>role_of = User, content_of = [ToolResult ''call_0'' ''two'' None]\<rparr>]
   = [Chat_Assistant None
        [\<lparr>call_id = ''call_0'', call_name = ''read'', call_args = ''{}'', call_signature = None\<rparr>] (Some '' ''),
      Chat_Tool ''call_0'' ''one'',
      Chat_Assistant None
        [\<lparr>call_id = ''call_0'', call_name = ''bash'', call_args = ''{}'', call_signature = None\<rparr>] (Some '' ''),
      Chat_Tool ''call_0'' missing_output]"
  by code_simp

text \<open>Two ids made one by the cleaning take each other's outputs when these come out of order.\<close>

lemma sanitized_ids_swap_outputs:
  "filter (\<lambda>m. chat_calls m = [])
     (build_chat_messages (\<lambda>is. is) plain_json thinking_options []
       [\<lparr>role_of = Assistant, content_of =
          [ToolUse ''f.1'' ''read'' (JObject []) None, ToolUse ''f:1'' ''bash'' (JObject []) None]\<rparr>,
        \<lparr>role_of = User, content_of = [ToolResult ''f:1'' ''of bash'' None, ToolResult ''f.1'' ''of read'' None]\<rparr>])
   = [Chat_Tool ''f_1'' ''of bash'', Chat_Tool ''f_1'' ''of read'']"
  by code_simp

end
