(* ===== verification/Claude_Models.thy ===== *)
theory Claude_Models
  imports Provider_Routes
begin

text \<open>
  What is known of a Claude model from its name: the table of
  \<open>crates/kcode-provider-core/src/anthropic.rs\<close>, with the names of tools under a subscription's
  login. A \<open>u32\<close> is a natural number; one that does not fit is not parsed.
\<close>

section \<open>The name\<close>

definition parse_u32 :: "rstr \<Rightarrow> nat option" where
  "parse_u32 s = (case parse_usize s of Some n \<Rightarrow> if n < 2 ^ 32 then Some n else None | None \<Rightarrow> None)"

definition is_ascii_alphabetic :: "char \<Rightarrow> bool" where
  "is_ascii_alphabetic c = (65 \<le> byte c \<and> byte c \<le> 90 \<or> 97 \<le> byte c \<and> byte c \<le> 122)"

definition anthropic_is_1m_model :: "rstr \<Rightarrow> bool" where
  "anthropic_is_1m_model m = ends_with m ''[1m]''"

definition anthropic_effectively_1m :: "rstr \<Rightarrow> bool" where
  "anthropic_effectively_1m m = anthropic_is_1m_model m"

definition anthropic_strip_1m_suffix :: "rstr \<Rightarrow> rstr" where
  "anthropic_strip_1m_suffix m = strip_long_context_suffix m"

definition dash_dots :: "rstr \<Rightarrow> rstr" where
  "dash_dots s = map (\<lambda>c. if c = CHR ''.'' then CHR ''-'' else c) s"

definition normalized_claude_caps_key :: "rstr \<Rightarrow> rstr" where
  "normalized_claude_caps_key m =
     strip_date_suffix (dash_dots (to_ascii_lowercase (anthropic_strip_1m_suffix (trim m))))"

text \<open>The loop over the segments: the family, and at most two numbers.\<close>

definition read_segment :: "rstr \<Rightarrow> rstr option \<times> nat list \<Rightarrow> rstr option \<times> nat list" where
  "read_segment segment acc =
     (case acc of (family, nums) \<Rightarrow>
        if segment = ''claude'' then acc
        else case parse_u32 segment of
               Some n \<Rightarrow> (family, if length nums < 2 then nums @ [n] else nums)
             | None \<Rightarrow>
                 (if family = None \<and> list_all is_ascii_alphabetic segment then (Some segment, nums) else acc))"

definition parse_claude_family_version :: "rstr \<Rightarrow> rstr option \<times> (nat \<times> nat) option" where
  "parse_claude_family_version base =
     (case fold read_segment (split_on (CHR ''-'') base) (None, []) of
        (family, nums) \<Rightarrow>
          (family, case nums of [] \<Rightarrow> None | [major] \<Rightarrow> Some (major, 0) | major # minor # _ \<Rightarrow> Some (major, minor)))"

definition claude_id_has_parseable_version :: "rstr \<Rightarrow> bool" where
  "claude_id_has_parseable_version m =
     (let base = normalized_claude_caps_key m
      in starts_with base ''claude'' \<and> snd (parse_claude_family_version base) \<noteq> None)"

text \<open>Versions compare as pairs.\<close>

definition at_least :: "nat \<times> nat \<Rightarrow> nat \<times> nat \<Rightarrow> bool" where
  "at_least v w = (fst w < fst v \<or> fst w = fst v \<and> snd w \<le> snd v)"

section \<open>The context window\<close>

datatype context_mode = Native1M | OptIn1M | Standard

definition default_context_window :: "context_mode \<Rightarrow> nat" where
  "default_context_window mode = (case mode of Native1M \<Rightarrow> 1000000 | _ \<Rightarrow> 200000)"

definition long_context_window :: "context_mode \<Rightarrow> nat" where
  "long_context_window mode = (case mode of Native1M \<Rightarrow> 1000000 | OptIn1M \<Rightarrow> 1048576 | Standard \<Rightarrow> 200000)"

definition has_1m_window :: "context_mode \<Rightarrow> bool" where
  "has_1m_window mode = (mode \<noteq> Standard)"

definition exposes_1m_alias :: "context_mode \<Rightarrow> bool" where
  "exposes_1m_alias mode = (mode = OptIn1M)"

definition family_context_mode :: "rstr option \<Rightarrow> nat \<times> nat \<Rightarrow> context_mode" where
  "family_context_mode family version =
     (if family = Some ''opus'' \<or> family = Some ''sonnet'' then
        (if at_least version (4, 7) then Native1M else if version = (4, 6) then OptIn1M else Standard)
      else if family = Some ''haiku'' \<and> \<not> at_least version (5, 0) then Standard
      else if at_least version (5, 0) then Native1M else Standard)"

definition anthropic_context_mode :: "rstr \<Rightarrow> context_mode" where
  "anthropic_context_mode m =
     (let base = normalized_claude_caps_key m
      in if \<not> starts_with base ''claude'' then Standard
         else case parse_claude_family_version base of
                (family, Some version) \<Rightarrow> family_context_mode family version
              | (family, None) \<Rightarrow> Standard)"

definition anthropic_context_mode_is_verified :: "rstr \<Rightarrow> bool" where
  "anthropic_context_mode_is_verified m =
     (case parse_claude_family_version (normalized_claude_caps_key m) of
        (family, Some version) \<Rightarrow>
          (if family = Some ''opus'' then at_least (4, 8) version
           else if family = Some ''sonnet'' then at_least (5, 0) version
           else if family = Some ''haiku'' then at_least (4, 5) version
           else False)
      | (family, None) \<Rightarrow> False)"

section \<open>Output and reasoning\<close>

definition LARGE_OUTPUT_PREFIXES :: "rstr list" where
  "LARGE_OUTPUT_PREFIXES =
     [''claude-opus-5'', ''claude-opus-4-8'', ''claude-opus-4.8'', ''claude-opus-4-7'', ''claude-opus-4.7'',
      ''claude-opus-4-6'', ''claude-opus-4.6'', ''claude-sonnet-5'', ''claude-sonnet-4-6'',
      ''claude-sonnet-4.6'', ''claude-fable-5-1'', ''claude-fable-5'', ''claude-fable'', ''claude-mythos'']"

definition anthropic_max_output_tokens :: "rstr \<Rightarrow> nat" where
  "anthropic_max_output_tokens m =
     (let base = to_ascii_lowercase (anthropic_strip_1m_suffix (trim m))
      in if list_ex (starts_with base) LARGE_OUTPUT_PREFIXES then 128000
         else if starts_with base ''claude-haiku-4-5'' \<or> starts_with base ''claude-haiku-4.5'' then 64000
         else 32768)"

record reasoning_caps =
  output_effort :: bool
  adaptive_thinking :: bool
  manual_thinking :: bool
  xhigh_effort :: bool
  max_effort :: bool

definition CAPS_FULL :: reasoning_caps where
  "CAPS_FULL = \<lparr>output_effort = True, adaptive_thinking = True, manual_thinking = False,
     xhigh_effort = True, max_effort = True\<rparr>"

definition EFFORT_NO_XHIGH :: reasoning_caps where
  "EFFORT_NO_XHIGH = \<lparr>output_effort = True, adaptive_thinking = True, manual_thinking = False,
     xhigh_effort = False, max_effort = True\<rparr>"

definition MANUAL_WITH_EFFORT :: reasoning_caps where
  "MANUAL_WITH_EFFORT = \<lparr>output_effort = True, adaptive_thinking = False, manual_thinking = True,
     xhigh_effort = False, max_effort = False\<rparr>"

definition MANUAL_ONLY :: reasoning_caps where
  "MANUAL_ONLY = \<lparr>output_effort = False, adaptive_thinking = False, manual_thinking = True,
     xhigh_effort = False, max_effort = False\<rparr>"

definition CAPS_NONE :: reasoning_caps where
  "CAPS_NONE = \<lparr>output_effort = False, adaptive_thinking = False, manual_thinking = False,
     xhigh_effort = False, max_effort = False\<rparr>"

definition supports_reasoning_effort :: "reasoning_caps \<Rightarrow> bool" where
  "supports_reasoning_effort caps = (output_effort caps \<or> manual_thinking caps)"

definition family_reasoning_caps :: "rstr option \<Rightarrow> nat \<times> nat \<Rightarrow> reasoning_caps" where
  "family_reasoning_caps family version =
     (if family = Some ''opus'' then
        (if at_least version (4, 7) then CAPS_FULL else if version = (4, 6) then EFFORT_NO_XHIGH
         else if version = (4, 5) then MANUAL_WITH_EFFORT else CAPS_NONE)
      else if family = Some ''sonnet'' then
        (if at_least version (5, 0) then CAPS_FULL else if version = (4, 6) then EFFORT_NO_XHIGH
         else if version = (3, 7) then MANUAL_ONLY else CAPS_NONE)
      else if at_least version (5, 0) then CAPS_FULL else CAPS_NONE)"

definition anthropic_reasoning_caps :: "rstr \<Rightarrow> reasoning_caps" where
  "anthropic_reasoning_caps m =
     (let base = normalized_claude_caps_key m
      in if \<not> starts_with base ''claude'' then CAPS_NONE
         else if contains base ''mythos'' then EFFORT_NO_XHIGH
         else case parse_claude_family_version base of
                (family, Some version) \<Rightarrow> family_reasoning_caps family version
              | (family, None) \<Rightarrow> CAPS_NONE)"

definition ANTHROPIC_OAUTH_BETA_HEADERS :: rstr where
  "ANTHROPIC_OAUTH_BETA_HEADERS =
     ''claude-code-20250219,oauth-2025-04-20,interleaved-thinking-2025-05-14,context-management-2025-06-27,prompt-caching-scope-2026-01-05,advisor-tool-2026-03-01,advanced-tool-use-2025-11-20,effort-2025-11-24''"

definition ANTHROPIC_OAUTH_BETA_HEADERS_1M :: rstr where
  "ANTHROPIC_OAUTH_BETA_HEADERS_1M =
     ''claude-code-20250219,oauth-2025-04-20,interleaved-thinking-2025-05-14,context-management-2025-06-27,prompt-caching-scope-2026-01-05,advisor-tool-2026-03-01,advanced-tool-use-2025-11-20,effort-2025-11-24,context-1m-2025-08-07''"

definition anthropic_oauth_beta_headers :: "rstr \<Rightarrow> rstr" where
  "anthropic_oauth_beta_headers m =
     (if anthropic_is_1m_model m then ANTHROPIC_OAUTH_BETA_HEADERS_1M else ANTHROPIC_OAUTH_BETA_HEADERS)"

section \<open>Names of tools\<close>

text \<open>The two matches list the same pairs.\<close>

definition OAUTH_TOOL_NAMES :: "(rstr \<times> rstr) list" where
  "OAUTH_TOOL_NAMES =
     [(''bash'', ''Bash''), (''read'', ''Read''), (''write'', ''Write''), (''edit'', ''Edit''),
      (''glob'', ''Glob''), (''grep'', ''Grep''), (''subagent'', ''Agent''),
      (''schedule'', ''ScheduleWakeup''), (''skill_manage'', ''Skill'')]"

definition map_tool_name_for_oauth :: "rstr \<Rightarrow> rstr" where
  "map_tool_name_for_oauth name =
     (case map_of OAUTH_TOOL_NAMES name of Some n \<Rightarrow> n | None \<Rightarrow> name)"

definition map_tool_name_from_oauth :: "rstr \<Rightarrow> rstr" where
  "map_tool_name_from_oauth name =
     (case map_of (map prod.swap OAUTH_TOOL_NAMES) name of Some n \<Rightarrow> n | None \<Rightarrow> name)"

section \<open>Spellings\<close>

text \<open>
  An id: the family and the version in either order, a dash or a dot between the numbers, a
  date, the long-context suffix.
\<close>

definition claude_id :: "bool \<Rightarrow> char \<Rightarrow> rstr \<Rightarrow> nat \<Rightarrow> nat \<Rightarrow> rstr \<Rightarrow> bool \<Rightarrow> rstr" where
  "claude_id version_first sep family major minor date long =
     (let version = decimal major @ [sep] @ decimal minor
      in ''claude-'' @ (if version_first then version @ ''-'' @ family else family @ ''-'' @ version)
           @ date @ (if long then ''[1m]'' else []))"

definition id_parts :: "char \<Rightarrow> rstr \<Rightarrow> rstr \<Rightarrow> bool" where
  "id_parts sep family date =
     (sep \<in> {CHR ''-'', CHR ''.''} \<and> family \<noteq> [] \<and> list_all is_ascii_alphabetic family
      \<and> to_ascii_lowercase family \<noteq> ''claude''
      \<and> (date = [] \<or> (\<exists>d. date = CHR ''-'' # d \<and> length d = 8 \<and> list_all is_ascii_digit d)))"

lemma letter_lower: "is_ascii_alphabetic c \<Longrightarrow> 97 \<le> byte (to_ascii_lower_char c) \<and> byte (to_ascii_lower_char c) \<le> 122"
  by (auto simp: is_ascii_alphabetic_def to_ascii_lower_char_def byte_def)

lemma digit_lower [simp]: "is_ascii_digit c \<Longrightarrow> to_ascii_lower_char c = c"
  by (simp add: is_ascii_digit_def to_ascii_lower_char_def)

lemma digits_lower: "list_all is_ascii_digit s \<Longrightarrow> to_ascii_lowercase s = s"
  by (induction s) (simp_all add: to_ascii_lowercase_def)

lemma digits_undashed: "list_all is_ascii_digit s \<Longrightarrow> dash_dots s = s \<and> CHR ''-'' \<notin> set s"
proof -
  have "\<not> is_ascii_digit (CHR ''.'')" "\<not> is_ascii_digit (CHR ''-'')" by code_simp+
  then show "list_all is_ascii_digit s \<Longrightarrow> ?thesis"
    by (auto simp: dash_dots_def list_all_iff intro!: map_idI)
qed

lemma family_plain:
  assumes "list_all is_ascii_alphabetic f"
  shows "dash_dots (to_ascii_lowercase f) = to_ascii_lowercase f" "CHR ''-'' \<notin> set (to_ascii_lowercase f)"
proof -
  have "97 \<le> byte c" if "c \<in> set (to_ascii_lowercase f)" for c
    using that assms letter_lower by (auto simp: to_ascii_lowercase_def list_all_iff)
  moreover have "byte (CHR ''-'') = 45" "byte (CHR ''.'') = 46" by code_simp+
  ultimately show "CHR ''-'' \<notin> set (to_ascii_lowercase f)"
    "dash_dots (to_ascii_lowercase f) = to_ascii_lowercase f"
    by (fastforce simp: dash_dots_def intro!: map_idI)+
qed

lemma family_not_number:
  assumes "f \<noteq> []" and "list_all is_ascii_alphabetic f"
  shows "parse_u32 (to_ascii_lowercase f) = None" and "list_all is_ascii_alphabetic (to_ascii_lowercase f)"
proof -
  obtain c cs where f: "f = c # cs" using assms(1) by (cases f) auto
  let ?d = "to_ascii_lower_char c"
  have "97 \<le> byte ?d" "byte ?d \<le> 122" using assms(2) letter_lower by (auto simp: f)
  moreover have "byte (CHR ''+'') = 43" by code_simp
  ultimately have "\<not> is_ascii_digit ?d" "?d \<noteq> CHR ''+''" by (auto simp: is_ascii_digit_def)
  then show "parse_u32 (to_ascii_lowercase f) = None"
    by (simp add: parse_u32_def parse_usize_def to_ascii_lowercase_def f Let_def)
  show "list_all is_ascii_alphabetic (to_ascii_lowercase f)"
    using assms(2) letter_lower by (auto simp: to_ascii_lowercase_def list_all_iff is_ascii_alphabetic_def)
qed

lemma parse_u32_decimal: "n < 10 ^ 7 \<Longrightarrow> parse_u32 (decimal n) = Some n"
  by (simp add: parse_u32_def parse_usize_decimal)

lemma last_segment_append: "d \<notin> set b \<Longrightarrow> last_segment d (a @ d # b) = b"
proof -
  assume "d \<notin> set b"
  then have "takeWhile (\<lambda>c. c \<noteq> d) (rev b) = rev b" by (auto simp: takeWhile_eq_all_conv)
  then show ?thesis by (simp add: last_segment_def takeWhile_tail del: takeWhile_eq_all_conv)
qed

lemma strip_date:
  assumes "list_all is_ascii_digit d" and "length d = 8"
  shows "strip_date_suffix (a @ CHR ''-'' # d) = a"
  using assms digits_undashed [OF assms(1)] by (simp add: strip_date_suffix_def last_segment_append)

lemma strip_no_date:
  "CHR ''-'' \<notin> set b \<Longrightarrow> length b \<noteq> 8 \<or> \<not> list_all is_ascii_digit b \<Longrightarrow>
   strip_date_suffix (a @ CHR ''-'' # b) = a @ CHR ''-'' # b"
  by (auto simp: strip_date_suffix_def last_segment_append)

lemma strip_long_none: "s \<noteq> [] \<Longrightarrow> last s \<noteq> CHR '']'' \<Longrightarrow> strip_long_context_suffix s = s"
  by (cases s rule: rev_cases) (simp_all add: strip_long_context_suffix_def strip_suffix_def ends_with_def LONG_CONTEXT_SUFFIX_def)

lemma strip_long_some: "strip_long_context_suffix (s @ ''[1m]'') = s"
  by (simp add: strip_long_context_suffix_def strip_suffix_def ends_with_def LONG_CONTEXT_SUFFIX_def)

lemma lowercase_append [simp]: "to_ascii_lowercase (a @ b) = to_ascii_lowercase a @ to_ascii_lowercase b"
  by (simp add: to_ascii_lowercase_def)

lemma dash_dots_append [simp]: "dash_dots (a @ b) = dash_dots a @ dash_dots b"
  by (simp add: dash_dots_def)

definition id_core :: "bool \<Rightarrow> rstr \<Rightarrow> nat \<Rightarrow> nat \<Rightarrow> rstr" where
  "id_core version_first family major minor =
     (let version = decimal major @ ''-'' @ decimal minor
      in ''claude-'' @ (if version_first then version @ ''-'' @ family else family @ ''-'' @ version))"

lemma last_of_id:
  assumes "id_parts sep f date"
  shows "plain_char (last (claude_id v sep f M m date long))"
    and "last (claude_id v sep f M m date False) \<noteq> CHR '']''"
proof -
  have digit: "is_ascii_digit (last s)" if "s \<noteq> []" "list_all is_ascii_digit s" for s
    using that by (simp add: list_all_iff)
  have letter: "is_ascii_alphabetic (last f)" using assms by (simp add: id_parts_def list_all_iff)
  have plain: "plain_char c" "c \<noteq> CHR '']''" if "is_ascii_digit c \<or> is_ascii_alphabetic c" for c
    using that by (auto simp: plain_char_def is_ascii_digit_def is_ascii_alphabetic_def byte_def ws1_def)
  have "is_ascii_digit (last (claude_id v sep f M m date False)) \<or> is_ascii_alphabetic (last (claude_id v sep f M m date False))"
  proof (cases "date = []")
    case True
    then show ?thesis
      using assms letter digit [OF decimal_not_Nil decimal_digits, of m]
      by (simp add: claude_id_def Let_def id_parts_def)
  next
    case False
    then obtain d where "date = CHR ''-'' # d" "length d = 8" "list_all is_ascii_digit d"
      using assms by (auto simp: id_parts_def)
    then show ?thesis using digit [of d] by (cases "d = []") (simp_all add: claude_id_def Let_def)
  qed
  then have "plain_char (last (claude_id v sep f M m date False))" "last (claude_id v sep f M m date False) \<noteq> CHR '']''"
    using plain by blast+
  moreover have "plain_char (CHR '']'')" by code_simp
  moreover have "last (claude_id v sep f M m date True) = CHR '']''" by (simp add: claude_id_def Let_def)
  ultimately show "last (claude_id v sep f M m date False) \<noteq> CHR '']''"
    "plain_char (last (claude_id v sep f M m date long))"
    by (cases long; simp)+
qed

lemma claude_id_key:
  assumes "id_parts sep f date" and "M < 10 ^ 7" and "m < 10 ^ 7"
  shows "normalized_claude_caps_key (claude_id v sep f M m date long) = id_core v (to_ascii_lowercase f) M m"
proof -
  let ?id = "claude_id v sep f M m date long" and ?body = "claude_id v sep f M m date False"
  have parts: "f \<noteq> []" "list_all is_ascii_alphabetic f" "sep = CHR ''-'' \<or> sep = CHR ''.''"
    using assms(1) by (auto simp: id_parts_def)
  have "plain_char (CHR ''c'')" by code_simp
  then have "trim ?id = ?id"
    using trim_end_plain [of ?id] last_of_id(1) [OF assms(1)] by (simp add: trim_def claude_id_def Let_def)
  moreover have "strip_long_context_suffix ?id = ?body"
  proof (cases long)
    case True
    then have "?id = ?body @ ''[1m]''" by (simp add: claude_id_def Let_def)
    then show ?thesis by (simp only: strip_long_some)
  next
    case False
    then show ?thesis using last_of_id(2) [OF assms(1)] by (intro trans [OF strip_long_none]) (simp_all add: claude_id_def Let_def)
  qed
  moreover have "dash_dots (to_ascii_lowercase ?body) = id_core v (to_ascii_lowercase f) M m @ date"
  proof -
    have number: "to_ascii_lowercase (decimal n) = decimal n" "dash_dots (decimal n) = decimal n" for n
      using digits_lower digits_undashed decimal_digits by blast+
    have date: "to_ascii_lowercase date = date" "dash_dots date = date"
      using assms(1) digits_lower digits_undashed
      by (auto simp: id_parts_def to_ascii_lowercase_def dash_dots_def to_ascii_lower_char_def byte_def)
    have sep: "dash_dots (to_ascii_lowercase [sep]) = ''-''"
      using parts(3) by (auto simp: dash_dots_def to_ascii_lowercase_def to_ascii_lower_char_def byte_def)
    have ascii: "dash_dots (to_ascii_lowercase ''claude-'') = ''claude-''" "dash_dots (to_ascii_lowercase ''-'') = ''-''"
      by code_simp+
    note rules = claude_id_def id_core_def Let_def lowercase_append dash_dots_append append_assoc append_Nil2
      number date sep ascii family_plain(1) [OF parts(2)]
    show ?thesis by (cases v) (simp_all only: rules if_True if_False)
  qed
  moreover have "strip_date_suffix (id_core v (to_ascii_lowercase f) M m @ date) = id_core v (to_ascii_lowercase f) M m"
  proof (cases "date = []")
    case True
    let ?last = "if v then to_ascii_lowercase f else decimal m"
    have "length (decimal m) \<noteq> 8" using decimal_length [of m 6] assms(3) by simp
    moreover have "\<not> list_all is_ascii_digit (to_ascii_lowercase f)"
      using family_not_number(2) [OF parts(1,2)] parts(1)
      by (cases f) (auto simp: to_ascii_lowercase_def is_ascii_digit_def is_ascii_alphabetic_def)
    ultimately have "length ?last \<noteq> 8 \<or> \<not> list_all is_ascii_digit ?last" by simp
    moreover have "CHR ''-'' \<notin> set ?last"
      using family_plain(2) [OF parts(2)] digits_undashed [OF decimal_digits] by simp
    moreover have "\<exists>a. id_core v (to_ascii_lowercase f) M m = a @ CHR ''-'' # ?last"
      by (rule exI [of _ "if v then ''claude-'' @ decimal M @ ''-'' @ decimal m
          else ''claude-'' @ to_ascii_lowercase f @ ''-'' @ decimal M"]) (simp add: id_core_def Let_def)
    ultimately show ?thesis using True strip_no_date [of ?last] by auto
  next
    case False
    then show ?thesis using assms(1) strip_date by (auto simp: id_parts_def)
  qed
  ultimately show ?thesis by (simp add: normalized_claude_caps_key_def anthropic_strip_1m_suffix_def)
qed

lemma id_segments:
  assumes "CHR ''-'' \<notin> set f"
  shows "split_on (CHR ''-'') (id_core v f M m) =
    (if v then [''claude'', decimal M, decimal m, f] else [''claude'', f, decimal M, decimal m])"
proof -
  have dash: "CHR ''-'' \<notin> set (decimal n)" for n using digits_undashed [OF decimal_digits] by blast
  have "split_on (CHR ''-'') (''claude'' @ CHR ''-'' # s) = ''claude'' # split_on (CHR ''-'') s" for s
    by (subst split_on_append) (simp add: split_on_no_sep)
  then show ?thesis
    using split_on_append [of "CHR ''-''"] split_on_no_sep [OF dash] split_on_no_sep [OF assms]
    by (simp add: id_core_def Let_def)
qed

text \<open>
  The classification sees through the spelling of a Claude id: whatever the order of family
  and version, a dot or a dash between the numbers, capitals in the family, a date or the
  long-context suffix, the family and the version are read back, and the context mode is that
  of the family and the version.
\<close>

theorem claude_spellings_agree:
  assumes "id_parts sep f date" and "M < 10 ^ 7" and "m < 10 ^ 7"
  shows "parse_claude_family_version (normalized_claude_caps_key (claude_id v sep f M m date long))
      = (Some (to_ascii_lowercase f), Some (M, m))
    \<and> anthropic_context_mode (claude_id v sep f M m date long)
      = family_context_mode (Some (to_ascii_lowercase f)) (M, m)"
proof -
  let ?f = "to_ascii_lowercase f"
  have f: "f \<noteq> []" "list_all is_ascii_alphabetic f" "?f \<noteq> ''claude''" using assms(1) by (auto simp: id_parts_def)
  have number: "decimal n \<noteq> ''claude''" for n
  proof
    assume "decimal n = ''claude''"
    then have "list_all is_ascii_digit ''claude''" using decimal_digits [of n] by simp
    then show False by code_simp
  qed
  have steps: "read_segment ''claude'' acc = acc" "read_segment ?f (None, ns) = (Some ?f, ns)"
    "read_segment (decimal M) (g, []) = (g, [M])" "read_segment (decimal m) (g, [n]) = (g, [n, m])" for acc ns g n
    using f(3) number family_not_number [OF f(1,2)] parse_u32_decimal assms(2,3)
    by (simp_all add: read_segment_def split: prod.split)
  have key: "normalized_claude_caps_key (claude_id v sep f M m date long) = id_core v ?f M m"
    by (rule claude_id_key [OF assms])
  have read: "parse_claude_family_version (id_core v ?f M m) = (Some ?f, Some (M, m))"
    using id_segments [OF family_plain(2) [OF f(2)]] steps
    by (simp add: parse_claude_family_version_def)
  moreover have "starts_with (id_core v ?f M m) ''claude''" by (simp add: id_core_def Let_def)
  ultimately show ?thesis by (simp add: key anthropic_context_mode_def Let_def)
qed

theorem claude_spellings_agree_witness:
  "anthropic_context_mode (claude_id False (CHR ''.'') ''Opus'' 4 6 ''-20260101'' True) = OptIn1M"
proof -
  have "id_parts (CHR ''.'') ''Opus'' ''-20260101''" by (simp add: id_parts_def) code_simp
  then have "anthropic_context_mode (claude_id False (CHR ''.'') ''Opus'' 4 6 ''-20260101'' True)
      = family_context_mode (Some (to_ascii_lowercase ''Opus'')) (4, 6)"
    by (intro conjunct2 [OF claude_spellings_agree]) simp_all
  also have "\<dots> = OptIn1M" by code_simp
  finally show ?thesis .
qed

end
