(* ===== verification/Anthropic_Messages.thy ===== *)
theory Anthropic_Messages
  imports Transcript Claude_Models
begin

text \<open>
  The messages of a request to Anthropic, \<open>format_messages\<close> of
  \<open>crates/kcode-provider-anthropic/src/lib.rs\<close>, with the marks of the prompt cache and the system
  prompt. The JSON objects are the source's own types. The check at the end of
  \<open>format_messages\<close> only writes to the log and is left out.
\<close>

section \<open>Messages\<close>

record cache_param =
  cache_kind :: rstr
  cache_ttl :: "rstr option"

definition ephemeral :: "bool \<Rightarrow> cache_param" where
  "ephemeral cache_ttl_1h =
     (if cache_ttl_1h then \<lparr>cache_kind = ''ephemeral'', cache_ttl = Some ''1h''\<rparr>
      else \<lparr>cache_kind = ''ephemeral'', cache_ttl = None\<rparr>)"

datatype result_part = Part_Text rstr | Part_Image rstr rstr

datatype result_content = Result_Text rstr | Result_Parts "result_part list"

datatype api_block =
  Api_Text rstr "cache_param option"
| Api_Use rstr rstr json "cache_param option"
| Api_Result rstr result_content bool
| Api_Thinking rstr rstr
| Api_Image rstr rstr

record api_message =
  api_role :: role
  api_content :: "api_block list"

definition INTERRUPTED_TEXT :: rstr where
  "INTERRUPTED_TEXT = ''[Session interrupted before tool execution completed]''"

definition CONTINUATION_USER_TURN :: rstr where
  "CONTINUATION_USER_TURN = ''Continue.''"

section \<open>One result for each call\<close>

definition is_placeholder_tool_result :: "rstr \<Rightarrow> bool option \<Rightarrow> bool" where
  "is_placeholder_tool_result c is_error =
     (is_error = Some True \<and> (contains c TOOL_OUTPUT_MISSING_TEXT \<or> contains c INTERRUPTED_TEXT))"

record winners =
  winner_at :: "rstr \<rightharpoonup> nat \<times> nat"
  winner_is_real :: "rstr \<rightharpoonup> bool"
  duplicate_seen :: bool

fun see_block :: "nat \<Rightarrow> nat \<times> content_block \<Rightarrow> winners \<Rightarrow> winners" where
  "see_block mi (bi, ToolResult i c e) w =
     (let real = \<not> is_placeholder_tool_result c e
      in case winner_is_real w i of
           None \<Rightarrow>
             w\<lparr>winner_at := (winner_at w)(i \<mapsto> (mi, bi)), winner_is_real := (winner_is_real w)(i \<mapsto> real)\<rparr>
         | Some r \<Rightarrow>
             if \<not> r \<and> real
             then w\<lparr>winner_at := (winner_at w)(i \<mapsto> (mi, bi)), winner_is_real := (winner_is_real w)(i \<mapsto> True),
                    duplicate_seen := True\<rparr>
             else w\<lparr>duplicate_seen := True\<rparr>)"
| "see_block mi (bi, b) w = w"

definition see_message :: "nat \<times> message \<Rightarrow> winners \<Rightarrow> winners" where
  "see_message e w = fold (see_block (fst e)) (enumerate 0 (content_of (snd e))) w"

definition see_messages :: "message list \<Rightarrow> winners" where
  "see_messages ms =
     fold see_message (enumerate 0 ms) \<lparr>winner_at = Map.empty, winner_is_real = Map.empty, duplicate_seen = False\<rparr>"

fun keeps_block :: "(rstr \<rightharpoonup> nat \<times> nat) \<Rightarrow> nat \<Rightarrow> nat \<times> content_block \<Rightarrow> bool" where
  "keeps_block winner mi (bi, ToolResult i c e) = (winner i = Some (mi, bi))"
| "keeps_block winner mi (bi, b) = True"

definition keep_winners :: "(rstr \<rightharpoonup> nat \<times> nat) \<Rightarrow> nat \<times> message \<Rightarrow> message" where
  "keep_winners winner e =
     (snd e)\<lparr>content_of := map snd (filter (keeps_block winner (fst e)) (enumerate 0 (content_of (snd e))))\<rparr>"

definition dedupe_tool_results :: "message list \<Rightarrow> message list" where
  "dedupe_tool_results ms =
     (let w = see_messages ms
      in if \<not> duplicate_seen w then ms else map (keep_winners (winner_at w)) (enumerate 0 ms))"

section \<open>Blocks\<close>

fun is_image_part :: "result_part \<Rightarrow> bool" where
  "is_image_part (Part_Image m d) = True"
| "is_image_part (Part_Text t) = False"

text \<open>What joins the block before it: the label of an image, and an image behind a result.\<close>

fun fold_text :: "rstr \<Rightarrow> api_block \<Rightarrow> api_block option" where
  "fold_text t (Api_Result i (Result_Parts ps) e) =
     (if list_ex is_image_part ps then Some (Api_Result i (Result_Parts (ps @ [Part_Text t])) e) else None)"
| "fold_text t b = None"

fun fold_image :: "rstr \<Rightarrow> rstr \<Rightarrow> api_block \<Rightarrow> api_block option" where
  "fold_image m d (Api_Result i (Result_Text t) e) =
     Some (Api_Result i (Result_Parts [Part_Text t, Part_Image m d]) e)"
| "fold_image m d (Api_Result i (Result_Parts ps) e) = Some (Api_Result i (Result_Parts (ps @ [Part_Image m d])) e)"
| "fold_image m d b = None"

definition join_last :: "(api_block \<Rightarrow> api_block option) \<Rightarrow> api_block \<Rightarrow> api_block list \<Rightarrow> api_block list" where
  "join_last joined b bs =
     (if bs = [] then [b]
      else case joined (last bs) of Some b' \<Rightarrow> butlast bs @ [b'] | None \<Rightarrow> bs @ [b])"

fun format_block :: "bool \<Rightarrow> content_block \<Rightarrow> api_block list \<Rightarrow> api_block list" where
  "format_block is_oauth (Text t c) bs = join_last (fold_text t) (Api_Text t None) bs"
| "format_block is_oauth (AnthropicThinking t s) bs = bs @ [Api_Thinking t s]"
| "format_block is_oauth (ToolUse i name input sig) bs =
     bs @ [Api_Use (sanitize_tool_id i) (if is_oauth then map_tool_name_for_oauth name else name)
             (case input of JObject kvs \<Rightarrow> input | _ \<Rightarrow> JObject []) None]"
| "format_block is_oauth (ToolResult i c e) bs =
     bs @ [Api_Result (sanitize_tool_id i) (Result_Text c) (e = Some True)]"
| "format_block is_oauth (Image m d) bs = join_last (fold_image m d) (Api_Image m d) bs"
| "format_block is_oauth b bs = bs"

definition format_content_blocks :: "bool \<Rightarrow> content_block list \<Rightarrow> api_block list" where
  "format_content_blocks is_oauth blocks = fold (format_block is_oauth) blocks []"

section \<open>The passes\<close>

fun result_id :: "content_block \<Rightarrow> rstr option" where
  "result_id (ToolResult i c e) = Some i"
| "result_id b = None"

definition all_ids :: "(content_block \<Rightarrow> rstr option) \<Rightarrow> message list \<Rightarrow> rstr list" where
  "all_ids of_block ms = concat (map (\<lambda>m. List.map_filter of_block (content_of m)) ms)"

definition dangling :: "message list \<Rightarrow> rstr set" where
  "dangling ms = set (all_ids block_call ms) - set (all_ids result_id ms)"

definition synthetic_result :: "rstr \<Rightarrow> api_block" where
  "synthetic_result i = Api_Result (sanitize_tool_id i) (Result_Text INTERRUPTED_TEXT) True"

text \<open>A message is only pushed when it has content.\<close>

definition api_turn :: "role \<Rightarrow> api_block list \<Rightarrow> api_message list" where
  "api_turn r bs = (if bs = [] then [] else [\<lparr>api_role = r, api_content = bs\<rparr>])"

definition format_message :: "bool \<Rightarrow> rstr set \<Rightarrow> message \<Rightarrow> api_message list" where
  "format_message is_oauth open_ids m =
     api_turn (role_of m) (format_content_blocks is_oauth (content_of m))
     @ api_turn User
         (if role_of m = Assistant
          then map synthetic_result (filter (\<lambda>i. i \<in> open_ids) (List.map_filter block_call (content_of m)))
          else [])"

definition merge_message :: "api_message \<Rightarrow> api_message list \<Rightarrow> api_message list" where
  "merge_message m merged =
     (if merged \<noteq> [] \<and> api_role (last merged) = api_role m
      then butlast merged @ [(last merged)\<lparr>api_content := api_content (last merged) @ api_content m\<rparr>]
      else merged @ [m])"

definition merge_roles :: "api_message list \<Rightarrow> api_message list" where
  "merge_roles ms = fold merge_message ms []"

definition end_with_user :: "api_message list \<Rightarrow> api_message list" where
  "end_with_user merged =
     (if merged \<noteq> [] \<and> api_role (last merged) = Assistant
      then merged @ [\<lparr>api_role = User, api_content = [Api_Text CONTINUATION_USER_TURN None]\<rparr>]
      else merged)"

definition format_messages :: "bool \<Rightarrow> message list \<Rightarrow> api_message list" where
  "format_messages is_oauth ms =
     (let ms' = dedupe_tool_results ms
      in end_with_user (merge_roles (concat (map (format_message is_oauth (dangling ms')) ms'))))"

section \<open>Marks of the prompt cache\<close>

text \<open>The mark goes to the last block of the message that can carry one.\<close>

fun mark_block :: "cache_param \<Rightarrow> api_block \<Rightarrow> api_block option" where
  "mark_block p (Api_Text t c) = Some (Api_Text t (Some p))"
| "mark_block p (Api_Use i n inp c) = Some (Api_Use i n inp (Some p))"
| "mark_block p b = None"

fun mark_first :: "cache_param \<Rightarrow> api_block list \<Rightarrow> api_block list" where
  "mark_first p [] = []"
| "mark_first p (b # bs) = (case mark_block p b of Some b' \<Rightarrow> b' # bs | None \<Rightarrow> b # mark_first p bs)"

definition mark_message :: "cache_param \<Rightarrow> api_message \<Rightarrow> api_message" where
  "mark_message p m = m\<lparr>api_content := rev (mark_first p (rev (api_content m)))\<rparr>"

definition assistant_indices :: "api_message list \<Rightarrow> nat list" where
  "assistant_indices ms = take 2 (filter (\<lambda>k. api_role (ms ! k) = Assistant) (rev [0..<length ms]))"

definition add_message_cache_breakpoint :: "bool \<Rightarrow> api_message list \<Rightarrow> api_message list" where
  "add_message_cache_breakpoint cache_ttl_1h ms =
     (if length ms < 3 then ms
      else fold (\<lambda>k out. out[k := mark_message (ephemeral cache_ttl_1h) (out ! k)]) (assistant_indices ms) ms)"

definition format_messages_with_identity :: "api_message list \<Rightarrow> bool \<Rightarrow> bool \<Rightarrow> api_message list" where
  "format_messages_with_identity ms is_oauth cache_ttl_1h = add_message_cache_breakpoint cache_ttl_1h ms"

section \<open>The system prompt\<close>

record system_block =
  system_text :: rstr
  system_cache :: "cache_param option"

definition OAUTH_BILLING_HEADER :: rstr where
  "OAUTH_BILLING_HEADER = ''cc_version=2.1.257; cc_entrypoint=sdk-cli; cch=33f85;''"

definition CLAUDE_CODE_IDENTITY :: rstr where
  "CLAUDE_CODE_IDENTITY = ''You are a Claude agent, built on Anthropic'' @ [CHR 0x27] @ ''s Claude Agent SDK.''"

definition system_blocks :: "rstr \<Rightarrow> rstr \<Rightarrow> bool \<Rightarrow> system_block list" where
  "system_blocks static_part dynamic_part cache_ttl_1h =
     (if static_part = [] then [] else [\<lparr>system_text = static_part, system_cache = Some (ephemeral cache_ttl_1h)\<rparr>])
     @ (if dynamic_part = [] then [] else [\<lparr>system_text = dynamic_part, system_cache = None\<rparr>])"

definition build_system_param_split :: "rstr \<Rightarrow> rstr \<Rightarrow> bool \<Rightarrow> bool \<Rightarrow> system_block list option" where
  "build_system_param_split static_part dynamic_part is_oauth cache_ttl_1h =
     (if is_oauth then
        Some ([\<lparr>system_text = ''x-anthropic-billing-header: '' @ OAUTH_BILLING_HEADER, system_cache = None\<rparr>,
               \<lparr>system_text = CLAUDE_CODE_IDENTITY, system_cache = None\<rparr>]
              @ system_blocks static_part dynamic_part cache_ttl_1h)
      else if static_part = [] \<and> dynamic_part = [] then None
      else Some (system_blocks static_part dynamic_part cache_ttl_1h))"

definition build_system_param :: "rstr \<Rightarrow> bool \<Rightarrow> bool \<Rightarrow> system_block list option" where
  "build_system_param system is_oauth cache_ttl_1h = build_system_param_split system [] is_oauth cache_ttl_1h"

end
