(* ===== verification/Anthropic_Properties.thy ===== *)
theory Anthropic_Properties
  imports Anthropic_Messages "HOL-Library.Multiset"
begin

text \<open>
  What \<open>format_messages\<close> sends to Anthropic: turns that alternate and end with the user, one
  result for each id, calls answered in the next message, and marks of the cache that stay
  within their budget and where they are when memory is appended.
\<close>

section \<open>Merged turns\<close>

lemma api_message_eq: "api_role m = api_role n \<Longrightarrow> api_content m = api_content n \<Longrightarrow> m = (n :: api_message)"
  by simp

text \<open>The merge, from the right.\<close>

fun merge_right :: "api_message list \<Rightarrow> api_message list" where
  "merge_right [] = []"
| "merge_right (m # ms) =
     (case merge_right ms of
        [] \<Rightarrow> [m]
      | n # ns \<Rightarrow>
          if api_role m = api_role n then m\<lparr>api_content := api_content m @ api_content n\<rparr> # ns
          else m # n # ns)"

lemma merge_right_Nil [simp]: "merge_right ms = [] \<longleftrightarrow> ms = []"
  by (cases ms) (auto split: list.split)

lemma merge_right_alternates: "distinct_adj (map api_role (merge_right ms))"
  by (induction ms) (auto split: list.split)

lemma merge_right_id: "distinct_adj (map api_role ms) \<Longrightarrow> merge_right ms = ms"
proof (induction ms)
  case (Cons m ms)
  then have "merge_right ms = ms" by (cases ms) simp_all
  then show ?case using Cons.prems by (cases ms) simp_all
qed simp

lemma merge_right_role: "ms \<noteq> [] \<Longrightarrow> api_role (hd (merge_right ms)) = api_role (hd ms)"
  by (cases ms) (auto split: list.split)

lemma merge_right_pair:
  "api_role m = api_role n \<Longrightarrow>
   merge_right (m # n # ms) = merge_right (m\<lparr>api_content := api_content m @ api_content n\<rparr> # ms)"
  by (auto split: list.split)

lemma merge_right_cong: "merge_right xs = merge_right ys \<Longrightarrow> merge_right (as @ xs) = merge_right (as @ ys)"
  by (induction as) simp_all

lemma merge_step: "merge_right (merge_message m merged @ ms) = merge_right (merged @ m # ms)"
proof (cases "merged \<noteq> [] \<and> api_role (last merged) = api_role m")
  case True
  then have "merged @ m # ms = butlast merged @ last merged # m # ms" by simp
  then show ?thesis
    using True by (simp only: merge_message_def simp_thms if_True append_assoc append_Cons append_Nil)
      (intro merge_right_cong, simp add: merge_right_pair del: merge_right.simps)
qed (auto simp: merge_message_def)

lemma merge_fold: "merge_right (fold merge_message ms merged) = merge_right (merged @ ms)"
  by (induction ms arbitrary: merged) (simp_all add: merge_step)

lemma merge_message_alternates:
  "distinct_adj (map api_role merged) \<Longrightarrow> distinct_adj (map api_role (merge_message m merged))"
  by (cases merged rule: rev_cases) (auto simp: merge_message_def distinct_adj_append_iff)

lemma merge_fold_alternates:
  "distinct_adj (map api_role merged) \<Longrightarrow> distinct_adj (map api_role (fold merge_message ms merged))"
  by (induction ms arbitrary: merged) (simp_all add: merge_message_alternates)

lemma merge_roles_right: "merge_roles ms = merge_right ms"
  using merge_fold [of ms "[]"] merge_right_id [OF merge_fold_alternates, of "[]" ms] by (simp add: merge_roles_def)

lemma merge_right_full: "list_all (\<lambda>m. api_content m \<noteq> []) ms \<Longrightarrow> list_all (\<lambda>m. api_content m \<noteq> []) (merge_right ms)"
  by (induction ms) (auto split: list.split)

lemma format_message_full: "list_all (\<lambda>m. api_content m \<noteq> []) (format_message o1 ids m)"
  by (simp add: format_message_def api_turn_def)

text \<open>What the request is before a last turn of the user is added.\<close>

definition formatted :: "bool \<Rightarrow> message list \<Rightarrow> api_message list" where
  "formatted is_oauth ms =
     merge_right (concat (map (format_message is_oauth (dangling (dedupe_tool_results ms))) (dedupe_tool_results ms)))"

lemma format_messages_eq: "format_messages is_oauth ms = end_with_user (formatted is_oauth ms)"
  by (simp add: format_messages_def formatted_def merge_roles_right Let_def)

text \<open>
  C23: Every request has the shape the protocol demands, whatever the conversation was: the turns
  alternate between user and assistant, none is empty, and the last one is the user's.
\<close>

theorem anthropic_turns_alternate:
  "distinct_adj (map api_role (format_messages is_oauth ms))
   \<and> list_all (\<lambda>m. api_content m \<noteq> []) (format_messages is_oauth ms)
   \<and> (if format_messages is_oauth ms = [] then True else api_role (last (format_messages is_oauth ms)) = User)"
proof -
  have "distinct_adj (map api_role (formatted is_oauth ms))"
    by (simp add: formatted_def merge_right_alternates)
  moreover have "list_all (\<lambda>m. api_content m \<noteq> []) (formatted is_oauth ms)"
  proof -
    have "list_all (\<lambda>m. api_content m \<noteq> []) (concat (map (format_message is_oauth ids) xs))" for ids xs
      using format_message_full by (induction xs) simp_all
    then show ?thesis by (simp add: formatted_def merge_right_full)
  qed
  moreover have "role = User" if "role \<noteq> Assistant" for role using that by (cases role) simp_all
  ultimately show ?thesis
    by (auto simp: format_messages_eq end_with_user_def distinct_adj_append_iff last_map)
qed

section \<open>One result for each id\<close>

text \<open>The results of a conversation as they stand, and those of a request.\<close>

fun block_tool_result :: "content_block \<Rightarrow> (rstr \<times> rstr \<times> bool) option" where
  "block_tool_result (ToolResult i c e) = Some (i, c, e = Some True)"
| "block_tool_result b = None"

definition results_in :: "message list \<Rightarrow> (rstr \<times> rstr \<times> bool) list" where
  "results_in ms = concat (map (\<lambda>m. List.map_filter block_tool_result (content_of m)) ms)"

fun result_text :: "result_content \<Rightarrow> rstr" where
  "result_text (Result_Text t) = t"
| "result_text (Result_Parts (Part_Text t # ps)) = t"
| "result_text (Result_Parts ps) = []"

fun sent_result :: "api_block \<Rightarrow> (rstr \<times> rstr \<times> bool) option" where
  "sent_result (Api_Result i c e) = Some (i, result_text c, e)"
| "sent_result b = None"

fun sent_call :: "api_block \<Rightarrow> rstr option" where
  "sent_call (Api_Use i n inp c) = Some i"
| "sent_call b = None"

definition sent :: "(api_block \<Rightarrow> 'a option) \<Rightarrow> api_message list \<Rightarrow> 'a list" where
  "sent of_block r = concat (map (\<lambda>m. List.map_filter of_block (api_content m)) r)"

text \<open>The result an id is answered with: the first real one, or else the first.\<close>

definition is_real :: "rstr \<times> rstr \<times> bool \<Rightarrow> bool" where
  "is_real r = (\<not> is_placeholder_tool_result (fst (snd r)) (Some (snd (snd r))))"

definition best_result :: "('p \<times> rstr \<times> rstr \<times> bool) list \<Rightarrow> rstr \<Rightarrow> ('p \<times> rstr \<times> rstr \<times> bool) option" where
  "best_result rs i =
     (case find (\<lambda>r. fst (snd r) = i \<and> is_real (snd r)) rs of
        Some r \<Rightarrow> Some r
      | None \<Rightarrow> find (\<lambda>r. fst (snd r) = i) rs)"

text \<open>The results with their positions.\<close>

fun block_positions :: "nat \<Rightarrow> nat \<Rightarrow> content_block list \<Rightarrow> ((nat \<times> nat) \<times> rstr \<times> rstr \<times> bool) list" where
  "block_positions k j [] = []"
| "block_positions k j (b # bs) =
     (case block_tool_result b of
        Some r \<Rightarrow> ((k, j), r) # block_positions k (Suc j) bs
      | None \<Rightarrow> block_positions k (Suc j) bs)"

fun positions :: "nat \<Rightarrow> message list \<Rightarrow> ((nat \<times> nat) \<times> rstr \<times> rstr \<times> bool) list" where
  "positions n [] = []"
| "positions n (m # ms) = block_positions n 0 (content_of m) @ positions (Suc n) ms"

lemma block_positions_results: "map snd (block_positions k j bs) = List.map_filter block_tool_result bs"
  by (induction bs arbitrary: j) (simp_all add: List.map_filter_simps split: option.split)

lemma positions_results: "map snd (positions n ms) = results_in ms"
  by (induction ms arbitrary: n) (simp_all add: block_positions_results results_in_def)

lemma block_position: "x \<in> set (block_positions k j bs) \<Longrightarrow> fst (fst x) = k \<and> j \<le> snd (fst x)"
  by (induction bs arbitrary: j) (fastforce split: option.splits)+

lemma positions_ge: "x \<in> set (positions n ms) \<Longrightarrow> n \<le> fst (fst x)"
  by (induction ms arbitrary: n) (auto dest: block_position Suc_leD)

lemma block_positions_distinct: "distinct (map fst (block_positions k j bs))"
proof (induction bs arbitrary: j)
  case (Cons b bs)
  then show ?case using block_position [of _ k "Suc j" bs] by (fastforce split: option.split)
qed simp

lemma positions_distinct: "distinct (map fst (positions n ms))"
proof (induction ms arbitrary: n)
  case (Cons m ms)
  have "fst ` set (block_positions n 0 (content_of m)) \<inter> fst ` set (positions (Suc n) ms) = {}"
    using block_position [of _ n 0 "content_of m"] positions_ge [of _ "Suc n" ms] by fastforce
  then show ?case using Cons block_positions_distinct by simp
qed simp

text \<open>The scan for the winners, result by result.\<close>

definition see_result :: "(nat \<times> nat) \<times> rstr \<times> rstr \<times> bool \<Rightarrow> winners \<Rightarrow> winners" where
  "see_result x w =
     (case winner_is_real w (fst (snd x)) of
        None \<Rightarrow>
          w\<lparr>winner_at := (winner_at w)(fst (snd x) \<mapsto> fst x),
            winner_is_real := (winner_is_real w)(fst (snd x) \<mapsto> is_real (snd x))\<rparr>
      | Some r \<Rightarrow>
          if \<not> r \<and> is_real (snd x)
          then w\<lparr>winner_at := (winner_at w)(fst (snd x) \<mapsto> fst x),
                 winner_is_real := (winner_is_real w)(fst (snd x) \<mapsto> True), duplicate_seen := True\<rparr>
          else w\<lparr>duplicate_seen := True\<rparr>)"

lemma placeholder_flag: "is_placeholder_tool_result c (Some (e = Some True)) = is_placeholder_tool_result c e"
  by (simp add: is_placeholder_tool_result_def)

lemma see_block_result:
  "see_block k (j, b) w = (case block_tool_result b of Some r \<Rightarrow> see_result ((k, j), r) w | None \<Rightarrow> w)"
  by (cases b) (simp_all add: see_result_def is_real_def placeholder_flag Let_def split: option.split)

lemma see_blocks_results: "fold (see_block k) (enumerate j bs) w = fold see_result (block_positions k j bs) w"
  by (induction bs arbitrary: j w) (simp_all add: see_block_result split: option.split)

lemma see_messages_results:
  "see_messages ms = fold see_result (positions 0 ms)
     \<lparr>winner_at = Map.empty, winner_is_real = Map.empty, duplicate_seen = False\<rparr>"
proof -
  have "fold see_message (enumerate n ms) w = fold see_result (positions n ms) w" for n w
    by (induction ms arbitrary: n w) (simp_all add: see_message_def see_blocks_results)
  then show ?thesis by (simp add: see_messages_def)
qed

lemma find_snoc: "find P (xs @ [x]) = (case find P xs of Some y \<Rightarrow> Some y | None \<Rightarrow> if P x then Some x else None)"
  by (induction xs) simp_all

lemma find_holds: "find P xs = Some x \<Longrightarrow> P x \<and> x \<in> set xs"
  by (auto simp: find_Some_iff)

lemma best_some: "best_result rs i = Some x \<Longrightarrow> x \<in> set rs \<and> fst (snd x) = i"
  by (auto simp: best_result_def split: option.splits dest: find_holds)

lemma best_none: "best_result rs i = None \<longleftrightarrow> i \<notin> (\<lambda>x. fst (snd x)) ` set rs"
  by (force simp: best_result_def find_None_iff split: option.split dest: find_holds)

lemma best_real:
  assumes "best_result rs i = Some y"
  shows "is_real (snd y) \<longleftrightarrow> find (\<lambda>r. fst (snd r) = i \<and> is_real (snd r)) rs \<noteq> None"
proof (cases "find (\<lambda>r. fst (snd r) = i \<and> is_real (snd r)) rs")
  case None
  then show ?thesis using best_some [OF assms] unfolding find_None_iff by blast
next
  case (Some z)
  then have "z = y" using assms by (simp add: best_result_def)
  then show ?thesis using find_holds [OF Some] Some by simp
qed

lemma best_snoc:
  "best_result (rs @ [x]) i =
     (if fst (snd x) \<noteq> i then best_result rs i
      else case best_result rs i of
             None \<Rightarrow> Some x
           | Some y \<Rightarrow> if \<not> is_real (snd y) \<and> is_real (snd x) then Some x else Some y)"
proof (cases "best_result rs i")
  case None
  then show ?thesis by (auto simp: best_result_def find_snoc split: option.splits)
next
  case (Some y)
  show ?thesis
    using best_real [OF Some] Some
    by (cases "find (\<lambda>r. fst (snd r) = i \<and> is_real (snd r)) rs") (simp_all add: best_result_def find_snoc)
qed

definition winners_of :: "((nat \<times> nat) \<times> rstr \<times> rstr \<times> bool) list \<Rightarrow> winners" where
  "winners_of rs =
     \<lparr>winner_at = (\<lambda>i. map_option fst (best_result rs i)),
      winner_is_real = (\<lambda>i. map_option (\<lambda>x. is_real (snd x)) (best_result rs i)),
      duplicate_seen = (\<not> distinct (map (\<lambda>x. fst (snd x)) rs))\<rparr>"

lemma winners_step: "see_result x (winners_of rs) = winners_of (rs @ [x])"
proof (cases "best_result rs (fst (snd x))")
  case None
  then show ?thesis
    using best_none [of rs "fst (snd x)"]
    by (simp add: see_result_def winners_of_def best_snoc fun_eq_iff image_iff) blast?
next
  case (Some y)
  then have "fst (snd x) \<in> (\<lambda>x. fst (snd x)) ` set rs" using best_none [of rs "fst (snd x)"] by simp
  then show ?thesis
    using Some by (simp add: see_result_def winners_of_def best_snoc fun_eq_iff)
qed

lemma winners_best: "see_messages ms = winners_of (positions 0 ms)"
proof -
  have "fold see_result rs (winners_of qs) = winners_of (qs @ rs)" for qs rs
    by (induction rs arbitrary: qs) (simp_all add: winners_step)
  from this [of _ "[]"] show ?thesis by (simp add: see_messages_results winners_of_def best_result_def)
qed

text \<open>What is kept: for each id its best result.\<close>

lemma kept_blocks:
  "List.map_filter block_tool_result (map snd (filter (keeps_block W k) (enumerate j bs)))
     = map snd (filter (\<lambda>x. W (fst (snd x)) = Some (fst x)) (block_positions k j bs))"
proof (induction bs arbitrary: j)
  case (Cons b bs)
  then show ?case by (cases b) (simp_all add: List.map_filter_simps)
qed (simp add: List.map_filter_simps)

lemma kept_messages:
  "results_in (map (keep_winners W) (enumerate n ms))
     = map snd (filter (\<lambda>x. W (fst (snd x)) = Some (fst x)) (positions n ms))"
  by (induction ms arbitrary: n) (simp_all add: results_in_def keep_winners_def kept_blocks)

lemma same_position: "x \<in> set (positions n ms) \<Longrightarrow> y \<in> set (positions n ms) \<Longrightarrow> fst x = fst y \<Longrightarrow> x = y"
  using positions_distinct [of n ms] unfolding distinct_map inj_on_def by blast

lemma deduped_results:
  "results_in (dedupe_tool_results ms)
     = map snd (filter (\<lambda>x. best_result (positions 0 ms) (fst (snd x)) = Some x) (positions 0 ms))"
proof (cases "distinct (map (\<lambda>x. fst (snd x)) (positions 0 ms))")
  case True
  have "best_result (positions 0 ms) (fst (snd x)) = Some x" if x: "x \<in> set (positions 0 ms)" for x
  proof -
    obtain y where y: "best_result (positions 0 ms) (fst (snd x)) = Some y"
      using best_none [of "positions 0 ms" "fst (snd x)"] x by (cases "best_result (positions 0 ms) (fst (snd x))") auto
    then have "y = x" using best_some [OF y] x True by (auto simp: distinct_map dest: inj_onD)
    then show ?thesis using y by simp
  qed
  then have "filter (\<lambda>x. best_result (positions 0 ms) (fst (snd x)) = Some x) (positions 0 ms) = positions 0 ms"
    by (simp add: filter_id_conv)
  then show ?thesis
    using True by (simp add: dedupe_tool_results_def winners_best winners_of_def positions_results)
next
  case False
  have "map_option fst (best_result (positions 0 ms) (fst (snd x))) = Some (fst x)
      \<longleftrightarrow> best_result (positions 0 ms) (fst (snd x)) = Some x" if "x \<in> set (positions 0 ms)" for x
  proof (cases "best_result (positions 0 ms) (fst (snd x))")
    case (Some y)
    then have "y \<in> set (positions 0 ms)" using best_some by blast
    then show ?thesis using same_position [OF _ that, of y] Some by auto
  qed simp
  then have "filter (\<lambda>x. map_option fst (best_result (positions 0 ms) (fst (snd x))) = Some (fst x)) (positions 0 ms)
      = filter (\<lambda>x. best_result (positions 0 ms) (fst (snd x)) = Some x) (positions 0 ms)"
    by (rule filter_cong [OF refl])
  then show ?thesis
    using False by (simp add: dedupe_tool_results_def winners_best winners_of_def kept_messages del: map_option_eq_Some)
qed

definition chosen_result :: "(rstr \<times> rstr \<times> bool) list \<Rightarrow> rstr \<Rightarrow> (rstr \<times> rstr \<times> bool) option" where
  "chosen_result rs i =
     (case find (\<lambda>r. fst r = i \<and> is_real r) rs of Some r \<Rightarrow> Some r | None \<Rightarrow> find (\<lambda>r. fst r = i) rs)"

lemma find_map: "find P (map f xs) = map_option f (find (\<lambda>x. P (f x)) xs)"
  by (induction xs) simp_all

lemma chosen_best: "chosen_result (map snd rs) i = map_option snd (best_result rs i)"
  by (simp add: chosen_result_def best_result_def find_map split: option.split)

lemma best_each:
  assumes "distinct rs"
  shows "mset (filter (\<lambda>x. best_result rs (fst (snd x)) = Some x) rs)
    = mset (map (\<lambda>i. the (best_result rs i)) (remdups (map (\<lambda>x. fst (snd x)) rs)))"
proof -
  let ?ids = "remdups (map (\<lambda>x. fst (snd x)) rs)"
  have some: "best_result rs i = Some (the (best_result rs i)) \<and> the (best_result rs i) \<in> set rs
      \<and> fst (snd (the (best_result rs i))) = i" if "i \<in> set ?ids" for i
    using best_none [of rs i] best_some [of rs i] that by (cases "best_result rs i") simp_all
  have "inj_on (\<lambda>i. the (best_result rs i)) (set ?ids)"
  proof (rule inj_onI)
    fix i j assume "i \<in> set ?ids" "j \<in> set ?ids" and same: "the (best_result rs i) = the (best_result rs j)"
    then have "fst (snd (the (best_result rs i))) = i" "fst (snd (the (best_result rs j))) = j" using some by blast+
    then show "i = j" using same by argo
  qed
  then have "distinct (map (\<lambda>i. the (best_result rs i)) ?ids)" by (simp add: distinct_map)
  moreover have "set (filter (\<lambda>x. best_result rs (fst (snd x)) = Some x) rs) = set (map (\<lambda>i. the (best_result rs i)) ?ids)"
  proof (intro set_eqI iffI)
    fix x assume "x \<in> set (filter (\<lambda>x. best_result rs (fst (snd x)) = Some x) rs)"
    then have "x = the (best_result rs (fst (snd x)))" "fst (snd x) \<in> set ?ids" by auto
    then show "x \<in> set (map (\<lambda>i. the (best_result rs i)) ?ids)" unfolding set_map by (rule image_eqI)
  next
    fix x assume "x \<in> set (map (\<lambda>i. the (best_result rs i)) ?ids)"
    then obtain i where "i \<in> set ?ids" "x = the (best_result rs i)" by auto
    then show "x \<in> set (filter (\<lambda>x. best_result rs (fst (snd x)) = Some x) rs)" using some [of i] by simp
  qed
  ultimately show ?thesis using assms by (simp only: set_eq_iff_mset_eq_distinct [symmetric] distinct_filter)
qed

lemma deduped_chosen:
  "mset (results_in (dedupe_tool_results ms))
     = mset (map (\<lambda>i. the (chosen_result (results_in ms) i)) (remdups (map fst (results_in ms))))"
proof -
  let ?P = "positions 0 ms"
  have "distinct ?P" using positions_distinct [of 0 ms] unfolding distinct_map by blast
  note each = best_each [OF this]
  have "mset (results_in (dedupe_tool_results ms))
      = image_mset snd (mset (map (\<lambda>i. the (best_result ?P i)) (remdups (map (\<lambda>x. fst (snd x)) ?P))))"
    unfolding deduped_results each [symmetric] by (simp del: mset_filter)
  also have "\<dots> = mset (map (\<lambda>i. snd (the (best_result ?P i))) (remdups (map (\<lambda>x. fst (snd x)) ?P)))"
    by (simp add: image_mset.compositionality comp_def)
  also have "map (\<lambda>i. snd (the (best_result ?P i))) (remdups (map (\<lambda>x. fst (snd x)) ?P))
      = map (\<lambda>i. the (chosen_result (results_in ms) i)) (remdups (map (\<lambda>x. fst (snd x)) ?P))"
  proof (rule map_cong [OF refl])
    fix i assume "i \<in> set (remdups (map (\<lambda>x. fst (snd x)) ?P))"
    then have "best_result ?P i \<noteq> None" using best_none [of ?P i] by simp
    then show "snd (the (best_result ?P i)) = the (chosen_result (results_in ms) i)"
      unfolding positions_results [of 0 ms, symmetric] chosen_best by auto
  qed
  also have "map (\<lambda>x. fst (snd x)) ?P = map fst (results_in ms)"
    by (simp add: positions_results [of 0 ms, symmetric] comp_def)
  finally show ?thesis .
qed

text \<open>Formatting and merging keep the results and the calls.\<close>

lemma sent_simps [simp]:
  "sent f [] = []" "sent f (m # r) = List.map_filter f (api_content m) @ sent f r" "sent f (as @ bs) = sent f as @ sent f bs"
  by (simp_all add: sent_def)

lemma map_filter_append [simp]: "List.map_filter f (xs @ ys) = List.map_filter f xs @ List.map_filter f ys"
  by (simp add: List.map_filter_def)

lemma map_filter_Nil [simp]: "List.map_filter f [] = []"
  by (simp add: List.map_filter_def)

lemma map_filter_one: "List.map_filter f [b] = (case f b of Some x \<Rightarrow> [x] | None \<Rightarrow> [])"
  by (simp add: List.map_filter_def split: option.split)

lemma sent_merged: "sent f (merge_right ms) = sent f ms"
proof (induction ms)
  case (Cons m ms)
  then show ?case by (cases "merge_right ms") auto
qed simp

lemma sent_ended: "f (Api_Text CONTINUATION_USER_TURN None) = None \<Longrightarrow> sent f (end_with_user r) = sent f r"
  by (simp add: end_with_user_def List.map_filter_def)

lemma join_keeps:
  assumes "f nb = None" and "\<And>b b'. joined b = Some b' \<Longrightarrow> f b' = f b"
  shows "List.map_filter f (join_last joined nb bs) = List.map_filter f bs"
proof (cases bs rule: rev_cases)
  case (snoc as b)
  then show ?thesis
    using assms by (cases "joined b") (simp_all add: join_last_def map_filter_one split: option.split)
qed (simp add: join_last_def map_filter_one assms)

lemma fold_text_keeps:
  "fold_text t b = Some b' \<Longrightarrow> sent_result b' = sent_result b \<and> sent_call b' = sent_call b"
proof (induction t b rule: fold_text.induct)
  case (1 t i ps e)
  then show ?case by (cases ps; cases "hd ps") (auto split: if_splits)
qed simp_all

lemma fold_image_keeps:
  "fold_image m d b = Some b' \<Longrightarrow> sent_result b' = sent_result b \<and> sent_call b' = sent_call b"
proof (induction m d b rule: fold_image.induct)
  case (2 m d i ps e)
  then show ?case by (cases ps; cases "hd ps") auto
qed auto

definition clean_result :: "rstr \<times> rstr \<times> bool \<Rightarrow> rstr \<times> rstr \<times> bool" where
  "clean_result r = (sanitize_tool_id (fst r), snd r)"

lemma format_block_keeps:
  "List.map_filter sent_result (format_block o1 b bs)
     = List.map_filter sent_result bs @ map clean_result (List.map_filter block_tool_result [b])"
  "List.map_filter sent_call (format_block o1 b bs)
     = List.map_filter sent_call bs @ map sanitize_tool_id (List.map_filter block_call [b])"
  by (cases b; simp add: join_keeps fold_text_keeps fold_image_keeps map_filter_one clean_result_def)+

lemma format_keeps:
  "List.map_filter sent_result (format_content_blocks o1 bs) = map clean_result (List.map_filter block_tool_result bs)"
  "List.map_filter sent_call (format_content_blocks o1 bs) = map sanitize_tool_id (List.map_filter block_call bs)"
proof -
  have "List.map_filter sent_result (fold (format_block o1) bs acc)
      = List.map_filter sent_result acc @ map clean_result (List.map_filter block_tool_result bs)" for acc
    by (induction bs arbitrary: acc) (simp_all add: format_block_keeps map_filter_one List.map_filter_simps split: option.split)
  then show "List.map_filter sent_result (format_content_blocks o1 bs) = map clean_result (List.map_filter block_tool_result bs)"
    by (simp add: format_content_blocks_def List.map_filter_simps)
  have "List.map_filter sent_call (fold (format_block o1) bs acc)
      = List.map_filter sent_call acc @ map sanitize_tool_id (List.map_filter block_call bs)" for acc
    by (induction bs arbitrary: acc) (simp_all add: format_block_keeps map_filter_one List.map_filter_simps split: option.split)
  then show "List.map_filter sent_call (format_content_blocks o1 bs) = map sanitize_tool_id (List.map_filter block_call bs)"
    by (simp add: format_content_blocks_def List.map_filter_simps)
qed

lemma synthetic_sent:
  "List.map_filter sent_result (map synthetic_result xs) = map (\<lambda>i. (sanitize_tool_id i, INTERRUPTED_TEXT, True)) xs"
  "List.map_filter sent_call (map synthetic_result xs) = []"
  by (induction xs) (simp_all add: List.map_filter_simps synthetic_result_def)

lemma api_turn_Nil [simp]: "api_turn r [] = []"
  by (simp add: api_turn_def)

lemma sent_turn: "sent f (api_turn r bs) = List.map_filter f bs"
  by (simp add: api_turn_def)

lemma format_message_sent:
  "sent sent_call (format_message o1 ids m) = map sanitize_tool_id (List.map_filter block_call (content_of m))"
  "sent sent_result (format_message o1 ids m) =
     map clean_result (List.map_filter block_tool_result (content_of m))
     @ map (\<lambda>i. (sanitize_tool_id i, INTERRUPTED_TEXT, True)) (filter (\<lambda>i. i \<in> ids) (message_calls m))"
  by (cases "role_of m"; simp add: format_message_def sent_turn format_keeps synthetic_sent message_calls_def)+

text \<open>The deduplication keeps calls and roles, and which ids have results.\<close>

lemma kept_calls:
  "map (\<lambda>m. (role_of m, List.map_filter block_call (content_of m))) (dedupe_tool_results ms)
     = map (\<lambda>m. (role_of m, List.map_filter block_call (content_of m))) ms"
proof -
  have blocks: "List.map_filter block_call (map snd (filter (keeps_block W k) (enumerate j bs))) = List.map_filter block_call bs"
    for W k j bs
  proof (induction bs arbitrary: j)
    case (Cons b bs)
    then show ?case by (cases b) (simp_all add: List.map_filter_simps)
  qed (simp add: List.map_filter_simps)
  have "map (\<lambda>m. (role_of m, List.map_filter block_call (content_of m))) (map (keep_winners W) (enumerate n ms))
      = map (\<lambda>m. (role_of m, List.map_filter block_call (content_of m))) ms" for W n
    by (induction ms arbitrary: n) (simp_all add: keep_winners_def blocks)
  then show ?thesis by (simp add: dedupe_tool_results_def Let_def)
qed

lemma all_result_ids: "set (all_ids result_id ms) = fst ` set (results_in ms)"
proof -
  have "set (List.map_filter result_id bs) = fst ` set (List.map_filter block_tool_result bs)" for bs
  proof (induction bs)
    case (Cons b bs)
    then show ?case by (cases b) (simp_all add: List.map_filter_simps)
  qed (simp add: List.map_filter_simps)
  then show ?thesis by (simp add: all_ids_def results_in_def image_UN)
qed

lemma chosen_some:
  assumes "i \<in> fst ` set rs"
  shows "\<exists>r. chosen_result rs i = Some r \<and> r \<in> set rs \<and> fst r = i"
proof (cases "find (\<lambda>r. fst r = i \<and> is_real r) rs")
  case None
  have "find (\<lambda>r. fst r = i) rs \<noteq> None" using assms unfolding find_None_iff by (auto; blast)
  then show ?thesis using None find_holds [of "\<lambda>r. fst r = i" rs] by (auto simp: chosen_result_def)
next
  case (Some r)
  then show ?thesis using find_holds [OF Some] by (simp add: chosen_result_def)
qed

lemma deduped_ids: "fst ` set (results_in (dedupe_tool_results ms)) = fst ` set (results_in ms)"
proof -
  have "set (results_in (dedupe_tool_results ms))
      = (\<lambda>i. the (chosen_result (results_in ms) i)) ` (fst ` set (results_in ms))"
    using arg_cong [OF deduped_chosen, of set_mset ms] by simp
  moreover have "fst (the (chosen_result (results_in ms) i)) = i" if "i \<in> fst ` set (results_in ms)" for i
    using chosen_some [OF that] by auto
  ultimately show ?thesis by (auto simp: image_image cong: image_cong)
qed

text \<open>What is answered to an id.\<close>

definition answer_to :: "(rstr \<times> rstr \<times> bool) list \<Rightarrow> rstr \<Rightarrow> rstr \<times> rstr \<times> bool" where
  "answer_to rs i =
     (case chosen_result rs i of
        Some r \<Rightarrow> (sanitize_tool_id i, snd r)
      | None \<Rightarrow> (sanitize_tool_id i, INTERRUPTED_TEXT, True))"

definition unanswered :: "message list \<Rightarrow> rstr list" where
  "unanswered ms = filter (\<lambda>i. i \<notin> fst ` set (results_in ms)) (conversation_calls ms)"

lemma formatted_sent:
  "sent sent_call (formatted o1 ms) = map sanitize_tool_id (all_ids block_call ms)"
  "mset (sent sent_result (formatted o1 ms)) =
     mset (map clean_result (results_in (dedupe_tool_results ms)))
     + mset (map (\<lambda>i. (sanitize_tool_id i, INTERRUPTED_TEXT, True)) (unanswered ms))"
proof -
  have calls: "concat (map (\<lambda>m. List.map_filter block_call (content_of m)) (dedupe_tool_results ms))
      = concat (map (\<lambda>m. List.map_filter block_call (content_of m)) ms)"
    using arg_cong [OF kept_calls [of ms], of "map snd"] by (simp add: comp_def)
  have own: "conversation_calls (dedupe_tool_results ms) = conversation_calls ms"
  proof -
    have calls_of: "conversation_calls xs = concat (map (\<lambda>e. case fst e of Assistant \<Rightarrow> snd e | User \<Rightarrow> [])
        (map (\<lambda>m. (role_of m, List.map_filter block_call (content_of m))) xs))" for xs
    proof (induction xs)
      case (Cons m xs)
      then show ?case by (cases "role_of m") (simp_all add: message_calls_def)
    qed simp
    show ?thesis by (simp only: calls_of kept_calls)
  qed
  have sent_concat: "sent f (concat (map g xs)) = concat (map (\<lambda>m. sent f (g m)) xs)"
    for f :: "api_block \<Rightarrow> 'b option" and g :: "message \<Rightarrow> api_message list" and xs
    by (induction xs) simp_all
  show "sent sent_call (formatted o1 ms) = map sanitize_tool_id (all_ids block_call ms)"
    using arg_cong [OF calls, of "map sanitize_tool_id"]
    by (simp add: formatted_def sent_merged sent_concat format_message_sent all_ids_def map_concat comp_def)
  have two: "mset (concat (map (\<lambda>m. a m @ b m) xs)) = mset (concat (map a xs)) + mset (concat (map b xs))"
    for a b :: "message \<Rightarrow> 'c list" and xs by (induction xs) simp_all
  have open_calls: "i \<in> dangling (dedupe_tool_results ms) \<longleftrightarrow> i \<notin> fst ` set (results_in ms)"
    if "i \<in> set (conversation_calls ms)" for i
  proof -
    have "i \<in> set (all_ids block_call ms)"
      using that by (auto simp: all_ids_def conversation_calls_def message_calls_def split: role.splits)
    moreover have "all_ids block_call (dedupe_tool_results ms) = all_ids block_call ms"
      using calls by (simp add: all_ids_def)
    ultimately show ?thesis by (simp add: dangling_def all_result_ids deduped_ids)
  qed
  have each: "concat (map (\<lambda>m. map f (filter P (message_calls m))) xs) = map f (filter P (conversation_calls xs))"
    for f :: "rstr \<Rightarrow> 'c" and P xs by (induction xs) simp_all
  have missing: "filter (\<lambda>i. i \<in> dangling (dedupe_tool_results ms)) (conversation_calls ms) = unanswered ms"
    unfolding unanswered_def by (rule filter_cong [OF refl open_calls])
  show "mset (sent sent_result (formatted o1 ms)) =
     mset (map clean_result (results_in (dedupe_tool_results ms)))
     + mset (map (\<lambda>i. (sanitize_tool_id i, INTERRUPTED_TEXT, True)) (unanswered ms))"
    by (simp add: formatted_def sent_merged sent_concat format_message_sent two each own missing results_in_def map_concat comp_def
        del: mset_map)
qed


section \<open>Calls answered at once\<close>

definition calls_in :: "api_message \<Rightarrow> rstr set" where
  "calls_in m = (if api_role m = Assistant then set (List.map_filter sent_call (api_content m)) else {})"

definition ids_answered :: "api_message list \<Rightarrow> rstr set" where
  "ids_answered r = fst ` set (sent sent_result r)"

text \<open>In the request: a turn's calls are answered in the next one.\<close>

fun answered_next :: "api_message list \<Rightarrow> bool" where
  "answered_next [] = True"
| "answered_next (m # r) = (calls_in m \<subseteq> ids_answered (take 1 r) \<and> answered_next r)"

text \<open>In the conversation: a call's result, if it has one, stands before the assistant's next turn.\<close>

fun answered_promptly :: "rstr set \<Rightarrow> message list \<Rightarrow> bool" where
  "answered_promptly ids [] = True"
| "answered_promptly ids (m # ms) =
     (set (message_calls m) \<inter> ids \<subseteq> fst ` set (results_in (takeWhile (\<lambda>n. role_of n = User) ms))
      \<and> answered_promptly ids ms)"

text \<open>Between the two, before turns are merged.\<close>

definition user_run :: "api_message list \<Rightarrow> api_message list" where
  "user_run r = takeWhile (\<lambda>n. api_role n = User) r"

fun answered_in_run :: "api_message list \<Rightarrow> bool" where
  "answered_in_run [] = True"
| "answered_in_run (m # r) = (calls_in m \<subseteq> ids_answered (user_run r) \<and> answered_in_run r)"

lemma ids_answered_simps [simp]:
  "ids_answered [] = {}" "ids_answered (as @ bs) = ids_answered as \<union> ids_answered bs"
  "ids_answered (m # r) = fst ` set (List.map_filter sent_result (api_content m)) \<union> ids_answered r"
  by (simp_all add: ids_answered_def image_Un)

lemma user_calls [simp]: "api_role m = User \<Longrightarrow> calls_in m = {}"
  by (simp add: calls_in_def)

lemma merged_run:
  "answered_in_run r \<Longrightarrow>
     answered_next (merge_right r) \<and> (if r \<noteq> [] \<and> api_role (hd r) = User
       then ids_answered (take 1 (merge_right r)) = ids_answered (user_run r) else user_run r = [])"
proof (induction r)
  case (Cons m r)
  show ?case
  proof (cases "merge_right r")
    case Nil
    then show ?thesis using Cons.prems by (auto simp: user_run_def)
  next
    case (Cons n ns)
    then have "r \<noteq> []" by auto
    then have r: "r \<noteq> []" "api_role (hd r) = api_role n" using merge_right_role [of r] Cons by simp_all
    then show ?thesis
      using Cons.prems Cons.IH Cons
      by (cases "api_role m"; cases "api_role n") (auto simp: user_run_def calls_in_def split: if_splits)
  qed
qed (simp add: user_run_def)

lemma formatted_run:
  "(\<lambda>i. sanitize_tool_id i) ` fst ` set (results_in (takeWhile (\<lambda>n. role_of n = User) ms))
     \<subseteq> ids_answered (user_run (concat (map (format_message o1 ids) ms)))"
proof (induction ms)
  case (Cons m ms)
  show ?case
  proof (cases "role_of m")
    case User
    have "takeWhile (\<lambda>n. api_role n = User) (api_turn User bs @ r) = api_turn User bs @ takeWhile (\<lambda>n. api_role n = User) r"
      for bs r by (simp add: api_turn_def)
    moreover have "ids_answered (api_turn User bs) = fst ` set (List.map_filter sent_result bs)" for bs
      by (simp add: api_turn_def)
    ultimately show ?thesis
      using Cons User
      by (simp add: format_message_def user_run_def format_keeps results_in_def image_Un image_image clean_result_def)
        blast
  qed (simp add: results_in_def)
qed (simp add: results_in_def)

lemma formatted_answered:
  assumes "answered_promptly answers ms" and "\<And>m i. m \<in> set ms \<Longrightarrow> i \<in> set (message_calls m) \<Longrightarrow> i \<in> answers \<or> i \<in> ids"
  shows "answered_in_run (concat (map (format_message o1 ids) ms))"
  using assms
proof (induction ms)
  case (Cons m ms)
  let ?rest = "concat (map (format_message o1 ids) ms)"
  let ?synthetic = "map synthetic_result (filter (\<lambda>i. i \<in> ids) (List.map_filter block_call (content_of m)))"
  have rest: "answered_in_run ?rest" using Cons.prems by (intro Cons.IH) auto
  have users: "answered_in_run (api_turn User bs @ r) = answered_in_run r" for bs r by (simp add: api_turn_def)
  show ?case
  proof (cases "role_of m")
    case User
    then have "format_message o1 ids m = api_turn User (format_content_blocks o1 (content_of m))"
      by (simp add: format_message_def)
    then show ?thesis using rest by (simp add: users)
  next
    case Assistant
    have "sanitize_tool_id i \<in> ids_answered (user_run (api_turn User ?synthetic @ ?rest))"
      if "i \<in> set (message_calls m)" for i
    proof (cases "i \<in> ids")
      case True
      then have "i \<in> set (filter (\<lambda>i. i \<in> ids) (List.map_filter block_call (content_of m)))"
        using that by (simp add: message_calls_def Assistant)
      then show ?thesis by (auto simp: api_turn_def user_run_def synthetic_sent image_image filter_empty_conv)
    next
      case False
      then have "i \<in> fst ` set (results_in (takeWhile (\<lambda>n. role_of n = User) ms))"
        using Cons.prems that by fastforce
      then have "sanitize_tool_id i \<in> ids_answered (user_run ?rest)" using formatted_run [of ms o1 ids] by blast
      then show ?thesis by (simp add: api_turn_def user_run_def)
    qed
    then have "sanitize_tool_id ` set (List.map_filter block_call (content_of m))
        \<subseteq> ids_answered (user_run (api_turn User ?synthetic @ ?rest))"
      by (auto simp: message_calls_def Assistant)
    then have "answered_in_run (api_turn Assistant (format_content_blocks o1 (content_of m)) @ api_turn User ?synthetic @ ?rest)"
      using rest users [of ?synthetic ?rest] by (simp add: api_turn_def [of Assistant] calls_in_def format_keeps)
    moreover have "format_message o1 ids m = api_turn Assistant (format_content_blocks o1 (content_of m)) @ api_turn User ?synthetic"
      by (simp add: format_message_def Assistant)
    ultimately show ?thesis by simp
  qed
qed simp


definition prompt_conversation :: "message list" where
  "prompt_conversation =
     [\<lparr>role_of = User, content_of = [Text ''go'' None]\<rparr>,
      \<lparr>role_of = Assistant, content_of = [ToolUse ''a'' ''read'' (JObject []) None, ToolUse ''b'' ''bash'' JNull None]\<rparr>,
      \<lparr>role_of = User, content_of = [Text ''wait'' None]\<rparr>,
      \<lparr>role_of = User, content_of = [ToolResult ''b'' ''done'' None, Image ''png'' ''AA'', Text ''label'' None]\<rparr>,
      \<lparr>role_of = Assistant, content_of = [Text ''ok'' None]\<rparr>]"


section \<open>Where the protocol is left\<close>

text \<open>A result that comes after the assistant has spoken again is left there; it is only logged.\<close>

definition late_conversation :: "message list" where
  "late_conversation =
     [\<lparr>role_of = Assistant, content_of = [ToolUse ''a'' ''read'' (JObject []) None]\<rparr>,
      \<lparr>role_of = User, content_of = [Text ''wait'' None]\<rparr>,
      \<lparr>role_of = Assistant, content_of = [Text ''ok'' None]\<rparr>,
      \<lparr>role_of = User, content_of = [ToolResult ''a'' ''one'' None]\<rparr>]"

lemma late_result_stays_late:
  "\<not> answered_next (format_messages False late_conversation)"
  "sent sent_result (format_messages False late_conversation) = [(''a'', ''one'', False)]"
  by code_simp+

text \<open>Ids that become one by the cleaning are answered twice, which the deduplication is there to prevent.\<close>

lemma cleaned_ids_answered_twice:
  "sent sent_result (format_messages False
     [\<lparr>role_of = Assistant, content_of =
        [ToolUse ''f.1'' ''read'' (JObject []) None, ToolUse ''f:1'' ''bash'' (JObject []) None]\<rparr>,
      \<lparr>role_of = User, content_of = [ToolResult ''f.1'' ''one'' None, ToolResult ''f:1'' ''two'' None]\<rparr>])
   = [(''f_1'', ''one'', False), (''f_1'', ''two'', False)]"
  by code_simp

end
