(* ===== verification/Anthropic_Tools.thy ===== *)
theory Anthropic_Tools
  imports Anthropic_Messages Strict_Schema "HOL-Library.Multiset"
begin

text \<open>
  The tools of a request to Anthropic, \<open>format_tools\<close> of
  \<open>crates/kcode-provider-anthropic/src/lib.rs\<close>. Under a subscription's login five local tools are
  replaced by definitions of the official client, the others are sent under its names; the
  last tool carries a mark of the prompt cache. The objects of a schema list their keys in
  order, as serde does.
\<close>

record claude_tool =
  claude_name :: rstr
  claude_description :: rstr
  claude_schema :: json
  claude_cache :: "cache_param option"

definition OAUTH_BUILTIN_LOCAL_TOOLS :: "rstr list" where
  "OAUTH_BUILTIN_LOCAL_TOOLS = [''subagent'', ''edit'', ''read'', ''skill_manage'', ''write'']"

definition anthropic_input_schema :: "json \<Rightarrow> quirk_store \<Rightarrow> json \<times> quirk_store" where
  "anthropic_input_schema schema s = normalize_schema schema ANTHROPIC s"

definition typed :: "rstr \<Rightarrow> json" where
  "typed t = JObject [(''type'', JString t)]"

definition closed_object :: "(rstr \<times> json) list \<Rightarrow> rstr list \<Rightarrow> json" where
  "closed_object props required =
     JObject [(''additionalProperties'', JBool False), (''properties'', JObject props),
              (''required'', JArray (map JString required)), (''type'', JString ''object'')]"

definition curated_tool :: "rstr \<Rightarrow> rstr \<Rightarrow> json \<Rightarrow> claude_tool" where
  "curated_tool name description schema =
     \<lparr>claude_name = name, claude_description = description, claude_schema = schema, claude_cache = None\<rparr>"

definition curated_tools :: "(rstr list \<times> claude_tool) list" where
  "curated_tools =
     [([''subagent''],
       curated_tool ''Agent'' ''Launch a new agent to handle complex, multi-step tasks.''
         (closed_object
            [(''description'', typed ''string''), (''prompt'', typed ''string''),
             (''run_in_background'', typed ''boolean''), (''subagent_type'', typed ''string'')]
            [''description'', ''prompt''])),
      ([''edit''],
       curated_tool ''Edit'' ''Performs exact string replacements in files.''
         (closed_object
            [(''file_path'', typed ''string''), (''new_string'', typed ''string''), (''old_string'', typed ''string''),
             (''replace_all'', JObject [(''default'', JBool False), (''type'', JString ''boolean'')])]
            [''file_path'', ''old_string'', ''new_string''])),
      ([''read''],
       curated_tool ''Read'' ''Reads a file from the local filesystem.''
         (closed_object
            [(''file_path'', typed ''string''),
             (''limit'', JObject [(''exclusiveMinimum'', JNumber ''0''), (''type'', JString ''integer'')]),
             (''offset'', JObject [(''minimum'', JNumber ''0''), (''type'', JString ''integer'')]),
             (''pages'', typed ''string'')]
            [''file_path''])),
      ([''skill_manage''],
       curated_tool ''Skill'' ''Execute a skill within the main conversation''
         (closed_object [(''args'', typed ''string''), (''skill'', typed ''string'')] [''skill''])),
      ([''write''],
       curated_tool ''Write'' ''Writes a file to the local filesystem.''
         (closed_object [(''content'', typed ''string''), (''file_path'', typed ''string'')] [''file_path'', ''content'']))]"

definition has_backing :: "tool_definition list \<Rightarrow> rstr list \<Rightarrow> bool" where
  "has_backing tools candidates = list_ex (\<lambda>c. list_ex (\<lambda>t. tool_name t = c) tools) candidates"

definition curated_for :: "tool_definition list \<Rightarrow> claude_tool list" where
  "curated_for tools = map snd (filter (\<lambda>e. has_backing tools (fst e)) curated_tools)"

text \<open>A registered tool, under the name it is sent with.\<close>

definition forwarded :: "(rstr \<Rightarrow> rstr) \<Rightarrow> tool_definition \<Rightarrow> quirk_store \<Rightarrow> claude_tool \<times> quirk_store" where
  "forwarded rename t s =
     (case anthropic_input_schema (input_schema t) s of
        (schema, s') \<Rightarrow>
          (\<lparr>claude_name = rename (tool_name t), claude_description = tool_description t,
            claude_schema = schema, claude_cache = None\<rparr>, s'))"

fun forward_tools :: "(rstr \<Rightarrow> rstr) \<Rightarrow> tool_definition list \<Rightarrow> quirk_store \<Rightarrow> claude_tool list \<times> quirk_store" where
  "forward_tools rename [] s = ([], s)"
| "forward_tools rename (t # ts) s =
     (case forwarded rename t s of
        (c, s1) \<Rightarrow> (case forward_tools rename ts s1 of (cs, s2) \<Rightarrow> (c # cs, s2)))"

definition mark_last_tool :: "bool \<Rightarrow> claude_tool list \<Rightarrow> claude_tool list" where
  "mark_last_tool cache_ttl_1h out =
     (if out = [] then []
      else butlast out @ [(last out)\<lparr>claude_cache := Some (ephemeral cache_ttl_1h)\<rparr>])"

definition format_tools ::
  "tool_definition list \<Rightarrow> bool \<Rightarrow> bool \<Rightarrow> quirk_store \<Rightarrow> claude_tool list \<times> quirk_store" where
  "format_tools tools is_oauth cache_ttl_1h s =
     (if is_oauth then
        (case forward_tools map_tool_name_for_oauth
                (filter (\<lambda>t. tool_name t \<notin> set OAUTH_BUILTIN_LOCAL_TOOLS) tools) s of
           (rest, s') \<Rightarrow> (mark_last_tool cache_ttl_1h (curated_for tools @ rest), s'))
      else
        (case forward_tools (\<lambda>n. n) tools s of (out, s') \<Rightarrow> (mark_last_tool cache_ttl_1h out, s')))"

section \<open>What is advertised\<close>

lemma mark_last_names [simp]: "map claude_name (mark_last_tool t out) = map claude_name out"
  by (cases out rule: rev_cases) (simp_all add: mark_last_tool_def)

lemma mark_last_schemas [simp]: "map claude_schema (mark_last_tool t out) = map claude_schema out"
  by (cases out rule: rev_cases) (simp_all add: mark_last_tool_def)

lemma forward_step:
  "fst (forward_tools rename (t # ts) s) =
     \<lparr>claude_name = rename (tool_name t), claude_description = tool_description t,
      claude_schema = fst (normalize_schema (input_schema t) ANTHROPIC s), claude_cache = None\<rparr>
     # fst (forward_tools rename ts (snd (forwarded rename t s)))"
  by (simp add: forwarded_def anthropic_input_schema_def split_beta)

lemma forwarded_names: "map claude_name (fst (forward_tools rename ts s)) = map (\<lambda>t. rename (tool_name t)) ts"
  by (induction ts arbitrary: s) (simp_all add: forward_step del: forward_tools.simps(2))

lemma forwarded_unmarked: "list_all (\<lambda>c. claude_cache c = None) (fst (forward_tools rename ts s))"
  by (induction ts arbitrary: s) (simp_all add: forward_step del: forward_tools.simps(2))

lemma anthropic_conforms: "must_not_contain_unsupported (fst (normalize_schema schema ANTHROPIC s)) ANTHROPIC = []"
proof -
  have "validate ANTHROPIC = Inr ()" "\<not> flatten_all (transforms ANTHROPIC)"
    "\<not> (prune_dangling (transforms ANTHROPIC) \<and> require_properties (transforms ANTHROPIC))" by code_simp+
  moreover obtain q where "fst (normalize_schema schema ANTHROPIC s) = apply_with_quirks schema ANTHROPIC q"
    using normalize_applies by blast
  ultimately show ?thesis
    using apply_conforming [of ANTHROPIC q schema] conforming_checked
    by (simp add: must_not_contain_unsupported_def coherent_def)
qed

lemma forwarded_conform:
  "list_all (\<lambda>j. must_not_contain_unsupported j ANTHROPIC = []) (map claude_schema (fst (forward_tools rename ts s)))"
  by (induction ts arbitrary: s) (simp_all add: forward_step anthropic_conforms del: forward_tools.simps(2))

lemma curated_conform:
  "list_all (\<lambda>e. must_not_contain_unsupported (claude_schema (snd e)) ANTHROPIC = []) curated_tools"
  by code_simp

text \<open>
  No tool of a request to Anthropic has a schema the provider rejects: for any registered
  tools, with or without a subscription's login and whatever was learned from rejections, the
  crate's own check finds nothing in any of the schemas sent.
\<close>

theorem anthropic_tools_conform:
  "list_all (\<lambda>j. must_not_contain_unsupported j ANTHROPIC = [])
     (map claude_schema (fst (format_tools tools is_oauth cache_ttl_1h s)))"
proof -
  have "list_all (\<lambda>j. must_not_contain_unsupported j ANTHROPIC = []) (map claude_schema (curated_for tools))"
    using curated_conform by (auto simp: curated_for_def list_all_iff)
  then show ?thesis
    using forwarded_conform by (simp add: format_tools_def split_beta del: list.pred_map)
qed

text \<open>Names go out and come back.\<close>

lemma oauth_names_swap: "list_all (\<lambda>e. map_of (map prod.swap OAUTH_TOOL_NAMES) (snd e) = Some (fst e)) OAUTH_TOOL_NAMES"
  by code_simp

lemma oauth_name_back:
  assumes "name \<notin> snd ` set OAUTH_TOOL_NAMES"
  shows "map_tool_name_from_oauth (map_tool_name_for_oauth name) = name"
proof (cases "map_of OAUTH_TOOL_NAMES name")
  case None
  have "name \<notin> fst ` set (map prod.swap OAUTH_TOOL_NAMES)" using assms by (simp add: image_image)
  then have "map_of (map prod.swap OAUTH_TOOL_NAMES) name = None" unfolding map_of_eq_None_iff .
  then show ?thesis using None by (simp add: map_tool_name_for_oauth_def map_tool_name_from_oauth_def)
next
  case (Some n)
  then have "(name, n) \<in> set OAUTH_TOOL_NAMES" by (rule map_of_SomeD)
  then have "map_of (map prod.swap OAUTH_TOOL_NAMES) n = Some name" using oauth_names_swap by (auto simp: list_all_iff)
  then show ?thesis using Some by (simp add: map_tool_name_for_oauth_def map_tool_name_from_oauth_def)
qed

lemma curated_backing:
  "map fst curated_tools = map (\<lambda>n. [n]) OAUTH_BUILTIN_LOCAL_TOOLS"
  "map (\<lambda>e. map_tool_name_from_oauth (claude_name (snd e))) curated_tools = OAUTH_BUILTIN_LOCAL_TOOLS"
  by code_simp+

lemma curated_names_back:
  "map (\<lambda>c. map_tool_name_from_oauth (claude_name c)) (curated_for tools)
     = filter (\<lambda>n. n \<in> tool_name ` set tools) OAUTH_BUILTIN_LOCAL_TOOLS"
proof -
  have backed: "has_backing tools [n] \<longleftrightarrow> n \<in> tool_name ` set tools" for n
    by (auto simp: has_backing_def list_ex_iff)
  have "map (\<lambda>e. f (snd e)) (filter (\<lambda>e. has_backing tools (fst e)) es) = filter (\<lambda>n. n \<in> tool_name ` set tools) ns"
    if "map fst es = map (\<lambda>n. [n]) ns" "map (\<lambda>e. f (snd e)) es = ns" for es ns and f :: "claude_tool \<Rightarrow> rstr"
    using that by (induction es arbitrary: ns) (auto simp: backed)
  from this [OF curated_backing] show ?thesis by (simp add: curated_for_def comp_def)
qed

text \<open>
  C28: Under a subscription's login the model is offered every registered tool once and nothing
  else: mapped back, the names sent are those of the registered tools, when these have different
  names and none is itself one of the official client's.
\<close>

theorem oauth_tools_resolve:
  assumes "distinct (map tool_name tools)" and "snd ` set OAUTH_TOOL_NAMES \<inter> tool_name ` set tools = {}"
  shows "mset (map (\<lambda>c. map_tool_name_from_oauth (claude_name c)) (fst (format_tools tools True cache_ttl_1h s)))
    = mset (map tool_name tools)"
proof -
  let ?rest = "filter (\<lambda>t. tool_name t \<notin> set OAUTH_BUILTIN_LOCAL_TOOLS) tools"
  let ?home = "\<lambda>c. map_tool_name_from_oauth (claude_name c)"
  have names: "map ?home cs = map map_tool_name_from_oauth (map claude_name cs)" for cs by simp
  have "map ?home (fst (format_tools tools True cache_ttl_1h s))
      = map ?home (curated_for tools)
        @ map map_tool_name_from_oauth (map claude_name (fst (forward_tools map_tool_name_for_oauth ?rest s)))"
    unfolding names by (simp add: format_tools_def split_beta del: map_map)
  also have "\<dots> = filter (\<lambda>n. n \<in> tool_name ` set tools) OAUTH_BUILTIN_LOCAL_TOOLS @ map tool_name ?rest"
  proof -
    have "map map_tool_name_from_oauth (map (\<lambda>t. map_tool_name_for_oauth (tool_name t)) ?rest) = map tool_name ?rest"
      using assms(2) by (auto intro!: oauth_name_back)
    then show ?thesis by (simp only: curated_names_back forwarded_names)
  qed
  finally have "mset (map ?home (fst (format_tools tools True cache_ttl_1h s)))
      = mset (filter (\<lambda>n. n \<in> tool_name ` set tools) OAUTH_BUILTIN_LOCAL_TOOLS) + mset (map tool_name ?rest)"
    by simp
  also have "mset (filter (\<lambda>n. n \<in> tool_name ` set tools) OAUTH_BUILTIN_LOCAL_TOOLS) = mset (filter (\<lambda>n. n \<in> set OAUTH_BUILTIN_LOCAL_TOOLS) (map tool_name tools))"
  proof -
    have "distinct OAUTH_BUILTIN_LOCAL_TOOLS" by code_simp
    then show ?thesis
      using assms(1) by (subst set_eq_iff_mset_eq_distinct [symmetric]) auto
  qed
  also have "map tool_name ?rest = filter (\<lambda>n. n \<notin> set OAUTH_BUILTIN_LOCAL_TOOLS) (map tool_name tools)"
    by (simp add: filter_map comp_def)
  also have "mset (filter (\<lambda>n. n \<in> set OAUTH_BUILTIN_LOCAL_TOOLS) (map tool_name tools))
      + mset (filter (\<lambda>n. n \<notin> set OAUTH_BUILTIN_LOCAL_TOOLS) (map tool_name tools)) = mset (map tool_name tools)"
    by (simp add: multiset_partition [symmetric])
  finally show ?thesis .
qed

definition sample_registry :: "tool_definition list" where
  "sample_registry =
     [\<lparr>tool_name = ''read'', tool_description = ''raw'', input_schema = JObject []\<rparr>,
      \<lparr>tool_name = ''bash'', tool_description = ''run'', input_schema = JObject [(''oneOf'', JArray [])]\<rparr>]"

theorem oauth_tools_resolve_witness:
  "mset (map (\<lambda>c. map_tool_name_from_oauth (claude_name c)) (fst (format_tools sample_registry True False empty_store)))
     = mset [''read'', ''bash'']
   \<and> map claude_name (fst (format_tools sample_registry True False empty_store)) = [''Read'', ''Bash'']"
proof
  have "distinct (map tool_name sample_registry)" "snd ` set OAUTH_TOOL_NAMES \<inter> tool_name ` set sample_registry = {}"
    by code_simp+
  moreover have "map tool_name sample_registry = [''read'', ''bash'']" by code_simp
  ultimately show "mset (map (\<lambda>c. map_tool_name_from_oauth (claude_name c)) (fst (format_tools sample_registry True False empty_store)))
     = mset [''read'', ''bash'']"
    using oauth_tools_resolve [of sample_registry False empty_store] by (simp only:)
  show "map claude_name (fst (format_tools sample_registry True False empty_store)) = [''Read'', ''Bash'']" by code_simp
qed

end
