(* ===== verification/Anthropic_Cache.thy ===== *)
theory Anthropic_Cache
  imports Anthropic_Properties Anthropic_Tools
begin

text \<open>
  The marks of Anthropic's prompt cache: there are never more of them than the protocol allows,
  they stand on the assistant's turns and change nothing else, and memory appended to the
  conversation does not move them.
\<close>

section \<open>Marks\<close>

fun block_mark :: "api_block \<Rightarrow> cache_param option" where
  "block_mark (Api_Text t c) = c"
| "block_mark (Api_Use i n inp c) = c"
| "block_mark b = None"

fun clear_mark :: "api_block \<Rightarrow> api_block" where
  "clear_mark (Api_Text t c) = Api_Text t None"
| "clear_mark (Api_Use i n inp c) = Api_Use i n inp None"
| "clear_mark b = b"

definition marks :: "api_message \<Rightarrow> nat" where
  "marks m = length (List.map_filter block_mark (api_content m))"

definition clear_marks :: "api_message \<Rightarrow> api_message" where
  "clear_marks m = m\<lparr>api_content := map clear_mark (api_content m)\<rparr>"

definition unmarked :: "api_message \<Rightarrow> bool" where
  "unmarked m = list_all (\<lambda>b. block_mark b = None) (api_content m)"

lemma unmarked_block: "block_mark b = None \<Longrightarrow> clear_mark b = b"
  by (cases b) simp_all

lemma unmarked_clear: "unmarked m \<Longrightarrow> clear_marks m = m"
  by (simp add: unmarked_def clear_marks_def list_all_iff unmarked_block map_idI)

lemma unmarked_marks: "unmarked m \<Longrightarrow> marks m = 0"
  by (simp add: unmarked_def marks_def List.map_filter_def list_all_iff filter_False)

text \<open>What \<open>format_messages\<close> builds is not marked.\<close>

lemma join_unmarked:
  assumes "list_all (\<lambda>b. block_mark b = None) bs" and "block_mark nb = None"
    and "\<And>b b'. joined b = Some b' \<Longrightarrow> block_mark b' = None"
  shows "list_all (\<lambda>b. block_mark b = None) (join_last joined nb bs)"
  using assms by (cases bs rule: rev_cases) (auto simp: join_last_def split: option.split)

lemma fold_text_unmarked: "fold_text t b = Some b' \<Longrightarrow> block_mark b' = None"
  by (induction t b rule: fold_text.induct) (auto split: if_splits)

lemma fold_image_unmarked: "fold_image m d b = Some b' \<Longrightarrow> block_mark b' = None"
  by (induction m d b rule: fold_image.induct) auto

lemma format_block_unmarked:
  "list_all (\<lambda>b. block_mark b = None) bs \<Longrightarrow> list_all (\<lambda>b. block_mark b = None) (format_block o1 b bs)"
  by (cases b) (simp_all add: join_unmarked fold_text_unmarked fold_image_unmarked)

lemma format_unmarked: "list_all (\<lambda>b. block_mark b = None) (format_content_blocks o1 bs)"
proof -
  have "list_all (\<lambda>b. block_mark b = None) acc \<Longrightarrow> list_all (\<lambda>b. block_mark b = None) (fold (format_block o1) bs acc)" for acc
    by (induction bs arbitrary: acc) (simp_all add: format_block_unmarked)
  then show ?thesis by (simp add: format_content_blocks_def)
qed

lemma api_turn_unmarked: "list_all (\<lambda>b. block_mark b = None) bs \<Longrightarrow> list_all unmarked (api_turn r bs)"
  by (simp add: api_turn_def unmarked_def)

lemma format_message_unmarked: "list_all unmarked (format_message o1 ids m)"
proof -
  have "list_all (\<lambda>b. block_mark b = None) (map synthetic_result xs)" for xs
    by (simp add: list_all_iff synthetic_result_def)
  then show ?thesis by (simp add: format_message_def api_turn_unmarked format_unmarked)
qed

lemma merged_unmarked: "list_all unmarked ms \<Longrightarrow> list_all unmarked (merge_right ms)"
  by (induction ms) (auto simp: unmarked_def split: list.split)

lemma formatted_unmarked: "list_all unmarked (formatted o1 ms)"
proof -
  have "list_all unmarked (concat (map (format_message o1 ids) xs))" for ids xs
    using format_message_unmarked by (induction xs) simp_all
  then show ?thesis by (simp add: formatted_def merged_unmarked)
qed

lemma format_messages_unmarked: "list_all unmarked (format_messages o1 ms)"
  using formatted_unmarked [of o1 ms] by (auto simp: format_messages_eq end_with_user_def unmarked_def)

section \<open>Where marks go\<close>

lemma mark_block_spec: "mark_block p b = Some b' \<Longrightarrow> block_mark b' = Some p \<and> clear_mark b' = clear_mark b"
  by (cases b) auto

lemma mark_first_clear: "map clear_mark (mark_first p bs) = map clear_mark bs"
  by (induction bs) (auto split: option.split dest: mark_block_spec)

lemma mark_first_marks:
  "list_all (\<lambda>b. block_mark b = None) bs \<Longrightarrow> length (List.map_filter block_mark (mark_first p bs)) \<le> 1"
proof (induction bs)
  case (Cons b bs)
  show ?case
  proof (cases "mark_block p b")
    case None
    then show ?thesis using Cons by (simp add: List.map_filter_simps)
  next
    case (Some b')
    have "List.map_filter block_mark bs = []" using Cons.prems by (simp add: List.map_filter_def list_all_iff filter_False)
    then show ?thesis using Some mark_block_spec [OF Some] by (simp add: List.map_filter_simps)
  qed
qed (simp add: List.map_filter_simps)

lemma map_filter_rev: "List.map_filter f (rev xs) = rev (List.map_filter f xs)"
  by (simp add: List.map_filter_def rev_filter rev_map)

lemma mark_message_spec:
  "clear_marks (mark_message p m) = clear_marks m" "api_role (mark_message p m) = api_role m"
  "unmarked m \<Longrightarrow> marks (mark_message p m) \<le> 1"
proof -
  show "clear_marks (mark_message p m) = clear_marks m"
    using arg_cong [OF mark_first_clear [of p "rev (api_content m)"], of rev]
    by (simp add: clear_marks_def mark_message_def rev_map)
  show "api_role (mark_message p m) = api_role m" by (simp add: mark_message_def)
  show "unmarked m \<Longrightarrow> marks (mark_message p m) \<le> 1"
    using mark_first_marks [of "rev (api_content m)" p]
    by (simp add: marks_def mark_message_def unmarked_def map_filter_rev list_all_iff)
qed

text \<open>The messages marked, as a function of the position.\<close>

lemma update_each:
  assumes "distinct ks" and "\<forall>k \<in> set ks. k < length ms"
  shows "fold (\<lambda>k out. out[k := f (out ! k)]) ks ms
    = map (\<lambda>k. if k \<in> set ks then f (ms ! k) else ms ! k) [0..<length ms]"
  using assms
proof (induction ks arbitrary: ms)
  case Nil
  then show ?case by (simp add: map_nth)
next
  case (Cons k ks)
  then show ?case by (auto intro!: nth_equalityI simp: nth_list_update)
qed

lemma assistant_indices_spec:
  "distinct (assistant_indices ms)" "length (assistant_indices ms) \<le> 2"
  "k \<in> set (assistant_indices ms) \<Longrightarrow> k < length ms \<and> api_role (ms ! k) = Assistant"
  by (auto simp: assistant_indices_def dest: in_set_takeD)

lemma breakpoints_eq:
  "add_message_cache_breakpoint t ms =
     (if length ms < 3 then ms
      else map (\<lambda>k. if k \<in> set (assistant_indices ms) then mark_message (ephemeral t) (ms ! k) else ms ! k) [0..<length ms])"
  using update_each [of "assistant_indices ms" ms] assistant_indices_spec
  by (simp add: add_message_cache_breakpoint_def)

lemma breakpoints_marks:
  assumes "list_all unmarked ms"
  shows "sum_list (map marks (add_message_cache_breakpoint t ms)) \<le> 2"
proof (cases "length ms < 3")
  case True
  have "sum_list (map marks ms) = 0" using assms by (simp add: sum_list_eq_0_iff list_all_iff unmarked_marks)
  then have "sum_list (map marks ms) \<le> 2" by linarith
  then show ?thesis using True by (simp add: breakpoints_eq)
next
  case False
  let ?ks = "set (assistant_indices ms)"
  have "sum_list (map marks (add_message_cache_breakpoint t ms))
      \<le> sum_list (map (\<lambda>k. if k \<in> ?ks then 1 else 0) [0..<length ms])"
    unfolding breakpoints_eq using False assms mark_message_spec(3) unmarked_marks
    by (simp add: comp_def list_all_length) (intro sum_list_mono, auto)
  also have "\<dots> = card {k. k < length ms \<and> k \<in> ?ks}"
    by (simp add: sum_list_distinct_conv_sum_set sum.If_cases Int_def)
  also have "\<dots> \<le> card ?ks" by (rule card_mono) auto
  also have "\<dots> \<le> 2" using assistant_indices_spec(2) [of ms] card_length [of "assistant_indices ms"] by simp
  finally show ?thesis .
qed

text \<open>The whole request.\<close>

definition tool_marks :: "claude_tool list \<Rightarrow> nat" where
  "tool_marks out = length (List.map_filter claude_cache out)"

definition system_marks :: "system_block list option \<Rightarrow> nat" where
  "system_marks system = (case system of None \<Rightarrow> 0 | Some blocks \<Rightarrow> length (List.map_filter system_cache blocks))"

lemma system_marks_le: "system_marks (build_system_param_split st dy o1 t) \<le> 1"
  by (simp add: system_marks_def build_system_param_split_def system_blocks_def List.map_filter_def)

lemma tool_marks_le: "tool_marks (fst (format_tools tools o1 t s)) \<le> 1"
proof -
  have last: "tool_marks (mark_last_tool t out) \<le> 1" if "list_all (\<lambda>c. claude_cache c = None) out" for out
    using that by (cases out rule: rev_cases)
      (simp_all add: tool_marks_def mark_last_tool_def List.map_filter_def list_all_iff filter_False)
  have "list_all (\<lambda>e. claude_cache (snd e) = None) curated_tools" by code_simp
  then have "list_all (\<lambda>c. claude_cache c = None) (curated_for tools)" by (auto simp: curated_for_def list_all_iff)
  then show ?thesis using last forwarded_unmarked by (simp add: format_tools_def split_beta)
qed

text \<open>
  C26: A request carries at most the four marks of the prompt cache the protocol allows, counted
  over its tools, its system prompt and its messages; those of the messages stand on turns of
  the assistant, and without its marks a request is the one that was formatted.
\<close>

theorem cache_marks_fit:
  "tool_marks (fst (format_tools tools is_oauth cache_ttl_1h s))
     + system_marks (build_system_param_split static_part dynamic_part is_oauth cache_ttl_1h)
     + sum_list (map marks (add_message_cache_breakpoint cache_ttl_1h (format_messages is_oauth ms))) \<le> 4
   \<and> map clear_marks (add_message_cache_breakpoint cache_ttl_1h (format_messages is_oauth ms)) = format_messages is_oauth ms
   \<and> list_all (\<lambda>m. api_role m = Assistant)
       (filter (\<lambda>m. 0 < marks m) (add_message_cache_breakpoint cache_ttl_1h (format_messages is_oauth ms)))"
proof (intro conjI)
  let ?r = "format_messages is_oauth ms"
  have clean: "list_all unmarked ?r" by (rule format_messages_unmarked)
  show "tool_marks (fst (format_tools tools is_oauth cache_ttl_1h s))
     + system_marks (build_system_param_split static_part dynamic_part is_oauth cache_ttl_1h)
     + sum_list (map marks (add_message_cache_breakpoint cache_ttl_1h ?r)) \<le> 4"
    using tool_marks_le [of tools is_oauth cache_ttl_1h s] breakpoints_marks [OF clean, of cache_ttl_1h]
      system_marks_le [of static_part dynamic_part is_oauth cache_ttl_1h] by linarith
  have each: "clear_marks (?r ! k) = ?r ! k" "marks (?r ! k) = 0" if "k < length ?r" for k
    using clean that unmarked_clear unmarked_marks by (simp_all add: list_all_length)
  show "map clear_marks (add_message_cache_breakpoint cache_ttl_1h ?r) = ?r"
    using each(1) by (intro nth_equalityI) (auto simp: breakpoints_eq mark_message_spec)
  show "list_all (\<lambda>m. api_role m = Assistant) (filter (\<lambda>m. 0 < marks m) (add_message_cache_breakpoint cache_ttl_1h ?r))"
    using each(2) assistant_indices_spec(3) [of _ ?r] mark_message_spec(2)
    by (auto simp: breakpoints_eq list_all_iff in_set_conv_nth [of _ ?r] split: if_splits)
qed

section \<open>Appended memory\<close>

lemma positions_append_plain:
  "results_in [m] = [] \<Longrightarrow> positions n (ms @ [m]) = positions n ms"
proof (induction ms arbitrary: n)
  case Nil
  then have "map snd (positions n [m]) = []" by (simp only: positions_results)
  then show ?case by simp
qed simp

lemma dedupe_append_plain:
  assumes "List.map_filter block_tool_result (content_of m) = []"
  shows "dedupe_tool_results (ms @ [m]) = dedupe_tool_results ms @ [m]"
proof -
  have "filter (keeps_block W k) (enumerate j bs) = enumerate j bs"
    if "List.map_filter block_tool_result bs = []" for W k j bs
    using that
  proof (induction bs arbitrary: j)
    case (Cons b bs)
    then show ?case by (cases b) (simp_all add: List.map_filter_simps)
  qed simp
  then have "keep_winners W (k, m) = m" for W k using assms by (simp add: keep_winners_def)
  moreover have "positions 0 (ms @ [m]) = positions 0 ms"
    using assms by (intro positions_append_plain) (simp add: results_in_def)
  ultimately show ?thesis
    by (simp add: dedupe_tool_results_def winners_best enumerate_append_eq Let_def)
qed

definition memory_message :: "rstr \<Rightarrow> cache_control option \<Rightarrow> message" where
  "memory_message t c = \<lparr>role_of = User, content_of = [Text t c]\<rparr>"

lemma formatted_memory:
  "merge_roles (concat (map (format_message o1 (dangling (dedupe_tool_results (ms @ [memory_message t c]))))
      (dedupe_tool_results (ms @ [memory_message t c]))))
   = merge_message \<lparr>api_role = User, api_content = [Api_Text t None]\<rparr> (formatted o1 ms)"
proof -
  let ?m = "memory_message t c"
  have plain: "List.map_filter block_tool_result (content_of ?m) = []" by (simp add: memory_message_def List.map_filter_simps)
  have same: "dangling (xs @ [?m]) = dangling xs" for xs
    by (simp add: dangling_def all_ids_def memory_message_def List.map_filter_simps)
  have "format_message o1 ids ?m = [\<lparr>api_role = User, api_content = [Api_Text t None]\<rparr>]" for ids
    by (simp add: format_message_def memory_message_def api_turn_def format_content_blocks_def join_last_def)
  then show ?thesis
    by (simp add: dedupe_append_plain [OF plain] same formatted_def merge_roles_right [symmetric]) (simp add: merge_roles_def)
qed

text \<open>With or without memory: the same turns, then one of the user.\<close>

lemma same_but_last:
  "(\<exists>rs u u'. format_messages o1 ms = rs @ [u] \<and> format_messages o1 (ms @ [memory_message t c]) = rs @ [u']
      \<and> api_role u = User \<and> api_role u' = User)
   \<or> format_messages o1 ms = [] \<and> length (format_messages o1 (ms @ [memory_message t c])) = 1"
proof -
  let ?u = "\<lparr>api_role = User, api_content = [Api_Text t None]\<rparr>"
  have with_memory: "format_messages o1 (ms @ [memory_message t c]) = end_with_user (merge_message ?u (formatted o1 ms))"
    using formatted_memory [of o1 ms t c] by (simp add: format_messages_def Let_def)
  show ?thesis
  proof (cases "formatted o1 ms" rule: rev_cases)
    case Nil
    then show ?thesis by (simp add: with_memory format_messages_eq [of o1 ms] merge_message_def end_with_user_def)
  next
    case (snoc rs n)
    then show ?thesis
      by (cases "api_role n") (simp_all add: with_memory format_messages_eq [of o1 ms] merge_message_def end_with_user_def)
  qed
qed

lemma indices_but_last:
  assumes "api_role u = User" and "api_role v = User"
  shows "assistant_indices (rs @ [u]) = assistant_indices (rs @ [v])" "k \<in> set (assistant_indices (rs @ [u])) \<Longrightarrow> k < length rs"
proof -
  have "filter (\<lambda>k. api_role ((rs @ [w]) ! k) = Assistant) (rev [0..<length (rs @ [w])])
      = filter (\<lambda>k. api_role (rs ! k) = Assistant) (rev [0..<length rs])" if "api_role w = User" for w
    using that by (auto simp: nth_append intro!: filter_cong)
  then have indices: "assistant_indices (rs @ [w]) = take 2 (filter (\<lambda>k. api_role (rs ! k) = Assistant) (rev [0..<length rs]))"
    if "api_role w = User" for w using that by (simp only: assistant_indices_def)
  then show "assistant_indices (rs @ [u]) = assistant_indices (rs @ [v])" using assms by simp
  show "k \<in> set (assistant_indices (rs @ [u])) \<Longrightarrow> k < length rs"
    unfolding indices [OF assms(1)] by (auto dest: in_set_takeD)
qed

text \<open>
  C27: Memory appended to a conversation never costs the cache: every turn before the last,
  with the marks on it, is sent exactly as it would be without the memory.
\<close>

theorem memory_keeps_the_cached_turns:
  "butlast (add_message_cache_breakpoint cache_ttl_1h (format_messages is_oauth (ms @ [memory_message t c])))
   = butlast (add_message_cache_breakpoint cache_ttl_1h (format_messages is_oauth ms))"
proof -
  consider rs u u' where "format_messages is_oauth ms = rs @ [u]"
      "format_messages is_oauth (ms @ [memory_message t c]) = rs @ [u']" "api_role u = User" "api_role u' = User"
    | "format_messages is_oauth ms = []" "length (format_messages is_oauth (ms @ [memory_message t c])) = 1"
    using same_but_last [of is_oauth ms t c] by blast
  then show ?thesis
  proof cases
    case 1
    have "butlast (add_message_cache_breakpoint cache_ttl_1h (rs @ [w]))
        = (if length (rs @ [w]) < 3 then rs
           else map (\<lambda>k. if k \<in> set (assistant_indices (rs @ [w])) then mark_message (ephemeral cache_ttl_1h) (rs ! k) else rs ! k)
             [0..<length rs])" for w
      by (auto simp: breakpoints_eq nth_append intro!: map_cong)
    then show ?thesis
      using 1 indices_but_last(1) [of u u' rs] by simp
  next
    case 2
    then show ?thesis by (simp add: breakpoints_eq length_Suc_conv) (auto simp: length_Suc_conv)
  qed
qed

end
