(* ===== verification/Scalar_Text.thy ===== *)
theory Scalar_Text
  imports Prelude
begin

text \<open>
  Texts that the code takes apart character by character, as the list of their Unicode scalar
  values that \<open>chars()\<close> gives. Where the code counts characters, indices are positions in that
  list.
\<close>

type_synonym scalar = nat

type_synonym scalars = "nat list"

text \<open>\<open>char::is_whitespace\<close>: the characters with the property White\_Space.\<close>

definition is_whitespace :: "scalar \<Rightarrow> bool" where
  "is_whitespace c =
     (9 \<le> c \<and> c \<le> 13 \<or> c = 32 \<or> c = 133 \<or> c = 160 \<or> c = 5760 \<or> 8192 \<le> c \<and> c \<le> 8202
      \<or> c = 8232 \<or> c = 8233 \<or> c = 8239 \<or> c = 8287 \<or> c = 12288)"

definition scalar_width :: "scalar \<Rightarrow> nat" where
  "scalar_width c = (if c < 128 then 1 else if c < 2048 then 2 else if c < 65536 then 3 else 4)"

definition byte_len :: "scalars \<Rightarrow> nat" where
  "byte_len s = sum_list (map scalar_width s)"

fun scalar_words :: "scalars \<Rightarrow> scalars \<Rightarrow> scalars list" where
  "scalar_words w [] = (if w = [] then [] else [rev w])"
| "scalar_words w (c # s) =
     (if is_whitespace c then (if w = [] then scalar_words [] s else rev w # scalar_words [] s)
      else scalar_words (c # w) s)"

definition words_of :: "scalars \<Rightarrow> scalars list" where
  "words_of s = scalar_words [] s"

end
