(* ===== verification/Fuzzy_Match.thy ===== *)
theory Fuzzy_Match
  imports Scalar_Text
begin

text \<open>
  The matcher of pickers and slash commands, the crate \<open>crates/kcode-fuzzy\<close>. The lowercase
  mapping of a character is an argument. Scores are integers: they stay below \<open>2 ^ 31\<close> in size for texts shorter than a
  million characters, and saturate where the source says so.
\<close>

section \<open>Characters\<close>

definition lowered :: "(scalar \<Rightarrow> scalars) \<Rightarrow> scalars \<Rightarrow> scalars" where
  "lowered lower s = concat (map lower s)"

definition is_boundary :: "scalar \<Rightarrow> bool" where
  "is_boundary c = (c \<in> {47, 45, 95, 32, 46, 58})"

section \<open>Scores\<close>

definition MATCH :: int where "MATCH = 16"

definition CONSECUTIVE :: int where "CONSECUTIVE = 8"

definition BOUNDARY :: int where "BOUNDARY = 9"

definition FIRST :: int where "FIRST = 12"

definition GAP :: int where "GAP = -3"

definition LEADING_GAP :: int where "LEADING_GAP = -3"

definition SUBSTITUTION :: int where "SUBSTITUTION = -10"

definition DELETION :: int where "DELETION = -12"

definition TRANSPOSITION :: int where "TRANSPOSITION = 2 * MATCH - 22"

definition EXACT :: int where "EXACT = 32"

definition sat32 :: "int \<Rightarrow> int" where
  "sat32 x = max (- (2 ^ 31)) (min (2 ^ 31 - 1) x)"

definition error_budget :: "nat \<Rightarrow> nat" where
  "error_budget n = (if n \<le> 2 then 0 else if n \<le> 8 then 1 else 2)"

definition score_floor :: "nat \<Rightarrow> int" where
  "score_floor n = int n * MATCH * 15 div 20"

definition floor_score :: "int \<Rightarrow> nat option \<Rightarrow> int" where
  "floor_score score first =
     sat32 (score - sat32 (int (case first of Some p \<Rightarrow> p | None \<Rightarrow> 0) * LEADING_GAP))"

section \<open>Tracking positions\<close>

text \<open>The trait \<open>PositionTracker\<close>, and its two implementations.\<close>

record 'p tracker =
  no_pos :: 'p
  push_pos :: "'p \<Rightarrow> nat \<Rightarrow> 'p"
  pos_count :: "'p \<Rightarrow> nat"
  first_pos :: "'p \<Rightarrow> nat option"

definition vec_tracker :: "nat list tracker" where
  "vec_tracker =
     \<lparr>no_pos = [], push_pos = (\<lambda>ps p. ps @ [p]), pos_count = length,
      first_pos = (\<lambda>ps. case ps of [] \<Rightarrow> None | p # _ \<Rightarrow> Some p)\<rparr>"

definition summary_tracker :: "(nat \<times> nat option) tracker" where
  "summary_tracker =
     \<lparr>no_pos = (0, None),
      push_pos = (\<lambda>s p. (fst s + 1, if snd s = None then Some p else snd s)),
      pos_count = fst, first_pos = snd\<rparr>"

section \<open>The table\<close>

record 'p cell =
  score :: int
  errors :: nat
  last_at :: int
  tail_true :: bool
  matched :: 'p

definition better :: "'p tracker \<Rightarrow> 'p cell \<Rightarrow> 'p cell \<Rightarrow> bool" where
  "better T candidate existing =
     (score candidate > score existing
      \<or> score candidate = score existing \<and> errors candidate < errors existing
      \<or> score candidate = score existing \<and> errors candidate = errors existing
        \<and> pos_count T (matched candidate) > pos_count T (matched existing))"

definition keep_best :: "'p tracker \<Rightarrow> 'p cell \<Rightarrow> 'p cell option \<Rightarrow> 'p cell option" where
  "keep_best T candidate slot =
     (case slot of
        None \<Rightarrow> Some candidate
      | Some existing \<Rightarrow> if better T candidate existing then Some candidate else slot)"

definition start_cell :: "'p tracker \<Rightarrow> 'p cell" where
  "start_cell T = \<lparr>score = 0, errors = 0, last_at = -1, tail_true = True, matched = no_pos T\<rparr>"

definition lead :: "'p cell \<Rightarrow> 'p cell" where
  "lead c = c\<lparr>score := score c + LEADING_GAP\<rparr>"

definition gap :: "'p cell \<Rightarrow> 'p cell" where
  "gap c = c\<lparr>score := score c + GAP\<rparr>"

definition boundary_at :: "scalars \<Rightarrow> nat \<Rightarrow> int" where
  "boundary_at hay pos = (if pos = 0 \<or> is_boundary (hay ! (pos - 1)) then BOUNDARY else 0)"

text \<open>A pattern character taken at \<open>pos\<close>; \<open>i\<close> characters of the pattern are used with it.\<close>

definition take_match :: "'p tracker \<Rightarrow> scalars \<Rightarrow> nat \<Rightarrow> nat \<Rightarrow> 'p cell \<Rightarrow> 'p cell" where
  "take_match T hay i pos c =
     \<lparr>score = score c + MATCH + (if last_at c = int pos - 1 then CONSECUTIVE else 0) + boundary_at hay pos
        + (if i = 1 \<and> pos = 0 then FIRST else 0),
      errors = errors c, last_at = int pos, tail_true = True, matched = push_pos T (matched c) pos\<rparr>"

definition substitute :: "nat \<Rightarrow> 'p cell \<Rightarrow> 'p cell" where
  "substitute pos c =
     \<lparr>score = score c + SUBSTITUTION, errors = errors c + 1, last_at = int pos, tail_true = False,
      matched = matched c\<rparr>"

definition omit :: "'p cell \<Rightarrow> 'p cell" where
  "omit c = c\<lparr>score := score c + DELETION, errors := errors c + 1, tail_true := False\<rparr>"

definition transpose_at :: "'p tracker \<Rightarrow> scalars \<Rightarrow> nat \<Rightarrow> 'p cell \<Rightarrow> 'p cell" where
  "transpose_at T hay pos c =
     \<lparr>score = score c + TRANSPOSITION + boundary_at hay pos, errors = errors c + 1, last_at = int (pos + 1),
      tail_true = True, matched = push_pos T (push_pos T (matched c) pos) (pos + 1)\<rparr>"

text \<open>The four candidates for a cell, in the order they are tried.\<close>

definition gap_candidate :: "nat \<Rightarrow> 'p cell option list \<Rightarrow> 'p cell list" where
  "gap_candidate j cur = (if 1 \<le> j then case cur ! (j - 1) of Some c \<Rightarrow> [gap c] | None \<Rightarrow> [] else [])"

definition take_candidate ::
  "'p tracker \<Rightarrow> scalars \<Rightarrow> scalars \<Rightarrow> nat \<Rightarrow> nat \<Rightarrow> nat \<Rightarrow> 'p cell option list \<Rightarrow> 'p cell list" where
  "take_candidate T pat hay max_err i j prev =
     (if 1 \<le> j then
        case prev ! (j - 1) of
          None \<Rightarrow> []
        | Some c \<Rightarrow>
            if pat ! (i - 1) = hay ! (j - 1) then [take_match T hay i (j - 1) c]
            else if errors c < max_err \<and> \<not> is_whitespace (pat ! (i - 1)) \<and> \<not> is_whitespace (hay ! (j - 1))
            then [substitute (j - 1) c]
            else []
      else [])"

definition omit_candidate :: "scalars \<Rightarrow> nat \<Rightarrow> nat \<Rightarrow> nat \<Rightarrow> 'p cell option list \<Rightarrow> 'p cell list" where
  "omit_candidate pat max_err i j prev =
     (if is_whitespace (pat ! (i - 1)) then []
      else case prev ! j of
             Some c \<Rightarrow> if errors c < max_err then [omit c] else []
           | None \<Rightarrow> [])"

definition swapped :: "scalars \<Rightarrow> scalars \<Rightarrow> nat \<Rightarrow> nat \<Rightarrow> bool" where
  "swapped pat hay i j =
     (2 \<le> i \<and> 2 \<le> j \<and> pat ! (i - 1) = hay ! (j - 2) \<and> pat ! (i - 2) = hay ! (j - 1)
      \<and> pat ! (i - 1) \<noteq> pat ! (i - 2) \<and> \<not> is_whitespace (pat ! (i - 1)) \<and> \<not> is_whitespace (pat ! (i - 2)))"

definition transpose_candidate ::
  "'p tracker \<Rightarrow> scalars \<Rightarrow> scalars \<Rightarrow> nat \<Rightarrow> nat \<Rightarrow> nat \<Rightarrow> 'p cell option list \<Rightarrow> 'p cell list" where
  "transpose_candidate T pat hay max_err i j prev2 =
     (if swapped pat hay i j then
        case prev2 ! (j - 2) of
          Some c \<Rightarrow> if errors c < max_err then [transpose_at T hay (j - 2) c] else []
        | None \<Rightarrow> []
      else [])"

definition candidates ::
  "'p tracker \<Rightarrow> scalars \<Rightarrow> scalars \<Rightarrow> nat \<Rightarrow> nat \<Rightarrow> nat
   \<Rightarrow> 'p cell option list \<Rightarrow> 'p cell option list \<Rightarrow> 'p cell option list \<Rightarrow> 'p cell list" where
  "candidates T pat hay max_err i j prev2 prev cur =
     gap_candidate j cur @ take_candidate T pat hay max_err i j prev @ omit_candidate pat max_err i j prev
     @ transpose_candidate T pat hay max_err i j prev2"

definition dp_cell ::
  "'p tracker \<Rightarrow> scalars \<Rightarrow> scalars \<Rightarrow> nat \<Rightarrow> nat \<Rightarrow> nat
   \<Rightarrow> 'p cell option list \<Rightarrow> 'p cell option list \<Rightarrow> 'p cell option list \<Rightarrow> 'p cell option" where
  "dp_cell T pat hay max_err i j prev2 prev cur =
     fold (keep_best T) (candidates T pat hay max_err i j prev2 prev cur) None"

definition first_row :: "'p tracker \<Rightarrow> scalars \<Rightarrow> 'p cell option list" where
  "first_row T hay =
     fold (\<lambda>j row. row @ [map_option lead (row ! (j - 1))]) [1..<length hay + 1] [Some (start_cell T)]"

definition dp_row ::
  "'p tracker \<Rightarrow> scalars \<Rightarrow> scalars \<Rightarrow> nat \<Rightarrow> nat \<Rightarrow> 'p cell option list \<Rightarrow> 'p cell option list
   \<Rightarrow> 'p cell option list" where
  "dp_row T pat hay max_err i prev2 prev =
     fold (\<lambda>j cur. cur @ [dp_cell T pat hay max_err i j prev2 prev cur]) [0..<length hay + 1] []"

definition dp_rows ::
  "'p tracker \<Rightarrow> scalars \<Rightarrow> scalars \<Rightarrow> nat \<Rightarrow> 'p cell option list \<times> 'p cell option list" where
  "dp_rows T pat hay max_err =
     fold (\<lambda>i (prev2, prev). (prev, dp_row T pat hay max_err i prev2 prev)) [1..<length pat + 1]
       (replicate (length hay + 1) None, first_row T hay)"

definition run_dp :: "'p tracker \<Rightarrow> scalars \<Rightarrow> scalars \<Rightarrow> nat \<Rightarrow> bool \<Rightarrow> 'p cell option" where
  "run_dp T pat hay max_err require_true_tail =
     fold (\<lambda>row answer. case row of
         Some c \<Rightarrow> if \<not> require_true_tail \<or> tail_true c then keep_best T c answer else answer
       | None \<Rightarrow> answer) (snd (dp_rows T pat hay max_err)) None"

section \<open>The test in front of the table\<close>

text \<open>Both stages count the characters that are missing and give up above the budget.\<close>

fun presence_test :: "nat \<Rightarrow> (scalar \<Rightarrow> bool) \<Rightarrow> nat \<Rightarrow> scalars \<Rightarrow> bool" where
  "presence_test max_err present missing [] = True"
| "presence_test max_err present missing (c # pat) =
     (if is_whitespace c then presence_test max_err present missing pat
      else if present c then presence_test max_err present missing pat
      else if missing + 1 > max_err then False
      else presence_test max_err present (missing + 1) pat)"

text \<open>A counter has 16 bits and wraps.\<close>

definition count_ascii :: "scalars \<Rightarrow> scalar \<Rightarrow> nat" where
  "count_ascii hay = fold (\<lambda>c f. if c < 128 then f(c := (f c + 1) mod 2 ^ 16) else f) hay (\<lambda>_. 0)"

fun position_of :: "scalar \<Rightarrow> scalars \<Rightarrow> nat option" where
  "position_of c [] = None"
| "position_of c (h # hs) = (if h = c then Some 0 else map_option Suc (position_of c hs))"

definition swap_remove :: "nat \<Rightarrow> scalars \<Rightarrow> scalars" where
  "swap_remove p xs = (if Suc p = length xs then butlast xs else (butlast xs)[p := last xs])"

definition take_one :: "scalar \<Rightarrow> (scalar \<Rightarrow> nat) \<Rightarrow> scalars \<Rightarrow> ((scalar \<Rightarrow> nat) \<times> scalars) option" where
  "take_one c ascii other =
     (if c < 128 then (if 0 < ascii c then Some (ascii(c := ascii c - 1), other) else None)
      else case position_of c other of Some p \<Rightarrow> Some (ascii, swap_remove p other) | None \<Rightarrow> None)"

fun counting_test :: "nat \<Rightarrow> (scalar \<Rightarrow> nat) \<Rightarrow> scalars \<Rightarrow> nat \<Rightarrow> scalars \<Rightarrow> bool" where
  "counting_test max_err ascii other missing [] = True"
| "counting_test max_err ascii other missing (c # pat) =
     (if is_whitespace c then counting_test max_err ascii other missing pat
      else case take_one c ascii other of
             Some (ascii', other') \<Rightarrow> counting_test max_err ascii' other' missing pat
           | None \<Rightarrow>
               if missing + 1 > max_err then False
               else counting_test max_err ascii other (missing + 1) pat)"

definition prefilter :: "scalars \<Rightarrow> scalars \<Rightarrow> nat \<Rightarrow> bool" where
  "prefilter pat hay max_err =
     (presence_test max_err (\<lambda>c. if c < 128 then c \<in> set hay else list_ex (\<lambda>h. 128 \<le> h) hay) 0 pat
      \<and> counting_test max_err (count_ascii hay) (filter (\<lambda>h. 128 \<le> h) hay) 0 pat)"

section \<open>Matching\<close>

definition meaningful :: "scalars \<Rightarrow> nat" where
  "meaningful pat = length (filter (\<lambda>c. \<not> is_whitespace c) pat)"

text \<open>What is done with the best cell.\<close>

definition accept :: "'p tracker \<Rightarrow> bool \<Rightarrow> scalars \<Rightarrow> scalars \<Rightarrow> 'p cell \<Rightarrow> (int \<times> 'p) option" where
  "accept T anchored pat hay c =
     (if anchored \<and> first_pos T (matched c) \<noteq> Some 0 then None
      else let s = score c + (if pat = hay then EXACT else 0)
           in if pat \<noteq> hay \<and> floor_score s (first_pos T (matched c)) < score_floor (meaningful pat) then None
              else Some (s, matched c))"

definition strip_slash :: "bool \<Rightarrow> scalars \<Rightarrow> nat \<times> scalars" where
  "strip_slash strip s =
     (if strip then case s of c # rest \<Rightarrow> if c = 47 then (1, rest) else (0, s) | [] \<Rightarrow> (0, s) else (0, s))"

definition fuzzy_match_impl ::
  "(scalar \<Rightarrow> scalars) \<Rightarrow> 'p tracker \<Rightarrow> scalars \<Rightarrow> scalars \<Rightarrow> bool \<Rightarrow> bool \<Rightarrow> bool \<Rightarrow> (int \<times> 'p \<times> nat) option" where
  "fuzzy_match_impl lower T needle haystack anchored strip require_true_tail =
     (let (offset, hay_src) = strip_slash strip haystack;
          pat = lowered lower (snd (strip_slash strip needle));
          max_err = error_budget (meaningful pat);
          hay = lowered lower hay_src
      in if list_all is_whitespace pat then Some (0, no_pos T, offset)
         else if byte_len hay_src + max_err < meaningful pat then None
         else if hay = [] then None
         else if length hay + max_err < meaningful pat then None
         else if \<not> prefilter pat hay max_err then None
         else case run_dp T pat hay max_err require_true_tail of
                None \<Rightarrow> None
              | Some c \<Rightarrow> map_option (\<lambda>(s, ps). (s, ps, offset)) (accept T anchored pat hay c))"

definition fuzzy_match_full ::
  "(scalar \<Rightarrow> scalars) \<Rightarrow> scalars \<Rightarrow> scalars \<Rightarrow> bool \<Rightarrow> bool \<Rightarrow> bool \<Rightarrow> (int \<times> nat list) option" where
  "fuzzy_match_full lower needle haystack anchored strip require_true_tail =
     map_option (\<lambda>(s, ps, offset). (s, map (\<lambda>p. p + offset) ps))
       (fuzzy_match_impl lower vec_tracker needle haystack anchored strip require_true_tail)"

definition fuzzy_score_only ::
  "(scalar \<Rightarrow> scalars) \<Rightarrow> scalars \<Rightarrow> scalars \<Rightarrow> bool \<Rightarrow> bool \<Rightarrow> bool \<Rightarrow> int option" where
  "fuzzy_score_only lower needle haystack anchored strip require_true_tail =
     map_option fst (fuzzy_match_impl lower summary_tracker needle haystack anchored strip require_true_tail)"

definition fuzzy_match :: "(scalar \<Rightarrow> scalars) \<Rightarrow> scalars \<Rightarrow> scalars \<Rightarrow> (int \<times> nat list) option" where
  "fuzzy_match lower needle haystack = fuzzy_match_full lower needle haystack False False False"

definition fuzzy_score :: "(scalar \<Rightarrow> scalars) \<Rightarrow> scalars \<Rightarrow> scalars \<Rightarrow> int option" where
  "fuzzy_score lower needle haystack = fuzzy_score_only lower needle haystack False False False"

definition command_fuzzy_match :: "(scalar \<Rightarrow> scalars) \<Rightarrow> scalars \<Rightarrow> scalars \<Rightarrow> (int \<times> nat list) option" where
  "command_fuzzy_match lower needle haystack = fuzzy_match_full lower needle haystack True True True"

definition command_fuzzy_score :: "(scalar \<Rightarrow> scalars) \<Rightarrow> scalars \<Rightarrow> scalars \<Rightarrow> int option" where
  "command_fuzzy_score lower needle haystack = fuzzy_score_only lower needle haystack True True True"

definition fuzzy_match_positions :: "(scalar \<Rightarrow> scalars) \<Rightarrow> scalars \<Rightarrow> scalars \<Rightarrow> nat list" where
  "fuzzy_match_positions lower needle haystack =
     (case fuzzy_match lower needle haystack of Some m \<Rightarrow> snd m | None \<Rightarrow> [])"

definition command_fuzzy_match_positions :: "(scalar \<Rightarrow> scalars) \<Rightarrow> scalars \<Rightarrow> scalars \<Rightarrow> nat list" where
  "command_fuzzy_match_positions lower needle haystack =
     (case command_fuzzy_match lower needle haystack of Some m \<Rightarrow> snd m | None \<Rightarrow> [])"

definition fuzzy_match_token_positions :: "(scalar \<Rightarrow> scalars) \<Rightarrow> scalars \<Rightarrow> scalars \<Rightarrow> nat list" where
  "fuzzy_match_token_positions lower needle haystack =
     remdups_adj (sort (concat (map (\<lambda>w. fuzzy_match_positions lower w haystack) (words_of needle))))"

section \<open>Queries of several words\<close>

record prepared_word =
  word_chars :: scalars
  word_meaningful :: nat
  word_max_err :: nat
  word_floor :: int

definition prepare :: "(scalar \<Rightarrow> scalars) \<Rightarrow> scalars \<Rightarrow> prepared_word" where
  "prepare lower w =
     (let chars = lowered lower w; n = meaningful chars
      in \<lparr>word_chars = chars, word_meaningful = n, word_max_err = error_budget n, word_floor = score_floor n\<rparr>)"

definition score_prepared_word :: "(scalar \<Rightarrow> scalars) \<Rightarrow> prepared_word \<Rightarrow> scalars \<Rightarrow> int option" where
  "score_prepared_word lower w token =
     (let hay = lowered lower token
      in if word_meaningful w = 0 then Some 0
         else if byte_len token + word_max_err w < word_meaningful w then None
         else if hay = [] then None
         else if length hay + word_max_err w < word_meaningful w then None
         else if \<not> prefilter (word_chars w) hay (word_max_err w) then None
         else case run_dp summary_tracker (word_chars w) hay (word_max_err w) False of
                None \<Rightarrow> None
              | Some c \<Rightarrow>
                  let exact = (word_chars w = hay);
                      s = score c + (if exact then EXACT else 0)
                  in if \<not> exact \<and> floor_score s (first_pos summary_tracker (matched c)) < word_floor w then None
                     else Some s)"

definition max_option :: "int option list \<Rightarrow> int option" where
  "max_option xs =
     fold (\<lambda>x best. case x of
         None \<Rightarrow> best
       | Some s \<Rightarrow> (case best of Some b \<Rightarrow> Some (max b s) | None \<Rightarrow> Some s)) xs None"

fun total_score :: "(scalar \<Rightarrow> scalars) \<Rightarrow> scalars \<Rightarrow> int \<Rightarrow> prepared_word list \<Rightarrow> int option" where
  "total_score lower haystack acc [] = Some acc"
| "total_score lower haystack acc (w # ws) =
     (case max_option (map (score_prepared_word lower w) (words_of haystack)) of
        None \<Rightarrow> None
      | Some best \<Rightarrow> total_score lower haystack (sat32 (acc + best)) ws)"

definition fuzzy_score_tokens :: "(scalar \<Rightarrow> scalars) \<Rightarrow> scalars \<Rightarrow> scalars \<Rightarrow> int option" where
  "fuzzy_score_tokens lower needle haystack =
     total_score lower haystack 0 (map (prepare lower) (words_of needle))"

end
