(* ===== verification/Fuzzy_Properties.thy ===== *)
theory Fuzzy_Properties
  imports Fuzzy_Match "HOL-Library.Multiset" "HOL-Library.Sublist"
begin

text \<open>
  What the matcher's table holds: every cell is the end of a run of edits, one rule per
  assignment of the source. The bounds on positions and errors are proved over these runs, and
  from them that the tests in front of the table reject nothing the table would accept.
\<close>

section \<open>Rows\<close>

lemma grown:
  assumes "\<And>j cur. \<lbrakk>j < n; length cur = j; \<And>k. k < j \<Longrightarrow> P k (cur ! k)\<rbrakk> \<Longrightarrow> P j (f j cur)"
  defines "row \<equiv> fold (\<lambda>j cur. cur @ [f j cur]) [0..<n] []"
  shows "length row = n \<and> (\<forall>k < n. P k (row ! k))"
proof -
  let ?row = "\<lambda>m. fold (\<lambda>j cur. cur @ [f j cur]) [0..<m] []"
  have "length (?row m) = m \<and> (\<forall>k < m. P k (?row m ! k))" if "m \<le> n" for m
    using that
  proof (induction m)
    case (Suc m)
    then show ?case
      using assms(1) [of m "?row m"] by (simp add: nth_append less_Suc_eq)
  qed simp
  then show ?thesis
    by (simp add: row_def)
qed

lemma keep_best_cases: "keep_best T c slot = Some c \<or> keep_best T c slot = slot \<and> slot \<noteq> None"
  by (simp add: keep_best_def split: option.split)

lemma best_is_candidate:
  "fold (keep_best T) cs slot = Some c \<Longrightarrow> c \<in> set cs \<or> slot = Some c"
proof (induction cs arbitrary: slot)
  case (Cons a cs)
  then show ?case using keep_best_cases [of T a slot] by fastforce
qed simp

lemma best_exists: "cs \<noteq> [] \<or> slot \<noteq> None \<Longrightarrow> fold (keep_best T) cs slot \<noteq> None"
proof (induction cs arbitrary: slot)
  case (Cons a cs)
  have "keep_best T a slot \<noteq> None" using keep_best_cases [of T a slot] by auto
  then show ?case using Cons.IH by simp
qed simp

section \<open>The runs a cell stands for\<close>

inductive reach :: "'p tracker \<Rightarrow> scalars \<Rightarrow> scalars \<Rightarrow> nat \<Rightarrow> nat \<Rightarrow> nat \<Rightarrow> 'p cell \<Rightarrow> bool"
  for T pat hay max_err where
  Start: "reach T pat hay max_err 0 0 (start_cell T)"
| Lead: "\<lbrakk>reach T pat hay max_err 0 j c; j < length hay\<rbrakk> \<Longrightarrow> reach T pat hay max_err 0 (Suc j) (lead c)"
| Gap: "\<lbrakk>reach T pat hay max_err i j c; j < length hay\<rbrakk> \<Longrightarrow> reach T pat hay max_err i (Suc j) (gap c)"
| Take: "\<lbrakk>reach T pat hay max_err i j c; i < length pat; j < length hay; pat ! i = hay ! j\<rbrakk>
    \<Longrightarrow> reach T pat hay max_err (Suc i) (Suc j) (take_match T hay (Suc i) j c)"
| Substitute: "\<lbrakk>reach T pat hay max_err i j c; i < length pat; j < length hay; errors c < max_err;
      \<not> is_whitespace (pat ! i)\<rbrakk>
    \<Longrightarrow> reach T pat hay max_err (Suc i) (Suc j) (substitute j c)"
| Omit: "\<lbrakk>reach T pat hay max_err i j c; i < length pat; errors c < max_err; \<not> is_whitespace (pat ! i)\<rbrakk>
    \<Longrightarrow> reach T pat hay max_err (Suc i) j (omit c)"
| Transpose: "\<lbrakk>reach T pat hay max_err i j c; Suc i < length pat; Suc j < length hay; errors c < max_err;
      pat ! Suc i = hay ! j; pat ! i = hay ! Suc j\<rbrakk>
    \<Longrightarrow> reach T pat hay max_err (Suc (Suc i)) (Suc (Suc j)) (transpose_at T hay j c)"

definition sound_row :: "'p tracker \<Rightarrow> scalars \<Rightarrow> scalars \<Rightarrow> nat \<Rightarrow> nat \<Rightarrow> 'p cell option list \<Rightarrow> bool" where
  "sound_row T pat hay max_err i row =
     (length row = Suc (length hay) \<and> (\<forall>j < Suc (length hay). \<forall>c. row ! j = Some c \<longrightarrow> reach T pat hay max_err i j c))"

lemma sound_rowD: "\<lbrakk>sound_row T pat hay max_err i row; j \<le> length hay; row ! j = Some c\<rbrakk> \<Longrightarrow> reach T pat hay max_err i j c"
  by (simp add: sound_row_def)

lemma first_row_grown:
  "first_row T hay =
     fold (\<lambda>j row. row @ [if j = 0 then Some (start_cell T) else map_option lead (row ! (j - 1))]) [0..<Suc (length hay)] []"
proof -
  have "fold (\<lambda>j row. row @ [map_option lead (row ! (j - 1))]) [1..<Suc n] [Some (start_cell T)]
      = fold (\<lambda>j row. row @ [if j = 0 then Some (start_cell T) else map_option lead (row ! (j - 1))]) [0..<Suc n] []" for n
    by (induction n) (simp_all add: numeral_eq_Suc)
  then show ?thesis by (simp add: first_row_def del: upt_Suc)
qed

lemma first_row_sound: "sound_row T pat hay max_err 0 (first_row T hay)"
proof -
  let ?P = "\<lambda>j slot. \<forall>c. slot = Some c \<longrightarrow> reach T pat hay max_err 0 j c"
  have "?P j (if j = 0 then Some (start_cell T) else map_option lead (cur ! (j - 1)))"
    if "j < Suc (length hay)" "length cur = j" "\<And>k. k < j \<Longrightarrow> ?P k (cur ! k)" for j cur
    using that by (cases j) (auto intro: reach.intros)
  then show ?thesis
    unfolding sound_row_def first_row_grown by (rule grown)
qed

lemma candidate_sound:
  assumes "sound_row T pat hay max_err i prev" "Suc i \<le> length pat" "j \<le> length hay"
    and "\<And>k. i = Suc k \<Longrightarrow> sound_row T pat hay max_err k prev2"
    and "\<And>k c. k < j \<Longrightarrow> cur ! k = Some c \<Longrightarrow> reach T pat hay max_err (Suc i) k c"
    and "c \<in> set (candidates T pat hay max_err (Suc i) j prev2 prev cur)"
  shows "reach T pat hay max_err (Suc i) j c"
proof -
  consider "c \<in> set (gap_candidate j cur)" | "c \<in> set (take_candidate T pat hay max_err (Suc i) j prev)"
    | "c \<in> set (omit_candidate pat max_err (Suc i) j prev)"
    | "c \<in> set (transpose_candidate T pat hay max_err (Suc i) j prev2)"
    using assms(6) by (auto simp: candidates_def)
  then show ?thesis
  proof cases
    case 1
    then obtain k b where "j = Suc k" "cur ! k = Some b" "c = gap b"
      by (cases j) (auto simp: gap_candidate_def dest: sym split: option.splits)
    then show ?thesis using assms(3,5) by (auto intro: reach.Gap)
  next
    case 2
    then obtain k b where k: "j = Suc k" "prev ! k = Some b"
      by (cases j) (auto simp: take_candidate_def dest: sym split: option.splits)
    then have "reach T pat hay max_err i k b" using sound_rowD [OF assms(1)] assms(3) by simp
    then show ?thesis
      using 2 k assms(2,3) by (auto simp: take_candidate_def intro: reach.Take reach.Substitute split: if_splits)
  next
    case 3
    then show ?thesis
      using sound_rowD [OF assms(1,3)] assms(2)
      by (auto simp: omit_candidate_def intro: reach.Omit split: if_splits option.splits)
  next
    case 4
    then have sw: "swapped pat hay (Suc i) j"
      by (cases "swapped pat hay (Suc i) j") (simp_all add: transpose_candidate_def)
    obtain b where some: "prev2 ! (j - 2) = Some b"
      using 4 sw by (cases "prev2 ! (j - 2)") (simp_all add: transpose_candidate_def)
    have b: "errors b < max_err" "c = transpose_at T hay (j - 2) b"
      using 4 sw some by (simp_all add: transpose_candidate_def split: if_splits)
    have "i \<noteq> 0" using sw by (auto simp: swapped_def)
    then obtain k where k: "i = Suc k" using not0_implies_Suc by blast
    have "2 \<le> j" using sw by (simp add: swapped_def)
    then obtain l where l: "j = Suc (Suc l)" by (metis Suc_le_D numeral_2_eq_2 Suc_le_mono)
    have "reach T pat hay max_err k l b"
      by (rule sound_rowD [OF assms(4) [OF k]]) (use some l assms(3) in simp_all)
    moreover have "pat ! Suc k = hay ! l" "pat ! k = hay ! Suc l" "errors b < max_err"
      using sw b(1) l k by (simp_all add: swapped_def)
    ultimately show ?thesis
      using b(2) l k assms(2,3) reach.Transpose [of T pat hay max_err k l b] by simp
  qed
qed

lemma dp_row_sound:
  assumes "sound_row T pat hay max_err i prev" "Suc i \<le> length pat"
    and "\<And>k. i = Suc k \<Longrightarrow> sound_row T pat hay max_err k prev2"
  shows "sound_row T pat hay max_err (Suc i) (dp_row T pat hay max_err (Suc i) prev2 prev)"
proof -
  let ?P = "\<lambda>j slot. \<forall>c. slot = Some c \<longrightarrow> reach T pat hay max_err (Suc i) j c"
  have "?P j (dp_cell T pat hay max_err (Suc i) j prev2 prev cur)"
    if "j < Suc (length hay)" "length cur = j" "\<And>k. k < j \<Longrightarrow> ?P k (cur ! k)" for j cur
  proof (intro allI impI)
    fix c
    assume "dp_cell T pat hay max_err (Suc i) j prev2 prev cur = Some c"
    then have cand: "c \<in> set (candidates T pat hay max_err (Suc i) j prev2 prev cur)"
      using best_is_candidate by (fastforce simp: dp_cell_def)
    show "reach T pat hay max_err (Suc i) j c"
      by (rule candidate_sound [OF assms(1,2) _ assms(3) _ cand]) (use that in simp_all)
  qed
  then show ?thesis
    unfolding sound_row_def dp_row_def Suc_eq_plus1 [symmetric] by (rule grown)
qed

lemma dp_rows_sound: "sound_row T pat hay max_err (length pat) (snd (dp_rows T pat hay max_err))"
proof -
  define rows where
    "rows m = fold (\<lambda>i (prev2, prev). (prev, dp_row T pat hay max_err i prev2 prev)) [1..<Suc m]
       (replicate (length hay + 1) None, first_row T hay)" for m
  have step: "rows (Suc m) = (snd (rows m), dp_row T pat hay max_err (Suc m) (fst (rows m)) (snd (rows m)))" for m
  proof -
    have "[1..<Suc (Suc m)] = [1..<Suc m] @ [Suc m]" by simp
    then show ?thesis by (simp add: rows_def case_prod_beta del: upt_Suc)
  qed
  have "sound_row T pat hay max_err m (snd (rows m))
      \<and> (\<forall>k. m = Suc k \<longrightarrow> sound_row T pat hay max_err k (fst (rows m)))" if "m \<le> length pat" for m
    using that
  proof (induction m)
    case 0
    show ?case using first_row_sound by (simp add: rows_def)
  next
    case (Suc m)
    then show ?case
      using dp_row_sound [of T pat hay max_err m "snd (rows m)" "fst (rows m)"] by (simp add: step)
  qed
  from this [of "length pat"] show ?thesis by (simp add: dp_rows_def rows_def)
qed

lemma answer_from_row:
  "fold (\<lambda>row answer. case row of
         Some c \<Rightarrow> if \<not> tail \<or> tail_true c then keep_best T c answer else answer
       | None \<Rightarrow> answer) row slot
   = fold (keep_best T) (filter (\<lambda>c. \<not> tail \<or> tail_true c) (List.map_filter (\<lambda>x. x) row)) slot"
  by (induction row arbitrary: slot) (simp_all add: List.map_filter_simps split: option.split)

lemma run_dp_reach:
  assumes "run_dp T pat hay max_err tail = Some c"
  obtains j where "j \<le> length hay" "reach T pat hay max_err (length pat) j c" "tail \<longrightarrow> tail_true c"
proof -
  let ?row = "snd (dp_rows T pat hay max_err)"
  have "c \<in> set (filter (\<lambda>c. \<not> tail \<or> tail_true c) (List.map_filter (\<lambda>x. x) ?row))"
    using assms best_is_candidate by (fastforce simp: run_dp_def answer_from_row)
  then have "Some c \<in> set ?row" "tail \<longrightarrow> tail_true c"
    by (auto simp: map_filter_def)
  moreover obtain j where "j < length ?row" "?row ! j = Some c"
    using calculation(1) by (auto simp: in_set_conv_nth)
  ultimately show ?thesis
    using that dp_rows_sound [of T pat hay max_err] by (auto simp: sound_row_def less_Suc_eq_le)
qed

section \<open>What a run keeps\<close>

abbreviation read_at :: "scalars \<Rightarrow> nat list \<Rightarrow> scalar multiset" where
  "read_at hay ps \<equiv> mset (map ((!) hay) ps)"

definition run_ok :: "scalars \<Rightarrow> scalars \<Rightarrow> nat \<Rightarrow> nat \<Rightarrow> nat \<Rightarrow> nat list cell \<Rightarrow> bool" where
  "run_ok pat hay max_err i j c =
     (i \<le> length pat \<and> j \<le> length hay \<and> errors c \<le> max_err
      \<and> sorted_wrt (<) (matched c) \<and> (\<forall>p \<in> set (matched c). p < j)
      \<and> read_at hay (matched c) \<subseteq># mset (take i pat)
      \<and> filter_mset is_whitespace (mset (take i pat)) \<subseteq># read_at hay (matched c)
      \<and> i \<le> length (matched c) + errors c)"

lemma vec_tracker_simps [simp]:
  "no_pos vec_tracker = []" "push_pos vec_tracker ps p = ps @ [p]" "pos_count vec_tracker = length"
  "first_pos vec_tracker [] = None" "first_pos vec_tracker (p # ps) = Some p"
  by (simp_all add: vec_tracker_def)

lemma subset_add_mset: "A \<subseteq># B \<Longrightarrow> A \<subseteq># add_mset x B"
  by (metis add_mset_add_single mset_subset_eq_add_left subset_mset.order_trans)

lemma reach_run_ok: "reach vec_tracker pat hay max_err i j c \<Longrightarrow> run_ok pat hay max_err i j c"
proof (induction rule: reach.induct)
  case Start
  show ?case by (simp add: run_ok_def start_cell_def)
next
  case (Lead j c)
  then show ?case by (auto simp: run_ok_def lead_def)
next
  case (Gap i j c)
  then show ?case by (auto simp: run_ok_def gap_def)
next
  case (Take i j c)
  then show ?case
    by (auto simp: run_ok_def take_match_def take_Suc_conv_app_nth sorted_wrt_append subset_add_mset)
next
  case (Substitute i j c)
  then show ?case
    by (auto simp: run_ok_def substitute_def take_Suc_conv_app_nth subset_add_mset)
next
  case (Omit i j c)
  then show ?case
    by (auto simp: run_ok_def omit_def take_Suc_conv_app_nth subset_add_mset)
next
  case (Transpose i j c)
  have "mset (take (Suc (Suc i)) pat) = mset (take i pat) + {#hay ! j, hay ! Suc j#}"
    using Transpose.hyps by (simp add: take_Suc_conv_app_nth add_mset_commute)
  then show ?case
    using Transpose by (auto simp: run_ok_def transpose_at_def sorted_wrt_append subset_add_mset less_SucI)
qed

section \<open>The tests in front of the table\<close>

abbreviation shortfall :: "scalars \<Rightarrow> scalar multiset \<Rightarrow> nat" where
  "shortfall pat M \<equiv> size (filter_mset (\<lambda>c. \<not> is_whitespace c) (mset pat) - M)"

lemma presence_test_count:
  "missing \<le> max_err \<Longrightarrow>
   presence_test max_err present missing pat
   = (missing + length (filter (\<lambda>c. \<not> is_whitespace c \<and> \<not> present c) pat) \<le> max_err)"
  by (induction max_err present missing pat rule: presence_test.induct) simp_all

definition holds_pool :: "scalar multiset \<Rightarrow> (scalar \<Rightarrow> nat) \<Rightarrow> scalars \<Rightarrow> bool" where
  "holds_pool M ascii other = (\<forall>c. count M c = (if c < 128 then ascii c else count (mset other) c))"

lemma position_of_some: "position_of c s = Some p \<Longrightarrow> p < length s \<and> s ! p = c"
  by (induction s arbitrary: p) (auto split: if_splits)

lemma position_of_none: "position_of c s = None \<longleftrightarrow> c \<notin> set s"
  by (induction s) auto

lemma mset_swap_remove:
  assumes "p < length xs"
  shows "mset (swap_remove p xs) = mset xs - {#xs ! p#}"
proof (cases xs rule: rev_cases)
  case (snoc ys y)
  then show ?thesis
    using assms by (auto simp: swap_remove_def mset_update nth_append)
qed (use assms in simp)

lemma take_one_some:
  assumes "holds_pool M ascii other" "take_one c ascii other = Some (ascii', other')"
  shows "c \<in># M" "holds_pool (M - {#c#}) ascii' other'"
proof -
  have "0 < (if c < 128 then ascii c else count (mset other) c)"
    using assms(2) position_of_none [of c other] by (auto simp: take_one_def split: if_splits option.splits)
  moreover have "count M c = (if c < 128 then ascii c else count (mset other) c)"
    using assms(1) by (simp only: holds_pool_def)
  ultimately show "c \<in># M"
    by (metis count_greater_zero_iff)
  show "holds_pool (M - {#c#}) ascii' other'"
    using assms position_of_some [of c other]
    by (auto simp: take_one_def holds_pool_def mset_swap_remove split: if_splits option.splits)
qed

lemma take_one_none:
  assumes "holds_pool M ascii other" "take_one c ascii other = None"
  shows "c \<notin># M"
  using assms by (auto simp: take_one_def holds_pool_def position_of_none not_in_iff split: if_splits option.splits)

lemma counting_test_count:
  "\<lbrakk>holds_pool M ascii other; missing \<le> max_err\<rbrakk> \<Longrightarrow>
   counting_test max_err ascii other missing pat = (missing + shortfall pat M \<le> max_err)"
proof (induction pat arbitrary: M ascii other missing)
  case (Cons c pat)
  show ?case
  proof (cases "is_whitespace c")
    case False
    show ?thesis
    proof (cases "take_one c ascii other")
      case None
      then show ?thesis
        using Cons False take_one_none [OF Cons.prems(1) None] by (simp add: add_mset_diff_bothsides)
    next
      case (Some p)
      then obtain ascii' other' where p: "take_one c ascii other = Some (ascii', other')" by (cases p) simp
      have "add_mset c P - M = P - (M - {#c#})" for P
        using take_one_some(1) [OF Cons.prems(1) p]
        by (metis add_mset_diff_bothsides insert_DiffM)
      then show ?thesis
        using Cons.IH [OF take_one_some(2) [OF Cons.prems(1) p] Cons.prems(2)] False p by simp
    qed
  qed (use Cons in simp)
qed simp

lemma count_ascii_fold:
  "fold (\<lambda>c f. if c < 128 then f(c := (f c + 1) mod 2 ^ 16) else f) hay f d mod 2 ^ 16
   = (f d + (if d < 128 then count (mset hay) d else 0)) mod 2 ^ 16"
  by (induction hay arbitrary: f) (auto simp: mod_simps)

text \<open>
  The counters hold the text when no ASCII character occurs \<open>2 ^ 16\<close> times.
\<close>

lemma count_ascii_pool:
  assumes "length hay < 2 ^ 16"
  shows "holds_pool (mset hay) (count_ascii hay) (filter (\<lambda>h. 128 \<le> h) hay)"
proof -
  have small: "count_ascii hay d < 2 ^ 16" for d
  proof -
    have "fold (\<lambda>c f. if c < 128 then f(c := (f c + 1) mod 2 ^ 16) else f) s f d < 2 ^ 16"
      if "f d < (2::nat) ^ 16" for s f
      using that by (induction s arbitrary: f) simp_all
    then show ?thesis by (simp add: count_ascii_def)
  qed
  have "count (mset hay) d \<le> length hay" for d
    by (metis count_le_size size_mset)
  then have "count (mset hay) d < 2 ^ 16" for d
    using assms le_less_trans by blast
  then have "count_ascii hay d = count (mset hay) d" if "d < 128" for d
    using count_ascii_fold [of hay "\<lambda>_. 0" d] small [of d] that by (simp add: count_ascii_def)
  then show ?thesis
    by (simp add: holds_pool_def)
qed

lemma absent_shortfall:
  assumes "\<And>c. c \<in> set hay \<Longrightarrow> present c"
  shows "length (filter (\<lambda>c. \<not> is_whitespace c \<and> \<not> present c) pat) \<le> shortfall pat (mset hay)"
proof -
  have "filter_mset (\<lambda>c. \<not> is_whitespace c \<and> \<not> present c) (mset pat)
      \<subseteq># filter_mset (\<lambda>c. \<not> is_whitespace c) (mset pat) - mset hay"
  proof (rule mset_subset_eqI)
    fix c
    have "count (mset hay) c = 0 \<or> present c"
      using assms by (auto simp: count_mset_0_iff)
    then show "count (filter_mset (\<lambda>c. \<not> is_whitespace c \<and> \<not> present c) (mset pat)) c
        \<le> count (filter_mset (\<lambda>c. \<not> is_whitespace c) (mset pat) - mset hay) c"
      by (auto simp del: count_mset_0_iff count_eq_zero_iff)
  qed
  then show ?thesis
    by (metis mset_filter size_mset size_mset_mono)
qed

lemma prefilter_shortfall:
  assumes "length hay < 2 ^ 16"
  shows "prefilter pat hay max_err = (shortfall pat (mset hay) \<le> max_err)"
proof -
  let ?present = "\<lambda>c. if c < 128 then c \<in> set hay else list_ex (\<lambda>h. 128 \<le> h) hay"
  have "length (filter (\<lambda>c. \<not> is_whitespace c \<and> \<not> ?present c) pat) \<le> shortfall pat (mset hay)"
    by (rule absent_shortfall) (auto simp: list_ex_iff not_less)
  moreover have "prefilter pat hay max_err
      = (length (filter (\<lambda>c. \<not> is_whitespace c \<and> \<not> ?present c) pat) \<le> max_err
         \<and> shortfall pat (mset hay) \<le> max_err)"
    by (simp only: prefilter_def presence_test_count [OF le0] counting_test_count [OF count_ascii_pool [OF assms] le0] add_0)
  ultimately show ?thesis by linarith
qed

lemma read_in_hay:
  assumes "sorted_wrt (<) ps" "\<forall>p \<in> set ps. p < length hay"
  shows "read_at hay ps \<subseteq># mset hay"
proof -
  have "distinct ps" using assms(1) by (simp add: strict_sorted_iff)
  then have "mset ps \<subseteq># mset [0..<length hay]"
    using assms(2) by (simp add: mset_set_set [symmetric] subset_imp_msubset_mset_set subset_eq del: mset_upt)
  then have "image_mset ((!) hay) (mset ps) \<subseteq># image_mset ((!) hay) (mset [0..<length hay])"
    by (rule image_mset_subseteq_mono)
  then show ?thesis
    by (metis map_nth mset_map)
qed

lemma run_shortfall:
  assumes "run_ok pat hay max_err (length pat) j c"
  shows "shortfall pat (mset hay) \<le> max_err"
proof -
  let ?M = "read_at hay (matched c)"
  have "?M \<subseteq># mset hay"
    using assms by (intro read_in_hay) (auto simp: run_ok_def)
  then have less: "count ?M a \<le> count (mset hay) a" for a
    by (rule mset_subset_eq_count)
  have "filter_mset (\<lambda>c. \<not> is_whitespace c) (mset pat) - mset hay \<subseteq># mset pat - ?M"
  proof (rule mset_subset_eqI)
    fix a
    have "count (filter_mset (\<lambda>c. \<not> is_whitespace c) (mset pat)) a \<le> count (mset pat) a" by simp
    then show "count (filter_mset (\<lambda>c. \<not> is_whitespace c) (mset pat) - mset hay) a \<le> count (mset pat - ?M) a"
      unfolding count_diff by (rule diff_le_mono [THEN order_trans]) (rule diff_le_mono2 [OF less])
  qed
  then have "shortfall pat (mset hay) \<le> size (mset pat - ?M)"
    by (rule size_mset_mono)
  also have "\<dots> = length pat - length (matched c)"
    using assms by (simp add: run_ok_def size_Diff_submset)
  finally have "shortfall pat (mset hay) \<le> length pat - length (matched c)" .
  moreover have "length pat \<le> length (matched c) + max_err"
    using assms by (auto simp: run_ok_def)
  ultimately show ?thesis by simp
qed

lemma meaningful_bound: "meaningful pat \<le> length hay + shortfall pat (mset hay)"
proof -
  have "size (filter_mset (\<lambda>c. \<not> is_whitespace c) (mset pat)) \<le> size (filter_mset (\<lambda>c. \<not> is_whitespace c) (mset pat) - mset hay) + size (mset hay)"
    by (metis diff_size_le_size_Diff le_diff_conv)
  then show ?thesis
    by (simp add: meaningful_def flip: mset_filter)
qed

section \<open>The trackers\<close>

text \<open>
  A tracker that keeps less still decides the same, when what it keeps has the count and the
  first position.
\<close>

locale tracker_view =
  fixes T :: "'p tracker" and U :: "'q tracker" and view :: "'p \<Rightarrow> 'q"
  assumes view_none: "view (no_pos T) = no_pos U"
    and view_push: "view (push_pos T ps p) = push_pos U (view ps) p"
    and view_count: "pos_count U (view ps) = pos_count T ps"
    and view_first: "first_pos U (view ps) = first_pos T ps"
begin

definition cell_view :: "'p cell \<Rightarrow> 'q cell" where
  "cell_view c =
     \<lparr>score = score c, errors = errors c, last_at = last_at c, tail_true = tail_true c, matched = view (matched c)\<rparr>"

lemma cell_view_simps [simp]:
  "score (cell_view c) = score c" "errors (cell_view c) = errors c" "last_at (cell_view c) = last_at c"
  "tail_true (cell_view c) = tail_true c" "matched (cell_view c) = view (matched c)"
  by (simp_all add: cell_view_def)

lemma keep_best_view: "keep_best U (cell_view c) (map_option cell_view slot) = map_option cell_view (keep_best T c slot)"
  by (simp add: keep_best_def better_def view_count split: option.split)

lemma fold_best_view:
  "fold (keep_best U) (map cell_view cs) (map_option cell_view slot) = map_option cell_view (fold (keep_best T) cs slot)"
  by (induction cs arbitrary: slot) (simp_all add: keep_best_view)

lemma moves_view:
  "cell_view (start_cell T) = start_cell U"
  "lead (cell_view c) = cell_view (lead c)"
  "gap (cell_view c) = cell_view (gap c)"
  "take_match U hay i p (cell_view c) = cell_view (take_match T hay i p c)"
  "substitute p (cell_view c) = cell_view (substitute p c)"
  "omit (cell_view c) = cell_view (omit c)"
  "transpose_at U hay p (cell_view c) = cell_view (transpose_at T hay p c)"
  by (simp_all add: cell_view_def start_cell_def lead_def gap_def take_match_def substitute_def omit_def transpose_at_def
      view_none view_push)

abbreviation row_view :: "'p cell option list \<Rightarrow> 'q cell option list" where
  "row_view \<equiv> map (map_option cell_view)"

lemma candidates_view:
  assumes "j \<le> length cur" "j < length prev" "j < length prev2"
  shows "candidates U pat hay max_err i j (row_view prev2) (row_view prev) (row_view cur)
       = map cell_view (candidates T pat hay max_err i j prev2 prev cur)"
proof -
  have "gap_candidate j (row_view cur) = map cell_view (gap_candidate j cur)"
    using assms by (auto simp: gap_candidate_def moves_view split: option.split)
  moreover have "take_candidate U pat hay max_err i j (row_view prev) = map cell_view (take_candidate T pat hay max_err i j prev)"
    using assms by (auto simp: take_candidate_def moves_view split: option.split)
  moreover have "omit_candidate pat max_err i j (row_view prev) = map cell_view (omit_candidate pat max_err i j prev)"
    using assms by (auto simp: omit_candidate_def moves_view split: option.split)
  moreover have "transpose_candidate U pat hay max_err i j (row_view prev2)
      = map cell_view (transpose_candidate T pat hay max_err i j prev2)"
    using assms by (auto simp: transpose_candidate_def moves_view split: option.split)
  ultimately show ?thesis by (simp add: candidates_def)
qed

lemma dp_cell_view:
  assumes "j \<le> length cur" "j < length prev" "j < length prev2"
  shows "dp_cell U pat hay max_err i j (row_view prev2) (row_view prev) (row_view cur)
       = map_option cell_view (dp_cell T pat hay max_err i j prev2 prev cur)"
  using fold_best_view [of _ None] by (simp add: dp_cell_def candidates_view [OF assms])

lemma grow_view:
  assumes "\<And>j cur. \<lbrakk>j < n; length cur = j\<rbrakk> \<Longrightarrow> g j (row_view cur) = map_option cell_view (f j cur)"
  shows "fold (\<lambda>j cur. cur @ [g j cur]) [0..<n] [] = row_view (fold (\<lambda>j cur. cur @ [f j cur]) [0..<n] [])
       \<and> length (fold (\<lambda>j cur. cur @ [f j cur]) [0..<n] []) = n"
  using assms by (induction n) simp_all

lemma first_row_view: "first_row U hay = row_view (first_row T hay) \<and> length (first_row T hay) = Suc (length hay)"
  unfolding first_row_grown
  by (rule grow_view) (auto simp: moves_view option.map_comp comp_def)

lemma dp_row_view:
  assumes "length prev = Suc (length hay)" "length prev2 = Suc (length hay)"
  shows "dp_row U pat hay max_err i (row_view prev2) (row_view prev) = row_view (dp_row T pat hay max_err i prev2 prev)
       \<and> length (dp_row T pat hay max_err i prev2 prev) = Suc (length hay)"
  unfolding dp_row_def Suc_eq_plus1 [symmetric]
  by (rule grow_view) (use assms in \<open>simp add: dp_cell_view\<close>)

lemma dp_rows_view: "snd (dp_rows U pat hay max_err) = row_view (snd (dp_rows T pat hay max_err))"
proof -
  let ?st = "\<lambda>V i (prev2, prev). (prev, dp_row V pat hay max_err i prev2 prev)"
  have "\<lbrakk>length prev = Suc (length hay); length prev2 = Suc (length hay)\<rbrakk> \<Longrightarrow>
      snd (fold (?st U) is (row_view prev2, row_view prev)) = row_view (snd (fold (?st T) is (prev2, prev)))" for "is" prev prev2
    by (induction "is" arbitrary: prev prev2) (simp_all add: dp_row_view)
  from this [of "first_row T hay" "replicate (Suc (length hay)) None"] show ?thesis
    by (simp add: dp_rows_def first_row_view del: upt_Suc)
qed

lemma run_dp_view: "run_dp U pat hay max_err tail = map_option cell_view (run_dp T pat hay max_err tail)"
proof -
  let ?pick = "\<lambda>V row slot. fold (\<lambda>row answer. case row of
         Some c \<Rightarrow> if \<not> tail \<or> tail_true c then keep_best V c answer else answer
       | None \<Rightarrow> answer) row slot"
  have "?pick U (row_view row) (map_option cell_view slot) = map_option cell_view (?pick T row slot)" for row slot
    by (induction row arbitrary: slot) (simp_all add: keep_best_view split: option.split)
  from this [of _ None] show ?thesis
    by (simp add: run_dp_def dp_rows_view)
qed

lemma accept_view:
  "accept U anchored pat hay (cell_view c) = map_option (\<lambda>(s, ps). (s, view ps)) (accept T anchored pat hay c)"
  by (simp add: accept_def Let_def view_first)

lemma impl_view:
  "fuzzy_match_impl lower U needle haystack anchored strip tail
   = map_option (\<lambda>(s, ps, offset). (s, view ps, offset)) (fuzzy_match_impl lower T needle haystack anchored strip tail)"
  by (simp add: fuzzy_match_impl_def Let_def view_none run_dp_view accept_view case_prod_beta option.map_comp comp_def
      split: option.split)

end

definition position_summary :: "nat list \<Rightarrow> nat \<times> nat option" where
  "position_summary ps = (length ps, first_pos vec_tracker ps)"

interpretation summary: tracker_view vec_tracker summary_tracker position_summary
  by unfold_locales
    (auto simp: position_summary_def vec_tracker_def summary_tracker_def split: list.split)

section \<open>The matcher\<close>

text \<open>The matcher without its tests in front of the table.\<close>

definition match_reference ::
  "(scalar \<Rightarrow> scalars) \<Rightarrow> scalars \<Rightarrow> scalars \<Rightarrow> bool \<Rightarrow> bool \<Rightarrow> bool \<Rightarrow> (int \<times> nat list \<times> nat) option" where
  "match_reference lower needle haystack anchored strip tail =
     (let (offset, hay_src) = strip_slash strip haystack;
          pat = lowered lower (snd (strip_slash strip needle));
          hay = lowered lower hay_src
      in if list_all is_whitespace pat then Some (0, [], offset)
         else case run_dp vec_tracker pat hay (error_budget (meaningful pat)) tail of
                None \<Rightarrow> None
              | Some c \<Rightarrow> map_option (\<lambda>(s, ps). (s, ps, offset)) (accept vec_tracker anchored pat hay c))"

lemma lowered_length: "(\<And>c. length (lower c) \<le> scalar_width c) \<Longrightarrow> length (lowered lower s) \<le> byte_len s"
  by (induction s) (simp_all add: lowered_def byte_len_def add_mono)

lemma strip_slash_cases:
  obtains "strip_slash strip s = (0, s)" | r where "strip_slash strip s = (1, r)" "s = 47 # r"
proof (cases "\<exists>r. strip \<and> s = 47 # r")
  case False
  then have "strip_slash strip s = (0, s)"
    by (auto simp: strip_slash_def split: list.split)
  then show ?thesis using that by blast
qed (use that in \<open>auto simp: strip_slash_def\<close>)

lemma error_budget_less: "0 < n \<Longrightarrow> error_budget n < n"
  by (simp add: error_budget_def)

lemma meaningful_blank: "list_all is_whitespace pat \<longleftrightarrow> meaningful pat = 0"
  by (induction pat) (simp_all add: meaningful_def)

lemma run_passes_gates:
  assumes "run_dp vec_tracker pat hay max_err tail = Some c" "length hay < 2 ^ 16"
  shows "prefilter pat hay max_err" "meaningful pat \<le> length hay + max_err"
proof -
  obtain j where "reach vec_tracker pat hay max_err (length pat) j c"
    using run_dp_reach [OF assms(1)] .
  then have "shortfall pat (mset hay) \<le> max_err"
    using run_shortfall reach_run_ok by blast
  then show "prefilter pat hay max_err" "meaningful pat \<le> length hay + max_err"
    using prefilter_shortfall [OF assms(2)] meaningful_bound [of pat hay] by simp_all
qed

lemma fuzzy_gates_reference:
  assumes "\<And>c. length (lower c) \<le> scalar_width c"
    and "length (lowered lower haystack) < 2 ^ 16"
  shows "fuzzy_match_impl lower vec_tracker needle haystack anchored strip tail
       = match_reference lower needle haystack anchored strip tail"
proof -
  obtain offset src where src: "strip_slash strip haystack = (offset, src)" by force
  let ?pat = "lowered lower (snd (strip_slash strip needle))" and ?hay = "lowered lower src"
  let ?err = "error_budget (meaningful ?pat)"
  have "length ?hay \<le> length (lowered lower haystack)"
    using src by (cases rule: strip_slash_cases [of strip haystack]) (simp_all add: lowered_def)
  then have short: "length ?hay < 2 ^ 16" using assms(2) by simp
  have "prefilter ?pat ?hay ?err \<and> meaningful ?pat \<le> length ?hay + ?err \<and> ?hay \<noteq> []
      \<and> meaningful ?pat \<le> byte_len src + ?err"
    if "run_dp vec_tracker ?pat ?hay ?err tail = Some c" "\<not> list_all is_whitespace ?pat" for c
    using run_passes_gates [OF that(1) short] lowered_length [of lower src] assms(1)
      error_budget_less [of "meaningful ?pat"] that(2)
    by (auto simp: meaningful_blank intro: order_trans)
  then show ?thesis
    by (cases "run_dp vec_tracker ?pat ?hay ?err tail")
      (auto simp: fuzzy_match_impl_def match_reference_def Let_def src not_less)
qed

text \<open>
  C15: the tests in front of the table reject nothing the table would accept: for a lowercase
  mapping that never needs more characters than a character has bytes, and a text of fewer than
  \<open>2 ^ 16\<close> characters, the matcher is the matcher without the tests.
\<close>

theorem fuzzy_gates_reject_nothing:
  assumes "\<And>c. length (lower c) \<le> scalar_width c"
    and "length (lowered lower haystack) < 2 ^ 16"
  shows "fuzzy_match_impl lower vec_tracker needle haystack anchored strip tail
       = match_reference lower needle haystack anchored strip tail"
  by (rule fuzzy_gates_reference [OF assms])

theorem fuzzy_gates_reject_nothing_witness:
  "fuzzy_match_impl (\<lambda>c. [c]) vec_tracker [103, 112] [103, 112, 116] False False False
   = match_reference (\<lambda>c. [c]) [103, 112] [103, 112, 116] False False False"
  by (rule fuzzy_gates_reject_nothing) (simp_all add: scalar_width_def lowered_def)

text \<open>
  the matcher that keeps only the number of positions and the first one gives the score of
  the matcher that keeps them all.
\<close>

theorem score_only_agrees:
  "fuzzy_score_only lower needle haystack anchored strip tail
   = map_option fst (fuzzy_match_full lower needle haystack anchored strip tail)"
  by (simp add: fuzzy_score_only_def fuzzy_match_full_def summary.impl_view option.map_comp comp_def case_prod_beta)

text \<open>What a match says of the texts.\<close>

definition positions_fit :: "scalars \<Rightarrow> scalars \<Rightarrow> nat list \<Rightarrow> bool" where
  "positions_fit pat hay ps =
     (sorted_wrt (<) ps \<and> list_all (\<lambda>p. p < length hay) ps
      \<and> read_at hay ps \<subseteq># mset pat
      \<and> filter_mset is_whitespace (mset pat) \<subseteq># read_at hay ps
      \<and> length pat \<le> length ps + error_budget (meaningful pat))"

lemma run_positions:
  assumes "run_dp vec_tracker pat hay (error_budget (meaningful pat)) tail = Some c"
  shows "positions_fit pat hay (matched c)"
proof -
  obtain j where "reach vec_tracker pat hay (error_budget (meaningful pat)) (length pat) j c"
    using run_dp_reach [OF assms] .
  then show ?thesis
    using reach_run_ok by (fastforce simp: run_ok_def positions_fit_def list_all_iff)
qed

lemma impl_positions:
  assumes "fuzzy_match_impl lower vec_tracker needle haystack anchored strip tail = Some (s, ps, offset)"
    and "\<not> list_all is_whitespace (lowered lower (snd (strip_slash strip needle)))"
  shows "positions_fit (lowered lower (snd (strip_slash strip needle))) (lowered lower (snd (strip_slash strip haystack))) ps"
    and "offset = fst (strip_slash strip haystack)"
    and "anchored \<longrightarrow> first_pos vec_tracker ps = Some 0"
  using assms
  by (auto simp: fuzzy_match_impl_def Let_def accept_def run_positions case_prod_beta split: if_splits option.splits)



section \<open>A text is found in itself\<close>

lemma best_score:
  "c \<in> set cs \<or> slot = Some c \<Longrightarrow> \<exists>b. fold (keep_best T) cs slot = Some b \<and> score c \<le> score b"
proof (induction cs arbitrary: c slot)
  case (Cons a cs)
  have "c \<in> set cs \<or> (\<exists>b. keep_best T a slot = Some b \<and> score c \<le> score b)"
    using Cons.prems by (auto simp: keep_best_def better_def split: option.split)
  then show ?case
    using Cons.IH [of c "keep_best T a slot"] Cons.IH [of _ "keep_best T a slot"] by (fastforce intro: order_trans)
qed simp

definition diagonal :: "nat \<Rightarrow> nat \<Rightarrow> 'p cell option list \<Rightarrow> bool" where
  "diagonal n i row = (length row = Suc n \<and> (\<forall>j < Suc n. j = i \<longrightarrow> (\<exists>b. row ! j = Some b \<and> MATCH * int i \<le> score b)))"

lemma first_row_diagonal: "diagonal (length hay) 0 (first_row T hay)"
proof -
  let ?P = "\<lambda>j slot. j = 0 \<longrightarrow> (\<exists>b. slot = Some b \<and> MATCH * int 0 \<le> score b)"
  have "?P j (if j = 0 then Some (start_cell T) else map_option lead (cur ! (j - 1)))"
    if "j < Suc (length hay)" "length cur = j" "\<And>k. k < j \<Longrightarrow> ?P k (cur ! k)" for j cur
    by (simp add: start_cell_def)
  then show ?thesis
    unfolding diagonal_def first_row_grown by (rule grown)
qed

lemma dp_row_diagonal:
  assumes "diagonal (length hay) i prev" "i < length hay"
  shows "diagonal (length hay) (Suc i) (dp_row T hay hay max_err (Suc i) prev2 prev)"
proof -
  let ?P = "\<lambda>j slot. j = Suc i \<longrightarrow> (\<exists>b. slot = Some b \<and> MATCH * int (Suc i) \<le> score b)"
  have "?P j (dp_cell T hay hay max_err (Suc i) j prev2 prev cur)"
    if "j < Suc (length hay)" "length cur = j" "\<And>k. k < j \<Longrightarrow> ?P k (cur ! k)" for j cur
  proof
    assume j: "j = Suc i"
    obtain b where b: "prev ! i = Some b" "MATCH * int i \<le> score b"
      using assms by (auto simp: diagonal_def)
    let ?c = "take_match T hay (Suc i) i b"
    have "?c \<in> set (candidates T hay hay max_err (Suc i) j prev2 prev cur)"
      using b by (simp add: candidates_def take_candidate_def j)
    then obtain d where "dp_cell T hay hay max_err (Suc i) j prev2 prev cur = Some d" "score ?c \<le> score d"
      using best_score by (metis dp_cell_def)
    moreover have "MATCH * int (Suc i) \<le> score ?c"
      using b(2) by (auto simp: take_match_def boundary_at_def CONSECUTIVE_def BOUNDARY_def FIRST_def distrib_left)
    ultimately show "\<exists>b. dp_cell T hay hay max_err (Suc i) j prev2 prev cur = Some b \<and> MATCH * int (Suc i) \<le> score b"
      by auto
  qed
  then show ?thesis
    unfolding diagonal_def dp_row_def Suc_eq_plus1 [symmetric] by (rule grown)
qed

lemma run_dp_self:
  obtains c where "run_dp T hay hay max_err False = Some c" "MATCH * int (length hay) \<le> score c"
proof -
  define rows where
    "rows m = fold (\<lambda>i (prev2, prev). (prev, dp_row T hay hay max_err i prev2 prev)) [1..<Suc m]
       (replicate (length hay + 1) None, first_row T hay)" for m
  have "diagonal (length hay) m (snd (rows m))" if "m \<le> length hay" for m
    using that
  proof (induction m)
    case (Suc m)
    have "[1..<Suc (Suc m)] = [1..<Suc m] @ [Suc m]" by simp
    then have "rows (Suc m) = (snd (rows m), dp_row T hay hay max_err (Suc m) (fst (rows m)) (snd (rows m)))"
      by (simp add: rows_def case_prod_beta del: upt_Suc)
    then show ?case
      using Suc dp_row_diagonal [of hay m "snd (rows m)" T max_err "fst (rows m)"] by simp
  qed (simp add: rows_def first_row_diagonal)
  then obtain b where b: "snd (rows (length hay)) ! length hay = Some b" "MATCH * int (length hay) \<le> score b"
    and len: "length (snd (rows (length hay))) = Suc (length hay)"
    by (auto simp: diagonal_def)
  let ?row = "snd (dp_rows T hay hay max_err)"
  have "?row ! length hay = Some b" "length ?row = Suc (length hay)"
    using b(1) len by (simp_all add: dp_rows_def rows_def)
  then have "Some b \<in> set ?row" by (metis lessI nth_mem)
  then have "b \<in> set (filter (\<lambda>c. \<not> False \<or> tail_true c) (List.map_filter (\<lambda>x. x) ?row))"
    by (force simp: map_filter_def)
  then obtain c where "run_dp T hay hay max_err False = Some c" "score b \<le> score c"
    unfolding run_dp_def answer_from_row using best_score by metis
  then show ?thesis using that b(2) by simp
qed

text \<open>
  a needle that is the text, up to case, always matches it, with the bonus for an exact text
  on top of a full score for each of its characters.
\<close>

theorem exact_text_is_found:
  assumes "lowered lower needle = lowered lower haystack"
    and "\<not> list_all is_whitespace (lowered lower haystack)"
    and "\<And>c. length (lower c) \<le> scalar_width c"
    and "length (lowered lower haystack) < 2 ^ 16"
  shows "\<exists>s ps. fuzzy_match lower needle haystack = Some (s, ps)
      \<and> MATCH * int (length (lowered lower haystack)) + EXACT \<le> s"
proof -
  let ?hay = "lowered lower haystack"
  obtain c where "run_dp vec_tracker ?hay ?hay (error_budget (meaningful ?hay)) False = Some c"
    "MATCH * int (length ?hay) \<le> score c"
    by (rule run_dp_self)
  then show ?thesis
    using assms
    by (simp add: fuzzy_match_def fuzzy_match_full_def fuzzy_gates_reference match_reference_def strip_slash_def accept_def)
qed

theorem exact_text_is_found_witness:
  "\<exists>s ps. fuzzy_match (\<lambda>c. [c]) [109] [109] = Some (s, ps)
      \<and> MATCH * int (length (lowered (\<lambda>c. [c]) [109])) + EXACT \<le> s"
  by (rule exact_text_is_found) (simp_all add: lowered_def is_whitespace_def scalar_width_def)

section \<open>Queries of several words\<close>

lemma prepared_word_score: "score_prepared_word lower (prepare lower w) token = fuzzy_score lower w token"
  by (simp add: score_prepared_word_def prepare_def fuzzy_score_def fuzzy_score_only_def fuzzy_match_impl_def Let_def
      strip_slash_def accept_def meaningful_blank option.map_comp comp_def split: option.split)

lemma max_option_somes:
  "max_option xs = (case List.map_filter (\<lambda>x. x) xs of [] \<Rightarrow> None | s # ss \<Rightarrow> Some (fold max ss s))"
proof -
  let ?step = "\<lambda>x best. case x of
         None \<Rightarrow> best
       | Some s \<Rightarrow> (case best of Some b \<Rightarrow> Some (max b s) | None \<Rightarrow> Some s)"
  have some: "fold ?step xs (Some b) = Some (fold max (List.map_filter (\<lambda>x. x) xs) b)" for b :: int and xs
    by (induction xs arbitrary: b) (simp_all add: List.map_filter_simps max.commute split: option.split)
  show ?thesis
    unfolding max_option_def
    by (induction xs) (simp_all add: List.map_filter_simps some split: option.split)
qed

lemma max_option_Max:
  "max_option xs = (if {s. Some s \<in> set xs} = {} then None else Some (Max {s. Some s \<in> set xs}))"
proof -
  have found: "{s. Some s \<in> set xs} = set (List.map_filter (\<lambda>x. x) xs)"
    by (force simp: map_filter_def)
  show ?thesis
    unfolding found max_option_somes
    by (cases "List.map_filter (\<lambda>x. x) xs") (simp, simp only: list.case Max.set_eq_fold set_empty list.distinct if_False)
qed

definition word_scores :: "(scalar \<Rightarrow> scalars) \<Rightarrow> scalars \<Rightarrow> scalars \<Rightarrow> int set" where
  "word_scores lower w haystack = {s. \<exists>token \<in> set (words_of haystack). fuzzy_score lower w token = Some s}"

lemma total_score_sum:
  "total_score lower haystack acc (map (prepare lower) ws)
   = (if list_ex (\<lambda>w. word_scores lower w haystack = {}) ws then None
      else Some (fold (\<lambda>w acc. sat32 (acc + Max (word_scores lower w haystack))) ws acc))"
proof (induction ws arbitrary: acc)
  case (Cons w ws)
  have "{s. Some s \<in> set (map (score_prepared_word lower (prepare lower w)) (words_of haystack))} = word_scores lower w haystack"
    by (force simp: word_scores_def prepared_word_score)
  then show ?case
    using Cons.IH by (simp add: max_option_Max)
qed simp

text \<open>
  a query of several words matches a text when each of its words matches one of the text's
  words, and scores the sum of the best scores of its words.
\<close>

theorem token_score_is_sum_of_best:
  "fuzzy_score_tokens lower needle haystack
   = (if list_ex (\<lambda>w. word_scores lower w haystack = {}) (words_of needle) then None
      else Some (fold (\<lambda>w acc. sat32 (acc + Max (word_scores lower w haystack))) (words_of needle) 0))"
  by (simp add: fuzzy_score_tokens_def total_score_sum)

section \<open>Where the matcher and its description part\<close>

text \<open>
  A counter of 16 bits forgets a character that occurs \<open>2 ^ 16\<close> times: the test in front of
  the table then rejects a needle of that one character.
\<close>

lemma counter_forgets:
  assumes "hay = replicate (2 ^ 16) 97"
  shows "\<not> prefilter [97] hay 0" and "shortfall [97] (mset hay) = 0"
proof -
  have "count_ascii hay 97 mod 2 ^ 16 = 0"
    using count_ascii_fold [of hay "\<lambda>_. 0" 97] assms by (simp add: count_ascii_def)
  moreover have "count_ascii s 97 < 2 ^ 16" for s
  proof -
    have "f 97 < 2 ^ 16 \<Longrightarrow> fold (\<lambda>c f. if c < 128 then f(c := (f c + 1) mod 2 ^ 16) else f) s f 97 < (2::nat) ^ 16" for f
      by (induction s arbitrary: f) simp_all
    then show ?thesis by (simp add: count_ascii_def)
  qed
  ultimately have "count_ascii hay 97 = 0"
    by (metis mod_less)
  then show "\<not> prefilter [97] hay 0"
    by (simp add: prefilter_def take_one_def is_whitespace_def)
  have "97 \<in># mset hay"
    using assms by simp
  then show "shortfall [97] (mset hay) = 0"
    by (simp add: Diff_eq_empty_iff_mset del: set_mset_mset)
qed

text \<open>
  The positions are those of the text in lower case: where a character's lower case is two
  characters, they point past it.
\<close>

lemma positions_are_of_the_lowered_text:
  defines "lower \<equiv> \<lambda>c. if c = 304 then [105, 775] else [c]"
  shows "fuzzy_match lower [97] [304, 97] = Some (10, [2])"
  by (simp add: lower_def fuzzy_match_def fuzzy_match_full_def fuzzy_match_impl_def strip_slash_def lowered_def
      is_whitespace_def byte_len_def scalar_width_def
      meaningful_def error_budget_def prefilter_shortfall run_dp_def dp_rows_def first_row_def dp_row_def dp_cell_def
      candidates_def gap_candidate_def take_candidate_def omit_candidate_def transpose_candidate_def swapped_def
      keep_best_def better_def start_cell_def lead_def gap_def take_match_def boundary_at_def is_boundary_def accept_def
      floor_score_def score_floor_def sat32_def
      MATCH_def CONSECUTIVE_def BOUNDARY_def FIRST_def GAP_def LEADING_GAP_def EXACT_def upt_rec)

end
