(* ===== verification/Stream_Buffer.thy ===== *)
theory Stream_Buffer
  imports Complex_Main Scalar_Text
begin

text \<open>
  The buffer that paces the text of a streamed answer,
  \<open>crates/kcode-tui-core/src/stream_buffer.rs\<close>. An instant is a number of nanoseconds; the clock is an
  argument, the sequence of its readings, and every operation takes and returns the number of
  readings made so far. The rounding of \<open>f32\<close> is an argument too: it is applied to the
  result of every operation on floating-point numbers. The statistics over the recorded events
  are not modelled.
\<close>

section \<open>Data\<close>

datatype stream_kind = Kind_Text | Kind_Reasoning

datatype stream_op = Op_Text scalars | Op_Reasoning scalars | Op_Close

datatype queued_op = Queued_Chunk stream_kind scalars | Queued_Close

record jitter_event =
  event_at :: nat
  event_chars :: nat
  event_kind :: stream_kind

record jitter_recorder =
  arrivals :: "jitter_event list"
  reveals :: "jitter_event list"

record stream_buffer =
  queued :: "queued_op list"
  backlog_chars :: nat
  last_reveal :: nat
  carry :: rat
  ceiling_carry :: rat
  reasoning_open :: bool
  base_cps :: rat
  backlog_gain :: rat
  max_step :: nat
  jitter :: jitter_recorder

definition BASE_REVEAL_CPS :: rat where "BASE_REVEAL_CPS = 180"

definition REVEAL_BACKLOG_GAIN :: rat where "REVEAL_BACKLOG_GAIN = 3"

definition MAX_REVEAL_CPS :: rat where "MAX_REVEAL_CPS = 960"

definition MAX_REVEAL_STEP :: nat where "MAX_REVEAL_STEP = 50 * 1000000"

definition JITTER_EVENT_CAP :: nat where "JITTER_EVENT_CAP = 4096"

type_synonym clock = "nat \<Rightarrow> nat"

section \<open>The recorder\<close>

definition record_event ::
  "clock \<Rightarrow> nat \<Rightarrow> stream_kind \<Rightarrow> nat \<Rightarrow> jitter_event list \<Rightarrow> jitter_event list \<times> nat" where
  "record_event clock k kind chars series =
     (if chars = 0 then (series, k)
      else ((if JITTER_EVENT_CAP \<le> length series then List.tl series else series)
              @ [\<lparr>event_at = clock k, event_chars = chars, event_kind = kind\<rparr>],
            Suc k))"

definition no_jitter :: jitter_recorder where
  "no_jitter = \<lparr>arrivals = [], reveals = []\<rparr>"

definition reset_jitter :: "stream_buffer \<Rightarrow> stream_buffer" where
  "reset_jitter s = s\<lparr>jitter := no_jitter\<rparr>"

section \<open>Draining\<close>

definition emit :: "stream_kind \<Rightarrow> scalars \<Rightarrow> stream_op" where
  "emit kind chunk = (case kind of Kind_Text \<Rightarrow> Op_Text chunk | Kind_Reasoning \<Rightarrow> Op_Reasoning chunk)"

text \<open>
  The loop of \<open>drain_ops\<close> over the queue, the count of the backlog and the recorded reveals. The
  flag \<open>drain_all_markers\<close> only guards a debug assertion.
\<close>

function drain_loop ::
  "clock \<Rightarrow> nat \<Rightarrow> nat \<Rightarrow> queued_op list \<Rightarrow> nat \<Rightarrow> jitter_event list
   \<Rightarrow> stream_op list \<times> queued_op list \<times> nat \<times> jitter_event list \<times> nat" where
  "drain_loop clock k n [] backlog js = ([], [], backlog, js, k)"
| "drain_loop clock k n (Queued_Close # q) backlog js =
     (let (ops, rest) = drain_loop clock k n q backlog js in (Op_Close # ops, rest))"
| "drain_loop clock k n (Queued_Chunk kind t # q) backlog js =
     (if n = 0 then ([], Queued_Chunk kind t # q, backlog, js, k)
      else let taken = min n (length t);
               q' = (if taken = length t then q else Queued_Chunk kind (drop taken t) # q);
               (js', k') = record_event clock k kind taken js;
               (ops, rest) = drain_loop clock k' (n - taken) q' (backlog - taken) js'
           in (emit kind (take taken t) # ops, rest))"
  by pat_completeness auto
termination by (relation "measure (\<lambda>(clock, k, n, q, backlog, js). length q + n)") (auto simp: min_def split: if_splits)

definition drain_ops :: "clock \<Rightarrow> nat \<Rightarrow> nat \<Rightarrow> stream_buffer \<Rightarrow> stream_op list \<times> stream_buffer \<times> nat" where
  "drain_ops clock k n s =
     (let (ops, q, backlog, js, k') = drain_loop clock k n (queued s) (backlog_chars s) (reveals (jitter s))
      in (ops, s\<lparr>queued := q, backlog_chars := backlog, jitter := (jitter s)\<lparr>reveals := js\<rparr>\<rparr>, k'))"

section \<open>Pacing\<close>

text \<open>\<open>Duration::as_secs_f32\<close>.\<close>

definition as_secs_f32 :: "(rat \<Rightarrow> rat) \<Rightarrow> nat \<Rightarrow> rat" where
  "as_secs_f32 rnd ns =
     rnd (rnd (of_nat (ns div 1000000000)) + rnd (rnd (of_nat (ns mod 1000000000)) / rnd 1000000000))"

definition whole :: "rat \<Rightarrow> nat" where
  "whole x = nat \<lfloor>x\<rfloor>"

definition reveal_now :: "(rat \<Rightarrow> rat) \<Rightarrow> clock \<Rightarrow> nat \<Rightarrow> nat \<Rightarrow> stream_buffer \<Rightarrow> stream_op list \<times> stream_buffer \<times> nat" where
  "reveal_now rnd clock k now s =
     (if backlog_chars s = 0
      then drain_ops clock k 0 (s\<lparr>carry := 0, ceiling_carry := 0, last_reveal := now\<rparr>)
      else
        let dt = as_secs_f32 rnd (min (now - last_reveal s) (max_step s));
            cps = rnd (base_cps s + rnd (rnd (of_nat (backlog_chars s)) * backlog_gain s));
            budget = rnd (carry s + rnd (dt * cps));
            ceiling = rnd (ceiling_carry s + rnd (dt * MAX_REVEAL_CPS));
            s1 = s\<lparr>last_reveal := now, carry := budget, ceiling_carry := ceiling\<rparr>;
            reveal = min (whole budget) (whole ceiling)
        in if reveal = 0 then drain_ops clock k 0 s1
           else let n = min reveal (backlog_chars s)
                in drain_ops clock k n
                     (s1\<lparr>carry := rnd (budget - rnd (of_nat n)), ceiling_carry := rnd (ceiling - rnd (of_nat n))\<rparr>))"

section \<open>The operations\<close>

definition new_buffer :: "clock \<Rightarrow> nat \<Rightarrow> stream_buffer \<times> nat" where
  "new_buffer clock k =
     (\<lparr>queued = [], backlog_chars = 0, last_reveal = clock k, carry = 0, ceiling_carry = 0, reasoning_open = False,
       base_cps = BASE_REVEAL_CPS, backlog_gain = REVEAL_BACKLOG_GAIN, max_step = MAX_REVEAL_STEP,
       jitter = no_jitter\<rparr>, Suc k)"

definition join_last_chunk :: "stream_kind \<Rightarrow> scalars \<Rightarrow> queued_op list \<Rightarrow> queued_op list" where
  "join_last_chunk kind t q =
     (if q = [] then [Queued_Chunk kind t]
      else case last q of
             Queued_Chunk last_kind last_text \<Rightarrow>
               if last_kind = kind then butlast q @ [Queued_Chunk kind (last_text @ t)] else q @ [Queued_Chunk kind t]
           | Queued_Close \<Rightarrow> q @ [Queued_Chunk kind t])"

definition push_chunk :: "clock \<Rightarrow> nat \<Rightarrow> stream_kind \<Rightarrow> scalars \<Rightarrow> stream_buffer \<Rightarrow> stream_buffer \<times> nat" where
  "push_chunk clock k kind t s =
     (let (js, k') = record_event clock k kind (length t) (arrivals (jitter s))
      in (s\<lparr>backlog_chars := backlog_chars s + length t, jitter := (jitter s)\<lparr>arrivals := js\<rparr>,
            queued := join_last_chunk kind t (queued s)\<rparr>, k'))"

definition queue_close :: "stream_buffer \<Rightarrow> stream_buffer" where
  "queue_close s = s\<lparr>queued := queued s @ [Queued_Close], reasoning_open := False\<rparr>"

definition is_blank :: "scalars \<Rightarrow> bool" where
  "is_blank t = list_all is_whitespace t"

definition buffer_push_text ::
  "(rat \<Rightarrow> rat) \<Rightarrow> clock \<Rightarrow> nat \<Rightarrow> scalars \<Rightarrow> stream_buffer \<Rightarrow> stream_op list \<times> stream_buffer \<times> nat" where
  "buffer_push_text rnd clock k t s =
     (if t = [] then reveal_now rnd clock (Suc k) (clock k) s
      else let s1 = (if reasoning_open s \<and> \<not> is_blank t then queue_close s else s);
               (s2, k') = push_chunk clock k Kind_Text t s1
           in reveal_now rnd clock (Suc k') (clock k') s2)"

definition push_reasoning ::
  "(rat \<Rightarrow> rat) \<Rightarrow> clock \<Rightarrow> nat \<Rightarrow> scalars \<Rightarrow> stream_buffer \<Rightarrow> stream_op list \<times> stream_buffer \<times> nat" where
  "push_reasoning rnd clock k t s =
     (if t = [] then reveal_now rnd clock (Suc k) (clock k) s
      else let (s1, k') = push_chunk clock k Kind_Reasoning t (s\<lparr>reasoning_open := True\<rparr>)
           in reveal_now rnd clock (Suc k') (clock k') s1)"

definition push_close_reasoning ::
  "(rat \<Rightarrow> rat) \<Rightarrow> clock \<Rightarrow> nat \<Rightarrow> stream_buffer \<Rightarrow> stream_op list \<times> stream_buffer \<times> nat" where
  "push_close_reasoning rnd clock k s =
     reveal_now rnd clock (Suc k) (clock k) (if reasoning_open s then queue_close s else s)"

definition buffer_flush :: "clock \<Rightarrow> nat \<Rightarrow> stream_buffer \<Rightarrow> stream_op list \<times> stream_buffer \<times> nat" where
  "buffer_flush clock k s =
     (let (ops, s1, k') =
            drain_ops clock (Suc k) (backlog_chars s) (s\<lparr>carry := 0, ceiling_carry := 0, last_reveal := clock k\<rparr>)
      in (ops, s1\<lparr>backlog_chars := 0, reasoning_open := False\<rparr>, k'))"

definition flush_smooth_frame ::
  "(rat \<Rightarrow> rat) \<Rightarrow> clock \<Rightarrow> nat \<Rightarrow> stream_buffer \<Rightarrow> stream_op list \<times> stream_buffer \<times> nat" where
  "flush_smooth_frame rnd clock k s = reveal_now rnd clock (Suc k) (clock k) s"

definition is_empty :: "stream_buffer \<Rightarrow> bool" where
  "is_empty s = (queued s = [])"

definition clear :: "clock \<Rightarrow> nat \<Rightarrow> stream_buffer \<Rightarrow> stream_buffer \<times> nat" where
  "clear clock k s =
     (s\<lparr>queued := [], backlog_chars := 0, carry := 0, ceiling_carry := 0, reasoning_open := False,
        last_reveal := clock k\<rparr>, Suc k)"

definition queued_bytes :: "queued_op \<Rightarrow> nat" where
  "queued_bytes p = (case p of Queued_Chunk kind t \<Rightarrow> byte_len t | Queued_Close \<Rightarrow> 0)"

definition debug_memory_profile :: "stream_buffer \<Rightarrow> nat \<times> nat" where
  "debug_memory_profile s = (sum_list (map queued_bytes (queued s)), whole (base_cps s))"

text \<open>What the terminal calls.\<close>

datatype buffer_call =
  Push_Text scalars
| Push_Reasoning scalars
| Push_Close
| Smooth_Frame
| Flush
| Clear

definition run_call ::
  "(rat \<Rightarrow> rat) \<Rightarrow> clock \<Rightarrow> buffer_call \<Rightarrow> stream_op list \<times> stream_buffer \<times> nat \<Rightarrow> stream_op list \<times> stream_buffer \<times> nat" where
  "run_call rnd clock call r =
     (case r of (shown, s, k) \<Rightarrow>
        let (ops, s', k') =
          (case call of
             Push_Text t \<Rightarrow> buffer_push_text rnd clock k t s
           | Push_Reasoning t \<Rightarrow> push_reasoning rnd clock k t s
           | Push_Close \<Rightarrow> push_close_reasoning rnd clock k s
           | Smooth_Frame \<Rightarrow> flush_smooth_frame rnd clock k s
           | Flush \<Rightarrow> buffer_flush clock k s
           | Clear \<Rightarrow> (let (s', k') = clear clock k s in ([], s', k')))
        in (shown @ ops, s', k'))"

definition run_buffer :: "(rat \<Rightarrow> rat) \<Rightarrow> clock \<Rightarrow> buffer_call list \<Rightarrow> stream_op list \<times> stream_buffer \<times> nat" where
  "run_buffer rnd clock calls = fold (run_call rnd clock) calls ([], new_buffer clock 0)"

end
