(* ===== verification/Stream_Properties.thy ===== *)
theory Stream_Properties
  imports Stream_Buffer
begin

text \<open>
  What the buffer promises the terminal: everything that arrives is shown, once and in order,
  whatever the clock and the rounding; the backlog is what is queued; answer text is never shown
  inside open reasoning; the pace keeps under its ceiling, and frames alone drain the backlog.
\<close>

section \<open>The stream behind the queue\<close>

datatype stream_item = Item_Char stream_kind scalar | Item_Close

definition chunk_items :: "stream_kind \<Rightarrow> scalars \<Rightarrow> stream_item list" where
  "chunk_items kind t = map (Item_Char kind) t"

fun queue_items :: "queued_op list \<Rightarrow> stream_item list" where
  "queue_items [] = []"
| "queue_items (Queued_Chunk kind t # q) = chunk_items kind t @ queue_items q"
| "queue_items (Queued_Close # q) = Item_Close # queue_items q"

fun op_items :: "stream_op list \<Rightarrow> stream_item list" where
  "op_items [] = []"
| "op_items (Op_Text t # ops) = chunk_items Kind_Text t @ op_items ops"
| "op_items (Op_Reasoning t # ops) = chunk_items Kind_Reasoning t @ op_items ops"
| "op_items (Op_Close # ops) = Item_Close # op_items ops"

fun queue_chars :: "queued_op list \<Rightarrow> nat" where
  "queue_chars [] = 0"
| "queue_chars (Queued_Chunk kind t # q) = length t + queue_chars q"
| "queue_chars (Queued_Close # q) = queue_chars q"

fun op_chars :: "stream_op list \<Rightarrow> nat" where
  "op_chars [] = 0"
| "op_chars (Op_Text t # ops) = length t + op_chars ops"
| "op_chars (Op_Reasoning t # ops) = length t + op_chars ops"
| "op_chars (Op_Close # ops) = op_chars ops"

definition op_kind :: "queued_op \<Rightarrow> stream_kind option" where
  "op_kind p = (case p of Queued_Chunk kind t \<Rightarrow> Some kind | Queued_Close \<Rightarrow> None)"

definition filled :: "queued_op \<Rightarrow> bool" where
  "filled p = (case p of Queued_Chunk kind t \<Rightarrow> t \<noteq> [] | Queued_Close \<Rightarrow> True)"

definition queue_ok :: "queued_op list \<Rightarrow> bool" where
  "queue_ok q = (list_all filled q \<and> successively (\<noteq>) (map op_kind q))"

lemma queue_items_append [simp]: "queue_items (q @ r) = queue_items q @ queue_items r"
  by (induction q rule: queue_items.induct) simp_all

lemma op_items_append [simp]: "op_items (q @ r) = op_items q @ op_items r"
  by (induction q rule: op_items.induct) simp_all

lemma queue_chars_append [simp]: "queue_chars (q @ r) = queue_chars q + queue_chars r"
  by (induction q rule: queue_chars.induct) simp_all

lemma op_chars_append [simp]: "op_chars (q @ r) = op_chars q + op_chars r"
  by (induction q rule: op_chars.induct) simp_all

lemma emit_items [simp]:
  "op_items (emit kind t # ops) = chunk_items kind t @ op_items ops" "op_chars (emit kind t # ops) = length t + op_chars ops"
  by (cases kind, simp_all add: emit_def)+

lemma chunk_items_take_drop: "chunk_items kind (take n t) @ chunk_items kind (drop n t) @ xs = chunk_items kind t @ xs"
  by (simp add: chunk_items_def flip: map_append append_assoc)

lemma queue_ok_Cons: "queue_ok (p # q) = (filled p \<and> queue_ok q \<and> (q = [] \<or> op_kind p \<noteq> op_kind (hd q)))"
  by (cases q) (auto simp: queue_ok_def)

lemma record_event_cap:
  "record_event clock k kind chars js = (js', k') \<Longrightarrow> length js \<le> JITTER_EVENT_CAP \<Longrightarrow> length js' \<le> JITTER_EVENT_CAP \<and> k \<le> k'"
  by (auto simp: record_event_def JITTER_EVENT_CAP_def split: if_splits)

section \<open>Draining\<close>

lemma drain_loop_items:
  "drain_loop clock k n q backlog js = (ops, q', backlog', js', k') \<Longrightarrow> op_items ops @ queue_items q' = queue_items q"
proof (induction clock k n q backlog js arbitrary: ops q' backlog' js' k' rule: drain_loop.induct)
  case (3 clock k n kind t q backlog js)
  then show ?case
    by (fastforce simp: Let_def chunk_items_take_drop split: if_splits prod.splits)
qed (auto split: prod.splits)

lemma drain_chunk:
  assumes "drain_loop clock k n (Queued_Chunk kind t # q) backlog js = (ops, q', backlog', js', k')" "0 < n"
  obtains (Whole) ops0 js1 k1 where "length t \<le> n" "ops = emit kind t # ops0"
      "record_event clock k kind (length t) js = (js1, k1)"
      "drain_loop clock k1 (n - length t) q (backlog - length t) js1 = (ops0, q', backlog', js', k')"
    | (Part) "n < length t" "ops = [emit kind (take n t)]" "q' = Queued_Chunk kind (drop n t) # q"
      "backlog' = backlog - n" "record_event clock k kind n js = (js', k')"
  using assms by (cases "length t \<le> n") (auto simp: Let_def min_absorb1 min_absorb2 not_le split: prod.splits)

lemma drain_loop_counts:
  "\<lbrakk>drain_loop clock k n q backlog js = (ops, q', backlog', js', k'); list_all filled q; backlog = queue_chars q\<rbrakk> \<Longrightarrow>
   op_chars ops = min n (queue_chars q) \<and> backlog' = queue_chars q' \<and> queue_chars q' = queue_chars q - op_chars ops
   \<and> (q' = [] \<or> 0 < queue_chars q')"
proof (induction q arbitrary: k n backlog js ops)
  case (Cons p q)
  show ?case
  proof (cases p)
    case (Queued_Chunk kind t)
    show ?thesis
    proof (cases "n = 0")
      case True
      then show ?thesis using Cons.prems Queued_Chunk by (auto simp: filled_def)
    next
      case False
      then have "0 < n" by simp
      from Cons.prems(1) [unfolded Queued_Chunk] this show ?thesis
      proof (cases rule: drain_chunk)
        case (Whole ops0 js1 k1)
        then show ?thesis
          using Cons.IH [OF Whole(4)] Cons.prems(2,3) Queued_Chunk by auto
      next
        case Part
        then show ?thesis
          using Cons.prems(3) Queued_Chunk by auto
      qed
    qed
  next
    case Queued_Close
    then obtain ops0 where rest: "drain_loop clock k n q backlog js = (ops0, q', backlog', js', k')" "ops = Op_Close # ops0"
      using Cons.prems(1) by (auto split: prod.splits)
    then show ?thesis using Cons.IH [OF rest(1)] Cons.prems Queued_Close by auto
  qed
qed simp

lemma drain_loop_ok:
  "\<lbrakk>drain_loop clock k n q backlog js = (ops, q', backlog', js', k'); queue_ok q\<rbrakk> \<Longrightarrow>
   queue_ok q' \<and> (q' = [] \<or> op_kind (last q') = op_kind (last q))"
proof (induction clock k n q backlog js arbitrary: ops q' backlog' js' k' rule: drain_loop.induct)
  case (3 clock k n kind t q backlog js)
  then show ?case
    by (fastforce simp: Let_def queue_ok_Cons filled_def op_kind_def split: if_splits prod.splits)
qed (auto simp: queue_ok_Cons split: prod.splits if_splits)

lemma drain_loop_cap:
  "\<lbrakk>drain_loop clock k n q backlog js = (ops, q', backlog', js', k'); length js \<le> JITTER_EVENT_CAP\<rbrakk> \<Longrightarrow>
   length js' \<le> JITTER_EVENT_CAP \<and> k \<le> k'"
proof (induction clock k n q backlog js arbitrary: ops q' backlog' js' k' rule: drain_loop.induct)
  case (3 clock k n kind t q backlog js)
  then show ?case
    by (fastforce simp: Let_def dest: record_event_cap split: if_splits prod.splits)
qed (auto split: prod.splits)

section \<open>What holds of the buffer\<close>

definition buffer_ok :: "stream_buffer \<Rightarrow> bool" where
  "buffer_ok s =
     (queue_ok (queued s) \<and> backlog_chars s = queue_chars (queued s)
      \<and> (\<not> reasoning_open s \<or> queued s = [] \<or> op_kind (last (queued s)) \<noteq> None)
      \<and> length (arrivals (jitter s)) \<le> JITTER_EVENT_CAP \<and> length (reveals (jitter s)) \<le> JITTER_EVENT_CAP)"

text \<open>What showing a part of the backlog changes.\<close>

definition shown_from :: "stream_buffer \<Rightarrow> stream_op list \<Rightarrow> stream_buffer \<Rightarrow> bool" where
  "shown_from s ops s' =
     (buffer_ok s' \<and> op_items ops @ queue_items (queued s') = queue_items (queued s)
      \<and> backlog_chars s' = backlog_chars s - op_chars ops \<and> op_chars ops \<le> backlog_chars s
      \<and> (queued s' = [] \<or> 0 < backlog_chars s')
      \<and> reasoning_open s' = reasoning_open s \<and> base_cps s' = base_cps s \<and> backlog_gain s' = backlog_gain s
      \<and> max_step s' = max_step s)"

lemma drain_shown:
  assumes "drain_ops clock k n s = (ops, s', k')" "buffer_ok s"
  shows "shown_from s ops s'" "op_chars ops = min n (backlog_chars s)" "k \<le> k'"
    "carry s' = carry s" "ceiling_carry s' = ceiling_carry s" "last_reveal s' = last_reveal s"
proof -
  obtain q backlog js where loop: "drain_loop clock k n (queued s) (backlog_chars s) (reveals (jitter s)) = (ops, q, backlog, js, k')"
    and s': "s' = s\<lparr>queued := q, backlog_chars := backlog, jitter := (jitter s)\<lparr>reveals := js\<rparr>\<rparr>"
    using assms(1) by (auto simp: drain_ops_def split: prod.splits)
  have filled: "list_all filled (queued s)" and backlog: "backlog_chars s = queue_chars (queued s)"
    and ok: "queue_ok (queued s)" and cap: "length (reveals (jitter s)) \<le> JITTER_EVENT_CAP"
    using assms(2) by (simp_all add: buffer_ok_def queue_ok_def)
  note facts = drain_loop_items [OF loop] drain_loop_counts [OF loop filled backlog] drain_loop_ok [OF loop ok]
    drain_loop_cap [OF loop cap]
  have "queued s = [] \<Longrightarrow> q = []"
    using facts(1) loop by auto
  then show "shown_from s ops s'"
    using facts assms(2) by (auto simp: shown_from_def buffer_ok_def s' backlog)
  show "op_chars ops = min n (backlog_chars s)" "k \<le> k'"
    "carry s' = carry s" "ceiling_carry s' = ceiling_carry s" "last_reveal s' = last_reveal s"
    using facts by (simp_all add: s' backlog)
qed

lemma paced_fields:
  "buffer_ok (s\<lparr>last_reveal := l, carry := c, ceiling_carry := d\<rparr>) = buffer_ok s"
  "buffer_ok (s\<lparr>carry := c, ceiling_carry := d, last_reveal := l\<rparr>) = buffer_ok s"
  "shown_from (s\<lparr>last_reveal := l, carry := c, ceiling_carry := d\<rparr>) ops s' = shown_from s ops s'"
  "shown_from (s\<lparr>carry := c, ceiling_carry := d, last_reveal := l\<rparr>) ops s' = shown_from s ops s'"
  by (simp_all add: buffer_ok_def shown_from_def)

definition credit :: "(rat \<Rightarrow> rat) \<Rightarrow> nat \<Rightarrow> stream_buffer \<Rightarrow> rat" where
  "credit rnd now s = as_secs_f32 rnd (min (now - last_reveal s) (max_step s))"

definition budget_at :: "(rat \<Rightarrow> rat) \<Rightarrow> nat \<Rightarrow> stream_buffer \<Rightarrow> rat" where
  "budget_at rnd now s =
     rnd (carry s + rnd (credit rnd now s * rnd (base_cps s + rnd (rnd (of_nat (backlog_chars s)) * backlog_gain s))))"

definition ceiling_at :: "(rat \<Rightarrow> rat) \<Rightarrow> nat \<Rightarrow> stream_buffer \<Rightarrow> rat" where
  "ceiling_at rnd now s = rnd (ceiling_carry s + rnd (credit rnd now s * MAX_REVEAL_CPS))"

definition reveal_count :: "(rat \<Rightarrow> rat) \<Rightarrow> nat \<Rightarrow> stream_buffer \<Rightarrow> nat" where
  "reveal_count rnd now s = min (min (whole (budget_at rnd now s)) (whole (ceiling_at rnd now s))) (backlog_chars s)"

lemma reveal_now_paced:
  assumes "backlog_chars s \<noteq> 0"
  shows "reveal_now rnd clock k now s =
     (let n = reveal_count rnd now s;
          spent = (\<lambda>x. if n = 0 then x else rnd (x - rnd (of_nat n)))
      in drain_ops clock k n
           (s\<lparr>carry := spent (budget_at rnd now s), ceiling_carry := spent (ceiling_at rnd now s), last_reveal := now\<rparr>))"
proof -
  have swap1: "s\<lparr>last_reveal := now, carry := c, ceiling_carry := d\<rparr> = s\<lparr>carry := c, ceiling_carry := d, last_reveal := now\<rparr>" for c d
    by simp
  have swap2: "s\<lparr>last_reveal := now, carry := c', ceiling_carry := d', carry := c, ceiling_carry := d\<rparr>
      = s\<lparr>carry := c, ceiling_carry := d, last_reveal := now\<rparr>" for c d c' d'
    by simp
  let ?b = "budget_at rnd now s" and ?c = "ceiling_at rnd now s"
  let ?r = "min (whole ?b) (whole ?c)"
  let ?n = "min ?r (backlog_chars s)"
  have "reveal_now rnd clock k now s =
     (if ?r = 0 then drain_ops clock k 0 (s\<lparr>last_reveal := now, carry := ?b, ceiling_carry := ?c\<rparr>)
      else drain_ops clock k ?n
             (s\<lparr>last_reveal := now, carry := ?b, ceiling_carry := ?c, carry := rnd (?b - rnd (of_nat ?n)),
                ceiling_carry := rnd (?c - rnd (of_nat ?n))\<rparr>))"
    unfolding reveal_now_def budget_at_def ceiling_at_def credit_def Let_def if_not_P [OF assms] by (rule refl)
  also have "\<dots> =
     (if ?r = 0 then drain_ops clock k 0 (s\<lparr>carry := ?b, ceiling_carry := ?c, last_reveal := now\<rparr>)
      else drain_ops clock k ?n
             (s\<lparr>carry := rnd (?b - rnd (of_nat ?n)), ceiling_carry := rnd (?c - rnd (of_nat ?n)), last_reveal := now\<rparr>))"
    unfolding swap2 unfolding swap1 by (rule refl)
  finally show ?thesis
    using assms by (auto simp: reveal_count_def Let_def)
qed

lemma reveal_now_drains:
  "\<exists>n c d. reveal_now rnd clock k now s = drain_ops clock k n (s\<lparr>carry := c, ceiling_carry := d, last_reveal := now\<rparr>)"
proof (cases "backlog_chars s = 0")
  case True
  then have "reveal_now rnd clock k now s = drain_ops clock k 0 (s\<lparr>carry := 0, ceiling_carry := 0, last_reveal := now\<rparr>)"
    by (simp add: reveal_now_def)
  then show ?thesis by blast
next
  case False
  show ?thesis
    unfolding reveal_now_paced [OF False] Let_def by blast
qed

lemma reveal_shown:
  assumes "reveal_now rnd clock k now s = (ops, s', k')" "buffer_ok s"
  shows "shown_from s ops s'" "k \<le> k'" "last_reveal s' = now"
proof -
  obtain n c d where run: "drain_ops clock k n (s\<lparr>carry := c, ceiling_carry := d, last_reveal := now\<rparr>) = (ops, s', k')"
    using assms(1) reveal_now_drains [of rnd clock k now s] by auto
  have ok: "buffer_ok (s\<lparr>carry := c, ceiling_carry := d, last_reveal := now\<rparr>)"
    using assms(2) by (simp only: paced_fields)
  show "shown_from s ops s'" "k \<le> k'" "last_reveal s' = now"
    using drain_shown [OF run ok] by (simp_all add: paced_fields)
qed

section \<open>Arrivals\<close>

lemma join_last_items [simp]: "queue_items (join_last_chunk kind t q) = queue_items q @ chunk_items kind t"
  by (cases q rule: rev_cases) (auto simp: join_last_chunk_def chunk_items_def split: queued_op.split)

lemma join_last_chars [simp]: "queue_chars (join_last_chunk kind t q) = queue_chars q + length t"
  by (cases q rule: rev_cases) (auto simp: join_last_chunk_def split: queued_op.split)

lemma queue_ok_snoc: "queue_ok (q @ [p]) = (queue_ok q \<and> filled p \<and> (q = [] \<or> op_kind (last q) \<noteq> op_kind p))"
  by (auto simp: queue_ok_def successively_append_iff last_map)

lemma join_last_ok:
  assumes "queue_ok q" "t \<noteq> []"
  shows "queue_ok (join_last_chunk kind t q)" "join_last_chunk kind t q \<noteq> []" "op_kind (last (join_last_chunk kind t q)) = Some kind"
proof -
  show "queue_ok (join_last_chunk kind t q)"
  proof (cases "q \<noteq> [] \<and> op_kind (last q) = Some kind")
    case True
    then obtain t0 where t0: "last q = Queued_Chunk kind t0"
      by (auto simp: op_kind_def split: queued_op.splits)
    have "queue_ok (butlast q @ [Queued_Chunk kind t0])"
      using True assms(1) t0 by (metis append_butlast_last_id)
    then show ?thesis
      using True t0 assms(2) by (simp add: join_last_chunk_def queue_ok_snoc filled_def op_kind_def)
  next
    case False
    then have "join_last_chunk kind t q = q @ [Queued_Chunk kind t]"
      by (auto simp: join_last_chunk_def op_kind_def split: queued_op.splits)
    moreover have "op_kind (Queued_Chunk kind t) = Some kind" by (simp add: op_kind_def)
    ultimately show ?thesis
      using False assms by (auto simp: queue_ok_snoc filled_def)
  qed
  show "join_last_chunk kind t q \<noteq> []" "op_kind (last (join_last_chunk kind t q)) = Some kind"
    by (auto simp: join_last_chunk_def op_kind_def split: queued_op.splits)
qed

lemma push_chunk_ok:
  assumes "push_chunk clock k kind t s = (s', k')" "buffer_ok s" "t \<noteq> []"
  shows "buffer_ok s'" "queue_items (queued s') = queue_items (queued s) @ chunk_items kind t" "k \<le> k'"
    "reasoning_open s' = reasoning_open s" "last_reveal s' = last_reveal s" "carry s' = carry s"
    "ceiling_carry s' = ceiling_carry s" "base_cps s' = base_cps s" "backlog_gain s' = backlog_gain s" "max_step s' = max_step s"
    "queued s' \<noteq> []" "op_kind (last (queued s')) = Some kind" "backlog_chars s' = backlog_chars s + length t"
proof -
  obtain js where js: "record_event clock k kind (length t) (arrivals (jitter s)) = (js, k')"
    and s': "s' = s\<lparr>backlog_chars := backlog_chars s + length t, jitter := (jitter s)\<lparr>arrivals := js\<rparr>,
            queued := join_last_chunk kind t (queued s)\<rparr>"
    using assms(1) by (auto simp: push_chunk_def split: prod.splits)
  have cap: "length js \<le> JITTER_EVENT_CAP \<and> k \<le> k'"
    by (rule record_event_cap [OF js]) (use assms(2) in \<open>simp add: buffer_ok_def\<close>)
  have q: "queue_ok (queued s)" using assms(2) by (simp add: buffer_ok_def)
  show "buffer_ok s'"
    using assms(2) cap join_last_ok [OF q assms(3), of kind] by (simp add: s' buffer_ok_def)
  show "queue_items (queued s') = queue_items (queued s) @ chunk_items kind t" "k \<le> k'"
    "reasoning_open s' = reasoning_open s" "last_reveal s' = last_reveal s" "carry s' = carry s"
    "ceiling_carry s' = ceiling_carry s" "base_cps s' = base_cps s" "backlog_gain s' = backlog_gain s" "max_step s' = max_step s"
    "queued s' \<noteq> []" "op_kind (last (queued s')) = Some kind" "backlog_chars s' = backlog_chars s + length t"
    using cap join_last_ok [OF q assms(3), of kind] by (simp_all add: s')
qed

lemma queue_close_ok:
  assumes "buffer_ok s" "reasoning_open s"
  shows "buffer_ok (queue_close s)" "queue_items (queued (queue_close s)) = queue_items (queued s) @ [Item_Close]"
    "reasoning_open (queue_close s) = False" "backlog_chars (queue_close s) = backlog_chars s"
    "last_reveal (queue_close s) = last_reveal s" "ceiling_carry (queue_close s) = ceiling_carry s" "carry (queue_close s) = carry s"
    "base_cps (queue_close s) = base_cps s" "backlog_gain (queue_close s) = backlog_gain s" "max_step (queue_close s) = max_step s"
  using assms by (auto simp: queue_close_def buffer_ok_def queue_ok_snoc filled_def op_kind_def)

section \<open>What arrives\<close>

definition arrives :: "bool \<Rightarrow> buffer_call \<Rightarrow> stream_item list" where
  "arrives opened call =
     (case call of
        Push_Text t \<Rightarrow> (if opened \<and> \<not> is_blank t then [Item_Close] else []) @ chunk_items Kind_Text t
      | Push_Reasoning t \<Rightarrow> chunk_items Kind_Reasoning t
      | Push_Close \<Rightarrow> (if opened then [Item_Close] else [])
      | _ \<Rightarrow> [])"

definition opened_after :: "bool \<Rightarrow> buffer_call \<Rightarrow> bool" where
  "opened_after opened call =
     (case call of
        Push_Text t \<Rightarrow> opened \<and> is_blank t
      | Push_Reasoning t \<Rightarrow> opened \<or> t \<noteq> []
      | Smooth_Frame \<Rightarrow> opened
      | _ \<Rightarrow> False)"

fun arrived :: "bool \<Rightarrow> buffer_call list \<Rightarrow> stream_item list" where
  "arrived opened [] = []"
| "arrived opened (call # calls) = arrives opened call @ arrived (opened_after opened call) calls"

lemma new_buffer_ok: "buffer_ok (fst (new_buffer clock k))"
  by (simp add: new_buffer_def buffer_ok_def queue_ok_def no_jitter_def)

text \<open>A call first brings the buffer to the state \<open>loaded\<close>, and then shows a part of it.\<close>

definition loaded :: "stream_buffer \<Rightarrow> buffer_call \<Rightarrow> stream_buffer \<Rightarrow> bool" where
  "loaded s call s1 =
     (buffer_ok s1 \<and> queue_items (queued s1) = queue_items (queued s) @ arrives (reasoning_open s) call
      \<and> reasoning_open s1 = opened_after (reasoning_open s) call
      \<and> carry s1 = carry s \<and> ceiling_carry s1 = ceiling_carry s \<and> last_reveal s1 = last_reveal s
      \<and> base_cps s1 = base_cps s \<and> backlog_gain s1 = backlog_gain s \<and> max_step s1 = max_step s)"

definition pushes :: "buffer_call \<Rightarrow> bool" where
  "pushes call = (case call of Flush \<Rightarrow> False | Clear \<Rightarrow> False | _ \<Rightarrow> True)"

lemma run_call_loaded:
  assumes "run_call rnd clock call (shown, s, k) = (shown', s', k')" "buffer_ok s" "pushes call"
  obtains s1 j ops where "loaded s call s1" "k \<le> j" "reveal_now rnd clock (Suc j) (clock j) s1 = (ops, s', k')"
    "shown' = shown @ ops"
proof -
  have idle: "loaded s call s" if "arrives (reasoning_open s) call = []" "opened_after (reasoning_open s) call = reasoning_open s"
    using that assms(2) by (simp add: loaded_def)
  show ?thesis
  proof (cases call)
    case (Push_Text t)
    show ?thesis
    proof (cases "t = []")
      case True
      have "loaded s call s" by (rule idle) (simp_all add: Push_Text True arrives_def opened_after_def is_blank_def chunk_items_def)
      then show ?thesis
        using that assms(1) by (auto simp: run_call_def Push_Text buffer_push_text_def True split: prod.splits)
    next
      case False
      let ?s1 = "if reasoning_open s \<and> \<not> is_blank t then queue_close s else s"
      have ok: "buffer_ok ?s1" using assms(2) queue_close_ok(1) by simp
      obtain s2 j where push: "push_chunk clock k Kind_Text t ?s1 = (s2, j)" by force
      have "loaded s call s2"
        using push_chunk_ok [OF push ok False] queue_close_ok [OF assms(2)]
        by (auto simp: loaded_def Push_Text arrives_def opened_after_def split: if_splits)
      then show ?thesis
        using that push_chunk_ok(3) [OF push ok False] assms(1) push
        by (auto simp: run_call_def Push_Text buffer_push_text_def False Let_def split: prod.splits)
    qed
  next
    case (Push_Reasoning t)
    show ?thesis
    proof (cases "t = []")
      case True
      have "loaded s call s" by (rule idle) (simp_all add: Push_Reasoning True arrives_def opened_after_def chunk_items_def)
      then show ?thesis
        using that assms(1) by (auto simp: run_call_def Push_Reasoning push_reasoning_def True split: prod.splits)
    next
      case False
      obtain s2 j where push: "push_chunk clock k Kind_Reasoning t s = (s2, j)" by force
      have push': "push_chunk clock k Kind_Reasoning t (s\<lparr>reasoning_open := True\<rparr>) = (s2\<lparr>reasoning_open := True\<rparr>, j)"
        using push by (auto simp: push_chunk_def split: prod.splits)
      have "loaded s call (s2\<lparr>reasoning_open := True\<rparr>)"
        using push_chunk_ok [OF push assms(2) False] False
        by (auto simp: loaded_def Push_Reasoning arrives_def opened_after_def buffer_ok_def)
      then show ?thesis
        using that push_chunk_ok(3) [OF push assms(2) False] assms(1) push'
        by (auto simp: run_call_def Push_Reasoning push_reasoning_def False Let_def split: prod.splits)
    qed
  next
    case Push_Close
    have "loaded s call (if reasoning_open s then queue_close s else s)"
      using assms(2) queue_close_ok [OF assms(2)] by (auto simp: loaded_def Push_Close arrives_def opened_after_def)
    then show ?thesis
      using that assms(1) by (auto simp: run_call_def Push_Close push_close_reasoning_def split: prod.splits)
  next
    case Smooth_Frame
    have "loaded s call s" by (rule idle) (simp_all add: Smooth_Frame arrives_def opened_after_def)
    then show ?thesis
      using that assms(1) by (auto simp: run_call_def Smooth_Frame flush_smooth_frame_def split: prod.splits)
  qed (use assms(3) in \<open>simp_all add: pushes_def\<close>)
qed

lemma flush_shown:
  assumes "buffer_flush clock k s = (ops, s', k')" "buffer_ok s"
  shows "buffer_ok s'" "queued s' = []" "op_items ops = queue_items (queued s)" "reasoning_open s' = False" "k \<le> k'"
proof -
  let ?s = "s\<lparr>carry := 0, ceiling_carry := 0, last_reveal := clock k\<rparr>"
  obtain s1 where run: "drain_ops clock (Suc k) (backlog_chars ?s) ?s = (ops, s1, k')"
    and s': "s' = s1\<lparr>backlog_chars := 0, reasoning_open := False\<rparr>"
    using assms(1) by (auto simp: buffer_flush_def split: prod.splits)
  have ok: "buffer_ok ?s" using assms(2) by (simp only: paced_fields)
  note facts = drain_shown [OF run ok]
  have left: "backlog_chars s1 = 0"
    using facts(1,2) by (simp add: shown_from_def)
  then have "queued s1 = []"
    using facts(1) by (auto simp: shown_from_def)
  then show "buffer_ok s'" "queued s' = []" "op_items ops = queue_items (queued s)" "reasoning_open s' = False" "k \<le> k'"
    using facts(1,3) left by (auto simp: s' shown_from_def buffer_ok_def)
qed

lemma clear_ok: "clear clock k s = (s', k') \<Longrightarrow> buffer_ok s \<Longrightarrow> buffer_ok s' \<and> queued s' = [] \<and> reasoning_open s' = False \<and> k' = Suc k"
  by (auto simp: clear_def buffer_ok_def queue_ok_def)

lemma call_step:
  assumes "run_call rnd clock call (shown, s, k) = (shown', s', k')" "buffer_ok s"
  shows "buffer_ok s'" "reasoning_open s' = opened_after (reasoning_open s) call" "k \<le> k'"
    "call \<noteq> Clear \<Longrightarrow> op_items shown' @ queue_items (queued s') = op_items shown @ queue_items (queued s) @ arrives (reasoning_open s) call"
    "call = Flush \<Longrightarrow> queued s' = []"
proof -
  have "buffer_ok s' \<and> reasoning_open s' = opened_after (reasoning_open s) call \<and> k \<le> k'
      \<and> (call \<noteq> Clear \<longrightarrow> op_items shown' @ queue_items (queued s') = op_items shown @ queue_items (queued s) @ arrives (reasoning_open s) call)
      \<and> (call = Flush \<longrightarrow> queued s' = [])"
  proof (cases "pushes call")
    case True
    obtain s1 j ops where step: "loaded s call s1" "k \<le> j" "reveal_now rnd clock (Suc j) (clock j) s1 = (ops, s', k')"
      "shown' = shown @ ops"
      using run_call_loaded [OF assms True] .
    show ?thesis
      using step reveal_shown [OF step(3)] True by (auto simp: loaded_def shown_from_def pushes_def)
  next
    case False
    then consider "call = Flush" | "call = Clear" by (cases call) (simp_all add: pushes_def)
    then show ?thesis
    proof cases
      case 1
      then obtain ops where run: "buffer_flush clock k s = (ops, s', k')" "shown' = shown @ ops"
        using assms(1) by (auto simp: run_call_def split: prod.splits)
      show ?thesis
        using flush_shown [OF run(1) assms(2)] 1 run(2) by (simp add: arrives_def opened_after_def)
    next
      case 2
      then have "clear clock k s = (s', k')"
        using assms(1) by (simp add: run_call_def split: prod.splits)
      from clear_ok [OF this assms(2)] show ?thesis
        using 2 by (simp add: opened_after_def)
    qed
  qed
  then show "buffer_ok s'" "reasoning_open s' = opened_after (reasoning_open s) call" "k \<le> k'"
    "call \<noteq> Clear \<Longrightarrow> op_items shown' @ queue_items (queued s') = op_items shown @ queue_items (queued s) @ arrives (reasoning_open s) call"
    "call = Flush \<Longrightarrow> queued s' = []"
    by simp_all
qed

lemma run_buffer_new: "run_buffer rnd clock calls = fold (run_call rnd clock) calls ([], fst (new_buffer clock 0), 1)"
  by (simp add: run_buffer_def new_buffer_def)

lemma run_calls_ok: "buffer_ok s \<Longrightarrow> buffer_ok (fst (snd (fold (run_call rnd clock) calls (shown, s, k))))"
proof (induction calls arbitrary: shown s k)
  case (Cons call calls)
  obtain shown' s' k' where step: "run_call rnd clock call (shown, s, k) = (shown', s', k')"
    using prod_cases3 by blast
  show ?case using Cons.IH [OF call_step(1) [OF step Cons.prems]] step by simp
qed simp

lemma run_calls_items:
  assumes "buffer_ok s" "Clear \<notin> set calls" "fold (run_call rnd clock) calls (shown, s, k) = (shown', s', k')"
  shows "op_items shown' @ queue_items (queued s') = op_items shown @ queue_items (queued s) @ arrived (reasoning_open s) calls"
  using assms
proof (induction calls arbitrary: shown s k)
  case (Cons call calls)
  obtain shown1 s1 k1 where step: "run_call rnd clock call (shown, s, k) = (shown1, s1, k1)"
    using prod_cases3 by blast
  show ?case
    using Cons.IH [OF call_step(1) [OF step Cons.prems(1)]] call_step(2,4) [OF step Cons.prems(1)] Cons.prems(2,3) step
    by auto
qed simp

lemma arrived_append: "arrived opened (calls @ calls') = arrived opened calls @ arrived (fold (\<lambda>c b. opened_after b c) calls opened) calls'"
  by (induction calls arbitrary: opened) simp_all

lemma flushed_items:
  assumes "Clear \<notin> set calls" "run_buffer rnd clock (calls @ [Flush]) = (shown, s, k)"
  shows "op_items shown = arrived False calls" "queued s = []"
proof -
  obtain shown1 s1 k1 where run: "run_buffer rnd clock calls = (shown1, s1, k1)" using prod_cases3 by blast
  have ok: "buffer_ok s1"
    using run_calls_ok [OF new_buffer_ok, of rnd clock calls "[]" clock 0 1] run by (simp add: run_buffer_new)
  have last: "run_call rnd clock Flush (shown1, s1, k1) = (shown, s, k)"
    using assms(2) run by (simp add: run_buffer_new)
  show empty: "queued s = []"
    by (rule call_step(5) [OF last ok]) simp
  have "op_items shown1 @ queue_items (queued s1) = arrived False calls"
    using run_calls_items [OF new_buffer_ok assms(1)] run by (simp add: run_buffer_new new_buffer_def)
  then show "op_items shown = arrived False calls"
    using call_step(4) [OF last ok] empty by (simp add: arrives_def)
qed

text \<open>
  C13: whatever was pushed, at any times and under any rounding: what has been shown and what
  is queued are together what arrived, once and in order, and a flush then shows all of it.
\<close>

theorem stream_is_what_arrived:
  assumes "Clear \<notin> set calls"
  shows "(case run_buffer rnd clock calls of (shown, s, k) \<Rightarrow> op_items shown @ queue_items (queued s) = arrived False calls)
       \<and> (case run_buffer rnd clock (calls @ [Flush]) of (shown, s, k) \<Rightarrow> op_items shown = arrived False calls \<and> is_empty s)"
  using run_calls_items [OF new_buffer_ok assms] flushed_items [OF assms]
  by (auto simp: run_buffer_new new_buffer_def is_empty_def split: prod.split)

theorem stream_is_what_arrived_witness:
  "(case run_buffer (\<lambda>x. x) (\<lambda>i. 10 * i) [Push_Reasoning [104], Push_Text [105]] of
      (shown, s, k) \<Rightarrow> op_items shown @ queue_items (queued s) = arrived False [Push_Reasoning [104], Push_Text [105]])
   \<and> (case run_buffer (\<lambda>x. x) (\<lambda>i. 10 * i) ([Push_Reasoning [104], Push_Text [105]] @ [Flush]) of
        (shown, s, k) \<Rightarrow> op_items shown = arrived False [Push_Reasoning [104], Push_Text [105]] \<and> is_empty s)"
  by (rule stream_is_what_arrived) simp

text \<open>
  at every moment the count of the backlog is the number of queued characters, no chunk is
  empty, neighbouring chunks are of different kinds, no two closes stand together, and the
  recorder keeps to its cap.
\<close>

theorem buffer_stays_ok: "buffer_ok (fst (snd (run_buffer rnd clock calls)))"
  using run_calls_ok [OF new_buffer_ok] by (simp add: run_buffer_new)

section \<open>Answer text and reasoning\<close>

fun region_ok :: "bool \<Rightarrow> stream_item list \<Rightarrow> bool" where
  "region_ok opened [] = True"
| "region_ok opened (Item_Close # is) = (opened \<and> region_ok False is)"
| "region_ok opened (Item_Char Kind_Reasoning c # is) = region_ok True is"
| "region_ok opened (Item_Char Kind_Text c # is) = ((\<not> opened \<or> is_whitespace c) \<and> region_ok opened is)"

lemma region_ok_prefix: "region_ok opened (is @ js) \<Longrightarrow> region_ok opened is"
  by (induction opened "is" rule: region_ok.induct) simp_all

lemma region_ok_text: "region_ok opened (chunk_items Kind_Text t @ is) = ((\<not> opened \<or> is_blank t) \<and> region_ok opened is)"
  by (induction t) (auto simp: chunk_items_def is_blank_def)

lemma region_ok_reasoning: "region_ok opened (chunk_items Kind_Reasoning t @ is) = region_ok (opened \<or> t \<noteq> []) is"
  by (induction t arbitrary: opened) (simp_all add: chunk_items_def)

lemma arrived_region: "list_all pushes calls \<Longrightarrow> region_ok opened (arrived opened calls)"
  by (induction calls arbitrary: opened)
    (auto simp: arrives_def opened_after_def pushes_def region_ok_text region_ok_reasoning split: buffer_call.splits)



section \<open>The pace\<close>

text \<open>The pace is stated for exact arithmetic: no rounding.\<close>

definition unrounded :: "rat \<Rightarrow> rat" where
  "unrounded x = x"

lemma unrounded_secs: "as_secs_f32 unrounded ns = of_nat ns / 1000000000"
proof -
  have "of_nat ns = (of_nat (ns div 1000000000) * 1000000000 + of_nat (ns mod 1000000000) :: rat)"
    by (metis div_mult_mod_eq of_nat_add of_nat_mult of_nat_numeral)
  then show ?thesis
    unfolding as_secs_f32_def unrounded_def by (simp add: add_divide_distrib)
qed

text \<open>The characters the ceiling allows for a time.\<close>

definition allowance :: "nat \<Rightarrow> rat" where
  "allowance ns = MAX_REVEAL_CPS * (of_nat ns / 1000000000)"

lemma allowance_add: "allowance (m + n) = allowance m + allowance n"
  by (simp add: allowance_def add_divide_distrib distrib_left)

lemma allowance_nonneg: "0 \<le> allowance n"
  by (simp add: allowance_def MAX_REVEAL_CPS_def)

lemma whole_le: "0 \<le> x \<Longrightarrow> of_nat (whole x) \<le> x"
  by (simp add: whole_def)

lemma whole_ge_1: "1 \<le> x \<Longrightarrow> 0 < whole x"
  by (simp add: whole_def)

text \<open>What is kept between the calls, beside \<open>buffer_ok\<close>.\<close>

definition paced :: "clock \<Rightarrow> stream_buffer \<Rightarrow> nat \<Rightarrow> bool" where
  "paced clock s k =
     (buffer_ok s \<and> base_cps s = BASE_REVEAL_CPS \<and> backlog_gain s = REVEAL_BACKLOG_GAIN \<and> max_step s = MAX_REVEAL_STEP
      \<and> 0 \<le> carry s \<and> 0 \<le> ceiling_carry s \<and> (\<exists>i < k. last_reveal s = clock i))"

lemma reveal_paced:
  assumes "reveal_now unrounded clock k now s = (ops, s', k')" "buffer_ok s" "0 \<le> carry s" "0 \<le> ceiling_carry s"
    "base_cps s = BASE_REVEAL_CPS" "backlog_gain s = REVEAL_BACKLOG_GAIN"
  shows "0 \<le> carry s'" "0 \<le> ceiling_carry s'"
    "of_nat (op_chars ops) + ceiling_carry s' \<le> ceiling_carry s + allowance (now - last_reveal s)"
    "backlog_chars s \<noteq> 0 \<Longrightarrow> op_chars ops = reveal_count unrounded now s"
    "backlog_chars s = 0 \<Longrightarrow> op_chars ops = 0"
    "backlog_chars s \<noteq> 0 \<Longrightarrow> carry s' = budget_at unrounded now s - of_nat (reveal_count unrounded now s)
       \<and> ceiling_carry s' = ceiling_at unrounded now s - of_nat (reveal_count unrounded now s)"
proof -
  let ?goal = "0 \<le> carry s' \<and> 0 \<le> ceiling_carry s'
    \<and> of_nat (op_chars ops) + ceiling_carry s' \<le> ceiling_carry s + allowance (now - last_reveal s)
    \<and> (backlog_chars s \<noteq> 0 \<longrightarrow> op_chars ops = reveal_count unrounded now s) \<and> (backlog_chars s = 0 \<longrightarrow> op_chars ops = 0)
    \<and> (backlog_chars s \<noteq> 0 \<longrightarrow> carry s' = budget_at unrounded now s - of_nat (reveal_count unrounded now s)
       \<and> ceiling_carry s' = ceiling_at unrounded now s - of_nat (reveal_count unrounded now s))"
  have ?goal
  proof (cases "backlog_chars s = 0")
    case True
    let ?s = "s\<lparr>carry := 0, ceiling_carry := 0, last_reveal := now\<rparr>"
    have run: "drain_ops clock k 0 ?s = (ops, s', k')"
      using assms(1) True by (simp add: reveal_now_def)
    have ok: "buffer_ok ?s" using assms(2) by (simp only: paced_fields)
    show ?thesis
      using drain_shown(2,4,5) [OF run ok] True assms(4) allowance_nonneg [of "now - last_reveal s"] by simp
  next
    case False
    let ?n = "reveal_count unrounded now s"
    let ?s = "s\<lparr>carry := budget_at unrounded now s - of_nat ?n, ceiling_carry := ceiling_at unrounded now s - of_nat ?n, last_reveal := now\<rparr>"
    have "reveal_now unrounded clock k now s = drain_ops clock k ?n ?s"
      unfolding reveal_now_paced [OF False] by (simp add: Let_def unrounded_def)
    then have run: "drain_ops clock k ?n ?s = (ops, s', k')"
      using assms(1) by simp
    have ok: "buffer_ok ?s" using assms(2) by (simp only: paced_fields)
    have credit: "credit unrounded now s = of_nat (min (now - last_reveal s) (max_step s)) / 1000000000" "0 \<le> credit unrounded now s"
      by (simp_all add: credit_def unrounded_secs)
    have less: "credit unrounded now s \<le> of_nat (now - last_reveal s) / 1000000000"
      unfolding credit(1) by (simp add: divide_right_mono)
    have nonneg: "0 \<le> budget_at unrounded now s" "0 \<le> ceiling_at unrounded now s"
      using assms(3-6) credit(2) by (simp_all add: unrounded_def budget_at_def ceiling_at_def BASE_REVEAL_CPS_def REVEAL_BACKLOG_GAIN_def MAX_REVEAL_CPS_def)
    have "of_nat ?n \<le> budget_at unrounded now s" "of_nat ?n \<le> ceiling_at unrounded now s"
      using whole_le [OF nonneg(1)] whole_le [OF nonneg(2)] unfolding reveal_count_def
      by (meson min.cobounded1 min.cobounded2 of_nat_le_iff order_trans)+
    moreover have "op_chars ops = ?n"
      using drain_shown(2) [OF run ok] by (simp add: reveal_count_def)
    moreover have "ceiling_at unrounded now s \<le> ceiling_carry s + allowance (now - last_reveal s)"
      using less by (simp add: unrounded_def ceiling_at_def allowance_def MAX_REVEAL_CPS_def)
    ultimately show ?thesis
      using drain_shown(4,5) [OF run ok] False by simp
  qed
  then show "0 \<le> carry s'" "0 \<le> ceiling_carry s'"
    "of_nat (op_chars ops) + ceiling_carry s' \<le> ceiling_carry s + allowance (now - last_reveal s)"
    "backlog_chars s \<noteq> 0 \<Longrightarrow> op_chars ops = reveal_count unrounded now s"
    "backlog_chars s = 0 \<Longrightarrow> op_chars ops = 0"
    "backlog_chars s \<noteq> 0 \<Longrightarrow> carry s' = budget_at unrounded now s - of_nat (reveal_count unrounded now s)
       \<and> ceiling_carry s' = ceiling_at unrounded now s - of_nat (reveal_count unrounded now s)"
    by simp_all
qed

lemma paced_new: "paced clock (fst (new_buffer clock 0)) 1"
  using new_buffer_ok by (simp add: paced_def new_buffer_def)

lemma paced_call:
  assumes "run_call unrounded clock call (shown, s, k) = (shown', s', k')" "paced clock s k" "mono clock" "call \<noteq> Flush"
  shows "paced clock s' k'" "last_reveal s \<le> last_reveal s'"
    "of_nat (op_chars shown') + ceiling_carry s'
     \<le> of_nat (op_chars shown) + ceiling_carry s + allowance (last_reveal s' - last_reveal s)"
proof -
  obtain i where i: "i < k" "last_reveal s = clock i"
    using assms(2) by (auto simp: paced_def)
  have ok: "buffer_ok s" using assms(2) by (simp add: paced_def)
  show "paced clock s' k'" "last_reveal s \<le> last_reveal s'"
    "of_nat (op_chars shown') + ceiling_carry s'
     \<le> of_nat (op_chars shown) + ceiling_carry s + allowance (last_reveal s' - last_reveal s)"
  proof -
    have "paced clock s' k' \<and> last_reveal s \<le> last_reveal s' \<and> of_nat (op_chars shown') + ceiling_carry s'
     \<le> of_nat (op_chars shown) + ceiling_carry s + allowance (last_reveal s' - last_reveal s)"
    proof (cases "pushes call")
      case True
      obtain s1 j ops where step: "loaded s call s1" "k \<le> j" "reveal_now unrounded clock (Suc j) (clock j) s1 = (ops, s', k')"
        "shown' = shown @ ops"
        using run_call_loaded [OF assms(1) ok True] .
      have s1: "buffer_ok s1" "0 \<le> carry s1" "0 \<le> ceiling_carry s1" "base_cps s1 = BASE_REVEAL_CPS" "backlog_gain s1 = REVEAL_BACKLOG_GAIN"
        using step(1) assms(2) by (simp_all add: loaded_def paced_def)
      note pace = reveal_paced [OF step(3) s1] and shown = reveal_shown [OF step(3) s1(1)]
      have "last_reveal s \<le> clock j"
        using i step(2) assms(3) by (simp add: monoD)
      moreover have "paced clock s' k'"
        using pace(1,2) shown step(1,2) assms(2) by (auto simp: paced_def loaded_def shown_from_def intro!: exI [of _ j])
      ultimately show ?thesis
        using pace(3) shown(3) step(1,4) by (simp add: loaded_def)
    next
      case False
      then have "call = Clear" using assms(4) by (cases call) (simp_all add: pushes_def)
      then have run: "clear clock k s = (s', k')" "shown' = shown"
        using assms(1) by (simp_all add: run_call_def split: prod.splits)
      have "last_reveal s \<le> clock k"
        using i assms(3) by (simp add: monoD)
      then show ?thesis
        using run assms(2) clear_ok [OF run(1) ok] allowance_nonneg [of "last_reveal s' - last_reveal s"]
        by (auto simp: clear_def paced_def)
    qed
    then show "paced clock s' k'" "last_reveal s \<le> last_reveal s'"
      "of_nat (op_chars shown') + ceiling_carry s'
       \<le> of_nat (op_chars shown) + ceiling_carry s + allowance (last_reveal s' - last_reveal s)"
      by simp_all
  qed
qed

lemma paced_calls:
  assumes "fold (run_call unrounded clock) calls (shown, s, k) = (shown', s', k')" "paced clock s k" "mono clock" "Flush \<notin> set calls"
  shows "paced clock s' k' \<and> last_reveal s \<le> last_reveal s' \<and>
    of_nat (op_chars shown') + ceiling_carry s'
     \<le> of_nat (op_chars shown) + ceiling_carry s + allowance (last_reveal s' - last_reveal s)"
  using assms
proof (induction calls arbitrary: shown s k)
  case (Cons call calls)
  obtain shown1 s1 k1 where step: "run_call unrounded clock call (shown, s, k) = (shown1, s1, k1)"
    using prod_cases3 by blast
  have call: "call \<noteq> Flush" using Cons.prems(4) by auto
  note first = paced_call [OF step Cons.prems(2,3) call]
  have rest: "paced clock s' k' \<and> last_reveal s1 \<le> last_reveal s' \<and>
    of_nat (op_chars shown') + ceiling_carry s'
     \<le> of_nat (op_chars shown1) + ceiling_carry s1 + allowance (last_reveal s' - last_reveal s1)"
    using Cons.IH [OF _ first(1) Cons.prems(3)] Cons.prems(1,4) step by simp
  have "last_reveal s' - last_reveal s = (last_reveal s' - last_reveal s1) + (last_reveal s1 - last_reveal s)"
    using first(2) rest by simp
  then have sum_up: "allowance (last_reveal s' - last_reveal s) = allowance (last_reveal s' - last_reveal s1) + allowance (last_reveal s1 - last_reveal s)"
    by (simp only: allowance_add)
  have "of_nat (op_chars shown') + ceiling_carry s'
     \<le> of_nat (op_chars shown) + ceiling_carry s + allowance (last_reveal s' - last_reveal s)"
    using first(3) conjunct2 [OF conjunct2 [OF rest]] unfolding sum_up by linarith
  then show ?case
    using first(2) rest by simp
qed (simp add: allowance_def)

text \<open>
  as long as nothing is flushed, no more characters are shown than the ceiling of 960 a
  second allows for the time that has passed since the buffer was made.
\<close>

theorem reveals_keep_the_ceiling:
  assumes "mono clock" "Flush \<notin> set calls"
  shows "case run_buffer unrounded clock calls of (shown, s, k) \<Rightarrow>
    of_nat (op_chars shown) \<le> allowance (last_reveal s - clock 0)"
proof -
  obtain shown s k where run: "run_buffer unrounded clock calls = (shown, s, k)" using prod_cases3 by blast
  have "fold (run_call unrounded clock) calls ([], fst (new_buffer clock 0), 1) = (shown, s, k)"
    using run by (simp only: run_buffer_new)
  from paced_calls [OF this paced_new assms]
  have "0 \<le> ceiling_carry s"
    "of_nat (op_chars shown) + ceiling_carry s \<le> 0 + 0 + allowance (last_reveal s - clock 0)"
    by (simp_all add: paced_def new_buffer_def)
  then show ?thesis using run by simp
qed

theorem reveals_keep_the_ceiling_witness:
  "case run_buffer unrounded (\<lambda>i. 10000000 * i) [Push_Text [104, 105], Smooth_Frame] of (shown, s, k) \<Rightarrow>
    of_nat (op_chars shown) \<le> allowance (last_reveal s - (\<lambda>i. 10000000 * i) 0)"
  by (rule reveals_keep_the_ceiling) (simp_all add: mono_def)

section \<open>Frames drain the backlog\<close>

definition ticks :: "clock \<Rightarrow> bool" where
  "ticks clock = (\<forall>k. clock k + 10000000 \<le> clock (Suc k))"

lemma ticks_apart:
  assumes "ticks clock" "i < k"
  shows "clock i + 10000000 \<le> clock k"
proof -
  have "clock i + 10000000 \<le> clock (Suc i + d)" for d
  proof (induction d)
    case (Suc d)
    then show ?case
      using assms(1) [unfolded ticks_def, rule_format, of "Suc i + d"] by simp
  qed (use assms(1) in \<open>simp add: ticks_def\<close>)
  from this [of "k - Suc i"] show ?thesis using assms(2) by simp
qed

lemma ticks_mono: "ticks clock \<Longrightarrow> mono clock"
  by (auto simp: mono_iff_le_Suc ticks_def intro: add_leD1)

lemma frame_step:
  assumes "run_call unrounded clock Smooth_Frame (shown, s, k) = (shown', s', k')" "paced clock s k" "ticks clock"
  shows "paced clock s' k'" "queued s' = [] \<or> backlog_chars s' < backlog_chars s"
proof -
  show "paced clock s' k'"
    using paced_call(1) [OF assms(1,2) ticks_mono [OF assms(3)]] by simp
  obtain ops where run: "reveal_now unrounded clock (Suc k) (clock k) s = (ops, s', k')"
    using assms(1) by (auto simp: run_call_def flush_smooth_frame_def split: prod.splits)
  have s: "buffer_ok s" "0 \<le> carry s" "0 \<le> ceiling_carry s" "base_cps s = BASE_REVEAL_CPS"
    "backlog_gain s = REVEAL_BACKLOG_GAIN" "max_step s = MAX_REVEAL_STEP"
    using assms(2) by (simp_all add: paced_def)
  note shown = reveal_shown(1) [OF run s(1)] and pace = reveal_paced(4,5) [OF run s(1-5)]
  show "queued s' = [] \<or> backlog_chars s' < backlog_chars s"
  proof (cases "backlog_chars s = 0")
    case True
    then show ?thesis using shown by (auto simp: shown_from_def)
  next
    case False
    have "last_reveal s + 10000000 \<le> clock k"
      using assms(2) ticks_apart [OF assms(3)] by (auto simp: paced_def)
    then have "10000000 \<le> min (clock k - last_reveal s) (max_step s)"
      using s(6) by (simp add: MAX_REVEAL_STEP_def)
    then have "(of_nat 10000000 :: rat) \<le> of_nat (min (clock k - last_reveal s) (max_step s))"
      by (simp only: of_nat_le_iff)
    then have credit: "1 / 100 \<le> credit unrounded (clock k) s"
      by (simp add: credit_def unrounded_secs)
    have "1 / 100 * BASE_REVEAL_CPS \<le> credit unrounded (clock k) s * (BASE_REVEAL_CPS + of_nat (backlog_chars s) * REVEAL_BACKLOG_GAIN)"
      using credit by (intro mult_mono) (simp_all add: BASE_REVEAL_CPS_def REVEAL_BACKLOG_GAIN_def)
    then have budget: "1 \<le> budget_at unrounded (clock k) s"
      using s by (simp add: budget_at_def unrounded_def BASE_REVEAL_CPS_def)
    have "1 \<le> ceiling_at unrounded (clock k) s"
      using s(3) credit by (simp add: ceiling_at_def unrounded_def MAX_REVEAL_CPS_def)
    then have "0 < reveal_count unrounded (clock k) s"
      using whole_ge_1 budget False by (simp add: reveal_count_def)
    then show ?thesis
      using pace(1) [OF False] shown by (auto simp: shown_from_def)
  qed
qed

lemma frames_drain:
  assumes "paced clock s k" "ticks clock" "backlog_chars s \<le> n"
  shows "queued (fst (snd (fold (run_call unrounded clock) (replicate (Suc n) Smooth_Frame) (shown, s, k)))) = []"
  using assms
proof (induction n arbitrary: shown s k)
  case 0
  obtain shown1 s1 k1 where step: "run_call unrounded clock Smooth_Frame (shown, s, k) = (shown1, s1, k1)"
    using prod_cases3 by blast
  show ?case using frame_step(2) [OF step 0(1,2)] 0(3) step by simp
next
  case (Suc n)
  obtain shown1 s1 k1 where step: "run_call unrounded clock Smooth_Frame (shown, s, k) = (shown1, s1, k1)"
    using prod_cases3 by blast
  note frame = frame_step [OF step Suc.prems(1,2)]
  have "queued s1 = [] \<Longrightarrow> backlog_chars s1 = 0"
    using frame(1) by (simp add: paced_def buffer_ok_def)
  then have "backlog_chars s1 \<le> n"
    using frame(2) Suc.prems(3) by auto
  from Suc.IH [OF frame(1) Suc.prems(2) this] show ?case
    using step by simp
qed



section \<open>Where the pace and its description part\<close>

lemma queue_chars_items: "queue_chars q = length (filter (\<lambda>i. i \<noteq> Item_Close) (queue_items q))"
  by (induction q rule: queue_chars.induct) (simp_all add: chunk_items_def filter_map comp_def)

text \<open>A push of text fifty milliseconds after the last step, with no reasoning open.\<close>

definition push_state :: "nat \<Rightarrow> nat \<Rightarrow> rat \<Rightarrow> rat \<Rightarrow> clock \<Rightarrow> stream_op list \<times> stream_buffer \<times> nat \<Rightarrow> bool" where
  "push_state chars backlog c d clock r =
     (case r of (shown, s, k) \<Rightarrow>
        paced clock s k \<and> \<not> reasoning_open s \<and> op_chars shown = chars \<and> backlog_chars s = backlog
        \<and> carry s = c \<and> ceiling_carry s = d)"

lemma push_step:
  assumes "push_state chars backlog c d clock r" "clock = (\<lambda>i. 50000000 * i)" "t \<noteq> []"
  defines "b \<equiv> backlog + length t"
  defines "budget \<equiv> c + (180 + 3 * of_nat b) / 20"
  defines "n \<equiv> min (min (whole budget) (whole (d + 48))) b"
  shows "push_state (chars + n) (b - n) (budget - of_nat n) (d + 48 - of_nat n) clock (run_call unrounded clock (Push_Text t) r)"
proof -
  obtain shown s k where r: "r = (shown, s, k)" using prod_cases3 by blast
  obtain shown' s' k' where call: "run_call unrounded clock (Push_Text t) (shown, s, k) = (shown', s', k')" using prod_cases3 by blast
  have s: "paced clock s k" "\<not> reasoning_open s" "op_chars shown = chars" "backlog_chars s = backlog" "carry s = c" "ceiling_carry s = d"
    using assms(1) by (simp_all add: push_state_def r)
  have ok: "buffer_ok s" using s(1) by (simp add: paced_def)
  obtain s1 j ops where step: "loaded s (Push_Text t) s1" "k \<le> j" "reveal_now unrounded clock (Suc j) (clock j) s1 = (ops, s', k')"
    "shown' = shown @ ops"
    by (rule run_call_loaded [OF call ok]) (simp add: pushes_def)
  have "queue_items (queued s1) = queue_items (queued s) @ chunk_items Kind_Text t"
    using step(1) s(2) by (simp add: loaded_def arrives_def)
  then have "queue_chars (queued s1) = queue_chars (queued s) + length t"
    by (simp add: queue_chars_items chunk_items_def filter_map comp_def)
  then have s1: "buffer_ok s1" "carry s1 = c" "ceiling_carry s1 = d" "base_cps s1 = 180" "backlog_gain s1 = 3"
    "max_step s1 = 50000000" "last_reveal s1 = last_reveal s" "backlog_chars s1 = b" "\<not> reasoning_open s1"
    using step(1) s ok
    by (simp_all add: loaded_def paced_def b_def buffer_ok_def opened_after_def BASE_REVEAL_CPS_def REVEAL_BACKLOG_GAIN_def MAX_REVEAL_STEP_def)
  have "last_reveal s1 + 50000000 \<le> clock j"
    using s(1) s1(7) step(2) by (auto simp: paced_def assms(2))
  then have credit: "credit unrounded (clock j) s1 = 1 / 20"
    using s1(6) by (simp add: credit_def unrounded_secs)
  have paid: "budget_at unrounded (clock j) s1 = budget" "ceiling_at unrounded (clock j) s1 = d + 48"
    unfolding budget_at_def ceiling_at_def unrounded_def credit s1 MAX_REVEAL_CPS_def budget_def by (simp_all add: field_simps)
  then have counts: "reveal_count unrounded (clock j) s1 = n"
    by (simp add: reveal_count_def n_def s1(8))
  have pos: "0 \<le> carry s1" "0 \<le> ceiling_carry s1" "base_cps s1 = BASE_REVEAL_CPS" "backlog_gain s1 = REVEAL_BACKLOG_GAIN"
    using s s1 by (simp_all add: paced_def BASE_REVEAL_CPS_def REVEAL_BACKLOG_GAIN_def)
  have b: "backlog_chars s1 \<noteq> 0" using s1(8) assms(3) by (simp add: b_def)
  note pace = reveal_paced [OF step(3) s1(1) pos] and shown = reveal_shown(1) [OF step(3) s1(1)]
  have "mono clock" by (simp add: assms(2) mono_def)
  from paced_call(1) [OF call s(1) this]
  show ?thesis
    using pace(4) [OF b] pace(6) [OF b] shown paid counts step(4) s(3) s1(8,9) call
    by (simp add: push_state_def r shown_from_def)
qed

lemma push_state_new: "push_state 0 0 0 0 clock ([], fst (new_buffer clock 0), 1)"
  using paced_new by (simp add: push_state_def new_buffer_def)

text \<open>
  The ceiling is described as a bound on each step, 48 characters in 50 milliseconds. Its budget
  has no cap, so a slow stream that keeps a backlog saves what it does not use: here three
  slow deltas are followed by a burst, and one step shows 102 characters.
\<close>

lemma ceiling_is_saved_up:
  fixes clock :: clock
  defines "clock \<equiv> \<lambda>i. 50000000 * i"
    and "slow \<equiv> replicate 3 (Push_Text (replicate 20 120))"
  shows "op_chars (fst (run_buffer unrounded clock slow)) = 39"
    and "op_chars (fst (run_buffer unrounded clock (slow @ [Push_Text (replicate 600 120)]))) = 39 + 102"
proof -
  have c: "clock = (\<lambda>i. 50000000 * i)" by (simp add: clock_def)
  let ?t = "replicate 20 120 :: scalars" and ?r = "([], fst (new_buffer clock 0), 1)"
  let ?p = "run_call unrounded clock (Push_Text ?t)"
  have floors: "\<lfloor>66 / 5 :: rat\<rfloor> = 13" "\<lfloor>289 / 20 :: rat\<rfloor> = 14" "\<lfloor>513 / 5 :: rat\<rfloor> = 102"
    by (simp_all add: floor_eq_iff)
  have "push_state 12 8 0 36 clock (?p ?r)"
    using push_step [OF push_state_new c, of ?t] by (simp add: whole_def floors)
  from push_step [OF this c, of ?t] have "push_state 25 15 (1 / 5) 71 clock (?p (?p ?r))"
    by (simp add: whole_def floors)
  from push_step [OF this c, of ?t] have three: "push_state 39 21 (9 / 20) 105 clock (?p (?p (?p ?r)))"
    by (simp add: whole_def floors)
  from push_step [OF this c, of "replicate 600 120"]
  have four: "push_state 141 519 (3 / 5) 51 clock (run_call unrounded clock (Push_Text (replicate 600 120)) (?p (?p (?p ?r))))"
    by (simp add: whole_def floors)
  show "op_chars (fst (run_buffer unrounded clock slow)) = 39"
    using three by (auto simp: run_buffer_new slow_def numeral_3_eq_3 push_state_def split: prod.splits)
  show "op_chars (fst (run_buffer unrounded clock (slow @ [Push_Text (replicate 600 120)]))) = 39 + 102"
    using four by (auto simp: run_buffer_new slow_def numeral_3_eq_3 push_state_def split: prod.splits)
qed

end
