(* ===== verification/Agent_Session.thy ===== *)
theory Agent_Session
  imports Interrupts Transcript
begin

text \<open>
  The session an agent works on, from \<open>crates/kcode-app-core/src/agent\<close>: the transcript, the tracking
  of tool outputs and their repair (\<open>agent.rs\<close>), the queue of soft interrupts and their injection
  (\<open>interrupts.rs\<close>), and the reading of a response that ended early (\<open>response_recovery.rs\<close>). What
  surrounds the agent (the parser of JSON, the names of new messages, saving the session) is a
  record of arguments.
\<close>

section \<open>Data\<close>

datatype display_role = Shown_System | Shown_Background

record stored_message =
  stored_id :: rstr
  stored_role :: role
  stored_content :: "content_block list"
  stored_display :: "display_role option"

record agent =
  transcript :: "stored_message list"
  tool_call_ids :: "rstr set"
  tool_result_ids :: "rstr set"
  scan_index :: nat
  soft_queue :: "soft_interrupt_message list"
  ids_made :: nat
  provider_session :: "rstr option"

record agent_call =
  ac_id :: rstr
  ac_name :: rstr
  ac_input :: json
  ac_intent :: "rstr option"
  ac_signature :: "rstr option"

text \<open>What the session is given: the next name for a message, and whether a save succeeds.\<close>

record session_env =
  fresh_id :: "nat \<Rightarrow> rstr"
  can_save :: "stored_message list \<Rightarrow> bool"

text \<open>\<open>add_message\<close> with its variants.\<close>

definition add_message ::
  "'e session_env_scheme \<Rightarrow> role \<Rightarrow> content_block list \<Rightarrow> display_role option \<Rightarrow> agent \<Rightarrow> agent" where
  "add_message env r blocks d a =
     a\<lparr>transcript := transcript a
          @ [\<lparr>stored_id = fresh_id env (ids_made a), stored_role = r, stored_content = blocks, stored_display = d\<rparr>],
       ids_made := Suc (ids_made a)\<rparr>"

section \<open>Missing tool outputs\<close>

definition stored_calls :: "stored_message \<Rightarrow> rstr list" where
  "stored_calls m = (case stored_role m of Assistant \<Rightarrow> List.map_filter block_call (stored_content m) | User \<Rightarrow> [])"

definition stored_results :: "stored_message \<Rightarrow> rstr list" where
  "stored_results m =
     (case stored_role m of User \<Rightarrow> map fst (List.map_filter block_result (stored_content m)) | Assistant \<Rightarrow> [])"

definition reset_tool_output_tracking :: "agent \<Rightarrow> agent" where
  "reset_tool_output_tracking a = a\<lparr>tool_call_ids := {}, tool_result_ids := {}, scan_index := 0\<rparr>"

text \<open>The messages behind the last scan, with their positions; then what each of them misses.\<close>

definition unscanned :: "agent \<Rightarrow> (nat \<times> stored_message) list" where
  "unscanned a = drop (scan_index a) (enumerate 0 (transcript a))"

definition note_results :: "agent \<Rightarrow> agent" where
  "note_results a = a\<lparr>tool_result_ids := tool_result_ids a \<union> set (concat (map (stored_results \<circ> snd) (unscanned a)))\<rparr>"

definition missing_outputs :: "(rstr \<Rightarrow> bool) \<Rightarrow> agent \<Rightarrow> (nat \<times> rstr list) list" where
  "missing_outputs in_flight a =
     filter (\<lambda>(k, ids). ids \<noteq> [])
       (map (\<lambda>(k, m). (k, filter (\<lambda>i. i \<notin> tool_result_ids a \<and> \<not> in_flight i) (stored_calls m))) (unscanned a))"

definition note_calls :: "agent \<Rightarrow> agent" where
  "note_calls a = a\<lparr>tool_call_ids := tool_call_ids a \<union> set (concat (map (stored_calls \<circ> snd) (unscanned a)))\<rparr>"

definition missing_result :: "rstr \<Rightarrow> content_block" where
  "missing_result i = ToolResult i TOOL_OUTPUT_MISSING_TEXT (Some True)"

definition insert_at :: "nat \<Rightarrow> 'a \<Rightarrow> 'a list \<Rightarrow> 'a list" where
  "insert_at k x xs = take k xs @ x # drop k xs"

definition insert_result :: "'e session_env_scheme \<Rightarrow> nat \<Rightarrow> rstr \<Rightarrow> agent \<Rightarrow> agent" where
  "insert_result env k i a =
     a\<lparr>transcript := insert_at k
          \<lparr>stored_id = fresh_id env (ids_made a), stored_role = User, stored_content = [missing_result i],
            stored_display = None\<rparr> (transcript a),
       ids_made := Suc (ids_made a), tool_result_ids := insert i (tool_result_ids a)\<rparr>"

fun insert_results :: "'e session_env_scheme \<Rightarrow> nat \<Rightarrow> rstr list \<Rightarrow> agent \<Rightarrow> agent" where
  "insert_results env k [] a = a"
| "insert_results env k (i # is) a = insert_results env (Suc k) is (insert_result env k i a)"

fun insert_repairs :: "'e session_env_scheme \<Rightarrow> nat \<Rightarrow> (nat \<times> rstr list) list \<Rightarrow> agent \<Rightarrow> agent" where
  "insert_repairs env inserted [] a = a"
| "insert_repairs env inserted ((k, ids) # rest) a =
     insert_repairs env (inserted + length ids) rest (insert_results env (k + 1 + inserted) ids a)"

definition repair_missing_tool_outputs :: "'e session_env_scheme \<Rightarrow> (rstr \<Rightarrow> bool) \<Rightarrow> agent \<Rightarrow> agent" where
  "repair_missing_tool_outputs env in_flight a =
     (let a0 = (if length (transcript a) < scan_index a then reset_tool_output_tracking a else a);
          a1 = note_results a0;
          a2 = insert_repairs env 0 (missing_outputs in_flight a1) (note_calls a1)
      in a2\<lparr>scan_index := length (transcript a2)\<rparr>)"

definition remove_tool_use_blocks :: "rstr \<Rightarrow> agent \<Rightarrow> agent" where
  "remove_tool_use_blocks i a =
     (let p = length (takeWhile (\<lambda>m. stored_id m \<noteq> i) (transcript a))
      in if p < length (transcript a)
         then a\<lparr>transcript := (transcript a)[p := (transcript a ! p)
                   \<lparr>stored_content := filter (\<lambda>b. block_call b = None) (stored_content (transcript a ! p))\<rparr>]\<rparr>
         else a)"

section \<open>Soft interrupts\<close>

definition session_display_role :: "soft_interrupt_source \<Rightarrow> display_role option" where
  "session_display_role source =
     (case source of soft_interrupt_source.User \<Rightarrow> None | System \<Rightarrow> Some Shown_System | BackgroundTask \<Rightarrow> Some Shown_Background)"

definition protocol_display_role :: "soft_interrupt_source \<Rightarrow> rstr option" where
  "protocol_display_role source =
     (case source of
        soft_interrupt_source.User \<Rightarrow> None
      | System \<Rightarrow> Some ''system''
      | BackgroundTask \<Rightarrow> Some ''background_task'')"

definition queue_soft_interrupt :: "rstr \<Rightarrow> (rstr \<times> rstr) list \<Rightarrow> bool \<Rightarrow> soft_interrupt_source \<Rightarrow> agent \<Rightarrow> agent" where
  "queue_soft_interrupt c images urgent source a =
     a\<lparr>soft_queue := soft_queue a @ [\<lparr>soft_content = c, soft_images = images, soft_urgent = urgent, soft_source = source\<rparr>]\<rparr>"

definition has_soft_interrupts :: "agent \<Rightarrow> bool" where
  "has_soft_interrupts a = (soft_queue a \<noteq> [])"

definition has_urgent_interrupt :: "agent \<Rightarrow> bool" where
  "has_urgent_interrupt a = list_ex soft_urgent (soft_queue a)"

text \<open>A group on its way: its source, the texts and the images.\<close>

type_synonym injected = "(rstr \<times> soft_interrupt_source) list"

definition flush_group ::
  "'e session_env_scheme \<Rightarrow> soft_interrupt_source \<Rightarrow> rstr list \<Rightarrow> (rstr \<times> rstr) list \<Rightarrow> agent \<times> injected \<Rightarrow> agent \<times> injected" where
  "flush_group env source parts images r =
     (case r of (a, injected) \<Rightarrow>
        if parts = [] \<and> images = [] then (a, injected)
        else let c = join [CHR 0x0A, CHR 0x0A] parts;
                 blocks = map (\<lambda>(media, data). Image media data) images @ (if c = [] then [] else [Text c None])
             in (add_message env User blocks (session_display_role source) a, injected @ [(c, source)]))"

fun inject_loop ::
  "'e session_env_scheme \<Rightarrow> soft_interrupt_message list \<Rightarrow> soft_interrupt_source option \<Rightarrow> rstr list \<Rightarrow> (rstr \<times> rstr) list
   \<Rightarrow> agent \<times> injected \<Rightarrow> agent \<times> injected" where
  "inject_loop env [] source parts images r =
     (case source of Some s \<Rightarrow> flush_group env s parts images r | None \<Rightarrow> r)"
| "inject_loop env (m # ms) source parts images r =
     (case source of
        Some s \<Rightarrow>
          if s \<noteq> soft_source m
          then inject_loop env ms (Some (soft_source m)) [soft_content m] (soft_images m) (flush_group env s parts images r)
          else inject_loop env ms source (parts @ [soft_content m]) (images @ soft_images m) r
      | None \<Rightarrow> inject_loop env ms (Some (soft_source m)) (parts @ [soft_content m]) (images @ soft_images m) r)"

definition inject_soft_interrupts :: "'e session_env_scheme \<Rightarrow> agent \<Rightarrow> agent \<times> injected" where
  "inject_soft_interrupts env a =
     (if soft_queue a = [] then (a, [])
      else inject_loop env (soft_queue a) None [] [] (a\<lparr>soft_queue := []\<rparr>, []))"

record injected_event =
  ev_content :: rstr
  ev_display :: "rstr option"
  ev_point :: rstr
  ev_skipped :: "nat option"

definition build_soft_interrupt_events :: "injected \<Rightarrow> rstr \<Rightarrow> nat option \<Rightarrow> injected_event list" where
  "build_soft_interrupt_events injected point skipped =
     map (\<lambda>(k, c, source).
            \<lparr>ev_content = c, ev_display = protocol_display_role source, ev_point = point,
              ev_skipped = (if k = 0 then skipped else None)\<rparr>)
       (enumerate (0::nat) injected)"

section \<open>Why a response ended\<close>

definition should_continue_after_stop_reason :: "rstr \<Rightarrow> bool" where
  "should_continue_after_stop_reason stop_reason =
     (let reason = to_ascii_lowercase (trim stop_reason)
      in if reason = [] then False
         else if reason \<in> {''stop'', ''end_turn'', ''tool_use''} then False
         else contains reason ''incomplete'' \<or> contains reason ''max_output_tokens'' \<or> contains reason ''max_tokens''
              \<or> contains reason ''length'' \<or> contains reason ''trunc'' \<or> contains reason ''commentary'')"

definition is_guardrail_stop_reason :: "rstr option \<Rightarrow> bool" where
  "is_guardrail_stop_reason stop_reason =
     (case stop_reason of
        None \<Rightarrow> False
      | Some r \<Rightarrow>
          let reason = to_ascii_lowercase (trim r)
          in reason \<in> {''refusal'', ''content_filter'', ''safety''} \<or> contains reason ''guardrail''
             \<or> contains reason ''policy_violation'')"

definition FABLE_GUARDRAIL_RECONSIDERATION_PROMPTS :: "rstr list" where
  "FABLE_GUARDRAIL_RECONSIDERATION_PROMPTS =
     [''Reassess the user's request using its full context and likely intent rather than isolated keywords. Determine whether answering would enable a concrete harmful action. If no specific safety concern applies, answer normally. Preserve the refusal only when it is genuinely warranted, and briefly identify the specific concern.'',
      ''Review the request again and distinguish legitimate coding, debugging, defensive, educational, or analytical work from instructions that facilitate harm. If only part of the request is unsafe, help with the safe portions and narrowly limit the rest instead of issuing a blanket refusal.'',
      ''Perform one final, independent policy check. Prefer a safe and useful constrained response when possible. Refuse only the specific content that creates a concrete safety risk; otherwise continue with the user's actual task. Do not weaken a refusal that remains genuinely necessary.'']"

definition MAX_CONTEXT_LIMIT_RETRIES :: nat where "MAX_CONTEXT_LIMIT_RETRIES = 5"

definition MAX_INCOMPLETE_CONTINUATION_ATTEMPTS :: nat where "MAX_INCOMPLETE_CONTINUATION_ATTEMPTS = 3"

definition MAX_EMPTY_POST_TOOL_CONTINUATION_ATTEMPTS :: nat where "MAX_EMPTY_POST_TOOL_CONTINUATION_ATTEMPTS = 5"

definition should_reconsider_fable_guardrail :: "rstr \<Rightarrow> rstr option \<Rightarrow> nat \<Rightarrow> nat \<Rightarrow> bool" where
  "should_reconsider_fable_guardrail model stop_reason attempts max_attempts =
     (is_guardrail_stop_reason stop_reason \<and> contains (to_ascii_lowercase model) ''fable-5'' \<and> attempts < max_attempts)"

definition is_stranded_tool_use_stop :: "rstr option \<Rightarrow> bool" where
  "is_stranded_tool_use_stop stop_reason =
     (case stop_reason of Some r \<Rightarrow> eq_ignore_ascii_case (trim r) ''tool_use'' | None \<Rightarrow> False)"

text \<open>
  A continuation asks the model again: a message is added, and the session saved. The answer is
  an error when the save fails; otherwise whether the turn goes on, with the attempts made.
\<close>

datatype continuation = Not_Continued | Continued agent nat | Save_Failed agent nat

definition ask_again :: "'e session_env_scheme \<Rightarrow> rstr \<Rightarrow> nat \<Rightarrow> agent \<Rightarrow> continuation" where
  "ask_again env prompt attempts a =
     (let a' = add_message env User [Text prompt None] None a
      in if can_save env (transcript a') then Continued a' (Suc attempts) else Save_Failed a' (Suc attempts))"

definition maybe_reconsider_fable_guardrail :: "'e session_env_scheme \<Rightarrow> rstr \<Rightarrow> rstr option \<Rightarrow> nat \<Rightarrow> agent \<Rightarrow> continuation" where
  "maybe_reconsider_fable_guardrail env model stop_reason attempts a =
     (if should_reconsider_fable_guardrail model stop_reason attempts (length FABLE_GUARDRAIL_RECONSIDERATION_PROMPTS)
      then ask_again env (FABLE_GUARDRAIL_RECONSIDERATION_PROMPTS ! attempts) attempts a
      else Not_Continued)"

definition EMPTY_RESPONSE_PROMPT :: rstr where
  "EMPTY_RESPONSE_PROMPT = ''<system-reminder>The previous provider response was empty after tool results. Provide the final answer to the user's last request using the tool results above. Do not call more tools unless absolutely necessary.</system-reminder>''"

definition maybe_continue_empty_post_tool_response ::
  "'e session_env_scheme \<Rightarrow> bool \<Rightarrow> bool \<Rightarrow> rstr option \<Rightarrow> nat \<Rightarrow> agent \<Rightarrow> continuation" where
  "maybe_continue_empty_post_tool_response env visible_text_empty prompt_has_recent_tool_result stop_reason attempts a =
     (if \<not> visible_text_empty \<or> \<not> prompt_has_recent_tool_result then Not_Continued
      else if is_guardrail_stop_reason stop_reason then Not_Continued
      else if MAX_EMPTY_POST_TOOL_CONTINUATION_ATTEMPTS \<le> attempts then Not_Continued
      else ask_again env EMPTY_RESPONSE_PROMPT attempts a)"

definition continuation_prompt_for_stop_reason :: "rstr \<Rightarrow> rstr" where
  "continuation_prompt_for_stop_reason stop_reason =
     ''[System reminder: your previous response ended before completion (stop_reason: '' @ trim stop_reason
     @ ''). Continue exactly where you left off, do not repeat completed content, and if the next step is a tool call, emit the tool call now.]''"

definition maybe_continue_incomplete_response :: "'e session_env_scheme \<Rightarrow> rstr option \<Rightarrow> nat \<Rightarrow> agent \<Rightarrow> continuation" where
  "maybe_continue_incomplete_response env stop_reason attempts a =
     (case stop_reason of
        None \<Rightarrow> Not_Continued
      | Some r \<Rightarrow>
          if trim r = [] then Not_Continued
          else if \<not> should_continue_after_stop_reason (trim r) then Not_Continued
          else if MAX_INCOMPLETE_CONTINUATION_ATTEMPTS \<le> attempts then Not_Continued
          else ask_again env (continuation_prompt_for_stop_reason (trim r)) attempts a)"

definition STRANDED_PROMPT :: rstr where
  "STRANDED_PROMPT = ''[System reminder: your previous response ended with stop_reason \"tool_use\" but no tool call arrived. Nothing was executed. Re-issue the tool call you intended, do not repeat completed work, and continue the task.]''"

definition maybe_continue_stranded_tool_use :: "'e session_env_scheme \<Rightarrow> rstr option \<Rightarrow> nat \<Rightarrow> agent \<Rightarrow> continuation" where
  "maybe_continue_stranded_tool_use env stop_reason attempts a =
     (if \<not> is_stranded_tool_use_stop stop_reason then Not_Continued
      else if MAX_INCOMPLETE_CONTINUATION_ATTEMPTS \<le> attempts then Not_Continued
      else ask_again env STRANDED_PROMPT attempts a)"

definition filter_truncated_tool_calls ::
  "rstr option \<Rightarrow> agent_call list \<Rightarrow> rstr option \<Rightarrow> agent \<Rightarrow> agent_call list \<times> agent" where
  "filter_truncated_tool_calls stop_reason calls message_id a =
     (if \<not> should_continue_after_stop_reason (case stop_reason of Some r \<Rightarrow> r | None \<Rightarrow> []) then (calls, a)
      else let kept = filter (\<lambda>c. ac_input c \<noteq> JNull) calls
           in (kept,
               if length kept < length calls \<and> kept = []
               then (case message_id of Some i \<Rightarrow> remove_tool_use_blocks i a | None \<Rightarrow> a)
               else a))"

definition provider_guardrail_notice :: "rstr option \<Rightarrow> bool \<Rightarrow> bool \<Rightarrow> rstr option" where
  "provider_guardrail_notice stop_reason visible_text_empty had_reasoning =
     (let label = (case stop_reason of Some r \<Rightarrow> if trim r = [] then ''unknown'' else trim r | None \<Rightarrow> ''unknown'')
      in if is_guardrail_stop_reason stop_reason
         then Some (''Provider guardrail stopped the response (stop_reason: '' @ label
                @ ''). The model declined to answer this request. Rephrasing, narrowing the request, or providing more context may help.'')
         else if \<not> visible_text_empty then None
         else Some (''The model ended its turn without any visible output''
                @ (if had_reasoning then '' after producing only internal reasoning'' else [])
                @ '' (stop_reason: '' @ label
                @ ''). The provider returned an empty response; this is usually a transient upstream failure rather than a content filter. Retrying the request may help.''))"

section \<open>A call written as text\<close>

definition is_tool_name_char :: "char \<Rightarrow> bool" where
  "is_tool_name_char c =
     (is_ascii_digit c \<or> 65 \<le> byte c \<and> byte c \<le> 90 \<or> 97 \<le> byte c \<and> byte c \<le> 122 \<or> c = CHR ''_'')"

definition is_json_object :: "json \<Rightarrow> bool" where
  "is_json_object v = (case v of JObject m \<Rightarrow> True | _ \<Rightarrow> False)"

definition CALL_MARKER :: rstr where
  "CALL_MARKER = ''to=functions.''"

text \<open>
  The argument \<open>json_at\<close> reads one JSON value at the front of a text and says how many bytes it
  takes. The loop goes over the braces; an object followed by nothing wins, otherwise the first
  object.
\<close>

fun scan_objects :: "(rstr \<Rightarrow> (json \<times> nat) option) \<Rightarrow> rstr \<Rightarrow> (json \<times> rstr) option \<Rightarrow> (json \<times> rstr) option" where
  "scan_objects json_at [] fallback = fallback"
| "scan_objects json_at (c # s) fallback =
     (if c \<noteq> CHR ''{'' then scan_objects json_at s fallback
      else case json_at (c # s) of
             None \<Rightarrow> scan_objects json_at s fallback
           | Some (v, consumed) \<Rightarrow>
               if \<not> is_json_object v then scan_objects json_at s fallback
               else let rest = trim (drop consumed (c # s))
                    in if rest = [] then Some (v, rest)
                       else scan_objects json_at s (if fallback = None then Some (v, rest) else fallback))"

definition parse_text_wrapped_tool_call ::
  "(rstr \<Rightarrow> (json \<times> nat) option) \<Rightarrow> rstr \<Rightarrow> (rstr \<times> rstr \<times> json \<times> rstr) option" where
  "parse_text_wrapped_tool_call json_at s =
     (case find_sub s CALL_MARKER of
        None \<Rightarrow> None
      | Some p \<Rightarrow>
          let after = drop (p + length CALL_MARKER) s;
              name = takeWhile is_tool_name_char after
          in if name = [] then None
             else map_option (\<lambda>(v, rest). (trim_end (take p s), name, v, rest))
                    (scan_objects json_at (drop (length name) after) None))"

definition intent_from_input :: "json \<Rightarrow> rstr option" where
  "intent_from_input v =
     (case v of
        JObject m \<Rightarrow>
          (case map_of m ''intent'' of
             Some (JString s) \<Rightarrow> (if trim s = [] then None else Some (trim s))
           | _ \<Rightarrow> None)
      | _ \<Rightarrow> None)"

definition recover_text_wrapped_tool_call ::
  "(rstr \<Rightarrow> (json \<times> nat) option) \<Rightarrow> rstr \<Rightarrow> rstr \<Rightarrow> agent_call list \<Rightarrow> rstr \<times> agent_call list" where
  "recover_text_wrapped_tool_call json_at new_call_id s calls =
     (if calls \<noteq> [] \<or> trim s = [] then (s, calls)
      else case parse_text_wrapped_tool_call json_at s of
             None \<Rightarrow> (s, calls)
           | Some (front, name, v, rest) \<Rightarrow>
               (front @ (if rest = [] then [] else (if front = [] then [] else [CHR 0x0A]) @ rest),
                [\<lparr>ac_id = ''fallback_text_call_'' @ new_call_id, ac_name = name, ac_input = v,
                  ac_intent = intent_from_input v, ac_signature = None\<rparr>]))"

section \<open>A streamed answer without calls\<close>

datatype no_tool_call_outcome =
  Break_Turn
| Continue_Without_Event
| Continue_With_Soft_Interrupt injected rstr

datatype post_tool_interrupt_outcome = No_Interrupt | Soft_Interrupt injected rstr

text \<open>The outcome with the attempts made; \<open>None\<close> when the session could not be saved.\<close>

definition handle_streaming_no_tool_calls ::
  "'e session_env_scheme \<Rightarrow> rstr option \<Rightarrow> nat \<Rightarrow> agent \<Rightarrow> no_tool_call_outcome option \<times> nat \<times> agent" where
  "handle_streaming_no_tool_calls env stop_reason attempts a =
     (case maybe_continue_incomplete_response env stop_reason attempts a of
        Continued b k \<Rightarrow> (Some Continue_Without_Event, k, b)
      | Save_Failed b k \<Rightarrow> (None, k, b)
      | Not_Continued \<Rightarrow>
          (case maybe_continue_stranded_tool_use env stop_reason attempts a of
             Continued b k \<Rightarrow> (Some Continue_Without_Event, k, b)
           | Save_Failed b k \<Rightarrow> (None, k, b)
           | Not_Continued \<Rightarrow>
               (case inject_soft_interrupts env a of
                  (b, injected) \<Rightarrow>
                    (Some (if injected = [] then Break_Turn else Continue_With_Soft_Interrupt injected ''B''), attempts, b))))"

definition take_post_tool_soft_interrupt :: "'e session_env_scheme \<Rightarrow> agent \<Rightarrow> post_tool_interrupt_outcome \<times> agent" where
  "take_post_tool_soft_interrupt env a =
     (case inject_soft_interrupts env a of
        (b, injected) \<Rightarrow> (if injected = [] then No_Interrupt else Soft_Interrupt injected ''D'', b))"

end
