(* ===== verification/Agent_Turn.thy ===== *)
theory Agent_Turn
  imports Agent_Session
begin

text \<open>
  The loop of a turn, \<open>run_turn\<close> in \<open>crates/kcode-app-core/src/agent/turn_loops.rs\<close>. A round of the loop
  sends a request, gathers the events of the response, adds the answer to the transcript, and
  runs the tools that were called. The provider, the tools, the parser of JSON and the
  compaction are arguments; what one round meets (a cancel, the tools still running elsewhere,
  the interrupts that arrive, and the provider's answer) is a record, and a turn runs over a
  list of them.
\<close>

section \<open>What surrounds a turn\<close>

record generated_image =
  gi_path :: rstr
  gi_metadata :: "rstr option"
  gi_format :: rstr
  gi_prompt :: "rstr option"

record turn_output =
  out_text :: rstr
  out_images :: "(rstr \<times> rstr \<times> rstr option) list"

record turn_env = session_env +
  model_name :: rstr
  provider_name :: rstr
  preserve_reasoning :: bool
  image_input :: bool
  handles_tools_internally :: bool
  batch_available :: bool
  stamped :: "message list \<Rightarrow> message list"
  parse_json :: "rstr \<Rightarrow> json option"
  json_at :: "rstr \<Rightarrow> (json \<times> nat) option"
  call_suffix :: "nat \<Rightarrow> rstr"
  visual_context :: "generated_image \<Rightarrow> content_block list option"
  tool_allowed :: "rstr \<Rightarrow> bool"
  execute_tool :: "agent \<Rightarrow> agent_call \<Rightarrow> rstr + turn_output"

datatype stream_event =
  Text_Delta rstr
| Tool_Use_Start rstr rstr
| Tool_Input_Delta rstr
| Tool_Use_End
| Tool_Use_Signature rstr
| Provider_Tool_Result rstr rstr bool
| Generated_Image generated_image
| Thinking_Start
| Thinking_Delta rstr
| Thinking_Signature_Delta rstr
| OpenAI_Reasoning rstr "rstr list" "rstr option" "rstr option"
| Thinking_End
| Thinking_Done
| Message_End "rstr option"
| Retry_Rollback nat nat
| Token_Usage "nat option" "nat option" "nat option" "nat option"
| Connection_Type rstr
| Connection_Phase rstr
| Status_Detail rstr
| Stream_Error rstr "nat option"
| Session_Id rstr
| Compaction_Event "nat option" "rstr option"
| Upstream_Provider rstr
| Native_Tool_Call rstr rstr json

datatype turn_error =
  Provider_Error rstr "nat option"
| Context_Exhausted
| Session_Not_Saved
| Tool_Refused rstr

definition stores_reasoning_content_for_context :: "turn_env \<Rightarrow> bool" where
  "stores_reasoning_content_for_context env =
     (preserve_reasoning env \<and> to_ascii_lowercase (provider_name env) \<in> {''openrouter'', ''anthropic'', ''openai''})"

section \<open>Gathering a response\<close>

record gathered =
  said :: rstr
  calls :: "agent_call list"
  open_call :: "agent_call option"
  open_input :: rstr
  sdk_results :: "rstr \<rightharpoonup> rstr \<times> bool"
  image_contexts :: "content_block list list"
  thought :: rstr
  thought_signature :: rstr
  reasoning_items :: "content_block list"
  native_state :: "(rstr \<times> nat) option"
  saw_message_end :: bool
  stop_reason :: "rstr option"
  usage_input :: "nat option"
  usage_output :: "nat option"
  usage_cache_read :: "nat option"
  usage_cache_creation :: "nat option"

definition nothing_gathered :: gathered where
  "nothing_gathered =
     \<lparr>said = [], calls = [], open_call = None, open_input = [], sdk_results = Map.empty, image_contexts = [],
       thought = [], thought_signature = [], reasoning_items = [], native_state = None, saw_message_end = False,
       stop_reason = None, usage_input = None, usage_output = None, usage_cache_read = None, usage_cache_creation = None\<rparr>"

definition normalize_input_to_object :: "json \<Rightarrow> json" where
  "normalize_input_to_object v = (if is_json_object v then v else JObject [])"

definition parse_streamed_input_to_object :: "(rstr \<Rightarrow> json option) \<Rightarrow> rstr \<Rightarrow> json" where
  "parse_streamed_input_to_object parse input =
     (if trim input = [] then JObject []
      else case parse (trim input) of Some v \<Rightarrow> normalize_input_to_object v | None \<Rightarrow> JNull)"

definition set_last_signature :: "rstr \<Rightarrow> agent_call list \<Rightarrow> agent_call list" where
  "set_last_signature signature cs =
     (if cs = [] \<or> signature = [] then cs else butlast cs @ [(last cs)\<lparr>ac_signature := Some signature\<rparr>])"

definition end_tool_use :: "turn_env \<Rightarrow> gathered \<Rightarrow> gathered" where
  "end_tool_use env g =
     (case open_call g of
        None \<Rightarrow> g
      | Some c \<Rightarrow>
          let v = parse_streamed_input_to_object (parse_json env) (open_input g)
          in g\<lparr>calls := calls g @ [c\<lparr>ac_input := v, ac_intent := intent_from_input v\<rparr>], open_call := None, open_input := []\<rparr>)"

definition add_usage ::
  "nat option \<Rightarrow> nat option \<Rightarrow> nat option \<Rightarrow> nat option \<Rightarrow> gathered \<Rightarrow> gathered" where
  "add_usage i out cr cc g =
     g\<lparr>usage_input := (if i = None then usage_input g else i), usage_output := (if out = None then usage_output g else out),
       usage_cache_read := (if cr = None then usage_cache_read g else cr),
       usage_cache_creation := (if cc = None then usage_cache_creation g else cc)\<rparr>"

definition roll_back :: "gathered \<Rightarrow> gathered" where
  "roll_back g =
     g\<lparr>said := [], calls := [], open_call := None, open_input := [], sdk_results := Map.empty, image_contexts := [],
       thought := [], thought_signature := [], reasoning_items := [], native_state := None, saw_message_end := False,
       stop_reason := None\<rparr>"

text \<open>One event; the number of messages in the transcript is what a native compaction covers.\<close>

definition gather_event :: "turn_env \<Rightarrow> nat \<Rightarrow> stream_event \<Rightarrow> gathered \<Rightarrow> gathered" where
  "gather_event env n ev g =
     (case ev of
        Text_Delta s \<Rightarrow> g\<lparr>said := said g @ s\<rparr>
      | Tool_Use_Start i name \<Rightarrow>
          g\<lparr>open_call := Some \<lparr>ac_id = i, ac_name = name, ac_input = JNull, ac_intent = None, ac_signature = None\<rparr>,
            open_input := []\<rparr>
      | Tool_Input_Delta s \<Rightarrow> g\<lparr>open_input := open_input g @ s\<rparr>
      | Tool_Use_End \<Rightarrow> end_tool_use env g
      | Tool_Use_Signature s \<Rightarrow> g\<lparr>calls := set_last_signature s (calls g)\<rparr>
      | Provider_Tool_Result i c e \<Rightarrow> g\<lparr>sdk_results := (sdk_results g)(i \<mapsto> (c, e))\<rparr>
      | Generated_Image img \<Rightarrow>
          (if image_input env
           then (case visual_context env img of Some bs \<Rightarrow> g\<lparr>image_contexts := image_contexts g @ [bs]\<rparr> | None \<Rightarrow> g)
           else g)
      | Thinking_Delta s \<Rightarrow> g\<lparr>thought := thought g @ s\<rparr>
      | Thinking_Signature_Delta s \<Rightarrow>
          (if stores_reasoning_content_for_context env then g\<lparr>thought_signature := thought_signature g @ s\<rparr> else g)
      | OpenAI_Reasoning i summary enc status \<Rightarrow>
          (if stores_reasoning_content_for_context env
           then g\<lparr>reasoning_items := reasoning_items g @ [OpenAIReasoning i summary enc status]\<rparr> else g)
      | Message_End r \<Rightarrow> g\<lparr>saw_message_end := True, stop_reason := (if r = None then stop_reason g else r)\<rparr>
      | Retry_Rollback attempt attempts \<Rightarrow> roll_back g
      | Token_Usage i out cr cc \<Rightarrow> add_usage i out cr cc g
      | Compaction_Event pre enc \<Rightarrow>
          (case enc of
             Some c \<Rightarrow> g\<lparr>native_state := (if native_state g = None then Some (c, n) else native_state g)\<rparr>
           | None \<Rightarrow> g)
      | _ \<Rightarrow> g)"

datatype stream_end = Stream_Over | Stream_Broken rstr turn_error

text \<open>
  The stream may break off with an error of its own or report one. A session id ends it when the
  message has ended.
\<close>

fun gather ::
  "turn_env \<Rightarrow> nat \<Rightarrow> (rstr + stream_event) list \<Rightarrow> gathered \<Rightarrow> rstr option \<Rightarrow> stream_end \<times> gathered \<times> rstr option" where
  "gather env n [] g sid = (Stream_Over, g, sid)"
| "gather env n (Inl e # es) g sid = (Stream_Broken e (Provider_Error e None), g, sid)"
| "gather env n (Inr (Stream_Error m after) # es) g sid = (Stream_Broken m (Provider_Error m after), g, sid)"
| "gather env n (Inr (Session_Id i) # es) g sid =
     (if saw_message_end g then (Stream_Over, g, Some i) else gather env n es g (Some i))"
| "gather env n (Inr ev # es) g sid = gather env n es (gather_event env n ev g) sid"

section \<open>The answer in the transcript\<close>

definition push_reasoning_blocks :: "turn_env \<Rightarrow> rstr \<Rightarrow> rstr \<Rightarrow> content_block list" where
  "push_reasoning_blocks env content signature =
     (if content = [] then []
      else let replay =
             (if \<not> stores_reasoning_content_for_context env then []
              else if eq_ignore_ascii_case (provider_name env) ''anthropic''
              then (if signature = [] then [] else [AnthropicThinking content signature])
              else if eq_ignore_ascii_case (provider_name env) ''openai'' then []
              else [Reasoning content])
           in if replay = [] then [ReasoningTrace content] else replay)"

definition to_tool_use_block :: "agent_call \<Rightarrow> content_block" where
  "to_tool_use_block c = ToolUse (ac_id c) (ac_name c) (ac_input c) (ac_signature c)"

definition answer_blocks :: "turn_env \<Rightarrow> rstr \<Rightarrow> agent_call list \<Rightarrow> gathered \<Rightarrow> content_block list" where
  "answer_blocks env s cs g =
     (if trim s = [] then [] else [Text s None])
     @ push_reasoning_blocks env (thought g) (thought_signature g)
     @ (if stores_reasoning_content_for_context env then reasoning_items g else [])
     @ map to_tool_use_block cs"

section \<open>Running the tools\<close>

definition json_value_kind :: "json \<Rightarrow> rstr" where
  "json_value_kind v =
     (case v of
        JNull \<Rightarrow> ''null'' | JBool b \<Rightarrow> ''boolean'' | JNumber n \<Rightarrow> ''number'' | JString s \<Rightarrow> ''string''
      | JArray xs \<Rightarrow> ''array'' | JObject m \<Rightarrow> ''object'')"

definition validation_error :: "agent_call \<Rightarrow> rstr option" where
  "validation_error c =
     (if trim (ac_name c) = [] then Some ''Invalid tool call: tool name must not be empty.''
      else if \<not> is_json_object (ac_input c)
      then Some (''Invalid tool call for '' @ [CHR 0x27] @ ac_name c @ [CHR 0x27] @ '': arguments must be a JSON object, got ''
             @ json_value_kind (ac_input c) @ ''.'')
      else None)"

definition KCODE_NATIVE_TOOLS :: "rstr list" where
  "KCODE_NATIVE_TOOLS = [''communicate'']"

definition MAX_TOOL_OUTPUT_CHARS_FOR_HISTORY :: nat where
  "MAX_TOOL_OUTPUT_CHARS_FOR_HISTORY = 512 * 1024"

definition chars_count :: "rstr \<Rightarrow> nat" where
  "chars_count s = length (filter (\<lambda>c. \<not> is_continuation c) s)"

text \<open>The text is measured in characters and cut in bytes.\<close>

definition cap_tool_output_for_history :: "rstr \<Rightarrow> turn_output \<Rightarrow> turn_output" where
  "cap_tool_output_for_history tool_name out =
     (if chars_count (out_text out) \<le> MAX_TOOL_OUTPUT_CHARS_FOR_HISTORY then out
      else out\<lparr>out_text :=
        truncate_str_boundary (out_text out) MAX_TOOL_OUTPUT_CHARS_FOR_HISTORY
        @ [CHR 0x0A, CHR 0x0A] @ ''[Tool output truncated by kcode: tool `'' @ tool_name @ ''` produced ''
        @ decimal (chars_count (out_text out)) @ '' chars; kept first '' @ decimal MAX_TOOL_OUTPUT_CHARS_FOR_HISTORY
        @ '' chars to protect the remote protocol, session history, and prompt cache. Redirect large logs to a file and read targeted sections.]''\<rparr>)"

text \<open>The same for a result the provider has made, with its text alone.\<close>

definition cap_sdk_tool_content_for_history :: "rstr \<Rightarrow> rstr \<Rightarrow> rstr" where
  "cap_sdk_tool_content_for_history tool_name c =
     out_text (cap_tool_output_for_history tool_name \<lparr>out_text = c, out_images = []\<rparr>)"

record side_pane_image =
  pane_media :: rstr
  pane_data :: rstr
  pane_label :: "rstr option"
  pane_tool :: rstr
  pane_anchor :: rstr

definition some_text :: "rstr \<Rightarrow> rstr option" where
  "some_text s = (if trim s = [] then None else Some (trim s))"

definition tool_output_side_pane_images :: "rstr \<Rightarrow> rstr \<Rightarrow> json \<Rightarrow> turn_output \<Rightarrow> side_pane_image list" where
  "tool_output_side_pane_images i name input out =
     (let fallback = (case input of
                        JObject m \<Rightarrow> (case map_of m ''file_path'' of Some (JString s) \<Rightarrow> some_text s | _ \<Rightarrow> None)
                      | _ \<Rightarrow> None)
      in map (\<lambda>(media, data, label).
                \<lparr>pane_media = media, pane_data = data,
                  pane_label = (case Option.bind label some_text of Some l \<Rightarrow> Some l | None \<Rightarrow> fallback),
                  pane_tool = name, pane_anchor = i\<rparr>) (out_images out))"

definition image_blocks :: "rstr \<times> rstr \<times> rstr option \<Rightarrow> content_block list" where
  "image_blocks img =
     (case img of (media, data, label) \<Rightarrow>
        Image media data #
          (case label of
             Some l \<Rightarrow>
               if trim l = [] then []
               else [Text (''[Attached image associated with the preceding tool result: '' @ l @ '']'') None]
           | None \<Rightarrow> []))"

definition tool_output_to_content_blocks :: "rstr \<Rightarrow> turn_output \<Rightarrow> content_block list" where
  "tool_output_to_content_blocks i out = ToolResult i (out_text out) None # concat (map image_blocks (out_images out))"

text \<open>The message a call is answered with, and the results of the provider that are left.\<close>

definition call_answer ::
  "turn_env \<Rightarrow> (rstr \<rightharpoonup> rstr \<times> bool) \<Rightarrow> agent_call \<Rightarrow> agent \<Rightarrow> content_block list \<times> (rstr \<rightharpoonup> rstr \<times> bool)" where
  "call_answer env sdk c a =
     (let locally =
        (case execute_tool env a c of
           Inr out \<Rightarrow> tool_output_to_content_blocks (ac_id c) (cap_tool_output_for_history (ac_name c) out)
         | Inl e \<Rightarrow> [ToolResult (ac_id c) (''Error: '' @ e) (Some True)])
      in case sdk (ac_id c) of
           None \<Rightarrow> (locally, sdk)
         | Some (text_of, failed) \<Rightarrow>
             if ac_name c \<in> set KCODE_NATIVE_TOOLS \<and> failed then (locally, sdk(ac_id c := None))
             else ([ToolResult (ac_id c) text_of (if failed then Some True else None)], sdk(ac_id c := None)))"

fun run_tools :: "turn_env \<Rightarrow> (rstr \<rightharpoonup> rstr \<times> bool) \<Rightarrow> agent_call list \<Rightarrow> agent \<Rightarrow> turn_error option \<times> agent" where
  "run_tools env sdk [] a = (None, a)"
| "run_tools env sdk (c # cs) a =
     (case validation_error c of
        Some e \<Rightarrow> run_tools env sdk cs (add_message env User [ToolResult (ac_id c) e (Some True)] None a)
      | None \<Rightarrow>
          if \<not> tool_allowed env (ac_name c) then (Some (Tool_Refused (ac_name c)), a)
          else case call_answer env sdk c a of
                 (blocks, sdk') \<Rightarrow> run_tools env sdk' cs (add_message env User blocks None a))"

section \<open>A round\<close>

text \<open>
  What a round meets: a cancel, the tools that run elsewhere, the interrupts that arrive before the
  round ends, the request the compaction manager makes of the transcript (and whether it has just
  compacted it), what it can do after an error about the size of the context, and the provider's
  answer.
\<close>

record loop_state =
  worker :: agent
  context_limit_retries :: nat
  incomplete_continuations :: nat
  empty_post_tool_continuations :: nat
  fable_guardrail_reconsiderations :: nat
  sequential_single_tool_rounds :: nat
  batch_nudge_pending :: bool

datatype request_answer = Not_Opened rstr | Opened "(rstr + stream_event) list"

record round =
  cancelled :: bool
  in_flight :: "rstr \<Rightarrow> bool"
  arriving :: "soft_interrupt_message list"
  request :: "stored_message list \<Rightarrow> message list \<times> bool"
  make_room :: "rstr \<Rightarrow> stored_message list \<Rightarrow> stored_message list option"
  answer :: request_answer

datatype round_end = Again loop_state | Finished rstr loop_state | Turn_Failed turn_error loop_state

definition SEQUENTIAL_TOOL_ROUNDS_BEFORE_BATCH_NUDGE :: nat where "SEQUENTIAL_TOOL_ROUNDS_BEFORE_BATCH_NUDGE = 3"

definition update_sequential_tool_rounds :: "nat \<Rightarrow> nat \<Rightarrow> bool \<Rightarrow> nat" where
  "update_sequential_tool_rounds rounds tool_count used_batch = (if tool_count = 1 \<and> \<not> used_batch then rounds + 1 else 0)"

definition should_inject_batch_nudge :: "bool \<Rightarrow> bool \<Rightarrow> bool" where
  "should_inject_batch_nudge pending available = (pending \<and> available)"

definition BATCH_NUDGE :: rstr where
  "BATCH_NUDGE = ''<system-reminder>Several tool calls have been made one at a time. If the next independent operations can run concurrently, use the batch tool instead of making more sequential calls. Keep sequential calls when one result is required to decide the next operation.</system-reminder>''"

definition block_is_result :: "content_block \<Rightarrow> bool" where
  "block_is_result b = (block_result b \<noteq> None)"

definition block_is_reminder :: "content_block \<Rightarrow> bool" where
  "block_is_reminder b = (case b of Text s c \<Rightarrow> starts_with (trim s) ''<system-reminder>'' | _ \<Rightarrow> False)"

definition messages_end_with_tool_result :: "message list \<Rightarrow> bool" where
  "messages_end_with_tool_result ms =
     list_ex (\<lambda>m. role_of m = User
                \<and> (list_ex block_is_result (content_of m) \<or> list_ex block_is_reminder (content_of m))) (rev ms)"

text \<open>After an error: the same request again when the compaction made room, unless that was tried too often.\<close>

definition retry_or_fail :: "round \<Rightarrow> rstr \<Rightarrow> turn_error \<Rightarrow> loop_state \<Rightarrow> round_end" where
  "retry_or_fail r e failure s =
     (case make_room r e (transcript (worker s)) of
        None \<Rightarrow> Turn_Failed failure s
      | Some t \<Rightarrow>
          let s' = s\<lparr>worker := (worker s)\<lparr>transcript := t, provider_session := None\<rparr>,
                     context_limit_retries := Suc (context_limit_retries s)\<rparr>
          in if MAX_CONTEXT_LIMIT_RETRIES < context_limit_retries s' then Turn_Failed Context_Exhausted s' else Again s')"

definition add_image_contexts :: "turn_env \<Rightarrow> content_block list list \<Rightarrow> agent \<Rightarrow> agent" where
  "add_image_contexts env contexts a = fold (\<lambda>bs a. add_message env User bs None a) contexts a"

text \<open>Save, then go on as \<open>next\<close> says.\<close>

definition saved_or_fail :: "turn_env \<Rightarrow> loop_state \<Rightarrow> round_end \<Rightarrow> round_end" where
  "saved_or_fail env s next_end =
     (if can_save env (transcript (worker s)) then next_end else Turn_Failed Session_Not_Saved s)"

text \<open>No call is left: ask again where that may help, otherwise the turn is over.\<close>

definition end_of_turn :: "turn_env \<Rightarrow> bool \<Rightarrow> rstr \<Rightarrow> gathered \<Rightarrow> loop_state \<Rightarrow> round_end" where
  "end_of_turn env recent_result s g ls =
     (case maybe_reconsider_fable_guardrail env (model_name env) (stop_reason g)
             (fable_guardrail_reconsiderations ls) (worker ls) of
        Continued a n \<Rightarrow> Again (ls\<lparr>worker := a, fable_guardrail_reconsiderations := n\<rparr>)
      | Save_Failed a n \<Rightarrow> Turn_Failed Session_Not_Saved (ls\<lparr>worker := a, fable_guardrail_reconsiderations := n\<rparr>)
      | Not_Continued \<Rightarrow>
     (case maybe_continue_empty_post_tool_response env (trim s = []) recent_result (stop_reason g)
             (empty_post_tool_continuations ls) (worker ls) of
        Continued a n \<Rightarrow> Again (ls\<lparr>worker := a, empty_post_tool_continuations := n\<rparr>)
      | Save_Failed a n \<Rightarrow> Turn_Failed Session_Not_Saved (ls\<lparr>worker := a, empty_post_tool_continuations := n\<rparr>)
      | Not_Continued \<Rightarrow>
     (case maybe_continue_incomplete_response env (stop_reason g) (incomplete_continuations ls) (worker ls) of
        Continued a n \<Rightarrow> Again (ls\<lparr>worker := a, incomplete_continuations := n\<rparr>)
      | Save_Failed a n \<Rightarrow> Turn_Failed Session_Not_Saved (ls\<lparr>worker := a, incomplete_continuations := n\<rparr>)
      | Not_Continued \<Rightarrow>
          Finished
            (case provider_guardrail_notice (stop_reason g) (trim s = []) (trim (thought g) \<noteq> []) of
               Some notice \<Rightarrow> if trim s = [] then ''[provider guardrail] '' @ notice else s
             | None \<Rightarrow> s) ls)))"

text \<open>The images of an answer without calls are shown to the model, which is then asked again.\<close>

definition show_images :: "turn_env \<Rightarrow> gathered \<Rightarrow> loop_state \<Rightarrow> round_end" where
  "show_images env g ls =
     (let ls' = ls\<lparr>worker := add_image_contexts env (image_contexts g) (worker ls)\<rparr>
      in saved_or_fail env ls' (Again ls'))"

text \<open>The calls are run, their answers saved, the images shown and the interrupts injected.\<close>

definition finish_round :: "turn_env \<Rightarrow> gathered \<Rightarrow> loop_state \<Rightarrow> round_end" where
  "finish_round env g ls =
     (let a = (if image_contexts g = [] then worker ls else add_image_contexts env (image_contexts g) (worker ls));
          ls' = ls\<lparr>worker := a\<rparr>;
          next_end = Again (ls\<lparr>worker := fst (inject_soft_interrupts env a)\<rparr>)
      in if image_contexts g = [] then next_end else saved_or_fail env ls' next_end)"

definition run_calls :: "turn_env \<Rightarrow> agent_call list \<Rightarrow> gathered \<Rightarrow> loop_state \<Rightarrow> round_end" where
  "run_calls env cs g ls =
     (let n = update_sequential_tool_rounds (sequential_single_tool_rounds ls) (length cs)
                (list_ex (\<lambda>c. ac_name c = ''batch'') cs);
          ls1 = ls\<lparr>sequential_single_tool_rounds := n,
                  batch_nudge_pending := (batch_nudge_pending ls \<or> SEQUENTIAL_TOOL_ROUNDS_BEFORE_BATCH_NUDGE \<le> n)\<rparr>
      in case run_tools env (sdk_results g) cs (worker ls1) of
           (Some e, a) \<Rightarrow> Turn_Failed e (ls1\<lparr>worker := a\<rparr>)
         | (None, a) \<Rightarrow>
             let ls2 = ls1\<lparr>worker := a\<rparr> in saved_or_fail env ls2 (finish_round env g ls2))"

text \<open>The answer is complete: the calls that are left decide how the round ends.\<close>

definition after_answer :: "turn_env \<Rightarrow> bool \<Rightarrow> rstr \<Rightarrow> agent_call list \<Rightarrow> gathered \<Rightarrow> loop_state \<Rightarrow> round_end" where
  "after_answer env recent_result s cs g ls =
     (if cs = [] \<and> image_contexts g \<noteq> [] then show_images env g ls
      else if cs = [] then end_of_turn env recent_result s g ls
      else if handles_tools_internally env
      then (case filter (\<lambda>c. ac_name c \<in> set KCODE_NATIVE_TOOLS) cs of
              [] \<Rightarrow> if image_contexts g \<noteq> [] then show_images env g ls else Finished [] ls
            | c # rest \<Rightarrow> run_calls env (c # rest) g ls)
      else run_calls env cs g ls)"

text \<open>The answer becomes a message of the transcript, and a compaction of the provider is noted.\<close>

definition take_answer :: "turn_env \<Rightarrow> bool \<Rightarrow> gathered \<Rightarrow> loop_state \<Rightarrow> round_end" where
  "take_answer env recent_result g ls =
     (case recover_text_wrapped_tool_call (json_at env) (call_suffix env (ids_made (worker ls))) (said g) (calls g) of
        (s, cs) \<Rightarrow>
          let blocks = answer_blocks env s cs g;
              made = fresh_id env (ids_made (worker ls));
              ls1 = (if blocks = [] then ls else ls\<lparr>worker := add_message env Assistant blocks None (worker ls)\<rparr>);
              ls2 = (if native_state g = None then ls1 else ls1\<lparr>worker := (worker ls1)\<lparr>provider_session := None\<rparr>\<rparr>);
              (cs', a) = filter_truncated_tool_calls (stop_reason g) cs (if blocks = [] then None else Some made) (worker ls2);
              go_on = after_answer env recent_result s cs' g (ls2\<lparr>worker := a\<rparr>);
              native_saved = (if native_state g = None then go_on else saved_or_fail env ls2 go_on)
          in if blocks = [] then native_saved else saved_or_fail env ls1 native_saved)"

text \<open>Before the request: the interrupts that have arrived are queued, and missing tool outputs supplied.\<close>

definition prepared :: "turn_env \<Rightarrow> round \<Rightarrow> loop_state \<Rightarrow> agent" where
  "prepared env r s =
     repair_missing_tool_outputs env (in_flight r) ((worker s)\<lparr>soft_queue := soft_queue (worker s) @ arriving r\<rparr>)"

text \<open>The request: the messages that are sent, with the nudge when one is due.\<close>

definition ask :: "turn_env \<Rightarrow> round \<Rightarrow> loop_state \<Rightarrow> message list \<times> loop_state" where
  "ask env r s =
     (let a = prepared env r s;
          (messages, compacted_now) = request r (transcript a);
          a' = (if compacted_now then a\<lparr>provider_session := None\<rparr> else a)
      in if should_inject_batch_nudge (batch_nudge_pending s) (batch_available env)
         then (messages @ [\<lparr>role_of = User, content_of = [Text BATCH_NUDGE None]\<rparr>],
               s\<lparr>worker := a', batch_nudge_pending := False, sequential_single_tool_rounds := 0\<rparr>)
         else (messages, s\<lparr>worker := a'\<rparr>))"

text \<open>The stream has been opened.\<close>

definition receive :: "turn_env \<Rightarrow> round \<Rightarrow> bool \<Rightarrow> (rstr + stream_event) list \<Rightarrow> loop_state \<Rightarrow> round_end" where
  "receive env r recent_result events s =
     (case gather env (length (transcript (worker s))) events nothing_gathered (provider_session (worker s)) of
        (ended, g, sid) \<Rightarrow>
          let s' = s\<lparr>worker := (worker s)\<lparr>provider_session := sid\<rparr>\<rparr>
          in case ended of
               Stream_Broken e failure \<Rightarrow> retry_or_fail r e failure s'
             | Stream_Over \<Rightarrow> take_answer env recent_result g s')"

definition run_round :: "turn_env \<Rightarrow> round \<Rightarrow> loop_state \<Rightarrow> round_end" where
  "run_round env r s =
     (if cancelled r then Finished [] s
      else case ask env r s of
             (sent, s1) \<Rightarrow>
               case answer r of
                 Not_Opened e \<Rightarrow> retry_or_fail r e (Provider_Error e None) s1
               | Opened events \<Rightarrow>
                   receive env r (messages_end_with_tool_result (stamped env sent)) events (s1\<lparr>context_limit_retries := 0\<rparr>))"

text \<open>A turn over the rounds it meets; it may be waiting for the next one.\<close>

datatype turn_end = Waiting loop_state | Ended rstr loop_state | Failed turn_error loop_state

fun run_turn :: "turn_env \<Rightarrow> round list \<Rightarrow> loop_state \<Rightarrow> turn_end" where
  "run_turn env [] s = Waiting s"
| "run_turn env (r # rs) s =
     (case run_round env r s of
        Again s' \<Rightarrow> run_turn env rs s'
      | Finished t s' \<Rightarrow> Ended t s'
      | Turn_Failed e s' \<Rightarrow> Failed e s')"

definition new_turn :: "agent \<Rightarrow> loop_state" where
  "new_turn a =
     \<lparr>worker = a, context_limit_retries = 0, incomplete_continuations = 0, empty_post_tool_continuations = 0,
       fable_guardrail_reconsiderations = 0, sequential_single_tool_rounds = 0, batch_nudge_pending = False\<rparr>"

end
