(* ===== verification/Agent_Properties.thy ===== *)
theory Agent_Properties
  imports Agent_Turn "HOL-Library.Multiset"
begin

text \<open>
  What a turn keeps: the calls of the transcript and their results, the interrupts that are
  injected, the response that is gathered, and how often a turn may ask again.
\<close>

section \<open>Calls and results of a transcript\<close>

definition calls_within :: "stored_message list \<Rightarrow> rstr set" where
  "calls_within t = (\<Union>m\<in>set t. set (stored_calls m))"

definition results_within :: "stored_message list \<Rightarrow> rstr set" where
  "results_within t = (\<Union>m\<in>set t. set (stored_results m))"

definition all_answered :: "stored_message list \<Rightarrow> bool" where
  "all_answered t = (calls_within t \<subseteq> results_within t)"

text \<open>What is tracked of the messages before the scan index is true of them, unless the transcript has shrunk.\<close>

definition in_step :: "agent \<Rightarrow> bool" where
  "in_step a =
     (scan_index a \<le> length (transcript a)
      \<and> tool_result_ids a \<subseteq> results_within (transcript a)
      \<and> results_within (take (scan_index a) (transcript a)) \<subseteq> tool_result_ids a
      \<and> calls_within (take (scan_index a) (transcript a)) \<subseteq> results_within (transcript a))"

definition well_tracked :: "agent \<Rightarrow> bool" where
  "well_tracked a = (length (transcript a) < scan_index a \<or> in_step a)"

lemma calls_within_simps [simp]:
  "calls_within [] = {}" "calls_within (m # t) = set (stored_calls m) \<union> calls_within t"
  "calls_within (s @ t) = calls_within s \<union> calls_within t"
  by (auto simp: calls_within_def)

lemma results_within_simps [simp]:
  "results_within [] = {}" "results_within (m # t) = set (stored_results m) \<union> results_within t"
  "results_within (s @ t) = results_within s \<union> results_within t"
  by (auto simp: results_within_def)

lemma calls_within_take: "calls_within (take k t) \<subseteq> calls_within t"
  by (auto simp: calls_within_def dest: in_set_takeD)

lemma all_answered_simps [simp]: "all_answered []"
  by (simp add: all_answered_def)

subsection \<open>One supplied result\<close>

lemma insert_at_parts:
  "calls_within (insert_at k m t) = set (stored_calls m) \<union> calls_within t"
  "results_within (insert_at k m t) = set (stored_results m) \<union> results_within t"
proof -
  have "calls_within t = calls_within (take k t) \<union> calls_within (drop k t)"
    and "results_within t = results_within (take k t) \<union> results_within (drop k t)"
    by (metis append_take_drop_id calls_within_simps(3)) (metis append_take_drop_id results_within_simps(3))
  then show "calls_within (insert_at k m t) = set (stored_calls m) \<union> calls_within t"
    and "results_within (insert_at k m t) = set (stored_results m) \<union> results_within t"
    by (auto simp: insert_at_def)
qed

lemma insert_result_parts [simp]:
  "calls_within (transcript (insert_result env k i a)) = calls_within (transcript a)"
  "results_within (transcript (insert_result env k i a)) = insert i (results_within (transcript a))"
  "tool_result_ids (insert_result env k i a) = insert i (tool_result_ids a)"
  "soft_queue (insert_result env k i a) = soft_queue a"
  by (simp_all add: insert_result_def insert_at_parts stored_calls_def stored_results_def missing_result_def
      map_filter_simps)

lemma insert_results_parts [simp]:
  "calls_within (transcript (insert_results env k ids a)) = calls_within (transcript a)"
  "results_within (transcript (insert_results env k ids a)) = set ids \<union> results_within (transcript a)"
  "tool_result_ids (insert_results env k ids a) = set ids \<union> tool_result_ids a"
  "soft_queue (insert_results env k ids a) = soft_queue a"
  by (induction ids arbitrary: k a) auto

lemma insert_repairs_parts [simp]:
  "calls_within (transcript (insert_repairs env k rs a)) = calls_within (transcript a)"
  "results_within (transcript (insert_repairs env k rs a)) = set (concat (map snd rs)) \<union> results_within (transcript a)"
  "tool_result_ids (insert_repairs env k rs a) = set (concat (map snd rs)) \<union> tool_result_ids a"
  "soft_queue (insert_repairs env k rs a) = soft_queue a"
  by (induction env k rs a rule: insert_repairs.induct) auto

subsection \<open>The repair\<close>

lemma unscanned_messages: "map snd (unscanned a) = drop (scan_index a) (transcript a)"
  by (simp add: unscanned_def drop_map [symmetric])

lemma set_concat_unscanned:
  "set (concat (map (f \<circ> snd) (unscanned a))) = (\<Union>m\<in>set (drop (scan_index a) (transcript a)). set (f m))"
  by (auto simp: unscanned_messages [symmetric])

lemma concat_filter_nonempty: "concat (map snd (filter (\<lambda>(k, ids). ids \<noteq> []) xs)) = concat (map snd xs)"
  by (induction xs) auto

lemma supplied_outputs:
  "concat (map snd (missing_outputs p a))
   = filter (\<lambda>i. i \<notin> tool_result_ids a \<and> \<not> p i) (concat (map stored_calls (drop (scan_index a) (transcript a))))"
  unfolding missing_outputs_def concat_filter_nonempty unscanned_messages [symmetric]
  by (simp add: filter_concat comp_def case_prod_unfold)

lemma set_missing_outputs:
  "set (concat (map snd (missing_outputs p a)))
   = {i \<in> calls_within (drop (scan_index a) (transcript a)). i \<notin> tool_result_ids a \<and> \<not> p i}"
  by (auto simp: supplied_outputs calls_within_def)

text \<open>The transcript the repair looks at, and what it supplies.\<close>

definition reset_if_shrunk :: "agent \<Rightarrow> agent" where
  "reset_if_shrunk a = (if length (transcript a) < scan_index a then reset_tool_output_tracking a else a)"

lemma reset_if_shrunk_parts [simp]:
  "transcript (reset_if_shrunk a) = transcript a" "soft_queue (reset_if_shrunk a) = soft_queue a"
  "scan_index (reset_if_shrunk a) \<le> length (transcript a)"
  by (simp_all add: reset_if_shrunk_def reset_tool_output_tracking_def)

lemma tracked_reset: "well_tracked a \<Longrightarrow> in_step (reset_if_shrunk a)"
  by (auto simp: well_tracked_def in_step_def reset_if_shrunk_def reset_tool_output_tracking_def)

lemma note_parts [simp]:
  "transcript (note_results a) = transcript a" "scan_index (note_results a) = scan_index a"
  "soft_queue (note_results a) = soft_queue a"
  "transcript (note_calls a) = transcript a" "scan_index (note_calls a) = scan_index a"
  "soft_queue (note_calls a) = soft_queue a" "tool_result_ids (note_calls a) = tool_result_ids a"
  "tool_result_ids (note_results a) = tool_result_ids a \<union> results_within (drop (scan_index a) (transcript a))"
  by (simp_all add: note_results_def note_calls_def results_within_def set_concat_unscanned del: set_concat)

definition scanned :: "agent \<Rightarrow> agent" where
  "scanned a = note_results (reset_if_shrunk a)"

lemma repair_alt:
  "repair_missing_tool_outputs env p a =
     (let b = insert_repairs env 0 (missing_outputs p (scanned a)) (note_calls (scanned a))
      in b\<lparr>scan_index := length (transcript b)\<rparr>)"
  by (simp add: repair_missing_tool_outputs_def scanned_def reset_if_shrunk_def Let_def)

lemma scanned_parts [simp]:
  "transcript (scanned a) = transcript a" "soft_queue (scanned a) = soft_queue a"
  "scan_index (scanned a) = scan_index (reset_if_shrunk a)"
  by (simp_all add: scanned_def)

lemma results_within_drop: "results_within (drop k t) \<subseteq> results_within t"
  by (auto simp: results_within_def dest: in_set_dropD)

lemma results_within_split: "results_within t = results_within (take k t) \<union> results_within (drop k t)"
  by (metis append_take_drop_id results_within_simps(3))

lemma calls_within_split: "calls_within t = calls_within (take k t) \<union> calls_within (drop k t)"
  by (metis append_take_drop_id calls_within_simps(3))

lemma tracked_scanned:
  assumes "well_tracked a"
  shows "tool_result_ids (scanned a) = results_within (transcript a)"
    and "calls_within (take (scan_index (scanned a)) (transcript a)) \<subseteq> results_within (transcript a)"
  using tracked_reset [OF assms] results_within_split [of "transcript a" "scan_index (reset_if_shrunk a)"]
  by (auto simp: in_step_def scanned_def)

lemma repair_parts:
  "calls_within (transcript (repair_missing_tool_outputs env p a)) = calls_within (transcript a)"
  "results_within (transcript (repair_missing_tool_outputs env p a))
   = set (concat (map snd (missing_outputs p (scanned a)))) \<union> results_within (transcript a)"
  "tool_result_ids (repair_missing_tool_outputs env p a)
   = set (concat (map snd (missing_outputs p (scanned a)))) \<union> tool_result_ids (scanned a)"
  "scan_index (repair_missing_tool_outputs env p a) = length (transcript (repair_missing_tool_outputs env p a))"
  "soft_queue (repair_missing_tool_outputs env p a) = soft_queue a"
  by (simp_all add: repair_alt Let_def del: set_concat)

lemma repair_answers:
  assumes "well_tracked a" and "\<And>i. \<not> p i"
  shows "all_answered (transcript (repair_missing_tool_outputs env p a))"
  using tracked_scanned [OF assms(1)] assms(2) calls_within_split [of "transcript a" "scan_index (scanned a)"]
  unfolding all_answered_def repair_parts set_missing_outputs scanned_parts(1) by blast

lemma repair_in_step:
  assumes "well_tracked a" and "\<And>i. \<not> p i"
  shows "in_step (repair_missing_tool_outputs env p a)"
  using repair_answers [OF assms, of env] tracked_scanned(1) [OF assms(1)]
  unfolding in_step_def all_answered_def repair_parts(4) by (simp add: repair_parts(1,2,3) del: set_concat)

subsection \<open>No second result\<close>

definition result_list :: "stored_message list \<Rightarrow> rstr list" where
  "result_list t = concat (map stored_results t)"

definition call_list :: "stored_message list \<Rightarrow> rstr list" where
  "call_list t = concat (map stored_calls t)"

lemma mset_result_list_insert_at:
  "mset (result_list (insert_at k m t)) = mset (stored_results m) + mset (result_list t)"
proof -
  have "result_list t = result_list (take k t) @ result_list (drop k t)"
    unfolding result_list_def concat_append [symmetric] map_append [symmetric] append_take_drop_id ..
  then show ?thesis
    by (simp add: insert_at_def result_list_def)
qed

lemma mset_insert_result:
  "mset (result_list (transcript (insert_result env k i a))) = add_mset i (mset (result_list (transcript a)))"
  by (simp add: insert_result_def mset_result_list_insert_at stored_results_def missing_result_def map_filter_simps)

lemma mset_insert_results:
  "mset (result_list (transcript (insert_results env k ids a))) = mset ids + mset (result_list (transcript a))"
  by (induction ids arbitrary: k a) (auto simp: mset_insert_result)

lemma mset_insert_repairs:
  "mset (result_list (transcript (insert_repairs env k rs a)))
   = mset (concat (map snd rs)) + mset (result_list (transcript a))"
  by (induction env k rs a rule: insert_repairs.induct) (simp_all add: mset_insert_results)

lemma mset_repair:
  "mset (result_list (transcript (repair_missing_tool_outputs env p a)))
   = mset (concat (map snd (missing_outputs p (scanned a))) @ result_list (transcript a))"
  by (simp add: repair_alt Let_def mset_insert_repairs)

lemma distinct_call_list_drop: "distinct (call_list t) \<Longrightarrow> distinct (call_list (drop k t))"
proof -
  have "call_list t = call_list (take k t) @ call_list (drop k t)"
    unfolding call_list_def concat_append [symmetric] map_append [symmetric] append_take_drop_id ..
  then show "distinct (call_list t) \<Longrightarrow> distinct (call_list (drop k t))"
    by simp
qed

lemma set_result_list: "set (result_list t) = results_within t"
  by (auto simp: result_list_def results_within_def)

lemma repair_distinct:
  assumes "well_tracked a" and "distinct (call_list (transcript a))" and "distinct (result_list (transcript a))"
  shows "distinct (result_list (transcript (repair_missing_tool_outputs env p a)))"
proof -
  let ?ids = "concat (map snd (missing_outputs p (scanned a)))"
  have "distinct ?ids"
    using distinct_call_list_drop [OF assms(2)] unfolding supplied_outputs scanned_parts(1) call_list_def
    by (rule distinct_filter)
  moreover have "set ?ids \<inter> set (result_list (transcript a)) = {}"
    unfolding set_missing_outputs set_result_list tracked_scanned(1) [OF assms(1)] by blast
  ultimately have "distinct (?ids @ result_list (transcript a))"
    using assms(3) by (simp del: set_concat)
  then show ?thesis
    using mset_eq_imp_distinct_iff [OF mset_repair [of env p a]] by blast
qed

section \<open>What the rest of a round keeps\<close>

text \<open>The tracking is left alone, messages are added at the end, and at most calls are removed.\<close>

definition later :: "agent \<Rightarrow> agent \<Rightarrow> bool" where
  "later a b =
     (scan_index b = scan_index a \<and> tool_result_ids b = tool_result_ids a
      \<and> length (transcript a) \<le> length (transcript b)
      \<and> (\<forall>k<length (transcript a).
           set (stored_calls (transcript b ! k)) \<subseteq> set (stored_calls (transcript a ! k))
           \<and> stored_results (transcript b ! k) = stored_results (transcript a ! k)))"

lemma later_refl [simp, intro]: "later a a"
  by (simp add: later_def)

lemma later_trans [trans]: "later a b \<Longrightarrow> later b c \<Longrightarrow> later a c"
  unfolding later_def by (metis (no_types, lifting) order.strict_trans2 order_trans)

lemma take_calls_later:
  assumes "later a b" and "k \<le> length (transcript a)"
  shows "calls_within (take k (transcript b)) \<subseteq> calls_within (take k (transcript a))"
    and "results_within (take k (transcript b)) = results_within (take k (transcript a))"
proof -
  have "set (take k (transcript b)) = (!) (transcript b) ` {..<k}" "set (take k (transcript a)) = (!) (transcript a) ` {..<k}"
    using assms nth_image [of k "transcript b"] nth_image [of k "transcript a"]
    by (auto simp: later_def lessThan_atLeast0)
  moreover have "set (stored_calls (transcript b ! j)) \<subseteq> set (stored_calls (transcript a ! j))"
    and "stored_results (transcript b ! j) = stored_results (transcript a ! j)" if "j < k" for j
    using assms that by (auto simp: later_def)
  ultimately show "calls_within (take k (transcript b)) \<subseteq> calls_within (take k (transcript a))"
    and "results_within (take k (transcript b)) = results_within (take k (transcript a))"
    by (simp_all add: calls_within_def results_within_def) blast
qed

lemma results_later: assumes "later a b" shows "results_within (transcript a) \<subseteq> results_within (transcript b)"
  using take_calls_later(2) [OF assms order_refl] results_within_split [of "transcript b" "length (transcript a)"] by auto

lemma in_step_later:
  assumes "in_step a" and "later a b"
  shows "in_step b"
proof -
  have k: "scan_index a \<le> length (transcript a)" "scan_index b = scan_index a" "tool_result_ids b = tool_result_ids a"
    "length (transcript a) \<le> length (transcript b)"
    using assms by (auto simp: in_step_def later_def)
  then show ?thesis
    using assms(1) take_calls_later [OF assms(2) k(1)] results_later [OF assms(2)]
    unfolding in_step_def by auto
qed

lemma later_add_message [simp, intro]: "later a (add_message env r bs d a)"
  by (simp add: later_def add_message_def nth_append)

lemma later_add_message_trans: "later a b \<Longrightarrow> later a (add_message env r bs d b)"
  using later_trans later_add_message by blast

lemma later_provider_session [simp]:
  "later a (b\<lparr>provider_session := x\<rparr>) = later a b" "later (a\<lparr>provider_session := x\<rparr>) b = later a b"
  "in_step (a\<lparr>provider_session := x\<rparr>) = in_step a"
  by (simp_all add: later_def in_step_def)

lemma later_soft_queue [simp]:
  "later a (b\<lparr>soft_queue := q\<rparr>) = later a b" "later (a\<lparr>soft_queue := q\<rparr>) b = later a b"
  by (simp_all add: later_def)

lemma calls_without_uses: "stored_calls (m\<lparr>stored_content := filter (\<lambda>b. block_call b = None) (stored_content m)\<rparr>) = []"
proof -
  have "List.map_filter block_call (filter (\<lambda>b. block_call b = None) bs) = []" for bs
    by (induction bs) (auto simp: map_filter_simps)
  then show ?thesis
    by (simp add: stored_calls_def split: role.split)
qed

lemma results_without_uses:
  "stored_results (m\<lparr>stored_content := filter (\<lambda>b. block_call b = None) (stored_content m)\<rparr>) = stored_results m"
proof -
  have either: "block_call b = None \<or> block_result b = None" for b
    by (cases b) auto
  have "List.map_filter block_result (filter (\<lambda>b. block_call b = None) bs) = List.map_filter block_result bs" for bs
  proof (induction bs)
    case (Cons b bs)
    then show ?case
      using either [of b] by (auto simp: map_filter_simps split: option.splits)
  qed (simp add: map_filter_simps)
  then show ?thesis
    by (simp add: stored_results_def split: role.split)
qed

lemma later_remove_tool_use_blocks [simp, intro]: "later a (remove_tool_use_blocks i a)"
  by (auto simp: later_def remove_tool_use_blocks_def Let_def nth_list_update calls_without_uses results_without_uses)

lemma later_filter_truncated: "later a (snd (filter_truncated_tool_calls r cs i a))"
  by (auto simp: filter_truncated_tool_calls_def Let_def split: option.split)

lemma later_run_tools: "later a (snd (run_tools env sdk cs a))"
proof (induction cs arbitrary: sdk a)
  case (Cons c cs)
  have "later a (snd (run_tools env sdk' cs (add_message env User bs None a)))" for sdk' bs
    using later_trans [OF later_add_message Cons] .
  then show ?case
    by (auto split: option.split prod.split)
qed simp

lemma later_add_image_contexts: "later a (add_image_contexts env contexts a)"
  unfolding add_image_contexts_def
  by (induction contexts arbitrary: a) (auto intro: later_trans [OF later_add_message])

lemma later_flush_group: "later (fst r) (fst (flush_group env s ps is r))"
  by (cases r) (auto simp: flush_group_def Let_def)

lemma later_inject_loop: "later (fst r) (fst (inject_loop env ms s ps is r))"
  by (induction env ms s ps "is" r rule: inject_loop.induct)
     (auto split: option.split intro: later_flush_group later_trans [OF later_flush_group])

lemma later_inject: "later a (fst (inject_soft_interrupts env a))"
  using later_inject_loop [of "(a\<lparr>soft_queue := []\<rparr>, [])" env "soft_queue a" None "[]" "[]"]
  by (simp add: inject_soft_interrupts_def)


section \<open>A round keeps the step\<close>

definition state_at :: "round_end \<Rightarrow> loop_state" where
  "state_at e = (case e of Again s \<Rightarrow> s | Finished t s \<Rightarrow> s | Turn_Failed f s \<Rightarrow> s)"

lemma state_at_simps [simp]:
  "state_at (Again s) = s" "state_at (Finished t s) = s" "state_at (Turn_Failed f s) = s"
  by (simp_all add: state_at_def)

definition on_from :: "loop_state \<Rightarrow> round_end \<Rightarrow> bool" where
  "on_from s e = later (worker s) (worker (state_at e))"

lemma saved_or_fail_on: "on_from s s1 \<Longrightarrow> later (worker s) (worker s2) \<Longrightarrow> on_from s (saved_or_fail env s2 s1)"
  by (simp add: saved_or_fail_def on_from_def)

lemma later_ask_again:
  "ask_again env p n a = Continued b k \<Longrightarrow> later a b" "ask_again env p n a = Save_Failed b k \<Longrightarrow> later a b"
  by (auto simp: ask_again_def Let_def split: if_splits)

lemmas continuation_defs =
  maybe_reconsider_fable_guardrail_def maybe_continue_empty_post_tool_response_def maybe_continue_incomplete_response_def

lemma later_continuations:
  "maybe_reconsider_fable_guardrail env m r n a = Continued b k \<Longrightarrow> later a b"
  "maybe_reconsider_fable_guardrail env m r n a = Save_Failed b k \<Longrightarrow> later a b"
  "maybe_continue_empty_post_tool_response env v p r n a = Continued b k \<Longrightarrow> later a b"
  "maybe_continue_empty_post_tool_response env v p r n a = Save_Failed b k \<Longrightarrow> later a b"
  "maybe_continue_incomplete_response env r n a = Continued b k \<Longrightarrow> later a b"
  "maybe_continue_incomplete_response env r n a = Save_Failed b k \<Longrightarrow> later a b"
  by (auto simp: continuation_defs split: if_splits option.splits intro: later_ask_again)

lemma end_of_turn_on: "on_from s (end_of_turn env p t g s)"
  by (auto simp: end_of_turn_def on_from_def split: continuation.split intro: later_continuations)

lemma show_images_on: "on_from s (show_images env g s)"
  unfolding show_images_def Let_def
  by (rule saved_or_fail_on) (simp_all add: on_from_def later_add_image_contexts)

lemma finish_round_on: "on_from s (finish_round env g s)"
proof -
  have "later a (fst (inject_soft_interrupts env (add_image_contexts env cs a)))" for cs a
    using later_trans [OF later_add_image_contexts later_inject] .
  then show ?thesis
    by (auto simp: finish_round_def Let_def on_from_def later_inject later_add_image_contexts intro!: saved_or_fail_on [unfolded on_from_def])
qed

lemma on_from_worker:
  assumes "on_from s2 e" and "later (worker s) (worker s2)" shows "on_from s e"
  using assms later_trans unfolding on_from_def by blast

lemma run_calls_on: "on_from s (run_calls env cs g s)"
proof -
  have moved: "later (worker s) a" if "run_tools env (sdk_results g) cs (worker s) = (e, a)" for e a
    using later_run_tools [of "worker s" env "sdk_results g" cs] that by simp
  then show ?thesis
    by (auto simp: run_calls_def Let_def on_from_def split: prod.split option.split
        intro!: saved_or_fail_on [unfolded on_from_def] on_from_worker [OF finish_round_on, unfolded on_from_def])
qed

lemma after_answer_on: "on_from s (after_answer env p t cs g s)"
  by (auto simp: after_answer_def show_images_on end_of_turn_on run_calls_on split: list.split)
     (simp add: on_from_def)


text \<open>The calls that are run: those of the answer, or one written as text, less the truncated ones.\<close>

definition calls_left :: "turn_env \<Rightarrow> nat \<Rightarrow> gathered \<Rightarrow> agent_call list" where
  "calls_left env k g =
     (let cs = snd (recover_text_wrapped_tool_call (json_at env) (call_suffix env k) (said g) (calls g))
      in if should_continue_after_stop_reason (case stop_reason g of Some r \<Rightarrow> r | None \<Rightarrow> [])
         then filter (\<lambda>c. ac_input c \<noteq> JNull) cs else cs)"

lemma take_answer_parts:
  obtains t b1 b2 a where "take_answer env p g s
      \<in> {after_answer env p t (calls_left env (ids_made (worker s)) g) g (s\<lparr>worker := a\<rparr>),
         saved_or_fail env (s\<lparr>worker := b2\<rparr>) (after_answer env p t (calls_left env (ids_made (worker s)) g) g (s\<lparr>worker := a\<rparr>)),
         saved_or_fail env (s\<lparr>worker := b1\<rparr>) (after_answer env p t (calls_left env (ids_made (worker s)) g) g (s\<lparr>worker := a\<rparr>)),
         saved_or_fail env (s\<lparr>worker := b1\<rparr>) (saved_or_fail env (s\<lparr>worker := b2\<rparr>)
           (after_answer env p t (calls_left env (ids_made (worker s)) g) g (s\<lparr>worker := a\<rparr>)))}"
    and "later (worker s) b1" and "later b1 b2" and "later b2 a"
proof -
  obtain t cs where rec: "recover_text_wrapped_tool_call (json_at env) (call_suffix env (ids_made (worker s))) (said g) (calls g) = (t, cs)"
    by fastforce
  define blocks where "blocks = answer_blocks env t cs g"
  define b1 where "b1 = (if blocks = [] then worker s else add_message env Assistant blocks None (worker s))"
  define b2 where "b2 = (if native_state g = None then b1 else b1\<lparr>provider_session := None\<rparr>)"
  define i where "i = (if blocks = [] then None else Some (fresh_id env (ids_made (worker s))))"
  define a where "a = snd (filter_truncated_tool_calls (stop_reason g) cs i b2)"
  have filt: "filter_truncated_tool_calls (stop_reason g) cs i b2 = (calls_left env (ids_made (worker s)) g, a)"
    unfolding a_def by (simp add: filter_truncated_tool_calls_def calls_left_def rec Let_def prod_eq_iff)
  have steps: "later (worker s) b1" "later b1 b2" "later b2 a"
    by (simp_all add: b1_def b2_def a_def later_filter_truncated)
  have "take_answer env p g s =
      (let go = after_answer env p t (calls_left env (ids_made (worker s)) g) g (s\<lparr>worker := a\<rparr>);
           native_saved = (if native_state g = None then go else saved_or_fail env (s\<lparr>worker := b2\<rparr>) go)
       in if blocks = [] then native_saved else saved_or_fail env (s\<lparr>worker := b1\<rparr>) native_saved)"
    using filt by (cases "answer_blocks env t cs g = []"; cases "native_state g")
      (simp_all add: take_answer_def rec i_def b2_def b1_def blocks_def Let_def)
  then show thesis
    using that [OF _ steps, of t] by (simp add: Let_def)
qed

lemma take_answer_on: "on_from s (take_answer env p g s)"
proof (rule take_answer_parts [of env p g s])
  fix t b1 b2 a
  let ?go = "after_answer env p t (calls_left env (ids_made (worker s)) g) g (s\<lparr>worker := a\<rparr>)"
  assume ways: "take_answer env p g s \<in> {?go, saved_or_fail env (s\<lparr>worker := b2\<rparr>) ?go, saved_or_fail env (s\<lparr>worker := b1\<rparr>) ?go,
      saved_or_fail env (s\<lparr>worker := b1\<rparr>) (saved_or_fail env (s\<lparr>worker := b2\<rparr>) ?go)}"
    and steps: "later (worker s) b1" "later b1 b2" "later b2 a"
  have "later (worker s) b2" "later (worker s) a"
    using later_trans steps by blast+
  then have "on_from s ?go"
    using on_from_worker [OF after_answer_on] by simp
  then show "on_from s (take_answer env p g s)"
    using ways steps(1) \<open>later (worker s) b2\<close> by (auto intro!: saved_or_fail_on)
qed

text \<open>What the compaction may do to the transcript: no call and no result is touched.\<close>

definition keeps_results :: "round \<Rightarrow> bool" where
  "keeps_results r =
     (\<forall>e t t'. make_room r e t = Some t' \<longrightarrow>
        map stored_calls t' = map stored_calls t \<and> map stored_results t' = map stored_results t)"

lemma calls_results_maps:
  "map stored_calls s = map stored_calls t \<Longrightarrow> calls_within s = calls_within t"
  "map stored_results s = map stored_results t \<Longrightarrow> results_within s = results_within t"
proof -
  have "calls_within u = set (concat (map stored_calls u))" "results_within u = set (concat (map stored_results u))" for u
    by (auto simp: calls_within_def results_within_def)
  then show "map stored_calls s = map stored_calls t \<Longrightarrow> calls_within s = calls_within t"
    and "map stored_results s = map stored_results t \<Longrightarrow> results_within s = results_within t"
    by (simp_all only:)
qed

lemma in_step_maps:
  assumes "map stored_calls t' = map stored_calls (transcript a)" and "map stored_results t' = map stored_results (transcript a)"
    and "in_step a"
  shows "in_step (a\<lparr>transcript := t', provider_session := x\<rparr>)"
proof -
  have "calls_within (take k t') = calls_within (take k (transcript a))" "results_within (take k t') = results_within (take k (transcript a))" for k
    using assms by (auto intro!: calls_results_maps simp: take_map [symmetric])
  moreover have "length t' = length (transcript a)"
    using assms(1) by (rule map_eq_imp_length_eq)
  ultimately show ?thesis
    using assms calls_results_maps(2) [OF assms(2)] by (simp add: in_step_def)
qed

lemma retry_in_step:
  assumes "in_step (worker s)" and "keeps_results r"
  shows "in_step (worker (state_at (retry_or_fail r e f s)))"
  using assms in_step_maps by (auto simp: retry_or_fail_def keeps_results_def Let_def split: option.split)

lemma prepared_in_step:
  assumes "well_tracked (worker s)" and "\<And>i. \<not> in_flight r i"
  shows "in_step (prepared env r s)" and "all_answered (transcript (prepared env r s))"
proof -
  have "well_tracked ((worker s)\<lparr>soft_queue := q\<rparr>)" for q
    using assms(1) by (simp add: well_tracked_def in_step_def)
  then show "in_step (prepared env r s)" and "all_answered (transcript (prepared env r s))"
    unfolding prepared_def using assms(2) by (auto intro: repair_in_step repair_answers)
qed

lemma ask_in_step:
  assumes "well_tracked (worker s)" and "\<And>i. \<not> in_flight r i"
  shows "in_step (worker (snd (ask env r s)))"
  using prepared_in_step(1) [of s r env] assms by (simp add: ask_def Let_def split: prod.split)

lemma receive_in_step:
  fixes s :: loop_state
  assumes "in_step (worker s)" and "keeps_results r"
  shows "in_step (worker (state_at (receive env r p events s)))"
proof -
  obtain ended g sid where
    gath: "gather env (length (transcript (worker s))) events nothing_gathered (provider_session (worker s)) = (ended, g, sid)"
    by (metis prod_cases3)
  let ?s = "s\<lparr>worker := (worker s)\<lparr>provider_session := sid\<rparr>\<rparr>"
  have step: "in_step (worker ?s)"
    using assms(1) by simp
  show ?thesis
  proof (cases ended)
    case Stream_Over
    then show ?thesis
      using in_step_later [OF step] take_answer_on [of ?s env p g] gath by (simp add: receive_def on_from_def)
  next
    case (Stream_Broken e f)
    then show ?thesis
      using retry_in_step [OF step assms(2)] gath by (simp add: receive_def)
  qed
qed

lemma run_round_in_step:
  assumes "well_tracked (worker s)" and "\<And>i. \<not> in_flight r i" and "keeps_results r" and "\<not> cancelled r"
  shows "in_step (worker (state_at (run_round env r s)))"
proof -
  obtain sent and s1 :: loop_state where ask: "ask env r s = (sent, s1)"
    by fastforce
  then have "in_step (worker s1)"
    using ask_in_step [OF assms(1,2), of env] by simp
  then show ?thesis
    using assms(3,4) retry_in_step receive_in_step [of "s1\<lparr>context_limit_retries := 0\<rparr>"]
    by (simp add: run_round_def ask split: request_answer.split)
qed

fun requests :: "turn_env \<Rightarrow> round list \<Rightarrow> loop_state \<Rightarrow> stored_message list list" where
  "requests env [] s = []"
| "requests env (r # rs) s =
     (if cancelled r then []
      else transcript (prepared env r s) # (case run_round env r s of Again s' \<Rightarrow> requests env rs s' | _ \<Rightarrow> []))"

lemma requests_answered:
  assumes "well_tracked (worker s)" and "\<forall>r\<in>set rs. (\<forall>i. \<not> in_flight r i) \<and> keeps_results r"
  shows "\<forall>t\<in>set (requests env rs s). all_answered t"
  using assms
proof (induction rs arbitrary: s)
  case (Cons r rs)
  have rest: "\<forall>t\<in>set (requests env rs s'). all_answered t" if "run_round env r s = Again s'" "\<not> cancelled r" for s'
    using run_round_in_step [of s r env] Cons.prems that by (intro Cons.IH) (simp_all add: well_tracked_def)
  show ?case
    using Cons.prems prepared_in_step(2) [of s r env] rest by (cases "run_round env r s") auto
qed simp

end
