(* ===== verification/Agent_Replies.thy ===== *)
theory Agent_Replies
  imports Agent_Properties
begin

text \<open>
  What comes of a response: how often a turn may ask again, the messages the soft interrupts become,
  a response that is sent again from the start, the answers of the calls, and a call written as text.
\<close>

section \<open>How often a turn asks again\<close>

definition questions_left :: "loop_state \<Rightarrow> nat" where
  "questions_left s =
     (length FABLE_GUARDRAIL_RECONSIDERATION_PROMPTS - fable_guardrail_reconsiderations s)
     + (MAX_EMPTY_POST_TOOL_CONTINUATION_ATTEMPTS - empty_post_tool_continuations s)
     + (MAX_INCOMPLETE_CONTINUATION_ATTEMPTS - incomplete_continuations s)"

lemma questions_left_updates [simp]:
  "questions_left (s\<lparr>worker := a\<rparr>) = questions_left s"
  "questions_left (s\<lparr>context_limit_retries := k\<rparr>) = questions_left s"
  "questions_left (s\<lparr>sequential_single_tool_rounds := k\<rparr>) = questions_left s"
  "questions_left (s\<lparr>batch_nudge_pending := b\<rparr>) = questions_left s"
  by (simp_all add: questions_left_def)

lemma ask_again_count: "ask_again env p n a = Continued b k \<Longrightarrow> k = Suc n"
  by (simp add: ask_again_def Let_def split: if_splits)

lemma continuation_counts:
  "maybe_reconsider_fable_guardrail env m r n a = Continued b k
   \<Longrightarrow> k = Suc n \<and> n < length FABLE_GUARDRAIL_RECONSIDERATION_PROMPTS"
  "maybe_continue_empty_post_tool_response env v p r n a = Continued b k
   \<Longrightarrow> k = Suc n \<and> n < MAX_EMPTY_POST_TOOL_CONTINUATION_ATTEMPTS"
  "maybe_continue_incomplete_response env r n a = Continued b k
   \<Longrightarrow> k = Suc n \<and> n < MAX_INCOMPLETE_CONTINUATION_ATTEMPTS"
  by (auto simp: continuation_defs should_reconsider_fable_guardrail_def split: if_splits option.splits dest: ask_again_count)

lemma end_of_turn_asks: "end_of_turn env p t g s = Again s' \<Longrightarrow> questions_left s' < questions_left s"
  by (auto simp: end_of_turn_def questions_left_def split: continuation.splits dest!: continuation_counts)

lemma saved_again [simp]:
  "saved_or_fail env s e = Again s' \<longleftrightarrow> can_save env (transcript (worker s)) \<and> e = Again s'"
  "Again s' = saved_or_fail env s e \<longleftrightarrow> can_save env (transcript (worker s)) \<and> e = Again s'"
  by (auto simp: saved_or_fail_def)

lemma show_images_count: "show_images env g s = Again s' \<Longrightarrow> questions_left s' = questions_left s"
  by (auto simp: show_images_def Let_def)

lemma run_calls_count: "run_calls env cs g s = Again s' \<Longrightarrow> questions_left s' = questions_left s"
  by (auto simp: run_calls_def finish_round_def Let_def split: prod.splits option.splits if_splits)

lemma retry_count: "retry_or_fail r e f s = Again s' \<Longrightarrow> questions_left s' = questions_left s"
  by (auto simp: retry_or_fail_def Let_def split: option.splits if_splits)

lemma after_answer_count:
  "after_answer env p t cs g s = Again s' \<Longrightarrow> questions_left s' \<le> questions_left s"
  "after_answer env p t [] g s = Again s' \<Longrightarrow> image_contexts g = [] \<Longrightarrow> questions_left s' < questions_left s"
  by (auto simp: after_answer_def split: if_splits list.splits
      dest: show_images_count run_calls_count end_of_turn_asks)

lemma take_answer_again:
  assumes "take_answer env p g s = Again s'"
  obtains t s2 where "after_answer env p t (calls_left env (ids_made (worker s)) g) g s2 = Again s'"
    and "questions_left s2 = questions_left s"
proof (rule take_answer_parts [of env p g s])
  fix t b1 b2 a
  let ?go = "after_answer env p t (calls_left env (ids_made (worker s)) g) g (s\<lparr>worker := a\<rparr>)"
  assume "take_answer env p g s \<in> {?go, saved_or_fail env (s\<lparr>worker := b2\<rparr>) ?go, saved_or_fail env (s\<lparr>worker := b1\<rparr>) ?go,
      saved_or_fail env (s\<lparr>worker := b1\<rparr>) (saved_or_fail env (s\<lparr>worker := b2\<rparr>) ?go)}"
  then have "?go = Again s'"
    using assms by auto
  then show thesis
    by (rule that) simp
qed

text \<open>A round is quiet when it brings an answer without calls and without images.\<close>

definition quiet_round :: "turn_env \<Rightarrow> round \<Rightarrow> loop_state \<Rightarrow> bool" where
  "quiet_round env r s =
     (case answer r of
        Not_Opened e \<Rightarrow> False
      | Opened events \<Rightarrow>
          let a = worker (snd (ask env r s))
          in case gather env (length (transcript a)) events nothing_gathered (provider_session a) of
               (ended, g, sid) \<Rightarrow> ended = Stream_Over \<and> image_contexts g = [] \<and> calls_left env (ids_made a) g = [])"

lemma ask_count: "questions_left (snd (ask env r s)) = questions_left s"
  by (simp add: ask_def Let_def questions_left_def split: prod.split)

lemma receive_count:
  assumes "receive env r p events s = Again s'"
  shows "questions_left s' \<le> questions_left s"
    and "gather env (length (transcript (worker s))) events nothing_gathered (provider_session (worker s)) = (Stream_Over, g, sid)
      \<Longrightarrow> image_contexts g = [] \<Longrightarrow> calls_left env (ids_made (worker s)) g = [] \<Longrightarrow> questions_left s' < questions_left s"
proof -
  obtain ended h sid' where
    gath: "gather env (length (transcript (worker s))) events nothing_gathered (provider_session (worker s)) = (ended, h, sid')"
    by (metis prod_cases3)
  let ?s = "s\<lparr>worker := (worker s)\<lparr>provider_session := sid'\<rparr>\<rparr>"
  have over: "questions_left s' \<le> questions_left s \<and>
      (image_contexts h = [] \<longrightarrow> calls_left env (ids_made (worker s)) h = [] \<longrightarrow> questions_left s' < questions_left s)"
    if "take_answer env p h ?s = Again s'"
    using that by (rule take_answer_again) (use after_answer_count in fastforce)
  show "questions_left s' \<le> questions_left s"
    using assms gath over retry_count [of r _ _ ?s s'] by (cases ended) (auto simp: receive_def Let_def)
  show "gather env (length (transcript (worker s))) events nothing_gathered (provider_session (worker s)) = (Stream_Over, g, sid)
      \<Longrightarrow> image_contexts g = [] \<Longrightarrow> calls_left env (ids_made (worker s)) g = [] \<Longrightarrow> questions_left s' < questions_left s"
    using assms gath over by (auto simp: receive_def Let_def)
qed

lemma run_round_count:
  assumes "run_round env r s = Again s'"
  shows "questions_left s' \<le> questions_left s" and "quiet_round env r s \<Longrightarrow> questions_left s' < questions_left s"
proof -
  obtain sent s1 where ask: "ask env r s = (sent, s1)"
    by fastforce
  then have count: "questions_left s1 = questions_left s"
    using ask_count [of env r s] by simp
  show "questions_left s' \<le> questions_left s"
    using assms count receive_count(1) [of env r _ _ "s1\<lparr>context_limit_retries := 0\<rparr>" s'] retry_count [of r _ _ s1 s']
    by (auto simp: run_round_def ask split: if_splits request_answer.splits)
  show "questions_left s' < questions_left s" if "quiet_round env r s"
    using assms count that receive_count(2) [of env r _ _ "s1\<lparr>context_limit_retries := 0\<rparr>" s']
    by (auto simp: run_round_def quiet_round_def ask Let_def split: if_splits request_answer.splits prod.splits)
qed

text \<open>The rounds of a turn that bring calls, images or an error.\<close>

fun busy_rounds :: "turn_env \<Rightarrow> round list \<Rightarrow> loop_state \<Rightarrow> nat" where
  "busy_rounds env [] s = 0"
| "busy_rounds env (r # rs) s =
     (case run_round env r s of
        Again s' \<Rightarrow> (if quiet_round env r s then 0 else 1) + busy_rounds env rs s'
      | _ \<Rightarrow> 0)"

lemma waiting_rounds:
  "run_turn env rs s = Waiting s' \<Longrightarrow> length rs + questions_left s' \<le> questions_left s + busy_rounds env rs s"
proof (induction rs arbitrary: s)
  case (Cons r rs)
  then obtain s1 where again: "run_round env r s = Again s1" and rest: "run_turn env rs s1 = Waiting s'"
    by (cases "run_round env r s") auto
  show ?case
    using Cons.IH [OF rest] run_round_count [OF again] by (auto simp: again)
qed simp

section \<open>The messages of the soft interrupts\<close>

text \<open>The queue cut into runs of one source; each becomes one message.\<close>

function source_runs :: "soft_interrupt_message list \<Rightarrow> soft_interrupt_message list list" where
  "source_runs [] = []"
| "source_runs (m # ms) =
     (m # takeWhile (\<lambda>x. soft_source x = soft_source m) ms) # source_runs (dropWhile (\<lambda>x. soft_source x = soft_source m) ms)"
  by pat_completeness auto
termination
  by (relation "measure length") (simp_all add: length_dropWhile_le less_Suc_eq_le)

definition run_text :: "soft_interrupt_message list \<Rightarrow> rstr" where
  "run_text g = join [CHR 0x0A, CHR 0x0A] (map soft_content g)"

definition run_message :: "'e session_env_scheme \<Rightarrow> nat \<Rightarrow> soft_interrupt_message list \<Rightarrow> stored_message" where
  "run_message env k g =
     \<lparr>stored_id = fresh_id env k, stored_role = User,
       stored_content = map (\<lambda>(media, data). Image media data) (concat (map soft_images g))
         @ (if run_text g = [] then [] else [Text (run_text g) None]),
       stored_display = session_display_role (soft_source (hd g))\<rparr>"

lemma source_runs_prefix:
  assumes "g \<noteq> []" and "\<forall>x\<in>set g. soft_source x = s"
  shows "source_runs (g @ ms) = (g @ takeWhile (\<lambda>x. soft_source x = s) ms) # source_runs (dropWhile (\<lambda>x. soft_source x = s) ms)"
  using assms by (cases g) (auto simp: takeWhile_append2 dropWhile_append2)

definition flush_run :: "'e session_env_scheme \<Rightarrow> soft_interrupt_message list \<Rightarrow> agent \<times> injected \<Rightarrow> agent \<times> injected" where
  "flush_run env g = flush_group env (soft_source (hd g)) (map soft_content g) (concat (map soft_images g))"

lemma inject_loop_runs:
  assumes "g \<noteq> []" and "\<forall>x\<in>set g. soft_source x = s"
  shows "inject_loop env ms (Some s) (map soft_content g) (concat (map soft_images g)) r
    = fold (flush_run env) (source_runs (g @ ms)) r"
  using assms
proof (induction ms arbitrary: g s r)
  case Nil
  then show ?case
    using source_runs_prefix [of g s "[]"] by (simp add: flush_run_def)
next
  case (Cons m ms)
  show ?case
  proof (cases "soft_source m = s")
    case True
    then show ?thesis
      using Cons.IH [of "g @ [m]" s r] Cons.prems by simp
  next
    case False
    then have "source_runs (g @ m # ms) = g # source_runs ([m] @ ms)"
      using source_runs_prefix [OF Cons.prems, of "m # ms"] by simp
    then show ?thesis
      using Cons.IH [of "[m]" "soft_source m" "flush_run env g r"] Cons.prems False
      by (simp add: flush_run_def)
  qed
qed

lemma flush_run_result:
  assumes "g \<noteq> []"
  shows "flush_run env g (a, done_so_far)
    = (a\<lparr>transcript := transcript a @ [run_message env (ids_made a) g], ids_made := Suc (ids_made a)\<rparr>,
       done_so_far @ [(run_text g, soft_source (hd g))])"
  using assms by (simp add: flush_run_def flush_group_def add_message_def run_message_def run_text_def Let_def)

lemma fold_flush_runs:
  assumes "\<forall>g\<in>set gs. g \<noteq> []"
  shows "fold (flush_run env) gs (a, done_so_far)
    = (a\<lparr>transcript := transcript a @ map (\<lambda>(k, g). run_message env k g) (enumerate (ids_made a) gs),
         ids_made := ids_made a + length gs\<rparr>,
       done_so_far @ map (\<lambda>g. (run_text g, soft_source (hd g))) gs)"
  using assms by (induction gs arbitrary: a done_so_far) (simp_all add: flush_run_result)

lemma source_runs_nonempty: "\<forall>g\<in>set (source_runs ms). g \<noteq> []"
  by (induction ms rule: source_runs.induct) auto

lemma inject_is_runs:
  "inject_soft_interrupts env a
   = (a\<lparr>soft_queue := [],
        transcript := transcript a @ map (\<lambda>(k, g). run_message env k g) (enumerate (ids_made a) (source_runs (soft_queue a))),
        ids_made := ids_made a + length (source_runs (soft_queue a))\<rparr>,
      map (\<lambda>g. (run_text g, soft_source (hd g))) (source_runs (soft_queue a)))"
proof (cases "soft_queue a")
  case (Cons m ms)
  have "inject_loop env (m # ms) None [] [] r = fold (flush_run env) (source_runs (m # ms)) r" for r
    using inject_loop_runs [of "[m]" "soft_source m" env ms r] by simp
  then show ?thesis
    using source_runs_nonempty [of "m # ms"]
    by (simp add: inject_soft_interrupts_def Cons fold_flush_runs del: source_runs.simps)
qed (simp add: inject_soft_interrupts_def)

text \<open>Nothing is lost and nothing changes its place.\<close>

lemma concat_source_runs: "concat (source_runs ms) = ms"
  by (induction ms rule: source_runs.induct) simp_all

section \<open>A response sent again\<close>

definition forget_usage :: "gathered \<Rightarrow> gathered" where
  "forget_usage g =
     g\<lparr>usage_input := None, usage_output := None, usage_cache_read := None, usage_cache_creation := None\<rparr>"

definition uneventful :: "rstr + stream_event \<Rightarrow> bool" where
  "uneventful e =
     (case e of
        Inl _ \<Rightarrow> False
      | Inr (Stream_Error _ _) \<Rightarrow> False
      | Inr (Session_Id _) \<Rightarrow> False
      | Inr _ \<Rightarrow> True)"

definition same_answer :: "gathered \<Rightarrow> gathered \<Rightarrow> bool" where
  "same_answer g h = (forget_usage g = forget_usage h)"

lemma same_answer_fields:
  "same_answer g h \<longleftrightarrow>
     said g = said h \<and> calls g = calls h \<and> open_call g = open_call h \<and> open_input g = open_input h
     \<and> sdk_results g = sdk_results h \<and> image_contexts g = image_contexts h \<and> thought g = thought h
     \<and> thought_signature g = thought_signature h \<and> reasoning_items g = reasoning_items h
     \<and> native_state g = native_state h \<and> saw_message_end g = saw_message_end h \<and> stop_reason g = stop_reason h"
  by (cases g; cases h) (simp add: same_answer_def forget_usage_def)

lemma same_answer_event: "same_answer g h \<Longrightarrow> same_answer (gather_event env n ev g) (gather_event env n ev h)"
  by (auto simp: same_answer_fields gather_event_def end_tool_use_def roll_back_def add_usage_def Let_def
      split: stream_event.split option.split)

lemma same_answer_roll_back: "same_answer (roll_back g) nothing_gathered"
  by (simp add: same_answer_fields roll_back_def nothing_gathered_def)

lemma gather_same:
  assumes "same_answer g h"
  shows "fst (gather env n es g sid) = fst (gather env n es h sid)
    \<and> snd (snd (gather env n es g sid)) = snd (snd (gather env n es h sid))
    \<and> same_answer (fst (snd (gather env n es g sid))) (fst (snd (gather env n es h sid)))"
  using assms
proof (induction es arbitrary: g h sid)
  case (Cons e es)
  have "saw_message_end g = saw_message_end h"
    using Cons.prems by (simp add: same_answer_fields)
  then show ?case
    using Cons.IH [OF Cons.prems] Cons.IH [OF same_answer_event [OF Cons.prems]] Cons.prems
    by (cases e; (cases "projr e")?) simp_all
qed simp

lemma gather_skips:
  assumes "\<forall>e\<in>set pre. uneventful e"
  shows "\<exists>h. gather env n (pre @ es) g sid = gather env n es h sid"
  using assms
proof (induction pre arbitrary: g)
  case (Cons e pre)
  then show ?case
    by (cases e; (cases "projr e")?) (simp_all add: uneventful_def)
qed auto

lemma gather_after_rollback:
  assumes "\<forall>e\<in>set pre. uneventful e"
  shows "let (e1, g1, i1) = gather env n (pre @ Inr (Retry_Rollback k m) # post) nothing_gathered sid;
             (e2, g2, i2) = gather env n post nothing_gathered sid
         in e1 = e2 \<and> i1 = i2 \<and> forget_usage g1 = forget_usage g2"
proof -
  obtain h where "gather env n (pre @ Inr (Retry_Rollback k m) # post) nothing_gathered sid = gather env n post (roll_back h) sid"
    using gather_skips [OF assms, of env n "Inr (Retry_Rollback k m) # post" nothing_gathered sid] by (auto simp: gather_event_def)
  then show ?thesis
    using gather_same [OF same_answer_roll_back [of h], of env n post sid]
    by (auto simp: same_answer_def split: prod.split)
qed

section \<open>The answers of the calls\<close>

definition servable :: "turn_env \<Rightarrow> agent_call \<Rightarrow> bool" where
  "servable env c = (validation_error c \<noteq> None \<or> tool_allowed env (ac_name c))"

lemma stored_results_answer: "stored_results \<lparr>stored_id = i, stored_role = User, stored_content = ToolResult c t e # bs, stored_display = d\<rparr>
    = c # map fst (List.map_filter block_result bs)"
  by (simp add: stored_results_def map_filter_simps)

lemma image_blocks_results: "List.map_filter block_result (image_blocks img) = []"
  by (auto simp: image_blocks_def map_filter_simps split: prod.split option.split)

lemma map_filter_app: "List.map_filter f (xs @ ys) = List.map_filter f xs @ List.map_filter f ys"
  by (simp add: List.map_filter_def)

lemma output_blocks_results: "List.map_filter block_result (concat (map image_blocks imgs)) = []"
  by (induction imgs) (simp_all add: map_filter_app image_blocks_results map_filter_simps)

lemma call_answer_results:
  "result_list (transcript (add_message env User (fst (call_answer env sdk c a)) d b))
   = result_list (transcript b) @ [ac_id c]"
  by (auto simp: result_list_def add_message_def call_answer_def Let_def stored_results_answer output_blocks_results
      tool_output_to_content_blocks_def map_filter_simps split: option.split sum.split)

lemma run_tools_answers:
  "result_list (transcript (snd (run_tools env sdk cs a)))
     = result_list (transcript a) @ map ac_id (takeWhile (servable env) cs)
   \<and> fst (run_tools env sdk cs a)
     = (case dropWhile (servable env) cs of [] \<Rightarrow> None | c # _ \<Rightarrow> Some (Tool_Refused (ac_name c)))"
proof (induction cs arbitrary: sdk a)
  case (Cons c cs)
  have refused: "result_list (transcript (add_message env User [ToolResult (ac_id c) e f] None a))
      = result_list (transcript a) @ [ac_id c]" for e f
    by (simp add: result_list_def add_message_def stored_results_answer map_filter_simps)
  obtain bs sdk' where answer: "call_answer env sdk c a = (bs, sdk')"
    by fastforce
  then have served: "result_list (transcript (add_message env User bs None a)) = result_list (transcript a) @ [ac_id c]"
    using call_answer_results [of env sdk c a None a] by simp
  show ?case
    using Cons.IH by (simp add: servable_def refused served answer split: option.split)
qed simp

section \<open>A call written as text\<close>

lemma name_char_plain: "is_tool_name_char c \<Longrightarrow> plain_char c"
  by (auto simp: is_tool_name_char_def plain_char_def is_ascii_digit_def ws1_def byte_def)

lemma name_not_blank: "name \<noteq> [] \<Longrightarrow> list_all is_tool_name_char name \<Longrightarrow> trim name \<noteq> []"
  using trim_keeps_plain [of name "[]"] by (auto simp: list.pred_mono_strong name_char_plain)

lemma scan_objects_object:
  "scan_objects rd s fallback = Some (v, rest) \<Longrightarrow>
   (\<forall>v r. fallback = Some (v, r) \<longrightarrow> is_json_object v) \<Longrightarrow> is_json_object v"
  by (induction s arbitrary: fallback) (auto simp: Let_def split: if_splits option.splits)

lemma recovered_valid: "list_all (\<lambda>c. validation_error c = None) (snd (recover_text_wrapped_tool_call rd k s []))"
proof (cases "parse_text_wrapped_tool_call rd s")
  case (Some p)
  obtain front name v rest where p: "p = (front, name, v, rest)"
    by (cases p)
  then have name: "name \<noteq> []" "list_all is_tool_name_char name" and "is_json_object v"
    using Some by (auto simp: parse_text_wrapped_tool_call_def Let_def list_all_iff dest: set_takeWhileD
        split: option.splits if_splits intro: scan_objects_object)
  then show ?thesis
    using name_not_blank [OF name] Some p
    by (auto simp: recover_text_wrapped_tool_call_def validation_error_def)
qed (simp add: recover_text_wrapped_tool_call_def)

section \<open>What can be retried without end\<close>

text \<open>An error in the middle of a stream, after which the compaction reports that it made room.\<close>

definition broken_round :: "rstr \<Rightarrow> round" where
  "broken_round e =
     \<lparr>cancelled = False, in_flight = (\<lambda>i. False), arriving = [], request = (\<lambda>t. ([], False)),
       make_room = (\<lambda>e t. Some t), answer = Opened [Inl e]\<rparr>"

lemma broken_round_again: "\<exists>s'. run_round env (broken_round e) s = Again s'"
  by (auto simp: run_round_def broken_round_def receive_def retry_or_fail_def ask_def MAX_CONTEXT_LIMIT_RETRIES_def Let_def)

lemma broken_rounds_wait: "\<exists>s'. run_turn env (replicate k (broken_round e)) s = Waiting s'"
proof (induction k arbitrary: s)
  case (Suc k)
  obtain s1 where "run_round env (broken_round e) s = Again s1"
    using broken_round_again by blast
  then show ?case
    using Suc.IH [of s1] by simp
qed simp

text \<open>A request that is not opened is given up after as many attempts as the limit says.\<close>

definition refused_round :: "rstr \<Rightarrow> round" where
  "refused_round e = (broken_round e)\<lparr>answer := Not_Opened e\<rparr>"

lemma refused_round_end:
  "\<exists>s'. context_limit_retries s' = Suc (context_limit_retries s)
     \<and> run_round env (refused_round e) s
       = (if MAX_CONTEXT_LIMIT_RETRIES \<le> context_limit_retries s then Turn_Failed Context_Exhausted s' else Again s')"
  by (auto simp: run_round_def broken_round_def refused_round_def retry_or_fail_def ask_def Let_def)

lemma refused_rounds_fail:
  assumes "context_limit_retries s \<le> MAX_CONTEXT_LIMIT_RETRIES" and "MAX_CONTEXT_LIMIT_RETRIES < context_limit_retries s + k"
  shows "\<exists>s'. run_turn env (replicate k (refused_round e)) s = Failed Context_Exhausted s'"
  using assms
proof (induction k arbitrary: s)
  case (Suc k)
  obtain s1 where "context_limit_retries s1 = Suc (context_limit_retries s)"
    and "run_round env (refused_round e) s
       = (if MAX_CONTEXT_LIMIT_RETRIES \<le> context_limit_retries s then Turn_Failed Context_Exhausted s1 else Again s1)"
    using refused_round_end by blast
  then show ?case
    using Suc.IH [of s1] Suc.prems by simp
qed simp

section \<open>Properties\<close>

text \<open>A session with a call that was interrupted, in surroundings without tools.\<close>

definition plain_env :: turn_env where
  "plain_env =
     \<lparr>fresh_id = (\<lambda>k. ''message'' @ replicate k CHR ''x''), can_save = (\<lambda>t. True), model_name = ''m'', provider_name = ''p'',
       preserve_reasoning = False, image_input = False, handles_tools_internally = False, batch_available = False, stamped = (\<lambda>ms. ms),
       parse_json = (\<lambda>s. None), json_at = (\<lambda>s. None), call_suffix = (\<lambda>k. []), visual_context = (\<lambda>i. None),
       tool_allowed = (\<lambda>n. True), execute_tool = (\<lambda>a c. Inl ''no tool'')\<rparr>"

definition interrupted_agent :: agent where
  "interrupted_agent =
     \<lparr>transcript = [\<lparr>stored_id = ''m1'', stored_role = Assistant, stored_content = [ToolUse ''c1'' ''bash'' (JObject []) None],
                     stored_display = None\<rparr>],
       tool_call_ids = {}, tool_result_ids = {}, scan_index = 0, soft_queue = [], ids_made = 0, provider_session = None\<rparr>"

lemma interrupted_well_tracked: "well_tracked interrupted_agent"
  by (simp add: well_tracked_def in_step_def interrupted_agent_def)

text \<open>
  Whatever a turn meets, every request it sends has a result for each call of the transcript,
  as long as no tool is still running elsewhere and the compaction leaves calls and results alone.
\<close>

theorem every_request_is_answered:
  assumes "well_tracked (worker s)" and "list_all (\<lambda>r. (\<forall>i. \<not> in_flight r i) \<and> keeps_results r) rs"
  shows "list_all all_answered (requests env rs s)"
  using requests_answered [of s rs env] assms by (simp add: list_all_iff)

theorem every_request_is_answered_witness:
  "\<not> all_answered (transcript interrupted_agent)
   \<and> list_all all_answered (requests plain_env [broken_round ''e'', refused_round ''e''] (new_turn interrupted_agent))"
proof
  show "\<not> all_answered (transcript interrupted_agent)"
    by (simp add: all_answered_def interrupted_agent_def stored_calls_def stored_results_def map_filter_simps)
  have "well_tracked (worker (new_turn interrupted_agent))"
    by (simp add: new_turn_def interrupted_well_tracked)
  then show "list_all all_answered (requests plain_env [broken_round ''e'', refused_round ''e''] (new_turn interrupted_agent))"
    by (rule every_request_is_answered) (simp add: broken_round_def refused_round_def keeps_results_def)
qed

text \<open>
  The repair never gives a call a second result: if no id is called twice and none has two
  results, none has two afterwards, whatever tools are running.
\<close>

theorem repair_gives_no_second_result:
  assumes "well_tracked a" and "distinct (call_list (transcript a))" and "distinct (result_list (transcript a))"
  shows "distinct (result_list (transcript (repair_missing_tool_outputs env p a)))"
  using assms by (rule repair_distinct)

theorem repair_gives_no_second_result_witness:
  "distinct (result_list (transcript (repair_missing_tool_outputs plain_env (\<lambda>i. False) interrupted_agent)))"
  by (rule repair_gives_no_second_result)
    (simp_all add: interrupted_well_tracked, simp_all add: interrupted_agent_def call_list_def result_list_def stored_calls_def
      stored_results_def map_filter_simps)

text \<open>
  C7: A turn ends: one that is still waiting has met at most eleven rounds (three reconsiderations,
  five empty answers, three continuations) beside those that brought calls, images or an error.
\<close>

theorem turn_asks_at_most_eleven_times:
  "case run_turn env rs (new_turn a) of
     Waiting s \<Rightarrow> length rs \<le> 11 + busy_rounds env rs (new_turn a)
   | _ \<Rightarrow> True"
proof -
  have "questions_left (new_turn a) = 11"
    by (simp add: questions_left_def new_turn_def FABLE_GUARDRAIL_RECONSIDERATION_PROMPTS_def
        MAX_EMPTY_POST_TOOL_CONTINUATION_ATTEMPTS_def MAX_INCOMPLETE_CONTINUATION_ATTEMPTS_def)
  then show ?thesis
    using waiting_rounds [of env rs "new_turn a"] by (fastforce split: turn_end.split)
qed

text \<open>
  C9: The soft interrupts become one message for each run of the same source, in order, with all
  images and then the joined texts; the queue is cut without loss, and is empty afterwards.
\<close>

theorem interrupts_become_messages:
  "concat (source_runs (soft_queue a)) = soft_queue a
   \<and> inject_soft_interrupts env a
     = (a\<lparr>soft_queue := [],
          transcript := transcript a
            @ map (\<lambda>(k, g). run_message env k g) (enumerate (ids_made a) (source_runs (soft_queue a))),
          ids_made := ids_made a + length (source_runs (soft_queue a))\<rparr>,
        map (\<lambda>g. (run_text g, soft_source (hd g))) (source_runs (soft_queue a)))"
  using concat_source_runs inject_is_runs by blast

text \<open>
  C8: When the provider sends a response again, what was gathered of the first attempt leaves no
  trace but the token counts.
\<close>

theorem retry_starts_over:
  assumes "list_all uneventful pre"
  shows "let (e1, g1, i1) = gather env n (pre @ Inr (Retry_Rollback k m) # post) nothing_gathered sid;
             (e2, g2, i2) = gather env n post nothing_gathered sid
         in e1 = e2 \<and> i1 = i2 \<and> forget_usage g1 = forget_usage g2"
  using gather_after_rollback assms by (simp add: list_all_iff)

theorem retry_starts_over_witness:
  "let (e1, g1, i1) = gather plain_env 0 ([Inr (Text_Delta ''half''), Inr (Tool_Use_Start ''c'' ''bash'')] @ Inr (Retry_Rollback 1 3) # [Inr (Text_Delta ''whole'')])
           nothing_gathered None;
       (e2, g2, i2) = gather plain_env 0 [Inr (Text_Delta ''whole'')] nothing_gathered None
   in e1 = e2 \<and> i1 = i2 \<and> forget_usage g1 = forget_usage g2"
  by (rule retry_starts_over) (simp add: uneventful_def)

text \<open>
  The calls of an answer are served in order up to the first that is refused: each gets exactly
  one result, and the turn fails with the refused one, if there is one.
\<close>

theorem calls_are_answered_in_order:
  "result_list (transcript (snd (run_tools env sdk cs a)))
     = result_list (transcript a) @ map ac_id (takeWhile (servable env) cs)
   \<and> fst (run_tools env sdk cs a)
     = (case dropWhile (servable env) cs of [] \<Rightarrow> None | c # _ \<Rightarrow> Some (Tool_Refused (ac_name c)))"
  by (rule run_tools_answers)

text \<open>
  A call that is recovered from the text is always valid: its name is not blank and its input
  an object, whatever the reader of JSON says.
\<close>

theorem text_calls_are_valid:
  "list_all (\<lambda>c. validation_error c = None) (snd (recover_text_wrapped_tool_call rd k s []))"
  by (rule recovered_valid)

text \<open>
  The limit on retries after a compaction holds for requests that are refused, and not for
  streams that break off: those are retried as often as they break.
\<close>

theorem broken_streams_have_no_limit:
  "(\<exists>s. run_turn env (replicate 6 (refused_round e)) (new_turn a) = Failed Context_Exhausted s)
   \<and> (\<forall>k. \<exists>s. run_turn env (replicate k (broken_round e)) (new_turn a) = Waiting s)"
  using refused_rounds_fail [of "new_turn a" 6] broken_rounds_wait
  by (simp add: new_turn_def MAX_CONTEXT_LIMIT_RETRIES_def)

section \<open>Three corners\<close>

text \<open>A call that was running at one repair is not looked at by the next, though it has ended without a result.\<close>

lemma running_calls_are_passed_over:
  "\<not> all_answered (transcript (repair_missing_tool_outputs plain_env (\<lambda>i. False)
        (repair_missing_tool_outputs plain_env (\<lambda>i. i = ''c1'') interrupted_agent)))"
  by (simp add: all_answered_def interrupted_agent_def stored_calls_def stored_results_def map_filter_simps
      repair_missing_tool_outputs_def note_results_def note_calls_def missing_outputs_def unscanned_def Let_def)

text \<open>A tool result anywhere in the history counts as one at its end.\<close>

lemma old_results_count:
  "messages_end_with_tool_result
     [\<lparr>role_of = User, content_of = [ToolResult ''c1'' ''ok'' None]\<rparr>,
      \<lparr>role_of = Assistant, content_of = [Text ''done'' None]\<rparr>,
      \<lparr>role_of = User, content_of = [Text ''hello'' None]\<rparr>]"
  by (simp add: messages_end_with_tool_result_def block_is_result_def)

text \<open>An interrupt without text and images becomes a message without content.\<close>

lemma empty_interrupt_empty_message:
  "transcript (fst (inject_soft_interrupts env (queue_soft_interrupt [] [] False soft_interrupt_source.User (a\<lparr>soft_queue := []\<rparr>))))
   = transcript a @ [\<lparr>stored_id = fresh_id env (ids_made a), stored_role = User, stored_content = [], stored_display = None\<rparr>]"
  by (simp add: inject_is_runs queue_soft_interrupt_def run_message_def run_text_def session_display_role_def)

end
