(* ===== verification/Agent_Live.thy ===== *)
theory Agent_Live
  imports Agent_Turn
begin

text \<open>
  The loop of a turn that streams to a client, \<open>run_turn_streaming_mpsc\<close> in
  \<open>crates/kcode-app-core/src/agent/turn_streaming_mpsc.rs\<close>. It gathers, repairs and continues as the
  blocking loop does, and beside that it sends events to the client, can be cancelled at every
  wait, injects interrupts at its points B, C and D, and can leave a tool running or give it up.
  The keepalives, which depend on the clock alone, are left out.
\<close>

section \<open>Markers of a call written as text\<close>

definition floor_char_boundary :: "rstr \<Rightarrow> nat \<Rightarrow> nat" where
  "floor_char_boundary s index = (if length s \<le> index then length s else boundary_below s index)"

definition WRAP_TOOL_MARKERS :: "rstr list" where
  "WRAP_TOOL_MARKERS = [''to=functions.'', ''+#+#'']"

definition min_position :: "nat list \<Rightarrow> nat option" where
  "min_position ps = (if ps = [] then None else Some (fold min ps (hd ps)))"

definition find_wrap_marker_incremental :: "rstr \<Rightarrow> nat \<Rightarrow> nat option" where
  "find_wrap_marker_incremental accumulated appended_len =
     (let max_marker_len = fold max (map length WRAP_TOOL_MARKERS) 0;
          scan_start = floor_char_boundary accumulated (length accumulated - (appended_len + (max_marker_len - 1)));
          window = drop scan_start accumulated
      in map_option (\<lambda>k. scan_start + k) (min_position (List.map_filter (find_sub window) WRAP_TOOL_MARKERS)))"

definition reload_interrupted_tool_result :: "(json \<Rightarrow> rstr) \<Rightarrow> agent_call \<Rightarrow> rstr \<Rightarrow> rstr \<times> bool" where
  "reload_interrupted_tool_result json_text c elapsed =
     (if ac_name c = ''selfdev'' then (''Reload initiated. Process restarting...'', False)
      else
        let action = (case ac_input c of
                        JObject m \<Rightarrow> (case map_of m ''action'' of Some (JString s) \<Rightarrow> s | _ \<Rightarrow> [])
                      | _ \<Rightarrow> []);
            quoted = [CHR 0x27] @ ac_name c @ [CHR 0x27]
        in if ac_name c = ''bg'' \<and> action = ''wait''
           then (''[Tool '' @ quoted @ '' wait interrupted by server reload after '' @ elapsed
                  @ ''s. The underlying operation may still be running. Resume the wait by rerunning the same tool call with input: ''
                  @ json_text (ac_input c) @ '']'', False)
           else (''[Tool '' @ quoted @ '' interrupted by server reload after '' @ elapsed @ ''s]'', True))"

section \<open>What the client is sent\<close>

datatype server_event =
  Sent_Text rstr
| Sent_Text_Replace rstr
| Sent_Reasoning rstr
| Sent_Reasoning_Done bool
| Sent_Tool_Start rstr rstr
| Sent_Tool_Input rstr
| Sent_Tool_Exec rstr rstr
| Sent_Tool_Done rstr rstr rstr "rstr option"
| Sent_Image generated_image
| Sent_Side_Images "side_pane_image list"
| Sent_Connection_Type rstr
| Sent_Phase rstr
| Sent_Status rstr
| Sent_Rollback nat nat
| Sent_Message_End "rstr option"
| Sent_Upstream rstr
| Sent_Compaction rstr "nat option" "nat option"
| Sent_Compacted
| Sent_Cache_Request
| Sent_Usage nat nat "nat option" "nat option"
| Sent_Model_Changed rstr
| Sent_Interrupt injected_event
| Sent_Guardrail "rstr option" rstr

section \<open>Gathering a response\<close>

record live_view =
  got :: gathered
  wrapped :: bool
  reasoning_open :: bool
  tool_names :: "rstr \<rightharpoonup> rstr"
  native_pre :: "nat option"
  to_client :: "server_event list"

definition nothing_seen :: live_view where
  "nothing_seen =
     \<lparr>got = nothing_gathered, wrapped = False, reasoning_open = False, tool_names = Map.empty, native_pre = None,
       to_client = []\<rparr>"

definition send :: "server_event \<Rightarrow> live_view \<Rightarrow> live_view" where
  "send e l = l\<lparr>to_client := to_client l @ [e]\<rparr>"

definition close_reasoning :: "bool \<Rightarrow> live_view \<Rightarrow> live_view" where
  "close_reasoning timed l =
     (if reasoning_open l then send (Sent_Reasoning_Done timed) (l\<lparr>reasoning_open := False\<rparr>) else l)"

text \<open>A piece of text that has been gathered is shown, unless a marker was seen before it.\<close>

definition show_delta :: "rstr \<Rightarrow> live_view \<Rightarrow> live_view" where
  "show_delta s l =
     (if wrapped l then l
      else case find_wrap_marker_incremental (said (got l)) (length s) of
             Some k \<Rightarrow> send (Sent_Text_Replace (trim_end (take k (said (got l))))) (l\<lparr>wrapped := True\<rparr>)
           | None \<Rightarrow> send (Sent_Text s) l)"

definition live_step ::
  "turn_env \<Rightarrow> (generated_image \<Rightarrow> side_pane_image option) \<Rightarrow> nat \<Rightarrow> stream_event \<Rightarrow> live_view \<Rightarrow> live_view" where
  "live_step env rendered n ev l =
     (let l' = l\<lparr>got := gather_event env n ev (got l)\<rparr> in
      case ev of
        Thinking_Start \<Rightarrow> send (Sent_Phase ''streaming'') l'
      | Thinking_Delta s \<Rightarrow> if s = [] then l' else send (Sent_Reasoning s) (l'\<lparr>reasoning_open := True\<rparr>)
      | Thinking_Done \<Rightarrow> close_reasoning True l'
      | Text_Delta s \<Rightarrow> show_delta s (if trim s = [] then l' else close_reasoning False l')
      | Tool_Use_Start i name \<Rightarrow>
          (send (Sent_Tool_Start i name) (close_reasoning False l'))\<lparr>tool_names := (tool_names l)(i \<mapsto> name)\<rparr>
      | Tool_Input_Delta s \<Rightarrow> send (Sent_Tool_Input s) l'
      | Tool_Use_End \<Rightarrow>
          (case open_call (got l) of None \<Rightarrow> l' | Some c \<Rightarrow> send (Sent_Tool_Exec (ac_id c) (ac_name c)) l')
      | Provider_Tool_Result i c failed \<Rightarrow>
          send (Sent_Tool_Done i (case tool_names l i of Some name \<Rightarrow> name | None \<Rightarrow> []) c
                  (if failed then Some ''Tool error'' else None)) l'
      | Generated_Image img \<Rightarrow>
          (case rendered img of
             Some picture \<Rightarrow> send (Sent_Side_Images [picture]) (send (Sent_Image img) l')
           | None \<Rightarrow> send (Sent_Image img) l')
      | Connection_Type c \<Rightarrow> send (Sent_Connection_Type c) l'
      | Connection_Phase p \<Rightarrow> send (Sent_Phase p) l'
      | Status_Detail d \<Rightarrow> send (Sent_Status d) l'
      | Upstream_Provider p \<Rightarrow> send (Sent_Upstream p) l'
      | Retry_Rollback attempt attempts \<Rightarrow>
          send (Sent_Phase (''retrying ('' @ decimal attempt @ ''/'' @ decimal attempts @ '')''))
            (send (Sent_Rollback attempt attempts)
               (l'\<lparr>wrapped := False, reasoning_open := False, tool_names := Map.empty, native_pre := None\<rparr>))
      | Message_End r \<Rightarrow> send (Sent_Message_End (stop_reason (got l'))) (close_reasoning False l')
      | Compaction_Event pre enc \<Rightarrow>
          if enc \<noteq> None \<and> native_state (got l) = None then l'\<lparr>native_pre := pre\<rparr> else l'
      | _ \<Rightarrow> l')"

definition INTERRUPTED_NOTICE :: rstr where
  "INTERRUPTED_NOTICE = [CHR 0x0A, CHR 0x0A] @ ''[generation interrupted - server reloading]''"

definition interrupt_text :: "live_view \<Rightarrow> live_view" where
  "interrupt_text l = send (Sent_Text INTERRUPTED_NOTICE) (l\<lparr>got := (got l)\<lparr>said := said (got l) @ INTERRUPTED_NOTICE\<rparr>\<rparr>)"

text \<open>
  What the wait for the stream yields: something from the provider, with whether a shutdown is
  pending when that is asked behind a piece of text, or the signal of a shutdown.
\<close>

datatype live_item = From_Provider bool "rstr + stream_event" | Shutdown_Signalled

fun live_gather ::
  "turn_env \<Rightarrow> (generated_image \<Rightarrow> side_pane_image option) \<Rightarrow> nat \<Rightarrow> live_item list \<Rightarrow> live_view \<Rightarrow> rstr option
   \<Rightarrow> stream_end \<times> live_view \<times> rstr option" where
  "live_gather env rendered n [] l sid = (Stream_Over, l, sid)"
| "live_gather env rendered n (Shutdown_Signalled # items) l sid = (Stream_Over, l, sid)"
| "live_gather env rendered n (From_Provider stop (Inl e) # items) l sid = (Stream_Broken e (Provider_Error e None), l, sid)"
| "live_gather env rendered n (From_Provider stop (Inr (Stream_Error m after)) # items) l sid =
     (Stream_Broken m (Provider_Error m after), l, sid)"
| "live_gather env rendered n (From_Provider stop (Inr (Session_Id i)) # items) l sid =
     live_gather env rendered n items l (Some i)"
| "live_gather env rendered n (From_Provider stop (Inr (Text_Delta s)) # items) l sid =
     (let l' = live_step env rendered n (Text_Delta s) l
      in if stop then (Stream_Over, interrupt_text l', sid) else live_gather env rendered n items l' sid)"
| "live_gather env rendered n (From_Provider stop (Inr ev) # items) l sid =
     live_gather env rendered n items (live_step env rendered n ev l) sid"

section \<open>Running the tools\<close>

text \<open>How the wait for a tool ends: with its result, by a reload of the server, or in the background.\<close>

datatype tool_wait = Tool_Finished "rstr + turn_output" | Reload_Interrupted rstr | Moved_To_Background rstr

datatype shutdown_check = Before_Fable | Before_Empty | Before_Notice | Before_Tools

datatype live_answer = Cancelled_First | Request_Refused rstr | Streaming "live_item list"

record live_round =
  surroundings :: round
  live_answer_of :: live_answer
  rendered_image :: "generated_image \<Rightarrow> side_pane_image option"
  shutdown_pending :: "shutdown_check \<Rightarrow> bool"
  switched_model :: "rstr option"
  json_text :: "json \<Rightarrow> rstr"
  queued_before :: "nat \<Rightarrow> soft_interrupt_message list"
  tool_waits :: "nat \<Rightarrow> agent \<Rightarrow> tool_wait"

definition arrive :: "soft_interrupt_message list \<Rightarrow> agent \<Rightarrow> agent" where
  "arrive ms a = a\<lparr>soft_queue := soft_queue a @ ms\<rparr>"

definition answer_call :: "turn_env \<Rightarrow> agent_call \<Rightarrow> rstr \<Rightarrow> bool option \<Rightarrow> agent \<Rightarrow> agent" where
  "answer_call env c s failed a = add_message env User [ToolResult (ac_id c) s failed] None a"

definition skip_calls :: "turn_env \<Rightarrow> rstr \<Rightarrow> agent_call list \<Rightarrow> agent \<Rightarrow> agent" where
  "skip_calls env s cs a = fold (\<lambda>c. answer_call env c s (Some True)) cs a"

definition interrupt_events :: "injected \<Rightarrow> rstr \<Rightarrow> nat option \<Rightarrow> server_event list" where
  "interrupt_events injected point skipped = map Sent_Interrupt (build_soft_interrupt_events injected point skipped)"

text \<open>Point C: an urgent interrupt skips the calls that are left.\<close>

definition skip_for_interrupt :: "turn_env \<Rightarrow> agent_call list \<Rightarrow> agent \<Rightarrow> server_event list \<times> agent" where
  "skip_for_interrupt env cs a =
     (case inject_soft_interrupts env (skip_calls env ''[Skipped: user interrupted]'' cs a) of
        (b, injected) \<Rightarrow>
          if injected = [] then ([], b)
          else (interrupt_events injected ''C'' (Some (length cs)),
                add_message env User
                  [Text (''[User interrupted: '' @ decimal (length cs) @ '' remaining tool(s) skipped]'') None] None b))"

datatype tools_end =
  Tools_Done bool agent
| Tools_Refused rstr agent
| Tools_Given_Up agent
| Tools_Not_Saved agent

definition BACKGROUND_NOTE :: "rstr \<Rightarrow> rstr \<Rightarrow> rstr" where
  "BACKGROUND_NOTE name task =
     ''Tool '' @ [CHR 0x27] @ name @ [CHR 0x27] @ '' was moved to background by the user (task_id: '' @ task
     @ ''). Use the `bg` tool with action '' @ [CHR 0x27] @ ''wait'' @ [CHR 0x27]
     @ '' to wait for completion/checkpoints, or action '' @ [CHR 0x27] @ ''status'' @ [CHR 0x27] @ ''/''
     @ [CHR 0x27] @ ''output'' @ [CHR 0x27] @ '' to inspect it.''"

text \<open>One call that is run here; \<open>Inl\<close> when the server is reloaded meanwhile.\<close>

definition run_live_call ::
  "turn_env \<Rightarrow> live_round \<Rightarrow> nat \<Rightarrow> agent_call \<Rightarrow> agent \<Rightarrow> server_event list \<times> (agent + bool \<times> agent)" where
  "run_live_call env r k c a =
     (case tool_waits r k a of
        Tool_Finished (Inr out0) \<Rightarrow>
          let out = cap_tool_output_for_history (ac_name c) out0;
              pictures = tool_output_side_pane_images (ac_id c) (ac_name c) (ac_input c) out
          in (Sent_Tool_Done (ac_id c) (ac_name c) (out_text out) None
                # (if pictures = [] then [] else [Sent_Side_Images pictures]),
              Inr (True, add_message env User (tool_output_to_content_blocks (ac_id c) out) None a))
      | Tool_Finished (Inl e) \<Rightarrow>
          ([Sent_Tool_Done (ac_id c) (ac_name c) (''Error: '' @ e) (Some (''Error: '' @ e))],
           Inr (True, answer_call env c (''Error: '' @ e) (Some True) a))
      | Reload_Interrupted elapsed \<Rightarrow>
          (case reload_interrupted_tool_result (json_text r) c elapsed of
             (s, failed) \<Rightarrow>
               ([Sent_Tool_Done (ac_id c) (ac_name c) s (if failed then Some ''interrupted by reload'' else None)],
                Inl (answer_call env c s (Some failed) a)))
      | Moved_To_Background task \<Rightarrow>
          ([Sent_Tool_Done (ac_id c) (ac_name c) (BACKGROUND_NOTE (ac_name c) task) None],
           Inr (False, answer_call env c (BACKGROUND_NOTE (ac_name c) task) None a)))"

text \<open>A call the provider has answered, unless its failure is to be tried here.\<close>

definition sdk_answer :: "(rstr \<rightharpoonup> rstr \<times> bool) \<Rightarrow> agent_call \<Rightarrow> (rstr \<times> bool) option" where
  "sdk_answer sdk c =
     (case sdk (ac_id c) of
        Some (s, failed) \<Rightarrow> if ac_name c \<in> set KCODE_NATIVE_TOOLS \<and> failed then None else Some (s, failed)
      | None \<Rightarrow> None)"

fun run_live_tools ::
  "turn_env \<Rightarrow> live_round \<Rightarrow> nat \<Rightarrow> agent_call list \<Rightarrow> (rstr \<rightharpoonup> rstr \<times> bool) \<Rightarrow> bool \<Rightarrow> agent
   \<Rightarrow> server_event list \<times> tools_end" where
  "run_live_tools env r k [] sdk unsaved a = ([], Tools_Done unsaved a)"
| "run_live_tools env r k (c # cs) sdk unsaved a0 =
     (let a = arrive (queued_before r k) a0;
          rest = (\<lambda>sent sdk unsaved b. case run_live_tools env r (Suc k) cs sdk unsaved b of (es, e) \<Rightarrow> (sent @ es, e))
      in if 0 < k \<and> has_urgent_interrupt a
         then (case skip_for_interrupt env (c # cs) a of (es, b) \<Rightarrow> (es, Tools_Done unsaved b))
         else case validation_error c of
           Some e \<Rightarrow> rest [Sent_Tool_Done (ac_id c) (ac_name c) e (Some e)] sdk True (answer_call env c e (Some True) a)
         | None \<Rightarrow>
             if \<not> tool_allowed env (ac_name c) then ([], Tools_Refused (ac_name c) a)
             else case sdk_answer sdk c of
               Some (s, failed) \<Rightarrow>
                 rest [] (sdk(ac_id c := None)) True
                   (answer_call env c (cap_sdk_tool_content_for_history (ac_name c) s) (if failed then Some True else None) a)
             | None \<Rightarrow>
                 (case run_live_call env r k c a of
                    (es, Inl b) \<Rightarrow>
                      let b' = skip_calls env ''[Skipped - server reloading]'' cs b
                      in (es, if \<not> can_save env (transcript b) then Tools_Not_Saved b
                              else if \<not> can_save env (transcript b') then Tools_Not_Saved b' else Tools_Given_Up b')
                  | (es, Inr (True, b)) \<Rightarrow> rest es (sdk(ac_id c := None)) True b
                  | (es, Inr (False, b)) \<Rightarrow>
                      if can_save env (transcript b) then rest es (sdk(ac_id c := None)) unsaved b
                      else (es, Tools_Not_Saved b)))"

section \<open>A round\<close>

datatype live_end =
  Live_Again loop_state
| Live_Finished loop_state
| Live_Failed turn_error loop_state
| Live_Panicked loop_state

definition live_save :: "turn_env \<Rightarrow> loop_state \<Rightarrow> server_event list \<times> live_end \<Rightarrow> server_event list \<times> live_end" where
  "live_save env s next_end = (if can_save env (transcript (worker s)) then next_end else ([], Live_Failed Session_Not_Saved s))"

definition sending :: "server_event list \<Rightarrow> server_event list \<times> live_end \<Rightarrow> server_event list \<times> live_end" where
  "sending es r = (es @ fst r, snd r)"

definition show_live_images :: "turn_env \<Rightarrow> gathered \<Rightarrow> loop_state \<Rightarrow> server_event list \<times> live_end" where
  "show_live_images env g ls =
     (let ls' = ls\<lparr>worker := add_image_contexts env (image_contexts g) (worker ls)\<rparr>
      in live_save env ls' ([], Live_Again ls'))"

text \<open>Points D and B: the interrupts are injected, and the client told.\<close>

definition inject_at :: "turn_env \<Rightarrow> rstr \<Rightarrow> loop_state \<Rightarrow> server_event list \<times> bool \<times> loop_state" where
  "inject_at env point ls =
     (case inject_soft_interrupts env (worker ls) of
        (a, injected) \<Rightarrow> (interrupt_events injected point None, injected \<noteq> [], ls\<lparr>worker := a\<rparr>))"

definition finish_live_round :: "turn_env \<Rightarrow> gathered \<Rightarrow> loop_state \<Rightarrow> server_event list \<times> live_end" where
  "finish_live_round env g ls =
     (let ls' = ls\<lparr>worker := add_image_contexts env (image_contexts g) (worker ls)\<rparr>;
          go_on = (\<lambda>s. case inject_at env ''D'' s of (es, some, s') \<Rightarrow> (es, Live_Again s'))
      in if image_contexts g = [] then go_on ls else live_save env ls' (go_on ls'))"

definition run_live_calls ::
  "turn_env \<Rightarrow> live_round \<Rightarrow> agent_call list \<Rightarrow> gathered \<Rightarrow> loop_state \<Rightarrow> server_event list \<times> live_end" where
  "run_live_calls env r cs g ls =
     (case run_live_tools env r 0 cs (sdk_results g) False (worker ls) of
        (es, Tools_Done unsaved a) \<Rightarrow>
          let ls' = ls\<lparr>worker := a\<rparr>
          in sending es (if unsaved then live_save env ls' (finish_live_round env g ls') else finish_live_round env g ls')
      | (es, Tools_Refused name a) \<Rightarrow> (es, Live_Failed (Tool_Refused name) (ls\<lparr>worker := a\<rparr>))
      | (es, Tools_Given_Up a) \<Rightarrow> (es, Live_Finished (ls\<lparr>worker := a\<rparr>))
      | (es, Tools_Not_Saved a) \<Rightarrow> (es, Live_Failed Session_Not_Saved (ls\<lparr>worker := a\<rparr>)))"

text \<open>No call is left: the recoveries, then point B, then a notice when the provider has stopped the answer.\<close>

definition live_no_calls :: "turn_env \<Rightarrow> live_round \<Rightarrow> rstr \<Rightarrow> gathered \<Rightarrow> loop_state \<Rightarrow> server_event list \<times> live_end" where
  "live_no_calls env r s g ls =
     (case handle_streaming_no_tool_calls env (stop_reason g) (incomplete_continuations ls) (worker ls) of
        (None, k, a) \<Rightarrow> ([], Live_Failed Session_Not_Saved (ls\<lparr>worker := a, incomplete_continuations := k\<rparr>))
      | (Some Continue_Without_Event, k, a) \<Rightarrow> ([], Live_Again (ls\<lparr>worker := a, incomplete_continuations := k\<rparr>))
      | (Some (Continue_With_Soft_Interrupt injected point), k, a) \<Rightarrow>
          (interrupt_events injected point None, Live_Again (ls\<lparr>worker := a, incomplete_continuations := k\<rparr>))
      | (Some Break_Turn, k, a) \<Rightarrow>
          ((if saw_message_end g \<and> \<not> shutdown_pending r Before_Notice
            then (case provider_guardrail_notice (stop_reason g) (trim s = []) (trim (thought g) \<noteq> []) of
                    Some notice \<Rightarrow> [Sent_Guardrail (stop_reason g) notice]
                  | None \<Rightarrow> [])
            else []),
           Live_Finished (ls\<lparr>worker := a, incomplete_continuations := k\<rparr>)))"

definition live_end_of_turn ::
  "turn_env \<Rightarrow> live_round \<Rightarrow> bool \<Rightarrow> rstr \<Rightarrow> gathered \<Rightarrow> loop_state \<Rightarrow> server_event list \<times> live_end" where
  "live_end_of_turn env r recent_result s g ls =
     (case if saw_message_end g \<and> \<not> shutdown_pending r Before_Fable
           then maybe_reconsider_fable_guardrail env (model_name env) (stop_reason g)
                  (fable_guardrail_reconsiderations ls) (worker ls)
           else Not_Continued of
        Continued a n \<Rightarrow> ([], Live_Again (ls\<lparr>worker := a, fable_guardrail_reconsiderations := n\<rparr>))
      | Save_Failed a n \<Rightarrow> ([], Live_Failed Session_Not_Saved (ls\<lparr>worker := a, fable_guardrail_reconsiderations := n\<rparr>))
      | Not_Continued \<Rightarrow>
     (case if saw_message_end g \<and> \<not> shutdown_pending r Before_Empty
           then maybe_continue_empty_post_tool_response env (trim s = []) recent_result (stop_reason g)
                  (empty_post_tool_continuations ls) (worker ls)
           else Not_Continued of
        Continued a n \<Rightarrow> ([], Live_Again (ls\<lparr>worker := a, empty_post_tool_continuations := n\<rparr>))
      | Save_Failed a n \<Rightarrow> ([], Live_Failed Session_Not_Saved (ls\<lparr>worker := a, empty_post_tool_continuations := n\<rparr>))
      | Not_Continued \<Rightarrow> live_no_calls env r s g ls))"

definition live_after_answer ::
  "turn_env \<Rightarrow> live_round \<Rightarrow> bool \<Rightarrow> rstr \<Rightarrow> agent_call list \<Rightarrow> gathered \<Rightarrow> loop_state \<Rightarrow> server_event list \<times> live_end" where
  "live_after_answer env r recent_result s cs g ls =
     (if cs = [] \<and> image_contexts g \<noteq> [] then show_live_images env g ls
      else if cs = [] then live_end_of_turn env r recent_result s g ls
      else if shutdown_pending r Before_Tools
      then (let ls' = ls\<lparr>worker := skip_calls env ''[Skipped - server reloading]'' cs (worker ls)\<rparr>
            in live_save env ls' ([], Live_Finished ls'))
      else if handles_tools_internally env
      then (case filter (\<lambda>c. ac_name c \<in> set KCODE_NATIVE_TOOLS) cs of
              [] \<Rightarrow> (case inject_at env ''D'' ls of
                       (es, some, ls') \<Rightarrow> (es, if some then Live_Again ls' else Live_Finished ls'))
            | c # rest \<Rightarrow> run_live_calls env r (c # rest) g ls)
      else run_live_calls env r cs g ls)"

text \<open>The answer in the transcript: here a text of white space alone is kept.\<close>

definition live_answer_blocks :: "turn_env \<Rightarrow> rstr \<Rightarrow> agent_call list \<Rightarrow> gathered \<Rightarrow> content_block list" where
  "live_answer_blocks env s cs g =
     (if s = [] then [] else [Text s None])
     @ push_reasoning_blocks env (thought g) (thought_signature g)
     @ (if stores_reasoning_content_for_context env then reasoning_items g else [])
     @ map to_tool_use_block cs"

definition or_zero :: "nat option \<Rightarrow> nat" where
  "or_zero x = (case x of Some n \<Rightarrow> n | None \<Rightarrow> 0)"

definition usage_events :: "gathered \<Rightarrow> server_event list" where
  "usage_events g =
     (if usage_input g = None \<and> usage_output g = None \<and> usage_cache_read g = None \<and> usage_cache_creation g = None then []
      else [Sent_Usage (or_zero (usage_input g)) (or_zero (usage_output g)) (usage_cache_read g) (usage_cache_creation g)])"

text \<open>A call recovered from the text is announced to the client, which has shown the text so far.\<close>

definition recovery_events :: "live_round \<Rightarrow> agent_call list \<Rightarrow> rstr \<Rightarrow> agent_call list \<Rightarrow> server_event list" where
  "recovery_events r before s cs =
     (if before = [] \<and> cs \<noteq> []
      then let c = last cs in
        (if starts_with (ac_id c) ''fallback_text_call_''
         then [Sent_Text_Replace s, Sent_Tool_Start (ac_id c) (ac_name c), Sent_Tool_Input (json_text r (ac_input c)),
               Sent_Tool_Exec (ac_id c) (ac_name c)]
         else [])
      else [])"

definition take_live_answer :: "turn_env \<Rightarrow> live_round \<Rightarrow> bool \<Rightarrow> live_view \<Rightarrow> loop_state \<Rightarrow> server_event list \<times> live_end" where
  "take_live_answer env r recent_result l ls =
     (let g = got l in
      case recover_text_wrapped_tool_call (json_at env) (call_suffix env (ids_made (worker ls))) (said g) (calls g) of
        (s, cs) \<Rightarrow>
          let blocks = live_answer_blocks env s cs g;
              made = fresh_id env (ids_made (worker ls));
              ls1 = (if blocks = [] then ls else ls\<lparr>worker := add_message env Assistant blocks None (worker ls)\<rparr>);
              ls2 = (if native_state g = None then ls1 else ls1\<lparr>worker := (worker ls1)\<lparr>provider_session := None\<rparr>\<rparr>);
              (cs', a) = filter_truncated_tool_calls (stop_reason g) cs (if blocks = [] then None else Some made) (worker ls2);
              go_on = live_after_answer env r recent_result s cs' g (ls2\<lparr>worker := a\<rparr>);
              native_saved =
                (case native_state g of
                   None \<Rightarrow> go_on
                 | Some (enc, covered) \<Rightarrow>
                     live_save env ls2 (sending [Sent_Compaction ''openai_native'' (native_pre l) (Some covered)] go_on))
          in sending (usage_events g @ (case switched_model r of Some m \<Rightarrow> [Sent_Model_Changed m] | None \<Rightarrow> [])
                        @ recovery_events r (calls g) s cs)
               (if blocks = [] then native_saved else live_save env ls1 native_saved))"

definition live_retry :: "live_round \<Rightarrow> rstr \<Rightarrow> turn_error \<Rightarrow> loop_state \<Rightarrow> server_event list \<times> live_end" where
  "live_retry r e failure s =
     (case retry_or_fail (surroundings r) e failure s of
        Again s' \<Rightarrow> ([Sent_Compaction ''auto_recovery'' None None], Live_Again s')
      | Turn_Failed f s' \<Rightarrow> ([], Live_Failed f s')
      | Finished t s' \<Rightarrow> ([], Live_Finished s'))"

text \<open>
  A request that is refused: after a compaction the inner loop goes round again and polls the
  request that has already completed, which panics.
\<close>

definition live_refused :: "live_round \<Rightarrow> rstr \<Rightarrow> loop_state \<Rightarrow> server_event list \<times> live_end" where
  "live_refused r e s =
     (case retry_or_fail (surroundings r) e (Provider_Error e None) s of
        Again s' \<Rightarrow> ([Sent_Compaction ''auto_recovery'' None None], Live_Panicked s')
      | Turn_Failed f s' \<Rightarrow> ([], Live_Failed f s')
      | Finished t s' \<Rightarrow> ([], Live_Finished s'))"

definition live_receive :: "turn_env \<Rightarrow> live_round \<Rightarrow> bool \<Rightarrow> live_item list \<Rightarrow> loop_state \<Rightarrow> server_event list \<times> live_end" where
  "live_receive env r recent_result items s =
     (case live_gather env (rendered_image r) (length (transcript (worker s))) items nothing_seen (provider_session (worker s)) of
        (ended, l, sid) \<Rightarrow>
          let s' = s\<lparr>worker := (worker s)\<lparr>provider_session := sid\<rparr>\<rparr>
          in sending (to_client l)
               (case ended of
                  Stream_Broken e failure \<Rightarrow> live_retry r e failure s'
                | Stream_Over \<Rightarrow> take_live_answer env r recent_result l s'))"

text \<open>The request of this loop has no nudge towards the batch tool.\<close>

definition live_ask :: "turn_env \<Rightarrow> live_round \<Rightarrow> loop_state \<Rightarrow> message list \<times> server_event list \<times> loop_state" where
  "live_ask env r s =
     (let a = prepared env (surroundings r) s;
          (messages, compacted_now) = request (surroundings r) (transcript a)
      in (messages,
          (if compacted_now then [Sent_Compacted] else []) @ [Sent_Cache_Request],
          s\<lparr>worker := (if compacted_now then a\<lparr>provider_session := None\<rparr> else a)\<rparr>))"

definition run_live_round :: "turn_env \<Rightarrow> live_round \<Rightarrow> loop_state \<Rightarrow> server_event list \<times> live_end" where
  "run_live_round env r s =
     (if cancelled (surroundings r) then ([], Live_Finished s)
      else case live_ask env r s of
             (messages, es, s1) \<Rightarrow>
               sending es
                 (case live_answer_of r of
                    Cancelled_First \<Rightarrow> ([], Live_Finished s1)
                  | Request_Refused e \<Rightarrow> live_refused r e s1
                  | Streaming items \<Rightarrow>
                      live_receive env r (messages_end_with_tool_result (stamped env messages)) items
                        (s1\<lparr>context_limit_retries := 0\<rparr>)))"

fun run_live_turn :: "turn_env \<Rightarrow> live_round list \<Rightarrow> loop_state \<Rightarrow> server_event list \<times> live_end" where
  "run_live_turn env [] s = ([], Live_Again s)"
| "run_live_turn env (r # rs) s =
     (case run_live_round env r s of
        (es, Live_Again s') \<Rightarrow> sending es (run_live_turn env rs s')
      | (es, e) \<Rightarrow> (es, e))"

end
