(* ===== verification/Agent_Live_Properties.thy ===== *)
theory Agent_Live_Properties
  imports Agent_Replies Agent_Live
begin

text \<open>
  The streaming loop: the scan for markers sees what a scan of the whole answer would, the client
  shows the answer that is gathered, and the calls of an answer are answered whatever interrupts
  their running.
\<close>

section \<open>The scan for markers\<close>

definition marker_at :: "rstr \<Rightarrow> nat \<Rightarrow> bool" where
  "marker_at s k = (\<exists>m\<in>set WRAP_TOOL_MARKERS. starts_with (drop k s) m)"

definition first_marker :: "rstr \<Rightarrow> nat option" where
  "first_marker s = min_position (List.map_filter (find_sub s) WRAP_TOOL_MARKERS)"

lemma find_sub_none: "find_sub s p = None \<longleftrightarrow> (\<forall>k. \<not> starts_with (drop k s) p)"
proof (induction s)
  case (Cons c s)
  have "(\<forall>k. \<not> starts_with (drop k (c # s)) p) \<longleftrightarrow> \<not> starts_with (c # s) p \<and> (\<forall>k. \<not> starts_with (drop k s) p)"
    by (auto simp: drop_Cons split: nat.splits)
  then show ?case
    using Cons by simp
qed (cases p; simp)

lemma find_sub_some:
  "find_sub s p = Some k \<longleftrightarrow> starts_with (drop k s) p \<and> k \<le> length s \<and> (\<forall>j<k. \<not> starts_with (drop j s) p)"
proof (induction s arbitrary: k)
  case Nil
  then show ?case by (cases p) auto
next
  case (Cons c s)
  show ?case
  proof (cases k)
    case (Suc i)
    have "(\<forall>j<Suc i. \<not> starts_with (drop j (c # s)) p)
        \<longleftrightarrow> \<not> starts_with (c # s) p \<and> (\<forall>j<i. \<not> starts_with (drop j s) p)"
      by (auto simp: less_Suc_eq_0_disj)
    then show ?thesis
      using Cons Suc by auto
  qed auto
qed

lemma marker_at_cases:
  "marker_at s k \<longleftrightarrow> starts_with (drop k s) ''to=functions.'' \<or> starts_with (drop k s) ''+#+#''"
  by (simp add: marker_at_def WRAP_TOOL_MARKERS_def)

lemma first_marker_cases:
  "first_marker s =
     (case (find_sub s ''to=functions.'', find_sub s ''+#+#'') of
        (None, None) \<Rightarrow> None | (Some i, None) \<Rightarrow> Some i | (None, Some j) \<Rightarrow> Some j | (Some i, Some j) \<Rightarrow> Some (min i j))"
  by (simp add: first_marker_def min_position_def WRAP_TOOL_MARKERS_def map_filter_simps min.commute split: option.split)

lemma first_marker_sound:
  assumes "first_marker s = Some k" shows "marker_at s k \<and> (\<forall>j<k. \<not> marker_at s j)"
proof (cases "find_sub s ''to=functions.''")
  case None
  then show ?thesis
    using assms find_sub_none [of s "''to=functions.''"] find_sub_some [of s "''+#+#''"]
    by (auto simp: first_marker_cases marker_at_cases split: option.splits)
next
  case (Some i)
  note first = this
  show ?thesis
  proof (cases "find_sub s ''+#+#''")
    case None
    then show ?thesis
      using assms first find_sub_none [of s "''+#+#''"] find_sub_some [of s "''to=functions.''"]
      by (auto simp: first_marker_cases marker_at_cases)
  next
    case (Some j)
    then show ?thesis
      using assms first find_sub_some [of s "''+#+#''" j] find_sub_some [of s "''to=functions.''" i]
      by (cases "i \<le> j") (auto simp: first_marker_cases marker_at_cases min_def)
  qed
qed

lemma first_marker_none: "first_marker s = None \<longleftrightarrow> (\<forall>k. \<not> marker_at s k)"
proof
  show "first_marker s = None \<Longrightarrow> \<forall>k. \<not> marker_at s k"
    by (auto simp: first_marker_cases marker_at_cases find_sub_none split: option.splits)
  show "\<forall>k. \<not> marker_at s k \<Longrightarrow> first_marker s = None"
    using first_marker_sound by (cases "first_marker s") auto
qed

lemma first_marker_some: "first_marker s = Some k \<longleftrightarrow> marker_at s k \<and> (\<forall>j<k. \<not> marker_at s j)"
proof
  assume k: "marker_at s k \<and> (\<forall>j<k. \<not> marker_at s j)"
  then obtain i where i: "first_marker s = Some i"
    using first_marker_none [of s] by (cases "first_marker s") auto
  then show "first_marker s = Some k"
    using first_marker_sound [OF i] k linorder_cases [of i k] by blast
qed (rule first_marker_sound)

lemma marker_at_drop: "marker_at (drop k s) j = marker_at s (k + j)"
  by (simp add: marker_at_def add.commute)

lemma first_marker_drop:
  assumes "\<forall>j<k. \<not> marker_at s j"
  shows "map_option (\<lambda>i. k + i) (first_marker (drop k s)) = first_marker s"
proof (cases "first_marker (drop k s)")
  case None
  then have "\<not> marker_at s i" for i
    using assms first_marker_none [of "drop k s"] by (cases "i < k") (auto simp: marker_at_drop le_iff_add not_less)
  then show ?thesis
    using None first_marker_none [of s] by simp
next
  case (Some i)
  then have "marker_at s (k + i)" "\<not> marker_at s j" if "j < k + i" for j
    using assms first_marker_some [of "drop k s" i] that
    by (auto simp: marker_at_drop) (metis add_diff_inverse_nat nat_add_left_cancel_less)
  then show ?thesis
    using Some first_marker_some [of s "k + i"] first_marker_some [of "drop k s" i] by (auto simp: marker_at_drop)
qed

text \<open>A match that is new ends behind the old text, so it starts in the window.\<close>

lemma wrap_marker_length: "m \<in> set WRAP_TOOL_MARKERS \<Longrightarrow> length m \<le> 13 \<and> m \<noteq> []"
  by (auto simp: WRAP_TOOL_MARKERS_def)

lemma starts_with_append:
  assumes "starts_with (drop k (s @ t)) m" and "k + length m \<le> length s"
  shows "starts_with (drop k s) m"
  using assms prefix_length_prefix [of m "drop k (s @ t)" "drop k s"] by (simp add: starts_with_iff)

lemma starts_with_more: "starts_with (drop k s) m \<Longrightarrow> k \<le> length s \<Longrightarrow> starts_with (drop k (s @ t)) m"
  by (auto simp: starts_with_iff)

lemma marker_at_new:
  assumes "first_marker s = None" and "marker_at (s @ t) k"
  shows "length s < k + 13"
proof (rule ccontr)
  assume far: "\<not> length s < k + 13"
  obtain m where m: "m \<in> set WRAP_TOOL_MARKERS" "starts_with (drop k (s @ t)) m"
    using assms(2) by (auto simp: marker_at_def)
  then have "starts_with (drop k s) m"
    using starts_with_append wrap_marker_length [OF m(1)] far by simp
  then show False
    using assms(1) m(1) by (auto simp: first_marker_none marker_at_def)
qed

lemma longest_marker: "fold max (map length WRAP_TOOL_MARKERS) 0 = 13"
  by (simp add: WRAP_TOOL_MARKERS_def)

lemma floor_char_boundary_le: "floor_char_boundary s k \<le> k"
  using boundary_below_is [of s k] by (simp add: floor_char_boundary_def)

lemma marker_scan_full:
  assumes "first_marker s = None"
  shows "find_wrap_marker_incremental (s @ t) (length t) = first_marker (s @ t)"
proof -
  let ?k = "floor_char_boundary (s @ t) (length (s @ t) - (length t + 12))"
  have "?k \<le> length s - 12"
    using floor_char_boundary_le [of "s @ t" "length (s @ t) - (length t + 12)"] by simp
  then have "\<not> marker_at (s @ t) j" if "j < ?k" for j
    using marker_at_new [OF assms, of t j] that by linarith
  then show ?thesis
    using first_marker_drop [of ?k "s @ t"]
    by (simp add: find_wrap_marker_incremental_def longest_marker first_marker_def Let_def)
qed


text \<open>No marker lies strictly inside another, so the first one stays the first.\<close>

lemma markers_apart:
  assumes "m \<in> set WRAP_TOOL_MARKERS" and "m' \<in> set WRAP_TOOL_MARKERS" and "d + length m' < length m"
  shows "\<not> starts_with (drop d m) m'"
proof
  assume "starts_with (drop d m) m'"
  then have "set m' \<subseteq> set m"
    by (auto simp: starts_with_split) (metis in_set_dropD in_set_conv_decomp append_Cons append_assoc)
  moreover have "m = ''to=functions.''" "m' = ''+#+#''"
    using assms by (auto simp: WRAP_TOOL_MARKERS_def)
  ultimately show False
    by simp
qed

lemma marker_fits: "m \<in> set WRAP_TOOL_MARKERS \<Longrightarrow> starts_with (drop k s) m \<Longrightarrow> k + length m \<le> length s"
  using wrap_marker_length [of m] prefix_length_le [of m "drop k s"] by (cases "k \<le> length s") (auto simp: starts_with_iff)

lemma first_marker_append:
  assumes "first_marker s = Some k"
  shows "first_marker (s @ t) = Some k"
proof -
  obtain m' where m': "m' \<in> set WRAP_TOOL_MARKERS" "starts_with (drop k s) m'"
    using assms by (auto simp: first_marker_some marker_at_def)
  then have fits: "k + length m' \<le> length s"
    by (rule marker_fits)
  have "\<not> marker_at (s @ t) j" if j: "j < k" for j
  proof
    assume "marker_at (s @ t) j"
    then obtain m where m: "m \<in> set WRAP_TOOL_MARKERS" "starts_with (drop j (s @ t)) m"
      by (auto simp: marker_at_def)
    have "\<not> starts_with (drop j s) m"
      using assms j m(1) by (auto simp: first_marker_some marker_at_def)
    then have over: "length s < j + length m"
      using starts_with_append [OF m(2)] by (meson not_less)
    obtain r where r: "drop j (s @ t) = m @ r"
      using m(2) by (auto simp: starts_with_split)
    have "drop (k - j) (drop j (s @ t)) = drop k (s @ t)"
      using j by (simp only: drop_drop) simp
    then have "drop k (s @ t) = drop (k - j) (m @ r)"
      unfolding r by (rule sym)
    then have "drop k s @ t = drop (k - j) m @ r"
      using over fits by simp
    moreover have "k - j + length m' < length m"
      using over fits j by linarith
    ultimately have "prefix m' (drop (k - j) m)"
      using m'(2) prefix_length_prefix [of m' "drop k s @ t" "drop (k - j) m"] prefix_prefix [of m' "drop k s" t]
      by (simp add: starts_with_iff)
    then show False
      using markers_apart [OF m(1) m'(1) \<open>k - j + length m' < length m\<close>] by (simp add: starts_with_iff)
  qed
  then show ?thesis
    using starts_with_more [OF m'(2), of t] fits m'(1) by (auto simp: first_marker_some marker_at_def)
qed

section \<open>What the client shows\<close>

definition show_event :: "server_event \<Rightarrow> rstr \<Rightarrow> rstr" where
  "show_event e shown =
     (case e of Sent_Text s \<Rightarrow> shown @ s | Sent_Text_Replace s \<Rightarrow> s | Sent_Rollback k m \<Rightarrow> [] | _ \<Rightarrow> shown)"

definition shown :: "server_event list \<Rightarrow> rstr" where
  "shown es = fold show_event es []"

definition visible :: "rstr \<Rightarrow> rstr" where
  "visible s = (case first_marker s of None \<Rightarrow> s | Some k \<Rightarrow> trim_end (take k s))"

definition in_view :: "live_view \<Rightarrow> bool" where
  "in_view l =
     (shown (to_client l) = visible (said (got l)) \<and> wrapped l = (first_marker (said (got l)) \<noteq> None))"

lemma shown_send [simp]: "shown (to_client (send e l)) = show_event e (shown (to_client l))"
  by (simp add: shown_def send_def)

lemma send_parts [simp]: "got (send e l) = got l" "wrapped (send e l) = wrapped l"
  "reasoning_open (send e l) = reasoning_open l"
  by (simp_all add: send_def)

lemma close_reasoning_parts [simp]:
  "got (close_reasoning b l) = got l" "wrapped (close_reasoning b l) = wrapped l"
  "shown (to_client (close_reasoning b l)) = shown (to_client l)"
  by (simp_all add: close_reasoning_def show_event_def)

lemma first_marker_Nil [simp]: "first_marker [] = None"
  by (simp add: first_marker_none marker_at_def WRAP_TOOL_MARKERS_def)

lemma visible_Nil [simp]: "visible [] = []"
  by (simp add: visible_def)

lemma show_delta_view:
  assumes "shown (to_client l) = visible s" and "wrapped l = (first_marker s \<noteq> None)" and "said (got l) = s @ t"
  shows "in_view (show_delta t l)"
proof (cases "first_marker s")
  case None
  then show ?thesis
    using assms marker_scan_full [OF None, of t]
    by (auto simp: in_view_def show_delta_def show_event_def visible_def split: option.split)
next
  case (Some k)
  then have "k \<le> length s"
    using marker_fits [of _ k s] by (fastforce simp: first_marker_some marker_at_def)
  then show ?thesis
    using assms Some first_marker_append [OF Some, of t]
    by (simp add: in_view_def show_delta_def visible_def)
qed

lemma said_gather:
  "said (gather_event env n ev g) = (case ev of Text_Delta s \<Rightarrow> said g @ s | Retry_Rollback k m \<Rightarrow> [] | _ \<Rightarrow> said g)"
  by (auto simp: gather_event_def end_tool_use_def roll_back_def add_usage_def Let_def split: stream_event.split option.split)

lemma live_step_view:
  assumes "in_view l"
  shows "in_view (live_step env rendered n ev l)"
proof (cases ev)
  case (Text_Delta s)
  let ?l = "l\<lparr>got := gather_event env n ev (got l)\<rparr>"
  have "in_view (show_delta s (if trim s = [] then ?l else close_reasoning False ?l))"
    using assms Text_Delta by (intro show_delta_view [of _ "said (got l)"]) (auto simp: in_view_def said_gather)
  then show ?thesis
    using Text_Delta by (cases "trim s = []") (simp_all add: live_step_def Let_def)
qed (use assms in \<open>simp_all add: live_step_def in_view_def said_gather show_event_def Let_def split: option.split\<close>)

lemma nothing_seen_view: "in_view nothing_seen"
  by (simp add: in_view_def nothing_seen_def nothing_gathered_def shown_def)

text \<open>No shutdown is noticed behind a piece of text.\<close>

definition undisturbed :: "live_item \<Rightarrow> bool" where
  "undisturbed i = (case i of From_Provider stop (Inr (Text_Delta s)) \<Rightarrow> \<not> stop | _ \<Rightarrow> True)"

lemma live_gather_view:
  assumes "in_view l" and "list_all undisturbed items"
  shows "in_view (fst (snd (live_gather env rendered n items l sid)))"
  using assms
  by (induction env rendered n items l sid rule: live_gather.induct)
    (simp_all add: undisturbed_def live_step_view Let_def)

section \<open>The answers of interrupted calls\<close>

text \<open>
  The transcript has grown by one message with one result for each of the calls, in order, and
  then by messages without results.
\<close>

definition answers_then :: "agent \<Rightarrow> rstr list \<Rightarrow> agent \<Rightarrow> bool" where
  "answers_then a ids b =
     (\<exists>rs qs. transcript b = transcript a @ rs @ qs \<and> map stored_results rs = map (\<lambda>i. [i]) ids
        \<and> list_all (\<lambda>m. stored_results m = []) qs)"

definition answers :: "agent \<Rightarrow> rstr list \<Rightarrow> agent \<Rightarrow> bool" where
  "answers a ids b = (\<exists>rs. transcript b = transcript a @ rs \<and> map stored_results rs = map (\<lambda>i. [i]) ids)"

lemma answers_refl: "answers a [] a"
  by (simp add: answers_def)

lemma answers_trans: "answers a is b \<Longrightarrow> answers b js c \<Longrightarrow> answers a (is @ js) c"
  by (fastforce simp: answers_def)

lemma answers_then_trans: "answers a is b \<Longrightarrow> answers_then b js c \<Longrightarrow> answers_then a (is @ js) c"
  unfolding answers_def answers_then_def by (metis append.assoc map_append)

lemma answers_are_then: "answers a is b \<Longrightarrow> answers_then a is b"
  unfolding answers_def answers_then_def by (metis append_Nil2 list.pred_inject(1))

lemma answers_arrive [simp]: "answers (arrive ms a) is b = answers a is b" "answers_then (arrive ms a) is b = answers_then a is b"
  by (simp_all add: answers_def answers_then_def arrive_def)

lemma answer_call_answers: "answers a [ac_id c] (answer_call env c s f a)"
  by (simp add: answers_def answer_call_def add_message_def stored_results_answer map_filter_simps)

lemma skip_calls_answers: "answers a (map ac_id cs) (skip_calls env s cs a)"
proof (induction cs arbitrary: a)
  case (Cons c cs)
  have "answers a ([ac_id c] @ map ac_id cs) (skip_calls env s cs (answer_call env c s (Some True) a))"
    by (rule answers_trans [OF answer_call_answers Cons])
  then show ?case
    by (simp add: skip_calls_def)
qed (simp add: skip_calls_def answers_refl)

lemma run_message_results: "stored_results (run_message env k g) = []"
proof -
  have "List.map_filter block_result (map (\<lambda>(media, data). Image media data) is) = []" for "is"
    by (induction "is") (auto simp: map_filter_simps)
  then show ?thesis
    by (simp add: run_message_def stored_results_def map_filter_app map_filter_simps)
qed

lemma note_results_none:
  "stored_results \<lparr>stored_id = i, stored_role = User, stored_content = [Text s c], stored_display = d\<rparr> = []"
  by (simp add: stored_results_def map_filter_simps)

lemma inject_adds_no_results:
  "\<exists>qs. transcript (fst (inject_soft_interrupts env a)) = transcript a @ qs \<and> list_all (\<lambda>m. stored_results m = []) qs"
  by (auto simp: inject_is_runs list_all_iff run_message_results)

lemma skip_for_interrupt_answers: "answers_then a (map ac_id cs) (snd (skip_for_interrupt env cs a))"
proof -
  let ?b = "skip_calls env ''[Skipped: user interrupted]'' cs a"
  obtain rs where rs: "transcript ?b = transcript a @ rs" "map stored_results rs = map (\<lambda>i. [i]) (map ac_id cs)"
    using skip_calls_answers [of a cs env] by (auto simp: answers_def)
  obtain qs where qs: "transcript (fst (inject_soft_interrupts env ?b)) = transcript ?b @ qs"
    "list_all (\<lambda>m. stored_results m = []) qs"
    using inject_adds_no_results by blast
  have "\<exists>qs'. transcript (snd (skip_for_interrupt env cs a)) = transcript a @ rs @ qs' \<and> list_all (\<lambda>m. stored_results m = []) qs'"
    using qs rs(1) by (auto simp: skip_for_interrupt_def add_message_def note_results_none split: prod.split)
  then show ?thesis
    using rs(2) unfolding answers_then_def by blast
qed

lemma output_answers:
  "answers a [ac_id c] (add_message env User (tool_output_to_content_blocks (ac_id c) out) d a)"
  by (simp add: answers_def add_message_def tool_output_to_content_blocks_def stored_results_answer output_blocks_results)

lemma run_live_call_answers:
  "run_live_call env r k c a = (es, Inl b) \<Longrightarrow> answers a [ac_id c] b"
  "run_live_call env r k c a = (es, Inr (u, b)) \<Longrightarrow> answers a [ac_id c] b"
  by (auto simp: run_live_call_def Let_def answer_call_answers output_answers split: tool_wait.splits sum.splits prod.splits)

text \<open>How the running of the calls has ended, and what was answered by then.\<close>

definition calls_settled :: "turn_env \<Rightarrow> agent \<Rightarrow> agent_call list \<Rightarrow> tools_end \<Rightarrow> bool" where
  "calls_settled env a cs e =
     (case e of
        Tools_Done u b \<Rightarrow> answers_then a (map ac_id cs) b
      | Tools_Given_Up b \<Rightarrow> answers_then a (map ac_id cs) b
      | Tools_Refused name b \<Rightarrow>
          answers_then a (map ac_id (takeWhile (servable env) cs)) b
          \<and> (case dropWhile (servable env) cs of [] \<Rightarrow> False | c # _ \<Rightarrow> name = ac_name c)
      | Tools_Not_Saved b \<Rightarrow> \<exists>k\<le>length cs. answers_then a (map ac_id (take k cs)) b)"

lemma settled_Cons:
  assumes "answers a [ac_id c] b" and "servable env c" and "calls_settled env b cs e"
  shows "calls_settled env a (c # cs) e"
proof -
  have more: "answers_then b is d \<Longrightarrow> answers_then a (ac_id c # is) d" for "is" d
    using answers_then_trans [OF assms(1)] by simp
  show ?thesis
  proof (cases e)
    case (Tools_Not_Saved d)
    then obtain k where "k \<le> length cs" "answers_then b (map ac_id (take k cs)) d"
      using assms(3) by (auto simp: calls_settled_def)
    then show ?thesis
      using more Tools_Not_Saved by (auto simp: calls_settled_def intro!: exI [of _ "Suc k"])
  qed (use assms more in \<open>simp_all add: calls_settled_def\<close>)
qed

lemma settled_arrive: "calls_settled env (arrive ms a) cs e = calls_settled env a cs e"
  by (simp add: calls_settled_def split: tools_end.split)


lemma settled_given_up:
  assumes "answers a [ac_id c] b" and "b' = skip_calls env s cs b"
  shows "calls_settled env a (c # cs)
           (if \<not> can_save env (transcript b) then Tools_Not_Saved b
            else if \<not> can_save env (transcript b') then Tools_Not_Saved b' else Tools_Given_Up b')"
proof -
  have all: "answers_then a (map ac_id (c # cs)) b'"
    using answers_are_then [OF answers_trans [OF assms(1) skip_calls_answers]] assms(2) by simp
  have first: "answers_then a (map ac_id (take 1 (c # cs))) b"
    using answers_are_then [OF assms(1)] by simp
  show ?thesis
    using all first by (auto simp: calls_settled_def intro: exI [of _ "Suc (length cs)"] exI [of _ "1 :: nat"])
qed

lemma run_live_tools_settled: "calls_settled env a cs (snd (run_live_tools env r k cs sdk u a))"
proof (induction cs arbitrary: k sdk u a)
  case Nil
  show ?case
    using answers_are_then [OF answers_refl] by (simp add: calls_settled_def)
next
  case (Cons c cs)
  let ?a = "arrive (queued_before r k) a"
  have go_on: "calls_settled env ?a (c # cs) (snd (run_live_tools env r (Suc k) cs sdk' u' b))"
    if "answers ?a [ac_id c] b" "servable env c" for sdk' u' b
    using settled_Cons [OF that Cons] .
  consider (urgent) "0 < k \<and> has_urgent_interrupt ?a"
    | (invalid) e where "\<not> (0 < k \<and> has_urgent_interrupt ?a)" "validation_error c = Some e"
    | (refused) "\<not> (0 < k \<and> has_urgent_interrupt ?a)" "validation_error c = None" "\<not> tool_allowed env (ac_name c)"
    | (given) s f where "\<not> (0 < k \<and> has_urgent_interrupt ?a)" "validation_error c = None" "tool_allowed env (ac_name c)"
        "sdk_answer sdk c = Some (s, f)"
    | (run) "\<not> (0 < k \<and> has_urgent_interrupt ?a)" "validation_error c = None" "tool_allowed env (ac_name c)"
        "sdk_answer sdk c = None"
    by fastforce
  then have "calls_settled env ?a (c # cs) (snd (run_live_tools env r k (c # cs) sdk u a))"
  proof cases
    case urgent
    then show ?thesis
      using skip_for_interrupt_answers [of ?a "c # cs" env] by (simp add: calls_settled_def case_prod_unfold Let_def)
  next
    case invalid
    then show ?thesis
      using go_on [OF answer_call_answers] by (auto simp: servable_def Let_def case_prod_unfold)
  next
    case refused
    then show ?thesis
      using answers_are_then [OF answers_refl [of ?a]] by (auto simp: calls_settled_def servable_def Let_def)
  next
    case given
    then show ?thesis
      using go_on [OF answer_call_answers] by (auto simp: servable_def Let_def case_prod_unfold)
  next
    case run
    have ok: "servable env c"
      using run by (simp add: servable_def)
    obtain es x where call: "run_live_call env r k c ?a = (es, x)"
      by fastforce
    show ?thesis
    proof (cases x)
      case (Inl b)
      then show ?thesis
        using run call settled_given_up [OF run_live_call_answers(1) [of env r k c ?a es b]] by (auto simp: Let_def)
    next
      case (Inr p)
      obtain w b where p: "p = (w, b)"
        by (cases p)
      have one: "answers ?a [ac_id c] b"
        using run_live_call_answers(2) [of env r k c ?a es w b] call Inr p by simp
      then have "calls_settled env ?a (c # cs) (Tools_Not_Saved b)"
        using answers_are_then [OF one] by (auto simp: calls_settled_def intro: exI [of _ "1 :: nat"])
      then show ?thesis
        using run call Inr p go_on [OF one ok] by (cases w) (auto simp: Let_def case_prod_unfold)
    qed
  qed
  then show ?case
    by (simp only: settled_arrive)
qed

section \<open>Properties\<close>

text \<open>
  The scan for markers that looks only at the new text and a short tail finds, at every piece
  of text, the position a scan of the whole answer finds, in whatever pieces the text arrives.
\<close>

theorem marker_scan_is_full:
  assumes "first_marker s = None"
  shows "find_wrap_marker_incremental (s @ t) (length t) = first_marker (s @ t)"
  using assms by (rule marker_scan_full)

theorem marker_scan_is_full_witness:
  "find_wrap_marker_incremental (''so to=func'' @ ''tions.bash'') (length ''tions.bash'') = first_marker (''so to=func'' @ ''tions.bash'')"
  by (rule marker_scan_is_full) code_simp

text \<open>
  C6: What a client shows that replays the events it is sent is the answer gathered so far, or, as
  soon as a call written as text begins in it, what stands in front of that call: after any
  events of the stream, in any pieces and with any retries, until a shutdown cuts the text off.
\<close>

theorem client_shows_the_answer:
  assumes "list_all undisturbed items"
  shows "case live_gather env rendered n items nothing_seen sid of
           (e, l, sid') \<Rightarrow> shown (to_client l) = visible (said (got l))"
  using live_gather_view [OF nothing_seen_view assms, of env rendered n sid]
  by (simp add: in_view_def case_prod_unfold)

theorem client_shows_the_answer_witness:
  "case live_gather plain_env (\<lambda>i. None) 0
          [From_Provider False (Inr (Text_Delta ''half'')), From_Provider False (Inr (Retry_Rollback 1 3)),
           From_Provider False (Inr (Text_Delta ''so to=func'')), From_Provider False (Inr (Text_Delta ''tions.bash''))]
          nothing_seen None of
     (e, l, sid') \<Rightarrow> shown (to_client l) = visible (said (got l))"
  by (rule client_shows_the_answer) (simp add: undisturbed_def)


section \<open>Where the two loops differ\<close>

text \<open>After a compaction that made room, a refused request ends in a panic instead of a retry.\<close>

lemma refused_request_panics:
  assumes "live_answer_of r = Request_Refused e" and "\<not> cancelled (surroundings r)"
    and "\<And>t. make_room (surroundings r) e t = Some t" and "context_limit_retries s < MAX_CONTEXT_LIMIT_RETRIES"
  shows "\<exists>es s'. run_live_round env r s = (es, Live_Panicked s')"
  using assms
  by (auto simp: run_live_round_def live_ask_def live_refused_def retry_or_fail_def sending_def Let_def split: prod.split)

text \<open>A text of white space alone becomes a message here, and none in the blocking loop.\<close>

lemma blank_answer_is_kept:
  "live_answer_blocks env '' '' [] nothing_gathered = [Text '' '' None] \<and> answer_blocks env '' '' [] nothing_gathered = []"
proof -
  have "trim '' '' = []"
    by code_simp
  then show ?thesis
    by (simp add: live_answer_blocks_def answer_blocks_def push_reasoning_blocks_def nothing_gathered_def)
qed

text \<open>
  When the provider has run all the tools itself, the blocking loop shows the model the images it
  has made; this loop drops them.
\<close>

lemma images_of_the_provider_are_dropped:
  assumes "handles_tools_internally env" and "filter (\<lambda>c. ac_name c \<in> set KCODE_NATIVE_TOOLS) cs = []" and "cs \<noteq> []"
    and "\<not> shutdown_pending r Before_Tools" and "soft_queue (worker s) = []"
  shows "live_after_answer env r p t cs g s = ([], Live_Finished s)"
  using assms
  by (simp add: live_after_answer_def inject_at_def inject_soft_interrupts_def interrupt_events_def build_soft_interrupt_events_def)

text \<open>A continuation is asked for although a shutdown is pending; its message stays in the transcript.\<close>

lemma cancelled_answer_is_continued:
  assumes "stop_reason g = Some ''max_tokens''" and "image_contexts g = []" and "incomplete_continuations s = 0"
    and "\<And>c. shutdown_pending r c" and "\<And>t. can_save env t"
  shows "\<exists>s'. live_after_answer env r p t [] g s = ([], Live_Again s') \<and> length (transcript (worker s')) = Suc (length (transcript (worker s)))"
proof -
  have "trim ''max_tokens'' = ''max_tokens''" "should_continue_after_stop_reason ''max_tokens''"
    by code_simp+
  then show ?thesis
    using assms
    by (simp add: live_after_answer_def live_end_of_turn_def live_no_calls_def handle_streaming_no_tool_calls_def
        maybe_continue_incomplete_response_def ask_again_def add_message_def MAX_INCOMPLETE_CONTINUATION_ATTEMPTS_def Let_def)
qed

section \<open>A streamed round keeps the step\<close>

definition live_state :: "live_end \<Rightarrow> loop_state" where
  "live_state e =
     (case e of Live_Again s \<Rightarrow> s | Live_Finished s \<Rightarrow> s | Live_Failed f s \<Rightarrow> s | Live_Panicked s \<Rightarrow> s)"

lemma live_state_simps [simp]:
  "live_state (Live_Again s) = s" "live_state (Live_Finished s) = s" "live_state (Live_Failed f s) = s"
  "live_state (Live_Panicked s) = s"
  by (simp_all add: live_state_def)

definition reaches :: "agent \<Rightarrow> server_event list \<times> live_end \<Rightarrow> bool" where
  "reaches a r = later a (worker (live_state (snd r)))"

lemma reaches_sending [simp]: "reaches a (sending es r) = reaches a r"
  by (simp add: reaches_def sending_def)

lemma reaches_save: "later a (worker s) \<Longrightarrow> reaches a r \<Longrightarrow> reaches a (live_save env s r)"
  by (simp add: live_save_def reaches_def)

lemma reaches_from: "later a b \<Longrightarrow> reaches b r \<Longrightarrow> reaches a r"
  using later_trans unfolding reaches_def by blast

lemma later_arrive [simp]: "later (arrive ms a) b = later a b" "later a (arrive ms b) = later a b"
  by (simp_all add: arrive_def)

lemma later_answer_call: "later a (answer_call env c s f a)"
  by (simp add: answer_call_def)

lemma later_skip_calls: "later a (skip_calls env s cs a)"
  unfolding skip_calls_def by (induction cs arbitrary: a) (auto intro: later_trans [OF later_answer_call])

lemma later_skip_for_interrupt: "later a (snd (skip_for_interrupt env cs a))"
proof -
  let ?b = "fst (inject_soft_interrupts env (skip_calls env ''[Skipped: user interrupted]'' cs a))"
  have "later a ?b"
    using later_trans [OF later_skip_calls later_inject] .
  then show ?thesis
    by (auto simp: skip_for_interrupt_def case_prod_unfold intro: later_add_message_trans)
qed

lemma later_run_live_call:
  "run_live_call env r k c a = (es, Inl b) \<Longrightarrow> later a b"
  "run_live_call env r k c a = (es, Inr (u, b)) \<Longrightarrow> later a b"
  by (auto simp: run_live_call_def Let_def later_answer_call split: tool_wait.splits sum.splits prod.splits)

definition agent_after :: "tools_end \<Rightarrow> agent" where
  "agent_after e =
     (case e of Tools_Done u a \<Rightarrow> a | Tools_Refused n a \<Rightarrow> a | Tools_Given_Up a \<Rightarrow> a | Tools_Not_Saved a \<Rightarrow> a)"

lemma later_run_live_tools: "later a (agent_after (snd (run_live_tools env r k cs sdk u a)))"
proof (induction cs arbitrary: k sdk u a)
  case (Cons c cs)
  let ?a = "arrive (queued_before r k) a"
  have go_on: "later a (agent_after (snd (run_live_tools env r (Suc k) cs sdk' u' b)))" if "later ?a b" for sdk' u' b
    using later_trans [OF that Cons] by simp
  have skipped: "later a (skip_calls env s ds b)" if "later ?a b" for s ds b
    using later_trans [OF that later_skip_calls] by simp
  obtain es x where call: "run_live_call env r k c ?a = (es, x)"
    by fastforce
  show ?case
  proof (cases x)
    case (Inl b)
    then have "later ?a b"
      using later_run_live_call(1) [of env r k c ?a es b] call by simp
    then show ?thesis
      using Inl call skipped go_on [OF later_answer_call] later_skip_for_interrupt [of ?a env "c # cs"]
      by (auto simp: Let_def case_prod_unfold agent_after_def split: option.split)
  next
    case (Inr p)
    obtain w b where p: "p = (w, b)"
      by (cases p)
    then have "later ?a b"
      using later_run_live_call(2) [of env r k c ?a es w b] call Inr by simp
    then show ?thesis
      using Inr p call go_on go_on [OF later_answer_call] later_skip_for_interrupt [of ?a env "c # cs"]
      by (cases w) (auto simp: Let_def case_prod_unfold agent_after_def split: option.split)
  qed
qed (simp add: agent_after_def)


lemma reaches_show_images: "reaches (worker s) (show_live_images env g s)"
  unfolding show_live_images_def Let_def
  by (rule reaches_save) (simp_all add: reaches_def later_add_image_contexts)

lemma inject_at_state: "later (worker s) (worker (snd (snd (inject_at env point s))))"
  by (simp add: inject_at_def later_inject split: prod.split) (metis fst_conv later_inject)

lemma reaches_finish: "reaches (worker s) (finish_live_round env g s)"
proof -
  let ?s = "s\<lparr>worker := add_image_contexts env (image_contexts g) (worker s)\<rparr>"
  have "reaches (worker t) (case inject_at env ''D'' t of (es, some, t') \<Rightarrow> (es, Live_Again t'))" for t :: loop_state
    using inject_at_state [of t env "''D''"] by (simp add: reaches_def case_prod_unfold)
  moreover have later: "later (worker s) (worker ?s)"
    by (simp add: later_add_image_contexts)
  ultimately have "reaches (worker s) (case inject_at env ''D'' ?s of (es, some, t') \<Rightarrow> (es, Live_Again t'))"
    and "reaches (worker s) (case inject_at env ''D'' s of (es, some, t') \<Rightarrow> (es, Live_Again t'))"
    using reaches_from by blast+
  then show ?thesis
    using later by (auto simp: finish_live_round_def Let_def intro!: reaches_save)
qed

lemma reaches_run_calls: "reaches (worker s) (run_live_calls env r cs g s)"
proof -
  obtain es e where run: "run_live_tools env r 0 cs (sdk_results g) False (worker s) = (es, e)"
    by fastforce
  have moved: "later (worker s) (agent_after e)"
    using later_run_live_tools [of "worker s" env r 0 cs "sdk_results g" False] run by simp
  show ?thesis
  proof (cases e)
    case (Tools_Done u a)
    then have a: "later (worker s) (worker (s\<lparr>worker := a\<rparr>))"
      using moved by (simp add: agent_after_def)
    then show ?thesis
      using run Tools_Done reaches_from [OF a reaches_finish] by (auto simp: run_live_calls_def Let_def intro: reaches_save)
  qed (use run moved in \<open>simp_all add: run_live_calls_def reaches_def agent_after_def\<close>)
qed

lemma later_stranded:
  "maybe_continue_stranded_tool_use env r n a = Continued b k \<Longrightarrow> later a b"
  "maybe_continue_stranded_tool_use env r n a = Save_Failed b k \<Longrightarrow> later a b"
  by (auto simp: maybe_continue_stranded_tool_use_def split: if_splits intro: later_ask_again)

lemma later_no_tool_calls: "handle_streaming_no_tool_calls env q n a = (v, k, b) \<Longrightarrow> later a b"
  using later_inject [of a env]
  by (auto simp: handle_streaming_no_tool_calls_def split: continuation.splits prod.splits
      intro: later_continuations later_stranded)

lemma reaches_no_calls: "reaches (worker s) (live_no_calls env r t g s)"
proof -
  obtain v k a where handled: "handle_streaming_no_tool_calls env (stop_reason g) (incomplete_continuations s) (worker s) = (v, k, a)"
    by (metis prod_cases3)
  then show ?thesis
    using later_no_tool_calls [OF handled]
    by (auto simp: live_no_calls_def reaches_def split: option.split no_tool_call_outcome.split)
qed

lemma reaches_end_of_turn: "reaches (worker s) (live_end_of_turn env r p t g s)"
  using reaches_no_calls [of s env r t g]
  by (auto simp: live_end_of_turn_def reaches_def split: continuation.splits if_splits intro: later_continuations)

lemma reaches_after_answer: "reaches (worker s) (live_after_answer env r p t cs g s)"
proof -
  have "reaches (worker s) (live_save env (s\<lparr>worker := skip_calls env m cs (worker s)\<rparr>)
      ([], Live_Finished (s\<lparr>worker := skip_calls env m cs (worker s)\<rparr>)))" for m
    by (rule reaches_save) (simp_all add: reaches_def later_skip_calls)
  moreover have "reaches (worker s) (case inject_at env ''D'' s of (es, some, s') \<Rightarrow> (es, if some then Live_Again s' else Live_Finished s'))"
    using inject_at_state [of s env "''D''"] by (simp add: reaches_def case_prod_unfold)
  ultimately show ?thesis
    by (auto simp: live_after_answer_def Let_def reaches_show_images reaches_end_of_turn reaches_run_calls split: list.split)
qed

lemma reaches_take_answer: "reaches (worker s) (take_live_answer env r p l s)"
proof -
  let ?g = "got l"
  obtain t cs where rec: "recover_text_wrapped_tool_call (json_at env) (call_suffix env (ids_made (worker s))) (said ?g) (calls ?g) = (t, cs)"
    by fastforce
  define blocks where "blocks = live_answer_blocks env t cs ?g"
  define s1 where "s1 = (if blocks = [] then s else s\<lparr>worker := add_message env Assistant blocks None (worker s)\<rparr>)"
  define s2 where "s2 = (if native_state ?g = None then s1 else s1\<lparr>worker := (worker s1)\<lparr>provider_session := None\<rparr>\<rparr>)"
  define i where "i = (if blocks = [] then None else Some (fresh_id env (ids_made (worker s))))"
  obtain cs' a where filt: "filter_truncated_tool_calls (stop_reason ?g) cs i (worker s2) = (cs', a)"
    by fastforce
  have 1: "later (worker s) (worker s1)" and 2: "later (worker s) (worker s2)"
    by (simp_all add: s1_def s2_def)
  have "later (worker s2) a"
    using later_filter_truncated [of "worker s2" "stop_reason ?g" cs i] filt by simp
  then have a: "later (worker s) (worker (s2\<lparr>worker := a\<rparr>))"
    using later_trans [OF 2] by simp
  define go where "go = live_after_answer env r p t cs' ?g (s2\<lparr>worker := a\<rparr>)"
  define saved where "saved = (case native_state ?g of None \<Rightarrow> go
      | Some (enc, covered) \<Rightarrow> live_save env s2 (sending [Sent_Compaction ''openai_native'' (native_pre l) (Some covered)] go))"
  have "reaches (worker s) go"
    unfolding go_def by (rule reaches_from [OF a reaches_after_answer])
  then have "reaches (worker s) saved"
    using 2 by (auto simp: saved_def split: option.split intro: reaches_save)
  then have "reaches (worker s) (if blocks = [] then saved else live_save env s1 saved)"
    using 1 by (auto intro: reaches_save)
  moreover have "take_live_answer env r p l s = sending (usage_events ?g
        @ (case switched_model r of Some m \<Rightarrow> [Sent_Model_Changed m] | None \<Rightarrow> [])
        @ recovery_events r (calls ?g) t cs) (if blocks = [] then saved else live_save env s1 saved)"
    using filt unfolding take_live_answer_def Let_def rec saved_def go_def s2_def s1_def i_def blocks_def by simp
  ultimately show ?thesis
    by simp
qed


lemma live_retry_in_step:
  assumes "in_step (worker s)" and "keeps_results (surroundings r)"
  shows "in_step (worker (live_state (snd (live_retry r e f s))))"
    and "in_step (worker (live_state (snd (live_refused r e s))))"
  using retry_in_step [OF assms, of e f] retry_in_step [OF assms, of e "Provider_Error e None"]
  by (auto simp: live_retry_def live_refused_def split: round_end.split)

lemma live_receive_in_step:
  fixes s :: loop_state
  assumes "in_step (worker s)" and "keeps_results (surroundings r)"
  shows "in_step (worker (live_state (snd (live_receive env r p items s))))"
proof -
  obtain ended l sid where gath: "live_gather env (rendered_image r) (length (transcript (worker s))) items nothing_seen
      (provider_session (worker s)) = (ended, l, sid)"
    by (metis prod_cases3)
  let ?s = "s\<lparr>worker := (worker s)\<lparr>provider_session := sid\<rparr>\<rparr>"
  have step: "in_step (worker ?s)"
    using assms(1) by simp
  show ?thesis
  proof (cases ended)
    case Stream_Over
    then show ?thesis
      using in_step_later [OF step] reaches_take_answer [of ?s env r p l] gath
      by (simp add: live_receive_def reaches_def sending_def Let_def)
  next
    case (Stream_Broken e f)
    then show ?thesis
      using live_retry_in_step(1) [OF step assms(2), of e f] gath by (simp add: live_receive_def sending_def Let_def)
  qed
qed

lemma live_ask_in_step:
  assumes "well_tracked (worker s)" and "\<And>i. \<not> in_flight (surroundings r) i" and "live_ask env r s = (ms, es, s1)"
  shows "in_step (worker s1)"
  using prepared_in_step(1) [of s "surroundings r" env] assms by (auto simp: live_ask_def Let_def split: prod.splits)

lemma run_live_round_in_step:
  assumes "well_tracked (worker s)" and "\<And>i. \<not> in_flight (surroundings r) i" and "keeps_results (surroundings r)"
    and "\<not> cancelled (surroundings r)"
  shows "in_step (worker (live_state (snd (run_live_round env r s))))"
proof -
  obtain ms es and s1 :: loop_state where ask: "live_ask env r s = (ms, es, s1)"
    by (metis prod_cases3)
  then have "in_step (worker s1)"
    using live_ask_in_step assms(1,2) by blast
  then show ?thesis
    using assms(3,4) live_retry_in_step(2) live_receive_in_step [of "s1\<lparr>context_limit_retries := 0\<rparr>"]
    by (simp add: run_live_round_def ask sending_def split: live_answer.split)
qed

fun live_requests :: "turn_env \<Rightarrow> live_round list \<Rightarrow> loop_state \<Rightarrow> stored_message list list" where
  "live_requests env [] s = []"
| "live_requests env (r # rs) s =
     (if cancelled (surroundings r) then []
      else transcript (prepared env (surroundings r) s)
           # (case run_live_round env r s of (es, Live_Again s') \<Rightarrow> live_requests env rs s' | _ \<Rightarrow> []))"

lemma live_requests_answered:
  assumes "well_tracked (worker s)"
    and "list_all (\<lambda>r. (\<forall>i. \<not> in_flight (surroundings r) i) \<and> keeps_results (surroundings r)) rs"
  shows "list_all all_answered (live_requests env rs s)"
  using assms
proof (induction rs arbitrary: s)
  case (Cons r rs)
  obtain es e where run: "run_live_round env r s = (es, e)"
    by fastforce
  have rest: "list_all all_answered (live_requests env rs s')" if "e = Live_Again s'" "\<not> cancelled (surroundings r)" for s'
    using run_live_round_in_step [of s r env] Cons.prems that run by (intro Cons.IH) (simp_all add: well_tracked_def)
  show ?case
    using Cons.prems prepared_in_step(2) [of s "surroundings r" env] rest by (cases e) (auto simp: run)
qed simp


definition broken_live_round :: live_round where
  "broken_live_round =
     \<lparr>surroundings = broken_round ''e'', live_answer_of = Streaming [From_Provider False (Inl ''e'')],
       rendered_image = (\<lambda>i. None), shutdown_pending = (\<lambda>c. False), switched_model = None, json_text = (\<lambda>v. []),
       queued_before = (\<lambda>k. []), tool_waits = (\<lambda>k a. Tool_Finished (Inl ''e''))\<rparr>"


end
