(* ===== verification/Spec2Isabelle.thy ===== *)
theory Spec2Isabelle
  imports Risk_Properties Work_List_Properties Plan_Graph Live_Turn Interrupts Workspace_Map
    Compaction_Properties Text_Edit Unified_Patch Apply_Patch_Properties Provider_Properties
    Strict_Properties Openai_Input_Properties Chat_Properties Anthropic_Cache Fuzzy_Properties
    Stream_Properties Agent_Live_Properties
begin

text \<open>
  A verification library for kcode, a coding agent written in Rust (the crates under
  \<open>src/crates\<close>). It models the parts of the program that carry decisions of their own and
  can be stated without the network, the terminal or the operating system.

  \<^bold>\<open>The program.\<close> An agent session sends the conversation to a language model, runs the tools
  the model calls, and goes on until there is nothing left to do. That loop is modelled here, and
  the parts around it: the gate in front of the shell tool, the work list the sessions share
  and the turns they take over it, the signal that interrupts a turn, the compaction that
  keeps the conversation within the model's window, the tools that edit files and apply
  patches, the choice of a provider's credentials and route, the rewriting of tool schemas
  into what each provider accepts, the messages of a request to OpenAI, OpenRouter, Copilot and
  Anthropic, the pacing of the streamed answer, the fuzzy matching of the pickers, and the
  map of sessions the user moves through.

  \<^bold>\<open>Theories.\<close>
  \<^item> \<open>Prelude\<close>: Rust strings as byte lists, splitting, trimming, JSON values, and the
    contracts several components satisfy: \<open>machine\<close> (operations with an invariant),
    \<open>monotone_machine\<close> (and a measure that only grows), \<open>vocabulary\<close> (words that parse back),
    which \<open>Provider_Properties\<close> extends to \<open>token_vocabulary\<close> (families of spellings).
    \<open>Scalar_Text\<close>: texts as lists of characters, for the code that counts them.
  \<^item> \<open>Risk_Types\<close>, \<open>Risk_Tokenize\<close>, \<open>Risk_Paths\<close>, \<open>Risk_Assess\<close>, \<open>Risk_Gate\<close>: the crate
    \<open>kcode-command-risk\<close> and the shell tool's \<open>bash_destructive_gate.rs\<close>. A command is
    tokenized (\<open>tokenize\<close>, with heredoc bodies removed), split into segments, unwrapped, and
    each target is expanded and classified; \<open>gate\<close> turns the assessment into a verdict.
    \<open>Risk_Protection\<close> states which paths are protected on canonical paths, and that the
    string code implements it; \<open>Risk_Lexing\<close> states what the tokenizer does with words in
    any quoting; \<open>Risk_Facts\<close> and \<open>Risk_Properties\<close> follow commands through to the verdict.
  \<^item> \<open>Plan_Kind\<close>, \<open>Task_List\<close>, \<open>Todo_Tool\<close>, \<open>Work_List_Properties\<close>: the work list of
    \<open>kcode-base/src/todo.rs\<close>, the \<open>todo\<close> tool and the vocabulary of kinds.
    \<open>Plan_Graph\<close>: the dependency graph of \<open>kcode-plan\<close>. \<open>Live_Turn\<close>: which row a session
    works next and how a run of turns ends, \<open>server/live_turn.rs\<close>.
  \<^item> \<open>Interrupts\<close>: \<open>InterruptSignal\<close> of \<open>kcode-agent-runtime\<close>, as a step relation of any
    number of threads between atomic accesses.
  \<^item> \<open>Compaction\<close>, \<open>Compaction_Manager\<close>, \<open>Compaction_Runs\<close>, \<open>Compaction_Properties\<close>: the
    crate \<open>kcode-compaction-core\<close> and the manager of \<open>kcode-base/src/compaction.rs\<close>.
  \<^item> \<open>Tool_Files\<close>, \<open>Text_Edit\<close>: the \<open>edit\<close>, \<open>multiedit\<close> and \<open>write\<close> tools of \<open>kcode-app-core/src/tool\<close>,
    over a map of files with the operations that may fail. \<open>Unified_Patch\<close>: the \<open>patch\<close> tool.
    \<open>Apply_Patch\<close>, \<open>Apply_Patch_Properties\<close>: the \<open>apply_patch\<close> tool, its parser, the search for
    the lines of a chunk, and the replacement.
  \<^item> \<open>Provider_Routes\<close>, \<open>Provider_Properties\<close>: the vocabularies of credentials, the merging of
    model routes, the fallback after a failure and the retry delay of \<open>kcode-provider-core\<close>.
  \<^item> \<open>Schema_Dialect\<close>: the crate \<open>kcode-schema-dialect\<close>, the allow-list rewrite of a tool's schema
    (\<open>walk\<close>, its transforms, \<open>apply_with_quirks\<close>) and the six dialects. \<open>Schema_Checks\<close>: its
    conformance checks. \<open>Schema_Recovery\<close>: the reading of a provider's rejection
    (\<open>classify\<close>), the store of learned quirks (\<open>with_store\<close>) and \<open>recover_from_error\<close>.
    \<open>Schema_Nodes\<close>, \<open>Schema_Properties\<close>, \<open>Schema_Learning\<close>: conditions on every schema inside a
    schema and what the rewrite, and the learning, establish. \<open>Strict_Schema\<close>,
    \<open>Strict_Properties\<close>: OpenAI's strict mode and the tools of a request.
  \<^item> \<open>Transcript\<close>: what the builders of requests share, the identifiers of calls and the text of a
    missing output. \<open>Openai_Input\<close>, \<open>Openai_Input_Properties\<close>: \<open>build_responses_input\<close> of
    \<open>kcode-provider-openai\<close>. \<open>Chat_Messages\<close>, \<open>Chat_Properties\<close>: the chat messages of
    \<open>kcode-provider-openrouter\<close> and \<open>kcode-provider-copilot\<close>, whose assistant turns both satisfy the
    contract \<open>turn_builder\<close>. \<open>Anthropic_Messages\<close>, \<open>Anthropic_Properties\<close>: \<open>format_messages\<close> of
    \<open>kcode-provider-anthropic\<close> with its deduplication, repair and merge of turns;
    \<open>Anthropic_Tools\<close>: its tools, and the names an OAuth session has to use; \<open>Anthropic_Cache\<close>:
    the marks of the prompt cache. \<open>Claude_Models\<close>: the model table in \<open>anthropic.rs\<close> of the
    provider core.
  \<^item> \<open>Fuzzy_Match\<close>, \<open>Fuzzy_Properties\<close>: the crate \<open>kcode-fuzzy\<close>, the table row by row, the tests in
    front of it and the two ways of keeping positions, whose agreement is the contract
    \<open>tracker_view\<close>.
  \<^item> \<open>Stream_Buffer\<close>, \<open>Stream_Properties\<close>: \<open>stream_buffer.rs\<close> of \<open>kcode-tui-core\<close>, the queue of text and
    reasoning, its pacing by a clock, and what the terminal sees of it.
  \<^item> \<open>Agent_Session\<close>, \<open>Agent_Turn\<close>, \<open>Agent_Properties\<close>, \<open>Agent_Replies\<close>: the agent of
    \<open>kcode-app-core/src/agent\<close>: its transcript with the repair of missing outputs, the soft
    interrupts, the recovery of responses that end early, and the blocking loop of a turn,
    \<open>run_turn\<close>, over the rounds it meets. \<open>Agent_Live\<close>, \<open>Agent_Live_Properties\<close>: the loop that streams
    to a client, \<open>run_turn_streaming_mpsc\<close>, with the events it sends, the waits that may be cut
    short, and the points at which interrupts are injected. What a round meets (a cancel, running tools, arriving
    interrupts, the provider's answer, what the compaction does) is a record of the round.
  \<^item> \<open>Workspace_Map\<close>: the rows of sessions of \<open>kcode-tui-workspace\<close>.

  \<^bold>\<open>Correspondence.\<close> A struct is a record, an enum a datatype with the source's constructors, a
  \<open>Result\<close> a sum with the error on the left, an \<open>Option\<close> an option, a \<open>String\<close> its UTF-8
  bytes. Functions keep their names; a loop is a recursive function over what is left to
  read, and the body of a long function is split where the code has blocks of its own. A
  method that changes its receiver returns the changed record. Lengths and counters are
  natural numbers; the sums that saturate do so at \<open>2 ^ 64\<close>, out of reach of strings in
  memory, except for token counts from a provider, where the saturation is written out. The
  keys of the workspace map are 32 bits wide and wrap. Usage thresholds, \<open>f32\<close> in the code,
  are exact rational comparisons with the rounding of \<open>f32\<close> written out; in the stream buffer the
  rounding is an argument, and only its pace is stated without it. The JSON objects of a
  request are datatypes with one constructor for each form the code builds.

  \<^bold>\<open>Fuel and termination.\<close> The assessment recurses through \<open>sh -c\<close> and \<open>find -exec\<close>;
  \<open>assess\<close> takes fuel, \<open>assess_returns\<close> shows that the command's length is enough when the
  command has no brace (only \<open>find\<close> rewrites text, at \<open>{}\<close>), and that more fuel changes
  nothing. The search for a free id may in principle never end; it is a partial function, and
  \<open>add_row_returns\<close> shows that it returns below \<open>36 ^ 4\<close> open rows. The loop of a hard
  compaction halves the turns it keeps; the loop that drains the stream buffer takes characters
  or entries away. Everything else is structural or has a measure.

  \<^bold>\<open>What the lemmas show.\<close> For the gate: protected paths are refused in every spelling and behind
  every wrapper, ordinary deletions run, the tokenizer is indifferent to quoting, a chain is
  as dangerous as its worst member, and a single ampersand hides what follows it. For the work
  list: well-formedness under any calls, every branch of a close, that a list can be drained,
  and how a row can be stuck. For turns: the pick, its scope, the bound of a run. For the
  signal: no cancel is lost. For compaction: the cutoff keeps calls and results together and
  is maximal, a live tail remains in every run of the manager, the size estimate is exact in
  plain runs and wrong after two others, truncation fits its limit, the oldest images go
  first. For the editing tools: what an edit, a multiple edit and an update write, on every
  branch, that a unified patch applied to its old text gives the new one, that printing and
  parsing a patch round-trips, and that protected files survive \<open>apply_patch\<close>. For providers:
  the merged routes are those of a reference definition, the fallback is the best usable
  route, every stored key reaches the command line. For schemas: the rewrite passes the
  crate's own checks for every schema and every history of rejections, destroys no meaning,
  a learned construct is never sent again, retries are bounded by the constructs named, and a
  tool that claims strict mode is closed at every depth. For requests: every call is answered,
  at once where the provider asks for that and once where it is documented so, turns alternate,
  the request is the conversation where that is well-formed, the marks of the cache keep to
  the provider's limit and stay where they were as the conversation grows, and every tool
  that is offered can be resolved when it is called. For the matcher: the tests in front of
  the table reject nothing the table would accept, positions ascend and read characters of the
  pattern, both trackers agree, a query scores the sum of its words. For the stream: nothing is
  lost, repeated or reordered under any clock, answers stay out of reasoning, the ceiling
  holds over the whole time, and frames alone drain the backlog. For a turn: every request has a result for each call, no
  call is given a second one, the calls of an answer get one result each in order whatever
  interrupts them, interrupts become messages without loss, a client shows the answer as it is
  gathered, a response sent again leaves no trace of the first attempt, and a turn
  ends after eleven rounds beside those that bring calls, images or errors; the retries of broken
  streams are not bounded. Lemmas at the end of the theories
  show where the code departs from its intent. For the map: its invariant, focus, and the visible window.

  \<^bold>\<open>Not modelled.\<close> Rendering and input of the terminal interface, sockets and processes of the
  server, HTTP and streaming of the providers, logging, the file system beyond a file that may
  fail to load or save. In the run of a work list (\<open>Live_Turn\<close>) a whole turn is one event. Of the agent
  its keepalives, statistics and prompts are left out; provider, tools and compaction are arguments of the turn. Of the tools, the difference of the \<open>similar\<close> crate is an argument, and the texts of
  descriptions, hints and parameter schemas are left out. Of the compaction manager, the
  proactive strategy (a moving average in \<open>f64\<close>) is an argument, and of the stream buffer the
  statistics over its events are left out. How serde prints a JSON value, which characters
  outside ASCII are alphanumeric and how a character is lowercased outside ASCII in the matcher
  are arguments too. Of the provider core the prices, usage reports and reasoning levels are
  left out, and of the swarm its roles and states.
\<close>

section \<open>One protected path, three tools\<close>



end
